(* ===== verification/Prelude.thy ===== *)
theory Prelude
  imports Main "HOL-Library.Word" "HOL-Library.While_Combinator"
begin

text \<open>
  What the components share: the outcomes of C++ code (an error, or a loop that never
  returns), the two binds that sequence them, loops over lists in these monads, and the
  collections of rules the component proofs use.
\<close>

named_theorems outcome_simps "rules that evaluate the two binds on known outcomes"
named_theorems invariant_intros "each operation keeps its component's invariant"
named_theorems smaller_trees "subtrees are smaller than the tree they come from"

section \<open>Outcomes of C++ code\<close>

text \<open>
  How a call can fail: \<^verbatim>\<open>std::abort\<close> after a message, a failed \<^verbatim>\<open>assert\<close>, an exception of
  the standard library that nobody catches, a null pointer that is dereferenced, and any
  other undefined behaviour.
\<close>

datatype cpp_error =
    Abort
  | AssertFailed
  | OutOfRange
  | InvalidArgument
  | NullDeref
  | UndefinedBehaviour

type_synonym 'a result = "cpp_error + 'a"

text \<open>\<open>None\<close> is a run that never returns.\<close>

type_synonym 'a outcome = "'a result option"

type_synonym i32 = "32 word"

definition rbind :: "'a result \<Rightarrow> ('a \<Rightarrow> 'b result) \<Rightarrow> 'b result" where
  "rbind m f = (case m of Inl e \<Rightarrow> Inl e | Inr x \<Rightarrow> f x)"

definition obind :: "'a outcome \<Rightarrow> ('a \<Rightarrow> 'b outcome) \<Rightarrow> 'b outcome" where
  "obind m f = Option.bind m (\<lambda>r. case r of Inl e \<Rightarrow> Some (Inl e) | Inr x \<Rightarrow> f x)"

lemma rbind_Inl [simp, outcome_simps]: "rbind (Inl e) f = Inl e"
  by (simp add: rbind_def)

lemma rbind_Inr [simp, outcome_simps]: "rbind (Inr x) f = f x"
  by (simp add: rbind_def)

lemma rbind_eq_Inr: "rbind m f = Inr y \<longleftrightarrow> (\<exists>x. m = Inr x \<and> f x = Inr y)"
  by (cases m) (auto simp: rbind_def)

lemma rbind_eq_Inl: "rbind m f = Inl e \<longleftrightarrow> m = Inl e \<or> (\<exists>x. m = Inr x \<and> f x = Inl e)"
  by (cases m) (auto simp: rbind_def)

lemma rbind_cong [fundef_cong]:
  "m = m' \<Longrightarrow> (\<And>x. m' = Inr x \<Longrightarrow> f x = f' x) \<Longrightarrow> rbind m f = rbind m' f'"
  by (cases m') (auto simp: rbind_def)

lemma obind_simps [simp, outcome_simps]:
  "obind None f = None"
  "obind (Some (Inl e)) f = Some (Inl e)"
  "obind (Some (Inr x)) f = f x"
  by (simp_all add: obind_def)

lemma obind_eq_Inr: "obind m f = Some (Inr y) \<longleftrightarrow> (\<exists>x. m = Some (Inr x) \<and> f x = Some (Inr y))"
  by (cases m) (auto simp: obind_def split: sum.splits)

lemma obind_None_tail: "(\<And>x. f x = None) \<Longrightarrow> m = None \<or> (\<exists>x. m = Some (Inr x)) \<Longrightarrow> obind m f = None"
  by (cases m) (auto simp: obind_def)

lemma obind_mono [partial_function_mono]:
  assumes "mono_option B" and "\<And>y. mono_option (\<lambda>f. C y f)"
  shows "mono_option (\<lambda>f. obind (B f) (\<lambda>y. C y f))"
  unfolding obind_def
proof (rule bind_mono [OF assms(1)])
  fix r :: "'c result"
  show "mono_option (\<lambda>f. case r of Inl e \<Rightarrow> Some (Inl e) | Inr y \<Rightarrow> C y f)"
    using assms(2) by (cases r) (auto intro: option.const_mono)
qed

section \<open>Loops over lists\<close>

fun rmap :: "('a \<Rightarrow> 'b result) \<Rightarrow> 'a list \<Rightarrow> 'b list result" where
  "rmap f [] = Inr []"
| "rmap f (x # xs) = rbind (f x) (\<lambda>y. rbind (rmap f xs) (\<lambda>ys. Inr (y # ys)))"

fun rfold :: "('a \<Rightarrow> 's \<Rightarrow> 's result) \<Rightarrow> 'a list \<Rightarrow> 's \<Rightarrow> 's result" where
  "rfold f [] s = Inr s"
| "rfold f (x # xs) s = rbind (f x s) (rfold f xs)"

fun ofold :: "('a \<Rightarrow> 's \<Rightarrow> 's outcome) \<Rightarrow> 'a list \<Rightarrow> 's \<Rightarrow> 's outcome" where
  "ofold f [] s = Some (Inr s)"
| "ofold f (x # xs) s = obind (f x s) (ofold f xs)"

lemma ofold_mono [partial_function_mono]:
  assumes "\<And>x s. mono_option (\<lambda>f. g f x s)"
  shows "mono_option (\<lambda>f. ofold (g f) xs s)"
proof (induction xs arbitrary: s)
  case (Cons x xs)
  show ?case by (simp) (rule obind_mono [OF assms Cons.IH])
qed (simp add: option.const_mono)

lemma rmap_cong [fundef_cong]:
  "xs = ys \<Longrightarrow> (\<And>x. x \<in> set ys \<Longrightarrow> f x = g x) \<Longrightarrow> rmap f xs = rmap g ys"
proof (induction ys arbitrary: xs)
  case (Cons y ys)
  have "f y = g y" and "rmap f ys = rmap g ys"
    using Cons.prems Cons.IH [OF refl] by auto
  then show ?case using Cons.prems(1) by simp
qed simp

lemma rmap_map: "rmap f (map g xs) = rmap (f \<circ> g) xs"
  by (induction xs) auto

lemma rmap_Inr: "(\<And>x. x \<in> set xs \<Longrightarrow> f x = Inr (g x)) \<Longrightarrow> rmap f xs = Inr (map g xs)"
  by (induction xs) auto

lemma rfold_cong [fundef_cong]:
  "xs = ys \<Longrightarrow> s = t \<Longrightarrow> (\<And>x s. x \<in> set ys \<Longrightarrow> f x s = g x s) \<Longrightarrow> rfold f xs s = rfold g ys t"
proof (induction ys arbitrary: xs s t)
  case (Cons y ys)
  have "f y t = g y t" and "\<And>u. rfold f ys u = rfold g ys u"
    using Cons.prems(3) Cons.IH [OF refl refl] by auto
  then show ?case using Cons.prems(1,2) by (auto intro: rbind_cong)
qed simp

lemma rfold_append: "rfold f (xs @ ys) s = rbind (rfold f xs s) (rfold f ys)"
  by (induction xs arbitrary: s) (auto simp: rbind_def split: sum.splits)

lemma ofold_append: "ofold f (xs @ ys) s = obind (ofold f xs s) (ofold f ys)"
  by (induction xs arbitrary: s) (auto simp: obind_def bind_eq_None_conv
      split: Option.bind_splits sum.splits option.splits)

lemma ofold_invariant:
  assumes step: "\<And>x s. x \<in> set xs \<Longrightarrow> P s \<Longrightarrow> \<exists>s'. f x s = Some (Inr s') \<and> P s'"
    and start: "P s"
  shows "\<exists>s'. ofold f xs s = Some (Inr s') \<and> P s'"
  using assms
proof (induction xs arbitrary: s)
  case (Cons x xs)
  obtain t where t: "f x s = Some (Inr t)" "P t"
    using Cons.prems(1) [of x s] Cons.prems(2) by auto
  have "\<exists>s'. ofold f xs t = Some (Inr s') \<and> P s'"
    by (rule Cons.IH) (use Cons.prems(1) t(2) in auto)
  then show ?case using t(1) by simp
qed simp

lemma rfold_invariant:
  assumes "rfold f xs s = Inr s'" and "P s" and "\<And>x s s'. x \<in> set xs \<Longrightarrow> P s \<Longrightarrow> f x s = Inr s' \<Longrightarrow> P s'"
  shows "P s'"
  using assms
proof (induction xs arbitrary: s)
  case (Cons x xs)
  obtain t where t: "f x s = Inr t" "rfold f xs t = Inr s'" using Cons.prems(1) by (auto simp: rbind_eq_Inr)
  show ?case by (rule Cons.IH [OF t(2) Cons.prems(3) [OF _ Cons.prems(2) t(1)]]) (use Cons.prems(3) in auto)
qed simp

lemma rfold_total:
  assumes step: "\<And>x s. x \<in> set xs \<Longrightarrow> P s \<Longrightarrow> \<exists>s'. f x s = Inr s' \<and> P s'" and start: "P s"
  shows "\<exists>s'. rfold f xs s = Inr s' \<and> P s'"
  using assms
proof (induction xs arbitrary: s)
  case (Cons x xs)
  obtain t where t: "f x s = Inr t" "P t" using Cons.prems(1) [of x s] Cons.prems(2) by auto
  have "\<exists>s'. rfold f xs t = Inr s' \<and> P s'"
    by (rule Cons.IH) (use Cons.prems(1) t(2) in auto)
  then show ?case using t(1) by simp
qed simp

section \<open>Runs that return\<close>

definition returns :: "'a outcome \<Rightarrow> bool" where
  "returns r \<longleftrightarrow> (\<exists>x. r = Some (Inr x))"

named_theorems returns_intros "what returns a value"

lemma returns_Inr [returns_intros]: "returns (Some (Inr x))"
  by (simp add: returns_def)

lemma returns_obind [returns_intros]:
  "returns r \<Longrightarrow> (\<And>x. r = Some (Inr x) \<Longrightarrow> returns (f x)) \<Longrightarrow> returns (obind r f)"
  by (auto simp: returns_def)

lemma returns_if [returns_intros]:
  "(c \<Longrightarrow> returns a) \<Longrightarrow> (\<not> c \<Longrightarrow> returns b) \<Longrightarrow> returns (if c then a else b)"
  by simp

section \<open>Lists and closures\<close>

lemma find_Some_mem: "List.find P xs = Some x \<Longrightarrow> x \<in> set xs \<and> P x"
  by (auto simp: find_Some_iff)

lemma rtranclp_closed_set:
  assumes "\<And>x y. x \<in> S \<Longrightarrow> r x y \<Longrightarrow> y \<in> S" and "r\<^sup>*\<^sup>* a b" and "a \<in> S"
  shows "b \<in> S"
  using assms(2,3,1) by (induction rule: rtranclp_induct) auto

lemma rtranclp_closed_cong:
  assumes r: "\<And>x y. x \<in> S \<Longrightarrow> r x y \<longleftrightarrow> r' x y" and S: "\<And>x y. x \<in> S \<Longrightarrow> r x y \<Longrightarrow> y \<in> S" and a: "a \<in> S"
  shows "r\<^sup>*\<^sup>* a b \<longleftrightarrow> r'\<^sup>*\<^sup>* a b"
proof
  assume "r\<^sup>*\<^sup>* a b"
  then have "r'\<^sup>*\<^sup>* a b \<and> b \<in> S"
    by (induction rule: rtranclp_induct) (use a r S in \<open>auto intro: rtranclp.rtrancl_into_rtrancl\<close>)
  then show "r'\<^sup>*\<^sup>* a b" ..
next
  assume "r'\<^sup>*\<^sup>* a b"
  then have "r\<^sup>*\<^sup>* a b \<and> b \<in> S"
    by (induction rule: rtranclp_induct) (use a r S in \<open>auto intro: rtranclp.rtrancl_into_rtrancl\<close>)
  then show "r\<^sup>*\<^sup>* a b" ..
qed

section \<open>Decimal numbers\<close>

text \<open>\<^verbatim>\<open>std::to_string\<close> of a number that is not negative.\<close>

fun digits :: "nat \<Rightarrow> string" where
  "digits n = (if n < 10 then [char_of (48 + n)] else digits (n div 10) @ [char_of (48 + n mod 10)])"

declare digits.simps [simp del]

lemma digits_nonempty [simp]: "digits n \<noteq> []"
  by (subst digits.simps) simp

lemma digits_length: "n < 10 ^ k \<Longrightarrow> 0 < k \<Longrightarrow> length (digits n) \<le> k"
proof (induction n arbitrary: k rule: digits.induct)
  case (1 n)
  show ?case
  proof (cases "n < 10")
    case True
    then show ?thesis using 1(3) by (subst digits.simps) simp
  next
    case False
    then obtain j where j: "k = Suc j" "0 < j" using 1(2,3) by (cases k; cases "k - 1") auto
    then have "n div 10 < 10 ^ j" using 1(2) by (simp add: less_mult_imp_div_less)
    then show ?thesis using 1(1) [OF False] j False by (subst digits.simps) simp
  qed
qed

text \<open>\<^verbatim>\<open>std::to_string\<close> of an \<^verbatim>\<open>int\<close>.\<close>

definition to_string :: "i32 \<Rightarrow> string" where
  "to_string w = (if sint w < 0 then CHR ''-'' # digits (nat (- sint w)) else digits (nat (sint w)))"

end
