(* ===== verification/Cfg.thy ===== *)
theory Cfg
  imports Prelude
begin

text \<open>
  The control-flow graph a function carries: \<^verbatim>\<open>Function::basic_blocks_\<close> and, for every basic
  block, the lists \<^verbatim>\<open>pre_bbs_\<close> and \<^verbatim>\<open>succ_bbs_\<close> of \<^verbatim>\<open>BasicBlock.h\<close>, with the operations that
  change them (\<^verbatim>\<open>BranchInst::create_br\<close>, \<^verbatim>\<open>create_cond_br\<close> of \<^verbatim>\<open>Instruction.cpp\<close> and
  \<^verbatim>\<open>Function::remove\<close> of \<^verbatim>\<open>Function.cpp\<close>). A basic block is its address, and the order of two
  addresses is the order of the numbers.
\<close>

section \<open>The graph and its operations\<close>

type_synonym bb = nat

record cfg =
  basic_blocks :: "bb list"
  pre_bbs :: "bb \<Rightarrow> bb list"
  succ_bbs :: "bb \<Rightarrow> bb list"

definition add_pre_basic_block :: "bb \<Rightarrow> bb \<Rightarrow> cfg \<Rightarrow> cfg" where
  "add_pre_basic_block this b g = g\<lparr>pre_bbs := (pre_bbs g)(this := pre_bbs g this @ [b])\<rparr>"

definition add_succ_basic_block :: "bb \<Rightarrow> bb \<Rightarrow> cfg \<Rightarrow> cfg" where
  "add_succ_basic_block this b g = g\<lparr>succ_bbs := (succ_bbs g)(this := succ_bbs g this @ [b])\<rparr>"

definition remove_pre_basic_block :: "bb \<Rightarrow> bb \<Rightarrow> cfg \<Rightarrow> cfg" where
  "remove_pre_basic_block this b g = g\<lparr>pre_bbs := (pre_bbs g)(this := removeAll b (pre_bbs g this))\<rparr>"

definition remove_succ_basic_block :: "bb \<Rightarrow> bb \<Rightarrow> cfg \<Rightarrow> cfg" where
  "remove_succ_basic_block this b g = g\<lparr>succ_bbs := (succ_bbs g)(this := removeAll b (succ_bbs g this))\<rparr>"

text \<open>\<^verbatim>\<open>Function::add_basic_block\<close>: a new block has no neighbours.\<close>

definition add_basic_block :: "bb \<Rightarrow> cfg \<Rightarrow> cfg" where
  "add_basic_block b g = g\<lparr>basic_blocks := basic_blocks g @ [b],
     pre_bbs := (pre_bbs g)(b := []), succ_bbs := (succ_bbs g)(b := [])\<rparr>"

text \<open>The edges a branch adds; the instruction itself is not part of the graph.\<close>

definition br_edges :: "bb \<Rightarrow> bb \<Rightarrow> cfg \<Rightarrow> cfg" where
  "br_edges if_true this g =
     add_succ_basic_block this if_true (add_pre_basic_block if_true this g)"

definition cond_br_edges :: "bb \<Rightarrow> bb \<Rightarrow> bb \<Rightarrow> cfg \<Rightarrow> cfg" where
  "cond_br_edges if_true if_false this g =
     add_succ_basic_block this if_true
      (add_succ_basic_block this if_false
        (add_pre_basic_block if_false this
          (add_pre_basic_block if_true this g)))"

text \<open>\<^verbatim>\<open>Function::remove\<close>: \<open>b\<close> leaves the list of blocks and the lists of its neighbours.\<close>

definition remove_block :: "bb \<Rightarrow> cfg \<Rightarrow> cfg" where
  "remove_block b g =
     (let g1 = g\<lparr>basic_blocks := removeAll b (basic_blocks g)\<rparr>;
          g2 = fold (\<lambda>pre. remove_succ_basic_block pre b) (pre_bbs g1 b) g1
      in fold (\<lambda>succ. remove_pre_basic_block succ b) (succ_bbs g2 b) g2)"

text \<open>\<^verbatim>\<open>get_entry_block\<close> dereferences \<^verbatim>\<open>begin()\<close>, which needs a block.\<close>

definition get_entry_block :: "cfg \<Rightarrow> bb result" where
  "get_entry_block g = (case basic_blocks g of [] \<Rightarrow> Inl UndefinedBehaviour | b # _ \<Rightarrow> Inr b)"

section \<open>Well-formed graphs\<close>

text \<open>
  The two lists of edges mirror each other with multiplicity, and they stay inside the
  function. A block that was removed keeps its own lists, so only listed blocks count.
\<close>

definition cfg_wf :: "cfg \<Rightarrow> bool" where
  "cfg_wf g \<longleftrightarrow> distinct (basic_blocks g) \<and>
     (\<forall>b \<in> set (basic_blocks g).
        set (pre_bbs g b) \<subseteq> set (basic_blocks g) \<and> set (succ_bbs g b) \<subseteq> set (basic_blocks g) \<and>
        (\<forall>a \<in> set (basic_blocks g). count_list (pre_bbs g b) a = count_list (succ_bbs g a) b))"

definition edge :: "cfg \<Rightarrow> bb \<Rightarrow> bb \<Rightarrow> bool" where
  "edge g a b \<longleftrightarrow> b \<in> set (succ_bbs g a)"

lemma cfg_wf_mirror:
  assumes "cfg_wf g" "a \<in> set (basic_blocks g)" "b \<in> set (basic_blocks g)"
  shows "a \<in> set (pre_bbs g b) \<longleftrightarrow> b \<in> set (succ_bbs g a)"
proof -
  have "count_list (pre_bbs g b) a = count_list (succ_bbs g a) b"
    using assms by (simp add: cfg_wf_def)
  then show ?thesis by (metis count_list_0_iff)
qed

lemma cfg_wf_closed:
  assumes "cfg_wf g" "b \<in> set (basic_blocks g)"
  shows "set (pre_bbs g b) \<subseteq> set (basic_blocks g)" "set (succ_bbs g b) \<subseteq> set (basic_blocks g)"
  using assms by (auto simp: cfg_wf_def)

lemma count_list_removeAll [simp]:
  "count_list (removeAll a xs) b = (if a = b then 0 else count_list xs b)"
  by (induction xs) auto

lemma cfg_wfI:
  assumes "distinct (basic_blocks g)"
    and "\<And>b. b \<in> set (basic_blocks g) \<Longrightarrow> set (pre_bbs g b) \<subseteq> set (basic_blocks g)"
    and "\<And>b. b \<in> set (basic_blocks g) \<Longrightarrow> set (succ_bbs g b) \<subseteq> set (basic_blocks g)"
    and "\<And>a b. a \<in> set (basic_blocks g) \<Longrightarrow> b \<in> set (basic_blocks g) \<Longrightarrow>
      count_list (pre_bbs g b) a = count_list (succ_bbs g a) b"
  shows "cfg_wf g"
  using assms by (simp add: cfg_wf_def)

lemma cfg_wf_count:
  assumes "cfg_wf g" "a \<in> set (basic_blocks g)" "b \<in> set (basic_blocks g)"
  shows "count_list (pre_bbs g b) a = count_list (succ_bbs g a) b"
  using assms by (simp add: cfg_wf_def)

lemma cfg_wf_distinct: "cfg_wf g \<Longrightarrow> distinct (basic_blocks g)"
  by (simp add: cfg_wf_def)

section \<open>Every operation keeps the graph well formed\<close>

lemma add_basic_block_wf [invariant_intros]:
  assumes "cfg_wf g" "b \<notin> set (basic_blocks g)"
  shows "cfg_wf (add_basic_block b g)"
proof (rule cfg_wfI)
  have fresh: "count_list (succ_bbs g a) b = 0" "count_list (pre_bbs g a) b = 0"
    if "a \<in> set (basic_blocks g)" for a
    using assms(2) cfg_wf_closed [OF assms(1) that] by (auto simp: count_list_0_iff)
  show "distinct (basic_blocks (add_basic_block b g))"
    using assms by (simp add: add_basic_block_def cfg_wf_distinct)
  fix c
  assume c: "c \<in> set (basic_blocks (add_basic_block b g))"
  show "set (pre_bbs (add_basic_block b g) c) \<subseteq> set (basic_blocks (add_basic_block b g))"
    and "set (succ_bbs (add_basic_block b g) c) \<subseteq> set (basic_blocks (add_basic_block b g))"
    using c cfg_wf_closed [OF assms(1), of c] by (auto simp: add_basic_block_def)
  fix a
  assume "a \<in> set (basic_blocks (add_basic_block b g))"
  then show "count_list (pre_bbs (add_basic_block b g) c) a =
      count_list (succ_bbs (add_basic_block b g) a) c"
    using c fresh cfg_wf_count [OF assms(1), of a c] by (auto simp: add_basic_block_def)
qed

lemma edges_fields:
  "basic_blocks (add_pre_basic_block x y g) = basic_blocks g"
  "basic_blocks (add_succ_basic_block x y g) = basic_blocks g"
  "pre_bbs (add_pre_basic_block x y g) c = pre_bbs g c @ (if c = x then [y] else [])"
  "pre_bbs (add_succ_basic_block x y g) = pre_bbs g"
  "succ_bbs (add_succ_basic_block x y g) c = succ_bbs g c @ (if c = x then [y] else [])"
  "succ_bbs (add_pre_basic_block x y g) = succ_bbs g"
  by (simp_all add: add_pre_basic_block_def add_succ_basic_block_def)

lemma br_edges_wf [invariant_intros]:
  assumes "cfg_wf g" "t \<in> set (basic_blocks g)" "b \<in> set (basic_blocks g)"
  shows "cfg_wf (br_edges t b g)"
  by (rule cfg_wfI; use assms in \<open>auto simp: br_edges_def edges_fields cfg_wf_distinct cfg_wf_count
      dest: cfg_wf_closed [THEN subsetD]\<close>)

lemma cond_br_edges_wf [invariant_intros]:
  assumes "cfg_wf g" "t \<in> set (basic_blocks g)" "f \<in> set (basic_blocks g)" "b \<in> set (basic_blocks g)"
  shows "cfg_wf (cond_br_edges t f b g)"
  by (rule cfg_wfI; use assms in \<open>auto simp: cond_br_edges_def edges_fields cfg_wf_distinct cfg_wf_count
      dest: cfg_wf_closed [THEN subsetD]\<close>)

lemma fold_remove_succ:
  "fold (\<lambda>p. remove_succ_basic_block p b) ps g =
     g\<lparr>succ_bbs := (\<lambda>a. if a \<in> set ps then removeAll b (succ_bbs g a) else succ_bbs g a)\<rparr>"
  by (induction ps arbitrary: g) (auto simp: remove_succ_basic_block_def fun_eq_iff)

lemma fold_remove_pre:
  "fold (\<lambda>s. remove_pre_basic_block s b) ss g =
     g\<lparr>pre_bbs := (\<lambda>a. if a \<in> set ss then removeAll b (pre_bbs g a) else pre_bbs g a)\<rparr>"
  by (induction ss arbitrary: g) (auto simp: remove_pre_basic_block_def fun_eq_iff)

lemma remove_block_fields:
  "basic_blocks (remove_block b g) = removeAll b (basic_blocks g)"
  "succ_bbs (remove_block b g) a =
     (if a \<in> set (pre_bbs g b) then removeAll b (succ_bbs g a) else succ_bbs g a)"
  "a \<noteq> b \<Longrightarrow> pre_bbs (remove_block b g) a =
     (if a \<in> set (succ_bbs g b) then removeAll b (pre_bbs g a) else pre_bbs g a)"
  by (auto simp: remove_block_def fold_remove_succ fold_remove_pre Let_def)

lemma remove_block_wf [invariant_intros]:
  assumes "cfg_wf g" "b \<in> set (basic_blocks g)"
  shows "cfg_wf (remove_block b g)"
proof -
  let ?h = "remove_block b g"
  have succ: "succ_bbs ?h a = removeAll b (succ_bbs g a)"
    and pre: "pre_bbs ?h a = removeAll b (pre_bbs g a)"
    if "a \<in> set (basic_blocks g)" "a \<noteq> b" for a
    using that assms cfg_wf_mirror [OF assms(1) that(1) assms(2)]
      cfg_wf_mirror [OF assms(1) assms(2) that(1)]
    by (auto simp: remove_block_fields removeAll_id)
  show ?thesis
  proof (rule cfg_wfI)
    show "distinct (basic_blocks ?h)"
      using assms(1) by (simp add: remove_block_fields(1) distinct_removeAll cfg_wf_distinct)
  next
    fix c
    assume "c \<in> set (basic_blocks ?h)"
    then have c: "c \<in> set (basic_blocks g)" "c \<noteq> b" by (auto simp: remove_block_fields(1))
    show "set (pre_bbs ?h c) \<subseteq> set (basic_blocks ?h)" "set (succ_bbs ?h c) \<subseteq> set (basic_blocks ?h)"
      using cfg_wf_closed [OF assms(1) c(1)] by (auto simp: pre [OF c] succ [OF c] remove_block_fields(1))
    fix a
    assume "a \<in> set (basic_blocks ?h)"
    then have a: "a \<in> set (basic_blocks g)" "a \<noteq> b" by (auto simp: remove_block_fields(1))
    show "count_list (pre_bbs ?h c) a = count_list (succ_bbs ?h a) c"
      using a(2) c(2) by (simp add: pre [OF c] succ [OF a] cfg_wf_count [OF assms(1) a(1) c(1)])
  qed
qed

end
