(* ===== verification/Dominators.thy ===== *)
theory Dominators
  imports Cfg
begin

text \<open>
  The dominator pass of \<^verbatim>\<open>Dominators.h\<close> and \<^verbatim>\<open>Dominators.cpp\<close>: its maps, their accessors and
  the four steps \<^verbatim>\<open>run\<close> performs on a function (reverse post-order, immediate dominators after
  Cooper, Harvey and Kennedy, dominance frontiers, the children in the dominator tree), and
  \<^verbatim>\<open>create_doms\<close>, which no caller uses.
\<close>

section \<open>State\<close>

text \<open>
  A block pointer is \<open>bb option\<close>, \<open>None\<close> being \<^verbatim>\<open>nullptr\<close>. The maps are only read through
  \<^verbatim>\<open>operator[]\<close>, which makes the default value for a key that is missing, so they are total:
  \<open>None\<close> for \<^verbatim>\<open>idom_\<close>, the empty set for the maps to sets. \<^verbatim>\<open>post_order_id_\<close> is cleared,
  hence a partial map that \<open>po\<close> reads with its default 0.
\<close>

record dominators =
  reverse_post_order :: "bb list"
  post_order_id :: "bb \<rightharpoonup> nat"
  doms :: "bb \<Rightarrow> bb set"
  idom :: "bb option \<Rightarrow> bb option"
  dom_frontier :: "bb option \<Rightarrow> bb set"
  dom_tree_succ_blocks :: "bb option \<Rightarrow> bb set"

definition dominators_init :: dominators where
  "dominators_init = \<lparr>reverse_post_order = [], post_order_id = Map.empty, doms = (\<lambda>_. {}),
     idom = (\<lambda>_. None), dom_frontier = (\<lambda>_. {}), dom_tree_succ_blocks = (\<lambda>_. {})\<rparr>"

definition po :: "dominators \<Rightarrow> bb \<Rightarrow> nat" where
  "po d b = (case post_order_id d b of None \<Rightarrow> 0 | Some n \<Rightarrow> n)"

definition add_dom :: "bb \<Rightarrow> bb \<Rightarrow> dominators \<Rightarrow> dominators" where
  "add_dom b dom_bb d = d\<lparr>doms := (doms d)(b := insert dom_bb (doms d b))\<rparr>"

definition set_doms :: "bb \<Rightarrow> bb set \<Rightarrow> dominators \<Rightarrow> dominators" where
  "set_doms b s d = d\<lparr>doms := (doms d)(b := s)\<rparr>"

definition get_idom :: "dominators \<Rightarrow> bb option \<Rightarrow> bb option" where
  "get_idom d b = idom d b"

definition set_idom :: "bb option \<Rightarrow> bb option \<Rightarrow> dominators \<Rightarrow> dominators" where
  "set_idom b i d = d\<lparr>idom := (idom d)(b := i)\<rparr>"

definition add_dominance_frontier :: "bb option \<Rightarrow> bb \<Rightarrow> dominators \<Rightarrow> dominators" where
  "add_dominance_frontier b df d = d\<lparr>dom_frontier := (dom_frontier d)(b := insert df (dom_frontier d b))\<rparr>"

definition get_dominance_frontier :: "dominators \<Rightarrow> bb option \<Rightarrow> bb set" where
  "get_dominance_frontier d b = dom_frontier d b"

definition set_dominance_frontier :: "bb option \<Rightarrow> bb set \<Rightarrow> dominators \<Rightarrow> dominators" where
  "set_dominance_frontier b df d = d\<lparr>dom_frontier := (dom_frontier d)(b := df)\<rparr>"

definition get_doms :: "dominators \<Rightarrow> bb \<Rightarrow> bb set" where
  "get_doms d b = doms d b"

definition add_dom_tree_succ_block :: "bb option \<Rightarrow> bb \<Rightarrow> dominators \<Rightarrow> dominators" where
  "add_dom_tree_succ_block b c d =
     d\<lparr>dom_tree_succ_blocks := (dom_tree_succ_blocks d)(b := insert c (dom_tree_succ_blocks d b))\<rparr>"

definition get_dom_tree_succ_blocks :: "dominators \<Rightarrow> bb option \<Rightarrow> bb set" where
  "get_dom_tree_succ_blocks d b = dom_tree_succ_blocks d b"

section \<open>Reverse post-order\<close>

text \<open>
  The recursion of \<^verbatim>\<open>post_order_visit\<close> on unvisited successors. The fuel bounds the depth of
  the recursion; \<open>None\<close> is running out of it. The number of blocks is enough
  (\<open>post_order_visit_total\<close> in theory \<open>Post_Order\<close>).
\<close>

fun post_order_visit :: "nat \<Rightarrow> cfg \<Rightarrow> bb \<Rightarrow> bb set \<times> dominators \<Rightarrow> (bb set \<times> dominators) option"
  and visit_succs :: "nat \<Rightarrow> cfg \<Rightarrow> bb list \<Rightarrow> bb set \<times> dominators \<Rightarrow> (bb set \<times> dominators) option"
where
  "post_order_visit 0 g b s = None"
| "post_order_visit (Suc n) g b (visited, d) =
     (case visit_succs n g (succ_bbs g b) (insert b visited, d) of
        None \<Rightarrow> None
      | Some (visited', d') \<Rightarrow>
          Some (visited',
            d'\<lparr>post_order_id := (post_order_id d')(b \<mapsto> length (reverse_post_order d')),
               reverse_post_order := reverse_post_order d' @ [b]\<rparr>))"
| "visit_succs n g [] s = Some s"
| "visit_succs n g (b # bs) s =
     (if b \<in> fst s then visit_succs n g bs s
      else case post_order_visit n g b s of
             None \<Rightarrow> None
           | Some s' \<Rightarrow> visit_succs n g bs s')"

definition create_reverse_post_order :: "cfg \<Rightarrow> dominators \<Rightarrow> dominators outcome" where
  "create_reverse_post_order g d =
     obind (Some (get_entry_block g)) (\<lambda>root.
       case post_order_visit (length (basic_blocks g)) g root
              ({}, d\<lparr>reverse_post_order := [], post_order_id := Map.empty\<rparr>) of
         None \<Rightarrow> None
       | Some (_, d') \<Rightarrow> Some (Inr (d'\<lparr>reverse_post_order := rev (reverse_post_order d')\<rparr>)))"

section \<open>Immediate dominators\<close>

text \<open>
  One of the two inner loops of \<^verbatim>\<open>intersect\<close>: follow \<^verbatim>\<open>idom_\<close> from \<open>b1\<close> while its number is
  below that of \<open>b2\<close>. The assertion fails on a block without an \<^verbatim>\<open>idom_\<close>.
\<close>

partial_function (option) climb :: "dominators \<Rightarrow> bb \<Rightarrow> bb \<Rightarrow> bb outcome" where
  "climb d b1 b2 =
     (if po d b1 < po d b2
      then (case get_idom d (Some b1) of
              None \<Rightarrow> Some (Inl AssertFailed)
            | Some b \<Rightarrow> climb d b b2)
      else Some (Inr b1))"

partial_function (option) intersect :: "dominators \<Rightarrow> bb \<Rightarrow> bb \<Rightarrow> bb outcome" where
  "intersect d b1 b2 =
     (if b1 = b2 then Some (Inr b1)
      else obind (climb d b1 b2) (\<lambda>b1.
           obind (climb d b2 b1) (\<lambda>b2. intersect d b1 b2)))"

definition merge_preds :: "dominators \<Rightarrow> bb \<Rightarrow> bb list \<Rightarrow> bb \<Rightarrow> bb outcome" where
  "merge_preds d pred ps new_idom =
     ofold (\<lambda>p new_idom.
              if p = pred then Some (Inr new_idom)
              else if get_idom d (Some p) \<noteq> None then intersect d p new_idom
              else Some (Inr new_idom)) ps new_idom"

definition idom_visit :: "cfg \<Rightarrow> bb \<Rightarrow> bb \<Rightarrow> dominators \<times> bool \<Rightarrow> (dominators \<times> bool) outcome" where
  "idom_visit g root b = (\<lambda>(d, changed).
     if b = root then Some (Inr (d, changed))
     else case List.find (\<lambda>p. get_idom d (Some p) \<noteq> None) (pre_bbs g b) of
            None \<Rightarrow> Some (Inl AssertFailed)
          | Some pred \<Rightarrow>
              obind (merge_preds d pred (pre_bbs g b) pred) (\<lambda>new_idom.
                if get_idom d (Some b) \<noteq> Some new_idom
                then Some (Inr (set_idom (Some b) (Some new_idom) d, True))
                else Some (Inr (d, changed))))"

definition idom_pass :: "cfg \<Rightarrow> bb \<Rightarrow> dominators \<Rightarrow> (dominators \<times> bool) outcome" where
  "idom_pass g root d = ofold (idom_visit g root) (reverse_post_order d) (d, False)"

partial_function (option) idom_loop :: "cfg \<Rightarrow> bb \<Rightarrow> dominators \<Rightarrow> dominators outcome" where
  "idom_loop g root d =
     obind (idom_pass g root d) (\<lambda>r.
       if snd r then idom_loop g root (fst r) else Some (Inr (fst r)))"

definition create_idom :: "cfg \<Rightarrow> dominators \<Rightarrow> dominators outcome" where
  "create_idom g d =
     (let d1 = fold (\<lambda>b. set_idom (Some b) None) (basic_blocks g) d in
      obind (Some (get_entry_block g)) (\<lambda>root.
        idom_loop g root (set_idom (Some root) (Some root) d1)))"

section \<open>Dominance frontiers and the dominator tree\<close>

partial_function (option) df_runner :: "bb option \<Rightarrow> bb \<Rightarrow> dominators \<Rightarrow> dominators outcome" where
  "df_runner runner b d =
     (if runner \<noteq> get_idom d (Some b)
      then df_runner (get_idom d runner) b (add_dominance_frontier runner b d)
      else Some (Inr d))"

definition df_block :: "cfg \<Rightarrow> bb \<Rightarrow> dominators \<Rightarrow> dominators outcome" where
  "df_block g b d =
     (if length (pre_bbs g b) \<ge> 2
      then ofold (\<lambda>p. df_runner (Some p) b) (pre_bbs g b) d
      else Some (Inr d))"

definition create_dominance_frontier :: "cfg \<Rightarrow> dominators \<Rightarrow> dominators outcome" where
  "create_dominance_frontier g d = ofold (df_block g) (basic_blocks g) d"

definition create_dom_tree_succ :: "cfg \<Rightarrow> dominators \<Rightarrow> dominators" where
  "create_dom_tree_succ g d =
     fold (\<lambda>b d. let i = get_idom d (Some b) in
             if i \<noteq> Some b then add_dom_tree_succ_block i b d else d) (basic_blocks g) d"

section \<open>The pass\<close>

definition run_function :: "cfg \<Rightarrow> dominators \<Rightarrow> dominators outcome" where
  "run_function g d =
     (if basic_blocks g = [] then Some (Inr d)
      else obind (create_reverse_post_order g d) (\<lambda>d1.
           obind (create_idom g d1) (\<lambda>d2.
           obind (create_dominance_frontier g d2) (\<lambda>d3.
             Some (Inr (create_dom_tree_succ g d3))))))"

definition run_dominators :: "cfg list \<Rightarrow> dominators outcome" where
  "run_dominators fs = ofold run_function fs dominators_init"

section \<open>The unused dominator sets\<close>

text \<open>\<^verbatim>\<open>std::set_intersection\<close> on two ranges: what it writes to the output.\<close>

fun set_intersection :: "bb list \<Rightarrow> bb list \<Rightarrow> bb list" where
  "set_intersection (x # xs) (y # ys) =
     (if x < y then set_intersection xs (y # ys)
      else if y < x then set_intersection (x # xs) ys
      else x # set_intersection xs ys)"
| "set_intersection _ _ = []"

text \<open>
  The loop over the predecessors after the first, over the vector \<^verbatim>\<open>pre\<close> and the size of the
  vector \<^verbatim>\<open>ret\<close>. \<^verbatim>\<open>set_intersection\<close> writes to \<^verbatim>\<open>ret.begin()\<close>, which is undefined when \<^verbatim>\<open>ret\<close> is
  shorter than the output, and it requires both ranges to be sorted. \<^verbatim>\<open>pre.resize\<close> only ever shrinks \<^verbatim>\<open>pre\<close>, and what is left of it stays
  behind the inserted \<^verbatim>\<open>ret\<close>.
\<close>

fun doms_preds :: "dominators \<Rightarrow> bb list \<Rightarrow> bb list \<times> nat \<Rightarrow> (bb list \<times> nat) result" where
  "doms_preds d [] s = Inr s"
| "doms_preds d (p # ps) (pre, ret_size) =
     (let out = set_intersection pre (sorted_list_of_set (doms d p)) in
      if length out > ret_size \<or> \<not> sorted pre then Inl UndefinedBehaviour
      else doms_preds d ps (out @ take (length out) pre, length out))"

definition doms_visit :: "cfg \<Rightarrow> bb \<Rightarrow> dominators \<times> bool \<Rightarrow> (dominators \<times> bool) result" where
  "doms_visit g b = (\<lambda>(d, changed).
     case pre_bbs g b of
       [] \<Rightarrow> Inl UndefinedBehaviour
     | first # rest \<Rightarrow>
         rbind (doms_preds d rest (sorted_list_of_set (doms d first), length (basic_blocks g)))
           (\<lambda>(pre, _).
             let new = insert b (set pre) in
             if doms d b \<noteq> new then Inr (set_doms b new d, True) else Inr (d, changed)))"

partial_function (option) doms_loop :: "cfg \<Rightarrow> dominators \<Rightarrow> dominators outcome" where
  "doms_loop g d =
     obind (Some (rfold (doms_visit g) (basic_blocks g) (d, False))) (\<lambda>r.
       if snd r then doms_loop g (fst r) else Some (Inr (fst r)))"

definition create_doms :: "cfg \<Rightarrow> dominators \<Rightarrow> dominators outcome" where
  "create_doms g d = doms_loop g (fold (\<lambda>b. add_dom b b) (basic_blocks g) d)"

section \<open>Debug output\<close>

text \<open>
  The names \<^verbatim>\<open>bb_id\<close>: the name of a block (\<open>name\<close> stands for \<^verbatim>\<open>get_name\<close>), or \<^verbatim>\<open>bb\<close> and its position. The
  map is read with \<^verbatim>\<open>operator[]\<close>, so a block of another function prints as the empty string.
\<close>

fun find_index_of :: "'a \<Rightarrow> 'a list \<Rightarrow> nat option" where
  "find_index_of x [] = None"
| "find_index_of x (y # ys) = (if x = y then Some 0 else map_option Suc (find_index_of x ys))"

definition bb_id :: "(bb \<Rightarrow> string) \<Rightarrow> cfg \<Rightarrow> bb \<Rightarrow> string" where
  "bb_id name g b =
     (case find_index_of b (basic_blocks g) of
        None \<Rightarrow> []
      | Some i \<Rightarrow> if name b = [] then ''bb'' @ digits i else name b)"

definition print_idom :: "(bb \<Rightarrow> string) \<Rightarrow> string \<Rightarrow> cfg \<Rightarrow> dominators \<Rightarrow> string list" where
  "print_idom name fname g d =
     (''Immediate dominance of function '' @ fname @ '':'') #
     map (\<lambda>b. bb_id name g b @ '': '' @
            (case get_idom d (Some b) of Some i \<Rightarrow> bb_id name g i | None \<Rightarrow> ''null''))
         (basic_blocks g)"

fun comma_list :: "string list \<Rightarrow> string" where
  "comma_list [] = []"
| "comma_list [s] = s"
| "comma_list (s # ss) = s @ '', '' @ comma_list ss"

definition print_dominance_frontier :: "(bb \<Rightarrow> string) \<Rightarrow> string \<Rightarrow> cfg \<Rightarrow> dominators \<Rightarrow> string list" where
  "print_dominance_frontier name fname g d =
     (''Dominance Frontier of function '' @ fname @ '':'') #
     map (\<lambda>b. bb_id name g b @ '': '' @
            (let df = sorted_list_of_set (get_dominance_frontier d (Some b)) in
             if df = [] then ''null'' else comma_list (map (bb_id name g) df)))
         (basic_blocks g)"

end
