(* ===== verification/Dominance.thy ===== *)
theory Dominance
  imports Cfg
begin

text \<open>
  The specification the dominator pass is checked against: paths of a graph from its root,
  domination over all paths, immediate dominators and dominance frontiers. Paths are kept
  with their last node first. The second half relates domination to paths with few
  retreating edges, for a numbering \<open>po\<close> of the nodes: it is what bounds the number of
  passes of \<^verbatim>\<open>create_idom\<close>.
\<close>

section \<open>Paths and domination\<close>

inductive rpath :: "('a \<Rightarrow> 'a \<Rightarrow> bool) \<Rightarrow> 'a \<Rightarrow> 'a \<Rightarrow> 'a list \<Rightarrow> bool" for E r where
  rpath_root: "rpath E r r [r]"
| rpath_step: "rpath E r u xs \<Longrightarrow> E u v \<Longrightarrow> rpath E r v (v # xs)"

inductive_cases rpath_NilE: "rpath E r v []"
inductive_cases rpath_ConsE: "rpath E r v (w # xs)"

definition dominates :: "('a \<Rightarrow> 'a \<Rightarrow> bool) \<Rightarrow> 'a \<Rightarrow> 'a \<Rightarrow> 'a \<Rightarrow> bool" where
  "dominates E r d v \<longleftrightarrow> (\<forall>xs. rpath E r v xs \<longrightarrow> d \<in> set xs)"

definition sdominates :: "('a \<Rightarrow> 'a \<Rightarrow> bool) \<Rightarrow> 'a \<Rightarrow> 'a \<Rightarrow> 'a \<Rightarrow> bool" where
  "sdominates E r d v \<longleftrightarrow> dominates E r d v \<and> d \<noteq> v"

text \<open>The immediate dominator: a strict dominator that every strict dominator dominates.\<close>

definition is_idom :: "('a \<Rightarrow> 'a \<Rightarrow> bool) \<Rightarrow> 'a \<Rightarrow> 'a \<Rightarrow> 'a \<Rightarrow> bool" where
  "is_idom E r d v \<longleftrightarrow> sdominates E r d v \<and> (\<forall>e. sdominates E r e v \<longrightarrow> dominates E r e d)"

lemma rpath_nonempty: "rpath E r v xs \<Longrightarrow> xs \<noteq> [] \<and> hd xs = v \<and> last xs = r"
  by (induction rule: rpath.induct) auto

lemma rpath_mem: "rpath E r v xs \<Longrightarrow> v \<in> set xs \<and> r \<in> set xs"
  by (induction rule: rpath.induct) auto

lemma rpath_reach: "rpath E r v xs \<Longrightarrow> E\<^sup>*\<^sup>* r v"
  by (induction rule: rpath.induct) (auto intro: rtranclp.rtrancl_into_rtrancl)

lemma reach_rpath: "E\<^sup>*\<^sup>* r v \<Longrightarrow> \<exists>xs. rpath E r v xs"
  by (induction rule: rtranclp_induct) (auto intro: rpath.intros)

lemma rpath_nodes_reach: "rpath E r v xs \<Longrightarrow> x \<in> set xs \<Longrightarrow> E\<^sup>*\<^sup>* r x"
  by (induction rule: rpath.induct) (auto intro: rtranclp.rtrancl_into_rtrancl rpath_reach)

text \<open>Every node of a path ends a shorter path.\<close>

lemma rpath_prefix:
  "rpath E r v xs \<Longrightarrow> a \<in> set xs \<Longrightarrow> \<exists>ys zs. xs = zs @ ys \<and> rpath E r a ys"
proof (induction rule: rpath.induct)
  case rpath_root
  then have "a = r" by simp
  then show ?case by (intro exI [of _ "[r]"] exI [of _ "[]"]) (simp add: rpath.rpath_root)
next
  case (rpath_step u xs v)
  show ?case
  proof (cases "a = v")
    case True
    then show ?thesis
      using rpath_step.hyps
      by (intro exI [of _ "v # xs"] exI [of _ "[]"]) (simp add: rpath.rpath_step)
  next
    case False
    with rpath_step obtain ys zs where "xs = zs @ ys" "rpath E r a ys" by auto
    then show ?thesis by (intro exI [of _ ys] exI [of _ "v # zs"]) simp
  qed
qed

lemma rpath_prefixE:
  assumes "rpath E r v xs" "a \<in> set xs"
  obtains ys zs where "xs = zs @ ys" "rpath E r a ys"
  using rpath_prefix [OF assms] by blast

lemma rpath_distinct:
  "rpath E r v xs \<Longrightarrow> \<exists>ys. rpath E r v ys \<and> distinct ys \<and> set ys \<subseteq> set xs"
proof (induction rule: rpath.induct)
  case rpath_root
  then show ?case by (auto intro!: exI [of _ "[r]"] rpath.rpath_root)
next
  case (rpath_step u xs v)
  then obtain ys where ys: "rpath E r u ys" "distinct ys" "set ys \<subseteq> set xs" by auto
  show ?case
  proof (cases "v \<in> set ys")
    case True
    then obtain zs ws where "ys = ws @ zs" "rpath E r v zs" by (rule rpath_prefixE [OF ys(1)])
    then show ?thesis using ys(2,3) by (auto intro!: exI [of _ zs])
  next
    case False
    then show ?thesis
      using ys rpath_step.hyps(2) by (auto intro!: exI [of _ "v # ys"] rpath.rpath_step)
  qed
qed

section \<open>Facts about domination\<close>

lemma dominates_refl: "dominates E r v v"
  by (auto simp: dominates_def dest: rpath_mem)

lemma dominates_root: "dominates E r r v"
  by (auto simp: dominates_def dest: rpath_mem)

lemma dominates_of_root: "dominates E r d r \<Longrightarrow> d = r"
  using rpath.rpath_root [of E r] by (auto simp: dominates_def)

lemma dominates_trans: "dominates E r a b \<Longrightarrow> dominates E r b c \<Longrightarrow> dominates E r a c"
  unfolding dominates_def by (metis rpath_prefix Un_iff set_append)

lemma dominates_reach: "dominates E r d v \<Longrightarrow> E\<^sup>*\<^sup>* r v \<Longrightarrow> E\<^sup>*\<^sup>* r d"
  using reach_rpath rpath_nodes_reach unfolding dominates_def by metis

text \<open>Among distinct nodes, domination of reachable nodes is antisymmetric.\<close>

lemma dominates_antisym:
  assumes "dominates E r a b" "dominates E r b a" "E\<^sup>*\<^sup>* r a"
  shows "a = b"
proof (rule ccontr)
  assume "a \<noteq> b"
  obtain xs where xs: "rpath E r a xs" "distinct xs"
    using reach_rpath [OF assms(3)] rpath_distinct by metis
  have "b \<in> set xs" using assms(2) xs(1) by (auto simp: dominates_def)
  then obtain ys zs where ys: "xs = zs @ ys" "rpath E r b ys" by (rule rpath_prefixE [OF xs(1)])
  have "a \<in> set ys" using assms(1) ys(2) by (auto simp: dominates_def)
  moreover have "zs \<noteq> []"
    using ys \<open>a \<noteq> b\<close> rpath_nonempty [OF xs(1)] rpath_nonempty [OF ys(2)] by auto
  then have "a \<in> set zs" using ys(1) rpath_nonempty [OF xs(1)] by (cases zs) auto
  ultimately show False using xs(2) ys(1) by auto
qed

text \<open>A node is dominated by itself and by what dominates all its reachable predecessors.\<close>

lemma dominates_pred:
  assumes "sdominates E r d v" "E u v"
  shows "dominates E r d u"
  using assms by (fastforce simp: sdominates_def dominates_def dest: rpath.rpath_step [of E r u _ v])

lemma dominates_from_preds:
  assumes "v \<noteq> r" "\<And>u. E u v \<Longrightarrow> E\<^sup>*\<^sup>* r u \<Longrightarrow> dominates E r d u"
  shows "dominates E r d v"
  unfolding dominates_def
proof (intro allI impI)
  fix xs
  assume "rpath E r v xs"
  then show "d \<in> set xs"
    using assms by (cases rule: rpath.cases) (auto simp: dominates_def dest: rpath_reach)
qed

lemma no_self_pred_dominator:
  assumes "v \<noteq> r" "E\<^sup>*\<^sup>* r v"
  shows "\<exists>u. E u v \<and> E\<^sup>*\<^sup>* r u \<and> \<not> dominates E r v u"
proof -
  obtain xs where xs: "rpath E r v xs" "distinct xs"
    using reach_rpath [OF assms(2)] rpath_distinct by metis
  then obtain u ys where ys: "xs = v # ys" "rpath E r u ys" "E u v"
    using assms(1) by (auto elim: rpath.cases)
  then show ?thesis using xs(2) by (auto simp: dominates_def dest: rpath_reach)
qed

lemma is_idom_unique:
  assumes "is_idom E r a v" "is_idom E r b v" "E\<^sup>*\<^sup>* r v"
  shows "a = b"
  using assms dominates_antisym [of E r a b] dominates_reach [of E r a v]
  by (auto simp: is_idom_def sdominates_def)

section \<open>Retreating edges\<close>

text \<open>An edge retreats when it does not lead to a smaller number.\<close>

fun retreats :: "('a \<Rightarrow> nat) \<Rightarrow> 'a list \<Rightarrow> nat" where
  "retreats po (v # u # xs) = (if po u \<le> po v then 1 else 0) + retreats po (u # xs)"
| "retreats po _ = 0"

lemma retreats_suffix: "retreats po ys \<le> retreats po (zs @ ys)"
proof (induction zs)
  case (Cons z zs)
  then show ?case by (cases "zs @ ys") (auto intro: order_trans)
qed simp

lemma retreats_length: "xs \<noteq> [] \<Longrightarrow> retreats po xs < length xs"
  by (induction po xs rule: retreats.induct) auto

lemma retreats_step:
  assumes "rpath E r u xs"
  shows "retreats po (v # xs) = (if po u \<le> po v then 1 else 0) + retreats po xs"
  using rpath_nonempty [OF assms] by (cases xs) auto

text \<open>\<open>near k v\<close>: the nodes on every path to \<open>v\<close> with fewer than \<open>k\<close> retreating edges.\<close>

definition near :: "('a \<Rightarrow> 'a \<Rightarrow> bool) \<Rightarrow> 'a \<Rightarrow> ('a \<Rightarrow> nat) \<Rightarrow> nat \<Rightarrow> 'a \<Rightarrow> 'a set" where
  "near E r po k v = {d. \<forall>xs. rpath E r v xs \<longrightarrow> retreats po xs < k \<longrightarrow> d \<in> set xs}"

lemma near_0 [simp]: "near E r po 0 v = UNIV"
  by (simp add: near_def)

lemma near_antimono: "k \<le> l \<Longrightarrow> near E r po l v \<subseteq> near E r po k v"
  by (auto simp: near_def)

lemma near_self: "v \<in> near E r po k v" "r \<in> near E r po k v"
  by (auto simp: near_def dest: rpath_mem)

lemma near_trans:
  assumes "a \<in> near E r po k v" "e \<in> near E r po k a"
  shows "e \<in> near E r po k v"
  unfolding near_def
proof (intro CollectI allI impI)
  fix xs
  assume xs: "rpath E r v xs" "retreats po xs < k"
  then have "a \<in> set xs" using assms(1) by (auto simp: near_def)
  then obtain ys zs where ys: "xs = zs @ ys" "rpath E r a ys" by (rule rpath_prefixE [OF xs(1)])
  moreover have "retreats po ys < k" using xs(2) retreats_suffix [of po ys zs] ys(1) by simp
  ultimately show "e \<in> set xs" using assms(2) by (auto simp: near_def)
qed

text \<open>
  The step of one pass: predecessors with a larger number have already been visited in
  this pass, the others in the one before.
\<close>

lemma near_step:
  assumes "v \<noteq> r"
    and "\<And>u. E u v \<Longrightarrow> E\<^sup>*\<^sup>* r u \<Longrightarrow> po v < po u \<Longrightarrow> e \<in> near E r po (Suc k) u"
    and "\<And>u. E u v \<Longrightarrow> E\<^sup>*\<^sup>* r u \<Longrightarrow> 0 < k \<Longrightarrow> e \<in> near E r po k u"
  shows "e \<in> near E r po (Suc k) v"
  unfolding near_def
proof (intro CollectI allI impI)
  fix xs
  assume xs: "rpath E r v xs" "retreats po xs < Suc k"
  then obtain u ys where ys: "xs = v # ys" "rpath E r u ys" "E u v"
    using assms(1) by (auto elim: rpath.cases)
  have reach: "E\<^sup>*\<^sup>* r u" by (rule rpath_reach [OF ys(2)])
  have "retreats po xs = (if po u \<le> po v then 1 else 0) + retreats po ys"
    unfolding ys(1) by (rule retreats_step [OF ys(2)])
  then have "po v < po u \<and> retreats po ys < Suc k \<or> 0 < k \<and> retreats po ys < k"
    using xs(2) by (cases "po u \<le> po v") auto
  then show "e \<in> set xs"
    using assms(2,3) [OF ys(3) reach] ys by (auto simp: near_def)
qed

text \<open>With enough passes, few retreats are no restriction.\<close>

lemma near_dominates:
  assumes "finite R" "\<And>x. E\<^sup>*\<^sup>* r x \<Longrightarrow> x \<in> R" "card R \<le> k" "d \<in> near E r po k v"
  shows "dominates E r d v"
  unfolding dominates_def
proof (intro allI impI)
  fix xs
  assume "rpath E r v xs"
  then obtain ys where ys: "rpath E r v ys" "distinct ys" "set ys \<subseteq> set xs"
    using rpath_distinct by metis
  have "set ys \<subseteq> R" using rpath_nodes_reach [OF ys(1)] assms(2) by auto
  then have "length ys \<le> card R" using ys(2) assms(1) by (metis card_mono distinct_card)
  moreover have "retreats po ys < length ys"
    using rpath_nonempty [OF ys(1)] by (simp add: retreats_length)
  ultimately have "retreats po ys < k" using assms(3) by linarith
  then show "d \<in> set xs" using assms(4) ys by (auto simp: near_def)
qed

end
