(* ===== verification/Post_Order.thy ===== *)
theory Post_Order
  imports Dominators Dominance
begin

text \<open>
  What \<^verbatim>\<open>create_reverse_post_order\<close> establishes: the list holds exactly the reachable blocks,
  the entry first, the numbers fall along it, and every other block has a predecessor with a
  larger number (its parent in the search).
\<close>

section \<open>The visit\<close>

text \<open>Every node of the list has a predecessor later in the list, or is one of \<open>S\<close>.\<close>

fun parented :: "('a \<Rightarrow> 'a \<Rightarrow> bool) \<Rightarrow> 'a list \<Rightarrow> 'a set \<Rightarrow> bool" where
  "parented E [] S = True"
| "parented E (x # xs) S = ((x \<in> S \<or> (\<exists>p \<in> set xs. E p x)) \<and> parented E xs S)"

lemma parented_mono: "parented E xs S \<Longrightarrow> S \<subseteq> T \<Longrightarrow> parented E xs T"
  by (induction xs) auto

lemma parented_append:
  "parented E xs S \<Longrightarrow> parented E ys T \<Longrightarrow> parented E (xs @ ys) (S \<union> T)"
  by (induction xs) (auto intro: parented_mono)

lemma parented_snoc: "parented E xs S \<Longrightarrow> (\<And>x. x \<in> S \<Longrightarrow> E b x) \<Longrightarrow> parented E (xs @ [b]) {b}"
  by (induction xs) auto

lemma edge_step: "c \<in> set (succ_bbs g b) \<Longrightarrow> (edge g)\<^sup>*\<^sup>* c x \<Longrightarrow> (edge g)\<^sup>*\<^sup>* b x"
  by (metis edge_def converse_rtranclp_into_rtranclp)

text \<open>The maps of the other steps are not touched.\<close>

definition same_maps :: "dominators \<Rightarrow> dominators \<Rightarrow> bool" where
  "same_maps d d' \<longleftrightarrow> doms d' = doms d \<and> idom d' = idom d \<and>
     dom_frontier d' = dom_frontier d \<and> dom_tree_succ_blocks d' = dom_tree_succ_blocks d"

text \<open>
  \<open>visited_by V d new V' d'\<close>: from the set \<open>V\<close> and the state \<open>d\<close>, the visit finished the
  blocks \<open>new\<close>, in this order, and numbered them by their position.
\<close>

definition visited_by :: "bb set \<Rightarrow> dominators \<Rightarrow> bb list \<Rightarrow> bb set \<Rightarrow> dominators \<Rightarrow> bool" where
  "visited_by V d new V' d' \<longleftrightarrow>
     V' = V \<union> set new \<and> distinct new \<and> set new \<inter> V = {} \<and>
     reverse_post_order d' = reverse_post_order d @ new \<and>
     (\<forall>x. x \<notin> set new \<longrightarrow> post_order_id d' x = post_order_id d x) \<and>
     (\<forall>i < length new. post_order_id d' (new ! i) = Some (length (reverse_post_order d) + i)) \<and>
     same_maps d d'"

lemma visited_by_refl: "visited_by V d [] V d"
  by (simp add: visited_by_def same_maps_def)

lemma visited_by_trans:
  assumes "visited_by V d xs V1 d1" "visited_by V1 d1 ys V2 d2"
  shows "visited_by V d (xs @ ys) V2 d2"
proof -
  have "post_order_id d2 ((xs @ ys) ! i) = Some (length (reverse_post_order d) + i)"
    if "i < length (xs @ ys)" for i
  proof (cases "i < length xs")
    case True
    then have "xs ! i \<notin> set ys" using assms by (auto simp: visited_by_def)
    then show ?thesis using assms True by (simp add: visited_by_def nth_append)
  next
    case False
    then have "i - length xs < length ys" using that by auto
    then show ?thesis using assms False by (simp add: visited_by_def nth_append)
  qed
  then show ?thesis using assms by (auto simp: visited_by_def same_maps_def)
qed

lemma visited_by_finish:
  assumes "visited_by (insert b V) d new V' d'" "b \<notin> V"
  shows "visited_by V d (new @ [b]) V'
    (d'\<lparr>post_order_id := (post_order_id d')(b \<mapsto> length (reverse_post_order d')),
        reverse_post_order := reverse_post_order d' @ [b]\<rparr>)"
  using assms by (auto simp: visited_by_def same_maps_def nth_append less_Suc_eq)

lemma visit_spec:
  "post_order_visit n g b (V, d) = Some (V', d') \<Longrightarrow> b \<notin> V \<Longrightarrow>
     \<exists>new. visited_by V d (new @ [b]) V' d' \<and> parented (edge g) (new @ [b]) {b} \<and>
       (\<forall>x \<in> set (new @ [b]). (edge g)\<^sup>*\<^sup>* b x \<and> set (succ_bbs g x) \<subseteq> V')"
  and visit_succs_spec:
  "visit_succs n g bs (V, d) = Some (V', d') \<Longrightarrow>
     \<exists>new. visited_by V d new V' d' \<and> parented (edge g) new (set bs) \<and> set bs \<subseteq> V' \<and>
       (\<forall>x \<in> set new. (\<exists>c \<in> set bs. (edge g)\<^sup>*\<^sup>* c x) \<and> set (succ_bbs g x) \<subseteq> V')"
proof (induction n g b "(V, d)" and n g bs "(V, d)" arbitrary: V d V' d' and V d V' d'
    rule: post_order_visit_visit_succs.induct)
  case (2 n g b V d)
  obtain V1 d1 where v: "visit_succs n g (succ_bbs g b) (insert b V, d) = Some (V1, d1)"
    and res: "V' = V1" "d' = d1\<lparr>post_order_id := (post_order_id d1)(b \<mapsto> length (reverse_post_order d1)),
        reverse_post_order := reverse_post_order d1 @ [b]\<rparr>"
    using "2.prems"(1) by (auto split: option.splits)
  obtain new where new: "visited_by (insert b V) d new V1 d1" "parented (edge g) new (set (succ_bbs g b))"
    "set (succ_bbs g b) \<subseteq> V1"
    "\<And>x. x \<in> set new \<Longrightarrow> (\<exists>c \<in> set (succ_bbs g b). (edge g)\<^sup>*\<^sup>* c x) \<and> set (succ_bbs g x) \<subseteq> V1"
    using "2.hyps" [OF v] by blast
  have "visited_by V d (new @ [b]) V' d'"
    unfolding res by (rule visited_by_finish [OF new(1) "2.prems"(2)])
  moreover have "parented (edge g) (new @ [b]) {b}"
    by (rule parented_snoc [OF new(2)]) (simp add: edge_def)
  moreover have "(edge g)\<^sup>*\<^sup>* b x \<and> set (succ_bbs g x) \<subseteq> V'" if "x \<in> set (new @ [b])" for x
    using that new(3) new(4) [of x] res(1) edge_step by auto
  ultimately show ?case by blast
next
  case (3 n g V d)
  then show ?case by (auto intro!: exI [of _ "[]"] visited_by_refl)
next
  case (4 n g b bs V d)
  show ?case
  proof (cases "b \<in> V")
    case True
    then have "visit_succs n g bs (V, d) = Some (V', d')" using "4.prems" by simp
    then obtain new where new: "visited_by V d new V' d'" "parented (edge g) new (set bs)" "set bs \<subseteq> V'"
      "\<forall>x \<in> set new. (\<exists>c \<in> set bs. (edge g)\<^sup>*\<^sup>* c x) \<and> set (succ_bbs g x) \<subseteq> V'"
      using "4.hyps"(1) True by fastforce
    moreover have "b \<in> V'" using new(1) True by (auto simp: visited_by_def)
    ultimately show ?thesis by (auto intro!: exI [of _ new] elim: parented_mono)
  next
    case False
    then obtain V1 d1 where v1: "post_order_visit n g b (V, d) = Some (V1, d1)"
      and v2: "visit_succs n g bs (V1, d1) = Some (V', d')"
      using "4.prems" by (auto split: option.splits)
    obtain xs where xs: "visited_by V d (xs @ [b]) V1 d1" "parented (edge g) (xs @ [b]) {b}"
      "\<forall>x \<in> set (xs @ [b]). (edge g)\<^sup>*\<^sup>* b x \<and> set (succ_bbs g x) \<subseteq> V1"
      using "4.hyps"(2) [OF _ v1 False] False by auto
    obtain ys where ys: "visited_by V1 d1 ys V' d'" "parented (edge g) ys (set bs)" "set bs \<subseteq> V'"
      "\<forall>x \<in> set ys. (\<exists>c \<in> set bs. (edge g)\<^sup>*\<^sup>* c x) \<and> set (succ_bbs g x) \<subseteq> V'"
      using "4.hyps"(3) [OF _ v1 v2] False by auto
    have sub: "V1 \<subseteq> V'" "b \<in> V1" using xs(1) ys(1) by (auto simp: visited_by_def)
    have "visited_by V d ((xs @ [b]) @ ys) V' d'" by (rule visited_by_trans [OF xs(1) ys(1)])
    moreover have "parented (edge g) ((xs @ [b]) @ ys) (set (b # bs))"
      using parented_append [OF xs(2) ys(2)] by simp
    moreover have "\<forall>x \<in> set ((xs @ [b]) @ ys).
        (\<exists>c \<in> set (b # bs). (edge g)\<^sup>*\<^sup>* c x) \<and> set (succ_bbs g x) \<subseteq> V'"
    proof
      fix x
      assume "x \<in> set ((xs @ [b]) @ ys)"
      then consider "x \<in> set (xs @ [b])" | "x \<in> set ys" by auto
      then show "(\<exists>c \<in> set (b # bs). (edge g)\<^sup>*\<^sup>* c x) \<and> set (succ_bbs g x) \<subseteq> V'"
      proof cases
        case 1
        then show ?thesis using bspec [OF xs(3) 1] sub(1) by auto
      next
        case 2
        then show ?thesis using bspec [OF ys(4) 2] by auto
      qed
    qed
    moreover have "set (b # bs) \<subseteq> V'" using sub ys(3) by auto
    ultimately show ?thesis by (intro exI [of _ "(xs @ [b]) @ ys"] conjI)
  qed
qed (auto split: option.splits)

section \<open>The fuel is enough\<close>

lemma post_order_visit_total:
  "b \<notin> V \<Longrightarrow> b \<in> N \<Longrightarrow> finite N \<Longrightarrow> (\<And>x. x \<in> N \<Longrightarrow> set (succ_bbs g x) \<subseteq> N) \<Longrightarrow>
     card (N - V) \<le> n \<Longrightarrow> \<exists>V' d'. post_order_visit n g b (V, d) = Some (V', d')"
  and visit_succs_total:
  "set bs \<subseteq> N \<Longrightarrow> finite N \<Longrightarrow> (\<And>x. x \<in> N \<Longrightarrow> set (succ_bbs g x) \<subseteq> N) \<Longrightarrow>
     card (N - V) \<le> n \<Longrightarrow> \<exists>V' d'. visit_succs n g bs (V, d) = Some (V', d')"
proof (induction n g b "(V, d)" and n g bs "(V, d)" arbitrary: V d and V d
    rule: post_order_visit_visit_succs.induct)
  case (1 g b V d)
  then have "N - V = {}" by simp
  then show ?case using "1.prems"(1,2) by auto
next
  case (2 n g b V d)
  have "N - V = insert b (N - insert b V)" using "2.prems"(1,2) by auto
  then have "card (N - V) = Suc (card (N - insert b V))"
    using "2.prems"(3) by (metis card_insert_disjoint finite_Diff insertI1 DiffD2)
  then have "card (N - insert b V) \<le> n" using "2.prems"(5) by simp
  then have "\<exists>V' d'. visit_succs n g (succ_bbs g b) (insert b V, d) = Some (V', d')"
    using "2.hyps" "2.prems"(2-4) by auto
  then show ?case by auto
next
  case (4 n g b bs V d)
  show ?case
  proof (cases "b \<in> V")
    case True
    then show ?thesis using "4.hyps"(1) "4.prems" by auto
  next
    case False
    obtain V1 d1 where v1: "post_order_visit n g b (V, d) = Some (V1, d1)"
      using "4.hyps"(2) [OF _ False] "4.prems" False by auto
    have "V \<subseteq> V1" using visit_spec [OF v1 False] by (auto simp: visited_by_def)
    then have "card (N - V1) \<le> n"
      using "4.prems"(2,4) card_mono [of "N - V" "N - V1"] by (auto simp: Diff_mono)
    then show ?thesis using "4.hyps"(3) [OF _ v1] v1 False "4.prems"(1-3) by auto
  qed
qed auto

section \<open>Reverse post-order\<close>

text \<open>
  A list \<open>R\<close> and a numbering \<open>pn\<close> of the nodes that \<open>r\<close> reaches, as the iteration of
  \<^verbatim>\<open>create_idom\<close> needs them.
\<close>

definition rpo_ok :: "('a \<Rightarrow> 'a \<Rightarrow> bool) \<Rightarrow> 'a \<Rightarrow> 'a list \<Rightarrow> ('a \<Rightarrow> nat) \<Rightarrow> bool" where
  "rpo_ok E r R pn \<longleftrightarrow> R \<noteq> [] \<and> hd R = r \<and> set R = {x. E\<^sup>*\<^sup>* r x} \<and>
     sorted_wrt (\<lambda>x y. pn y < pn x) R \<and>
     (\<forall>x \<in> set R. x \<noteq> r \<longrightarrow> (\<exists>p \<in> set R. E p x \<and> pn x < pn p))"

lemma parented_later:
  "parented E xs S \<Longrightarrow> i < length xs \<Longrightarrow> xs ! i \<notin> S \<Longrightarrow>
     \<exists>j. i < j \<and> j < length xs \<and> E (xs ! j) (xs ! i)"
proof (induction xs arbitrary: i)
  case (Cons x xs)
  show ?case
  proof (cases i)
    case 0
    then obtain p where "p \<in> set xs" "E p x" using Cons.prems by auto
    then obtain j where "j < length xs" "E (xs ! j) x" by (auto simp: in_set_conv_nth)
    then show ?thesis using 0 by (intro exI [of _ "Suc j"]) simp
  next
    case (Suc k)
    then obtain j where "k < j" "j < length xs" "E (xs ! j) (xs ! k)"
      using Cons.IH [of k] Cons.prems by auto
    then show ?thesis using Suc by (intro exI [of _ "Suc j"]) simp
  qed
qed simp

lemma rpo_ok_rev:
  assumes pn: "\<And>i. i < length L \<Longrightarrow> pn (L ! i) = i"
    and L: "L = new @ [r]" "parented E L {r}" "set L = {x. E\<^sup>*\<^sup>* r x}"
  shows "rpo_ok E r (rev L) pn"
proof -
  have "sorted_wrt (\<lambda>x y. pn x < pn y) L"
    by (auto simp: sorted_wrt_iff_nth_less pn)
  then have sorted: "sorted_wrt (\<lambda>x y. pn y < pn x) (rev L)" by (simp add: sorted_wrt_rev)
  have parent: "\<exists>p \<in> set L. E p x \<and> pn x < pn p" if x: "x \<in> set L" "x \<noteq> r" for x
  proof -
    obtain i where i: "i < length L" "x = L ! i" using x(1) by (auto simp: in_set_conv_nth)
    then obtain j where "i < j" "j < length L" "E (L ! j) (L ! i)"
      using parented_later [OF L(2) i(1)] x(2) by auto
    then show ?thesis using i pn by (intro bexI [of _ "L ! j"]) auto
  qed
  have "rev L \<noteq> []" "hd (rev L) = r" using L(1) by simp_all
  then show ?thesis unfolding rpo_ok_def set_rev using sorted parent L(3) by blast
qed

lemma create_reverse_post_order_correct:
  assumes wf: "cfg_wf g" and root: "get_entry_block g = Inr root"
  shows "\<exists>d'. create_reverse_post_order g d = Some (Inr d') \<and> same_maps d d' \<and>
    rpo_ok (edge g) root (reverse_post_order d') (po d')"
proof -
  let ?N = "set (basic_blocks g)"
  let ?d0 = "d\<lparr>reverse_post_order := [], post_order_id := Map.empty\<rparr>"
  have "root \<in> ?N" using root by (auto simp: get_entry_block_def split: list.splits)
  moreover have "card (?N - {}) \<le> length (basic_blocks g)" by (simp add: card_length)
  ultimately obtain V' d1
    where v: "post_order_visit (length (basic_blocks g)) g root ({}, ?d0) = Some (V', d1)"
    using post_order_visit_total [of root "{}" ?N g "length (basic_blocks g)" ?d0]
      cfg_wf_closed(2) [OF wf] by auto
  obtain new where new: "visited_by {} ?d0 (new @ [root]) V' d1" "parented (edge g) (new @ [root]) {root}"
    "\<forall>x \<in> set (new @ [root]). (edge g)\<^sup>*\<^sup>* root x \<and> set (succ_bbs g x) \<subseteq> V'"
    using visit_spec [OF v] by blast
  define L where "L = new @ [root]"
  have V': "V' = set L" and rpo: "reverse_post_order d1 = L" and maps: "same_maps d d1"
    and num: "\<And>i. i < length L \<Longrightarrow> po d1 (L ! i) = i"
    using new(1) by (auto simp: visited_by_def L_def po_def same_maps_def)
  have closed: "y \<in> set L" if "x \<in> set L" "edge g x y" for x y
    using bspec [OF new(3), of x] that V' by (auto simp: L_def edge_def)
  have reach: "(edge g)\<^sup>*\<^sup>* root x" if "x \<in> set L" for x
    using bspec [OF new(3), of x] that by (simp add: L_def)
  have "x \<in> set L" if "(edge g)\<^sup>*\<^sup>* root x" for x
    by (rule rtranclp_closed_set [OF closed that]) (simp_all add: L_def)
  then have "set L = {x. (edge g)\<^sup>*\<^sup>* root x}" using reach by blast
  then have "rpo_ok (edge g) root (rev L) (po d1)"
    using rpo_ok_rev [of L "po d1" new root "edge g"] num new(2) by (auto simp: L_def)
  moreover have "po (d1\<lparr>reverse_post_order := rev L\<rparr>) = po d1" by (simp add: po_def fun_eq_iff)
  ultimately show ?thesis
    using v rpo maps root by (auto simp: create_reverse_post_order_def same_maps_def)
qed

text \<open>Consequences the iteration uses.\<close>

lemma rpo_ok_reach: "rpo_ok E r R pn \<Longrightarrow> x \<in> set R \<longleftrightarrow> E\<^sup>*\<^sup>* r x"
  by (simp add: rpo_ok_def)

lemma rpo_ok_root: "rpo_ok E r R pn \<Longrightarrow> r \<in> set R"
  by (simp add: rpo_ok_def)

lemma rpo_ok_inj:
  assumes "rpo_ok E r R pn" "x \<in> set R" "y \<in> set R" "pn x = pn y"
  shows "x = y"
proof -
  have s: "sorted_wrt (\<lambda>x y. pn y < pn x) R" using assms(1) by (simp add: rpo_ok_def)
  obtain i j where ij: "i < length R" "x = R ! i" "j < length R" "y = R ! j"
    using assms(2,3) by (auto simp: in_set_conv_nth)
  then show ?thesis
    using assms(4) sorted_wrt_nth_less [OF s, of i j] sorted_wrt_nth_less [OF s, of j i]
    by (cases i j rule: linorder_cases) auto
qed

lemma rpo_ok_parent:
  assumes "rpo_ok E r R pn" "x \<in> set R" "x \<noteq> r"
  obtains p where "p \<in> set R" "E p x" "pn x < pn p"
  using assms by (auto simp: rpo_ok_def)

end
