(* ===== verification/Idom_Tree.thy ===== *)
theory Idom_Tree
  imports Post_Order
begin

text \<open>
  The tree that \<^verbatim>\<open>idom_\<close> encodes while \<^verbatim>\<open>create_idom\<close> runs: its chains towards the root, the
  local facts each link satisfies, and the effect of one assignment. Nothing here mentions
  the state of the pass; \<open>I\<close> is the map, \<open>pn\<close> the post-order number.
\<close>

section \<open>Chains\<close>

definition up :: "('a \<rightharpoonup> 'a) \<Rightarrow> 'a \<Rightarrow> 'a \<Rightarrow> 'a \<Rightarrow> bool" where
  "up I r x y \<longleftrightarrow> x \<noteq> r \<and> I x = Some y"

definition chain :: "('a \<rightharpoonup> 'a) \<Rightarrow> 'a \<Rightarrow> 'a \<Rightarrow> 'a set" where
  "chain I r x = {d. (up I r)\<^sup>*\<^sup>* x d}"

definition tree_ok :: "'a set \<Rightarrow> ('a \<Rightarrow> nat) \<Rightarrow> 'a \<Rightarrow> ('a \<rightharpoonup> 'a) \<Rightarrow> bool" where
  "tree_ok R pn r I \<longleftrightarrow> I r = Some r \<and> dom I \<subseteq> R \<and>
     (\<forall>x y. I x = Some y \<longrightarrow> y \<in> dom I \<and> (x \<noteq> r \<longrightarrow> pn x < pn y))"

lemma tree_ok_root: "tree_ok R pn r I \<Longrightarrow> r \<in> dom I"
  by (auto simp: tree_ok_def)

lemma tree_ok_link:
  "tree_ok R pn r I \<Longrightarrow> I x = Some y \<Longrightarrow> y \<in> dom I"
  "tree_ok R pn r I \<Longrightarrow> I x = Some y \<Longrightarrow> x \<noteq> r \<Longrightarrow> pn x < pn y"
  by (auto simp: tree_ok_def)

lemma chain_self [simp]: "x \<in> chain I r x"
  by (simp add: chain_def)

lemma chain_root [simp]: "chain I r r = {r}"
  by (auto simp: chain_def up_def elim: converse_rtranclpE)

lemma chain_unfold: "I x = Some y \<Longrightarrow> x \<noteq> r \<Longrightarrow> chain I r x = insert x (chain I r y)"
  unfolding chain_def
  by (auto simp: up_def elim: converse_rtranclpE intro: converse_rtranclp_into_rtranclp)

lemma chain_trans: "a \<in> chain I r x \<Longrightarrow> chain I r a \<subseteq> chain I r x"
  by (auto simp: chain_def)

lemma tree_ok_sub: "tree_ok R pn r I \<Longrightarrow> x \<in> dom I \<Longrightarrow> x \<in> R"
  by (auto simp: tree_ok_def)

lemma chain_le:
  assumes t: "tree_ok R pn r I" and d: "d \<in> chain I r x"
  shows "d = x \<or> pn x < pn d"
  using d unfolding chain_def mem_Collect_eq
proof (induction rule: rtranclp_induct)
  case (step y z)
  have "pn y < pn z" using step.hyps(2) tree_ok_link(2) [OF t, of y z] by (simp add: up_def)
  then show ?case using step.IH by auto
qed simp

lemma chain_dom:
  assumes t: "tree_ok R pn r I" and x: "x \<in> dom I"
  shows "chain I r x \<subseteq> dom I"
proof
  fix d
  assume "d \<in> chain I r x"
  then show "d \<in> dom I" unfolding chain_def mem_Collect_eq
    by (induction rule: rtranclp_induct) (use x tree_ok_link(1) [OF t] in \<open>auto simp: up_def\<close>)
qed

lemma up_unique: "up I r a c \<Longrightarrow> up I r a y \<Longrightarrow> y = c"
  by (simp add: up_def)

lemma chain_linear:
  assumes "a \<in> chain I r x" "b \<in> chain I r x"
  shows "b \<in> chain I r a \<or> a \<in> chain I r b"
  using assms(1) unfolding chain_def mem_Collect_eq
proof (induction rule: rtranclp_induct)
  case base
  then show ?case using assms(2) by (simp add: chain_def)
next
  case (step a c)
  show ?case
  proof (cases "(up I r)\<^sup>*\<^sup>* a b")
    case True
    then show ?thesis using step.hyps(2)
      by (cases rule: converse_rtranclpE)
        (use step.hyps(2) up_unique in \<open>fastforce simp: chain_def intro: r_into_rtranclp\<close>)+
  next
    case False
    then have "(up I r)\<^sup>*\<^sup>* b a" using step.IH by (simp add: chain_def)
    then show ?thesis using step.hyps(2) by (simp add: chain_def rtranclp.rtrancl_into_rtrancl)
  qed
qed

lemma chain_antisym: "tree_ok R pn r I \<Longrightarrow> a \<in> chain I r b \<Longrightarrow> b \<in> chain I r a \<Longrightarrow> a = b"
  using chain_le [of R pn r I a b] chain_le [of R pn r I b a] by force

text \<open>The chain of a node of the tree ends in the root, whose number is the largest.\<close>

lemma chain_has_root:
  assumes t: "tree_ok R pn r I" and "finite R" and "x \<in> dom I"
  shows "r \<in> chain I r x"
  using assms(3)
proof (induction "Max (pn ` R) - pn x" arbitrary: x rule: less_induct)
  case less
  show ?case
  proof (cases "x = r")
    case False
    obtain y where y: "I x = Some y" using less.prems by auto
    have "y \<in> R" "pn x < pn y"
      using tree_ok_sub [OF t tree_ok_link(1) [OF t y]] tree_ok_link(2) [OF t y False] by auto
    moreover have "pn y \<le> Max (pn ` R)" using \<open>finite R\<close> \<open>y \<in> R\<close> by simp
    ultimately have "r \<in> chain I r y"
      using less.hyps [of y] tree_ok_link(1) [OF t y] by simp
    then show ?thesis using chain_unfold [of I x y r] y False by simp
  qed simp
qed

lemma root_max:
  assumes "tree_ok R pn r I" "finite R" "x \<in> dom I"
  shows "pn x \<le> pn r"
  using chain_le [OF assms(1) chain_has_root [OF assms]] by auto

section \<open>Links\<close>

text \<open>
  Two facts hold for every link from \<open>x\<close> to \<open>y\<close>, whatever the other links are: a path leads
  from \<open>y\<close> to \<open>x\<close> below the number of \<open>y\<close>, and no strict dominator of \<open>x\<close> is below \<open>y\<close>.
\<close>

definition low_path :: "('a \<Rightarrow> 'a \<Rightarrow> bool) \<Rightarrow> ('a \<Rightarrow> nat) \<Rightarrow> nat \<Rightarrow> 'a \<Rightarrow> 'a \<Rightarrow> bool" where
  "low_path E pn k = (\<lambda>u v. E u v \<and> pn v < k)\<^sup>*\<^sup>*"

definition link_ok :: "('a \<Rightarrow> 'a \<Rightarrow> bool) \<Rightarrow> ('a \<Rightarrow> nat) \<Rightarrow> 'a \<Rightarrow> 'a \<Rightarrow> 'a \<Rightarrow> bool" where
  "link_ok E pn r x y \<longleftrightarrow> low_path E pn (pn y) y x \<and> (\<forall>d. sdominates E r d x \<longrightarrow> pn y \<le> pn d)"

definition links_ok :: "('a \<Rightarrow> 'a \<Rightarrow> bool) \<Rightarrow> ('a \<Rightarrow> nat) \<Rightarrow> 'a \<Rightarrow> ('a \<rightharpoonup> 'a) \<Rightarrow> bool" where
  "links_ok E pn r I \<longleftrightarrow> (\<forall>x y. x \<noteq> r \<longrightarrow> I x = Some y \<longrightarrow> link_ok E pn r x y)"

lemma low_path_mono: "low_path E pn k u v \<Longrightarrow> k \<le> l \<Longrightarrow> low_path E pn l u v"
  unfolding low_path_def by (erule rtranclp_mono [THEN predicate2D, rotated]) auto

lemma low_path_trans: "low_path E pn k u v \<Longrightarrow> low_path E pn k v w \<Longrightarrow> low_path E pn k u w"
  unfolding low_path_def by (rule rtranclp_trans)

lemma low_path_extend:
  assumes "low_path E pn k y x" "rpath E r y xs"
  shows "\<exists>zs. rpath E r x (zs @ xs) \<and> (\<forall>z \<in> set zs. pn z < k)"
  using assms(1) unfolding low_path_def
proof (induction rule: rtranclp_induct)
  case base
  then show ?case using assms(2) by (intro exI [of _ "[]"]) simp
next
  case (step u v)
  then obtain zs where "rpath E r u (zs @ xs)" "\<forall>z \<in> set zs. pn z < k" by auto
  then show ?case using step.hyps(2) by (intro exI [of _ "v # zs"]) (auto intro: rpath.rpath_step)
qed

lemma link_dominators:
  assumes "link_ok E pn r x y" "sdominates E r d x"
  shows "dominates E r d y"
  unfolding dominates_def
proof (intro allI impI)
  fix xs
  assume "rpath E r y xs"
  then obtain zs where zs: "rpath E r x (zs @ xs)" "\<forall>z \<in> set zs. pn z < pn y"
    using low_path_extend assms(1) by (metis link_ok_def)
  have "pn y \<le> pn d" using assms by (simp add: link_ok_def)
  then have "d \<notin> set zs" using zs(2) by auto
  moreover have "d \<in> set (zs @ xs)" using assms(2) zs(1) by (auto simp: sdominates_def dominates_def)
  ultimately show "d \<in> set xs" by auto
qed

text \<open>Hence the chains contain the dominators at all times.\<close>

lemma dominators_in_chain:
  assumes t: "tree_ok R pn r I" "finite R" and l: "links_ok E pn r I"
    and x: "x \<in> dom I" "dominates E r d x"
  shows "d \<in> chain I r x"
  using x
proof (induction "Max (pn ` R) - pn x" arbitrary: x rule: less_induct)
  case less
  show ?case
  proof (cases "x = r \<or> d = x")
    case True
    then show ?thesis using less.prems(2) dominates_of_root [of E r d] by auto
  next
    case False
    then obtain y where y: "I x = Some y" using less.prems by auto
    have "y \<in> R" "pn x < pn y"
      using tree_ok_sub [OF t(1) tree_ok_link(1) [OF t(1) y]] tree_ok_link(2) [OF t(1) y] False by auto
    moreover have "pn y \<le> Max (pn ` R)" using t(2) \<open>y \<in> R\<close> by simp
    moreover have "dominates E r d y"
      using link_dominators [of E pn r x y d] l y False less.prems(2)
      by (auto simp: links_ok_def sdominates_def)
    ultimately have "d \<in> chain I r y"
      using less.hyps [of y] tree_ok_link(1) [OF t(1) y] by simp
    then show ?thesis using chain_unfold [of I x y r] y False by simp
  qed
qed

lemma low_path_chain:
  assumes t: "tree_ok R pn r I" and l: "links_ok E pn r I" and c: "c \<in> chain I r p"
  shows "low_path E pn (pn c) c p"
  using c unfolding chain_def mem_Collect_eq
proof (induction rule: converse_rtranclp_induct)
  case base
  then show ?case by (simp add: low_path_def)
next
  case (step p q)
  then have "link_ok E pn r p q" using l by (auto simp: links_ok_def up_def)
  then have "low_path E pn (pn q) q p" by (simp add: link_ok_def)
  moreover have "pn q \<le> pn c"
    using chain_le [OF t, of c q] step.hyps(2) by (auto simp: chain_def)
  ultimately show ?case using step.IH low_path_mono low_path_trans by metis
qed

section \<open>Assigning a link\<close>

text \<open>
  \<open>meets\<close> is what the loop over the predecessors computes: the end of the chain that the
  chains of all predecessors in the tree have in common.
\<close>

definition meets :: "('a \<rightharpoonup> 'a) \<Rightarrow> 'a \<Rightarrow> 'a set \<Rightarrow> 'a \<Rightarrow> bool" where
  "meets I r ps c \<longleftrightarrow> c \<in> dom I \<and> chain I r c = (\<Inter>p \<in> ps \<inter> dom I. chain I r p)"

lemma meets_mem: "meets I r ps c \<Longrightarrow> p \<in> ps \<Longrightarrow> p \<in> dom I \<Longrightarrow> c \<in> chain I r p"
  unfolding meets_def using chain_self [of c I r] by blast

lemma chain_upd:
  assumes "z \<in> chain (I(x \<mapsto> c)) r w"
  shows "z \<in> chain I r w \<or> (x \<in> chain I r w \<and> z \<in> chain (I(x \<mapsto> c)) r x)"
  using assms unfolding chain_def mem_Collect_eq
proof (induction rule: converse_rtranclp_induct)
  case (step w y)
  show ?case
  proof (cases "w = x")
    case True
    then show ?thesis using converse_rtranclp_into_rtranclp [of "up (I(x \<mapsto> c)) r"] step.hyps by blast
  next
    case False
    then have "up I r w y" using step.hyps(1) by (auto simp: up_def)
    then show ?thesis using step.IH by (auto intro: converse_rtranclp_into_rtranclp)
  qed
qed simp

lemma chain_upd_other: "x \<notin> chain I r w \<Longrightarrow> chain (I(x \<mapsto> c)) r w \<subseteq> chain I r w"
  using chain_upd by fastforce

lemma tree_ok_upd:
  assumes "tree_ok R pn r I" "x \<in> R" "x \<noteq> r" "c \<in> dom I" "pn x < pn c"
  shows "tree_ok R pn r (I(x \<mapsto> c))"
  using assms by (auto simp: tree_ok_def)

lemma chain_upd_self:
  assumes "tree_ok R pn r I" "x \<noteq> r" "pn x < pn c"
  shows "chain (I(x \<mapsto> c)) r x \<subseteq> insert x (chain I r c)"
proof -
  have "x \<notin> chain I r c" using chain_le [OF assms(1), of x c] assms(3) by auto
  then show ?thesis
    using chain_unfold [of "I(x \<mapsto> c)" x c r] chain_upd_other [of x I r c c] assms(2) by auto
qed

lemma link_ok_new:
  assumes t: "tree_ok R pn r I" "finite R" and l: "links_ok E pn r I"
    and c: "meets I r ps c" and p: "p \<in> ps" "p \<in> dom I" "E p x" and lt: "pn x < pn c"
    and ps: "\<And>p. p \<in> ps \<Longrightarrow> p \<in> dom I \<Longrightarrow> E p x"
  shows "link_ok E pn r x c"
  unfolding link_ok_def
proof (intro conjI allI impI)
  have "low_path E pn (pn c) c p" by (rule low_path_chain [OF t(1) l meets_mem [OF c p(1,2)]])
  then show "low_path E pn (pn c) c x"
    using p(3) lt by (auto simp: low_path_def intro: rtranclp.rtrancl_into_rtrancl)
  fix d
  assume d: "sdominates E r d x"
  have "d \<in> chain I r q" if q: "q \<in> ps" "q \<in> dom I" for q
    by (rule dominators_in_chain [OF t l q(2)]) (rule dominates_pred [OF d ps [OF q]])
  then have "d \<in> chain I r c" using c by (auto simp: meets_def)
  then show "pn c \<le> pn d" using chain_le [OF t(1), of d c] by auto
qed

end
