(* ===== verification/Idom_Correct.thy ===== *)
theory Idom_Correct
  imports Idom_Tree
begin

text \<open>
  \<^verbatim>\<open>create_idom\<close> terminates and computes the immediate dominator of every reachable block.
  First the iteration on an abstract map \<open>I\<close> (what one visit and one pass establish), then
  the functions of theory \<open>Dominators\<close> on their state, whose map is read through \<open>links\<close>.
\<close>

section \<open>One pass on the map\<close>

definition exact :: "('a \<Rightarrow> 'a \<Rightarrow> bool) \<Rightarrow> 'a \<Rightarrow> 'a list \<Rightarrow> ('a \<rightharpoonup> 'a) \<Rightarrow> bool" where
  "exact E r R I \<longleftrightarrow> (\<forall>x \<in> set R. x \<in> dom I \<and> chain I r x = {d. dominates E r d x})"

definition pass_inv ::
  "('a \<Rightarrow> 'a \<Rightarrow> bool) \<Rightarrow> 'a \<Rightarrow> 'a list \<Rightarrow> ('a \<Rightarrow> nat) \<Rightarrow> nat \<Rightarrow> 'a list \<Rightarrow> ('a \<rightharpoonup> 'a) \<Rightarrow> bool"
where
  "pass_inv E r R pn k done I \<longleftrightarrow> tree_ok (set R) pn r I \<and> links_ok E pn r I \<and>
     set done \<subseteq> dom I \<and> (0 < k \<longrightarrow> set R \<subseteq> dom I) \<and>
     (\<forall>x \<in> dom I. chain I r x \<subseteq> near E r pn k x) \<and>
     (\<forall>x \<in> set done. chain I r x \<subseteq> near E r pn (Suc k) x)"

lemma pass_invD:
  assumes "pass_inv E r R pn k done I"
  shows "tree_ok (set R) pn r I" "links_ok E pn r I" "set done \<subseteq> dom I"
    "0 < k \<Longrightarrow> set R \<subseteq> dom I" "x \<in> dom I \<Longrightarrow> chain I r x \<subseteq> near E r pn k x"
    "x \<in> set done \<Longrightarrow> chain I r x \<subseteq> near E r pn (Suc k) x"
  using assms by (simp_all add: pass_inv_def)

lemma pass_inv_start: "r \<in> set R \<Longrightarrow> pass_inv E r R pn 0 [] [r \<mapsto> r]"
  by (auto simp: pass_inv_def tree_ok_def links_ok_def)

lemma pass_inv_next:
  assumes "pass_inv E r R pn k R I"
  shows "pass_inv E r R pn (Suc k) [] I"
  using assms by (auto simp: pass_inv_def tree_ok_def subset_iff)

lemma rpo_ok_earlier:
  assumes "rpo_ok E r (done @ x # rest) pn" "u \<in> set (done @ x # rest)" "pn x < pn u"
  shows "u \<in> set done"
proof -
  have "sorted_wrt (\<lambda>x y. pn y < pn x) (done @ x # rest)" using assms(1) by (simp add: rpo_ok_def)
  then show ?thesis using assms(2,3) by (auto simp: sorted_wrt_append dest: less_asym)
qed

lemma pass_inv_root:
  assumes "pass_inv E r R pn k done I"
  shows "pass_inv E r R pn k (done @ [r]) I"
  using assms tree_ok_root [OF pass_invD(1) [OF assms]] near_self(1) [of r E r pn]
  by (auto simp: pass_inv_def)

lemma meets_above:
  assumes R: "rpo_ok E r R pn" and split: "R = done @ x # rest" and x: "x \<noteq> r"
    and inv: "pass_inv E r R pn k done I" and c: "meets I r {p. E p x} c"
  shows "c \<in> dom I" "pn x < pn c" "\<exists>p. E p x \<and> p \<in> dom I \<and> p \<in> set done"
proof -
  show "c \<in> dom I" using c by (simp add: meets_def)
  obtain p where p: "p \<in> set R" "E p x" "pn x < pn p"
    using rpo_ok_parent [OF R _ x] split by auto
  have "p \<in> set done" using rpo_ok_earlier R p split by metis
  then have d: "p \<in> dom I" using pass_invD(3) [OF inv] by auto
  then show "\<exists>p. E p x \<and> p \<in> dom I \<and> p \<in> set done" using p(2) \<open>p \<in> set done\<close> by auto
  have "c \<in> chain I r p" using meets_mem [OF c _ d] p(2) by simp
  then show "pn x < pn c" using chain_le [OF pass_invD(1) [OF inv]] p(3) by fastforce
qed

lemma pass_inv_visit:
  assumes R: "rpo_ok E r R pn" and split: "R = done @ x # rest" and x: "x \<noteq> r"
    and inv: "pass_inv E r R pn k done I" and c: "meets I r {p. E p x} c"
  shows "pass_inv E r R pn k (done @ [x]) (I(x \<mapsto> c))"
proof -
  note t = pass_invD(1) [OF inv]
  note above = meets_above [OF R split x inv c]
  have xR: "x \<in> set R" using split by simp
  have t': "tree_ok (set R) pn r (I(x \<mapsto> c))"
    using tree_ok_upd [OF t xR x above(1,2)] .
  obtain p where p: "p \<in> {p. E p x}" "p \<in> dom I" "E p x" using above(3) by blast
  have "link_ok E pn r x c"
    using link_ok_new [OF t _ pass_invD(2) [OF inv] c p above(2)] by simp
  then have l': "links_ok E pn r (I(x \<mapsto> c))"
    using pass_invD(2) [OF inv] by (simp add: links_ok_def)
  have dx: "chain (I(x \<mapsto> c)) r x \<subseteq> near E r pn (Suc k) x"
  proof
    fix z
    assume "z \<in> chain (I(x \<mapsto> c)) r x"
    then consider "z = x" | "z \<in> chain I r c"
      using chain_upd_self [OF t x above(2)] by blast
    then show "z \<in> near E r pn (Suc k) x"
    proof cases
      case 2
      then have z: "z \<in> chain I r u" if "E u x" "u \<in> dom I" for u
        using chain_trans [OF meets_mem [OF c _ that(2)]] that(1) by auto
      show ?thesis
      proof (rule near_step [OF x])
        fix u
        assume u: "E u x" "E\<^sup>*\<^sup>* r u"
        then have uR: "u \<in> set R" using rpo_ok_reach [OF R] by simp
        show "z \<in> near E r pn (Suc k) u" if "pn x < pn u"
        proof -
          have "u \<in> set done" using rpo_ok_earlier R uR that split by metis
          then show ?thesis using pass_invD(3,6) [OF inv] z [OF u(1)] by blast
        qed
        show "z \<in> near E r pn k u" if "0 < k"
          using pass_invD(4) [OF inv that] pass_invD(5) [OF inv, of u] uR z [OF u(1)] by blast
      qed
    qed (simp add: near_self)
  qed
  have other: "chain (I(x \<mapsto> c)) r w \<subseteq> near E r pn l w"
    if w: "chain I r w \<subseteq> near E r pn l w" and l: "l \<le> Suc k" for w l
  proof
    fix z
    assume "z \<in> chain (I(x \<mapsto> c)) r w"
    then consider "z \<in> chain I r w" | "x \<in> chain I r w" "z \<in> chain (I(x \<mapsto> c)) r x"
      using chain_upd by fastforce
    then show "z \<in> near E r pn l w"
    proof cases
      case 2
      then have "x \<in> near E r pn l w" "z \<in> near E r pn l x"
        using w dx near_antimono [OF l, of E r pn x] by auto
      then show ?thesis by (rule near_trans)
    qed (use w in auto)
  qed
  have "chain (I(x \<mapsto> c)) r w \<subseteq> near E r pn k w" if "w \<in> dom (I(x \<mapsto> c))" for w
  proof (cases "w = x")
    case True
    then show ?thesis using dx near_antimono [of k "Suc k" E r pn x] by auto
  next
    case False
    then show ?thesis using that other [of w k] pass_invD(5) [OF inv, of w] by auto
  qed
  moreover have "chain (I(x \<mapsto> c)) r w \<subseteq> near E r pn (Suc k) w" if "w \<in> set (done @ [x])" for w
    using that dx other [of w "Suc k"] pass_invD(6) [OF inv, of w] by auto
  moreover have "set (done @ [x]) \<subseteq> dom (I(x \<mapsto> c))" "0 < k \<longrightarrow> set R \<subseteq> dom (I(x \<mapsto> c))"
    using pass_invD(3,4) [OF inv] by auto
  ultimately show ?thesis using t' l' by (simp add: pass_inv_def)
qed

section \<open>When the map is exact\<close>

lemma dominators_below:
  assumes "rpo_ok E r R pn" "pass_inv E r R pn k done I" "x \<in> dom I"
  shows "{d. dominates E r d x} \<subseteq> chain I r x"
  using dominators_in_chain [OF pass_invD(1) [OF assms(2)] _ pass_invD(2) [OF assms(2)] assms(3)]
  by auto

lemma exact_late:
  assumes R: "rpo_ok E r R pn" and inv: "pass_inv E r R pn k [] I" and k: "0 < k" "length R \<le> k"
  shows "exact E r R I"
  unfolding exact_def
proof (intro ballI conjI)
  fix x
  assume "x \<in> set R"
  then show x: "x \<in> dom I" using pass_invD(4) [OF inv k(1)] by auto
  have "dominates E r d x" if "d \<in> chain I r x" for d
  proof (rule near_dominates [of "set R"])
    show "d \<in> near E r pn k x" using pass_invD(5) [OF inv x] that by auto
    show "card (set R) \<le> k" using card_length [of R] k(2) by simp
  qed (use rpo_ok_reach [OF R] in auto)
  then show "chain I r x = {d. dominates E r d x}" using dominators_below [OF R inv x] by auto
qed

lemma exact_stable:
  assumes R: "rpo_ok E r R pn" and inv: "pass_inv E r R pn k done I" and dom: "set R \<subseteq> dom I"
    and stable: "\<And>x. x \<in> set R \<Longrightarrow> x \<noteq> r \<Longrightarrow> \<exists>c. I x = Some c \<and> meets I r {p. E p x} c"
  shows "exact E r R I"
proof -
  have path: "rpath E r x xs \<Longrightarrow> chain I r x \<subseteq> set xs" for x xs
  proof (induction rule: rpath.induct)
    case (rpath_step u xs v)
    show ?case
    proof (cases "v = r")
      case False
      have u: "u \<in> set R" "v \<in> set R"
        using rpath_reach [OF rpath_step.hyps(1)] rpath_step.hyps(2) rpo_ok_reach [OF R]
        by (auto intro: rtranclp.rtrancl_into_rtrancl)
      then obtain c where c: "I v = Some c" "meets I r {p. E p v} c" using stable False by auto
      then have "c \<in> chain I r u" using meets_mem [OF c(2)] u(1) dom rpath_step.hyps(2) by auto
      then show ?thesis
        using chain_unfold [of I v c r] c(1) False chain_trans rpath_step.IH by fastforce
    qed simp
  qed simp
  show ?thesis unfolding exact_def
  proof (intro ballI conjI)
    fix x
    assume "x \<in> set R"
    then show x: "x \<in> dom I" using dom by auto
    show "chain I r x = {d. dominates E r d x}"
      using path dominators_below [OF R inv x] by (auto simp: dominates_def)
  qed
qed

text \<open>An exact map is a fixed point of every visit.\<close>

lemma exact_fixed:
  assumes R: "rpo_ok E r R pn" and split: "R = done @ x # rest" and x: "x \<noteq> r"
    and inv: "pass_inv E r R pn k done I" and ex: "exact E r R I" and c: "meets I r {p. E p x} c"
  shows "I x = Some c"
proof -
  note t = pass_invD(1) [OF inv]
  have xR: "x \<in> set R" using split by simp
  obtain y where y: "I x = Some y" using ex xR by (auto simp: exact_def)
  have "x \<notin> chain I r y" using chain_le [OF t, of x y] tree_ok_link(2) [OF t y x] by auto
  moreover have "insert x (chain I r y) = {d. dominates E r d x}"
    using chain_unfold [of I x y r] y x ex xR by (auto simp: exact_def)
  ultimately have cy: "chain I r y = {d. sdominates E r d x}" by (auto simp: sdominates_def)
  have chain_u: "chain I r u = {d. dominates E r d u}" "u \<in> dom I" if "E\<^sup>*\<^sup>* r u" for u
    using that ex rpo_ok_reach [OF R, of u] by (auto simp: exact_def)
  have "chain I r c = {d. sdominates E r d x}"
  proof (intro set_eqI iffI)
    fix d
    assume d: "d \<in> chain I r c"
    have "d \<noteq> x" using chain_le [OF t d] meets_above(2) [OF R split x inv c] by auto
    moreover have "dominates E r d x"
    proof (rule dominates_from_preds [OF x])
      fix u
      assume u: "E u x" "E\<^sup>*\<^sup>* r u"
      then have "d \<in> chain I r u" using meets_mem [OF c, of u] chain_u(2) d chain_trans by fastforce
      then show "dominates E r d u" using chain_u(1) [OF u(2)] by simp
    qed
    ultimately show "d \<in> {d. sdominates E r d x}" by (simp add: sdominates_def)
  next
    fix d
    assume "d \<in> {d. sdominates E r d x}"
    then have d: "sdominates E r d x" by simp
    have "d \<in> chain I r u" if u: "E u x" "u \<in> dom I" for u
    proof -
      have "E\<^sup>*\<^sup>* r u" using tree_ok_sub [OF t u(2)] rpo_ok_reach [OF R] by simp
      then show ?thesis using chain_u(1) dominates_pred [OF d u(1)] by simp
    qed
    then show "d \<in> chain I r c" using c by (auto simp: meets_def)
  qed
  then have "c \<in> chain I r y" "y \<in> chain I r c"
    using cy chain_self [of c I r] chain_self [of y I r] by auto
  then show ?thesis using chain_antisym [OF t] y by auto
qed

lemma exact_is_idom:
  assumes R: "rpo_ok E r R pn" and t: "tree_ok (set R) pn r I" and ex: "exact E r R I"
    and x: "x \<in> set R" "x \<noteq> r"
  shows "\<exists>y. I x = Some y \<and> y \<in> set R \<and> is_idom E r y x"
proof -
  obtain y where y: "I x = Some y" using ex x(1) by (auto simp: exact_def)
  then have yR: "y \<in> set R" using tree_ok_sub [OF t tree_ok_link(1) [OF t]] by auto
  have "x \<notin> chain I r y" using chain_le [OF t, of x y] tree_ok_link(2) [OF t y x(2)] by auto
  moreover have "insert x (chain I r y) = {d. dominates E r d x}" "chain I r y = {d. dominates E r d y}"
    using chain_unfold [of I x y r] y x ex yR by (auto simp: exact_def)
  ultimately have "is_idom E r y x"
    using chain_self [of y I r] by (auto simp: is_idom_def sdominates_def)
  then show ?thesis using y yR by auto
qed

end
