(* ===== verification/Idom_Run.thy ===== *)
theory Idom_Run
  imports Idom_Correct
begin

text \<open>
  The functions of \<^verbatim>\<open>create_idom\<close> on the state of the pass: what \<^verbatim>\<open>intersect\<close> returns, what a
  visit and a pass do to the map, and that the loop ends with exact dominators.
\<close>

section \<open>The map in the state\<close>

definition links :: "bb list \<Rightarrow> dominators \<Rightarrow> bb \<rightharpoonup> bb" where
  "links S d = (\<lambda>b. idom d (Some b)) |` set S"

text \<open>Everything but the entries of \<open>S\<close> in \<^verbatim>\<open>idom_\<close> is the same.\<close>

definition idom_frame :: "bb list \<Rightarrow> dominators \<Rightarrow> dominators \<Rightarrow> bool" where
  "idom_frame S d d' \<longleftrightarrow> reverse_post_order d' = reverse_post_order d \<and>
     post_order_id d' = post_order_id d \<and> doms d' = doms d \<and> dom_frontier d' = dom_frontier d \<and>
     dom_tree_succ_blocks d' = dom_tree_succ_blocks d \<and>
     (\<forall>b. b \<notin> Some ` set S \<longrightarrow> idom d' b = idom d b)"

lemma idom_frame_refl [simp]: "idom_frame S d d"
  by (simp add: idom_frame_def)

lemma idom_frame_trans: "idom_frame S a b \<Longrightarrow> idom_frame S b c \<Longrightarrow> idom_frame S a c"
  by (simp add: idom_frame_def)

lemma idom_frame_po: "idom_frame S d d' \<Longrightarrow> po d' = po d"
  by (simp add: idom_frame_def po_def fun_eq_iff)

lemma links_Some: "links S d a = Some y \<longleftrightarrow> a \<in> set S \<and> get_idom d (Some a) = Some y"
  by (simp add: links_def restrict_map_def get_idom_def)

lemma links_dom: "a \<in> dom (links S d) \<longleftrightarrow> a \<in> set S \<and> get_idom d (Some a) \<noteq> None"
  using links_Some [of S d a] by (auto simp: dom_def)

lemma set_idom_links:
  assumes "b \<in> set S"
  shows "links S (set_idom (Some b) (Some c) d) = (links S d)(b \<mapsto> c)"
  using assms by (auto simp: links_def set_idom_def restrict_map_def fun_eq_iff)

lemma set_idom_frame: "b \<in> set S \<Longrightarrow> idom_frame S d (set_idom (Some b) i d)"
  by (auto simp: idom_frame_def set_idom_def)

section \<open>Intersection of two chains\<close>

lemma climb_spec:
  assumes t: "tree_ok R (po d) r (links S d)" "finite R"
    and ab: "a \<in> dom (links S d)" "b \<in> dom (links S d)"
  shows "\<exists>c. climb d a b = Some (Inr c) \<and> c \<in> chain (links S d) r a \<and> po d b \<le> po d c \<and>
    (\<forall>e \<in> chain (links S d) r a. po d b \<le> po d e \<longrightarrow> e \<in> chain (links S d) r c)"
  using ab(1)
proof (induction "po d r - po d a" arbitrary: a rule: less_induct)
  case less
  note root = root_max [OF t]
  show ?case
  proof (cases "po d a < po d b")
    case True
    then have ar: "a \<noteq> r" using root [OF ab(2)] by auto
    obtain y where y: "links S d a = Some y" using less.prems by auto
    have up: "y \<in> dom (links S d)" "po d a < po d y"
      using tree_ok_link(1) [OF t(1) y] tree_ok_link(2) [OF t(1) y ar] .
    then have "po d r - po d y < po d r - po d a" using root [OF up(1)] by linarith
    then obtain c where c: "climb d y b = Some (Inr c)" "c \<in> chain (links S d) r y" "po d b \<le> po d c"
      "\<forall>e \<in> chain (links S d) r y. po d b \<le> po d e \<longrightarrow> e \<in> chain (links S d) r c"
      using less.hyps [OF _ up(1)] by blast
    have "climb d a b = climb d y b" using True y by (subst climb.simps) (simp add: links_Some)
    moreover have "chain (links S d) r a = insert a (chain (links S d) r y)"
      using chain_unfold [of "links S d" a y r] y ar by simp
    ultimately show ?thesis using c True by (intro exI [of _ c]) auto
  next
    case False
    then have "climb d a b = Some (Inr a)" by (subst climb.simps) simp
    then show ?thesis using False by (intro exI [of _ a]) simp
  qed
qed

lemma intersect_spec:
  assumes t: "tree_ok R (po d) r (links S d)" "finite R" and inj: "inj_on (po d) R"
    and ab: "a \<in> dom (links S d)" "b \<in> dom (links S d)"
  shows "\<exists>c. intersect d a b = Some (Inr c) \<and> c \<in> dom (links S d) \<and>
    chain (links S d) r c = chain (links S d) r a \<inter> chain (links S d) r b"
  using ab
proof (induction "2 * po d r - po d a - po d b" arbitrary: a b rule: less_induct)
  case less
  show ?case
  proof (cases "a = b")
    case True
    then show ?thesis using less.prems by (intro exI [of _ a]) (simp add: intersect.simps)
  next
    case False
    note in_dom = chain_dom [OF t(1), THEN subsetD]
    obtain a' where a': "climb d a b = Some (Inr a')" "a' \<in> chain (links S d) r a" "po d b \<le> po d a'"
      "\<forall>e \<in> chain (links S d) r a. po d b \<le> po d e \<longrightarrow> e \<in> chain (links S d) r a'"
      using climb_spec [OF t less.prems] by blast
    have da: "a' \<in> dom (links S d)" by (rule in_dom [OF less.prems(1) a'(2)])
    obtain b' where b': "climb d b a' = Some (Inr b')" "b' \<in> chain (links S d) r b" "po d a' \<le> po d b'"
      "\<forall>e \<in> chain (links S d) r b. po d a' \<le> po d e \<longrightarrow> e \<in> chain (links S d) r b'"
      using climb_spec [OF t less.prems(2) da] by blast
    have db: "b' \<in> dom (links S d)" by (rule in_dom [OF less.prems(2) b'(2)])
    have "a \<in> R" "b \<in> R" using tree_ok_sub [OF t(1)] less.prems by auto
    then have "po d a \<noteq> po d b" using inj False by (auto simp: inj_on_def)
    moreover have "po d a \<le> po d a'" using chain_le [OF t(1) a'(2)] by auto
    ultimately have "2 * po d r - po d a' - po d b' < 2 * po d r - po d a - po d b"
      using a'(3) b'(3) root_max [OF t da] root_max [OF t db] by linarith
    then obtain c where c: "intersect d a' b' = Some (Inr c)" "c \<in> dom (links S d)"
      "chain (links S d) r c = chain (links S d) r a' \<inter> chain (links S d) r b'"
      using less.hyps [OF _ da db] by blast
    have "e \<in> chain (links S d) r a' \<inter> chain (links S d) r b'"
      if e: "e \<in> chain (links S d) r a" "e \<in> chain (links S d) r b" for e
    proof -
      have "po d b \<le> po d e" using chain_le [OF t(1) e(2)] by auto
      then have ea: "e \<in> chain (links S d) r a'" using a'(4) e(1) by blast
      then have "po d a' \<le> po d e" using chain_le [OF t(1) ea] by auto
      then show ?thesis using b'(4) e(2) ea by blast
    qed
    then have "chain (links S d) r c = chain (links S d) r a \<inter> chain (links S d) r b"
      using c(3) chain_trans [OF a'(2)] chain_trans [OF b'(2)] by blast
    moreover have "intersect d a b = intersect d a' b'"
      using False a'(1) b'(1) by (subst intersect.simps) simp
    ultimately show ?thesis using c(1,2) by auto
  qed
qed

lemma merge_preds_spec:
  assumes t: "tree_ok R (po d) r (links S d)" "finite R" and inj: "inj_on (po d) R"
    and ps: "set ps \<subseteq> set S" and n: "n \<in> dom (links S d)" and p: "pred \<in> dom (links S d)"
    and sub: "chain (links S d) r n \<subseteq> chain (links S d) r pred"
  shows "\<exists>c. merge_preds d pred ps n = Some (Inr c) \<and> c \<in> dom (links S d) \<and>
    chain (links S d) r c =
      chain (links S d) r n \<inter> (\<Inter>q \<in> set ps \<inter> dom (links S d). chain (links S d) r q)"
  using ps n sub
proof (induction ps arbitrary: n)
  case Nil
  then show ?case by (auto simp: merge_preds_def)
next
  case (Cons q ps)
  show ?case
  proof (cases "q = pred \<or> q \<notin> dom (links S d)")
    case True
    then have "merge_preds d pred (q # ps) n = merge_preds d pred ps n"
      using Cons.prems(1) by (auto simp: merge_preds_def links_dom)
    moreover obtain c where "merge_preds d pred ps n = Some (Inr c)" "c \<in> dom (links S d)"
      "chain (links S d) r c =
        chain (links S d) r n \<inter> (\<Inter>q \<in> set ps \<inter> dom (links S d). chain (links S d) r q)"
      using Cons.IH [of n] Cons.prems by auto
    ultimately show ?thesis using True Cons.prems(3) by (intro exI [of _ c]) auto
  next
    case False
    then obtain m where m: "intersect d q n = Some (Inr m)" "m \<in> dom (links S d)"
      "chain (links S d) r m = chain (links S d) r q \<inter> chain (links S d) r n"
      using intersect_spec [OF t inj _ Cons.prems(2), of q] by auto
    then have "merge_preds d pred (q # ps) n = merge_preds d pred ps m"
      using False by (auto simp: merge_preds_def links_dom)
    moreover obtain c where "merge_preds d pred ps m = Some (Inr c)" "c \<in> dom (links S d)"
      "chain (links S d) r c =
        chain (links S d) r m \<inter> (\<Inter>q \<in> set ps \<inter> dom (links S d). chain (links S d) r q)"
      using Cons.IH [of m] Cons.prems m(2,3) by auto
    ultimately show ?thesis using False m(3) by (intro exI [of _ c]) auto
  qed
qed

section \<open>A visit and a pass\<close>

lemma reachable_listed:
  assumes "cfg_wf g" "get_entry_block g = Inr r" "(edge g)\<^sup>*\<^sup>* r x"
  shows "x \<in> set (basic_blocks g)"
proof (rule rtranclp_closed_set [OF _ assms(3)])
  show "r \<in> set (basic_blocks g)"
    using assms(2) by (auto simp: get_entry_block_def split: list.splits)
qed (use cfg_wf_closed(2) [OF assms(1)] in \<open>auto simp: edge_def\<close>)

lemma preds_in_tree:
  assumes "cfg_wf g" "x \<in> set (basic_blocks g)"
  shows "set (pre_bbs g x) \<inter> dom (links (basic_blocks g) d) =
    {p. edge g p x} \<inter> dom (links (basic_blocks g) d)"
  using cfg_wf_mirror [OF assms(1) _ assms(2)] links_dom [of _ "basic_blocks g" d]
  unfolding edge_def by blast

lemma idom_visit_spec:
  assumes wf: "cfg_wf g" and x: "x \<in> set (basic_blocks g)" "x \<noteq> r"
    and t: "tree_ok R (po d) r (links (basic_blocks g) d)" "finite R" and inj: "inj_on (po d) R"
    and p: "edge g p x" "p \<in> dom (links (basic_blocks g) d)"
  shows "\<exists>c d'. idom_visit g r x (d, ch) = Some (Inr (d', ch \<or> links (basic_blocks g) d x \<noteq> Some c)) \<and>
    meets (links (basic_blocks g) d) r {p. edge g p x} c \<and>
    links (basic_blocks g) d' = (links (basic_blocks g) d)(x \<mapsto> c) \<and>
    idom_frame (basic_blocks g) d d' \<and> (links (basic_blocks g) d x = Some c \<longrightarrow> d' = d)"
proof -
  let ?S = "basic_blocks g" and ?I = "links (basic_blocks g) d"
  note pre = preds_in_tree [OF wf x(1), of d]
  have sub: "set (pre_bbs g x) \<subseteq> set ?S" by (rule cfg_wf_closed(1) [OF wf x(1)])
  have "\<exists>q \<in> set (pre_bbs g x). get_idom d (Some q) \<noteq> None"
    using p pre links_dom [of p ?S d] by blast
  then obtain q where q: "List.find (\<lambda>p. get_idom d (Some p) \<noteq> None) (pre_bbs g x) = Some q"
    by (metis (mono_tags, lifting) find_None_iff2 not_Some_eq)
  then have qd: "q \<in> set (pre_bbs g x)" "q \<in> dom ?I"
    using find_Some_mem [OF q] sub by (auto simp: links_dom)
  obtain c where c: "merge_preds d q (pre_bbs g x) q = Some (Inr c)" "c \<in> dom ?I"
    "chain ?I r c = chain ?I r q \<inter> (\<Inter>q \<in> set (pre_bbs g x) \<inter> dom ?I. chain ?I r q)"
    using merge_preds_spec [OF t inj sub qd(2) qd(2)] by auto
  have "chain ?I r c = (\<Inter>p \<in> {p. edge g p x} \<inter> dom ?I. chain ?I r p)"
    using c(3) pre qd by auto
  then have m: "meets ?I r {p. edge g p x} c" using c(2) by (simp add: meets_def)
  have old: "?I x = Some c \<longleftrightarrow> get_idom d (Some x) = Some c" using x(1) by (simp add: links_Some)
  show ?thesis
  proof (cases "get_idom d (Some x) = Some c")
    case True
    then have "idom_visit g r x (d, ch) = Some (Inr (d, ch))" using q c(1) x(2) by (simp add: idom_visit_def)
    then show ?thesis using m old True by (intro exI [of _ c] exI [of _ d]) (simp add: fun_upd_idem)
  next
    case False
    let ?d = "set_idom (Some x) (Some c) d"
    have "idom_visit g r x (d, ch) = Some (Inr (?d, True))"
      using q c(1) x(2) False by (simp add: idom_visit_def)
    then show ?thesis using m old False set_idom_links [OF x(1)] set_idom_frame [OF x(1)]
      by (intro exI [of _ c] exI [of _ ?d]) simp
  qed
qed

lemma rpo_ok_inj_on: "rpo_ok E r R pn \<Longrightarrow> inj_on pn (set R)"
  by (auto intro: inj_onI rpo_ok_inj)

text \<open>What the rest of a pass does, once the blocks \<open>done\<close> have been visited.\<close>

lemma idom_pass_spec:
  assumes wf: "cfg_wf g" and root: "get_entry_block g = Inr r"
    and R: "rpo_ok (edge g) r (done @ rest) (po d)"
    and inv: "pass_inv (edge g) r (done @ rest) (po d) k done (links (basic_blocks g) d)"
  shows "\<exists>d' ch'. ofold (idom_visit g r) rest (d, ch) = Some (Inr (d', ch')) \<and>
    pass_inv (edge g) r (done @ rest) (po d) k (done @ rest) (links (basic_blocks g) d') \<and>
    idom_frame (basic_blocks g) d d' \<and> (ch \<longrightarrow> ch') \<and>
    (\<not> ch' \<longrightarrow> d' = d \<and> (\<forall>x \<in> set rest. x \<noteq> r \<longrightarrow> (\<exists>c. links (basic_blocks g) d x = Some c \<and>
       meets (links (basic_blocks g) d) r {p. edge g p x} c))) \<and>
    (exact (edge g) r (done @ rest) (links (basic_blocks g) d) \<longrightarrow> ch' = ch)"
  using R inv
proof (induction rest arbitrary: "done" d ch)
  case Nil
  then show ?case by (intro exI [of _ d] exI [of _ ch]) simp
next
  case (Cons x rest)
  let ?S = "basic_blocks g"
  have IH: "rpo_ok (edge g) r ((done @ [x]) @ rest) (po d) \<Longrightarrow>
      pass_inv (edge g) r ((done @ [x]) @ rest) (po d) k (done @ [x]) (links ?S d1) \<Longrightarrow> idom_frame ?S d d1 \<Longrightarrow>
      \<exists>d' ch'. ofold (idom_visit g r) rest (d1, ch1) = Some (Inr (d', ch')) \<and>
        pass_inv (edge g) r ((done @ [x]) @ rest) (po d) k ((done @ [x]) @ rest) (links ?S d') \<and>
        idom_frame ?S d1 d' \<and> (ch1 \<longrightarrow> ch') \<and>
        (\<not> ch' \<longrightarrow> d' = d1 \<and> (\<forall>x \<in> set rest. x \<noteq> r \<longrightarrow> (\<exists>c. links ?S d1 x = Some c \<and>
           meets (links ?S d1) r {p. edge g p x} c))) \<and>
        (exact (edge g) r ((done @ [x]) @ rest) (links ?S d1) \<longrightarrow> ch' = ch1)" for d1 ch1
    using Cons.IH [of "done @ [x]" d1 ch1] idom_frame_po by metis
  show ?case
  proof (cases "x = r")
    case True
    then have "ofold (idom_visit g r) (x # rest) (d, ch) = ofold (idom_visit g r) rest (d, ch)"
      by (simp add: idom_visit_def)
    then show ?thesis using IH [of d ch] Cons.prems pass_inv_root [OF Cons.prems(2)] True by auto
  next
    case False
    have xS: "x \<in> set ?S"
      using reachable_listed [OF wf root] rpo_ok_reach [OF Cons.prems(1), of x] by simp
    note t = pass_invD(1) [OF Cons.prems(2)]
    have xR: "x \<in> set (done @ x # rest)" by simp
    obtain p where p: "p \<in> set (done @ x # rest)" "edge g p x" "po d x < po d p"
      using rpo_ok_parent [OF Cons.prems(1) xR False] .
    then have "p \<in> dom (links ?S d)"
      using rpo_ok_earlier [OF Cons.prems(1) p(1,3)] pass_invD(3) [OF Cons.prems(2)] by auto
    then obtain c d1 where v: "idom_visit g r x (d, ch) = Some (Inr (d1, ch \<or> links ?S d x \<noteq> Some c))"
      and m: "meets (links ?S d) r {p. edge g p x} c" and l: "links ?S d1 = (links ?S d)(x \<mapsto> c)"
      and f: "idom_frame ?S d d1" and same: "links ?S d x = Some c \<longrightarrow> d1 = d"
      using idom_visit_spec [OF wf xS False t _ rpo_ok_inj_on [OF Cons.prems(1)] p(2), of ch] by auto
    have "pass_inv (edge g) r (done @ x # rest) (po d) k (done @ [x]) (links ?S d1)"
      unfolding l by (rule pass_inv_visit [OF Cons.prems(1) refl False Cons.prems(2) m])
    then obtain d' ch' where r: "ofold (idom_visit g r) rest (d1, ch \<or> links ?S d x \<noteq> Some c) = Some (Inr (d', ch'))"
      and inv': "pass_inv (edge g) r (done @ x # rest) (po d) k (done @ x # rest) (links ?S d')"
      and f': "idom_frame ?S d1 d'" and ch': "ch \<or> links ?S d x \<noteq> Some c \<longrightarrow> ch'"
      and st: "\<not> ch' \<Longrightarrow> d' = d1 \<and> (\<forall>x \<in> set rest. x \<noteq> r \<longrightarrow> (\<exists>c. links ?S d1 x = Some c \<and>
           meets (links ?S d1) r {p. edge g p x} c))"
      and ex: "exact (edge g) r (done @ x # rest) (links ?S d1) \<Longrightarrow> ch' = (ch \<or> links ?S d x \<noteq> Some c)"
      using IH [of d1 "ch \<or> links ?S d x \<noteq> Some c"] Cons.prems(1) f by auto
    have fixed: "links ?S d x = Some c" if "exact (edge g) r (done @ x # rest) (links ?S d)"
      by (rule exact_fixed [OF Cons.prems(1) refl False Cons.prems(2) that m])
    have "ofold (idom_visit g r) (x # rest) (d, ch) = Some (Inr (d', ch'))" using v r by simp
    moreover have "\<not> ch' \<longrightarrow> d' = d \<and> (\<forall>x \<in> set (x # rest). x \<noteq> r \<longrightarrow> (\<exists>c. links ?S d x = Some c \<and>
           meets (links ?S d) r {p. edge g p x} c))"
      using st ch' same m by auto
    moreover have "exact (edge g) r (done @ x # rest) (links ?S d) \<longrightarrow> ch' = ch"
      using ex fixed same by auto
    ultimately show ?thesis using inv' idom_frame_trans [OF f f'] ch' by auto
  qed
qed

section \<open>The loop\<close>

lemma idom_loop_spec:
  assumes wf: "cfg_wf g" and root: "get_entry_block g = Inr r"
    and R: "rpo_ok (edge g) r (reverse_post_order d) (po d)"
    and inv: "pass_inv (edge g) r (reverse_post_order d) (po d) k [] (links (basic_blocks g) d)"
  shows "\<exists>d'. idom_loop g r d = Some (Inr d') \<and> idom_frame (basic_blocks g) d d' \<and>
    exact (edge g) r (reverse_post_order d) (links (basic_blocks g) d') \<and>
    tree_ok (set (reverse_post_order d)) (po d) r (links (basic_blocks g) d')"
  using R inv
proof (induction "Suc (length (reverse_post_order d)) - k" arbitrary: d k rule: less_induct)
  case less
  let ?S = "basic_blocks g" and ?R = "reverse_post_order d"
  note R = less.prems(1)
  obtain d1 ch where p: "ofold (idom_visit g r) ?R (d, False) = Some (Inr (d1, ch))"
    and inv1: "pass_inv (edge g) r ?R (po d) k ?R (links ?S d1)" and f: "idom_frame ?S d d1"
    and st: "\<not> ch \<Longrightarrow> d1 = d \<and> (\<forall>x \<in> set ?R. x \<noteq> r \<longrightarrow> (\<exists>c. links ?S d x = Some c \<and>
       meets (links ?S d) r {p. edge g p x} c))"
    and ex: "exact (edge g) r ?R (links ?S d) \<Longrightarrow> \<not> ch"
    using idom_pass_spec [OF wf root, of "[]" ?R d k False] less.prems by auto
  have step: "idom_loop g r d = (if ch then idom_loop g r d1 else Some (Inr d1))"
    using p by (subst idom_loop.simps) (simp add: idom_pass_def)
  show ?case
  proof (cases ch)
    case True
    have "k \<le> length ?R"
    proof (rule ccontr)
      assume "\<not> k \<le> length ?R"
      then have "exact (edge g) r ?R (links ?S d)" by (intro exact_late [OF R less.prems(2)]) auto
      then show False using ex True by auto
    qed
    moreover have same: "reverse_post_order d1 = ?R" "po d1 = po d"
      using f idom_frame_po [OF f] by (simp_all add: idom_frame_def)
    moreover have "pass_inv (edge g) r ?R (po d) (Suc k) [] (links ?S d1)" by (rule pass_inv_next [OF inv1])
    ultimately have "\<exists>d'. idom_loop g r d1 = Some (Inr d') \<and> idom_frame ?S d1 d' \<and>
      exact (edge g) r ?R (links ?S d') \<and> tree_ok (set ?R) (po d) r (links ?S d')"
      using less.hyps [of d1 "Suc k"] R by (simp add: Suc_diff_le)
    then obtain d' where "idom_loop g r d1 = Some (Inr d')" "idom_frame ?S d1 d'"
      "exact (edge g) r ?R (links ?S d')" "tree_ok (set ?R) (po d) r (links ?S d')" by blast
    then show ?thesis using step True idom_frame_trans [OF f] by auto
  next
    case False
    have inv0: "pass_inv (edge g) r ?R (po d) k ?R (links ?S d)" using inv1 st False by simp
    have "exact (edge g) r ?R (links ?S d)"
      by (rule exact_stable [OF R inv0 pass_invD(3) [OF inv0]]) (use st False in auto)
    then show ?thesis using step False st pass_invD(1) [OF inv0] by auto
  qed
qed

lemma clear_idom:
  "fold (\<lambda>b. set_idom (Some b) None) S d =
     d\<lparr>idom := (\<lambda>b. if b \<in> Some ` set S then None else idom d b)\<rparr>"
  by (induction S arbitrary: d) (auto simp: set_idom_def fun_eq_iff)

lemma create_idom_spec:
  assumes wf: "cfg_wf g" and root: "get_entry_block g = Inr r"
    and R: "rpo_ok (edge g) r (reverse_post_order d) (po d)"
  shows "\<exists>d'. create_idom g d = Some (Inr d') \<and> idom_frame (basic_blocks g) d d' \<and>
    exact (edge g) r (reverse_post_order d) (links (basic_blocks g) d') \<and>
    tree_ok (set (reverse_post_order d)) (po d) r (links (basic_blocks g) d')"
proof -
  let ?S = "basic_blocks g"
  define d0 where "d0 = set_idom (Some r) (Some r) (fold (\<lambda>b. set_idom (Some b) None) ?S d)"
  have rS: "r \<in> set ?S" using root by (auto simp: get_entry_block_def split: list.splits)
  have f: "idom_frame ?S d d0"
    using rS by (auto simp: d0_def clear_idom idom_frame_def set_idom_def)
  have "links ?S (fold (\<lambda>b. set_idom (Some b) None) ?S d) = Map.empty"
    by (auto simp: clear_idom links_def restrict_map_def fun_eq_iff)
  then have l: "links ?S d0 = [r \<mapsto> r]" using set_idom_links [OF rS] by (simp add: d0_def)
  have same: "reverse_post_order d0 = reverse_post_order d" "po d0 = po d"
    using f idom_frame_po [OF f] by (simp_all add: idom_frame_def)
  have "pass_inv (edge g) r (reverse_post_order d0) (po d0) 0 [] (links ?S d0)"
    unfolding l same by (rule pass_inv_start [OF rpo_ok_root [OF R]])
  then obtain d' where d': "idom_loop g r d0 = Some (Inr d')" "idom_frame ?S d0 d'"
    "exact (edge g) r (reverse_post_order d) (links ?S d')"
    "tree_ok (set (reverse_post_order d)) (po d) r (links ?S d')"
    using idom_loop_spec [OF wf root, of d0 0] R same by auto
  have "create_idom g d = idom_loop g r d0" using root by (simp add: create_idom_def d0_def)
  then show ?thesis using d' idom_frame_trans [OF f] by auto
qed

text \<open>What the other steps read: the entries of \<^verbatim>\<open>idom_\<close> for the blocks of the function.\<close>

lemma create_idom_links:
  assumes "cfg_wf g" "get_entry_block g = Inr r"
    and "rpo_ok (edge g) r (reverse_post_order d) (po d)"
    and "exact (edge g) r (reverse_post_order d) (links (basic_blocks g) d')"
    and "tree_ok (set (reverse_post_order d)) (po d) r (links (basic_blocks g) d')"
  shows "get_idom d' (Some r) = Some r"
    and "(edge g)\<^sup>*\<^sup>* r b \<Longrightarrow> b \<noteq> r \<Longrightarrow> \<exists>i. get_idom d' (Some b) = Some i \<and> (edge g)\<^sup>*\<^sup>* r i \<and> is_idom (edge g) r i b"
    and "b \<in> set (basic_blocks g) \<Longrightarrow> \<not> (edge g)\<^sup>*\<^sup>* r b \<Longrightarrow> get_idom d' (Some b) = None"
proof -
  show "get_idom d' (Some r) = Some r"
    using assms(5) by (simp add: tree_ok_def links_Some)
  show "\<exists>i. get_idom d' (Some b) = Some i \<and> (edge g)\<^sup>*\<^sup>* r i \<and> is_idom (edge g) r i b"
    if "(edge g)\<^sup>*\<^sup>* r b" "b \<noteq> r"
    using exact_is_idom [OF assms(3,5,4), of b] that rpo_ok_reach [OF assms(3)]
    by (auto simp: links_Some)
  show "get_idom d' (Some b) = None" if b: "b \<in> set (basic_blocks g)" "\<not> (edge g)\<^sup>*\<^sup>* r b"
  proof (rule ccontr)
    assume "get_idom d' (Some b) \<noteq> None"
    then have "b \<in> dom (links (basic_blocks g) d')" using b(1) by (simp add: links_dom)
    then show False using tree_ok_sub [OF assms(5)] rpo_ok_reach [OF assms(3), of b] b(2) by auto
  qed
qed

end
