(* ===== verification/Dom_Run.thy ===== *)
theory Dom_Run
  imports Idom_Run
begin

text \<open>
  The last two steps of the dominator pass and the pass as a whole: the dominance frontiers
  are those of the specification, the children in the dominator tree are the blocks with
  that immediate dominator, and the pass returns exactly when no block with two predecessors
  that the entry reaches has a predecessor that it does not reach.
\<close>

section \<open>Specification of the frontiers\<close>

definition frontier :: "('a \<Rightarrow> 'a \<Rightarrow> bool) \<Rightarrow> 'a \<Rightarrow> 'a \<Rightarrow> 'a set" where
  "frontier E r x = {y. E\<^sup>*\<^sup>* r y \<and> (\<exists>p. E p y \<and> E\<^sup>*\<^sup>* r p \<and> dominates E r x p) \<and> \<not> sdominates E r x y}"

definition frontier_safe :: "cfg \<Rightarrow> bb \<Rightarrow> bool" where
  "frontier_safe g r \<longleftrightarrow> (\<forall>b. (edge g)\<^sup>*\<^sup>* r b \<longrightarrow> 2 \<le> length (pre_bbs g b) \<longrightarrow>
     (\<forall>p \<in> set (pre_bbs g b). (edge g)\<^sup>*\<^sup>* r p))"

section \<open>One run of the runner\<close>

definition add_df :: "bb option set \<Rightarrow> bb \<Rightarrow> dominators \<Rightarrow> dominators" where
  "add_df K b d = d\<lparr>dom_frontier := (\<lambda>x. if x \<in> K then insert b (dom_frontier d x) else dom_frontier d x)\<rparr>"

lemma add_df_empty [simp]: "add_df {} b d = d"
  by (simp add: add_df_def)

lemma add_df_Un [simp]: "add_df K b (add_df L b d) = add_df (K \<union> L) b d"
  by (rule dominators.equality) (auto simp: add_df_def fun_eq_iff)

lemma add_df_idom [simp]: "get_idom (add_df K b d) = get_idom d" "links S (add_df K b d) = links S d"
  "idom (add_df K b d) = idom d"
  by (simp_all add: add_df_def get_idom_def links_def fun_eq_iff)

lemma add_dominance_frontier_df: "add_dominance_frontier x b d = add_df {x} b d"
  by (auto simp: add_dominance_frontier_def add_df_def fun_eq_iff)

lemma df_runner_spec:
  assumes t: "tree_ok R pn r I" "finite R" and I: "I = links S d"
    and i: "get_idom d (Some b) = Some i" and p: "p \<in> dom I" "i \<in> chain I r p"
  shows "df_runner (Some p) b d = Some (Inr (add_df (Some ` (chain I r p - chain I r i)) b d))"
  using p I i
proof (induction "pn r - pn p" arbitrary: p d rule: less_induct)
  case less
  show ?case
  proof (cases "p = i")
    case True
    then show ?thesis using less.prems(4) by (subst df_runner.simps) simp
  next
    case False
    then have pr: "p \<noteq> r" using less.prems(2) by auto
    obtain q where q: "I p = Some q" using less.prems(1) by auto
    have up: "q \<in> dom I" "pn p < pn q"
      using tree_ok_link(1) [OF t(1) q] tree_ok_link(2) [OF t(1) q pr] .
    have chain: "chain I r p = insert p (chain I r q)"
      using chain_unfold [of I p q r] q pr by simp
    have iq: "i \<in> chain I r q" using chain less.prems(2) False by auto
    have pi: "p \<notin> chain I r i"
      using chain_antisym [OF t(1) less.prems(2)] False by auto
    have gq: "get_idom d (Some p) = Some q" using q less.prems(3) by (simp add: links_Some)
    have "df_runner (Some q) b (add_df {Some p} b d) =
        Some (Inr (add_df (Some ` (chain I r q - chain I r i)) b (add_df {Some p} b d)))"
      using less.hyps [OF _ up(1) iq, of "add_df {Some p} b d"] less.prems(3,4)
        root_max [OF t up(1)] up(2) by simp
    moreover have "Some ` (chain I r q - chain I r i) \<union> {Some p} = Some ` (chain I r p - chain I r i)"
      using chain pi by auto
    ultimately show ?thesis
      using False less.prems(4) gq by (subst df_runner.simps) (simp add: add_dominance_frontier_df)
  qed
qed

text \<open>An unreachable block stops at once, as neither it nor its predecessors have an \<^verbatim>\<open>idom_\<close>.\<close>

lemma df_runner_unreachable:
  assumes "get_idom d (Some b) = None" "get_idom d (Some p) = None"
  shows "df_runner (Some p) b d = Some (Inr (add_df {Some p} b d))"
  using assms by (subst df_runner.simps, subst df_runner.simps) (simp add: add_dominance_frontier_df)

text \<open>A runner without an \<^verbatim>\<open>idom_\<close> leaves the tree and never comes back.\<close>

lemma df_runner_null:
  assumes "get_idom d None = None" "get_idom d (Some b) = Some i"
  shows "df_runner None b d = None"
proof -
  have "get_idom d None = None \<Longrightarrow> get_idom d (Some b) = Some i \<Longrightarrow> x = None \<Longrightarrow> False"
    if "df_runner x b d = Some y" for x y d
    using that
  proof (induction rule: df_runner.raw_induct [rotated, consumes 1, case_names step])
    case (step f x b d y)
    show ?case
    proof (cases "x \<noteq> get_idom d (Some b)")
      case True
      then have "f (get_idom d x) b (add_dominance_frontier x b d) = Some y" using step(2) by simp
      moreover have "get_idom (add_dominance_frontier x b d) = get_idom d"
        by (simp add: add_dominance_frontier_df)
      ultimately show ?thesis using step(1) step(3-5) by metis
    qed (use step in auto)
  qed
  then show ?thesis using assms by (cases "df_runner None b d") auto
qed

lemma df_runner_detached:
  assumes "get_idom d None = None" "get_idom d (Some b) = Some i"
    and "get_idom d (Some p) = None" "p \<noteq> i"
  shows "df_runner (Some p) b d = None"
  using assms df_runner_null [of "add_df {Some p} b d" b i]
  by (subst df_runner.simps) (simp add: add_dominance_frontier_df)

lemma df_runner_frame:
  assumes "df_runner x b d = Some y"
  shows "\<exists>K. y = Inr (add_df K b d)"
  using assms
proof (induction rule: df_runner.raw_induct [rotated, consumes 1, case_names step])
  case (step f x b d y)
  show ?case
  proof (cases "x \<noteq> get_idom d (Some b)")
    case True
    then have "f (get_idom d x) b (add_df {x} b d) = Some y"
      using step(2) by (simp add: add_dominance_frontier_df)
    then obtain K where "y = Inr (add_df K b (add_df {x} b d))" using step(1) by metis
    then show ?thesis by (intro exI [of _ "K \<union> {x}"]) simp
  next
    case False
    then have "y = Inr (add_df {} b d)" using step(2) by simp
    then show ?thesis by blast
  qed
qed

section \<open>The frontiers\<close>

text \<open>What \<^verbatim>\<open>create_idom\<close> leaves for the steps that follow.\<close>

definition idom_done :: "cfg \<Rightarrow> bb \<Rightarrow> dominators \<Rightarrow> bool" where
  "idom_done g r d \<longleftrightarrow> cfg_wf g \<and> get_entry_block g = Inr r \<and> idom d None = None \<and>
     (\<exists>R pn. rpo_ok (edge g) r R pn \<and> exact (edge g) r R (links (basic_blocks g) d) \<and>
        tree_ok (set R) pn r (links (basic_blocks g) d))"

lemma idom_done_add_df [simp]: "idom_done g r (add_df K b d) = idom_done g r d"
  by (simp add: idom_done_def)

lemma idom_doneD:
  assumes "idom_done g r d"
  shows "get_idom d (Some r) = Some r"
    and "(edge g)\<^sup>*\<^sup>* r b \<Longrightarrow> b \<noteq> r \<Longrightarrow> \<exists>i. get_idom d (Some b) = Some i \<and> (edge g)\<^sup>*\<^sup>* r i \<and> is_idom (edge g) r i b"
    and "b \<in> set (basic_blocks g) \<Longrightarrow> \<not> (edge g)\<^sup>*\<^sup>* r b \<Longrightarrow> get_idom d (Some b) = None"
    and "get_idom d None = None"
proof -
  obtain R pn where d: "cfg_wf g" "get_entry_block g = Inr r" "rpo_ok (edge g) r R pn"
    "exact (edge g) r R (links (basic_blocks g) d)" "tree_ok (set R) pn r (links (basic_blocks g) d)"
    using assms by (auto simp: idom_done_def)
  have rS: "r \<in> set (basic_blocks g)" using d(2) by (auto simp: get_entry_block_def split: list.splits)
  show "get_idom d (Some r) = Some r" using d(5) by (simp add: tree_ok_def links_Some)
  show "\<exists>i. get_idom d (Some b) = Some i \<and> (edge g)\<^sup>*\<^sup>* r i \<and> is_idom (edge g) r i b"
    if "(edge g)\<^sup>*\<^sup>* r b" "b \<noteq> r"
    using exact_is_idom [OF d(3,5,4), of b] that rpo_ok_reach [OF d(3)] by (auto simp: links_Some)
  show "get_idom d (Some b) = None" if b: "b \<in> set (basic_blocks g)" "\<not> (edge g)\<^sup>*\<^sup>* r b"
    using tree_ok_sub [OF d(5), of b] rpo_ok_reach [OF d(3), of b] b
      links_dom [of b "basic_blocks g" d] by blast
  show "get_idom d None = None" using assms by (simp add: idom_done_def get_idom_def)
qed

lemma below_idom:
  assumes "is_idom E r i b" "E\<^sup>*\<^sup>* r b"
  shows "dominates E r x i \<longleftrightarrow> sdominates E r x b"
proof
  assume x: "dominates E r x i"
  have i: "dominates E r i b" "i \<noteq> b" using assms(1) by (auto simp: is_idom_def sdominates_def)
  then have "x \<noteq> b" using x dominates_antisym [of E r i b] dominates_reach [OF i(1) assms(2)] by auto
  then show "sdominates E r x b" using dominates_trans [OF x i(1)] by (simp add: sdominates_def)
qed (use assms in \<open>auto simp: is_idom_def\<close>)

lemma df_runner_reachable:
  assumes d: "idom_done g r d" and b: "(edge g)\<^sup>*\<^sup>* r b" "b \<noteq> r" and p: "edge g p b" "(edge g)\<^sup>*\<^sup>* r p"
  shows "df_runner (Some p) b d =
    Some (Inr (add_df (Some ` {x. dominates (edge g) r x p \<and> \<not> sdominates (edge g) r x b}) b d))"
proof -
  let ?I = "links (basic_blocks g) d"
  obtain R pn where R: "rpo_ok (edge g) r R pn" and ex: "exact (edge g) r R ?I"
    and t: "tree_ok (set R) pn r ?I"
    using d by (auto simp: idom_done_def)
  obtain i where i: "get_idom d (Some b) = Some i" "(edge g)\<^sup>*\<^sup>* r i" "is_idom (edge g) r i b"
    using idom_doneD(2) [OF d b] by auto
  have chains: "chain ?I r p = {x. dominates (edge g) r x p}" "chain ?I r i = {x. dominates (edge g) r x i}"
    "p \<in> dom ?I"
    using ex p(2) i(2) rpo_ok_reach [OF R] by (auto simp: exact_def)
  have "dominates (edge g) r i p"
    using dominates_pred [of "edge g" r i b p] i(3) p(1) by (simp add: is_idom_def)
  then have "i \<in> chain ?I r p" using chains by simp
  moreover have "chain ?I r p - chain ?I r i = {x. dominates (edge g) r x p \<and> \<not> sdominates (edge g) r x b}"
    using chains below_idom [OF i(3) b(1)] by auto
  ultimately show ?thesis using df_runner_spec [OF t _ refl i(1) chains(3)] by simp
qed

lemma df_runners:
  assumes "idom_done g r d"
    and "\<And>p d. p \<in> set ps \<Longrightarrow> idom_done g r d \<Longrightarrow> df_runner (Some p) b d = Some (Inr (add_df (K p) b d))"
  shows "ofold (\<lambda>p. df_runner (Some p) b) ps d = Some (Inr (add_df (\<Union>p \<in> set ps. K p) b d))"
  using assms
proof (induction ps arbitrary: d)
  case (Cons p ps)
  have "ofold (\<lambda>p. df_runner (Some p) b) ps (add_df (K p) b d) =
      Some (Inr (add_df (\<Union>p \<in> set ps. K p) b (add_df (K p) b d)))"
    by (rule Cons.IH) (use Cons.prems in auto)
  then show ?case using Cons.prems by (simp add: Un_commute)
qed simp

text \<open>A block with one predecessor is in no frontier.\<close>

lemma single_pred_no_frontier:
  assumes b: "E\<^sup>*\<^sup>* r b" "b \<noteq> r" and p: "\<And>u. E u b \<Longrightarrow> u = p"
  shows "b \<notin> frontier E r x"
proof
  assume "b \<in> frontier E r x"
  then have x: "dominates E r x p" "\<not> sdominates E r x b" using p by (auto simp: frontier_def)
  have "dominates E r x b" by (rule dominates_from_preds [OF b(2)]) (use p x(1) in auto)
  moreover have "x \<noteq> b" using no_self_pred_dominator [OF b(2,1)] p x(1) by auto
  ultimately show False using x(2) by (simp add: sdominates_def)
qed

lemma df_block_spec:
  assumes d: "idom_done g r d" and b: "b \<in> set (basic_blocks g)"
    and root: "pre_bbs g r = []" and safe: "frontier_safe g r"
  shows "\<exists>K. df_block g b d = Some (Inr (add_df K b d)) \<and> K \<subseteq> Some ` set (basic_blocks g) \<and>
    (\<forall>x. (edge g)\<^sup>*\<^sup>* r x \<longrightarrow> (Some x \<in> K \<longleftrightarrow> b \<in> frontier (edge g) r x)) \<and>
    (\<forall>x. (edge g)\<^sup>*\<^sup>* r b \<longrightarrow> Some x \<in> K \<longrightarrow> (edge g)\<^sup>*\<^sup>* r x)"
proof -
  let ?E = "edge g" and ?S = "set (basic_blocks g)"
  have wf: "cfg_wf g" "get_entry_block g = Inr r" using d by (simp_all add: idom_done_def)
  have pre: "p \<in> set (pre_bbs g b) \<longleftrightarrow> ?E p b" if "p \<in> ?S" for p
    using cfg_wf_mirror [OF wf(1) that b] by (simp add: edge_def)
  have preS: "set (pre_bbs g b) \<subseteq> ?S" by (rule cfg_wf_closed(1) [OF wf(1) b])
  note reachS = reachable_listed [OF wf]
  consider (few) "length (pre_bbs g b) < 2"
    | (reach) "2 \<le> length (pre_bbs g b)" "?E\<^sup>*\<^sup>* r b" | (unreach) "2 \<le> length (pre_bbs g b)" "\<not> ?E\<^sup>*\<^sup>* r b"
    by linarith
  then show ?thesis
  proof cases
    case few
    have "b \<notin> frontier ?E r x" for x
    proof
      assume f: "b \<in> frontier ?E r x"
      then obtain p where p: "?E p b" "?E\<^sup>*\<^sup>* r p" "?E\<^sup>*\<^sup>* r b" by (auto simp: frontier_def)
      have "p \<in> set (pre_bbs g b)" using pre [OF reachS [OF p(2)]] p(1) by simp
      then have one: "set (pre_bbs g b) = {p}" using few by (cases "pre_bbs g b") auto
      then have "b \<noteq> r" using root by auto
      moreover have "dominates ?E r x p"
        using f one pre reachS by (auto simp: frontier_def)
      moreover have "u = p" if "?E u b" "?E\<^sup>*\<^sup>* r u" for u
        using one pre [OF reachS [OF that(2)]] that(1) by auto
      ultimately have "dominates ?E r x b" "x \<noteq> b"
        using dominates_from_preds [of b r ?E x] no_self_pred_dominator [of b r ?E] p(3) by blast+
      then show False using f by (simp add: frontier_def sdominates_def)
    qed
    then show ?thesis using few by (intro exI [of _ "{}"]) (simp add: df_block_def)
  next
    case reach
    define K where "K p = Some ` {x. dominates ?E r x p \<and> \<not> sdominates ?E r x b}" for p
    have "b \<noteq> r" using root reach(1) by auto
    have ps: "?E p b" "?E\<^sup>*\<^sup>* r p" if "p \<in> set (pre_bbs g b)" for p
      using that safe reach pre preS by (auto simp: frontier_safe_def)
    then have "df_block g b d = Some (Inr (add_df (\<Union>p \<in> set (pre_bbs g b). K p) b d))"
      using df_runners [OF d, of "pre_bbs g b" b K] df_runner_reachable [OF _ reach(2) \<open>b \<noteq> r\<close>] reach(1)
      by (simp add: df_block_def K_def)
    moreover have "K p \<subseteq> Some ` ?S" if "p \<in> set (pre_bbs g b)" for p
      using reachS dominates_reach [OF _ ps(2) [OF that]] by (auto simp: K_def)
    moreover have "Some x \<in> (\<Union>p \<in> set (pre_bbs g b). K p) \<longleftrightarrow> b \<in> frontier ?E r x" for x
      using ps pre reachS reach(2) by (auto simp: K_def frontier_def)
    moreover have "?E\<^sup>*\<^sup>* r x" if "b \<in> frontier ?E r x" for x
      using that dominates_reach by (auto simp: frontier_def)
    ultimately show ?thesis by (intro exI [of _ "\<Union>p \<in> set (pre_bbs g b). K p"]) auto
  next
    case unreach
    have ps: "\<not> ?E\<^sup>*\<^sup>* r p" if "p \<in> set (pre_bbs g b)" for p
      using that unreach(2) pre preS by (auto intro: rtranclp.rtrancl_into_rtrancl)
    have "df_runner (Some p) b d' = Some (Inr (add_df {Some p} b d'))"
      if "p \<in> set (pre_bbs g b)" "idom_done g r d'" for p d'
      using df_runner_unreachable [of d' b p] idom_doneD(3) [OF that(2)] b unreach(2) ps [OF that(1)]
        that(1) preS by auto
    then have "df_block g b d = Some (Inr (add_df (\<Union>p \<in> set (pre_bbs g b). {Some p}) b d))"
      using df_runners [OF d, of "pre_bbs g b" b "\<lambda>p. {Some p}"] unreach(1) by (simp add: df_block_def)
    then show ?thesis using preS ps unreach(2)
      by (intro exI [of _ "\<Union>p \<in> set (pre_bbs g b). {Some p}"]) (auto simp: frontier_def)
  qed
qed

lemma df_blocks_spec:
  assumes "idom_done g r d" "set bs \<subseteq> set (basic_blocks g)" "pre_bbs g r = []" "frontier_safe g r"
  shows "\<exists>F. ofold (df_block g) bs d = Some (Inr (d\<lparr>dom_frontier := (\<lambda>x. dom_frontier d x \<union> F x)\<rparr>)) \<and>
    (\<forall>x. x \<notin> Some ` set (basic_blocks g) \<longrightarrow> F x = {}) \<and>
    (\<forall>x. (edge g)\<^sup>*\<^sup>* r x \<longrightarrow> F (Some x) = frontier (edge g) r x \<inter> set bs) \<and>
    (\<forall>x. \<forall>c \<in> F (Some x). c \<in> set bs \<and> ((edge g)\<^sup>*\<^sup>* r c \<longrightarrow> (edge g)\<^sup>*\<^sup>* r x))"
  using assms(1,2)
proof (induction bs arbitrary: d)
  case Nil
  then show ?case by (intro exI [of _ "\<lambda>_. {}"]) simp
next
  case (Cons b bs)
  have "b \<in> set (basic_blocks g)" using Cons.prems(2) by simp
  from df_block_spec [OF Cons.prems(1) this assms(3,4)] obtain K
    where K: "df_block g b d = Some (Inr (add_df K b d))" "K \<subseteq> Some ` set (basic_blocks g)"
    "\<And>x. (edge g)\<^sup>*\<^sup>* r x \<Longrightarrow> Some x \<in> K \<longleftrightarrow> b \<in> frontier (edge g) r x"
    "\<And>x. (edge g)\<^sup>*\<^sup>* r b \<Longrightarrow> Some x \<in> K \<Longrightarrow> (edge g)\<^sup>*\<^sup>* r x" by blast
  let ?d = "add_df K b d"
  have "idom_done g r ?d" "set bs \<subseteq> set (basic_blocks g)" using Cons.prems by simp_all
  from Cons.IH [OF this] obtain F
    where F: "ofold (df_block g) bs ?d = Some (Inr (?d\<lparr>dom_frontier := (\<lambda>x. dom_frontier ?d x \<union> F x)\<rparr>))"
    "\<forall>x. x \<notin> Some ` set (basic_blocks g) \<longrightarrow> F x = {}"
    "\<forall>x. (edge g)\<^sup>*\<^sup>* r x \<longrightarrow> F (Some x) = frontier (edge g) r x \<inter> set bs"
    "\<forall>x. \<forall>c \<in> F (Some x). c \<in> set bs \<and> ((edge g)\<^sup>*\<^sup>* r c \<longrightarrow> (edge g)\<^sup>*\<^sup>* r x)" by blast
  let ?F = "\<lambda>x. (if x \<in> K then {b} else {}) \<union> F x"
  have "?d\<lparr>dom_frontier := (\<lambda>x. dom_frontier ?d x \<union> F x)\<rparr> = d\<lparr>dom_frontier := (\<lambda>x. dom_frontier d x \<union> ?F x)\<rparr>"
    by (rule dominators.equality) (auto simp: add_df_def fun_eq_iff)
  then have "ofold (df_block g) (b # bs) d = Some (Inr (d\<lparr>dom_frontier := (\<lambda>x. dom_frontier d x \<union> ?F x)\<rparr>))"
    using K(1) F(1) by simp
  moreover have "\<forall>x. x \<notin> Some ` set (basic_blocks g) \<longrightarrow> ?F x = {}" using K(2) F(2) by auto
  moreover have "\<forall>x. (edge g)\<^sup>*\<^sup>* r x \<longrightarrow> ?F (Some x) = frontier (edge g) r x \<inter> set (b # bs)"
    using K(3) F(3) by auto
  moreover have "\<forall>x. \<forall>c \<in> ?F (Some x). c \<in> set (b # bs) \<and> ((edge g)\<^sup>*\<^sup>* r c \<longrightarrow> (edge g)\<^sup>*\<^sup>* r x)"
    using K(4) F(4) by auto
  ultimately show ?case by (intro exI [of _ ?F]) simp
qed

lemma create_dom_tree_succ_eq:
  "create_dom_tree_succ g d = d\<lparr>dom_tree_succ_blocks := (\<lambda>x. dom_tree_succ_blocks d x \<union>
     {b \<in> set (basic_blocks g). get_idom d (Some b) = x \<and> x \<noteq> Some b})\<rparr>"
proof -
  have "fold (\<lambda>b d. let i = get_idom d (Some b) in
      if i \<noteq> Some b then add_dom_tree_succ_block i b d else d) bs d =
    d\<lparr>dom_tree_succ_blocks := (\<lambda>x. dom_tree_succ_blocks d x \<union>
      {b \<in> set bs. get_idom d (Some b) = x \<and> x \<noteq> Some b})\<rparr>" for bs
    by (induction bs arbitrary: d)
      (auto simp: Let_def add_dom_tree_succ_block_def get_idom_def fun_eq_iff intro!: dominators.equality)
  then show ?thesis by (simp add: create_dom_tree_succ_def)
qed

section \<open>The pass\<close>

lemma run_function_steps:
  assumes wf: "cfg_wf g" and root: "get_entry_block g = Inr r" and null: "idom d None = None"
  shows "\<exists>d2. run_function g d = obind (create_dominance_frontier g d2) (\<lambda>d3. Some (Inr (create_dom_tree_succ g d3))) \<and>
    idom_done g r d2 \<and> dom_frontier d2 = dom_frontier d \<and>
    dom_tree_succ_blocks d2 = dom_tree_succ_blocks d \<and> doms d2 = doms d \<and>
    (\<forall>x. x \<notin> Some ` set (basic_blocks g) \<longrightarrow> idom d2 x = idom d x)"
proof -
  obtain d1 where d1: "create_reverse_post_order g d = Some (Inr d1)" "same_maps d d1"
    "rpo_ok (edge g) r (reverse_post_order d1) (po d1)"
    using create_reverse_post_order_correct [OF wf root] by blast
  obtain d2 where d2: "create_idom g d1 = Some (Inr d2)" "idom_frame (basic_blocks g) d1 d2"
    "exact (edge g) r (reverse_post_order d1) (links (basic_blocks g) d2)"
    "tree_ok (set (reverse_post_order d1)) (po d1) r (links (basic_blocks g) d2)"
    using create_idom_spec [OF wf root d1(3)] by blast
  have "basic_blocks g \<noteq> []" using root by (auto simp: get_entry_block_def)
  then have "run_function g d = obind (create_dominance_frontier g d2) (\<lambda>d3. Some (Inr (create_dom_tree_succ g d3)))"
    using d1(1) d2(1) by (simp add: run_function_def)
  moreover have "idom d2 None = None"
    using d1(2) d2(2) null by (auto simp: same_maps_def idom_frame_def)
  then have "idom_done g r d2" using wf root d1(3) d2(3,4) by (auto simp: idom_done_def)
  ultimately show ?thesis using d1(2) d2(2) by (intro exI [of _ d2]) (auto simp: same_maps_def idom_frame_def)
qed

text \<open>What the pass promises for one function.\<close>

definition dominators_of :: "cfg \<Rightarrow> bb \<Rightarrow> dominators \<Rightarrow> bool" where
  "dominators_of g r d \<longleftrightarrow> get_idom d (Some r) = Some r \<and>
     (\<forall>b. (edge g)\<^sup>*\<^sup>* r b \<longrightarrow>
       (b \<noteq> r \<longrightarrow> (\<exists>i. get_idom d (Some b) = Some i \<and> is_idom (edge g) r i b)) \<and>
       get_dominance_frontier d (Some b) = frontier (edge g) r b \<and>
       get_dom_tree_succ_blocks d (Some b) = {c. (edge g)\<^sup>*\<^sup>* r c \<and> is_idom (edge g) r b c}) \<and>
     (\<forall>b \<in> set (basic_blocks g). \<forall>c \<in> get_dominance_frontier d (Some b).
       c \<in> set (basic_blocks g) \<and> ((edge g)\<^sup>*\<^sup>* r c \<longrightarrow> (edge g)\<^sup>*\<^sup>* r b))"

lemma frontier_listed:
  assumes "cfg_wf g" "get_entry_block g = Inr r"
  shows "frontier (edge g) r x \<subseteq> set (basic_blocks g)"
  using reachable_listed [OF assms] by (auto simp: frontier_def)

lemma tree_children:
  assumes d: "idom_done g r d" and b: "(edge g)\<^sup>*\<^sup>* r b"
  shows "{c \<in> set (basic_blocks g). get_idom d (Some c) = Some b \<and> Some b \<noteq> Some c} =
    {c. (edge g)\<^sup>*\<^sup>* r c \<and> is_idom (edge g) r b c}"
proof (intro set_eqI iffI)
  fix c
  assume "c \<in> {c \<in> set (basic_blocks g). get_idom d (Some c) = Some b \<and> Some b \<noteq> Some c}"
  then have c: "c \<in> set (basic_blocks g)" "get_idom d (Some c) = Some b" "b \<noteq> c" by auto
  have reach: "(edge g)\<^sup>*\<^sup>* r c" using idom_doneD(3) [OF d c(1)] c(2) by fastforce
  moreover have "c \<noteq> r" using idom_doneD(1) [OF d] c(2,3) by auto
  ultimately show "c \<in> {c. (edge g)\<^sup>*\<^sup>* r c \<and> is_idom (edge g) r b c}"
    using idom_doneD(2) [OF d reach] c(2) by auto
next
  fix c
  assume "c \<in> {c. (edge g)\<^sup>*\<^sup>* r c \<and> is_idom (edge g) r b c}"
  then have c: "(edge g)\<^sup>*\<^sup>* r c" "is_idom (edge g) r b c" by auto
  then have "b \<noteq> c" "c \<noteq> r" using dominates_of_root [of "edge g" r b]
    by (auto simp: is_idom_def sdominates_def)
  then show "c \<in> {c \<in> set (basic_blocks g). get_idom d (Some c) = Some b \<and> Some b \<noteq> Some c}"
    using idom_doneD(2) [OF d c(1)] is_idom_unique [OF c(2) _ c(1)] d
      reachable_listed [OF _ _ c(1)] by (auto simp: idom_done_def)
qed

lemma run_function_spec:
  assumes wf: "cfg_wf g" and root: "get_entry_block g = Inr r" "pre_bbs g r = []"
    and safe: "frontier_safe g r" and null: "idom d None = None"
    and fresh: "\<And>b. b \<in> set (basic_blocks g) \<Longrightarrow> dom_frontier d (Some b) = {} \<and> dom_tree_succ_blocks d (Some b) = {}"
  shows "\<exists>d'. run_function g d = Some (Inr d') \<and> dominators_of g r d' \<and> doms d' = doms d \<and>
    (\<forall>x. x \<notin> Some ` set (basic_blocks g) \<longrightarrow> idom d' x = idom d x \<and> dom_frontier d' x = dom_frontier d x) \<and>
    (\<forall>x. x \<notin> Some ` set (basic_blocks g) \<longrightarrow> x \<noteq> None \<longrightarrow> dom_tree_succ_blocks d' x = dom_tree_succ_blocks d x)"
proof -
  obtain d2 where d2: "run_function g d = obind (create_dominance_frontier g d2) (\<lambda>d3. Some (Inr (create_dom_tree_succ g d3)))"
    "idom_done g r d2" "dom_frontier d2 = dom_frontier d" "dom_tree_succ_blocks d2 = dom_tree_succ_blocks d"
    "doms d2 = doms d" "\<forall>x. x \<notin> Some ` set (basic_blocks g) \<longrightarrow> idom d2 x = idom d x"
    using run_function_steps [OF wf root(1) null] by blast
  obtain F where F: "create_dominance_frontier g d2 = Some (Inr (d2\<lparr>dom_frontier := (\<lambda>x. dom_frontier d2 x \<union> F x)\<rparr>))"
    "\<forall>x. x \<notin> Some ` set (basic_blocks g) \<longrightarrow> F x = {}"
    "\<forall>x. (edge g)\<^sup>*\<^sup>* r x \<longrightarrow> F (Some x) = frontier (edge g) r x \<inter> set (basic_blocks g)"
    "\<forall>x. \<forall>c \<in> F (Some x). c \<in> set (basic_blocks g) \<and> ((edge g)\<^sup>*\<^sup>* r c \<longrightarrow> (edge g)\<^sup>*\<^sup>* r x)"
    unfolding create_dominance_frontier_def using df_blocks_spec [OF d2(2) subset_refl root(2) safe] by blast
  define d' where "d' = create_dom_tree_succ g (d2\<lparr>dom_frontier := (\<lambda>x. dom_frontier d2 x \<union> F x)\<rparr>)"
  have run: "run_function g d = Some (Inr d')" using d2(1) F(1) by (simp add: d'_def)
  have idom': "get_idom d' = get_idom d2" "idom d' = idom d2" "doms d' = doms d"
    and df': "dom_frontier d' = (\<lambda>x. dom_frontier d x \<union> F x)"
    and succ': "dom_tree_succ_blocks d' = (\<lambda>x. dom_tree_succ_blocks d x \<union>
       {b \<in> set (basic_blocks g). get_idom d2 (Some b) = x \<and> x \<noteq> Some b})"
    using d2(3-5) by (simp_all add: d'_def create_dom_tree_succ_eq get_idom_def fun_eq_iff)
  have "dominators_of g r d'"
    unfolding dominators_of_def idom'
  proof (intro conjI allI impI)
    show "\<forall>b \<in> set (basic_blocks g). \<forall>c \<in> get_dominance_frontier d' (Some b).
        c \<in> set (basic_blocks g) \<and> ((edge g)\<^sup>*\<^sup>* r c \<longrightarrow> (edge g)\<^sup>*\<^sup>* r b)"
      using fresh F(4) by (auto simp: get_dominance_frontier_def df')
    show "get_idom d2 (Some r) = Some r" by (rule idom_doneD(1) [OF d2(2)])
    fix b
    assume b: "(edge g)\<^sup>*\<^sup>* r b"
    have bS: "b \<in> set (basic_blocks g)" by (rule reachable_listed [OF wf root(1) b])
    show "\<exists>i. get_idom d2 (Some b) = Some i \<and> is_idom (edge g) r i b" if "b \<noteq> r"
      using idom_doneD(2) [OF d2(2) b that] by blast
    show "get_dominance_frontier d' (Some b) = frontier (edge g) r b"
      using fresh [OF bS] F(3) b frontier_listed [OF wf root(1), of b]
      by (auto simp: get_dominance_frontier_def df')
    show "get_dom_tree_succ_blocks d' (Some b) = {c. (edge g)\<^sup>*\<^sup>* r c \<and> is_idom (edge g) r b c}"
      unfolding get_dom_tree_succ_blocks_def succ' tree_children [OF d2(2) b]
      using fresh [OF bS] by simp
  qed
  moreover have "get_idom d2 (Some b) \<in> insert None (Some ` set (basic_blocks g))" if "b \<in> set (basic_blocks g)" for b
  proof (cases "(edge g)\<^sup>*\<^sup>* r b")
    case True
    then show ?thesis using idom_doneD(1,2) [OF d2(2)] reachable_listed [OF wf root(1)]
      by (cases "b = r") fastforce+
  next
    case False
    then show ?thesis using idom_doneD(3) [OF d2(2) that] by simp
  qed
  then have "dom_tree_succ_blocks d' x = dom_tree_succ_blocks d x"
    if "x \<notin> Some ` set (basic_blocks g)" "x \<noteq> None" for x
    unfolding succ' using that by fastforce
  ultimately show ?thesis using run idom' df' d2(6) F(2) by auto
qed

text \<open>The pass does not return when a frontier is not safe.\<close>

lemma df_runners_stuck:
  assumes d: "idom_done g r d" and b: "(edge g)\<^sup>*\<^sup>* r b" and p: "p \<in> set ps" "p \<in> set (basic_blocks g)" "\<not> (edge g)\<^sup>*\<^sup>* r p"
  shows "ofold (\<lambda>p. df_runner (Some p) b) ps d = None"
  using d p(1)
proof (induction ps arbitrary: d)
  case (Cons q ps)
  show ?case
  proof (cases "q = p")
    case True
    obtain i where "get_idom d (Some b) = Some i" "(edge g)\<^sup>*\<^sup>* r i"
      using idom_doneD(1,2) [OF Cons.prems(1)] b by (cases "b = r") auto
    then have "df_runner (Some p) b d = None"
      using df_runner_detached [OF idom_doneD(4) [OF Cons.prems(1)]] idom_doneD(3) [OF Cons.prems(1) p(2,3)] p(3)
      by metis
    then show ?thesis using True by simp
  next
    case False
    show ?thesis
    proof (cases "df_runner (Some q) b d")
      case (Some y)
      then obtain K where "y = Inr (add_df K b d)" using df_runner_frame by blast
      then show ?thesis using Some Cons.IH [of "add_df K b d"] Cons.prems False by simp
    qed simp
  qed
qed simp

lemma df_block_frame:
  assumes "df_block g b d = Some y"
  shows "\<exists>K. y = Inr (add_df K b d)"
proof -
  have "ofold (\<lambda>p. df_runner (Some p) b) ps d = Some y \<Longrightarrow> \<exists>K. y = Inr (add_df K b d)" for ps d y
  proof (induction ps arbitrary: d)
    case Nil
    then show ?case by (intro exI [of _ "{}"]) simp
  next
    case (Cons q ps)
    then obtain z where z: "df_runner (Some q) b d = Some z" by (cases "df_runner (Some q) b d") auto
    then obtain K where "z = Inr (add_df K b d)" using df_runner_frame by blast
    then obtain L where "y = Inr (add_df L b (add_df K b d))"
      using Cons.IH [of "add_df K b d"] Cons.prems z by auto
    then show ?case by auto
  qed
  moreover have "\<exists>K. Inr d = Inr (add_df K b d)" by (intro exI [of _ "{}"]) simp
  ultimately show ?thesis using assms by (auto simp: df_block_def split: if_splits)
qed

lemma run_function_stuck:
  assumes wf: "cfg_wf g" and root: "get_entry_block g = Inr r" and null: "idom d None = None"
    and unsafe: "\<not> frontier_safe g r"
  shows "run_function g d = None"
proof -
  obtain b p where b: "(edge g)\<^sup>*\<^sup>* r b" "2 \<le> length (pre_bbs g b)"
    and p: "p \<in> set (pre_bbs g b)" "\<not> (edge g)\<^sup>*\<^sup>* r p"
    using unsafe by (auto simp: frontier_safe_def)
  have bS: "b \<in> set (basic_blocks g)" by (rule reachable_listed [OF wf root b(1)])
  then have pS: "p \<in> set (basic_blocks g)" using cfg_wf_closed(1) [OF wf bS] p(1) by auto
  have stuck: "ofold (df_block g) bs d = None" if "idom_done g r d" "b \<in> set bs" for bs d
    using that
  proof (induction bs arbitrary: d)
    case (Cons c bs)
    show ?case
    proof (cases "df_block g c d")
      case (Some y)
      then obtain K where y: "y = Inr (add_df K c d)" using df_block_frame by blast
      have "c \<noteq> b" using df_runners_stuck [OF Cons.prems(1) b(1) p(1) pS p(2)] b(2) Some
        by (auto simp: df_block_def)
      then show ?thesis using Cons.IH [of "add_df K c d"] Cons.prems Some y by simp
    qed simp
  qed simp
  obtain d2 where d2: "run_function g d = obind (create_dominance_frontier g d2) (\<lambda>d3. Some (Inr (create_dom_tree_succ g d3)))"
    "idom_done g r d2"
    using run_function_steps [OF wf root null] by blast
  show ?thesis using d2 stuck [OF d2(2) bS] by (simp add: create_dominance_frontier_def)
qed

end
