(* ===== verification/Dom_Properties.thy ===== *)
theory Dom_Properties
  imports Dom_Run
begin

text \<open>
  The pass over all functions of a module, and the properties of the control-flow graph and
  of the dominator pass.
\<close>

section \<open>Several functions\<close>

lemma dominators_of_frame:
  assumes "dominators_of g r d" "cfg_wf g" "get_entry_block g = Inr r"
    and "\<And>b. b \<in> set (basic_blocks g) \<Longrightarrow> idom d' (Some b) = idom d (Some b) \<and>
      dom_frontier d' (Some b) = dom_frontier d (Some b) \<and>
      dom_tree_succ_blocks d' (Some b) = dom_tree_succ_blocks d (Some b)"
  shows "dominators_of g r d'"
proof -
  have same: "get_idom d' (Some b) = get_idom d (Some b)" "get_dominance_frontier d' (Some b) = get_dominance_frontier d (Some b)"
    "get_dom_tree_succ_blocks d' (Some b) = get_dom_tree_succ_blocks d (Some b)" if "b \<in> set (basic_blocks g)" for b
    using assms(4) [OF that] by (simp_all add: get_idom_def get_dominance_frontier_def get_dom_tree_succ_blocks_def)
  have root: "r \<in> set (basic_blocks g)" using reachable_listed [OF assms(2,3)] by blast
  note d = assms(1) [unfolded dominators_of_def]
  show ?thesis
    unfolding dominators_of_def
  proof (intro conjI allI impI)
    show "get_idom d' (Some r) = Some r" using d same(1) [OF root] by simp
    show "\<forall>b \<in> set (basic_blocks g). \<forall>c \<in> get_dominance_frontier d' (Some b).
        c \<in> set (basic_blocks g) \<and> ((edge g)\<^sup>*\<^sup>* r c \<longrightarrow> (edge g)\<^sup>*\<^sup>* r b)"
    proof (rule ballI)
      fix b assume b: "b \<in> set (basic_blocks g)"
      show "\<forall>c \<in> get_dominance_frontier d' (Some b). c \<in> set (basic_blocks g) \<and> ((edge g)\<^sup>*\<^sup>* r c \<longrightarrow> (edge g)\<^sup>*\<^sup>* r b)"
        unfolding same(2) [OF b] using d b by blast
    qed
    fix b
    assume r: "(edge g)\<^sup>*\<^sup>* r b"
    have b: "b \<in> set (basic_blocks g)" by (rule reachable_listed [OF assms(2,3) r])
    show "\<exists>i. get_idom d' (Some b) = Some i \<and> is_idom (edge g) r i b" if "b \<noteq> r"
      unfolding same [OF b] using d r that by blast
    show "get_dominance_frontier d' (Some b) = frontier (edge g) r b"
      "get_dom_tree_succ_blocks d' (Some b) = {c. (edge g)\<^sup>*\<^sup>* r c \<and> is_idom (edge g) r b c}"
      unfolding same [OF b] using d r by blast+
  qed
qed

text \<open>A function the pass can process: well formed, no branch to the entry, safe frontiers.\<close>

definition pass_ready :: "cfg \<Rightarrow> bool" where
  "pass_ready g \<longleftrightarrow> cfg_wf g \<and> (\<exists>r. get_entry_block g = Inr r \<and> pre_bbs g r = [] \<and> frontier_safe g r)"

definition keeps_outside :: "bb set \<Rightarrow> dominators \<Rightarrow> dominators \<Rightarrow> bool" where
  "keeps_outside B d d' \<longleftrightarrow> idom d' None = idom d None \<and> (\<forall>b. b \<notin> B \<longrightarrow> idom d' (Some b) = idom d (Some b) \<and>
     dom_frontier d' (Some b) = dom_frontier d (Some b) \<and>
     dom_tree_succ_blocks d' (Some b) = dom_tree_succ_blocks d (Some b))"

lemma keeps_outside_trans:
  "keeps_outside B a b \<Longrightarrow> keeps_outside C b c \<Longrightarrow> keeps_outside (B \<union> C) a c"
  by (simp add: keeps_outside_def)

lemma run_function_ready:
  assumes "basic_blocks g = [] \<or> pass_ready g" and "idom d None = None"
    and "\<And>b. b \<in> set (basic_blocks g) \<Longrightarrow> dom_frontier d (Some b) = {} \<and> dom_tree_succ_blocks d (Some b) = {}"
  shows "\<exists>d'. run_function g d = Some (Inr d') \<and> keeps_outside (set (basic_blocks g)) d d' \<and>
    (\<forall>r. get_entry_block g = Inr r \<longrightarrow> dominators_of g r d')"
proof (cases "basic_blocks g = []")
  case True
  then show ?thesis by (intro exI [of _ d]) (simp add: run_function_def keeps_outside_def get_entry_block_def)
next
  case False
  then obtain r where r: "cfg_wf g" "get_entry_block g = Inr r" "pre_bbs g r = []" "frontier_safe g r"
    using assms(1) by (auto simp: pass_ready_def)
  obtain d' where d': "run_function g d = Some (Inr d')" "dominators_of g r d'"
    "\<forall>x. x \<notin> Some ` set (basic_blocks g) \<longrightarrow> idom d' x = idom d x \<and> dom_frontier d' x = dom_frontier d x"
    "\<forall>x. x \<notin> Some ` set (basic_blocks g) \<longrightarrow> x \<noteq> None \<longrightarrow> dom_tree_succ_blocks d' x = dom_tree_succ_blocks d x"
    using run_function_spec [OF r assms(2,3)] by blast
  have "keeps_outside (set (basic_blocks g)) d d'"
    using d'(3) d'(4) by (auto simp: keeps_outside_def)
  then show ?thesis using d'(1,2) r(2) by auto
qed

lemma run_functions_spec:
  assumes "\<And>g. g \<in> set fs \<Longrightarrow> basic_blocks g = [] \<or> pass_ready g"
    and "sorted_wrt (\<lambda>g h. set (basic_blocks g) \<inter> set (basic_blocks h) = {}) fs"
    and "idom d None = None"
    and "\<And>g b. g \<in> set fs \<Longrightarrow> b \<in> set (basic_blocks g) \<Longrightarrow>
      dom_frontier d (Some b) = {} \<and> dom_tree_succ_blocks d (Some b) = {}"
  shows "\<exists>d'. ofold run_function fs d = Some (Inr d') \<and>
    keeps_outside (\<Union>g \<in> set fs. set (basic_blocks g)) d d' \<and>
    (\<forall>g \<in> set fs. \<forall>r. get_entry_block g = Inr r \<longrightarrow> dominators_of g r d')"
  using assms
proof (induction fs arbitrary: d)
  case (Cons g fs)
  obtain d1 where d1: "run_function g d = Some (Inr d1)" "keeps_outside (set (basic_blocks g)) d d1"
    "\<forall>r. get_entry_block g = Inr r \<longrightarrow> dominators_of g r d1"
    using run_function_ready [OF Cons.prems(1) Cons.prems(3) Cons.prems(4)] by (meson list.set_intros(1))
  have apart: "b \<notin> set (basic_blocks g)" if "h \<in> set fs" "b \<in> set (basic_blocks h)" for h b
    using Cons.prems(2) that by auto
  have "\<exists>d'. ofold run_function fs d1 = Some (Inr d') \<and>
    keeps_outside (\<Union>g \<in> set fs. set (basic_blocks g)) d1 d' \<and>
    (\<forall>g \<in> set fs. \<forall>r. get_entry_block g = Inr r \<longrightarrow> dominators_of g r d')"
  proof (rule Cons.IH)
    show "idom d1 None = None" using d1(2) Cons.prems(3) by (simp add: keeps_outside_def)
    show "dom_frontier d1 (Some b) = {} \<and> dom_tree_succ_blocks d1 (Some b) = {}"
      if "h \<in> set fs" "b \<in> set (basic_blocks h)" for h b
      using d1(2) apart [OF that] Cons.prems(4) [of h b] that by (simp add: keeps_outside_def)
  qed (use Cons.prems in auto)
  then obtain d' where d': "ofold run_function fs d1 = Some (Inr d')"
    "keeps_outside (\<Union>g \<in> set fs. set (basic_blocks g)) d1 d'"
    "\<forall>g \<in> set fs. \<forall>r. get_entry_block g = Inr r \<longrightarrow> dominators_of g r d'" by blast
  have "dominators_of g r d'" if r: "get_entry_block g = Inr r" for r
  proof (rule dominators_of_frame [OF d1(3) [rule_format, OF r] _ r])
    have "basic_blocks g \<noteq> []" using r by (auto simp: get_entry_block_def)
    then show "cfg_wf g" using Cons.prems(1) [of g] by (auto simp: pass_ready_def)
    show "idom d' (Some b) = idom d1 (Some b) \<and> dom_frontier d' (Some b) = dom_frontier d1 (Some b) \<and>
      dom_tree_succ_blocks d' (Some b) = dom_tree_succ_blocks d1 (Some b)"
      if "b \<in> set (basic_blocks g)" for b
      using d'(2) apart [of _ b] that by (auto simp: keeps_outside_def)
  qed
  then show ?case using d1(1) d' keeps_outside_trans [OF d1(2) d'(2)] by auto
qed (simp add: keeps_outside_def)

section \<open>Example graphs\<close>

text \<open>A loop around a diamond.\<close>

definition loop_cfg :: cfg where
  "loop_cfg = br_edges 1 5 (br_edges 5 4 (br_edges 5 3 (cond_br_edges 3 4 2 (cond_br_edges 2 6 1 (br_edges 1 0
     (fold add_basic_block [0, 1, 2, 3, 4, 5, 6] \<lparr>basic_blocks = [], pre_bbs = (\<lambda>_. []), succ_bbs = (\<lambda>_. [])\<rparr>))))))"

text \<open>
  What \<^verbatim>\<open>CminusfBuilder\<close> makes of \<^verbatim>\<open>while (c) { if (a) return 1; else return 2; }\<close>: block 6 is the
  continuation of the \<^verbatim>\<open>if\<close>, which nothing branches to and which branches back to the
  condition, block 1.
\<close>

definition hanging_cfg :: cfg where
  "hanging_cfg = br_edges 1 6 (cond_br_edges 4 5 2 (cond_br_edges 2 3 1 (br_edges 1 0
     (fold add_basic_block [0, 1, 2, 3, 4, 5, 6] \<lparr>basic_blocks = [], pre_bbs = (\<lambda>_. []), succ_bbs = (\<lambda>_. [])\<rparr>))))"

lemma empty_cfg_wf: "cfg_wf \<lparr>basic_blocks = [], pre_bbs = (\<lambda>_. []), succ_bbs = (\<lambda>_. [])\<rparr>"
  by (simp add: cfg_wf_def)

lemmas cfg_eval = br_edges_def cond_br_edges_def add_basic_block_def add_pre_basic_block_def
  add_succ_basic_block_def

lemma loop_cfg_fields:
  "basic_blocks loop_cfg = [0, 1, 2, 3, 4, 5, 6]"
  "pre_bbs loop_cfg = (\<lambda>_. [])(1 := [0, 5], 2 := [1], 6 := [1], 3 := [2], 4 := [2], 5 := [3, 4])"
  "succ_bbs loop_cfg = (\<lambda>_. [])(0 := [1], 1 := [6, 2], 2 := [4, 3], 3 := [5], 4 := [5], 5 := [1])"
  by (auto simp: loop_cfg_def cfg_eval fun_eq_iff)

lemma hanging_cfg_fields:
  "basic_blocks hanging_cfg = [0, 1, 2, 3, 4, 5, 6]"
  "pre_bbs hanging_cfg = (\<lambda>_. [])(1 := [0, 6], 2 := [1], 3 := [1], 4 := [2], 5 := [2])"
  "succ_bbs hanging_cfg = (\<lambda>_. [])(0 := [1], 1 := [3, 2], 2 := [5, 4], 6 := [1])"
  by (auto simp: hanging_cfg_def cfg_eval fun_eq_iff)

lemma loop_cfg_wf: "cfg_wf loop_cfg"
  unfolding cfg_wf_def by (simp add: loop_cfg_fields)

lemma hanging_cfg_wf: "cfg_wf hanging_cfg"
  unfolding cfg_wf_def by (simp add: hanging_cfg_fields)

lemma loop_cfg_edge: "edge loop_cfg = (\<lambda>a b. (a, b) \<in> {(0, 1), (1, 6), (1, 2), (2, 4), (2, 3), (3, 5), (4, 5), (5, 1)})"
  by (auto simp: edge_def loop_cfg_fields fun_eq_iff)

lemma loop_cfg_reach: "b \<in> {0, 1, 2, 3, 4, 5, 6} \<Longrightarrow> (edge loop_cfg)\<^sup>*\<^sup>* 0 b"
proof -
  let ?E = "edge loop_cfg"
  have e: "?E 0 1" "?E 1 6" "?E 1 2" "?E 2 4" "?E 2 3" "?E 3 5" by (simp_all add: loop_cfg_edge)
  have r1: "?E\<^sup>*\<^sup>* 0 1" using e(1) by (rule r_into_rtranclp)
  have r2: "?E\<^sup>*\<^sup>* 0 2" by (rule rtranclp.rtrancl_into_rtrancl [OF r1 e(3)])
  have r3: "?E\<^sup>*\<^sup>* 0 3" by (rule rtranclp.rtrancl_into_rtrancl [OF r2 e(5)])
  have "?E\<^sup>*\<^sup>* 0 6" "?E\<^sup>*\<^sup>* 0 4" "?E\<^sup>*\<^sup>* 0 5"
    by (rule rtranclp.rtrancl_into_rtrancl, fact, fact)+
  then show "b \<in> {0, 1, 2, 3, 4, 5, 6} \<Longrightarrow> ?E\<^sup>*\<^sup>* 0 b" using r1 r2 r3 by auto
qed

lemma loop_cfg_safe: "frontier_safe loop_cfg 0"
  unfolding frontier_safe_def using loop_cfg_reach by (auto simp: loop_cfg_fields split: if_splits)

lemma hanging_cfg_unsafe: "\<not> frontier_safe hanging_cfg 0"
proof
  assume safe: "frontier_safe hanging_cfg 0"
  have "edge hanging_cfg 0 1" by (simp add: edge_def hanging_cfg_fields)
  then have "(edge hanging_cfg)\<^sup>*\<^sup>* 0 1" by (rule r_into_rtranclp)
  then have six: "(edge hanging_cfg)\<^sup>*\<^sup>* 0 6" using safe by (simp add: frontier_safe_def hanging_cfg_fields)
  have "y \<in> {0, 1, 2, 3, 4, 5}" if "x \<in> {0, 1, 2, 3, 4, 5}" "edge hanging_cfg x y" for x y
    using that by (auto simp: edge_def hanging_cfg_fields split: if_splits)
  from rtranclp_closed_set [OF this six] show False by simp
qed

lemma example_entries: "get_entry_block loop_cfg = Inr 0" "get_entry_block hanging_cfg = Inr 0"
  by (simp_all add: get_entry_block_def loop_cfg_fields hanging_cfg_fields)

lemma dominators_init_fields:
  "idom dominators_init x = None" "dom_frontier dominators_init x = {}"
  "dom_tree_succ_blocks dominators_init x = {}"
  by (simp_all add: dominators_init_def)

section \<open>Properties\<close>

text \<open>
  C6. On a module whose functions are well formed, have no branch to their entry block and have
  safe frontiers, and share no block, the pass returns; for every function the immediate
  dominator, the dominance frontier and the children in the dominator tree of every block
  that the entry reaches are those of the specification over all paths.
\<close>

theorem run_dominators_correct:
  assumes "\<And>g. g \<in> set fs \<Longrightarrow> basic_blocks g = [] \<or> pass_ready g"
    and "sorted_wrt (\<lambda>g h. set (basic_blocks g) \<inter> set (basic_blocks h) = {}) fs"
  shows "\<exists>d. run_dominators fs = Some (Inr d) \<and>
    (\<forall>g \<in> set fs. \<forall>r. get_entry_block g = Inr r \<longrightarrow> dominators_of g r d)"
  using run_functions_spec [OF assms, of dominators_init]
  by (auto simp: run_dominators_def dominators_init_fields)

lemma loop_cfg_ready: "pass_ready loop_cfg"
  using loop_cfg_wf loop_cfg_safe by (simp add: pass_ready_def example_entries loop_cfg_fields)

theorem run_dominators_correct_witness:
  "\<exists>d. run_dominators [loop_cfg] = Some (Inr d) \<and> dominators_of loop_cfg 0 d"
  using run_dominators_correct [of "[loop_cfg]"] loop_cfg_ready example_entries(1) by auto

lemma run_function_iff:
  assumes "cfg_wf g" "get_entry_block g = Inr r" "pre_bbs g r = []" "idom d None = None"
  shows "run_function g d \<noteq> None \<longleftrightarrow> frontier_safe g r"
proof
  show "frontier_safe g r" if "run_function g d \<noteq> None"
    using run_function_stuck [OF assms(1,2,4)] that by blast
  show "run_function g d \<noteq> None" if safe: "frontier_safe g r"
  proof -
    obtain d2 where d2: "run_function g d = obind (create_dominance_frontier g d2) (\<lambda>d3. Some (Inr (create_dom_tree_succ g d3)))"
      "idom_done g r d2"
      using run_function_steps [OF assms(1,2,4)] by blast
    moreover obtain d3 where "create_dominance_frontier g d2 = Some (Inr d3)"
      using df_blocks_spec [OF d2(2) subset_refl assms(3) safe] unfolding create_dominance_frontier_def by blast
    ultimately show ?thesis by simp
  qed
qed

text \<open>
  C16. The pass returns on a function exactly when every predecessor of a reachable block with
  two or more predecessors is reachable. Otherwise the runner of
  \<^verbatim>\<open>create_dominance_frontier\<close> leaves the dominator tree and never stops. The witness is a
  graph that the front end produces.
\<close>

theorem run_function_returns_iff:
  assumes "cfg_wf g" "get_entry_block g = Inr r" "pre_bbs g r = []" "idom d None = None"
  shows "run_function g d \<noteq> None \<longleftrightarrow> frontier_safe g r"
  by (rule run_function_iff [OF assms])

theorem run_function_returns_iff_witness: "run_function hanging_cfg dominators_init = None"
  using run_function_returns_iff [OF hanging_cfg_wf example_entries(2)] hanging_cfg_unsafe
  by (simp add: dominators_init_fields hanging_cfg_fields)

text \<open>
  C17. The iteration of \<^verbatim>\<open>create_idom\<close> terminates, its assertions hold, and it leaves the
  immediate dominator of every reachable block, the entry for itself and null for every
  block that is not reachable.
\<close>

theorem create_idom_correct:
  assumes "cfg_wf g" "get_entry_block g = Inr r"
    and "rpo_ok (edge g) r (reverse_post_order d) (po d)"
  shows "\<exists>d'. create_idom g d = Some (Inr d') \<and> get_idom d' (Some r) = Some r \<and>
    (\<forall>b \<in> set (basic_blocks g). b \<noteq> r \<longrightarrow>
       (if (edge g)\<^sup>*\<^sup>* r b then \<exists>i. get_idom d' (Some b) = Some i \<and> is_idom (edge g) r i b
        else get_idom d' (Some b) = None))"
proof -
  obtain d' where d': "create_idom g d = Some (Inr d')"
    "exact (edge g) r (reverse_post_order d) (links (basic_blocks g) d')"
    "tree_ok (set (reverse_post_order d)) (po d) r (links (basic_blocks g) d')"
    using create_idom_spec [OF assms] by blast
  note links = create_idom_links [OF assms d'(2,3)]
  show ?thesis using d'(1) links(1) links(2) links(3) by (intro exI [of _ d']) fastforce
qed

theorem create_idom_correct_witness:
  "\<exists>d0 d'. create_reverse_post_order loop_cfg dominators_init = Some (Inr d0) \<and>
     create_idom loop_cfg d0 = Some (Inr d') \<and> (\<exists>i. get_idom d' (Some 5) = Some i)"
proof -
  obtain d0 where d0: "create_reverse_post_order loop_cfg dominators_init = Some (Inr d0)"
    "rpo_ok (edge loop_cfg) 0 (reverse_post_order d0) (po d0)"
    using create_reverse_post_order_correct [OF loop_cfg_wf example_entries(1)] by blast
  have "(edge loop_cfg)\<^sup>*\<^sup>* 0 5" "5 \<in> set (basic_blocks loop_cfg)"
    using loop_cfg_reach [of 5] by (simp_all add: loop_cfg_fields)
  then show ?thesis
    using create_idom_correct [OF loop_cfg_wf example_entries(1) d0(2)] d0(1) by fastforce
qed

text \<open>
  C28. \<^verbatim>\<open>create_reverse_post_order\<close> terminates on every well-formed graph within as many nested
  calls as there are blocks: the list starts with the entry and holds exactly the blocks it
  reaches, numbered in falling order, every one but the entry after some predecessor.
\<close>

theorem reverse_post_order_correct:
  assumes "cfg_wf g" "get_entry_block g = Inr r"
  shows "\<exists>d'. create_reverse_post_order g d = Some (Inr d') \<and>
    hd (reverse_post_order d') = r \<and> set (reverse_post_order d') = {b. (edge g)\<^sup>*\<^sup>* r b} \<and>
    sorted_wrt (\<lambda>a b. po d' b < po d' a) (reverse_post_order d') \<and>
    (\<forall>b \<in> set (reverse_post_order d'). b \<noteq> r \<longrightarrow>
       (\<exists>p \<in> set (reverse_post_order d'). edge g p b \<and> po d' b < po d' p))"
  using create_reverse_post_order_correct [OF assms, of d] unfolding rpo_ok_def by blast

theorem reverse_post_order_correct_witness:
  "\<exists>d'. create_reverse_post_order hanging_cfg dominators_init = Some (Inr d') \<and>
     hd (reverse_post_order d') = 0"
  using reverse_post_order_correct [OF hanging_cfg_wf example_entries(2)] by blast

text \<open>
  C22. Every operation on the graph keeps it well formed: the lists of predecessors and
  successors mirror each other and stay inside the function.
\<close>

theorem cfg_operations_wf:
  assumes "cfg_wf g"
  shows "(b \<notin> set (basic_blocks g) \<longrightarrow> cfg_wf (add_basic_block b g)) \<and>
    ({t, this} \<subseteq> set (basic_blocks g) \<longrightarrow> cfg_wf (br_edges t this g)) \<and>
    ({t, f, this} \<subseteq> set (basic_blocks g) \<longrightarrow> cfg_wf (cond_br_edges t f this g)) \<and>
    (this \<in> set (basic_blocks g) \<longrightarrow> cfg_wf (remove_block this g))"
  using assms by (auto intro: invariant_intros)

theorem cfg_operations_wf_witness:
  "cfg_wf (remove_block 5 loop_cfg) \<and> cfg_wf (br_edges 3 6 loop_cfg)"
  using cfg_operations_wf [OF loop_cfg_wf, of _ 3 6] cfg_operations_wf [OF loop_cfg_wf, of _ _ 5]
  by (simp add: loop_cfg_fields)

text \<open>
  \<^verbatim>\<open>create_doms\<close> dereferences the first predecessor of every block, and an entry block has
  none: on such a function it has undefined behaviour.
\<close>

theorem create_doms_undefined:
  assumes "get_entry_block g = Inr r" "pre_bbs g r = []"
  shows "create_doms g d = Some (Inl UndefinedBehaviour)"
  using assms unfolding create_doms_def get_entry_block_def
  by (subst doms_loop.simps) (auto simp: doms_visit_def split: list.splits)

theorem create_doms_undefined_witness:
  "create_doms loop_cfg dominators_init = Some (Inl UndefinedBehaviour)"
  by (rule create_doms_undefined [OF example_entries(1)]) (simp add: loop_cfg_fields)

end
