(* ===== verification/Syntax_Tree.thy ===== *)
theory Syntax_Tree
  imports Prelude
begin

text \<open>
  The concrete syntax tree of \<^verbatim>\<open>syntax_tree.c\<close> and the helper \<^verbatim>\<open>node\<close> of \<^verbatim>\<open>syntax_analyzer.y\<close>
  that the grammar actions build it with.
\<close>

section \<open>Nodes\<close>

text \<open>
  A node holds a buffer of 30 characters and an array of 10 children. The buffer is the
  list of its characters up to the first NUL: \<^verbatim>\<open>strncpy\<close> copies at most 30 of them and
  writes no NUL after 30. The text of a node is the argument of \<^verbatim>\<open>strcmp\<close> and
  \<^verbatim>\<open>std::string\<close>, which read past a buffer that is not terminated.
\<close>

datatype syntax_tree_node = Node (buffer: string) (children: "syntax_tree_node list")

definition SYNTAX_TREE_NODE_NAME_MAX :: nat where
  "SYNTAX_TREE_NODE_NAME_MAX = 30"

definition max_children :: nat where
  "max_children = 10"

definition new_syntax_tree_node :: "string option \<Rightarrow> syntax_tree_node" where
  "new_syntax_tree_node s =
     (case s of Some name \<Rightarrow> Node (take SYNTAX_TREE_NODE_NAME_MAX name) [] | None \<Rightarrow> Node [] [])"

definition name_of :: "syntax_tree_node \<Rightarrow> string result" where
  "name_of t = (if length (buffer t) < SYNTAX_TREE_NODE_NAME_MAX then Inr (buffer t)
     else Inl UndefinedBehaviour)"

definition child :: "nat \<Rightarrow> syntax_tree_node \<Rightarrow> syntax_tree_node result" where
  "child i t = (if i < length (children t) then Inr (children t ! i) else Inl UndefinedBehaviour)"

definition children_num :: "syntax_tree_node \<Rightarrow> nat" where
  "children_num t = length (children t)"

text \<open>The number it returns, or \<open>-1\<close> on a null pointer, and the parent afterwards.\<close>

definition syntax_tree_add_child ::
  "syntax_tree_node option \<Rightarrow> syntax_tree_node option \<Rightarrow> (int \<times> syntax_tree_node option) result"
where
  "syntax_tree_add_child parent c =
     (case (parent, c) of
        (Some p, Some c) \<Rightarrow>
          if length (children p) < max_children
          then Inr (int (length (children p)) + 1, Some (Node (buffer p) (children p @ [c])))
          else Inl UndefinedBehaviour
      | _ \<Rightarrow> Inr (- 1, parent))"

definition epsilon :: syntax_tree_node where
  "epsilon = new_syntax_tree_node (Some ''epsilon'')"

definition node :: "string \<Rightarrow> syntax_tree_node list \<Rightarrow> syntax_tree_node result" where
  "node name cs =
     rbind (rfold (\<lambda>c p. rbind (syntax_tree_add_child p (Some c)) (\<lambda>r. Inr (snd r)))
              (if cs = [] then [epsilon] else cs) (Some (new_syntax_tree_node (Some name))))
       (\<lambda>p. case p of Some t \<Rightarrow> Inr t | None \<Rightarrow> Inl NullDeref)"

text \<open>The tree \<^verbatim>\<open>node\<close> returns for a short name and few children.\<close>

definition tree :: "string \<Rightarrow> syntax_tree_node list \<Rightarrow> syntax_tree_node" where
  "tree name cs = Node name (if cs = [] then [epsilon] else cs)"

definition leaf :: "string \<Rightarrow> syntax_tree_node" where
  "leaf name = Node name []"

lemma add_children:
  "length ds + length cs \<le> max_children \<Longrightarrow>
     rfold (\<lambda>c p. rbind (syntax_tree_add_child p (Some c)) (\<lambda>r. Inr (snd r))) cs (Some (Node b ds)) =
       Inr (Some (Node b (ds @ cs)))"
  by (induction cs arbitrary: ds) (auto simp: syntax_tree_add_child_def)

lemma node_tree:
  assumes "length cs \<le> max_children"
  shows "node name cs = Inr (tree (take SYNTAX_TREE_NODE_NAME_MAX name) cs)"
  using assms add_children [of "[]" "if cs = [] then [epsilon] else cs"]
  by (simp add: node_def tree_def new_syntax_tree_node_def max_children_def)

section \<open>Printing\<close>

fun print_syntax_tree_node :: "nat \<Rightarrow> syntax_tree_node \<Rightarrow> string result" where
  "print_syntax_tree_node level (Node b cs) =
     rbind (name_of (Node b cs)) (\<lambda>name.
     rbind (rmap (print_syntax_tree_node (Suc level)) cs) (\<lambda>ls.
       Inr (concat (replicate level ''|  '') @ ''>--'' @ (if cs = [] then ''*'' else ''+'') @ '' '' @ name @
            [CHR 0x0A] @ concat ls)))"

definition print_syntax_tree :: "syntax_tree_node option \<Rightarrow> string result" where
  "print_syntax_tree root = (case root of None \<Rightarrow> Inr [] | Some t \<Rightarrow> print_syntax_tree_node 0 t)"

section \<open>Left-recursive lists\<close>

text \<open>
  The grammar's lists lean to the left. \<^verbatim>\<open>transform_node_iter\<close> walks down the first children
  while a node has two (three) of them and pushes the last one: \<open>spine2\<close> (\<open>spine3\<close>) is what
  comes off the stack, and the node at which the walk ends.
\<close>

fun spine2 :: "syntax_tree_node \<Rightarrow> syntax_tree_node list \<times> syntax_tree_node" where
  "spine2 (Node b [l, x]) = (fst (spine2 l) @ [x], snd (spine2 l))"
| "spine2 t = ([], t)"

fun spine3 :: "syntax_tree_node \<Rightarrow> syntax_tree_node list \<times> syntax_tree_node" where
  "spine3 (Node b [l, c, x]) = (fst (spine3 l) @ [x], snd (spine3 l))"
| "spine3 t = ([], t)"

lemma child_smaller [smaller_trees, termination_simp]:
  assumes "child i t = Inr c"
  shows "size c < size t"
proof -
  have "c \<in> set (children t)" using assms by (auto simp: child_def split: if_splits)
  then show ?thesis by (cases t) (auto simp: less_Suc_eq_le intro: size_list_estimation')
qed

lemma spine2_smaller [smaller_trees]:
  "x \<in> set (fst (spine2 t)) \<Longrightarrow> size x < size t"
  by (induction t rule: spine2.induct) auto

lemma spine2_base: "size (snd (spine2 t)) \<le> size t"
  by (induction t rule: spine2.induct) auto

lemma spine3_smaller [smaller_trees]:
  "x \<in> set (fst (spine3 t)) \<Longrightarrow> size x < size t"
  by (induction t rule: spine3.induct) auto

lemma spine3_base: "size (snd (spine3 t)) \<le> size t"
  by (induction t rule: spine3.induct) auto

end
