(* ===== verification/Ast.thy ===== *)
theory Ast
  imports Syntax_Tree
begin

text \<open>
  The abstract syntax of \<^verbatim>\<open>ast.hpp\<close> and the transformation of the concrete tree into it,
  \<^verbatim>\<open>AST::transform_node_iter\<close> of \<^verbatim>\<open>ast.cpp\<close>. The type \<open>'f\<close> stands for \<^verbatim>\<open>float\<close> and \<open>stof\<close> for
  \<^verbatim>\<open>std::stof\<close>.
\<close>

section \<open>Abstract syntax\<close>

datatype CminusType = TYPE_INT | TYPE_FLOAT | TYPE_VOID

datatype RelOp = OP_LE | OP_LT | OP_GT | OP_GE | OP_EQ | OP_NEQ

datatype AddOp = OP_PLUS | OP_MINUS

datatype MulOp = OP_MUL | OP_DIV

text \<open>The union of \<^verbatim>\<open>ASTNum\<close> with its tag.\<close>

datatype 'f ASTNum = ASTNumInt i32 | ASTNumFloat 'f

text \<open>
  A pointer that may be null is an option. \<^verbatim>\<open>op\<close> is only read when its operand is there, so it
  lives in the same option. \<^verbatim>\<open>ASTFactor\<close> is the base class of expressions, variables, calls
  and numbers.
\<close>

datatype 'f ASTExpression =
    ASTAssignExpression "'f ASTVar" "'f ASTExpression"
  | ASTSimpleExpression "'f ASTAdditiveExpression" "(RelOp \<times> 'f ASTAdditiveExpression) option"
and 'f ASTVar = ASTVar string "'f ASTExpression option"
and 'f ASTAdditiveExpression =
    ASTAdditiveExpression "('f ASTAdditiveExpression \<times> AddOp) option" "'f ASTTerm"
and 'f ASTTerm = ASTTerm "('f ASTTerm \<times> MulOp) option" "'f ASTFactor"
and 'f ASTFactor =
    FactorExpression "'f ASTExpression"
  | FactorVar "'f ASTVar"
  | FactorCall string "'f ASTExpression list"
  | FactorNum "'f ASTNum"

datatype 'f ASTVarDeclaration = ASTVarDeclaration (var_type: CminusType) (var_id: string) (num: "'f ASTNum option")

datatype 'f ASTStatement =
    ASTCompoundStmt "'f ASTVarDeclaration list" "'f ASTStatement list"
  | ASTExpressionStmt "'f ASTExpression option"
  | ASTSelectionStmt "'f ASTExpression" "'f ASTStatement" "'f ASTStatement option"
  | ASTIterationStmt "'f ASTExpression" "'f ASTStatement"
  | ASTReturnStmt "'f ASTExpression option"

datatype ASTParam = ASTParam (param_type: CminusType) (param_id: string) (isarray: bool)

datatype 'f ASTDeclaration =
    VarDeclaration "'f ASTVarDeclaration"
  | ASTFunDeclaration CminusType string "ASTParam list" "'f ASTStatement"

datatype 'f ASTProgram = ASTProgram (declarations: "'f ASTDeclaration list")

text \<open>
  What \<^verbatim>\<open>transform_node_iter\<close> returns, by dynamic type. A \<^verbatim>\<open>static_cast\<close> to a class the object
  is not of is undefined behaviour once the result is used.
\<close>

datatype 'f ASTNode =
    NodeProgram "'f ASTProgram"
  | NodeDeclaration "'f ASTDeclaration"
  | NodeParam ASTParam
  | NodeStatement "'f ASTStatement"
  | NodeFactor "'f ASTFactor"
  | NodeAdditive "'f ASTAdditiveExpression"
  | NodeTerm "'f ASTTerm"

definition as_program :: "'f ASTNode \<Rightarrow> 'f ASTProgram result" where
  "as_program n = (case n of NodeProgram p \<Rightarrow> Inr p | _ \<Rightarrow> Inl UndefinedBehaviour)"

definition as_declaration :: "'f ASTNode \<Rightarrow> 'f ASTDeclaration result" where
  "as_declaration n = (case n of NodeDeclaration d \<Rightarrow> Inr d | _ \<Rightarrow> Inl UndefinedBehaviour)"

definition as_var_declaration :: "'f ASTNode \<Rightarrow> 'f ASTVarDeclaration result" where
  "as_var_declaration n = (case n of NodeDeclaration (VarDeclaration d) \<Rightarrow> Inr d | _ \<Rightarrow> Inl UndefinedBehaviour)"

definition as_param :: "'f ASTNode \<Rightarrow> ASTParam result" where
  "as_param n = (case n of NodeParam p \<Rightarrow> Inr p | _ \<Rightarrow> Inl UndefinedBehaviour)"

definition as_statement :: "'f ASTNode \<Rightarrow> 'f ASTStatement result" where
  "as_statement n = (case n of NodeStatement s \<Rightarrow> Inr s | _ \<Rightarrow> Inl UndefinedBehaviour)"

definition as_compound_stmt :: "'f ASTNode \<Rightarrow> 'f ASTStatement result" where
  "as_compound_stmt n =
     (case n of NodeStatement (ASTCompoundStmt ds ss) \<Rightarrow> Inr (ASTCompoundStmt ds ss)
      | _ \<Rightarrow> Inl UndefinedBehaviour)"

definition as_factor :: "'f ASTNode \<Rightarrow> 'f ASTFactor result" where
  "as_factor n = (case n of NodeFactor f \<Rightarrow> Inr f | _ \<Rightarrow> Inl UndefinedBehaviour)"

definition as_expression :: "'f ASTNode \<Rightarrow> 'f ASTExpression result" where
  "as_expression n = (case n of NodeFactor (FactorExpression e) \<Rightarrow> Inr e | _ \<Rightarrow> Inl UndefinedBehaviour)"

definition as_var :: "'f ASTNode \<Rightarrow> 'f ASTVar result" where
  "as_var n = (case n of NodeFactor (FactorVar v) \<Rightarrow> Inr v | _ \<Rightarrow> Inl UndefinedBehaviour)"

definition as_additive :: "'f ASTNode \<Rightarrow> 'f ASTAdditiveExpression result" where
  "as_additive n = (case n of NodeAdditive a \<Rightarrow> Inr a | _ \<Rightarrow> Inl UndefinedBehaviour)"

definition as_term :: "'f ASTNode \<Rightarrow> 'f ASTTerm result" where
  "as_term n = (case n of NodeTerm t \<Rightarrow> Inr t | _ \<Rightarrow> Inl UndefinedBehaviour)"

lemmas as_defs = as_program_def as_declaration_def as_var_declaration_def as_param_def
  as_statement_def as_compound_stmt_def as_factor_def as_expression_def as_var_def
  as_additive_def as_term_def

section \<open>Numbers\<close>

text \<open>
  \<^verbatim>\<open>std::stoi\<close>: white space, a sign, the longest run of digits; what follows is ignored. No digit
  is \<^verbatim>\<open>invalid_argument\<close>, a value outside \<^verbatim>\<open>int\<close> is \<^verbatim>\<open>out_of_range\<close>.
\<close>

definition is_space :: "char \<Rightarrow> bool" where
  "is_space c \<longleftrightarrow> c = CHR '' '' \<or> (9 \<le> (of_char c :: nat) \<and> (of_char c :: nat) \<le> 13)"

definition is_digit :: "char \<Rightarrow> bool" where
  "is_digit c \<longleftrightarrow> 48 \<le> (of_char c :: nat) \<and> (of_char c :: nat) \<le> 57"

definition digit_val :: "char \<Rightarrow> int" where
  "digit_val c = of_char c - 48"

definition decimal :: "string \<Rightarrow> int" where
  "decimal ds = foldl (\<lambda>v c. 10 * v + digit_val c) 0 ds"

definition stoi :: "string \<Rightarrow> i32 result" where
  "stoi s =
     (let s1 = dropWhile is_space s;
          (neg, s2) = (case s1 of [] \<Rightarrow> (False, [])
             | c # cs \<Rightarrow> if c = CHR ''-'' then (True, cs) else if c = CHR ''+'' then (False, cs) else (False, s1));
          ds = takeWhile is_digit s2;
          v = (if neg then - decimal ds else decimal ds) in
      if ds = [] then Inl InvalidArgument
      else if v < - (2 ^ 31) \<or> 2 ^ 31 \<le> v then Inl OutOfRange
      else Inr (word_of_int v))"

section \<open>The transformation, one definition per production\<close>

text \<open>
  \<open>rec\<close> is \<^verbatim>\<open>transform_node_iter\<close> itself; the recursion is tied at the end.
\<close>

definition grandchild_name :: "nat \<Rightarrow> syntax_tree_node \<Rightarrow> string result" where
  "grandchild_name i n = rbind (child i n) (\<lambda>c. rbind (child 0 c) name_of)"

definition tr_program where
  "tr_program rec n =
     rbind (child 0 n) (\<lambda>l.
     rbind (child 0 (snd (spine2 l))) (\<lambda>first.
     rbind (rmap (\<lambda>t. rbind (rec t) as_declaration) (first # fst (spine2 l))) (\<lambda>ds.
       Inr (NodeProgram (ASTProgram ds)))))"

definition tr_var_declaration :: "syntax_tree_node \<Rightarrow> 'f ASTNode result" where
  "tr_var_declaration n =
     rbind (grandchild_name 0 n) (\<lambda>ty.
     let type = (if ty = ''int'' then TYPE_INT else TYPE_FLOAT) in
     if children_num n = 3 then
       rbind (rbind (child 1 n) name_of) (\<lambda>nm.
         Inr (NodeDeclaration (VarDeclaration (ASTVarDeclaration type nm None))))
     else if children_num n = 6 then
       rbind (rbind (child 1 n) name_of) (\<lambda>nm.
       rbind (rbind (rbind (child 3 n) name_of) stoi) (\<lambda>k.
         Inr (NodeDeclaration (VarDeclaration (ASTVarDeclaration type nm (Some (ASTNumInt k)))))))
     else Inl Abort)"

definition tr_fun_declaration where
  "tr_fun_declaration rec n =
     rbind (grandchild_name 0 n) (\<lambda>ty.
     let type = (if ty = ''int'' then TYPE_INT else if ty = ''float'' then TYPE_FLOAT else TYPE_VOID) in
     rbind (rbind (child 1 n) name_of) (\<lambda>nm.
     rbind (rbind (child 3 n) (child 0)) (\<lambda>l.
     rbind (if children_num l \<noteq> 0 then
              rbind (child 0 (snd (spine3 l))) (\<lambda>first.
                rmap (\<lambda>t. rbind (rec t) as_param) (first # fst (spine3 l)))
            else Inr []) (\<lambda>params.
     rbind (rbind (rbind (child 5 n) rec) as_compound_stmt) (\<lambda>body.
       Inr (NodeDeclaration (ASTFunDeclaration type nm params body)))))))"

definition tr_param :: "syntax_tree_node \<Rightarrow> 'f ASTNode result" where
  "tr_param n =
     rbind (grandchild_name 0 n) (\<lambda>ty.
     rbind (rbind (child 1 n) name_of) (\<lambda>nm.
       Inr (NodeParam (ASTParam (if ty = ''int'' then TYPE_INT else TYPE_FLOAT) nm (children_num n > 2)))))"

definition tr_compound_stmt where
  "tr_compound_stmt rec n =
     rbind (child 1 n) (\<lambda>l1.
     rbind (rmap (\<lambda>t. rbind (rec t) as_var_declaration) (fst (spine2 l1))) (\<lambda>ds.
     rbind (child 2 n) (\<lambda>l2.
     rbind (rmap (\<lambda>t. rbind (rec t) as_statement) (fst (spine2 l2))) (\<lambda>ss.
       Inr (NodeStatement (ASTCompoundStmt ds ss))))))"

definition tr_expression_stmt where
  "tr_expression_stmt rec n =
     (if children_num n = 2 then
        rbind (rbind (rbind (child 0 n) rec) as_expression) (\<lambda>e. Inr (NodeStatement (ASTExpressionStmt (Some e))))
      else Inr (NodeStatement (ASTExpressionStmt None)))"

definition tr_selection_stmt where
  "tr_selection_stmt rec n =
     rbind (rbind (rbind (child 2 n) rec) as_expression) (\<lambda>e.
     rbind (rbind (rbind (child 4 n) rec) as_statement) (\<lambda>s1.
     if children_num n = 7 then
       rbind (rbind (rbind (child 6 n) rec) as_statement) (\<lambda>s2.
         Inr (NodeStatement (ASTSelectionStmt e s1 (Some s2))))
     else Inr (NodeStatement (ASTSelectionStmt e s1 None))))"

definition tr_iteration_stmt where
  "tr_iteration_stmt rec n =
     rbind (rbind (rbind (child 2 n) rec) as_expression) (\<lambda>e.
     rbind (rbind (rbind (child 4 n) rec) as_statement) (\<lambda>s.
       Inr (NodeStatement (ASTIterationStmt e s))))"

definition tr_return_stmt where
  "tr_return_stmt rec n =
     (if children_num n = 3 then
        rbind (rbind (rbind (child 1 n) rec) as_expression) (\<lambda>e. Inr (NodeStatement (ASTReturnStmt (Some e))))
      else Inr (NodeStatement (ASTReturnStmt None)))"

definition tr_expression where
  "tr_expression rec n =
     (if children_num n = 1 then rbind (child 0 n) rec
      else
        rbind (rbind (rbind (child 0 n) rec) as_var) (\<lambda>v.
        rbind (rbind (rbind (child 2 n) rec) as_expression) (\<lambda>e.
          Inr (NodeFactor (FactorExpression (ASTAssignExpression v e))))))"

definition tr_var where
  "tr_var rec n =
     rbind (rbind (child 0 n) name_of) (\<lambda>nm.
     if children_num n = 4 then
       rbind (rbind (rbind (child 2 n) rec) as_expression) (\<lambda>e. Inr (NodeFactor (FactorVar (ASTVar nm (Some e)))))
     else Inr (NodeFactor (FactorVar (ASTVar nm None))))"

text \<open>An operator that is none of the names keeps the zero of a new object.\<close>

definition relop_of :: "string \<Rightarrow> RelOp" where
  "relop_of s = (if s = ''<='' then OP_LE else if s = ''<'' then OP_LT else if s = ''>'' then OP_GT
     else if s = ''>='' then OP_GE else if s = ''=='' then OP_EQ else if s = ''!='' then OP_NEQ else OP_LE)"

definition addop_of :: "string \<Rightarrow> AddOp" where
  "addop_of s = (if s = ''+'' then OP_PLUS else if s = ''-'' then OP_MINUS else OP_PLUS)"

definition mulop_of :: "string \<Rightarrow> MulOp" where
  "mulop_of s = (if s = ''*'' then OP_MUL else if s = ''/'' then OP_DIV else OP_MUL)"

definition tr_simple_expression where
  "tr_simple_expression rec n =
     rbind (rbind (rbind (child 0 n) rec) as_additive) (\<lambda>a1.
     if children_num n = 3 then
       rbind (grandchild_name 1 n) (\<lambda>op.
       rbind (rbind (rbind (child 2 n) rec) as_additive) (\<lambda>a2.
         Inr (NodeFactor (FactorExpression (ASTSimpleExpression a1 (Some (relop_of op, a2)))))))
     else Inr (NodeFactor (FactorExpression (ASTSimpleExpression a1 None))))"

definition tr_additive_expression where
  "tr_additive_expression rec n =
     (if children_num n = 3 then
        rbind (rbind (rbind (child 0 n) rec) as_additive) (\<lambda>a.
        rbind (grandchild_name 1 n) (\<lambda>op.
        rbind (rbind (rbind (child 2 n) rec) as_term) (\<lambda>t.
          Inr (NodeAdditive (ASTAdditiveExpression (Some (a, addop_of op)) t)))))
      else rbind (rbind (rbind (child 0 n) rec) as_term) (\<lambda>t.
        Inr (NodeAdditive (ASTAdditiveExpression None t))))"

definition tr_term where
  "tr_term rec n =
     (if children_num n = 3 then
        rbind (rbind (rbind (child 0 n) rec) as_term) (\<lambda>t.
        rbind (grandchild_name 1 n) (\<lambda>op.
        rbind (rbind (rbind (child 2 n) rec) as_factor) (\<lambda>f.
          Inr (NodeTerm (ASTTerm (Some (t, mulop_of op)) f)))))
      else rbind (rbind (rbind (child 0 n) rec) as_factor) (\<lambda>f. Inr (NodeTerm (ASTTerm None f))))"

definition tr_factor where
  "tr_factor stof rec n =
     (let i = (if children_num n = 3 then 1 else 0) in
      rbind (child i n) (\<lambda>c.
      rbind (name_of c) (\<lambda>name.
      if name = ''expression'' \<or> name = ''var'' \<or> name = ''call'' then rec c
      else if name = ''integer'' then
        rbind (rbind (rbind (child 0 c) name_of) stoi) (\<lambda>k. Inr (NodeFactor (FactorNum (ASTNumInt k))))
      else if name = ''float'' then
        rbind (rbind (rbind (child 0 c) name_of) stof) (\<lambda>x. Inr (NodeFactor (FactorNum (ASTNumFloat x))))
      else Inl Abort)))"

definition tr_call where
  "tr_call rec n =
     rbind (rbind (child 0 n) name_of) (\<lambda>nm.
     rbind (rbind (child 2 n) (child 0)) (\<lambda>l.
     rbind (name_of l) (\<lambda>name.
     rbind (if name = ''arg-list'' then
              rbind (child 0 (snd (spine3 l))) (\<lambda>first.
                rmap (\<lambda>t. rbind (rec t) as_expression) (first # fst (spine3 l)))
            else Inr []) (\<lambda>args.
       Inr (NodeFactor (FactorCall nm args))))))"

section \<open>Recursive calls are on smaller trees\<close>

lemma child_base_smaller2 [smaller_trees]: "child i (snd (spine2 l)) = Inr c \<Longrightarrow> size c < size l"
  using child_smaller spine2_base order.strict_trans2 by blast

lemma child_base_smaller3 [smaller_trees]: "child i (snd (spine3 l)) = Inr c \<Longrightarrow> size c < size l"
  using child_smaller spine3_base order.strict_trans2 by blast

lemma tr_program_cong [fundef_cong]:
  assumes "n = n'" "\<And>x. size x < size n' \<Longrightarrow> f x = g x"
  shows "tr_program f n = tr_program g n'"
  unfolding tr_program_def assms(1) Let_def
  by (intro rbind_cong rmap_cong if_cong refl; rule assms(2), auto simp: rbind_eq_Inr dest!: smaller_trees)

lemma tr_fun_declaration_cong [fundef_cong]:
  assumes "n = n'" "\<And>x. size x < size n' \<Longrightarrow> f x = g x"
  shows "tr_fun_declaration f n = tr_fun_declaration g n'"
  unfolding tr_fun_declaration_def assms(1) Let_def
  by (intro rbind_cong rmap_cong if_cong refl; rule assms(2), auto simp: rbind_eq_Inr dest!: smaller_trees)

lemma tr_compound_stmt_cong [fundef_cong]:
  assumes "n = n'" "\<And>x. size x < size n' \<Longrightarrow> f x = g x"
  shows "tr_compound_stmt f n = tr_compound_stmt g n'"
  unfolding tr_compound_stmt_def assms(1) Let_def
  by (intro rbind_cong rmap_cong if_cong refl; rule assms(2), auto simp: rbind_eq_Inr dest!: smaller_trees)

lemma tr_expression_stmt_cong [fundef_cong]:
  assumes "n = n'" "\<And>x. size x < size n' \<Longrightarrow> f x = g x"
  shows "tr_expression_stmt f n = tr_expression_stmt g n'"
  unfolding tr_expression_stmt_def assms(1) Let_def
  by (intro rbind_cong rmap_cong if_cong refl; rule assms(2), auto simp: rbind_eq_Inr dest!: smaller_trees)

lemma tr_selection_stmt_cong [fundef_cong]:
  assumes "n = n'" "\<And>x. size x < size n' \<Longrightarrow> f x = g x"
  shows "tr_selection_stmt f n = tr_selection_stmt g n'"
  unfolding tr_selection_stmt_def assms(1) Let_def
  by (intro rbind_cong rmap_cong if_cong refl; rule assms(2), auto simp: rbind_eq_Inr dest!: smaller_trees)

lemma tr_iteration_stmt_cong [fundef_cong]:
  assumes "n = n'" "\<And>x. size x < size n' \<Longrightarrow> f x = g x"
  shows "tr_iteration_stmt f n = tr_iteration_stmt g n'"
  unfolding tr_iteration_stmt_def assms(1) Let_def
  by (intro rbind_cong rmap_cong if_cong refl; rule assms(2), auto simp: rbind_eq_Inr dest!: smaller_trees)

lemma tr_return_stmt_cong [fundef_cong]:
  assumes "n = n'" "\<And>x. size x < size n' \<Longrightarrow> f x = g x"
  shows "tr_return_stmt f n = tr_return_stmt g n'"
  unfolding tr_return_stmt_def assms(1) Let_def
  by (intro rbind_cong rmap_cong if_cong refl; rule assms(2), auto simp: rbind_eq_Inr dest!: smaller_trees)

lemma tr_expression_cong [fundef_cong]:
  assumes "n = n'" "\<And>x. size x < size n' \<Longrightarrow> f x = g x"
  shows "tr_expression f n = tr_expression g n'"
  unfolding tr_expression_def assms(1) Let_def
  by (intro rbind_cong rmap_cong if_cong refl; rule assms(2), auto simp: rbind_eq_Inr dest!: smaller_trees)

lemma tr_var_cong [fundef_cong]:
  assumes "n = n'" "\<And>x. size x < size n' \<Longrightarrow> f x = g x"
  shows "tr_var f n = tr_var g n'"
  unfolding tr_var_def assms(1) Let_def
  by (intro rbind_cong rmap_cong if_cong refl; rule assms(2), auto simp: rbind_eq_Inr dest!: smaller_trees)

lemma tr_simple_expression_cong [fundef_cong]:
  assumes "n = n'" "\<And>x. size x < size n' \<Longrightarrow> f x = g x"
  shows "tr_simple_expression f n = tr_simple_expression g n'"
  unfolding tr_simple_expression_def assms(1) Let_def
  by (intro rbind_cong rmap_cong if_cong refl; rule assms(2), auto simp: rbind_eq_Inr dest!: smaller_trees)

lemma tr_additive_expression_cong [fundef_cong]:
  assumes "n = n'" "\<And>x. size x < size n' \<Longrightarrow> f x = g x"
  shows "tr_additive_expression f n = tr_additive_expression g n'"
  unfolding tr_additive_expression_def assms(1) Let_def
  by (intro rbind_cong rmap_cong if_cong refl; rule assms(2), auto simp: rbind_eq_Inr dest!: smaller_trees)

lemma tr_term_cong [fundef_cong]:
  assumes "n = n'" "\<And>x. size x < size n' \<Longrightarrow> f x = g x"
  shows "tr_term f n = tr_term g n'"
  unfolding tr_term_def assms(1) Let_def
  by (intro rbind_cong rmap_cong if_cong refl; rule assms(2), auto simp: rbind_eq_Inr dest!: smaller_trees)

lemma tr_call_cong [fundef_cong]:
  assumes "n = n'" "\<And>x. size x < size n' \<Longrightarrow> f x = g x"
  shows "tr_call f n = tr_call g n'"
  unfolding tr_call_def assms(1) Let_def
  by (intro rbind_cong rmap_cong if_cong refl; rule assms(2), auto simp: rbind_eq_Inr dest!: smaller_trees)

lemma tr_factor_cong [fundef_cong]:
  assumes "n = n'" "\<And>x. size x < size n' \<Longrightarrow> f x = g x"
  shows "tr_factor stof f n = tr_factor stof g n'"
  using assms child_smaller by (auto simp: tr_factor_def Let_def intro!: rbind_cong)

fun transform_node_iter :: "(string \<Rightarrow> 'f result) \<Rightarrow> syntax_tree_node \<Rightarrow> 'f ASTNode result" where
  "transform_node_iter stof n =
     rbind (name_of n) (\<lambda>name.
     if name = ''program'' then tr_program (transform_node_iter stof) n
     else if name = ''declaration'' then rbind (child 0 n) (transform_node_iter stof)
     else if name = ''var-declaration'' then tr_var_declaration n
     else if name = ''fun-declaration'' then tr_fun_declaration (transform_node_iter stof) n
     else if name = ''param'' then tr_param n
     else if name = ''compound-stmt'' then tr_compound_stmt (transform_node_iter stof) n
     else if name = ''statement'' then rbind (child 0 n) (transform_node_iter stof)
     else if name = ''expression-stmt'' then tr_expression_stmt (transform_node_iter stof) n
     else if name = ''selection-stmt'' then tr_selection_stmt (transform_node_iter stof) n
     else if name = ''iteration-stmt'' then tr_iteration_stmt (transform_node_iter stof) n
     else if name = ''return-stmt'' then tr_return_stmt (transform_node_iter stof) n
     else if name = ''expression'' then tr_expression (transform_node_iter stof) n
     else if name = ''var'' then tr_var (transform_node_iter stof) n
     else if name = ''simple-expression'' then tr_simple_expression (transform_node_iter stof) n
     else if name = ''additive-expression'' then tr_additive_expression (transform_node_iter stof) n
     else if name = ''term'' then tr_term (transform_node_iter stof) n
     else if name = ''factor'' then tr_factor stof (transform_node_iter stof) n
     else if name = ''call'' then tr_call (transform_node_iter stof) n
     else Inl Abort)"

declare transform_node_iter.simps [simp del]

text \<open>The constructor of \<^verbatim>\<open>AST\<close>: \<open>None\<close> is the null tree, and \<open>Some None\<close> a tree without a root.\<close>

definition AST :: "(string \<Rightarrow> 'f result) \<Rightarrow> syntax_tree_node option option \<Rightarrow> 'f ASTProgram result" where
  "AST stof s = (case s of
       None \<Rightarrow> Inl Abort
     | Some None \<Rightarrow> Inl NullDeref
     | Some (Some root) \<Rightarrow> rbind (transform_node_iter stof root) as_program)"

end
