(* ===== verification/Ast_Grammar.thy ===== *)
theory Ast_Grammar
  imports Ast
begin

text \<open>
  The productions of \<^verbatim>\<open>syntax_analyzer.y\<close> as a function from abstract to concrete syntax: the
  tree that the grammar actions build for a program. The section on round trips shows that
  \<^verbatim>\<open>transform_node_iter\<close> inverts it.
\<close>

section \<open>Lexemes\<close>

definition type_lexeme :: "CminusType \<Rightarrow> string" where
  "type_lexeme t = (case t of TYPE_INT \<Rightarrow> ''int'' | TYPE_FLOAT \<Rightarrow> ''float'' | TYPE_VOID \<Rightarrow> ''void'')"

definition relop_lexeme :: "RelOp \<Rightarrow> string" where
  "relop_lexeme r = (case r of OP_LE \<Rightarrow> ''<='' | OP_LT \<Rightarrow> ''<'' | OP_GT \<Rightarrow> ''>'' | OP_GE \<Rightarrow> ''>=''
     | OP_EQ \<Rightarrow> ''=='' | OP_NEQ \<Rightarrow> ''!='')"

definition addop_lexeme :: "AddOp \<Rightarrow> string" where
  "addop_lexeme r = (case r of OP_PLUS \<Rightarrow> ''+'' | OP_MINUS \<Rightarrow> ''-'')"

definition mulop_lexeme :: "MulOp \<Rightarrow> string" where
  "mulop_lexeme r = (case r of OP_MUL \<Rightarrow> ''*'' | OP_DIV \<Rightarrow> ''/'')"

definition int_lexeme :: "i32 \<Rightarrow> string" where
  "int_lexeme k = digits (unat k)"

section \<open>Trees of the productions\<close>

definition list2 :: "string \<Rightarrow> syntax_tree_node \<Rightarrow> syntax_tree_node list \<Rightarrow> syntax_tree_node" where
  "list2 name base xs = foldl (\<lambda>l x. tree name [l, x]) base xs"

definition list3 :: "string \<Rightarrow> syntax_tree_node list \<Rightarrow> syntax_tree_node" where
  "list3 name xs = foldl (\<lambda>l x. tree name [l, leaf '','', x]) (tree name [hd xs]) (tl xs)"


fun expression_tree :: "('f \<Rightarrow> string) \<Rightarrow> 'f ASTExpression \<Rightarrow> syntax_tree_node"
  and var_tree :: "('f \<Rightarrow> string) \<Rightarrow> 'f ASTVar \<Rightarrow> syntax_tree_node"
  and additive_tree :: "('f \<Rightarrow> string) \<Rightarrow> 'f ASTAdditiveExpression \<Rightarrow> syntax_tree_node"
  and term_tree :: "('f \<Rightarrow> string) \<Rightarrow> 'f ASTTerm \<Rightarrow> syntax_tree_node"
  and factor_tree :: "('f \<Rightarrow> string) \<Rightarrow> 'f ASTFactor \<Rightarrow> syntax_tree_node"
where
  "expression_tree fl (ASTAssignExpression v e) =
     tree ''expression'' [var_tree fl v, leaf ''='', expression_tree fl e]"
| "expression_tree fl (ASTSimpleExpression a None) =
     tree ''expression'' [tree ''simple-expression'' [additive_tree fl a]]"
| "expression_tree fl (ASTSimpleExpression a (Some (op, b))) =
     tree ''expression'' [tree ''simple-expression''
       [additive_tree fl a, tree ''relop'' [leaf (relop_lexeme op)], additive_tree fl b]]"
| "var_tree fl (ASTVar nm None) = tree ''var'' [leaf nm]"
| "var_tree fl (ASTVar nm (Some e)) = tree ''var'' [leaf nm, leaf ''['', expression_tree fl e, leaf '']'']"
| "additive_tree fl (ASTAdditiveExpression None t) = tree ''additive-expression'' [term_tree fl t]"
| "additive_tree fl (ASTAdditiveExpression (Some (a, op)) t) =
     tree ''additive-expression'' [additive_tree fl a, tree ''addop'' [leaf (addop_lexeme op)], term_tree fl t]"
| "term_tree fl (ASTTerm None f) = tree ''term'' [factor_tree fl f]"
| "term_tree fl (ASTTerm (Some (t, op)) f) =
     tree ''term'' [term_tree fl t, tree ''mulop'' [leaf (mulop_lexeme op)], factor_tree fl f]"
| "factor_tree fl (FactorExpression e) = tree ''factor'' [leaf ''('', expression_tree fl e, leaf '')'']"
| "factor_tree fl (FactorVar v) = tree ''factor'' [var_tree fl v]"
| "factor_tree fl (FactorCall nm args) = tree ''factor'' [tree ''call''
     [leaf nm, leaf ''('',
      tree ''args'' (if args = [] then [] else [list3 ''arg-list'' (map (expression_tree fl) args)]),
      leaf '')'']]"
| "factor_tree fl (FactorNum (ASTNumInt k)) = tree ''factor'' [tree ''integer'' [leaf (int_lexeme k)]]"
| "factor_tree fl (FactorNum (ASTNumFloat x)) = tree ''factor'' [tree ''float'' [leaf (fl x)]]"

definition type_specifier :: "CminusType \<Rightarrow> syntax_tree_node" where
  "type_specifier t = tree ''type-specifier'' [leaf (type_lexeme t)]"

fun var_declaration_tree :: "'f ASTVarDeclaration \<Rightarrow> syntax_tree_node" where
  "var_declaration_tree (ASTVarDeclaration t nm (Some (ASTNumInt k))) =
     tree ''var-declaration'' [type_specifier t, leaf nm, leaf ''['', leaf (int_lexeme k), leaf '']'', leaf '';'']"
| "var_declaration_tree (ASTVarDeclaration t nm _) =
     tree ''var-declaration'' [type_specifier t, leaf nm, leaf '';'']"

fun statement_tree :: "('f \<Rightarrow> string) \<Rightarrow> 'f ASTStatement \<Rightarrow> syntax_tree_node" where
  "statement_tree fl (ASTCompoundStmt ds ss) = tree ''compound-stmt''
     [leaf ''{'', list2 ''local-declarations'' (tree ''local-declarations'' []) (map var_declaration_tree ds),
      list2 ''statement-list'' (tree ''statement-list'' [])
        (map (\<lambda>s. tree ''statement'' [statement_tree fl s]) ss), leaf ''}'']"
| "statement_tree fl (ASTExpressionStmt (Some e)) = tree ''expression-stmt'' [expression_tree fl e, leaf '';'']"
| "statement_tree fl (ASTExpressionStmt None) = tree ''expression-stmt'' [leaf '';'']"
| "statement_tree fl (ASTSelectionStmt e s1 None) = tree ''selection-stmt''
     [leaf ''if'', leaf ''('', expression_tree fl e, leaf '')'', tree ''statement'' [statement_tree fl s1]]"
| "statement_tree fl (ASTSelectionStmt e s1 (Some s2)) = tree ''selection-stmt''
     [leaf ''if'', leaf ''('', expression_tree fl e, leaf '')'', tree ''statement'' [statement_tree fl s1],
      leaf ''else'', tree ''statement'' [statement_tree fl s2]]"
| "statement_tree fl (ASTIterationStmt e s) = tree ''iteration-stmt''
     [leaf ''while'', leaf ''('', expression_tree fl e, leaf '')'', tree ''statement'' [statement_tree fl s]]"
| "statement_tree fl (ASTReturnStmt None) = tree ''return-stmt'' [leaf ''return'', leaf '';'']"
| "statement_tree fl (ASTReturnStmt (Some e)) =
     tree ''return-stmt'' [leaf ''return'', expression_tree fl e, leaf '';'']"

fun param_tree :: "ASTParam \<Rightarrow> syntax_tree_node" where
  "param_tree (ASTParam t nm arr) =
     tree ''param'' ([type_specifier t, leaf nm] @ (if arr then [leaf ''['', leaf '']''] else []))"

fun declaration_tree :: "('f \<Rightarrow> string) \<Rightarrow> 'f ASTDeclaration \<Rightarrow> syntax_tree_node" where
  "declaration_tree fl (VarDeclaration d) = tree ''declaration'' [var_declaration_tree d]"
| "declaration_tree fl (ASTFunDeclaration t nm ps body) = tree ''declaration''
     [tree ''fun-declaration'' [type_specifier t, leaf nm, leaf ''('',
        tree ''params'' [if ps = [] then leaf ''void'' else list3 ''param-list'' (map param_tree ps)],
        leaf '')'', statement_tree fl body]]"

definition program_tree :: "('f \<Rightarrow> string) \<Rightarrow> 'f ASTProgram \<Rightarrow> syntax_tree_node" where
  "program_tree fl p = tree ''program''
     [list2 ''declaration-list'' (tree ''declaration-list'' [declaration_tree fl (hd (declarations p))])
        (map (declaration_tree fl) (tl (declarations p)))]"

section \<open>Programs the tree can hold\<close>

text \<open>
  Texts fit the buffer with its NUL, numbers fit \<^verbatim>\<open>int\<close>, and no variable or parameter has
  type \<^verbatim>\<open>void\<close>. \<open>P\<close> says which floating-point numbers are allowed.
\<close>

definition short :: "string \<Rightarrow> bool" where
  "short s \<longleftrightarrow> length s < SYNTAX_TREE_NODE_NAME_MAX"

fun num_ok :: "('f \<Rightarrow> bool) \<Rightarrow> 'f ASTNum \<Rightarrow> bool" where
  "num_ok P (ASTNumInt k) \<longleftrightarrow> unat k < 2 ^ 31"
| "num_ok P (ASTNumFloat x) \<longleftrightarrow> P x"

fun expression_ok :: "('f \<Rightarrow> bool) \<Rightarrow> 'f ASTExpression \<Rightarrow> bool"
  and var_ok :: "('f \<Rightarrow> bool) \<Rightarrow> 'f ASTVar \<Rightarrow> bool"
  and additive_ok :: "('f \<Rightarrow> bool) \<Rightarrow> 'f ASTAdditiveExpression \<Rightarrow> bool"
  and term_ok :: "('f \<Rightarrow> bool) \<Rightarrow> 'f ASTTerm \<Rightarrow> bool"
  and factor_ok :: "('f \<Rightarrow> bool) \<Rightarrow> 'f ASTFactor \<Rightarrow> bool"
where
  "expression_ok P (ASTAssignExpression v e) \<longleftrightarrow> var_ok P v \<and> expression_ok P e"
| "expression_ok P (ASTSimpleExpression a None) \<longleftrightarrow> additive_ok P a"
| "expression_ok P (ASTSimpleExpression a (Some (op, b))) \<longleftrightarrow> additive_ok P a \<and> additive_ok P b"
| "var_ok P (ASTVar nm None) \<longleftrightarrow> short nm"
| "var_ok P (ASTVar nm (Some e)) \<longleftrightarrow> short nm \<and> expression_ok P e"
| "additive_ok P (ASTAdditiveExpression None t) \<longleftrightarrow> term_ok P t"
| "additive_ok P (ASTAdditiveExpression (Some (a, op)) t) \<longleftrightarrow> additive_ok P a \<and> term_ok P t"
| "term_ok P (ASTTerm None f) \<longleftrightarrow> factor_ok P f"
| "term_ok P (ASTTerm (Some (t, op)) f) \<longleftrightarrow> term_ok P t \<and> factor_ok P f"
| "factor_ok P (FactorExpression e) \<longleftrightarrow> expression_ok P e"
| "factor_ok P (FactorVar v) \<longleftrightarrow> var_ok P v"
| "factor_ok P (FactorCall nm args) \<longleftrightarrow> short nm \<and> list_all (expression_ok P) args"
| "factor_ok P (FactorNum n) \<longleftrightarrow> num_ok P n"

fun var_declaration_ok :: "'f ASTVarDeclaration \<Rightarrow> bool" where
  "var_declaration_ok (ASTVarDeclaration t nm None) \<longleftrightarrow> t \<noteq> TYPE_VOID \<and> short nm"
| "var_declaration_ok (ASTVarDeclaration t nm (Some (ASTNumInt k))) \<longleftrightarrow>
     t \<noteq> TYPE_VOID \<and> short nm \<and> unat k < 2 ^ 31"
| "var_declaration_ok (ASTVarDeclaration t nm (Some (ASTNumFloat x))) \<longleftrightarrow> False"

fun statement_ok :: "('f \<Rightarrow> bool) \<Rightarrow> 'f ASTStatement \<Rightarrow> bool" where
  "statement_ok P (ASTCompoundStmt ds ss) \<longleftrightarrow> list_all var_declaration_ok ds \<and> list_all (statement_ok P) ss"
| "statement_ok P (ASTExpressionStmt e) \<longleftrightarrow> pred_option (expression_ok P) e"
| "statement_ok P (ASTSelectionStmt e s1 s2) \<longleftrightarrow>
     expression_ok P e \<and> statement_ok P s1 \<and> pred_option (statement_ok P) s2"
| "statement_ok P (ASTIterationStmt e s) \<longleftrightarrow> expression_ok P e \<and> statement_ok P s"
| "statement_ok P (ASTReturnStmt e) \<longleftrightarrow> pred_option (expression_ok P) e"

definition param_ok :: "ASTParam \<Rightarrow> bool" where
  "param_ok p \<longleftrightarrow> param_type p \<noteq> TYPE_VOID \<and> short (param_id p)"

fun declaration_ok :: "('f \<Rightarrow> bool) \<Rightarrow> 'f ASTDeclaration \<Rightarrow> bool" where
  "declaration_ok P (VarDeclaration d) \<longleftrightarrow> var_declaration_ok d"
| "declaration_ok P (ASTFunDeclaration t nm ps body) \<longleftrightarrow> short nm \<and> list_all param_ok ps \<and>
     (case body of ASTCompoundStmt ds ss \<Rightarrow> statement_ok P body | _ \<Rightarrow> False)"

definition program_ok :: "('f \<Rightarrow> bool) \<Rightarrow> 'f ASTProgram \<Rightarrow> bool" where
  "program_ok P p \<longleftrightarrow> declarations p \<noteq> [] \<and> list_all (declaration_ok P) (declarations p)"

end
