(* ===== verification/Ast_Roundtrip.thy ===== *)
theory Ast_Roundtrip
  imports Ast_Grammar
begin

text \<open>
  \<^verbatim>\<open>transform_node_iter\<close> gives back the program whose tree the grammar built. First the
  tree accessors on trees of the productions, then one lemma per nonterminal.
\<close>

section \<open>Accessors on trees\<close>

named_theorems tree_simps "accessors and dispatch on the trees of the productions"

lemma name_of_tree [tree_simps]: "short s \<Longrightarrow> name_of (tree s cs) = Inr s"
  by (simp add: name_of_def tree_def short_def)

lemma name_of_leaf [tree_simps]: "short s \<Longrightarrow> name_of (leaf s) = Inr s"
  by (simp add: name_of_def leaf_def short_def)

lemma child_tree [tree_simps]: "i < length cs \<Longrightarrow> child i (tree s cs) = Inr (cs ! i)"
  by (auto simp: child_def tree_def)

lemma child_empty [tree_simps]: "child 0 (tree s []) = Inr (leaf ''epsilon'')"
  by (simp add: child_def tree_def leaf_def epsilon_def new_syntax_tree_node_def SYNTAX_TREE_NODE_NAME_MAX_def)

lemma children_num_tree [tree_simps]: "children_num (tree s cs) = (if cs = [] then 1 else length cs)"
  by (simp add: children_num_def tree_def)

lemma children_num_leaf [tree_simps]: "children_num (leaf s) = 0"
  by (simp add: children_num_def leaf_def)

lemma spine2_tree [tree_simps]:
  "spine2 (tree s []) = ([], tree s [])"
  "spine2 (tree s [x]) = ([], tree s [x])"
  "spine2 (tree s [l, x]) = (fst (spine2 l) @ [x], snd (spine2 l))"
  by (simp_all add: tree_def)

lemma spine3_tree [tree_simps]:
  "spine3 (tree s [x]) = ([], tree s [x])"
  "spine3 (tree s [l, c, x]) = (fst (spine3 l) @ [x], snd (spine3 l))"
  by (simp_all add: tree_def)

lemma spine2_list2 [tree_simps]:
  "spine2 (list2 s base xs) = (fst (spine2 base) @ xs, snd (spine2 base))"
  by (induction xs rule: rev_induct) (simp_all add: list2_def tree_simps)

lemma spine3_list3 [tree_simps]:
  assumes "xs \<noteq> []"
  shows "spine3 (list3 s xs) = (tl xs, tree s [hd xs])"
proof -
  have "spine3 (foldl (\<lambda>l x. tree s [l, leaf '','', x]) b ys) = (fst (spine3 b) @ ys, snd (spine3 b))" for b ys
    by (induction ys rule: rev_induct) (simp_all add: tree_simps)
  then show ?thesis by (simp add: list3_def tree_simps)
qed

lemma list3_shape:
  assumes "xs \<noteq> []"
  shows "\<exists>cs. list3 s xs = tree s cs \<and> cs \<noteq> []"
proof -
  have "\<exists>cs. foldl (\<lambda>l x. tree s [l, leaf '','', x]) (tree s [b]) ys = tree s cs \<and> cs \<noteq> []" for b ys
    by (induction ys rule: rev_induct) auto
  then show ?thesis by (simp add: list3_def)
qed

lemma list3_name [tree_simps]: "xs \<noteq> [] \<Longrightarrow> short s \<Longrightarrow> name_of (list3 s xs) = Inr s"
  using list3_shape by (metis name_of_tree)

lemma list3_num [tree_simps]: "xs \<noteq> [] \<Longrightarrow> children_num (list3 s xs) \<noteq> 0"
  using list3_shape [of xs s] by (auto simp: children_num_tree)

section \<open>Dispatch on the name\<close>

lemma short_literals [tree_simps]:
  "short ''epsilon''"
  "short ''program''"
  "short ''declaration''"
  "short ''var-declaration''"
  "short ''fun-declaration''"
  "short ''param''"
  "short ''compound-stmt''"
  "short ''statement''"
  "short ''expression-stmt''"
  "short ''selection-stmt''"
  "short ''iteration-stmt''"
  "short ''return-stmt''"
  "short ''expression''"
  "short ''var''"
  "short ''simple-expression''"
  "short ''additive-expression''"
  "short ''term''"
  "short ''factor''"
  "short ''call''"
  "short ''integer''"
  "short ''float''"
  "short ''arg-list''"
  "short ''int''"
  "short ''void''"
  "short ''relop''"
  "short ''addop''"
  "short ''mulop''"
  "short ''<=''"
  "short ''<''"
  "short ''>''"
  "short ''>=''"
  "short ''==''"
  "short ''!=''"
  "short ''+''"
  "short ''-''"
  "short ''*''"
  "short ''/''"
  "short ''args''"
  "short ''type-specifier''"
  by (simp_all add: short_def SYNTAX_TREE_NODE_NAME_MAX_def)

lemma transform_dispatch [tree_simps]:
  "transform_node_iter stof (tree ''program'' cs) = tr_program (transform_node_iter stof) (tree ''program'' cs)"
  "transform_node_iter stof (tree ''fun-declaration'' cs) = tr_fun_declaration (transform_node_iter stof) (tree ''fun-declaration'' cs)"
  "transform_node_iter stof (tree ''compound-stmt'' cs) = tr_compound_stmt (transform_node_iter stof) (tree ''compound-stmt'' cs)"
  "transform_node_iter stof (tree ''expression-stmt'' cs) = tr_expression_stmt (transform_node_iter stof) (tree ''expression-stmt'' cs)"
  "transform_node_iter stof (tree ''selection-stmt'' cs) = tr_selection_stmt (transform_node_iter stof) (tree ''selection-stmt'' cs)"
  "transform_node_iter stof (tree ''iteration-stmt'' cs) = tr_iteration_stmt (transform_node_iter stof) (tree ''iteration-stmt'' cs)"
  "transform_node_iter stof (tree ''return-stmt'' cs) = tr_return_stmt (transform_node_iter stof) (tree ''return-stmt'' cs)"
  "transform_node_iter stof (tree ''expression'' cs) = tr_expression (transform_node_iter stof) (tree ''expression'' cs)"
  "transform_node_iter stof (tree ''var'' cs) = tr_var (transform_node_iter stof) (tree ''var'' cs)"
  "transform_node_iter stof (tree ''simple-expression'' cs) = tr_simple_expression (transform_node_iter stof) (tree ''simple-expression'' cs)"
  "transform_node_iter stof (tree ''additive-expression'' cs) = tr_additive_expression (transform_node_iter stof) (tree ''additive-expression'' cs)"
  "transform_node_iter stof (tree ''term'' cs) = tr_term (transform_node_iter stof) (tree ''term'' cs)"
  "transform_node_iter stof (tree ''factor'' cs) = tr_factor stof (transform_node_iter stof) (tree ''factor'' cs)"
  "transform_node_iter stof (tree ''call'' cs) = tr_call (transform_node_iter stof) (tree ''call'' cs)"
  "transform_node_iter stof (tree ''var-declaration'' cs) = tr_var_declaration (tree ''var-declaration'' cs)"
  "transform_node_iter stof (tree ''param'' cs) = tr_param (tree ''param'' cs)"
  "transform_node_iter stof (tree ''declaration'' cs) = rbind (child 0 (tree ''declaration'' cs)) (transform_node_iter stof)"
  "transform_node_iter stof (tree ''statement'' cs) = rbind (child 0 (tree ''statement'' cs)) (transform_node_iter stof)"
  by (simp_all add: transform_node_iter.simps [of stof "tree _ _"] name_of_tree short_literals)

section \<open>Lexemes\<close>

lemma grandchild_tree [tree_simps]:
  "i < length cs \<Longrightarrow> cs ! i = tree s [leaf t] \<Longrightarrow> short t \<Longrightarrow> grandchild_name i (tree n cs) = Inr t"
  by (simp add: grandchild_name_def tree_simps)

lemma relop_lexeme_ok [tree_simps]: "relop_of (relop_lexeme op) = op" "short (relop_lexeme op)"
  by (cases op; simp add: relop_of_def relop_lexeme_def short_literals)+

lemma addop_lexeme_ok [tree_simps]: "addop_of (addop_lexeme op) = op" "short (addop_lexeme op)"
  by (cases op; simp add: addop_of_def addop_lexeme_def short_literals)+

lemma mulop_lexeme_ok [tree_simps]: "mulop_of (mulop_lexeme op) = op" "short (mulop_lexeme op)"
  by (cases op; simp add: mulop_of_def mulop_lexeme_def short_literals)+

lemma type_lexeme_ok [tree_simps]: "short (type_lexeme t)"
  by (cases t; simp add: type_lexeme_def short_literals)

lemma digit_val_char: "d < 10 \<Longrightarrow> digit_val (char_of (48 + d :: nat)) = int d"
proof -
  assume "d < 10"
  then have "of_nat (of_char (char_of (48 + d :: nat))) = (48 + int d)" by simp
  then show ?thesis unfolding digit_val_def of_nat_of_char by simp
qed

lemma is_digit_char: "d < 10 \<Longrightarrow> is_digit (char_of (48 + d :: nat))"
  by (simp add: is_digit_def)

lemma digits_spec: "list_all is_digit (digits n) \<and> decimal (digits n) = int n"
proof (induction n rule: digits.induct)
  case (1 n)
  show ?case
  proof (cases "n < 10")
    case True
    then show ?thesis
      by (subst (1 2) digits.simps) (simp add: is_digit_char decimal_def digit_val_char)
  next
    case False
    have "n mod 10 < 10" by simp
    then show ?thesis using 1 [OF False] False
      by (subst (1 2) digits.simps) (simp add: is_digit_char decimal_def digit_val_char zmod_int zdiv_int)
  qed
qed

lemma stoi_digits:
  assumes "n < 2 ^ 31"
  shows "stoi (digits n) = Inr (of_nat n)"
proof -
  obtain c cs where c: "digits n = c # cs" by (cases "digits n") auto
  have dig: "is_digit c" "takeWhile is_digit (digits n) = digits n"
    using digits_spec [of n] c by (auto simp: list_all_iff)
  have tw: "takeWhile is_digit cs = cs"
    using digits_spec [of n] c by (simp add: takeWhile_eq_all_conv list_all_iff)
  have "\<not> is_space c" "c \<noteq> CHR ''-''" "c \<noteq> CHR ''+''"
    using dig(1) by (auto simp: is_digit_def is_space_def)
  then have "stoi (digits n) = (if int n < - (2 ^ 31) \<or> 2 ^ 31 \<le> int n then Inl OutOfRange
      else Inr (word_of_int (int n)))"
    using dig(1) digits_spec [of n] unfolding stoi_def Let_def c by (simp add: tw)
  then show ?thesis using assms by simp
qed

lemma int_lexeme_ok [tree_simps]:
  assumes "unat k < 2 ^ 31"
  shows "stoi (int_lexeme k) = Inr k" "short (int_lexeme k)"
proof -
  show "stoi (int_lexeme k) = Inr k" using stoi_digits [OF assms] by (simp add: int_lexeme_def)
  have "length (digits (unat k)) \<le> 10" by (rule digits_length) (use assms in simp_all)
  then show "short (int_lexeme k)"
    by (simp add: int_lexeme_def short_def SYNTAX_TREE_NODE_NAME_MAX_def)
qed

section \<open>Round trips\<close>

text \<open>\<open>P\<close> are numbers whose text \<open>fl\<close> is short and read back by \<open>stof\<close>.\<close>

definition reads_back :: "(string \<Rightarrow> 'f result) \<Rightarrow> ('f \<Rightarrow> string) \<Rightarrow> ('f \<Rightarrow> bool) \<Rightarrow> bool" where
  "reads_back stof fl P \<longleftrightarrow> (\<forall>x. P x \<longrightarrow> short (fl x) \<and> stof (fl x) = Inr x)"

lemma reads_backD [tree_simps]:
  "reads_back stof fl P \<Longrightarrow> P x \<Longrightarrow> short (fl x)"
  "reads_back stof fl P \<Longrightarrow> P x \<Longrightarrow> stof (fl x) = Inr x"
  by (auto simp: reads_back_def)

lemma name_of_factors [tree_simps]:
  "name_of (expression_tree fl e) = Inr ''expression''"
  "name_of (var_tree fl v) = Inr ''var''"
  by (cases "(fl, e)" rule: expression_tree.cases; simp add: tree_simps)
    (cases "(fl, v)" rule: var_tree.cases; simp add: tree_simps)

lemmas tr_defs = tr_program_def tr_var_declaration_def tr_fun_declaration_def tr_param_def
  tr_compound_stmt_def tr_expression_stmt_def tr_selection_stmt_def tr_iteration_stmt_def
  tr_return_stmt_def tr_expression_def tr_var_def tr_simple_expression_def
  tr_additive_expression_def tr_term_def tr_factor_def tr_call_def

lemma rmap_trees:
  assumes "\<And>x. x \<in> set xs \<Longrightarrow> rbind (f (g x)) h = Inr x"
  shows "rmap (\<lambda>t. rbind (f t) h) (map g xs) = Inr xs"
  using assms by (induction xs) auto

lemma transform_expression:
  assumes rb: "reads_back stof fl P"
  shows "expression_ok P e \<Longrightarrow>
      transform_node_iter stof (expression_tree fl e) = Inr (NodeFactor (FactorExpression e))"
    and "var_ok P v \<Longrightarrow> transform_node_iter stof (var_tree fl v) = Inr (NodeFactor (FactorVar v))"
    and "additive_ok P a \<Longrightarrow> transform_node_iter stof (additive_tree fl a) = Inr (NodeAdditive a)"
    and "term_ok P t \<Longrightarrow> transform_node_iter stof (term_tree fl t) = Inr (NodeTerm t)"
    and "factor_ok P f \<Longrightarrow> transform_node_iter stof (factor_tree fl f) = Inr (NodeFactor f)"
  using rb
proof (induction P e and P v and P a and P t and P f
    rule: expression_ok_var_ok_additive_ok_term_ok_factor_ok.induct)
  case (12 P nm args)
  show ?case
  proof (cases args)
    case Nil
    then show ?thesis using 12(2) by (simp add: tree_simps tr_call_def tr_factor_def Let_def)
  next
    case (Cons a as)
    have "rbind (transform_node_iter stof (expression_tree fl x)) as_expression = Inr x" if "x \<in> set args" for x
      using 12 that by (auto simp: list_all_iff as_expression_def)
    then have "rbind (transform_node_iter stof (expression_tree fl a)) as_expression = Inr a"
      "rmap (\<lambda>t. rbind (transform_node_iter stof t) as_expression) (map (expression_tree fl) as) = Inr as"
      using Cons rmap_trees [of as "transform_node_iter stof" "expression_tree fl" as_expression] by auto
    then show ?thesis using 12(2) Cons by (simp add: tree_simps tr_call_def tr_factor_def Let_def)
  qed
next
  case (13 P n)
  then show ?case by (cases n) (simp_all add: tree_simps tr_defs Let_def reads_backD [OF 13(2)])
qed (simp_all add: tree_simps tr_defs as_defs Let_def)

lemma transform_expressions:
  assumes "reads_back stof fl P" "expression_ok P e"
  shows "rbind (transform_node_iter stof (expression_tree fl e)) as_expression = Inr e"
  using transform_expression(1) [OF assms] by (simp add: as_expression_def)

lemma transform_var_declaration:
  assumes "var_declaration_ok d"
  shows "transform_node_iter stof (var_declaration_tree d) = Inr (NodeDeclaration (VarDeclaration d))"
proof -
  obtain t nm k where d: "d = ASTVarDeclaration t nm k" by (cases d)
  have t: "(if type_lexeme t = ''int'' then TYPE_INT else TYPE_FLOAT) = t"
    using assms d by (cases t; cases "(t, k)") (auto simp: type_lexeme_def elim: var_declaration_ok.elims)
  show ?thesis
  proof (cases k)
    case None
    then show ?thesis using assms d t by (simp add: tree_simps tr_defs type_specifier_def Let_def)
  next
    case (Some n)
    then show ?thesis using assms d t
      by (cases n) (simp_all add: tree_simps tr_defs type_specifier_def Let_def)
  qed
qed

lemma statement_wrap:
  "transform_node_iter stof (tree ''statement'' [t]) = transform_node_iter stof t"
  by (simp add: tree_simps)

lemma transform_statement:
  assumes rb: "reads_back stof fl P"
  shows "statement_ok P s \<Longrightarrow> transform_node_iter stof (statement_tree fl s) = Inr (NodeStatement s)"
  using rb
proof (induction P s rule: statement_ok.induct)
  case (1 P ds ss)
  have "rmap (\<lambda>t. rbind (transform_node_iter stof t) as_var_declaration) (map var_declaration_tree ds) = Inr ds"
    by (rule rmap_trees) (use 1(2) in \<open>auto simp: list_all_iff as_var_declaration_def transform_var_declaration\<close>)
  moreover have "rmap (\<lambda>t. rbind (transform_node_iter stof t) as_statement)
      (map (\<lambda>s. tree ''statement'' [statement_tree fl s]) ss) = Inr ss"
    by (rule rmap_trees) (use 1 in \<open>auto simp: list_all_iff as_statement_def statement_wrap\<close>)
  ultimately show ?case by (simp add: tree_simps tr_defs)
next
  case (2 P e)
  then show ?case using transform_expressions [OF 2(2)] by (cases e) (simp_all add: tree_simps tr_defs)
next
  case (3 P e s1 s2)
  have e: "rbind (transform_node_iter stof (expression_tree fl e)) as_expression = Inr e"
    using transform_expressions [OF 3(4)] 3(3) by simp
  have s1: "transform_node_iter stof (statement_tree fl s1) = Inr (NodeStatement s1)" using 3(1,3,4) by simp
  show ?case
  proof (cases s2)
    case None
    then show ?thesis using e s1 by (simp add: tree_simps tr_defs as_statement_def)
  next
    case (Some s)
    then have "transform_node_iter stof (statement_tree fl s) = Inr (NodeStatement s)" using 3(2-4) by simp
    then show ?thesis using e s1 Some by (simp add: tree_simps tr_defs as_statement_def)
  qed
next
  case (4 P e s)
  then show ?case using transform_expressions [OF 4(3)] by (simp add: tree_simps tr_defs as_statement_def)
next
  case (5 P e)
  then show ?case using transform_expressions [OF 5(2)] by (cases e) (simp_all add: tree_simps tr_defs)
qed

lemma transform_param:
  assumes "param_ok p"
  shows "rbind (transform_node_iter stof (param_tree p)) as_param = Inr p"
proof -
  obtain t nm a where p: "p = ASTParam t nm a" by (cases p)
  have "(if type_lexeme t = ''int'' then TYPE_INT else TYPE_FLOAT) = t"
    using assms p by (cases t) (auto simp: type_lexeme_def param_ok_def)
  then show ?thesis using assms p
    by (cases a) (simp_all add: tree_simps tr_defs type_specifier_def as_param_def param_ok_def)
qed

lemma transform_declaration:
  assumes rb: "reads_back stof fl P" and ok: "declaration_ok P d"
  shows "rbind (transform_node_iter stof (declaration_tree fl d)) as_declaration = Inr d"
proof (cases d)
  case (VarDeclaration v)
  then show ?thesis using ok transform_var_declaration [of v]
    by (simp add: tree_simps as_declaration_def)
next
  case (ASTFunDeclaration t nm ps body)
  have t: "(if type_lexeme t = ''int'' then TYPE_INT else if type_lexeme t = ''float'' then TYPE_FLOAT
      else TYPE_VOID) = t"
    by (cases t) (simp_all add: type_lexeme_def)
  obtain ds ss where body: "body = ASTCompoundStmt ds ss"
    using ok ASTFunDeclaration by (cases body) simp_all
  have b: "transform_node_iter stof (statement_tree fl body) = Inr (NodeStatement body)"
    using transform_statement [OF rb, of body] ok ASTFunDeclaration body by simp
  show ?thesis
  proof (cases ps)
    case Nil
    then show ?thesis using ok ASTFunDeclaration b body t
      by (simp add: tree_simps tr_fun_declaration_def type_specifier_def as_declaration_def
          as_compound_stmt_def Let_def del: statement_tree.simps)
  next
    case (Cons p qs)
    have ps: "rbind (transform_node_iter stof (param_tree q)) as_param = Inr q" if "q \<in> set ps" for q
      using transform_param ok ASTFunDeclaration that by (auto simp: list_all_iff)
    have "rmap (\<lambda>t. rbind (transform_node_iter stof t) as_param) (map param_tree qs) = Inr qs"
      using rmap_trees [of qs "transform_node_iter stof" param_tree as_param] ps Cons by auto
    then show ?thesis using ok ASTFunDeclaration b body t Cons ps [of p]
      by (simp add: tree_simps tr_fun_declaration_def type_specifier_def as_declaration_def
          as_compound_stmt_def Let_def del: statement_tree.simps)
  qed
qed

lemma transform_program:
  assumes rb: "reads_back stof fl P" and ok: "program_ok P p"
  shows "transform_node_iter stof (program_tree fl p) = Inr (NodeProgram p)"
proof -
  obtain d ds where p: "p = ASTProgram (d # ds)" using ok by (cases p; cases "declarations p") (auto simp: program_ok_def)
  have ds: "rbind (transform_node_iter stof (declaration_tree fl x)) as_declaration = Inr x" if "x \<in> set (d # ds)" for x
    using transform_declaration [OF rb] ok p that by (auto simp: program_ok_def list_all_iff)
  have "rmap (\<lambda>t. rbind (transform_node_iter stof t) as_declaration) (map (declaration_tree fl) ds) = Inr ds"
    by (rule rmap_trees) (use ds in auto)
  then show ?thesis using ds [of d] p by (simp add: program_tree_def tree_simps tr_program_def)
qed

end
