(* ===== verification/Ast_Printer.thy ===== *)
theory Ast_Printer
  imports Ast
begin

text \<open>
  The debug visitor \<^verbatim>\<open>ASTPrinter\<close> of \<^verbatim>\<open>ast.cpp\<close> with its state, the depth, and what it writes.
  The dispatch of \<^verbatim>\<open>accept\<close> on the dynamic type is the pattern match. \<open>sf\<close> stands for the
  output of a \<^verbatim>\<open>float\<close> to a stream.
\<close>

record printer =
  depth :: int
  out :: string

definition printer_init :: printer where
  "printer_init = \<lparr>depth = 0, out = []\<rparr>"

definition add_depth :: "printer \<Rightarrow> printer" where
  "add_depth p = p\<lparr>depth := depth p + 2\<rparr>"

definition remove_depth :: "printer \<Rightarrow> printer" where
  "remove_depth p = p\<lparr>depth := depth p - 2\<rparr>"

text \<open>\<^verbatim>\<open>_DEBUG_PRINT_N_(depth)\<close>, a text and the end of the line.\<close>

definition put_line :: "string \<Rightarrow> printer \<Rightarrow> printer" where
  "put_line s p = p\<lparr>out := out p @ replicate (nat (depth p)) CHR ''-'' @ s @ [CHR 0x0A]\<rparr>"

definition relop_text :: "RelOp \<Rightarrow> string" where
  "relop_text op = (if op = OP_LT then ''<'' else if op = OP_LE then ''<='' else if op = OP_GE then ''>=''
     else if op = OP_GT then ''>'' else if op = OP_EQ then ''=='' else ''!='')"

definition visit_num :: "('f \<Rightarrow> string) \<Rightarrow> 'f ASTNum \<Rightarrow> printer \<Rightarrow> printer" where
  "visit_num sf n = (case n of
       ASTNumInt k \<Rightarrow> put_line (''num (int): '' @ to_string k)
     | ASTNumFloat x \<Rightarrow> put_line (''num (float): '' @ sf x))"

fun visit_expression :: "('f \<Rightarrow> string) \<Rightarrow> 'f ASTExpression \<Rightarrow> printer \<Rightarrow> printer"
  and visit_var :: "('f \<Rightarrow> string) \<Rightarrow> 'f ASTVar \<Rightarrow> printer \<Rightarrow> printer"
  and visit_additive :: "('f \<Rightarrow> string) \<Rightarrow> 'f ASTAdditiveExpression \<Rightarrow> printer \<Rightarrow> printer"
  and visit_term :: "('f \<Rightarrow> string) \<Rightarrow> 'f ASTTerm \<Rightarrow> printer \<Rightarrow> printer"
  and visit_factor :: "('f \<Rightarrow> string) \<Rightarrow> 'f ASTFactor \<Rightarrow> printer \<Rightarrow> printer"
where
  "visit_expression sf (ASTAssignExpression v e) p =
     remove_depth (visit_expression sf e (visit_var sf v (add_depth (put_line ''assign-expression'' p))))"
| "visit_expression sf (ASTSimpleExpression a None) p =
     remove_depth (visit_additive sf a (add_depth (put_line ''simple-expression'' p)))"
| "visit_expression sf (ASTSimpleExpression a (Some (op, b))) p =
     remove_depth (visit_additive sf b (visit_additive sf a
       (add_depth (put_line (''simple-expression: '' @ relop_text op) p))))"
| "visit_var sf (ASTVar nm None) p = put_line (''var: '' @ nm) p"
| "visit_var sf (ASTVar nm (Some e)) p =
     remove_depth (visit_expression sf e (add_depth (put_line (''var: '' @ nm @ ''[]'') p)))"
| "visit_additive sf (ASTAdditiveExpression None t) p =
     remove_depth (visit_term sf t (add_depth (put_line ''additive-expression'' p)))"
| "visit_additive sf (ASTAdditiveExpression (Some (a, op)) t) p =
     remove_depth (visit_term sf t (visit_additive sf a (add_depth
       (put_line (''additive-expression: '' @ (if op = OP_PLUS then ''+'' else ''-'')) p))))"
| "visit_term sf (ASTTerm None f) p = remove_depth (visit_factor sf f (add_depth (put_line ''term'' p)))"
| "visit_term sf (ASTTerm (Some (t, op)) f) p =
     remove_depth (visit_factor sf f (visit_term sf t (add_depth
       (put_line (''term: '' @ (if op = OP_MUL then ''*'' else ''/'')) p))))"
| "visit_factor sf (FactorExpression e) p = visit_expression sf e p"
| "visit_factor sf (FactorVar v) p = visit_var sf v p"
| "visit_factor sf (FactorCall nm args) p =
     remove_depth (fold (visit_expression sf) args (add_depth (put_line (''call: '' @ nm @ ''()'') p)))"
| "visit_factor sf (FactorNum n) p = visit_num sf n p"

definition visit_var_declaration :: "('f \<Rightarrow> string) \<Rightarrow> 'f ASTVarDeclaration \<Rightarrow> printer \<Rightarrow> printer" where
  "visit_var_declaration sf d p = (case num d of
       None \<Rightarrow> put_line (''var-declaration: '' @ var_id d) p
     | Some n \<Rightarrow> remove_depth (visit_num sf n (add_depth (put_line (''var-declaration: '' @ var_id d @ ''[]'') p))))"

fun visit_statement :: "('f \<Rightarrow> string) \<Rightarrow> 'f ASTStatement \<Rightarrow> printer \<Rightarrow> printer" where
  "visit_statement sf (ASTCompoundStmt ds ss) p =
     remove_depth (fold (visit_statement sf) ss (fold (visit_var_declaration sf) ds
       (add_depth (put_line ''compound-stmt'' p))))"
| "visit_statement sf (ASTExpressionStmt e) p =
     remove_depth ((case e of Some e \<Rightarrow> visit_expression sf e | None \<Rightarrow> (\<lambda>p. p))
       (add_depth (put_line ''expression-stmt'' p)))"
| "visit_statement sf (ASTSelectionStmt e s1 s2) p =
     remove_depth ((case s2 of Some s2 \<Rightarrow> visit_statement sf s2 | None \<Rightarrow> (\<lambda>p. p))
       (visit_statement sf s1 (visit_expression sf e (add_depth (put_line ''selection-stmt'' p)))))"
| "visit_statement sf (ASTIterationStmt e s) p =
     remove_depth (visit_statement sf s (visit_expression sf e (add_depth (put_line ''iteration-stmt'' p))))"
| "visit_statement sf (ASTReturnStmt None) p = put_line ''return-stmt: void'' p"
| "visit_statement sf (ASTReturnStmt (Some e)) p =
     remove_depth (visit_expression sf e (add_depth (put_line ''return-stmt'' p)))"

definition visit_param :: "ASTParam \<Rightarrow> printer \<Rightarrow> printer" where
  "visit_param q = put_line (''param: '' @ param_id q @ (if isarray q then ''[]'' else []))"

fun visit_declaration :: "('f \<Rightarrow> string) \<Rightarrow> 'f ASTDeclaration \<Rightarrow> printer \<Rightarrow> printer" where
  "visit_declaration sf (VarDeclaration d) p = visit_var_declaration sf d p"
| "visit_declaration sf (ASTFunDeclaration t nm ps body) p =
     remove_depth (visit_statement sf body (fold visit_param ps
       (add_depth (put_line (''fun-declaration: '' @ nm) p))))"

definition visit_program :: "('f \<Rightarrow> string) \<Rightarrow> 'f ASTProgram \<Rightarrow> printer \<Rightarrow> printer" where
  "visit_program sf pr p =
     remove_depth (fold (visit_declaration sf) (declarations pr) (add_depth (put_line ''program'' p)))"

section \<open>Every visit restores the depth\<close>

text \<open>
  \<open>prints f\<close>: from any depth, \<open>f\<close> appends a text that depends on the depth only, and leaves
  the depth as it found it.
\<close>

definition prints :: "(printer \<Rightarrow> printer) \<Rightarrow> bool" where
  "prints f \<longleftrightarrow> (\<exists>text. \<forall>p. f p = p\<lparr>out := out p @ text (depth p)\<rparr>)"

lemma printsI: "(\<And>p. f p = p\<lparr>out := out p @ text (depth p)\<rparr>) \<Longrightarrow> prints f"
  by (auto simp: prints_def)

lemma prints_line: "prints (put_line s)"
  by (rule printsI) (simp add: put_line_def)

lemma prints_id: "prints (\<lambda>p. p)"
  by (rule printsI [of _ "\<lambda>_. []"]) simp

lemma prints_comp:
  assumes "prints f" "prints g"
  shows "prints (g \<circ> f)"
proof -
  obtain s t where "\<And>p. f p = p\<lparr>out := out p @ s (depth p)\<rparr>" "\<And>p. g p = p\<lparr>out := out p @ t (depth p)\<rparr>"
    using assms unfolding prints_def by blast
  then show ?thesis by (intro printsI [of _ "\<lambda>d. s d @ t d"]) simp
qed

lemma prints_fold:
  assumes "\<And>x. x \<in> set xs \<Longrightarrow> prints (f x)"
  shows "prints (fold f xs)"
  using assms
proof (induction xs)
  case (Cons x xs)
  then have "prints (fold f xs \<circ> f x)" by (intro prints_comp) auto
  then show ?case by (simp add: comp_def)
qed (simp add: prints_id id_def)

lemma prints_nested:
  assumes "prints f"
  shows "prints (remove_depth \<circ> f \<circ> add_depth \<circ> put_line s)"
proof -
  obtain t where "\<And>p. f p = p\<lparr>out := out p @ t (depth p)\<rparr>" using assms unfolding prints_def by blast
  then show ?thesis
    by (intro printsI [of _ "\<lambda>d. replicate (nat d) CHR ''-'' @ s @ [CHR 0x0A] @ t (d + 2)"])
      (simp add: put_line_def add_depth_def remove_depth_def)
qed

lemma visit_num_prints: "prints (visit_num sf n)"
  by (cases n) (simp_all add: visit_num_def prints_line)

lemma prints_eqI: "prints g \<Longrightarrow> (\<And>p. f p = g p) \<Longrightarrow> prints f"
  by (simp add: prints_def)

lemma visit_expression_prints:
  "prints (visit_expression sf e)" "prints (visit_var sf v)" "prints (visit_additive sf a)"
  "prints (visit_term sf t)" "prints (visit_factor sf f)"
proof (induction e and v and a and t and f)
  case (ASTAssignExpression v e)
  then have "prints (visit_expression sf e \<circ> visit_var sf v)" by (intro prints_comp)
  from prints_nested [OF this] show ?case by (rule prints_eqI) simp
next
  case (ASTSimpleExpression a r)
  show ?case
  proof (cases r)
    case None
    from prints_nested [OF ASTSimpleExpression(1)] show ?thesis
      by (rule prints_eqI) (simp add: None)
  next
    case (Some ob)
    obtain op b where ob: "ob = (op, b)" by (cases ob)
    have "prints (visit_additive sf b)" using ASTSimpleExpression(2) [of ob b] Some ob by auto
    from prints_nested [OF prints_comp [OF ASTSimpleExpression(1) this]] show ?thesis
      by (rule prints_eqI) (simp add: Some ob)
  qed
next
  case (ASTVar nm e)
  show ?case
  proof (cases e)
    case None
    show ?thesis by (rule prints_eqI [OF prints_line [of "''var: '' @ nm"]]) (simp add: None)
  next
    case (Some e')
    then have "prints (visit_expression sf e')" using ASTVar by auto
    from prints_nested [OF this] show ?thesis by (rule prints_eqI) (simp add: Some)
  qed
next
  case (ASTAdditiveExpression r t)
  show ?case
  proof (cases r)
    case None
    from prints_nested [OF ASTAdditiveExpression(2)] show ?thesis
      by (rule prints_eqI) (simp add: None)
  next
    case (Some ao)
    obtain a op where ao: "ao = (a, op)" by (cases ao)
    have "prints (visit_additive sf a)" using ASTAdditiveExpression(1) [of ao a] Some ao by auto
    from prints_nested [OF prints_comp [OF this ASTAdditiveExpression(2)]] show ?thesis
      by (rule prints_eqI) (simp add: Some ao)
  qed
next
  case (ASTTerm r f)
  show ?case
  proof (cases r)
    case None
    from prints_nested [OF ASTTerm(2)] show ?thesis by (rule prints_eqI) (simp add: None)
  next
    case (Some ao)
    obtain t op where ao: "ao = (t, op)" by (cases ao)
    have "prints (visit_term sf t)" using ASTTerm(1) [of ao t] Some ao by auto
    from prints_nested [OF prints_comp [OF this ASTTerm(2)]] show ?thesis
      by (rule prints_eqI) (simp add: Some ao)
  qed
next
  case (FactorExpression e)
  then show ?case by (rule prints_eqI) simp
next
  case (FactorVar v)
  then show ?case by (rule prints_eqI) simp
next
  case (FactorCall nm args)
  then have "prints (fold (visit_expression sf) args)" by (intro prints_fold) auto
  from prints_nested [OF this] show ?case by (rule prints_eqI) simp
next
  case (FactorNum n)
  show ?case by (rule prints_eqI [OF visit_num_prints]) simp
qed

lemma visit_var_declaration_prints: "prints (visit_var_declaration sf d)"
proof (cases "num d")
  case None
  show ?thesis
    by (rule prints_eqI [OF prints_line]) (simp add: visit_var_declaration_def None)
next
  case (Some n)
  show ?thesis
    by (rule prints_eqI [OF prints_nested [OF visit_num_prints]]) (simp add: visit_var_declaration_def Some)
qed

lemma visit_statement_prints: "prints (visit_statement sf s)"
proof (induction s)
  case (ASTCompoundStmt ds ss)
  then have "prints (fold (visit_statement sf) ss \<circ> fold (visit_var_declaration sf) ds)"
    by (intro prints_comp prints_fold visit_var_declaration_prints) auto
  from prints_nested [OF this] show ?case by (rule prints_eqI) simp
next
  case (ASTExpressionStmt e)
  have "prints (case e of Some e \<Rightarrow> visit_expression sf e | None \<Rightarrow> (\<lambda>p. p))"
    by (cases e) (simp_all add: prints_id visit_expression_prints)
  from prints_nested [OF this] show ?case by (rule prints_eqI) simp
next
  case (ASTSelectionStmt e s1 s2)
  have "prints (case s2 of Some s2 \<Rightarrow> visit_statement sf s2 | None \<Rightarrow> (\<lambda>p. p))"
    using ASTSelectionStmt(2) by (cases s2) (simp_all add: prints_id)
  from prints_nested [OF prints_comp [OF prints_comp [OF visit_expression_prints(1) ASTSelectionStmt(1)] this]]
  show ?case by (rule prints_eqI) simp
next
  case (ASTIterationStmt e s)
  from prints_nested [OF prints_comp [OF visit_expression_prints(1) this]]
  show ?case by (rule prints_eqI) simp
next
  case (ASTReturnStmt e)
  show ?case
  proof (cases e)
    case None
    show ?thesis by (rule prints_eqI [OF prints_line]) (simp add: None)
  next
    case (Some e')
    show ?thesis by (rule prints_eqI [OF prints_nested [OF visit_expression_prints(1)]]) (simp add: Some)
  qed
qed

lemma visit_param_prints: "prints (visit_param q)"
  by (simp add: visit_param_def prints_line)

lemma visit_declaration_prints: "prints (visit_declaration sf d)"
proof (cases d)
  case (VarDeclaration v)
  show ?thesis by (rule prints_eqI [OF visit_var_declaration_prints]) (simp add: VarDeclaration)
next
  case (ASTFunDeclaration t nm ps body)
  have "prints (visit_statement sf body \<circ> fold visit_param ps)"
    by (intro prints_comp prints_fold visit_param_prints visit_statement_prints)
  from prints_nested [OF this] show ?thesis by (rule prints_eqI) (simp add: ASTFunDeclaration)
qed

lemma visit_program_prints: "prints (visit_program sf pr)"
proof -
  have "prints (fold (visit_declaration sf) (declarations pr))"
    by (intro prints_fold visit_declaration_prints)
  from prints_nested [OF this] show ?thesis by (rule prints_eqI) (simp add: visit_program_def)
qed

end
