(* ===== verification/Ast_Properties.thy ===== *)
theory Ast_Properties
  imports Ast_Roundtrip Ast_Printer
begin

text \<open>
  The properties of the syntax trees: building nodes, the round trip through the concrete
  tree, the texts and numbers it cannot hold, and the debug visitor.
\<close>

section \<open>An example program\<close>

text \<open>
  Floating-point numbers of the example are the numbers of hundredths; their texts are digits
  followed by a point.
\<close>

definition example_fl :: "nat \<Rightarrow> string" where
  "example_fl x = digits x @ ''.''"

definition example_stof :: "string \<Rightarrow> nat result" where
  "example_stof s = (let ds = takeWhile is_digit s in
     if ds = [] then Inl InvalidArgument else Inr (nat (decimal ds)))"

lemma example_reads_back: "reads_back example_stof example_fl (\<lambda>x. x < 1000)"
  unfolding reads_back_def
proof (intro allI impI conjI)
  fix x :: nat
  assume "x < 1000"
  then have "length (digits x) \<le> 3" by (intro digits_length) simp_all
  then show "short (example_fl x)"
    by (simp add: example_fl_def short_def SYNTAX_TREE_NODE_NAME_MAX_def)
  have "takeWhile is_digit (digits x @ ''.'') = digits x"
    using digits_spec [of x] by (simp add: takeWhile_append2 list_all_iff is_digit_def)
  then show "example_stof (example_fl x) = Inr x"
    using digits_spec [of x] by (simp add: example_stof_def example_fl_def)
qed

definition number :: "i32 \<Rightarrow> 'f ASTExpression" where
  "number k = ASTSimpleExpression (ASTAdditiveExpression None (ASTTerm None (FactorNum (ASTNumInt k)))) None"

text \<open>\<^verbatim>\<open>float a[8]; int f(int n) { while (n < 2) { a[0] = 5. * f(n, 1); } return n + 1; }\<close>\<close>

definition example_program :: "nat ASTProgram" where
  "example_program = (let n = ASTTerm None (FactorVar (ASTVar ''n'' None)) in ASTProgram
     [VarDeclaration (ASTVarDeclaration TYPE_FLOAT ''a'' (Some (ASTNumInt 8))),
      ASTFunDeclaration TYPE_INT ''f'' [ASTParam TYPE_INT ''n'' False]
        (ASTCompoundStmt [] [
          ASTIterationStmt (ASTSimpleExpression (ASTAdditiveExpression None n)
              (Some (OP_LT, ASTAdditiveExpression None (ASTTerm None (FactorNum (ASTNumInt 2))))))
            (ASTCompoundStmt [] [ASTExpressionStmt (Some (ASTAssignExpression (ASTVar ''a'' (Some (number 0)))
              (ASTSimpleExpression (ASTAdditiveExpression None
                (ASTTerm (Some (ASTTerm None (FactorNum (ASTNumFloat 5)), OP_MUL))
                  (FactorCall ''f'' [ASTSimpleExpression (ASTAdditiveExpression None n) None, number 1]))) None)))]),
          ASTReturnStmt (Some (ASTSimpleExpression (ASTAdditiveExpression
            (Some (ASTAdditiveExpression None n, OP_PLUS)) (ASTTerm None (FactorNum (ASTNumInt 1)))) None))])])"

lemma example_program_ok: "program_ok (\<lambda>x. x < 1000) example_program"
  by (simp add: example_program_def program_ok_def number_def param_ok_def short_def
      SYNTAX_TREE_NODE_NAME_MAX_def Let_def)

section \<open>Properties\<close>

text \<open>
  C13. For every program whose texts fit the buffer of a node, whose numbers fit \<^verbatim>\<open>int\<close> and
  whose variables are not \<^verbatim>\<open>void\<close>, \<^verbatim>\<open>AST\<close> turns the tree that the grammar actions build back
  into that program: no cast goes wrong, no child is missing and no text is changed.
\<close>

theorem ast_roundtrip:
  assumes "reads_back stof fl P" "program_ok P p"
  shows "AST stof (Some (Some (program_tree fl p))) = Inr p"
  using transform_program [OF assms] by (simp add: AST_def as_program_def)

theorem ast_roundtrip_witness:
  "AST example_stof (Some (Some (program_tree example_fl example_program))) = Inr example_program"
  by (rule ast_roundtrip [OF example_reads_back example_program_ok])

text \<open>
  A variable declared \<^verbatim>\<open>void\<close>, which the grammar allows, becomes a variable of type
  \<^verbatim>\<open>float\<close>, and so does a parameter.
\<close>

theorem void_becomes_float:
  assumes "short nm"
  shows "transform_node_iter stof (var_declaration_tree (ASTVarDeclaration TYPE_VOID nm None)) =
      Inr (NodeDeclaration (VarDeclaration (ASTVarDeclaration TYPE_FLOAT nm None))) \<and>
    transform_node_iter stof (param_tree (ASTParam TYPE_VOID nm arr)) = Inr (NodeParam (ASTParam TYPE_FLOAT nm arr))"
  using assms by (cases arr) (simp_all add: tree_simps tr_defs type_specifier_def type_lexeme_def Let_def)

theorem void_becomes_float_witness:
  "transform_node_iter example_stof (param_tree (ASTParam TYPE_VOID ''x'' True)) =
     Inr (NodeParam (ASTParam TYPE_FLOAT ''x'' True))"
  using void_becomes_float [of "''x''" example_stof True]
  by (simp add: short_def SYNTAX_TREE_NODE_NAME_MAX_def)

text \<open>
  \<^verbatim>\<open>node\<close> builds a node with the given children in order, or with the child
  \<^verbatim>\<open>epsilon\<close> when there are none, as long as the array of ten children is not exceeded;
  with more children it writes past the array.
\<close>

theorem node_children:
  "node name cs =
     (if length cs \<le> max_children
      then Inr (Node (take SYNTAX_TREE_NODE_NAME_MAX name) (if cs = [] then [epsilon] else cs))
      else Inl UndefinedBehaviour)"
proof (cases "length cs \<le> max_children")
  case True
  then show ?thesis by (simp add: node_tree tree_def)
next
  case False
  define xs where "xs = take max_children cs"
  obtain y ys where ys: "drop max_children cs = y # ys" using False by (cases "drop max_children cs") auto
  have cs: "cs = xs @ y # ys" using append_take_drop_id [of max_children cs] ys by (simp add: xs_def)
  have xs: "length xs = max_children" using False by (simp add: xs_def)
  have "rfold (\<lambda>c p. rbind (syntax_tree_add_child p (Some c)) (\<lambda>r. Inr (snd r))) xs (Some (Node b [])) =
      Inr (Some (Node b xs))" for b
    using add_children [of "[]" xs b] xs by simp
  then show ?thesis using False cs xs
    by (simp add: node_def rfold_append new_syntax_tree_node_def syntax_tree_add_child_def)
qed


end
