(* ===== verification/Lexer.thy ===== *)
theory Lexer
  imports Syntax_Tree "HOL-Library.Sublist"
begin

text \<open>
  The scanner of \<^verbatim>\<open>lexical_analyzer.l\<close>: its patterns and actions in their order, and what flex makes
  of them. The pattern that matches the longest prefix of the input is taken, the first of these
  when there are several, and a character that no pattern matches is copied to the standard output.
\<close>

section \<open>Patterns\<close>

datatype regex =
    Never
  | Epsilon
  | Class "char \<Rightarrow> bool"
  | Seq regex regex
  | Or regex regex
  | Star regex

definition lit :: "string \<Rightarrow> regex" where
  "lit s = foldr (\<lambda>c. Seq (Class ((=) c))) s Epsilon"

definition plus_of :: "regex \<Rightarrow> regex" where
  "plus_of r = Seq r (Star r)"

inductive matches :: "regex \<Rightarrow> string \<Rightarrow> bool" where
  matches_epsilon: "matches Epsilon []"
| matches_class: "P c \<Longrightarrow> matches (Class P) [c]"
| matches_seq: "matches r u \<Longrightarrow> matches s v \<Longrightarrow> matches (Seq r s) (u @ v)"
| matches_left: "matches r u \<Longrightarrow> matches (Or r s) u"
| matches_right: "matches s u \<Longrightarrow> matches (Or r s) u"
| matches_stop: "matches (Star r) []"
| matches_step: "matches r u \<Longrightarrow> matches (Star r) v \<Longrightarrow> matches (Star r) (u @ v)"

inductive_cases matches_NeverE [elim!]: "matches Never w"

inductive_simps matches_simps [simp]:
  "matches Epsilon w" "matches (Class P) w" "matches (Or r s) w"

inductive_simps matches_Seq: "matches (Seq r s) w"

text \<open>The longest prefix that matches, found with derivatives.\<close>

fun nullable :: "regex \<Rightarrow> bool" where
  "nullable Never = False"
| "nullable Epsilon = True"
| "nullable (Class P) = False"
| "nullable (Seq r s) = (nullable r \<and> nullable s)"
| "nullable (Or r s) = (nullable r \<or> nullable s)"
| "nullable (Star r) = True"

fun deriv :: "char \<Rightarrow> regex \<Rightarrow> regex" where
  "deriv c Never = Never"
| "deriv c Epsilon = Never"
| "deriv c (Class P) = (if P c then Epsilon else Never)"
| "deriv c (Seq r s) = (if nullable r then Or (Seq (deriv c r) s) (deriv c s) else Seq (deriv c r) s)"
| "deriv c (Or r s) = Or (deriv c r) (deriv c s)"
| "deriv c (Star r) = Seq (deriv c r) (Star r)"

fun longest :: "regex \<Rightarrow> string \<Rightarrow> nat option" where
  "longest r [] = (if nullable r then Some 0 else None)"
| "longest r (c # cs) = (case longest (deriv c r) cs of
       Some n \<Rightarrow> Some (Suc n)
     | None \<Rightarrow> if nullable r then Some 0 else None)"

lemma nullable_matches: "nullable r \<longleftrightarrow> matches r []"
  by (induction r) (auto simp: matches_Seq intro: matches_stop)

lemma matches_star_cons:
  "matches (Star r) w \<Longrightarrow> w = c # v \<Longrightarrow> \<exists>u u'. v = u @ u' \<and> matches r (c # u) \<and> matches (Star r) u'"
proof (induction "Star r" w arbitrary: v rule: matches.induct)
  case (matches_step x y)
  then show ?case by (cases x) auto
qed simp

lemma deriv_matches: "matches (deriv c r) w \<longleftrightarrow> matches r (c # w)"
proof (induction r arbitrary: w)
  case (Seq r s)
  show ?case
    by (auto simp: matches_Seq Seq nullable_matches append_eq_Cons_conv Cons_eq_append_conv)
next
  case (Star r)
  show ?case
  proof
    assume "matches (deriv c (Star r)) w"
    then show "matches (Star r) (c # w)"
      using matches_step [of r "c # _"] by (auto simp: matches_Seq Star)
  next
    assume "matches (Star r) (c # w)"
    then show "matches (deriv c (Star r)) w"
      using matches_star_cons by (fastforce simp: matches_Seq Star)
  qed
qed auto

lemma longest_None: "longest r s = None \<longleftrightarrow> (\<forall>k \<le> length s. \<not> matches r (take k s))"
proof (induction s arbitrary: r)
  case (Cons c cs)
  have "(\<forall>k \<le> Suc n. P k) \<longleftrightarrow> P 0 \<and> (\<forall>k \<le> n. P (Suc k))" for P n
    by (metis Suc_le_mono le0 not0_implies_Suc)
  then have "(\<forall>k \<le> length (c # cs). \<not> matches r (take k (c # cs))) \<longleftrightarrow>
      \<not> nullable r \<and> (\<forall>k \<le> length cs. \<not> matches (deriv c r) (take k cs))"
    by (simp add: nullable_matches deriv_matches)
  then show ?case using Cons.IH [of "deriv c r"] by (auto split: option.splits)
qed (auto simp: nullable_matches)

lemma longest_matches: "longest r s = Some n \<Longrightarrow> n \<le> length s \<and> matches r (take n s)"
proof (induction s arbitrary: r n)
  case (Cons c cs)
  show ?case
  proof (cases "longest (deriv c r) cs")
    case (Some k)
    then show ?thesis using Cons.IH [OF Some] Cons.prems by (auto simp: deriv_matches)
  qed (use Cons.prems in \<open>auto simp: nullable_matches split: if_splits\<close>)
qed (auto simp: nullable_matches split: if_splits)

lemma longest_maximal: "longest r s = Some n \<Longrightarrow> matches r (take k s) \<Longrightarrow> k \<le> length s \<Longrightarrow> k \<le> n"
proof (induction s arbitrary: r n k)
  case (Cons c cs)
  show ?case
  proof (cases k)
    case (Suc j)
    then have j: "matches (deriv c r) (take j cs)" "j \<le> length cs" using Cons.prems by (auto simp: deriv_matches)
    then obtain i where i: "longest (deriv c r) cs = Some i" using longest_None [of "deriv c r" cs] by fastforce
    then show ?thesis using Cons.IH [OF i j] Cons.prems(1) Suc by simp
  qed simp
qed simp

lemma longest_Some:
  "longest r s = Some n \<longleftrightarrow> n \<le> length s \<and> matches r (take n s) \<and> (\<forall>k \<le> length s. matches r (take k s) \<longrightarrow> k \<le> n)"
proof
  show "longest r s = Some n \<Longrightarrow> n \<le> length s \<and> matches r (take n s) \<and> (\<forall>k \<le> length s. matches r (take k s) \<longrightarrow> k \<le> n)"
    using longest_matches longest_maximal by blast
next
  assume best: "n \<le> length s \<and> matches r (take n s) \<and> (\<forall>k \<le> length s. matches r (take k s) \<longrightarrow> k \<le> n)"
  then obtain m where m: "longest r s = Some m" using longest_None [of r s] by fastforce
  then have "m \<le> n" "n \<le> m" using best longest_matches [OF m] longest_maximal [OF m] by auto
  then show "longest r s = Some n" using m by simp
qed

declare longest.simps(2) [simp del]

text \<open>The characters that can occur in a match.\<close>

fun may_use :: "regex \<Rightarrow> char \<Rightarrow> bool" where
  "may_use Never c = False"
| "may_use Epsilon c = False"
| "may_use (Class P) c = P c"
| "may_use (Seq r s) c = (may_use r c \<or> may_use s c)"
| "may_use (Or r s) c = (may_use r c \<or> may_use s c)"
| "may_use (Star r) c = may_use r c"

lemma matches_may_use: "matches r w \<Longrightarrow> c \<in> set w \<Longrightarrow> may_use r c"
  by (induction rule: matches.induct) auto

lemma may_use_lit [simp]: "may_use (lit s) c \<longleftrightarrow> c \<in> set s"
  by (induction s) (auto simp: lit_def)

lemma matches_lit [simp]: "matches (lit s) w \<longleftrightarrow> w = s"
  by (induction s arbitrary: w) (auto simp: lit_def matches_Seq)

section \<open>The rules\<close>

text \<open>The tokens; \<open>INT_TYPE\<close> and \<open>FLOAT_TYPE\<close> are \<^verbatim>\<open>INT\<close> and \<^verbatim>\<open>FLOAT\<close> of the grammar. Its
  tokens \<^verbatim>\<open>ERROR\<close> and \<^verbatim>\<open>LETTER\<close> are missing: no action returns them and no production has them.\<close>

datatype token =
    ADD | SUB | MUL | DIV | LT | LTE | GT | GTE | EQ | NEQ | ASSIN | SEMICOLON | COMMA | LPARENTHESE | RPARENTHESE
  | LBRACKET | RBRACKET | LBRACE | RBRACE | ELSE | IF | INT_TYPE | RETURN | VOID | WHILE | FLOAT_TYPE
  | IDENTIFIER | INTEGER | FLOATPOINT

definition digit :: "char \<Rightarrow> bool" where
  "digit c \<longleftrightarrow> 48 \<le> (of_char c :: nat) \<and> (of_char c :: nat) \<le> 57"

definition letter :: "char \<Rightarrow> bool" where
  "letter c \<longleftrightarrow> 97 \<le> (of_char c :: nat) \<and> (of_char c :: nat) \<le> 122 \<or> 65 \<le> (of_char c :: nat) \<and> (of_char c :: nat) \<le> 90"

definition pattern_INTEGER :: regex where
  "pattern_INTEGER = plus_of (Class digit)"

definition pattern_FLOATPOINT :: regex where
  "pattern_FLOATPOINT = Or (Seq (plus_of (Class digit)) (lit ''.''))
     (Seq (Star (Class digit)) (Seq (lit ''.'') (plus_of (Class digit))))"

definition pattern_ID :: regex where
  "pattern_ID = plus_of (Class letter)"

datatype action =
    Return token
  | Blank
  | NewLine
  | BeginComment
  | EatComment
  | CommentLine
  | EndComment

abbreviation newline :: char where
  "newline \<equiv> CHR 0x0A"

definition initial_rules :: "(regex \<times> action) list" where
  "initial_rules =
     [(lit ''+'', Return ADD), (lit ''-'', Return SUB), (lit ''*'', Return MUL), (lit ''/'', Return DIV),
      (lit ''<='', Return LTE), (lit ''<'', Return LT), (lit ''>='', Return GTE), (lit ''>'', Return GT),
      (lit ''=='', Return EQ), (lit ''!='', Return NEQ), (lit ''='', Return ASSIN), (lit '';'', Return SEMICOLON),
      (lit '','', Return COMMA), (lit ''('', Return LPARENTHESE), (lit '')'', Return RPARENTHESE),
      (lit ''['', Return LBRACKET), (lit '']'', Return RBRACKET), (lit ''{'', Return LBRACE), (lit ''}'', Return RBRACE),
      (lit ''else'', Return ELSE), (lit ''if'', Return IF), (lit ''int'', Return INT_TYPE), (lit ''return'', Return RETURN),
      (lit ''void'', Return VOID), (lit ''while'', Return WHILE), (lit ''float'', Return FLOAT_TYPE),
      (pattern_ID, Return IDENTIFIER), (pattern_INTEGER, Return INTEGER), (pattern_FLOATPOINT, Return FLOATPOINT),
      (lit [CHR 0x09], Blank), (lit [newline], NewLine), (lit '' '', Blank), (lit ''/*'', BeginComment)]"

text \<open>The rules of the exclusive start condition \<^verbatim>\<open>comment\<close>.\<close>

definition comment_rules :: "(regex \<times> action) list" where
  "comment_rules =
     [(Star (Class (\<lambda>c. c \<noteq> CHR ''*'' \<and> c \<noteq> newline)), EatComment),
      (Seq (plus_of (lit ''*'')) (Star (Class (\<lambda>c. c \<noteq> CHR ''*'' \<and> c \<noteq> CHR ''/'' \<and> c \<noteq> newline))), EatComment),
      (lit [newline], CommentLine),
      (Seq (plus_of (lit ''*'')) (lit ''/''), EndComment)]"

section \<open>The scanner\<close>

text \<open>The global variables, the start condition and what was copied to the standard output.\<close>

record lexer =
  lines :: int
  pos_start :: int
  pos_end :: int
  in_comment :: bool
  echoed :: string

text \<open>The longest match and its action.\<close>

fun best_match :: "(regex \<times> action) list \<Rightarrow> string \<Rightarrow> (nat \<times> action) option" where
  "best_match [] s = None"
| "best_match ((r, a) # rs) s =
     (case longest r s of
        None \<Rightarrow> best_match rs s
      | Some n \<Rightarrow> (case best_match rs s of
            None \<Rightarrow> Some (n, a)
          | Some (k, b) \<Rightarrow> if k \<le> n then Some (n, a) else Some (k, b)))"

definition rules :: "lexer \<Rightarrow> (regex \<times> action) list" where
  "rules st = (if in_comment st then comment_rules else initial_rules)"

text \<open>What an action does to the variables; \<open>yytext\<close> is the text that was matched.\<close>

definition act :: "action \<Rightarrow> string \<Rightarrow> lexer \<Rightarrow> lexer" where
  "act a yytext st = (case a of
       Return _ \<Rightarrow> st\<lparr>pos_start := pos_end st, pos_end := pos_end st + int (length yytext)\<rparr>
     | Blank \<Rightarrow> st\<lparr>pos_start := pos_end st, pos_end := pos_end st + int (length yytext)\<rparr>
     | NewLine \<Rightarrow> st\<lparr>lines := lines st + 1, pos_start := 1, pos_end := 1\<rparr>
     | BeginComment \<Rightarrow> st\<lparr>in_comment := True\<rparr>
     | EatComment \<Rightarrow> st
     | CommentLine \<Rightarrow> st\<lparr>lines := lines st + 1\<rparr>
     | EndComment \<Rightarrow> st\<lparr>in_comment := False\<rparr>)"

text \<open>
  The pattern that is taken, with the length of its match less one. An empty match is never the
  longest one here, as another pattern of the same start condition matches the next character.
\<close>

definition next_match :: "lexer \<Rightarrow> string \<Rightarrow> (nat \<times> action) option" where
  "next_match st s = (case best_match (rules st) s of Some (Suc n, a) \<Rightarrow> Some (n, a) | _ \<Rightarrow> None)"

text \<open>
  \<^verbatim>\<open>yylex\<close>: the next token with its text, or \<open>None\<close> at the end of the file, and the rest of the
  input.
\<close>

function yylex :: "lexer \<Rightarrow> string \<Rightarrow> (token \<times> string) option \<times> lexer \<times> string" where
  "yylex st [] = (None, st, [])"
| "yylex st (c # cs) =
     (case next_match st (c # cs) of
        Some (n, a) \<Rightarrow>
          (let yytext = c # take n cs; st' = act a yytext st; rest = drop n cs in
           case a of Return t \<Rightarrow> (Some (t, yytext), st', rest) | _ \<Rightarrow> yylex st' rest)
      | None \<Rightarrow> yylex (st\<lparr>echoed := echoed st @ [c]\<rparr>) cs)"
  by pat_completeness auto

termination
  by (relation "measure (\<lambda>(st, s). length s)") auto

declare yylex.simps(2) [simp del]

lemma yylex_return:
  "next_match st (c # cs) = Some (n, Return t) \<Longrightarrow>
     yylex st (c # cs) = (Some (t, c # take n cs), act (Return t) (c # take n cs) st, drop n cs)"
  by (simp add: yylex.simps(2) Let_def)

lemma yylex_skip:
  "next_match st (c # cs) = Some (n, a) \<Longrightarrow> (\<And>t. a \<noteq> Return t) \<Longrightarrow>
     yylex st (c # cs) = yylex (act a (c # take n cs) st) (drop n cs)"
  by (cases a) (auto simp: yylex.simps(2) Let_def)

lemma yylex_echo:
  "next_match st (c # cs) = None \<Longrightarrow> yylex st (c # cs) = yylex (st\<lparr>echoed := echoed st @ [c]\<rparr>) cs"
  by (simp add: yylex.simps(2))

text \<open>The calls of \<^verbatim>\<open>yylex\<close> until the end of the file, with the positions of each token.\<close>

lemma yylex_shorter: "yylex st s = (Some t, st', rest) \<Longrightarrow> length rest < length s"
proof (induction "length s" arbitrary: st s rule: less_induct)
  case less
  show ?case
  proof (cases s)
    case (Cons c cs)
    consider (none) "next_match st s = None" | (ret) n t' where "next_match st s = Some (n, Return t')"
      | (skip) n a where "next_match st s = Some (n, a)" "\<And>t. a \<noteq> Return t"
      by (metis option.exhaust surj_pair)
    then show ?thesis
    proof cases
      case none
      then show ?thesis using less Cons yylex_echo by fastforce
    next
      case ret
      then show ?thesis using less.prems Cons by (auto simp: yylex_return)
    next
      case skip
      then have "length rest < length (drop n cs)" using less.prems less.hyps [of "drop n cs"] Cons yylex_skip [of st c cs n a] by simp
      then show ?thesis using Cons by simp
    qed
  qed (use less.prems in simp)
qed

function scan :: "lexer \<Rightarrow> string \<Rightarrow> (token \<times> string \<times> int \<times> int \<times> int) list \<times> lexer" where
  "scan st s = (case yylex st s of
       (None, st', _) \<Rightarrow> ([], st')
     | (Some (t, yytext), st', rest) \<Rightarrow> (case scan st' rest of
         (ts, st'') \<Rightarrow> ((t, yytext, lines st', pos_start st', pos_end st') # ts, st'')))"
  by pat_completeness auto

termination
  by (relation "measure (\<lambda>(st, s). length s)") (auto dest: yylex_shorter [OF sym])

declare scan.simps [simp del]

lemma scan_end [simp]: "scan st [] = ([], st)"
  by (simp add: scan.simps)

lemma scan_return:
  "next_match st (c # cs) = Some (n, Return t) \<Longrightarrow> act (Return t) (c # take n cs) st = st' \<Longrightarrow>
     scan st (c # cs) = ((t, c # take n cs, lines st', pos_start st', pos_end st') # fst (scan st' (drop n cs)),
       snd (scan st' (drop n cs)))"
  by (simp add: scan.simps [of st "c # cs"] yylex_return split: prod.split)

lemma scan_skip:
  "next_match st (c # cs) = Some (n, a) \<Longrightarrow> (\<And>t. a \<noteq> Return t) \<Longrightarrow>
     scan st (c # cs) = scan (act a (c # take n cs) st) (drop n cs)"
  by (simp add: scan.simps [of st "c # cs"] scan.simps [of "act a (c # take n cs) st" "drop n cs"] yylex_skip)

lemma scan_echo:
  "next_match st (c # cs) = None \<Longrightarrow> scan st (c # cs) = scan (st\<lparr>echoed := echoed st @ [c]\<rparr>) cs"
  by (simp add: scan.simps [of st "c # cs"] scan.simps [of "st\<lparr>echoed := echoed st @ [c]\<rparr>" cs] yylex_echo)

text \<open>The variables as \<^verbatim>\<open>parse\<close> sets them.\<close>

definition lexer_init :: lexer where
  "lexer_init = \<lparr>lines = 1, pos_start = 1, pos_end = 1, in_comment = False, echoed = []\<rparr>"

end
