(* ===== verification/Lexer_Properties.thy ===== *)
theory Lexer_Properties
  imports Lexer
begin

text \<open>
  The properties of the scanner: it counts every line, skips comments, and gives back the words of a
  text in which blanks separate them.
\<close>

section \<open>The longest match\<close>

lemma best_match_None: "best_match rs s = None \<longleftrightarrow> (\<forall>(r, a) \<in> set rs. longest r s = None)"
  by (induction rs s rule: best_match.induct) (auto split: option.splits)

lemma best_match_Some:
  assumes "best_match rs s = Some (n, a)"
  shows "\<exists>r. (r, a) \<in> set rs \<and> longest r s = Some n" "(r, b) \<in> set rs \<Longrightarrow> longest r s = Some k \<Longrightarrow> k \<le> n"
proof -
  have "(\<exists>r. (r, a) \<in> set rs \<and> longest r s = Some n) \<and> (\<forall>r b k. (r, b) \<in> set rs \<longrightarrow> longest r s = Some k \<longrightarrow> k \<le> n)"
    using assms
  proof (induction rs s arbitrary: n a rule: best_match.induct)
    case (2 r b rs s)
    show ?case
    proof (cases "longest r s")
      case None
      then show ?thesis using 2 by fastforce
    next
      case (Some m)
      show ?thesis
      proof (cases "best_match rs s")
        case None
        then show ?thesis using Some "2.prems" best_match_None [of rs s] by fastforce
      next
        case rest: (Some q)
        obtain k c where q: "q = (k, c)" by (cases q)
        have "(\<exists>r. (r, c) \<in> set rs \<and> longest r s = Some k) \<and> (\<forall>r b j. (r, b) \<in> set rs \<longrightarrow> longest r s = Some j \<longrightarrow> j \<le> k)"
          using "2.IH"(2) [OF Some] rest q by blast
        then show ?thesis using Some rest q "2.prems" by (fastforce split: if_splits)
      qed
    qed
  qed simp
  then show "\<exists>r. (r, a) \<in> set rs \<and> longest r s = Some n" "(r, b) \<in> set rs \<Longrightarrow> longest r s = Some k \<Longrightarrow> k \<le> n"
    by blast+
qed

lemma best_match_cong:
  "(\<And>r a. (r, a) \<in> set rs \<Longrightarrow> longest r s = longest r s') \<Longrightarrow> best_match rs s = best_match rs s'"
proof (induction rs)
  case (Cons p rs)
  obtain r a where p: "p = (r, a)" by (cases p)
  have "best_match rs s = best_match rs s'" "longest r s = longest r s'" using Cons p by auto
  then show ?case by (simp add: p split: option.split)
qed simp

lemma longest_lit: "longest (lit v) s = (if prefix v s then Some (length v) else None)"
proof (cases "prefix v s")
  case True
  have "k = length v" if "k \<le> length s" "take k s = v" for k using that by auto
  then show ?thesis using True by (auto simp: longest_Some prefix_def)
next
  case False
  have "longest (lit v) s = None"
    unfolding longest_None using False take_is_prefix by (auto simp del: take_is_prefix)
  then show ?thesis using False by simp
qed

lemma matches_star_class: "matches (Star (Class P)) w \<longleftrightarrow> list_all P w"
proof
  have "matches r w \<Longrightarrow> r = Star (Class P) \<Longrightarrow> list_all P w" for r
    by (induction rule: matches.induct) auto
  then show "matches (Star (Class P)) w \<Longrightarrow> list_all P w" by blast
next
  show "list_all P w \<Longrightarrow> matches (Star (Class P)) w"
  proof (induction w)
    case (Cons c w)
    then show ?case using matches_step [of "Class P" "[c]" w] by simp
  qed (rule matches_stop)
qed

lemma matches_star_lit: "matches (Star (lit [c])) w \<longleftrightarrow> list_all ((=) c) w"
proof
  have "matches r w \<Longrightarrow> r = Star (lit [c]) \<Longrightarrow> list_all ((=) c) w" for r
    by (induction rule: matches.induct) auto
  then show "matches (Star (lit [c])) w \<Longrightarrow> list_all ((=) c) w" by blast
next
  show "list_all ((=) c) w \<Longrightarrow> matches (Star (lit [c])) w"
  proof (induction w)
    case (Cons d w)
    then show ?case using matches_step [of "lit [c]" "[c]" w] by auto
  qed (rule matches_stop)
qed

lemma matches_plus:
  assumes star: "\<And>w. matches (Star r) w \<longleftrightarrow> list_all P w" and one: "\<And>w. matches r w \<longleftrightarrow> (\<exists>c. w = [c] \<and> P c)"
  shows "matches (plus_of r) w \<longleftrightarrow> w \<noteq> [] \<and> list_all P w"
proof (cases w)
  case (Cons c v)
  show ?thesis
  proof
    show "matches (plus_of r) w \<Longrightarrow> w \<noteq> [] \<and> list_all P w" by (auto simp: plus_of_def matches_Seq star one)
    show "matches (plus_of r) w" if "w \<noteq> [] \<and> list_all P w"
      using matches_seq [of r "[c]" "Star r" v] that Cons by (auto simp: plus_of_def star one)
  qed
qed (auto simp: plus_of_def matches_Seq one)

lemma matches_plus_class: "matches (plus_of (Class P)) w \<longleftrightarrow> w \<noteq> [] \<and> list_all P w"
  by (rule matches_plus) (auto simp: matches_star_class)

lemma matches_plus_lit: "matches (plus_of (lit [c])) w \<longleftrightarrow> w \<noteq> [] \<and> list_all ((=) c) w"
  by (rule matches_plus) (auto simp: matches_star_lit)

lemma longest_star_class: "longest (Star (Class P)) s = Some (length (takeWhile P s))"
  unfolding longest_Some matches_star_class
proof (intro conjI allI impI)
  show "length (takeWhile P s) \<le> length s" by (rule length_takeWhile_le)
  show "list_all P (take (length (takeWhile P s)) s)"
    unfolding takeWhile_eq_take [symmetric] by (auto simp: list_all_iff dest: set_takeWhileD)
  show "k \<le> length (takeWhile P s)" if "k \<le> length s" "list_all P (take k s)" for k
  proof -
    have "takeWhile P (take k s @ drop k s) = take k s @ takeWhile P (drop k s)"
      using that(2) by (intro takeWhile_append2) (simp add: list_all_iff)
    then have "length (takeWhile P s) = length (take k s) + length (takeWhile P (drop k s))" by simp
    then show ?thesis using that(1) by simp
  qed
qed

text \<open>A character that a pattern cannot use stops it.\<close>

lemma longest_stop:
  assumes "\<not> may_use r c"
  shows "longest r (w @ c # s) = longest r w"
proof -
  have short: "k \<le> length w" if "matches r (take k (w @ c # s))" for k
  proof (rule ccontr)
    assume "\<not> k \<le> length w"
    then have "length w < k" by simp
    then obtain j where "k = Suc (length w + j)" using less_imp_Suc_add by blast
    then have "take k (w @ c # s) = w @ c # take j s" by simp
    then have "c \<in> set (take k (w @ c # s))" by simp
    then show False using matches_may_use [OF that] assms by blast
  qed
  have same: "k \<le> length (w @ c # s) \<and> matches r (take k (w @ c # s)) \<longleftrightarrow> k \<le> length w \<and> matches r (take k w)" for k
    using short [of k] by (cases "k \<le> length w") auto
  show ?thesis
  proof (cases "longest r w")
    case None
    then have "longest r (w @ c # s) = None" unfolding longest_None using same by blast
    then show ?thesis using None by simp
  next
    case (Some n)
    then have "longest r (w @ c # s) = Some n" unfolding longest_Some using same by blast
    then show ?thesis using Some by simp
  qed
qed

section \<open>Lines\<close>

lemma pattern_chars:
  "may_use pattern_ID c \<longleftrightarrow> letter c" "may_use pattern_INTEGER c \<longleftrightarrow> digit c"
  "may_use pattern_FLOATPOINT c \<longleftrightarrow> digit c \<or> c = CHR ''.''"
  by (auto simp: pattern_ID_def pattern_INTEGER_def pattern_FLOATPOINT_def plus_of_def)

lemma newline_class: "\<not> letter newline" "\<not> digit newline"
  by (simp_all add: letter_def digit_def)

definition counts :: "action \<Rightarrow> nat" where
  "counts a = (if a = NewLine \<or> a = CommentLine then 1 else 0)"

lemma newline_rules:
  "list_all (\<lambda>(r, a). (may_use r newline \<longrightarrow> r = lit [newline]) \<and> (may_use r newline \<longleftrightarrow> counts a = 1)) initial_rules"
  "list_all (\<lambda>(r, a). (may_use r newline \<longrightarrow> r = lit [newline]) \<and> (may_use r newline \<longleftrightarrow> counts a = 1)) comment_rules"
  by (simp_all add: initial_rules_def comment_rules_def pattern_chars newline_class plus_of_def counts_def)

lemma rule_newlines:
  assumes "(r, a) \<in> set (rules st)" "matches r w"
  shows "count_list w newline = counts a"
proof -
  have rule: "may_use r newline \<longrightarrow> r = lit [newline]" "may_use r newline \<longleftrightarrow> counts a = 1"
    using assms(1) newline_rules by (auto simp: rules_def list_all_iff split: if_splits)
  show ?thesis
  proof (cases "may_use r newline")
    case False
    then have "count_list w newline = 0" using matches_may_use [OF assms(2)] by (auto simp: count_list_0_iff)
    then show ?thesis using False rule(2) by (simp add: counts_def split: if_splits)
  next
    case True
    then show ?thesis using rule assms(2) by auto
  qed
qed

lemma next_match_Some:
  assumes "next_match st s = Some (n, a)"
  shows "best_match (rules st) s = Some (Suc n, a)" "\<exists>r. (r, a) \<in> set (rules st) \<and> matches r (take (Suc n) s)"
    "Suc n \<le> length s"
proof -
  show b: "best_match (rules st) s = Some (Suc n, a)"
    using assms by (auto simp: next_match_def split: option.splits nat.splits)
  then show "\<exists>r. (r, a) \<in> set (rules st) \<and> matches r (take (Suc n) s)" "Suc n \<le> length s"
    using best_match_Some(1) [OF b] longest_Some by blast+
qed

lemma next_match_newlines: "next_match st s = Some (n, a) \<Longrightarrow> count_list (take (Suc n) s) newline = counts a"
  using next_match_Some(2) rule_newlines by blast

lemma next_match_intro: "best_match (rules st) s = Some (Suc n, a) \<Longrightarrow> next_match st s = Some (n, a)"
  by (simp add: next_match_def)

lemma newline_matched: "next_match st (newline # cs) \<noteq> None"
proof
  assume none: "next_match st (newline # cs) = None"
  let ?a = "if in_comment st then CommentLine else NewLine"
  have rule: "(lit [newline], ?a) \<in> set (rules st)" by (simp add: rules_def initial_rules_def comment_rules_def)
  have one: "longest (lit [newline]) (newline # cs) = Some 1" unfolding longest_lit by simp
  have "best_match (rules st) (newline # cs) \<noteq> None" using rule one best_match_None [of "rules st" "newline # cs"] by fastforce
  then obtain n a where b: "best_match (rules st) (newline # cs) = Some (n, a)" by auto
  have "1 \<le> n" by (rule best_match_Some(2) [OF b rule one])
  then show False using none b by (cases n) (auto simp: next_match_def)
qed

lemma act_lines: "lines (act a w st) = lines st + int (counts a)"
  by (cases a) (simp_all add: act_def counts_def)

text \<open>
  C25. Whatever the text is, the scanner comes to its end, and the variable \<^verbatim>\<open>lines\<close> has then grown by
  the number of its line ends, inside comments and outside.
\<close>

theorem lines_counted: "lines (snd (scan st s)) = lines st + int (count_list s newline)"
proof (induction "length s" arbitrary: st s rule: less_induct)
  case less
  show ?case
  proof (cases s)
    case (Cons c cs)
    show ?thesis
    proof (cases "next_match st s")
      case None
      then have "c \<noteq> newline" using newline_matched [of st cs] Cons by metis
      then show ?thesis using less [of cs] None Cons by (simp add: scan_echo)
    next
      case (Some p)
      then obtain n a where n: "next_match st s = Some (n, a)" by (cases p) auto
      have "lines (snd (scan st s)) = lines (snd (scan (act a (c # take n cs) st) (drop n cs)))"
        using n Cons by (cases a) (simp_all add: scan_return scan_skip)
      also have "\<dots> = lines st + int (counts a) + int (count_list (drop n cs) newline)"
        using less [of "drop n cs"] Cons by (simp add: act_lines)
      also have "counts a = count_list (take (Suc n) s) newline" using next_match_newlines [OF n] by simp
      also have "lines st + int (count_list (take (Suc n) s) newline) + int (count_list (drop n cs) newline) =
          lines st + int (count_list (take (Suc n) s @ drop (Suc n) s) newline)"
        unfolding count_list_append using Cons by simp
      finally show ?thesis by simp
    qed
  qed simp
qed

section \<open>Comments\<close>

lemma comment_rule_cases:
  assumes "(r, a) \<in> set comment_rules" "matches r w"
  shows "(a = EatComment \<and> CHR ''*'' \<notin> set w) \<or> (a = CommentLine \<and> w = [newline]) \<or>
    (a = EatComment \<and> (\<exists>k v. w = replicate (Suc k) CHR ''*'' @ v \<and> CHR ''*'' \<notin> set v \<and> CHR ''/'' \<notin> set v)) \<or>
    (a = EndComment \<and> (\<exists>k. w = replicate (Suc k) CHR ''*'' @ ''/''))"
proof -
  have stars: "\<exists>k. u = replicate (Suc k) CHR ''*''" if "u \<noteq> []" "list_all ((=) CHR ''*'') u" for u
  proof -
    have "u = replicate (length u) CHR ''*''" using that(2) by (induction u) auto
    then show ?thesis using that(1) by (metis length_0_conv not0_implies_Suc)
  qed
  consider "r = Star (Class (\<lambda>c. c \<noteq> CHR ''*'' \<and> c \<noteq> newline))" "a = EatComment"
    | "r = Seq (plus_of (lit ''*'')) (Star (Class (\<lambda>c. c \<noteq> CHR ''*'' \<and> c \<noteq> CHR ''/'' \<and> c \<noteq> newline)))" "a = EatComment"
    | "r = lit [newline]" "a = CommentLine" | "r = Seq (plus_of (lit ''*'')) (lit ''/'')" "a = EndComment"
    using assms(1) unfolding comment_rules_def by auto
  then show ?thesis
  proof cases
    case 1
    then show ?thesis using assms(2) by (auto simp: matches_star_class list_all_iff)
  next
    case 2
    then obtain u v where w: "w = u @ v" "u \<noteq> []" "list_all ((=) CHR ''*'') u" "CHR ''*'' \<notin> set v" "CHR ''/'' \<notin> set v"
      using assms(2) by (auto simp: matches_Seq matches_plus_lit matches_star_class list_all_iff)
    then show ?thesis using stars [OF w(2,3)] 2(2) by blast
  next
    case 3
    then show ?thesis using assms(2) by simp
  next
    case 4
    then obtain u where w: "w = u @ ''/''" "u \<noteq> []" "list_all ((=) CHR ''*'') u"
      using assms(2) by (auto simp: matches_Seq matches_plus_lit)
    then show ?thesis using stars [OF w(2,3)] 4(2) by blast
  qed
qed

lemma end_rule_matches:
  "matches (Seq (plus_of (lit ''*'')) (lit ''/'')) (replicate (Suc k) CHR ''*'' @ ''/'')"
  by (auto simp: matches_Seq matches_plus_lit list_all_iff intro!: exI [of _ "replicate (Suc k) CHR ''*''"])

lemma comment_progress:
  assumes "in_comment st"
  shows "next_match st (c # cs) \<noteq> None"
proof (cases "c = newline")
  case True
  then show ?thesis using newline_matched by simp
next
  case False
  have one: "\<exists>r a. (r, a) \<in> set comment_rules \<and> matches r [c]"
  proof (cases "c = CHR ''*''")
    case True
    have "matches (Seq (plus_of (lit ''*'')) (Star (Class P))) [CHR ''*'']" for P
      using matches_seq [of "plus_of (lit ''*'')" "''*''" "Star (Class P)" "[]"] by (simp add: matches_plus_lit matches_star_class)
    then show ?thesis using True by (auto simp: comment_rules_def)
  next
    case star: False
    have "matches (Star (Class (\<lambda>c. c \<noteq> CHR ''*'' \<and> c \<noteq> newline))) [c]" using False star by (simp add: matches_star_class)
    then show ?thesis unfolding comment_rules_def by (meson list.set_intros(1))
  qed
  then obtain r a where r: "(r, a) \<in> set (rules st)" "matches r (take 1 (c # cs))" using assms by (auto simp: rules_def)
  then obtain k where k: "longest r (c # cs) = Some k" "1 \<le> k"
    using longest_None [of r "c # cs"] longest_maximal [of r "c # cs" _ 1] by fastforce
  then obtain n b where "best_match (rules st) (c # cs) = Some (n, b)"
    using best_match_None [of "rules st" "c # cs"] r(1) by fastforce
  then show ?thesis using best_match_Some(2) [OF _ r(1) k(1)] k(2) by (cases n) (auto simp: next_match_def)
qed

lemma comment_match:
  assumes st: "in_comment st" and s: "\<not> sublist ''*/'' s" and u: "u = [] \<or> u = ''*/'' @ v"
    and m: "next_match st (s @ u) = Some (n, a)"
  shows "Suc n \<le> length s \<and> (a = EatComment \<or> a = CommentLine) \<or> u \<noteq> [] \<and> n = length s + 1 \<and> a = EndComment"
proof -
  let ?w = "take (Suc n) (s @ u)"
  note best = next_match_Some [OF m]
  have len: "length ?w = Suc n" using best(3) by simp
  obtain r where r: "(r, a) \<in> set comment_rules" "matches r ?w" using best(2) st by (auto simp: rules_def)
  have star: "?w ! length s = CHR ''*''" "u = ''*/'' @ v" "u \<noteq> []" if "length s < Suc n"
    using that u best(3) by (auto simp: nth_append)
  have slash: "?w ! Suc (length s) = CHR ''/''" if "Suc (length s) < Suc n"
    using that star(2) by (auto simp: nth_append)
  have inside: "?w = take (Suc n) s" if "Suc n \<le> length s" using that by simp
  have rep: "(replicate k CHR ''*'' @ x) ! i = (if i < k then CHR ''*'' else x ! (i - k))" for k x i
    by (simp add: nth_append)
  consider (plain) "a = EatComment" "CHR ''*'' \<notin> set ?w" | (line) "a = CommentLine" "?w = [newline]"
    | (stars) k x where "a = EatComment" "?w = replicate (Suc k) CHR ''*'' @ x" "CHR ''*'' \<notin> set x" "CHR ''/'' \<notin> set x"
    | (end_) k where "a = EndComment" "?w = replicate (Suc k) CHR ''*'' @ ''/''"
    using comment_rule_cases [OF r] by blast
  then show ?thesis
  proof cases
    case plain
    then have "\<not> length s < Suc n" using star(1) len nth_mem by metis
    then show ?thesis using plain(1) by simp
  next
    case line
    then have "n = 0" using len by simp
    moreover have "s \<noteq> []" using star(1) line(2) \<open>n = 0\<close> by (cases s; cases u) auto
    ultimately show ?thesis using line(1) by (cases s) auto
  next
    case stars
    have False if long: "length s < Suc n"
    proof -
      have k: "length s < Suc k"
      proof (rule ccontr)
        assume "\<not> length s < Suc k"
        then have "?w ! length s = x ! (length s - Suc k)" "length s - Suc k < length x"
          using stars(2) rep [of "Suc k" x "length s"] len long by auto
        then show False using star(1) [OF long] stars(3) nth_mem by metis
      qed
      have n: "n = length s"
      proof (rule ccontr)
        assume "n \<noteq> length s"
        then have i: "Suc (length s) < Suc n" using long by simp
        show False
        proof (cases "Suc (length s) < Suc k")
          case True
          then show False using slash [OF i] stars(2) rep [of "Suc k" x "Suc (length s)"] by simp
        next
          case False
          then have "?w ! Suc (length s) = x ! (Suc (length s) - Suc k)" "Suc (length s) - Suc k < length x"
            using stars(2) rep [of "Suc k" x "Suc (length s)"] len i by auto
          then show False using slash [OF i] stars(4) nth_mem by metis
        qed
      qed
      have "length (replicate (Suc k) CHR ''*'' @ x) = Suc n" using len stars(2) by metis
      then have "length x = 0" "k = length s" using k n unfolding length_append length_replicate by linarith+
      then have "?w = replicate (Suc (length s)) CHR ''*''" using stars(2) by simp
      then have "take (length s + 2) (s @ u) = replicate (Suc (length s)) CHR ''*'' @ ''/''"
        using n star(2) [OF long] by (simp add: numeral_2_eq_2)
      then have "matches (Seq (plus_of (lit ''*'')) (lit ''/'')) (take (length s + 2) (s @ u))"
        using end_rule_matches by metis
      moreover have "length s + 2 \<le> length (s @ u)" using star(2) [OF long] by simp
      ultimately obtain j where "longest (Seq (plus_of (lit ''*'')) (lit ''/'')) (s @ u) = Some j" "length s + 2 \<le> j"
        using longest_None longest_maximal by (metis option.exhaust)
      moreover have "(Seq (plus_of (lit ''*'')) (lit ''/''), EndComment) \<in> set (rules st)"
        using st by (simp add: rules_def comment_rules_def)
      ultimately show False using best_match_Some(2) [OF best(1)] n by fastforce
    qed
    then show ?thesis using stars(1) by fastforce
  next
    case end_
    have sub: "sublist ''*/'' ?w"
      unfolding end_(2) sublist_def by (intro exI [of _ "replicate k CHR ''*''"] exI [of _ "[]"]) (simp add: replicate_append_same [symmetric])
    have "length s < Suc n"
    proof (rule ccontr)
      assume "\<not> length s < Suc n"
      then have "sublist ''*/'' (take (Suc n) s)" using sub by simp
      then show False using s sublist_order.order.trans [OF _ sublist_take] by blast
    qed
    moreover have "n = length s + 1"
    proof (rule ccontr)
      assume "n \<noteq> length s + 1"
      moreover have "n \<noteq> length s"
      proof
        assume n: "n = length s"
        have "length (replicate (Suc k) CHR ''*'' @ ''/'') = Suc n" using len end_(2) by metis
        then have "Suc k = length s" using n by simp
        then have "?w ! length s = CHR ''/''" unfolding end_(2) rep by simp
        then show False using star(1) n by simp
      qed
      ultimately have i: "Suc (length s) < n" using \<open>length s < Suc n\<close> by simp
      then have "?w ! Suc (length s) = CHR ''*''" using end_(2) len rep [of "Suc k" "''/''" "Suc (length s)"] by auto
      then show False using slash i by simp
    qed
    ultimately show ?thesis using star(3) end_(1) by simp
  qed
qed

lemma comment_ends:
  assumes "in_comment st" "\<not> sublist ''*/'' s" "u = [] \<or> u = ''*/'' @ v"
  shows "scan st (s @ u) = (if u = [] then ([], st\<lparr>lines := lines st + int (count_list s newline)\<rparr>)
     else scan (st\<lparr>in_comment := False, lines := lines st + int (count_list s newline)\<rparr>) v)"
  using assms
proof (induction "length s" arbitrary: st s rule: less_induct)
  case less
  show ?case
  proof (cases "s @ u")
    case (Cons c cs)
    obtain n a where m: "next_match st (s @ u) = Some (n, a)"
      using comment_progress [OF less.prems(1), of c cs] Cons by auto
    have count: "count_list (take (Suc n) (s @ u)) newline = counts a" by (rule next_match_newlines [OF m])
    have a: "\<And>t. a \<noteq> Return t" and drop: "drop n cs = drop (Suc n) (s @ u)"
      using comment_match [OF less.prems m] Cons by auto
    then have step: "scan st (s @ u) = scan (act a (c # take n cs) st) (drop (Suc n) (s @ u))"
      using scan_skip [of st c cs n a] m Cons by simp
    consider (eat) "Suc n \<le> length s" "a = EatComment \<or> a = CommentLine" | (close) "u \<noteq> []" "n = length s + 1" "a = EndComment"
      using comment_match [OF less.prems m] by blast
    then show ?thesis
    proof cases
      case eat
      note n = eat(1)
      then have act: "act a (c # take n cs) st = st\<lparr>lines := lines st + int (counts a)\<rparr>"
        using eat(2) by (auto simp: act_def counts_def)
      have lines: "count_list s newline = counts a + count_list (drop (Suc n) s) newline"
        using count n count_list_append [of "take (Suc n) s" "drop (Suc n) s" newline] by simp
      have "\<not> sublist ''*/'' (drop (Suc n) s)"
        using less.prems(2) sublist_order.order.trans [OF _ sublist_drop] by blast
      moreover have "length (drop (Suc n) s) < length s" using n by simp
      ultimately show ?thesis
        unfolding step act
        using less.hyps [of "drop (Suc n) s" "st\<lparr>lines := lines st + int (counts a)\<rparr>"] less.prems(1,3) n
        by (simp add: lines add.assoc)
    next
      case n: close
      then have "count_list s newline = 0" using count less.prems(3) by (auto simp: counts_def)
      then show ?thesis unfolding step using n less.prems(3) by (auto simp: act_def)
    qed
  qed (use less.prems in simp)
qed

lemma longest_class_hd: "\<not> may_use r c \<Longrightarrow> longest r (c # s) = longest r []"
  using longest_stop [of r c "[]" s] by simp

lemma longest_first: "\<not> may_use r c \<Longrightarrow> \<not> nullable r \<Longrightarrow> longest r (c # s) = None"
  using longest_class_hd by simp

lemma pattern_nullable [simp]: "\<not> nullable pattern_ID" "\<not> nullable pattern_INTEGER" "\<not> nullable pattern_FLOATPOINT"
  by (simp_all add: pattern_ID_def pattern_INTEGER_def pattern_FLOATPOINT_def plus_of_def lit_def)

lemma begin_comment:
  assumes "\<not> in_comment st"
  shows "scan st (''/*'' @ s) = scan (st\<lparr>in_comment := True\<rparr>) s"
proof -
  have "longest r (''/*'' @ s) = None" if "r \<in> {pattern_ID, pattern_INTEGER, pattern_FLOATPOINT}" for r
    using that longest_first [of r "CHR ''/''" "CHR ''*'' # s"] by (auto simp: pattern_chars letter_def digit_def)
  then have "best_match (rules st) (''/*'' @ s) = Some (2, BeginComment)"
    using assms by (simp add: rules_def initial_rules_def longest_lit)
  then have "next_match st (''/*'' @ s) = Some (1, BeginComment)" by (simp add: next_match_def numeral_2_eq_2)
  then show ?thesis using scan_skip [of st "CHR ''/''" "CHR ''*'' # s" 1 BeginComment] by (simp add: act_def)
qed

text \<open>
  C24. A comment is skipped as a whole, whatever it contains, and the lines in it are counted; the
  column of the next token does not move, so it is too small by the length of the comment. A
  comment that is not closed takes the rest of the file with it, without an error.
\<close>

theorem comment_skipped:
  assumes "\<not> in_comment st" "\<not> sublist ''*/'' s"
  shows "scan st (''/*'' @ s @ ''*/'' @ rest) = scan (st\<lparr>lines := lines st + int (count_list s newline)\<rparr>) rest \<and>
    scan st (''/*'' @ s) = ([], st\<lparr>in_comment := True, lines := lines st + int (count_list s newline)\<rparr>)"
proof -
  have "scan (st\<lparr>in_comment := True\<rparr>) (s @ ''*/'' @ rest) =
      scan (st\<lparr>in_comment := False, lines := lines st + int (count_list s newline)\<rparr>) rest"
    using comment_ends [of "st\<lparr>in_comment := True\<rparr>" s "''*/'' @ rest" rest] assms(2) by simp
  moreover have "st\<lparr>in_comment := False, lines := l\<rparr> = st\<lparr>lines := l\<rparr>" for l using assms(1) by simp
  moreover have "scan (st\<lparr>in_comment := True\<rparr>) (s @ []) = ([], st\<lparr>in_comment := True, lines := lines st + int (count_list s newline)\<rparr>)"
    using comment_ends [of "st\<lparr>in_comment := True\<rparr>" s "[]" "[]"] assms(2) by simp
  ultimately show ?thesis using begin_comment [OF assms(1)] by simp
qed

section \<open>Words between blanks\<close>

definition white :: "char \<Rightarrow> bool" where
  "white c \<longleftrightarrow> c = CHR 0x09 \<or> c = newline \<or> c = CHR '' ''"

text \<open>A text that is a token by itself.\<close>

definition lexeme :: "token \<Rightarrow> string \<Rightarrow> bool" where
  "lexeme t w \<longleftrightarrow> w \<noteq> [] \<and> best_match initial_rules w = Some (length w, Return t)"

lemma white_rules:
  "list_all (\<lambda>(r, a). (\<forall>c. white c \<longrightarrow> may_use r c \<longrightarrow> r = lit [c]) \<and> (\<forall>t c. a = Return t \<longrightarrow> white c \<longrightarrow> \<not> may_use r c)) initial_rules"
  by (auto simp: initial_rules_def white_def pattern_chars letter_def digit_def)

lemma lexeme_white:
  assumes "lexeme t w" "white c"
  shows "c \<notin> set w" "best_match initial_rules (w @ c # s) = Some (length w, Return t)"
proof -
  have "best_match initial_rules w = Some (length w, Return t)" using assms(1) by (simp add: lexeme_def)
  from best_match_Some(1) [OF this] obtain r where r0: "(r, Return t) \<in> set initial_rules" "longest r w = Some (length w)" by blast
  then have r: "(r, Return t) \<in> set initial_rules" "matches r w" using longest_matches [OF r0(2)] by simp_all
  then show c: "c \<notin> set w" using matches_may_use [OF r(2)] white_rules assms(2) by (fastforce simp: list_all_iff)
  have "longest r (w @ c # s) = longest r w" if "(r, a) \<in> set initial_rules" for r a
  proof (cases "may_use r c")
    case True
    then have "r = lit [c]" using white_rules assms(2) that by (fastforce simp: list_all_iff)
    moreover have "\<not> prefix [c] w" "\<not> prefix [c] (w @ c # s)"
      using c assms(1) by (cases w; auto simp: lexeme_def)+
    ultimately show ?thesis by (simp add: longest_lit)
  qed (rule longest_stop)
  then show "best_match initial_rules (w @ c # s) = Some (length w, Return t)"
    using best_match_cong [of initial_rules "w @ c # s" w] assms(1) by (simp add: lexeme_def)
qed

text \<open>Where the text behind \<open>s\<close> begins.\<close>

definition advance :: "string \<Rightarrow> int \<times> int \<Rightarrow> int \<times> int" where
  "advance = fold (\<lambda>c (l, p). if c = newline then (l + 1, 1) else (l, p + 1))"

fun place :: "int \<times> int \<Rightarrow> (token \<times> string \<times> string) list \<Rightarrow> (token \<times> string \<times> int \<times> int \<times> int) list" where
  "place (l, p) [] = []"
| "place (l, p) ((t, w, sep) # ws) =
     (t, w, l, p, p + int (length w)) # place (advance sep (l, p + int (length w))) ws"

lemma white_match:
  assumes "white c" "\<not> in_comment st"
  shows "next_match st (c # cs) = Some (0, if c = newline then NewLine else Blank)"
proof -
  have none: "longest r (c # cs) = None" if "r \<in> {pattern_ID, pattern_INTEGER, pattern_FLOATPOINT}" for r
    using that longest_first [of r c cs] assms(1) by (auto simp: pattern_chars letter_def digit_def white_def)
  have "best_match (rules st) (c # cs) = Some (1, if c = newline then NewLine else Blank)"
    using assms(1) unfolding white_def
  proof (elim disjE)
    show "best_match (rules st) (c # cs) = Some (1, if c = newline then NewLine else Blank)" if "c = CHR 0x09"
      using that none assms(2) by (simp add: rules_def initial_rules_def longest_lit)
    show "best_match (rules st) (c # cs) = Some (1, if c = newline then NewLine else Blank)" if "c = newline"
      using that none assms(2) by (simp add: rules_def initial_rules_def longest_lit)
    show "best_match (rules st) (c # cs) = Some (1, if c = newline then NewLine else Blank)" if "c = CHR '' ''"
      using that none assms(2) by (simp add: rules_def initial_rules_def longest_lit)
  qed
  then show ?thesis by (simp add: next_match_def)
qed

lemma scan_white:
  assumes "list_all white sep" "\<not> in_comment st"
  shows "\<exists>st'. scan st (sep @ s) = scan st' s \<and> \<not> in_comment st' \<and> (lines st', pos_end st') = advance sep (lines st, pos_end st)"
  using assms
proof (induction sep arbitrary: st)
  case Nil
  then show ?case by (intro exI [of _ st]) (simp add: advance_def)
next
  case (Cons c sep)
  let ?a = "if c = newline then NewLine else Blank"
  have c: "white c" using Cons.prems by simp
  have one: "scan st (c # sep @ s) = scan (act ?a [c] st) (sep @ s)"
    using scan_skip [OF white_match [OF c Cons.prems(2)]] by simp
  have "\<not> in_comment (act ?a [c] st)" using Cons.prems(2) by (simp add: act_def)
  from Cons.IH [OF _ this] Cons.prems(1) obtain st' where
    "scan (act ?a [c] st) (sep @ s) = scan st' s" "\<not> in_comment st'"
    "(lines st', pos_end st') = advance sep (lines (act ?a [c] st), pos_end (act ?a [c] st))" by auto
  then show ?case using one by (intro exI [of _ st']) (simp add: advance_def act_def)
qed

lemma scan_words:
  assumes "\<forall>(t, w, sep) \<in> set ws. lexeme t w \<and> sep \<noteq> [] \<and> list_all white sep" "\<not> in_comment st"
  shows "fst (scan st (concat (map (\<lambda>(t, w, sep). w @ sep) ws))) = place (lines st, pos_end st) ws"
  using assms
proof (induction ws arbitrary: st)
  case (Cons x ws)
  obtain t w sep where x: "x = (t, w, sep)" by (cases x)
  let ?s = "concat (map (\<lambda>(t, w, sep). w @ sep) ws)" and ?st = "act (Return t) w st"
  have w: "lexeme t w" "sep \<noteq> []" "list_all white sep" using Cons.prems(1) x by auto
  obtain c cs d ds where cd: "w = c # cs" "sep = d # ds" using w by (cases w; cases sep) (auto simp: lexeme_def)
  have "best_match (rules st) (w @ sep @ ?s) = Some (length w, Return t)"
    using lexeme_white(2) [OF w(1), of d "ds @ ?s"] w(3) cd(2) Cons.prems(2) by (simp add: rules_def)
  then have "next_match st (c # cs @ sep @ ?s) = Some (length cs, Return t)" by (simp add: next_match_def cd(1))
  then have "fst (scan st (w @ sep @ ?s)) =
      (t, w, lines st, pos_end st, pos_end st + int (length w)) # fst (scan ?st (sep @ ?s))"
    using scan_return [of st c "cs @ sep @ ?s" "length cs" t ?st] cd(1) by (simp add: act_def)
  moreover obtain st' where "scan ?st (sep @ ?s) = scan st' ?s" "\<not> in_comment st'"
    "(lines st', pos_end st') = advance sep (lines ?st, pos_end ?st)"
    using scan_white [of sep ?st ?s] w(3) Cons.prems(2) by (auto simp: act_def)
  moreover have "fst (scan st' ?s) = place (lines st', pos_end st') ws"
    using Cons.IH [OF _ \<open>\<not> in_comment st'\<close>] Cons.prems(1) by simp
  ultimately show ?case by (simp add: x act_def)
qed simp

text \<open>
  C23. Words with white space behind each of them are scanned as these words, each with its token,
  its line and the columns it stands in.
\<close>

theorem words_scanned:
  assumes "\<forall>(t, w, sep) \<in> set ws. lexeme t w \<and> sep \<noteq> [] \<and> list_all white sep"
  shows "fst (scan lexer_init (concat (map (\<lambda>(t, w, sep). w @ sep) ws))) = place (1, 1) ws"
  using scan_words [OF assms, of lexer_init] by (simp add: lexer_init_def)

section \<open>Lexemes\<close>

definition reserved :: "(string \<times> token) list" where
  "reserved = [(''else'', ELSE), (''if'', IF), (''int'', INT_TYPE), (''return'', RETURN), (''void'', VOID),
     (''while'', WHILE), (''float'', FLOAT_TYPE)]"

definition symbols :: "(string \<times> token) list" where
  "symbols = [(''+'', ADD), (''-'', SUB), (''*'', MUL), (''/'', DIV), (''<='', LTE), (''<'', LT), (''>='', GTE),
     (''>'', GT), (''=='', EQ), (''!='', NEQ), (''='', ASSIN), ('';'', SEMICOLON), ('','', COMMA), (''('', LPARENTHESE),
     ('')'', RPARENTHESE), (''['', LBRACKET), ('']'', RBRACKET), (''{'', LBRACE), (''}'', RBRACE)]"

text \<open>The first rule that matches the whole of the text is taken.\<close>

lemma longest_full: "matches r w \<longleftrightarrow> longest r w = Some (length w)"
  by (auto simp: longest_Some)

lemma best_match_whole:
  assumes "matches r w" "\<And>r' b. (r', b) \<in> set pre \<Longrightarrow> \<not> matches r' w"
  shows "best_match (pre @ (r, a) # post) w = Some (length w, a)"
  using assms(2)
proof (induction pre)
  case Nil
  have "n \<le> length w" if "best_match post w = Some (n, b)" for n b
    using best_match_Some(1) [OF that] longest_matches by blast
  then show ?case using assms(1) by (auto simp: longest_full split: option.split)
next
  case (Cons x pre)
  obtain r' b where x: "x = (r', b)" by (cases x)
  have rest: "best_match (pre @ (r, a) # post) w = Some (length w, a)" using Cons by (meson list.set_intros(2))
  have "\<not> matches r' w" using Cons.prems [of r' b] x by simp
  then have "n < length w" if "longest r' w = Some n" for n
    using longest_matches [OF that] that longest_full [of r' w] by (cases "n = length w") auto
  then show ?case using x rest by (auto split: option.split)
qed

lemma initial_rules_split:
  "initial_rules = map (\<lambda>(v, t). (lit v, Return t)) (symbols @ reserved) @
     [(pattern_ID, Return IDENTIFIER), (pattern_INTEGER, Return INTEGER), (pattern_FLOATPOINT, Return FLOATPOINT),
      (lit [CHR 0x09], Blank), (lit [newline], NewLine), (lit '' '', Blank), (lit ''/*'', BeginComment)]"
  by (simp add: initial_rules_def symbols_def reserved_def)

lemma matches_patterns:
  "matches pattern_ID w \<longleftrightarrow> w \<noteq> [] \<and> list_all letter w"
  "matches pattern_INTEGER w \<longleftrightarrow> w \<noteq> [] \<and> list_all digit w"
  by (simp_all add: pattern_ID_def pattern_INTEGER_def matches_plus_class)

lemma matches_FLOATPOINT:
  assumes "matches pattern_FLOATPOINT w"
  shows "CHR ''.'' \<in> set w" "list_all (\<lambda>c. digit c \<or> c = CHR ''.'') w"
  using assms by (auto simp: pattern_FLOATPOINT_def matches_Seq matches_plus_class matches_star_class list_all_iff)

lemma symbol_chars: "list_all (\<lambda>(v, t). v \<noteq> [] \<and> list_all (\<lambda>c. \<not> letter c \<and> \<not> digit c \<and> c \<noteq> CHR ''.'') v) symbols"
  by (simp add: symbols_def letter_def digit_def)

lemma reserved_chars: "list_all (\<lambda>(v, t). v \<noteq> [] \<and> list_all letter v) reserved"
  by (simp add: reserved_def letter_def)

lemma char_kinds: "letter c \<Longrightarrow> \<not> digit c" "letter c \<Longrightarrow> c \<noteq> CHR ''.''" "digit c \<Longrightarrow> c \<noteq> CHR ''.''"
  by (auto simp: letter_def digit_def)

text \<open>A word of letters, digits and points is no symbol.\<close>

lemma word_no_symbol:
  assumes "w \<noteq> []" "list_all (\<lambda>c. letter c \<or> digit c \<or> c = CHR ''.'') w" "(v, t) \<in> set symbols"
  shows "w \<noteq> v"
proof
  assume "w = v"
  then show False using assms symbol_chars by (cases v) (fastforce simp: list_all_iff)+
qed

lemma word_rule:
  assumes "(r, b) \<in> set (map (\<lambda>(v, t). (lit v, Return t)) ws)" "matches r w"
  shows "w \<in> fst ` set ws"
  using assms by force

lemma no_word:
  assumes "w \<noteq> []" "list_all (\<lambda>c. letter c \<or> digit c \<or> c = CHR ''.'') w" "w \<notin> fst ` set reserved"
    and "(r, b) \<in> set (map (\<lambda>(v, t). (lit v, Return t)) (symbols @ reserved))"
  shows "\<not> matches r w"
proof
  assume "matches r w"
  then have "w \<in> fst ` set symbols" using word_rule [OF assms(4), of w] assms(3) by auto
  then obtain t where "(w, t) \<in> set symbols" by auto
  then show False using word_no_symbol [OF assms(1,2)] by blast
qed

lemma reserved_letters: "w \<in> fst ` set reserved \<Longrightarrow> list_all letter w"
  using reserved_chars by (auto simp: list_all_iff)

lemma identifier_lexeme:
  assumes "w \<noteq> []" "list_all letter w" "w \<notin> fst ` set reserved"
  shows "lexeme IDENTIFIER w"
proof -
  have none: "\<not> matches r w" if "(r, b) \<in> set (map (\<lambda>(v, t). (lit v, Return t)) (symbols @ reserved))" for r b
    using no_word [OF assms(1) _ assms(3) that] assms(2) by (simp add: list_all_iff)
  have "best_match initial_rules w = Some (length w, Return IDENTIFIER)"
    unfolding initial_rules_split
    by (rule best_match_whole) (use assms(1,2) none in \<open>auto simp: matches_patterns simp del: set_map map_append\<close>)
  then show ?thesis using assms(1) by (simp add: lexeme_def)
qed

lemma integer_lexeme:
  assumes "w \<noteq> []" "list_all digit w"
  shows "lexeme INTEGER w"
proof -
  have hd: "\<not> list_all letter w" using assms char_kinds(1) by (cases w) auto
  have "\<not> matches r w" if "(r, b) \<in> set (map (\<lambda>(v, t). (lit v, Return t)) (symbols @ reserved) @ [(pattern_ID, Return IDENTIFIER)])" for r b
  proof (cases "(r, b) \<in> set (map (\<lambda>(v, t). (lit v, Return t)) (symbols @ reserved))")
    case True
    have "list_all (\<lambda>c. letter c \<or> digit c \<or> c = CHR ''.'') w" using assms(2) by (simp add: list_all_iff)
    then show ?thesis using no_word [OF assms(1) _ _ True] hd reserved_letters by blast
  next
    case False
    then have "r = pattern_ID" using that by auto
    then show ?thesis using hd by (simp add: matches_patterns)
  qed
  then have "best_match (map (\<lambda>(v, t). (lit v, Return t)) (symbols @ reserved) @ [(pattern_ID, Return IDENTIFIER)] @
      (pattern_INTEGER, Return INTEGER) # post) w = Some (length w, Return INTEGER)" for post
    using best_match_whole [of pattern_INTEGER w "map (\<lambda>(v, t). (lit v, Return t)) (symbols @ reserved) @ [(pattern_ID, Return IDENTIFIER)]"] assms
    by (simp add: matches_patterns)
  then show ?thesis using assms(1) by (simp add: lexeme_def initial_rules_split)
qed

lemma float_lexeme:
  assumes "matches pattern_FLOATPOINT w"
  shows "lexeme FLOATPOINT w"
proof -
  note w = matches_FLOATPOINT [OF assms]
  have ne: "w \<noteq> []" using w(1) by auto
  have other: "\<not> list_all letter w" "\<not> list_all digit w" using w(1) char_kinds by (auto simp: list_all_iff)
  have "\<not> matches r w" if "(r, b) \<in> set (map (\<lambda>(v, t). (lit v, Return t)) (symbols @ reserved) @
      [(pattern_ID, Return IDENTIFIER), (pattern_INTEGER, Return INTEGER)])" for r b
  proof (cases "(r, b) \<in> set (map (\<lambda>(v, t). (lit v, Return t)) (symbols @ reserved))")
    case True
    have "list_all (\<lambda>c. letter c \<or> digit c \<or> c = CHR ''.'') w" using w(2) by (auto simp: list_all_iff)
    then show ?thesis using no_word [OF ne _ _ True] other reserved_letters by blast
  next
    case False
    then have "r = pattern_ID \<or> r = pattern_INTEGER" using that by auto
    then show ?thesis using other by (auto simp: matches_patterns)
  qed
  then have "best_match (map (\<lambda>(v, t). (lit v, Return t)) (symbols @ reserved) @
      [(pattern_ID, Return IDENTIFIER), (pattern_INTEGER, Return INTEGER)] @
      (pattern_FLOATPOINT, Return FLOATPOINT) # post) w = Some (length w, Return FLOATPOINT)" for post
    using best_match_whole [of pattern_FLOATPOINT w "map (\<lambda>(v, t). (lit v, Return t)) (symbols @ reserved) @
      [(pattern_ID, Return IDENTIFIER), (pattern_INTEGER, Return INTEGER)]"] assms by simp
  then show ?thesis using ne by (simp add: lexeme_def initial_rules_split)
qed

lemma word_lexeme:
  assumes "(w, t) \<in> set (symbols @ reserved)"
  shows "lexeme t w"
proof -
  obtain pre post where split: "symbols @ reserved = pre @ (w, t) # post" using assms by (meson split_list)
  have "distinct (map fst (symbols @ reserved))" by (simp add: symbols_def reserved_def)
  then have "w \<notin> fst ` set pre" unfolding split by auto
  then have "\<not> matches r w" if "(r, b) \<in> set (map (\<lambda>(v, t). (lit v, Return t)) pre)" for r b
    using that by force
  then have "best_match (map (\<lambda>(v, t). (lit v, Return t)) pre @ (lit w, Return t) # more) w = Some (length w, Return t)" for more
    using best_match_whole [of "lit w" w "map (\<lambda>(v, t). (lit v, Return t)) pre"] by simp
  moreover have "w \<noteq> []" using assms symbol_chars reserved_chars by (auto simp: list_all_iff)
  ultimately show ?thesis by (simp add: lexeme_def initial_rules_split split)
qed

theorem comment_skipped_witness:
  "fst (scan lexer_init ''/*a*/x '') = [(IDENTIFIER, ''x'', 1, 1, 2)] \<and> fst (scan lexer_init ''/*a'') = []"
proof -
  have "\<not> in_comment lexer_init" "\<not> sublist ''*/'' ''a''" by (simp_all add: lexer_init_def sublist_code)
  note skip = comment_skipped [OF this, of "''x ''"]
  have "lexeme IDENTIFIER ''x''" by (rule identifier_lexeme) (simp_all add: letter_def reserved_def)
  then have "fst (scan lexer_init ''x '') = [(IDENTIFIER, ''x'', 1, 1, 2)]"
    using scan_words [of "[(IDENTIFIER, ''x'', '' '')]" lexer_init] by (simp add: white_def lexer_init_def advance_def)
  moreover have "lexer_init\<lparr>lines := lines lexer_init + int (count_list ''a'' newline)\<rparr> = lexer_init" by simp
  ultimately show ?thesis using skip by simp
qed

theorem words_scanned_witness:
  "fst (scan lexer_init [CHR ''i'', CHR ''n'', CHR ''t'', CHR '' '', CHR ''a'', newline, CHR ''7'', CHR ''.'', CHR '' '']) =
     [(INT_TYPE, ''int'', 1, 1, 4), (IDENTIFIER, ''a'', 1, 5, 6), (FLOATPOINT, ''7.'', 2, 1, 3)]"
proof -
  have "lexeme INT_TYPE ''int''" by (rule word_lexeme) (simp add: reserved_def)
  moreover have "lexeme IDENTIFIER ''a''" by (rule identifier_lexeme) (simp_all add: letter_def reserved_def)
  moreover have "lexeme FLOATPOINT ''7.''"
    by (rule float_lexeme) (auto simp: pattern_FLOATPOINT_def matches_Seq matches_plus_class digit_def intro!: exI [of _ "''7''"])
  ultimately show ?thesis
    using words_scanned [of "[(INT_TYPE, ''int'', '' ''), (IDENTIFIER, ''a'', [newline]), (FLOATPOINT, ''7.'', '' '')]"]
    by (simp add: white_def advance_def)
qed

end
