(* ===== verification/Grammar.thy ===== *)
theory Grammar
  imports Lexer_Properties Ast_Roundtrip
begin

text \<open>
  The productions of \<^verbatim>\<open>syntax_analyzer.y\<close> and the trees that a parse builds with them. Bison makes
  the parser; a parse of a sequence of tokens is a parse tree with these leaves.
\<close>

section \<open>The grammar\<close>

datatype nonterm =
    Program | Declaration_List | Declaration | Var_Declaration | Type_Specifier | Fun_Declaration | Params | Param_List | Param
  | Compound_Stmt | Local_Declarations | Statement_List | Statement | Expression_Stmt | Selection_Stmt | Iteration_Stmt
  | Return_Stmt | Expression | Var | Simple_Expression | Relop | Additive_Expression | Addop | Term | Mulop | Factor
  | Integer | Float | Call | Args | Arg_List

datatype symbol = T token | N nonterm

fun productions :: "nonterm \<Rightarrow> symbol list list" where
  "productions Program = [[N Declaration_List]]"
| "productions Declaration_List = [[N Declaration_List, N Declaration], [N Declaration]]"
| "productions Declaration = [[N Var_Declaration], [N Fun_Declaration]]"
| "productions Var_Declaration = [[N Type_Specifier, T IDENTIFIER, T SEMICOLON],
     [N Type_Specifier, T IDENTIFIER, T LBRACKET, T INTEGER, T RBRACKET, T SEMICOLON]]"
| "productions Type_Specifier = [[T INT_TYPE], [T FLOAT_TYPE], [T VOID]]"
| "productions Fun_Declaration = [[N Type_Specifier, T IDENTIFIER, T LPARENTHESE, N Params, T RPARENTHESE, N Compound_Stmt]]"
| "productions Params = [[N Param_List], [T VOID]]"
| "productions Param_List = [[N Param_List, T COMMA, N Param], [N Param]]"
| "productions Param = [[N Type_Specifier, T IDENTIFIER], [N Type_Specifier, T IDENTIFIER, T LBRACKET, T RBRACKET]]"
| "productions Compound_Stmt = [[T LBRACE, N Local_Declarations, N Statement_List, T RBRACE]]"
| "productions Local_Declarations = [[N Local_Declarations, N Var_Declaration], []]"
| "productions Statement_List = [[N Statement_List, N Statement], []]"
| "productions Statement = [[N Expression_Stmt], [N Compound_Stmt], [N Selection_Stmt], [N Iteration_Stmt], [N Return_Stmt]]"
| "productions Expression_Stmt = [[N Expression, T SEMICOLON], [T SEMICOLON]]"
| "productions Selection_Stmt = [[T IF, T LPARENTHESE, N Expression, T RPARENTHESE, N Statement],
     [T IF, T LPARENTHESE, N Expression, T RPARENTHESE, N Statement, T ELSE, N Statement]]"
| "productions Iteration_Stmt = [[T WHILE, T LPARENTHESE, N Expression, T RPARENTHESE, N Statement]]"
| "productions Return_Stmt = [[T RETURN, T SEMICOLON], [T RETURN, N Expression, T SEMICOLON]]"
| "productions Expression = [[N Var, T ASSIN, N Expression], [N Simple_Expression]]"
| "productions Var = [[T IDENTIFIER], [T IDENTIFIER, T LBRACKET, N Expression, T RBRACKET]]"
| "productions Simple_Expression = [[N Additive_Expression, N Relop, N Additive_Expression], [N Additive_Expression]]"
| "productions Relop = [[T LTE], [T LT], [T GT], [T GTE], [T EQ], [T NEQ]]"
| "productions Additive_Expression = [[N Additive_Expression, N Addop, N Term], [N Term]]"
| "productions Addop = [[T ADD], [T SUB]]"
| "productions Term = [[N Term, N Mulop, N Factor], [N Factor]]"
| "productions Mulop = [[T MUL], [T DIV]]"
| "productions Factor = [[T LPARENTHESE, N Expression, T RPARENTHESE], [N Var], [N Call], [N Integer], [N Float]]"
| "productions Integer = [[T INTEGER]]"
| "productions Float = [[T FLOATPOINT]]"
| "productions Call = [[T IDENTIFIER, T LPARENTHESE, N Args, T RPARENTHESE]]"
| "productions Args = [[N Arg_List], []]"
| "productions Arg_List = [[N Arg_List, T COMMA, N Expression], [N Expression]]"

text \<open>The name that the action of every production of the nonterminal gives to its node.\<close>

fun node_name :: "nonterm \<Rightarrow> string" where
  "node_name Program = ''program''"
| "node_name Declaration_List = ''declaration-list''"
| "node_name Declaration = ''declaration''"
| "node_name Var_Declaration = ''var-declaration''"
| "node_name Type_Specifier = ''type-specifier''"
| "node_name Fun_Declaration = ''fun-declaration''"
| "node_name Params = ''params''"
| "node_name Param_List = ''param-list''"
| "node_name Param = ''param''"
| "node_name Compound_Stmt = ''compound-stmt''"
| "node_name Local_Declarations = ''local-declarations''"
| "node_name Statement_List = ''statement-list''"
| "node_name Statement = ''statement''"
| "node_name Expression_Stmt = ''expression-stmt''"
| "node_name Selection_Stmt = ''selection-stmt''"
| "node_name Iteration_Stmt = ''iteration-stmt''"
| "node_name Return_Stmt = ''return-stmt''"
| "node_name Expression = ''expression''"
| "node_name Var = ''var''"
| "node_name Simple_Expression = ''simple-expression''"
| "node_name Relop = ''relop''"
| "node_name Additive_Expression = ''additive-expression''"
| "node_name Addop = ''addop''"
| "node_name Term = ''term''"
| "node_name Mulop = ''mulop''"
| "node_name Factor = ''factor''"
| "node_name Integer = ''integer''"
| "node_name Float = ''float''"
| "node_name Call = ''call''"
| "node_name Args = ''args''"
| "node_name Arg_List = ''arg-list''"

section \<open>Parses\<close>

datatype parse_tree = Token token string | Production nonterm "parse_tree list"

fun symbol_of :: "parse_tree \<Rightarrow> symbol" where
  "symbol_of (Token k s) = T k"
| "symbol_of (Production A ts) = N A"

fun derivation :: "parse_tree \<Rightarrow> bool" where
  "derivation (Token k s) \<longleftrightarrow> True"
| "derivation (Production A ts) \<longleftrightarrow> map symbol_of ts \<in> set (productions A) \<and> list_all derivation ts"

fun leaves :: "parse_tree \<Rightarrow> (token \<times> string) list" where
  "leaves (Token k s) = [(k, s)]"
| "leaves (Production A ts) = concat (map leaves ts)"

text \<open>
  What the actions build: \<^verbatim>\<open>pass_node\<close> of the scanner makes the node of a token, \<^verbatim>\<open>node\<close> the one of a
  production.
\<close>

fun action_value :: "parse_tree \<Rightarrow> syntax_tree_node result" where
  "action_value (Token k s) = Inr (new_syntax_tree_node (Some s))"
| "action_value (Production A ts) = rbind (rmap (\<lambda>t. t) (map action_value ts)) (node (node_name A))"

text \<open>The parser accepts the tokens with that tree as the root of \<^verbatim>\<open>gt\<close>.\<close>

definition parses :: "(token \<times> string) list \<Rightarrow> syntax_tree_node \<Rightarrow> bool" where
  "parses toks n \<longleftrightarrow> (\<exists>t. derivation t \<and> symbol_of t = N Program \<and> leaves t = toks \<and> action_value t = Inr n)"

section \<open>The trees of the actions\<close>

lemma short_names [simp]: "short (node_name A)"
  by (cases A) (simp_all add: short_def SYNTAX_TREE_NODE_NAME_MAX_def)

lemma production_length: "ss \<in> set (productions A) \<Longrightarrow> length ss \<le> max_children"
  by (cases A) (auto simp: max_children_def)

fun built :: "parse_tree \<Rightarrow> syntax_tree_node" where
  "built (Token k s) = new_syntax_tree_node (Some s)"
| "built (Production A ts) = tree (node_name A) (map built ts)"

lemma action_value_built: "derivation t \<Longrightarrow> action_value t = Inr (built t)"
proof (induction t)
  case (Production A ts)
  have "\<forall>t \<in> set ts. action_value t = Inr (built t)" using Production by (auto simp: list_all_iff)
  then have "rmap (\<lambda>t. t) (map action_value ts) = Inr (map built ts)" by (induction ts) simp_all
  moreover have "length ts \<le> max_children" using production_length [of "map symbol_of ts" A] Production.prems by simp
  moreover have "take SYNTAX_TREE_NODE_NAME_MAX (node_name A) = node_name A"
    using short_names [of A] by (simp add: short_def)
  ultimately show ?case using node_tree [of "map built ts" "node_name A"] by simp
qed simp

end
