(* ===== verification/Grammar_Reads.thy ===== *)
theory Grammar_Reads
  imports Grammar Ast_Properties
begin

text \<open>
  What \<^verbatim>\<open>AST\<close> reads: when the transformation of a tree of the grammar ends without an error, the
  text of every identifier and of every number in it was read back.
\<close>

definition read_back :: "(string \<Rightarrow> 'f result) \<Rightarrow> token \<Rightarrow> string \<Rightarrow> bool" where
  "read_back stof k s \<longleftrightarrow> (k \<in> {IDENTIFIER, INTEGER, FLOATPOINT} \<longrightarrow> short s) \<and>
     (k = INTEGER \<longrightarrow> (\<exists>i. stoi s = Inr i)) \<and> (k = FLOATPOINT \<longrightarrow> (\<exists>x. stof s = Inr x))"

lemma name_of_new: "name_of (new_syntax_tree_node (Some s)) = (if short s then Inr s else Inl UndefinedBehaviour)"
  by (simp add: name_of_def new_syntax_tree_node_def short_def)

text \<open>The transformation of a node, or of the nodes below it that its parents look at, ends without an error.\<close>

abbreviation fine :: "(string \<Rightarrow> 'f result) \<Rightarrow> syntax_tree_node \<Rightarrow> bool" where
  "fine stof n \<equiv> \<exists>y. transform_node_iter stof n = Inr y"

definition all_fine :: "(string \<Rightarrow> 'f result) \<Rightarrow> syntax_tree_node \<Rightarrow> bool" where
  "all_fine stof n \<longleftrightarrow> (\<exists>c. child 0 (snd (spine3 n)) = Inr c \<and> (\<forall>x \<in> set (c # fst (spine3 n)). fine stof x))"

fun runs :: "(string \<Rightarrow> 'f result) \<Rightarrow> nonterm \<Rightarrow> syntax_tree_node \<Rightarrow> bool" where
  "runs stof Declaration_List n = (\<exists>c. child 0 (snd (spine2 n)) = Inr c \<and> (\<forall>x \<in> set (c # fst (spine2 n)). fine stof x))"
| "runs stof Local_Declarations n = (\<forall>x \<in> set (fst (spine2 n)). fine stof x)"
| "runs stof Statement_List n = (\<forall>x \<in> set (fst (spine2 n)). fine stof x)"
| "runs stof Params n = (\<exists>c. child 0 n = Inr c \<and> (children_num c = 0 \<or> all_fine stof c))"
| "runs stof Param_List n = all_fine stof n"
| "runs stof Args n = (\<exists>c. child 0 n = Inr c \<and> (name_of c = Inr ''arg-list'' \<longrightarrow> all_fine stof c))"
| "runs stof Arg_List n = all_fine stof n"
| "runs stof Type_Specifier n = True"
| "runs stof Relop n = True"
| "runs stof Addop n = True"
| "runs stof Mulop n = True"
| "runs stof Integer n = (\<exists>c s k. child 0 n = Inr c \<and> name_of c = Inr s \<and> stoi s = Inr k)"
| "runs stof Float n = (\<exists>c s x. child 0 n = Inr c \<and> name_of c = Inr s \<and> stof s = Inr x)"
| "runs stof _ n = fine stof n"

text \<open>The nodes that the actions build for the symbols of a production.\<close>

definition made :: "symbol \<Rightarrow> syntax_tree_node \<Rightarrow> bool" where
  "made x n \<longleftrightarrow> (case x of T k \<Rightarrow> (\<exists>s. n = new_syntax_tree_node (Some s))
     | N B \<Rightarrow> (\<exists>cs. n = tree (node_name B) cs))"

definition settled :: "(string \<Rightarrow> 'f result) \<Rightarrow> symbol \<Rightarrow> syntax_tree_node \<Rightarrow> bool" where
  "settled stof x n \<longleftrightarrow> (case x of T k \<Rightarrow> (\<forall>s. n = new_syntax_tree_node (Some s) \<longrightarrow> read_back stof k s) | N B \<Rightarrow> runs stof B n)"

lemma made_settled_simps:
  "made (T k) n \<longleftrightarrow> (\<exists>s. n = new_syntax_tree_node (Some s))" "made (N B) n \<longleftrightarrow> (\<exists>cs. n = tree (node_name B) cs)"
  "settled stof (N B) n \<longleftrightarrow> runs stof B n"
  "k \<notin> {IDENTIFIER, INTEGER, FLOATPOINT} \<Longrightarrow> settled stof (T k) n"
  by (auto simp: made_def settled_def read_back_def)

lemma settled_token:
  "settled stof (T IDENTIFIER) (new_syntax_tree_node (Some s)) \<longleftrightarrow> short s"
  "settled stof (T INTEGER) (new_syntax_tree_node (Some s)) \<longleftrightarrow> short s \<and> (\<exists>i. stoi s = Inr i)"
  "settled stof (T FLOATPOINT) (new_syntax_tree_node (Some s)) \<longleftrightarrow> short s \<and> (\<exists>x. stof s = Inr x)"
proof -
  have "settled stof (T k) (new_syntax_tree_node (Some s)) \<longleftrightarrow> read_back stof k s" if k: "k \<in> {IDENTIFIER, INTEGER, FLOATPOINT}" for k
  proof
    assume rb: "read_back stof k s"
    then have "short s" using k by (auto simp: read_back_def)
    then have "t = s" if "new_syntax_tree_node (Some s) = new_syntax_tree_node (Some t)" for t
      using arg_cong [OF that, of name_of] by (simp add: name_of_new split: if_splits)
    then have "\<forall>t. new_syntax_tree_node (Some s) = new_syntax_tree_node (Some t) \<longrightarrow> read_back stof k t" using rb by blast
    then show "settled stof (T k) (new_syntax_tree_node (Some s))" by (simp add: settled_def)
  qed (simp add: settled_def)
  then show "settled stof (T IDENTIFIER) (new_syntax_tree_node (Some s)) \<longleftrightarrow> short s"
    "settled stof (T INTEGER) (new_syntax_tree_node (Some s)) \<longleftrightarrow> short s \<and> (\<exists>i. stoi s = Inr i)"
    "settled stof (T FLOATPOINT) (new_syntax_tree_node (Some s)) \<longleftrightarrow> short s \<and> (\<exists>x. stof s = Inr x)"
    by (simp_all add: read_back_def)
qed

lemmas reads_simps = list_all2_Cons1 list_all2_Nil made_settled_simps settled_token name_of_new tree_simps nth_Cons' rbind_eq_Inr

lemma runs_expressions:
  assumes "list_all2 made ss ns" "ss \<in> set (productions A)" "runs stof A (tree (node_name A) ns)"
  shows "A = Expression \<Longrightarrow> list_all2 (settled stof) ss ns"
    "A = Var \<Longrightarrow> list_all2 (settled stof) ss ns"
    "A = Simple_Expression \<Longrightarrow> list_all2 (settled stof) ss ns"
    "A = Additive_Expression \<Longrightarrow> list_all2 (settled stof) ss ns"
    "A = Term \<Longrightarrow> list_all2 (settled stof) ss ns"
proof -
  show "list_all2 (settled stof) ss ns" if "A = Expression"
    using assms that by (auto simp: reads_simps tr_expression_def)
  show "list_all2 (settled stof) ss ns" if "A = Var"
    using assms that by (auto simp: reads_simps tr_var_def split: if_splits)
  show "list_all2 (settled stof) ss ns" if "A = Simple_Expression"
    using assms that by (auto simp: reads_simps tr_simple_expression_def)
  show "list_all2 (settled stof) ss ns" if "A = Additive_Expression"
    using assms that by (auto simp: reads_simps tr_additive_expression_def)
  show "list_all2 (settled stof) ss ns" if "A = Term"
    using assms that by (auto simp: reads_simps tr_term_def)
qed

lemma rmap_fine:
  assumes "rmap (\<lambda>t. rbind (transform_node_iter stof t) cast) xs = Inr ys" "x \<in> set xs"
  shows "fine stof x"
  using assms by (induction xs arbitrary: ys) (auto simp: rbind_eq_Inr)

lemma rmap_fine_Cons:
  "rmap (\<lambda>t. rbind (transform_node_iter stof t) cast) (x # xs) = Inr ys \<Longrightarrow> fine stof x \<and> (\<forall>x \<in> set xs. fine stof x)"
  using rmap_fine by fastforce

lemma fine_compound_stmt:
  "transform_node_iter stof (tree ''compound-stmt'' [a, l1, l2, b]) = Inr y \<Longrightarrow> runs stof Local_Declarations l1 \<and> runs stof Statement_List l2"
  by (auto simp: tree_simps tr_compound_stmt_def rbind_eq_Inr dest: rmap_fine)

lemma runs_statements:
  assumes "list_all2 made ss ns" "ss \<in> set (productions A)" "runs stof A (tree (node_name A) ns)"
  shows "A \<in> {Statement, Expression_Stmt, Selection_Stmt, Iteration_Stmt, Return_Stmt} \<Longrightarrow> list_all2 (settled stof) ss ns"
    "A \<in> {Local_Declarations, Statement_List} \<Longrightarrow> list_all2 (settled stof) ss ns"
    "A = Compound_Stmt \<Longrightarrow> list_all2 (settled stof) ss ns"
proof -
  show "list_all2 (settled stof) ss ns" if "A \<in> {Statement, Expression_Stmt, Selection_Stmt, Iteration_Stmt, Return_Stmt}"
    using assms that by (auto simp: reads_simps tr_expression_stmt_def tr_selection_stmt_def tr_iteration_stmt_def tr_return_stmt_def)
  show "list_all2 (settled stof) ss ns" if "A \<in> {Local_Declarations, Statement_List}"
    using assms that by (auto simp: reads_simps)
  show "list_all2 (settled stof) ss ns" if a: "A = Compound_Stmt"
  proof -
    obtain a l1 l2 b where "ns = [a, l1, l2, b]" "ss = [T LBRACE, N Local_Declarations, N Statement_List, T RBRACE]"
      using assms(1,2) a by (auto simp: list_all2_Cons1)
    then show ?thesis using assms(3) a fine_compound_stmt [of stof a l1 l2 b] by (auto simp: made_settled_simps)
  qed
qed

lemma all_fine_tree:
  "all_fine stof (tree nm [x]) \<longleftrightarrow> fine stof x"
  "all_fine stof (tree nm [l, c, x]) \<longleftrightarrow> all_fine stof l \<and> fine stof x"
  by (auto simp: all_fine_def tree_simps)

lemma runs_declarations:
  assumes "list_all2 made ss ns" "ss \<in> set (productions A)" "runs stof A (tree (node_name A) ns)"
  shows "A \<in> {Declaration, Declaration_List, Param_List, Arg_List} \<Longrightarrow> list_all2 (settled stof) ss ns"
    "A \<in> {Var_Declaration, Param} \<Longrightarrow> list_all2 (settled stof) ss ns"
    "A \<in> {Integer, Float, Relop, Addop, Mulop, Type_Specifier} \<Longrightarrow> list_all2 (settled stof) ss ns"
proof -
  show "list_all2 (settled stof) ss ns" if "A \<in> {Declaration, Declaration_List, Param_List, Arg_List}"
    using assms that by (auto simp: reads_simps all_fine_tree)
  show "list_all2 (settled stof) ss ns" if "A \<in> {Var_Declaration, Param}"
    using assms that by (auto simp: reads_simps tr_var_declaration_def tr_param_def Let_def split: if_splits)
  show "list_all2 (settled stof) ss ns" if "A \<in> {Integer, Float, Relop, Addop, Mulop, Type_Specifier}"
    using assms that by (auto simp: reads_simps split: if_splits)
qed

lemma runs_program:
  assumes "runs stof Program (tree (node_name Program) [l])"
  shows "runs stof Declaration_List l"
  using assms by (auto simp: tree_simps tr_program_def rbind_eq_Inr split: if_splits simp del: rmap.simps dest!: rmap_fine_Cons)

lemma runs_fun_declaration:
  assumes "runs stof Fun_Declaration (tree (node_name Fun_Declaration) [ty, nm, a, ps, b, body])"
  shows "\<exists>s. name_of nm = Inr s" "runs stof Params ps" "fine stof body"
  using assms by (auto simp: tree_simps tr_fun_declaration_def Let_def rbind_eq_Inr all_fine_def split: if_splits
      simp del: rmap.simps dest!: rmap_fine_Cons)

lemma runs_call:
  assumes "runs stof Call (tree (node_name Call) [nm, a, l, b])"
  shows "\<exists>s. name_of nm = Inr s" "runs stof Args l"
  using assms by (auto simp: tree_simps tr_call_def rbind_eq_Inr all_fine_def split: if_splits
      simp del: rmap.simps dest!: rmap_fine_Cons)

lemma runs_calls:
  assumes "list_all2 made ss ns" "ss \<in> set (productions A)" "runs stof A (tree (node_name A) ns)"
  shows "A = Factor \<Longrightarrow> list_all2 (settled stof) ss ns"
    "A = Args \<Longrightarrow> list_all2 (settled stof) ss ns"
    "A = Params \<Longrightarrow> list_all2 (settled stof) ss ns"
    "A = Call \<Longrightarrow> list_all2 (settled stof) ss ns"
    "A = Program \<Longrightarrow> list_all2 (settled stof) ss ns"
    "A = Fun_Declaration \<Longrightarrow> list_all2 (settled stof) ss ns"
proof -
  show "list_all2 (settled stof) ss ns" if "A = Factor"
    using assms that by (auto simp: reads_simps tr_factor_def Let_def split: if_splits)
  show "list_all2 (settled stof) ss ns" if "A = Args"
    using assms that by (auto simp: reads_simps)
  show "list_all2 (settled stof) ss ns" if "A = Params"
    using assms that by (auto simp: reads_simps split: if_splits)
  show "list_all2 (settled stof) ss ns" if a: "A = Call"
  proof -
    obtain s b l c where n: "ns = [new_syntax_tree_node (Some s), b, l, c]" "ss = [T IDENTIFIER, T LPARENTHESE, N Args, T RPARENTHESE]"
      using assms(1,2) a by (auto simp: list_all2_Cons1 made_settled_simps)
    then show ?thesis using runs_call [of stof "new_syntax_tree_node (Some s)" b l c] assms(3) a
      by (auto simp: made_settled_simps settled_token name_of_new split: if_splits)
  qed
  show "list_all2 (settled stof) ss ns" if a: "A = Program"
  proof -
    obtain l where n: "ns = [l]" "ss = [N Declaration_List]" using assms(1,2) a by (auto simp: list_all2_Cons1)
    then show ?thesis using runs_program [of stof l] assms(3) a by (auto simp: made_settled_simps)
  qed
  show "list_all2 (settled stof) ss ns" if a: "A = Fun_Declaration"
  proof -
    obtain ty s b ps c body where n: "ns = [ty, new_syntax_tree_node (Some s), b, ps, c, body]"
      "ss = [N Type_Specifier, T IDENTIFIER, T LPARENTHESE, N Params, T RPARENTHESE, N Compound_Stmt]"
      using assms(1,2) a by (auto simp: list_all2_Cons1 made_settled_simps)
    then show ?thesis using runs_fun_declaration [of stof ty "new_syntax_tree_node (Some s)" b ps c body] assms(3) a
      by (auto simp: made_settled_simps settled_token name_of_new split: if_splits)
  qed
qed

lemma runs_production:
  assumes "list_all2 made ss ns" "ss \<in> set (productions A)" "runs stof A (tree (node_name A) ns)"
  shows "list_all2 (settled stof) ss ns"
  using runs_expressions [OF assms] runs_statements [OF assms] runs_declarations [OF assms] runs_calls [OF assms]
  by (cases A) blast+

lemma built_made: "derivation t \<Longrightarrow> made (symbol_of t) (built t)"
  by (cases t) (auto simp: made_def)

text \<open>The tokens below a node that is transformed without an error.\<close>

lemma runs_reads:
  assumes "derivation (Production A ts)" "runs stof A (built (Production A ts))"
  shows "\<forall>(k, s) \<in> set (leaves (Production A ts)). read_back stof k s"
  using assms
proof (induction "Production A ts" arbitrary: A ts rule: measure_induct_rule [of size])
  case less
  have der: "list_all derivation ts" "map symbol_of ts \<in> set (productions A)" using less.prems(1) by simp_all
  have "list_all2 made (map symbol_of ts) (map built ts)"
    using der(1) built_made by (simp add: list_all2_conv_all_nth list_all_length)
  from runs_production [OF this der(2)] less.prems(2) have s: "list_all2 (settled stof) (map symbol_of ts) (map built ts)" by simp
  have "\<forall>(k, s) \<in> set (leaves t). read_back stof k s" if t: "t \<in> set ts" for t
  proof -
    have here: "settled stof (symbol_of t) (built t)"
      using s t by (auto simp: list_all2_conv_all_nth in_set_conv_nth)
    show ?thesis
    proof (cases t)
      case (Token k w)
      then show ?thesis using here by (auto simp: settled_def)
    next
      case (Production B us)
      have "size (Production B us) < size (Production A ts)"
        using t Production size_list_estimation' [OF t order_refl, of size] by simp
      moreover have "derivation (Production B us)" using der(1) t Production by (auto simp: list_all_iff)
      moreover have "runs stof B (built (Production B us))" using here Production by (simp add: settled_def)
      ultimately show ?thesis unfolding Production by (rule less.hyps)
    qed
  qed
  then show ?case by auto
qed

end
