(* ===== verification/Grammar_Properties.thy ===== *)
theory Grammar_Properties
  imports Grammar_Reads
begin

text \<open>
  \<^verbatim>\<open>AST\<close> understands every tree of the grammar, and every program is the value of a text.
\<close>

section \<open>Every tree of the grammar is understood\<close>

text \<open>The texts of the tokens that can be read back from the tree.\<close>

definition readable :: "(string \<Rightarrow> 'f result) \<Rightarrow> token \<Rightarrow> string \<Rightarrow> bool" where
  "readable stof k s \<longleftrightarrow> short s \<and> (k = INTEGER \<longrightarrow> (\<exists>i. stoi s = Inr i)) \<and> (k = FLOATPOINT \<longrightarrow> (\<exists>x. stof s = Inr x))"

text \<open>What the transformation finds in the node of a nonterminal.\<close>

abbreviation each :: "(string \<Rightarrow> 'f result) \<Rightarrow> syntax_tree_node set \<Rightarrow> ('f ASTNode \<Rightarrow> 'b result) \<Rightarrow> bool" where
  "each stof S cast \<equiv> \<forall>x \<in> S. \<exists>y. rbind (transform_node_iter stof x) cast = Inr y"

definition lexeme_node :: "syntax_tree_node \<Rightarrow> bool" where
  "lexeme_node n \<longleftrightarrow> (\<exists>c s. child 0 n = Inr c \<and> name_of c = Inr s)"

definition separated :: "(string \<Rightarrow> 'f result) \<Rightarrow> ('f ASTNode \<Rightarrow> 'b result) \<Rightarrow> syntax_tree_node \<Rightarrow> bool" where
  "separated stof cast n \<longleftrightarrow> (\<exists>c. child 0 (snd (spine3 n)) = Inr c \<and> each stof (set (c # fst (spine3 n))) cast)"

fun understood :: "(string \<Rightarrow> 'f result) \<Rightarrow> nonterm \<Rightarrow> syntax_tree_node \<Rightarrow> bool" where
  "understood stof Program n = (\<exists>p. transform_node_iter stof n = Inr (NodeProgram p))"
| "understood stof Declaration_List n =
     (\<exists>c. child 0 (snd (spine2 n)) = Inr c \<and> each stof (set (c # fst (spine2 n))) as_declaration)"
| "understood stof Declaration n = (\<exists>d. transform_node_iter stof n = Inr (NodeDeclaration d))"
| "understood stof Var_Declaration n = (\<exists>d. transform_node_iter stof n = Inr (NodeDeclaration (VarDeclaration d)))"
| "understood stof Type_Specifier n = lexeme_node n"
| "understood stof Fun_Declaration n = (\<exists>d. transform_node_iter stof n = Inr (NodeDeclaration d))"
| "understood stof Params n = (\<exists>c. child 0 n = Inr c \<and> (children_num c = 0 \<or> separated stof as_param c))"
| "understood stof Param_List n = separated stof as_param n"
| "understood stof Param n = (\<exists>p. transform_node_iter stof n = Inr (NodeParam p))"
| "understood stof Compound_Stmt n = (\<exists>ds ss. transform_node_iter stof n = Inr (NodeStatement (ASTCompoundStmt ds ss)))"
| "understood stof Local_Declarations n = each stof (set (fst (spine2 n))) as_var_declaration"
| "understood stof Statement_List n = each stof (set (fst (spine2 n))) as_statement"
| "understood stof Expression n = (\<exists>e. transform_node_iter stof n = Inr (NodeFactor (FactorExpression e)))"
| "understood stof Var n = (\<exists>v. transform_node_iter stof n = Inr (NodeFactor (FactorVar v)))"
| "understood stof Simple_Expression n = (\<exists>e. transform_node_iter stof n = Inr (NodeFactor (FactorExpression e)))"
| "understood stof Relop n = lexeme_node n"
| "understood stof Additive_Expression n = (\<exists>a. transform_node_iter stof n = Inr (NodeAdditive a))"
| "understood stof Addop n = lexeme_node n"
| "understood stof Term n = (\<exists>t. transform_node_iter stof n = Inr (NodeTerm t))"
| "understood stof Mulop n = lexeme_node n"
| "understood stof Factor n = (\<exists>f. transform_node_iter stof n = Inr (NodeFactor f))"
| "understood stof Integer n = (\<exists>c s k. child 0 n = Inr c \<and> name_of c = Inr s \<and> stoi s = Inr k)"
| "understood stof Float n = (\<exists>c s x. child 0 n = Inr c \<and> name_of c = Inr s \<and> stof s = Inr x)"
| "understood stof Call n = (\<exists>nm es. transform_node_iter stof n = Inr (NodeFactor (FactorCall nm es)))"
| "understood stof Args n = (\<exists>c nm. child 0 n = Inr c \<and> name_of c = Inr nm \<and> (nm = ''arg-list'' \<longrightarrow> separated stof as_expression c))"
| "understood stof Arg_List n = separated stof as_expression n"
| "understood stof A n = (\<exists>s. transform_node_iter stof n = Inr (NodeStatement s))"

lemma symbol_of_simps: "symbol_of t = T k \<longleftrightarrow> (\<exists>s. t = Token k s)" "symbol_of t = N A \<longleftrightarrow> (\<exists>ts. t = Production A ts)"
  by (cases t; auto)+

lemma token_leaf: "short s \<Longrightarrow> new_syntax_tree_node (Some s) = leaf s"
  by (simp add: new_syntax_tree_node_def leaf_def short_def)

lemma rmap_each: "each stof (set xs) cast \<Longrightarrow> \<exists>ys. rmap (\<lambda>t. rbind (transform_node_iter stof t) cast) xs = Inr ys"
proof (induction xs)
  case (Cons x xs)
  then obtain y ys where "rbind (transform_node_iter stof x) cast = Inr y"
    "rmap (\<lambda>t. rbind (transform_node_iter stof t) cast) xs = Inr ys" by auto
  then show ?case by simp
qed simp

text \<open>The node of a symbol in a production.\<close>

definition fits :: "(string \<Rightarrow> 'f result) \<Rightarrow> symbol \<Rightarrow> syntax_tree_node \<Rightarrow> bool" where
  "fits stof x n \<longleftrightarrow> (case x of T k \<Rightarrow> (\<exists>s. n = leaf s \<and> readable stof k s)
     | N B \<Rightarrow> understood stof B n \<and> name_of n = Inr (node_name B))"

lemma fits_simps:
  "fits stof (T k) n \<longleftrightarrow> (\<exists>s. n = leaf s \<and> readable stof k s)"
  "fits stof (N B) n \<longleftrightarrow> understood stof B n \<and> name_of n = Inr (node_name B)"
  by (simp_all add: fits_def)

lemma lexeme_node_leaf: "short s \<Longrightarrow> lexeme_node (tree nm [leaf s])"
  by (simp add: lexeme_node_def tree_simps)

lemma lexeme_grandchild: "lexeme_node c \<Longrightarrow> i < length cs \<Longrightarrow> cs ! i = c \<Longrightarrow> \<exists>s. grandchild_name i (tree nm cs) = Inr s"
  by (auto simp: lexeme_node_def grandchild_name_def tree_simps)

lemma readable_short: "readable stof k s \<Longrightarrow> short s"
  by (simp add: readable_def)

lemmas production_simps = list_all2_Cons1 list_all2_Nil fits_simps tree_simps nth_Cons'

lemma understood_expressions:
  assumes "list_all2 (fits stof) ss ns" "ss \<in> set (productions A)"
  shows "A = Expression \<Longrightarrow> understood stof A (tree (node_name A) ns)"
    "A = Var \<Longrightarrow> understood stof A (tree (node_name A) ns)"
    "A = Simple_Expression \<Longrightarrow> understood stof A (tree (node_name A) ns)"
    "A = Additive_Expression \<Longrightarrow> understood stof A (tree (node_name A) ns)"
    "A = Term \<Longrightarrow> understood stof A (tree (node_name A) ns)"
proof -
  show "understood stof A (tree (node_name A) ns)" if "A = Expression"
    using assms that by (auto simp: production_simps tr_expression_def as_var_def as_expression_def)
  show "understood stof A (tree (node_name A) ns)" if "A = Var"
    using assms that by (auto simp: production_simps tr_var_def as_expression_def readable_def)
  show "understood stof A (tree (node_name A) ns)" if a: "A = Simple_Expression"
    using assms lexeme_grandchild [of "ns ! 1" 1 ns "''simple-expression''"] that
    by (auto simp: production_simps tr_simple_expression_def as_additive_def)
  show "understood stof A (tree (node_name A) ns)" if "A = Additive_Expression"
    using assms lexeme_grandchild [of "ns ! 1" 1 ns "''additive-expression''"] that
    by (auto simp: production_simps tr_additive_expression_def as_additive_def as_term_def)
  show "understood stof A (tree (node_name A) ns)" if "A = Term"
    using assms lexeme_grandchild [of "ns ! 1" 1 ns "''term''"] that
    by (auto simp: production_simps tr_term_def as_factor_def as_term_def)
qed

lemma separated_single: "\<exists>y. rbind (transform_node_iter stof x) cast = Inr y \<Longrightarrow> separated stof cast (tree nm [x])"
  by (simp add: separated_def tree_simps)

lemma separated_more:
  "separated stof cast l \<Longrightarrow> \<exists>y. rbind (transform_node_iter stof x) cast = Inr y \<Longrightarrow> separated stof cast (tree nm [l, c, x])"
  by (auto simp: separated_def tree_simps)

lemma separated_list:
  assumes "separated stof cast l"
  shows "\<exists>c ys. child 0 (snd (spine3 l)) = Inr c \<and> rmap (\<lambda>t. rbind (transform_node_iter stof t) cast) (c # fst (spine3 l)) = Inr ys"
  using assms rmap_each unfolding separated_def by blast

lemma understood_calls:
  assumes "list_all2 (fits stof) ss ns" "ss \<in> set (productions A)"
  shows "A = Factor \<Longrightarrow> understood stof A (tree (node_name A) ns)"
    "A = Call \<Longrightarrow> understood stof A (tree (node_name A) ns)"
    "A = Args \<Longrightarrow> understood stof A (tree (node_name A) ns)"
    "A = Arg_List \<Longrightarrow> understood stof A (tree (node_name A) ns)"
    "A \<in> {Integer, Float, Relop, Addop, Mulop, Type_Specifier} \<Longrightarrow> understood stof A (tree (node_name A) ns)"
proof -
  show "understood stof A (tree (node_name A) ns)" if "A = Factor"
    using assms that by (auto simp: production_simps tr_factor_def)
  show "understood stof A (tree (node_name A) ns)" if a: "A = Call"
  proof -
    obtain s s1 l s2 where ns: "ns = [leaf s, leaf s1, l, leaf s2]" "short s" "understood stof Args l"
      using assms a by (auto simp: list_all2_Cons1 fits_simps readable_def)
    obtain c nm where c: "child 0 l = Inr c" "name_of c = Inr nm" "nm = ''arg-list'' \<longrightarrow> separated stof as_expression c"
      using ns(3) by auto
    show ?thesis
    proof (cases "nm = ''arg-list''")
      case True
      then obtain d ys where "child 0 (snd (spine3 c)) = Inr d"
        "rmap (\<lambda>t. rbind (transform_node_iter stof t) as_expression) (d # fst (spine3 c)) = Inr ys"
        using separated_list c(3) by blast
      then show ?thesis using ns(2) c True a unfolding ns(1) by (simp add: tree_simps tr_call_def del: rmap.simps)
    next
      case False
      then show ?thesis using ns(2) c a unfolding ns(1) by (simp add: tree_simps tr_call_def del: rmap.simps)
    qed
  qed
  show "understood stof A (tree (node_name A) ns)" if "A = Args"
    using assms that by (auto simp: production_simps)
  show "understood stof A (tree (node_name A) ns)" if "A = Arg_List"
    using assms that by (auto simp: list_all2_Cons1 fits_simps as_expression_def intro!: separated_single separated_more)
  show "understood stof A (tree (node_name A) ns)" if "A \<in> {Integer, Float, Relop, Addop, Mulop, Type_Specifier}"
    using assms that by (auto simp: production_simps readable_def lexeme_node_leaf)
qed

lemma understood_statements:
  assumes "list_all2 (fits stof) ss ns" "ss \<in> set (productions A)"
  shows "A \<in> {Statement, Expression_Stmt, Selection_Stmt, Iteration_Stmt, Return_Stmt} \<Longrightarrow> understood stof A (tree (node_name A) ns)"
    "A = Compound_Stmt \<Longrightarrow> understood stof A (tree (node_name A) ns)"
    "A \<in> {Local_Declarations, Statement_List} \<Longrightarrow> understood stof A (tree (node_name A) ns)"
proof -
  show "understood stof A (tree (node_name A) ns)" if "A \<in> {Statement, Expression_Stmt, Selection_Stmt, Iteration_Stmt, Return_Stmt}"
    using assms that
    by (auto simp: production_simps tr_expression_stmt_def tr_selection_stmt_def tr_iteration_stmt_def tr_return_stmt_def
        as_expression_def as_statement_def)
  show "understood stof A (tree (node_name A) ns)" if a: "A = Compound_Stmt"
  proof -
    obtain s1 l1 l2 s2 where ns: "ns = [leaf s1, l1, l2, leaf s2]" "understood stof Local_Declarations l1" "understood stof Statement_List l2"
      using assms a by (auto simp: list_all2_Cons1 fits_simps)
    obtain ds where "rmap (\<lambda>t. rbind (transform_node_iter stof t) as_var_declaration) (fst (spine2 l1)) = Inr ds"
      using rmap_each [of "fst (spine2 l1)" stof as_var_declaration] ns(2) by auto
    moreover obtain sts where "rmap (\<lambda>t. rbind (transform_node_iter stof t) as_statement) (fst (spine2 l2)) = Inr sts"
      using rmap_each [of "fst (spine2 l2)" stof as_statement] ns(3) by auto
    ultimately show ?thesis using a unfolding ns(1) by (simp add: tree_simps tr_compound_stmt_def)
  qed
  show "understood stof A (tree (node_name A) ns)" if "A \<in> {Local_Declarations, Statement_List}"
    using assms that by (auto simp: production_simps as_var_declaration_def as_statement_def)
qed

lemma understood_declarations:
  assumes "list_all2 (fits stof) ss ns" "ss \<in> set (productions A)"
  shows "A \<in> {Declaration, Param, Var_Declaration} \<Longrightarrow> understood stof A (tree (node_name A) ns)"
    "A \<in> {Params, Param_List, Declaration_List} \<Longrightarrow> understood stof A (tree (node_name A) ns)"
    "A = Fun_Declaration \<Longrightarrow> understood stof A (tree (node_name A) ns)"
    "A = Program \<Longrightarrow> understood stof A (tree (node_name A) ns)"
proof -
  show "understood stof A (tree (node_name A) ns)" if "A \<in> {Declaration, Param, Var_Declaration}"
    using assms that lexeme_grandchild [of "ns ! 0" 0 ns "node_name A"]
    by (auto simp: production_simps tr_param_def tr_var_declaration_def readable_def Let_def)
  show "understood stof A (tree (node_name A) ns)" if "A \<in> {Params, Param_List, Declaration_List}"
    using assms that by (auto simp: production_simps as_param_def as_declaration_def intro!: separated_single separated_more)
  show "understood stof A (tree (node_name A) ns)" if a: "A = Fun_Declaration"
  proof -
    obtain ty s s1 ps s2 body where ns: "ns = [ty, leaf s, leaf s1, ps, leaf s2, body]" "short s" "lexeme_node ty"
      "understood stof Params ps" "understood stof Compound_Stmt body"
      using assms a by (auto simp: list_all2_Cons1 fits_simps readable_def)
    obtain t where t: "grandchild_name 0 (tree ''fun-declaration'' ns) = Inr t"
      using lexeme_grandchild [OF ns(3), of 0 ns] ns(1) by auto
    obtain c where c: "child 0 ps = Inr c" "children_num c = 0 \<or> separated stof as_param c" using ns(4) by auto
    obtain ds sts where b: "transform_node_iter stof body = Inr (NodeStatement (ASTCompoundStmt ds sts))" using ns(5) by auto
    show ?thesis
    proof (cases "children_num c = 0")
      case True
      then show ?thesis using t ns(2) c b a unfolding ns(1) by (simp add: tree_simps tr_fun_declaration_def as_compound_stmt_def Let_def)
    next
      case False
      then have "separated stof as_param c" using c(2) by (elim disjE) simp_all
      from separated_list [OF this] obtain d ys where "child 0 (snd (spine3 c)) = Inr d"
        "rmap (\<lambda>t. rbind (transform_node_iter stof t) as_param) (d # fst (spine3 c)) = Inr ys" by blast
      then show ?thesis
        using False t ns(2) c b a unfolding ns(1)
        by (simp add: tree_simps tr_fun_declaration_def as_compound_stmt_def Let_def del: rmap.simps)
    qed
  qed
  show "understood stof A (tree (node_name A) ns)" if a: "A = Program"
  proof -
    obtain l where ns: "ns = [l]" "understood stof Declaration_List l"
      using assms a by (auto simp: list_all2_Cons1 fits_simps)
    then obtain c where c: "child 0 (snd (spine2 l)) = Inr c" "each stof (set (c # fst (spine2 l))) as_declaration" by auto
    then obtain ds where "rmap (\<lambda>t. rbind (transform_node_iter stof t) as_declaration) (c # fst (spine2 l)) = Inr ds"
      using rmap_each by blast
    then show ?thesis using c(1) a unfolding ns(1) by (simp add: tree_simps tr_program_def del: rmap.simps)
  qed
qed

lemma understood_production:
  assumes "list_all2 (fits stof) ss ns" "ss \<in> set (productions A)"
  shows "understood stof A (tree (node_name A) ns)"
  using understood_expressions [OF assms] understood_calls [OF assms] understood_statements [OF assms]
    understood_declarations [OF assms] by (cases A) blast+

lemma derivation_understood:
  assumes "derivation (Production A ts)" "\<forall>(k, s) \<in> set (leaves (Production A ts)). readable stof k s"
  shows "understood stof A (built (Production A ts))"
  using assms
proof (induction "Production A ts" arbitrary: A ts rule: measure_induct_rule [of size])
  case less
  have "fits stof (symbol_of t) (built t)" if t: "t \<in> set ts" for t
  proof (cases t)
    case (Token k s)
    then have "readable stof k s" using less.prems(2) t by fastforce
    then show ?thesis using Token token_leaf [OF readable_short] by (auto simp: fits_simps)
  next
    case (Production B us)
    have "size (Production B us) < size (Production A ts)"
      using t Production size_list_estimation' [OF t order_refl, of size] by simp
    moreover have "derivation (Production B us)" using less.prems(1) t Production by (auto simp: list_all_iff)
    moreover have "\<forall>(k, s) \<in> set (leaves (Production B us)). readable stof k s" using less.prems(2) t Production by fastforce
    ultimately have "understood stof B (built (Production B us))" by (rule less.hyps)
    then show ?thesis using Production name_of_tree [OF short_names] by (simp add: fits_simps)
  qed
  then have "list_all2 (fits stof) (map symbol_of ts) (map built ts)"
    by (simp add: list_all2_conv_all_nth)
  then show ?case using understood_production [of stof "map symbol_of ts" "map built ts" A] less.prems(1) by simp
qed

section \<open>Tokens of the scanner\<close>

lemma longest_prefix:
  assumes "longest r s = None \<or> (\<exists>k \<le> n. longest r s = Some k)" "n \<le> length s"
  shows "longest r (take n s) = longest r s"
proof (cases "longest r s")
  case None
  then have "longest r (take n s) = None" using assms(2) unfolding longest_None by (auto simp: min_def)
  then show ?thesis using None by simp
next
  case (Some k)
  then have k: "k \<le> n" using assms(1) by auto
  have "longest r (take n s) = Some k"
    using Some k assms(2) unfolding longest_Some by (auto simp: min_def)
  then show ?thesis using Some by simp
qed

lemma match_lexeme:
  assumes "next_match st s = Some (n, Return t)"
  shows "lexeme t (take (Suc n) s)"
proof -
  note m = next_match_Some [OF assms]
  have st: "rules st = initial_rules" using m(2) by (auto simp: rules_def comment_rules_def split: if_splits)
  have "best_match initial_rules (take (Suc n) s) = best_match initial_rules s"
  proof (rule best_match_cong)
    fix r a
    assume r: "(r, a) \<in> set initial_rules"
    show "longest r (take (Suc n) s) = longest r s"
      by (rule longest_prefix) (use best_match_Some(2) [OF m(1)] r m(3) st in \<open>cases "longest r s"; auto\<close>)+
  qed
  then show ?thesis using m(1,3) st by (auto simp: lexeme_def)
qed

lemma scan_lexemes: "(t, w, l, p, e) \<in> set (fst (scan st s)) \<Longrightarrow> lexeme t w"
proof (induction "length s" arbitrary: st s rule: less_induct)
  case less
  show ?case
  proof (cases s)
    case (Cons c cs)
    show ?thesis
    proof (cases "next_match st s")
      case None
      show ?thesis by (rule less.hyps [of cs]) (use less.prems None Cons scan_echo in auto)
    next
      case (Some x)
      then obtain n a where n: "next_match st (c # cs) = Some (n, a)" using Cons by (cases x) auto
      have rest: "lexeme t w" if "(t, w, l, p, e) \<in> set (fst (scan st' (drop n cs)))" for st'
        by (rule less.hyps [OF _ that]) (simp add: Cons)
      show ?thesis
      proof (cases "\<exists>k. a = Return k")
        case True
        then obtain k where k: "a = Return k" by blast
        then show ?thesis
          using less.prems n rest match_lexeme [of st "c # cs" n k] by (auto simp: Cons scan_return)
      next
        case False
        then show ?thesis using less.prems n rest by (simp add: Cons scan_skip)
      qed
    qed
  qed (use less.prems in simp)
qed

lemma lexeme_rule:
  assumes "lexeme t w"
  shows "(w, t) \<in> set (symbols @ reserved) \<or> t = IDENTIFIER \<or> t = INTEGER \<and> list_all digit w \<and> w \<noteq> [] \<or> t = FLOATPOINT"
proof -
  have "best_match initial_rules w = Some (length w, Return t)" using assms by (simp add: lexeme_def)
  from best_match_Some(1) [OF this] obtain r where r: "(r, Return t) \<in> set initial_rules" "longest r w = Some (length w)" by blast
  then have "matches r w" by (simp add: longest_full)
  then show ?thesis using r(1) unfolding initial_rules_split by (auto simp: matches_patterns)
qed

lemma words_short: "(w, t) \<in> set (symbols @ reserved) \<Longrightarrow> short w"
  by (auto simp: symbols_def reserved_def short_def SYNTAX_TREE_NODE_NAME_MAX_def)

lemma decimal_bound: "list_all is_digit ds \<Longrightarrow> 0 \<le> v \<Longrightarrow> 0 \<le> foldl (\<lambda>v c. 10 * v + digit_val c) v ds"
proof (induction ds arbitrary: v)
  case (Cons c ds)
  have "int (of_char c) = of_char c" by (rule of_nat_of_char)
  moreover have "48 \<le> (of_char c :: nat)" using Cons.prems(1) by (simp add: is_digit_def)
  ultimately have "0 \<le> digit_val c" unfolding digit_val_def by linarith
  then show ?case using Cons by simp
qed simp

lemma stoi_digits_string:
  assumes "w \<noteq> []" "list_all is_digit w" "decimal w < 2 ^ 31"
  shows "stoi w = Inr (word_of_int (decimal w))"
proof -
  obtain c cs where c: "w = c # cs" using assms(1) by (cases w) auto
  have dig: "is_digit c" "takeWhile is_digit cs = cs"
    using assms(2) c by (simp_all add: takeWhile_eq_all_conv list_all_iff)
  have "\<not> is_space c" "c \<noteq> CHR ''-''" "c \<noteq> CHR ''+''"
    using dig(1) by (auto simp: is_digit_def is_space_def)
  moreover have "\<not> decimal w < - (2 ^ 31)" using decimal_bound [OF assms(2), of 0] by (simp add: decimal_def)
  ultimately show ?thesis using dig(1) assms(3) unfolding stoi_def Let_def c by (simp add: dig(2))
qed

lemma lexeme_readable:
  assumes "lexeme t w" "t \<in> {IDENTIFIER, INTEGER, FLOATPOINT} \<Longrightarrow> short w" "t = INTEGER \<Longrightarrow> decimal w < 2 ^ 31"
    and "t = FLOATPOINT \<Longrightarrow> \<exists>x. stof w = Inr x"
  shows "readable stof t w"
proof -
  have dig: "digit = is_digit" by (auto simp: digit_def is_digit_def fun_eq_iff)
  have "short w" using lexeme_rule [OF assms(1)] words_short assms(2) by blast
  moreover have "t = INTEGER \<longrightarrow> (\<exists>i. stoi w = Inr i)"
  proof
    assume t: "t = INTEGER"
    have "(v, INTEGER) \<notin> set (symbols @ reserved)" for v by (auto simp: symbols_def reserved_def)
    then have "list_all is_digit w \<and> w \<noteq> []" using lexeme_rule [OF assms(1)] t dig by auto
    then show "\<exists>i. stoi w = Inr i" using stoi_digits_string [of w] assms(3) t by blast
  qed
  ultimately show ?thesis using assms(4) by (simp add: readable_def)
qed

lemma integer_lexemeD:
  assumes "lexeme INTEGER w"
  shows "list_all is_digit w" "w \<noteq> []"
proof -
  have "digit = is_digit" by (auto simp: digit_def is_digit_def fun_eq_iff)
  moreover have "(v, INTEGER) \<notin> set (symbols @ reserved)" for v by (auto simp: symbols_def reserved_def)
  ultimately show "list_all is_digit w" "w \<noteq> []" using lexeme_rule [OF assms] by auto
qed

lemma stoi_bound:
  assumes "w \<noteq> []" "list_all is_digit w" "stoi w = Inr i"
  shows "decimal w < 2 ^ 31"
proof -
  obtain c cs where c: "w = c # cs" using assms(1) by (cases w) auto
  have dig: "is_digit c" "takeWhile is_digit cs = cs"
    using assms(2) c by (simp_all add: takeWhile_eq_all_conv list_all_iff)
  have "\<not> is_space c" "c \<noteq> CHR ''-''" "c \<noteq> CHR ''+''"
    using dig(1) by (auto simp: is_digit_def is_space_def)
  then show ?thesis using dig assms(3) unfolding stoi_def Let_def c by (auto simp: dig(2) split: if_splits)
qed

text \<open>The tokens of a text, without their places.\<close>

definition tokens :: "string \<Rightarrow> (token \<times> string) list" where
  "tokens s = map (\<lambda>(t, w, l, p, e). (t, w)) (fst (scan lexer_init s))"

section \<open>Every program has a text\<close>

text \<open>The names in a program.\<close>

fun expression_names :: "'f ASTExpression \<Rightarrow> string list"
  and var_names :: "'f ASTVar \<Rightarrow> string list"
  and additive_names :: "'f ASTAdditiveExpression \<Rightarrow> string list"
  and term_names :: "'f ASTTerm \<Rightarrow> string list"
  and factor_names :: "'f ASTFactor \<Rightarrow> string list"
where
  "expression_names (ASTAssignExpression v e) = var_names v @ expression_names e"
| "expression_names (ASTSimpleExpression a None) = additive_names a"
| "expression_names (ASTSimpleExpression a (Some (op, b))) = additive_names a @ additive_names b"
| "var_names (ASTVar nm None) = [nm]"
| "var_names (ASTVar nm (Some e)) = nm # expression_names e"
| "additive_names (ASTAdditiveExpression None t) = term_names t"
| "additive_names (ASTAdditiveExpression (Some (a, op)) t) = additive_names a @ term_names t"
| "term_names (ASTTerm None f) = factor_names f"
| "term_names (ASTTerm (Some (t, op)) f) = term_names t @ factor_names f"
| "factor_names (FactorExpression e) = expression_names e"
| "factor_names (FactorVar v) = var_names v"
| "factor_names (FactorCall nm args) = nm # concat (map expression_names args)"
| "factor_names (FactorNum n) = []"

definition var_declaration_names :: "'f ASTVarDeclaration \<Rightarrow> string list" where
  "var_declaration_names d = (case d of ASTVarDeclaration t nm k \<Rightarrow> [nm])"

fun statement_names :: "'f ASTStatement \<Rightarrow> string list" where
  "statement_names (ASTCompoundStmt ds ss) = concat (map var_declaration_names ds) @ concat (map statement_names ss)"
| "statement_names (ASTExpressionStmt e) = (case e of None \<Rightarrow> [] | Some e \<Rightarrow> expression_names e)"
| "statement_names (ASTSelectionStmt e s1 None) = expression_names e @ statement_names s1"
| "statement_names (ASTSelectionStmt e s1 (Some s2)) = expression_names e @ statement_names s1 @ statement_names s2"
| "statement_names (ASTIterationStmt e s) = expression_names e @ statement_names s"
| "statement_names (ASTReturnStmt e) = (case e of None \<Rightarrow> [] | Some e \<Rightarrow> expression_names e)"

fun declaration_names :: "'f ASTDeclaration \<Rightarrow> string list" where
  "declaration_names (VarDeclaration d) = var_declaration_names d"
| "declaration_names (ASTFunDeclaration t nm ps body) = nm # map param_id ps @ statement_names body"

definition program_names :: "'f ASTProgram \<Rightarrow> string list" where
  "program_names p = concat (map declaration_names (declarations p))"

text \<open>A node that the actions build for the nonterminal from tokens that the scanner can return.\<close>

definition derived :: "nonterm \<Rightarrow> syntax_tree_node \<Rightarrow> bool" where
  "derived A n \<longleftrightarrow> (\<exists>ts. derivation (Production A ts) \<and> built (Production A ts) = n \<and>
     (\<forall>(k, s) \<in> set (leaves (Production A ts)). lexeme k s))"

definition derives_symbol :: "symbol \<Rightarrow> syntax_tree_node \<Rightarrow> bool" where
  "derives_symbol x n \<longleftrightarrow> (case x of T k \<Rightarrow> (\<exists>s. n = leaf s \<and> short s \<and> lexeme k s) | N B \<Rightarrow> derived B n)"

lemma derives_simps:
  "derives_symbol (T k) (leaf s) \<longleftrightarrow> short s \<and> lexeme k s" "derives_symbol (N B) n \<longleftrightarrow> derived B n"
  by (auto simp: derives_symbol_def leaf_def)

lemma derived_production:
  assumes "list_all2 derives_symbol ss ns" "ss \<in> set (productions A)"
  shows "derived A (tree (node_name A) ns)"
proof -
  have "\<exists>ts. map symbol_of ts = ss \<and> list_all derivation ts \<and> map built ts = ns \<and>
      (\<forall>t \<in> set ts. \<forall>(k, s) \<in> set (leaves t). lexeme k s)"
    using assms(1)
  proof (induction ss ns rule: list_all2_induct)
    case (Cons x ss n ns)
    then obtain ts where ts: "map symbol_of ts = ss" "list_all derivation ts" "map built ts = ns"
      "\<forall>t \<in> set ts. \<forall>(k, s) \<in> set (leaves t). lexeme k s" by blast
    obtain t where t: "symbol_of t = x" "derivation t" "built t = n" "\<forall>(k, s) \<in> set (leaves t). lexeme k s"
    proof (cases x)
      case (T k)
      then obtain s where "n = leaf s" "short s" "lexeme k s" using Cons.hyps(1) by (auto simp: derives_symbol_def)
      then show ?thesis using that [of "Token k s"] T token_leaf by simp
    next
      case (N B)
      then obtain us where "derivation (Production B us)" "built (Production B us) = n"
        "\<forall>(k, s) \<in> set (leaves (Production B us)). lexeme k s"
        using Cons.hyps(1) by (auto simp: derives_symbol_def derived_def)
      then show ?thesis using that [of "Production B us"] N by simp
    qed
    then show ?case using ts by (intro exI [of _ "t # ts"]) auto
  qed simp
  then obtain ts where "map symbol_of ts = ss" "list_all derivation ts" "map built ts = ns"
    "\<forall>t \<in> set ts. \<forall>(k, s) \<in> set (leaves t). lexeme k s" by blast
  then show ?thesis unfolding derived_def using assms(2) by (intro exI [of _ ts]) auto
qed

lemma derived_tree:
  "nm = node_name A \<Longrightarrow> \<exists>ss \<in> set (productions A). list_all2 derives_symbol ss ns \<Longrightarrow> derived A (tree nm ns)"
  using derived_production by blast

lemma derives_word: "(w, t) \<in> set (symbols @ reserved) \<Longrightarrow> derives_symbol (T t) (leaf w)"
  using words_short word_lexeme by (auto simp: derives_simps)

lemma derives_words [simp]:
  "derives_symbol (T ASSIN) (leaf ''='')" "derives_symbol (T SEMICOLON) (leaf '';'')" "derives_symbol (T COMMA) (leaf '','')"
  "derives_symbol (T LPARENTHESE) (leaf ''('')" "derives_symbol (T RPARENTHESE) (leaf '')'')"
  "derives_symbol (T LBRACKET) (leaf ''['')" "derives_symbol (T RBRACKET) (leaf '']'')"
  "derives_symbol (T LBRACE) (leaf ''{'')" "derives_symbol (T RBRACE) (leaf ''}'')"
  "derives_symbol (T IF) (leaf ''if'')" "derives_symbol (T ELSE) (leaf ''else'')" "derives_symbol (T WHILE) (leaf ''while'')"
  "derives_symbol (T RETURN) (leaf ''return'')" "derives_symbol (T VOID) (leaf ''void'')"
  by (rule derives_word; simp add: symbols_def reserved_def)+

lemma derives_operators [simp]:
  "derived Relop (tree ''relop'' [leaf (relop_lexeme r)])" "derived Addop (tree ''addop'' [leaf (addop_lexeme a)])"
  "derived Mulop (tree ''mulop'' [leaf (mulop_lexeme x)])" "derived Type_Specifier (type_specifier t)"
proof -
  have "(relop_lexeme r, case r of OP_LE \<Rightarrow> LTE | OP_LT \<Rightarrow> LT | OP_GT \<Rightarrow> GT | OP_GE \<Rightarrow> GTE | OP_EQ \<Rightarrow> EQ | OP_NEQ \<Rightarrow> NEQ)
      \<in> set (symbols @ reserved)" by (cases r) (simp_all add: relop_lexeme_def symbols_def)
  from derives_word [OF this] show "derived Relop (tree ''relop'' [leaf (relop_lexeme r)])"
    by (intro derived_tree; cases r; simp)
  have "(addop_lexeme a, case a of OP_PLUS \<Rightarrow> ADD | OP_MINUS \<Rightarrow> SUB) \<in> set (symbols @ reserved)"
    by (cases a) (simp_all add: addop_lexeme_def symbols_def)
  from derives_word [OF this] show "derived Addop (tree ''addop'' [leaf (addop_lexeme a)])"
    by (intro derived_tree; cases a; simp)
  have "(mulop_lexeme x, case x of OP_MUL \<Rightarrow> MUL | OP_DIV \<Rightarrow> DIV) \<in> set (symbols @ reserved)"
    by (cases x) (simp_all add: mulop_lexeme_def symbols_def)
  from derives_word [OF this] show "derived Mulop (tree ''mulop'' [leaf (mulop_lexeme x)])"
    by (intro derived_tree; cases x; simp)
  have "(type_lexeme t, case t of TYPE_INT \<Rightarrow> INT_TYPE | TYPE_FLOAT \<Rightarrow> FLOAT_TYPE | TYPE_VOID \<Rightarrow> VOID) \<in> set (symbols @ reserved)"
    by (cases t) (simp_all add: type_lexeme_def reserved_def)
  from derives_word [OF this] show "derived Type_Specifier (type_specifier t)"
    unfolding type_specifier_def by (intro derived_tree; cases t; simp)
qed

text \<open>A name that the scanner returns as an identifier.\<close>

definition name_ok :: "string \<Rightarrow> bool" where
  "name_ok nm \<longleftrightarrow> nm \<noteq> [] \<and> list_all letter nm \<and> nm \<notin> fst ` set reserved"

lemma derives_name: "name_ok nm \<Longrightarrow> short nm \<Longrightarrow> derives_symbol (T IDENTIFIER) (leaf nm)"
  using identifier_lexeme by (simp add: name_ok_def derives_simps)

lemma derives_int:
  assumes "unat k < 2 ^ 31"
  shows "derives_symbol (T INTEGER) (leaf (int_lexeme k))"
proof -
  have "digit = is_digit" by (auto simp: digit_def is_digit_def fun_eq_iff)
  then have "lexeme INTEGER (int_lexeme k)"
    using integer_lexeme [of "digits (unat k)"] digits_spec [of "unat k"] by (simp add: int_lexeme_def)
  then show ?thesis using int_lexeme_ok(2) [OF assms] by (simp add: derives_simps)
qed

lemma derived_list2:
  assumes "\<And>l x. derived L l \<Longrightarrow> derived E x \<Longrightarrow> derived L (tree nm [l, x])" "derived L base" "\<forall>x \<in> set xs. derived E x"
  shows "derived L (list2 nm base xs)"
  using assms(3) by (induction xs rule: rev_induct) (simp_all add: list2_def assms(1,2))

lemma derived_list3:
  assumes "\<And>l x. derived L l \<Longrightarrow> derived E x \<Longrightarrow> derived L (tree nm [l, leaf '','', x])" "\<And>x. derived E x \<Longrightarrow> derived L (tree nm [x])"
    and "\<forall>x \<in> set xs. derived E x" "xs \<noteq> []"
  shows "derived L (list3 nm xs)"
proof -
  have "derived L (foldl (\<lambda>l x. tree nm [l, leaf '','', x]) b ys)" if "derived L b" "\<forall>y \<in> set ys. derived E y" for b ys
    using that by (induction ys rule: rev_induct) (simp_all add: assms(1))
  then show ?thesis using assms(2-4) by (cases xs) (simp_all add: list3_def)
qed

lemma derived_expression:
  assumes fl: "\<forall>x. P x \<longrightarrow> short (fl x) \<and> matches pattern_FLOATPOINT (fl x)"
  shows "expression_ok P e \<Longrightarrow> list_all name_ok (expression_names e) \<Longrightarrow> derived Expression (expression_tree fl e)"
    and "var_ok P v \<Longrightarrow> list_all name_ok (var_names v) \<Longrightarrow> derived Var (var_tree fl v)"
    and "additive_ok P a \<Longrightarrow> list_all name_ok (additive_names a) \<Longrightarrow> derived Additive_Expression (additive_tree fl a)"
    and "term_ok P t \<Longrightarrow> list_all name_ok (term_names t) \<Longrightarrow> derived Term (term_tree fl t)"
    and "factor_ok P f \<Longrightarrow> list_all name_ok (factor_names f) \<Longrightarrow> derived Factor (factor_tree fl f)"
  using fl
proof (induction P e and P v and P a and P t and P f
    rule: expression_ok_var_ok_additive_ok_term_ok_factor_ok.induct)
  case (12 P nm args)
  have "derived Args (tree ''args'' (if args = [] then [] else [list3 ''arg-list'' (map (expression_tree fl) args)]))"
  proof (cases "args = []")
    case False
    have "\<forall>x \<in> set (map (expression_tree fl) args). derived Expression x"
      using 12 by (auto simp: list_all_iff)
    then have "derived Arg_List (list3 ''arg-list'' (map (expression_tree fl) args))"
      using False by (intro derived_list3) (auto intro!: derived_tree simp: derives_simps(2))
    then show ?thesis using False by (auto intro!: derived_tree simp: derives_simps(2))
  qed (auto intro!: derived_tree)
  then show ?case using 12(2,3) by (auto intro!: derived_tree simp: derives_simps(2) derives_name)
next
  case (13 P n)
  show ?case
  proof (cases n)
    case (ASTNumInt k)
    then show ?thesis using 13 derives_int by (auto intro!: derived_tree simp: derives_simps(2))
  next
    case (ASTNumFloat x)
    then have "derives_symbol (T FLOATPOINT) (leaf (fl x))" using 13 float_lexeme by (simp add: derives_simps)
    then show ?thesis using ASTNumFloat by (auto intro!: derived_tree simp: derives_simps(2))
  qed
qed (auto intro!: derived_tree simp: derives_simps(2) derives_name)

lemma derived_var_declaration:
  assumes "var_declaration_ok d" "list_all name_ok (var_declaration_names d)"
  shows "derived Var_Declaration (var_declaration_tree d)"
  using assms derives_int
  by (cases d rule: var_declaration_tree.cases)
    (auto intro!: derived_tree simp: derives_simps(2) derives_name var_declaration_names_def)

lemma derived_statement:
  assumes fl: "\<forall>x. P x \<longrightarrow> short (fl x) \<and> matches pattern_FLOATPOINT (fl x)"
  shows "statement_ok P s \<Longrightarrow> list_all name_ok (statement_names s) \<Longrightarrow>
    derived Statement (tree ''statement'' [statement_tree fl s]) \<and>
    (\<forall>ds ss. s = ASTCompoundStmt ds ss \<longrightarrow> derived Compound_Stmt (statement_tree fl s))"
proof (induction s rule: statement_names.induct)
  case (1 ds ss)
  have "derived Local_Declarations (list2 ''local-declarations'' (tree ''local-declarations'' []) (map var_declaration_tree ds))"
  proof (rule derived_list2)
    show "\<forall>x \<in> set (map var_declaration_tree ds). derived Var_Declaration x"
      using 1(2,3) by (auto simp: list_all_iff ball_Un intro!: derived_var_declaration)
  qed (auto intro!: derived_tree simp: derives_simps(2))
  moreover have "derived Statement_List (list2 ''statement-list'' (tree ''statement-list'' [])
      (map (\<lambda>s. tree ''statement'' [statement_tree fl s]) ss))"
  proof (rule derived_list2)
    have "derived Statement (tree ''statement'' [statement_tree fl x])" if "x \<in> set ss" for x
      using 1(1) [OF that] 1(2,3) that by (simp add: list_all_iff ball_Un)
    then show "\<forall>x \<in> set (map (\<lambda>s. tree ''statement'' [statement_tree fl s]) ss). derived Statement x" by simp
  qed (auto intro!: derived_tree simp: derives_simps(2))
  ultimately have "derived Compound_Stmt (statement_tree fl (ASTCompoundStmt ds ss))"
    by (auto intro!: derived_tree simp: derives_simps(2))
  then show ?case by (auto intro!: derived_tree simp: derives_simps(2) simp del: statement_tree.simps)
next
  case (2 e)
  then have "derived Expression_Stmt (statement_tree fl (ASTExpressionStmt e))"
    using derived_expression(1) [OF fl] by (cases e) (auto intro!: derived_tree simp: derives_simps(2))
  then show ?case by (auto intro!: derived_tree simp: derives_simps(2) simp del: statement_tree.simps)
next
  case (3 e s1)
  then have "derived Selection_Stmt (statement_tree fl (ASTSelectionStmt e s1 None))"
    using derived_expression(1) [OF fl] by (auto intro!: derived_tree simp: derives_simps(2))
  then show ?case by (auto intro!: derived_tree simp: derives_simps(2) simp del: statement_tree.simps)
next
  case (4 e s1 s2)
  then have "derived Selection_Stmt (statement_tree fl (ASTSelectionStmt e s1 (Some s2)))"
    using derived_expression(1) [OF fl] by (auto intro!: derived_tree simp: derives_simps(2))
  then show ?case by (auto intro!: derived_tree simp: derives_simps(2) simp del: statement_tree.simps)
next
  case (5 e s)
  then have "derived Iteration_Stmt (statement_tree fl (ASTIterationStmt e s))"
    using derived_expression(1) [OF fl] by (auto intro!: derived_tree simp: derives_simps(2))
  then show ?case by (auto intro!: derived_tree simp: derives_simps(2) simp del: statement_tree.simps)
next
  case (6 e)
  then have "derived Return_Stmt (statement_tree fl (ASTReturnStmt e))"
    using derived_expression(1) [OF fl] by (cases e) (auto intro!: derived_tree simp: derives_simps(2))
  then show ?case by (auto intro!: derived_tree simp: derives_simps(2) simp del: statement_tree.simps)
qed

lemma derived_declaration:
  assumes fl: "\<forall>x. P x \<longrightarrow> short (fl x) \<and> matches pattern_FLOATPOINT (fl x)"
    and d: "declaration_ok P d" "list_all name_ok (declaration_names d)"
  shows "derived Declaration (declaration_tree fl d)"
proof (cases d)
  case (VarDeclaration v)
  then show ?thesis using d derived_var_declaration [of v] by (auto intro!: derived_tree simp: derives_simps(2))
next
  case (ASTFunDeclaration t nm ps body)
  obtain ds ss where body: "body = ASTCompoundStmt ds ss" using d(1) ASTFunDeclaration by (cases body) simp_all
  have b: "derived Compound_Stmt (statement_tree fl body)"
    using derived_statement [OF fl, where s = body] d ASTFunDeclaration body by simp
  have param: "derived Param (param_tree q)" if "q \<in> set ps" for q
  proof -
    have "short (param_id q)" "name_ok (param_id q)"
      using d that ASTFunDeclaration by (auto simp: list_all_iff ball_Un param_ok_def)
    then show ?thesis by (cases q) (auto intro!: derived_tree simp: derives_simps(2) derives_name)
  qed
  have "derived Params (tree ''params'' [if ps = [] then leaf ''void'' else list3 ''param-list'' (map param_tree ps)])"
  proof (cases "ps = []")
    case False
    have "derived Param_List (list3 ''param-list'' (map param_tree ps))"
      using False param by (intro derived_list3) (auto intro!: derived_tree simp: derives_simps(2))
    then show ?thesis using False by (auto intro!: derived_tree simp: derives_simps(2))
  qed (auto intro!: derived_tree)
  then have "derived Fun_Declaration (tree ''fun-declaration'' [type_specifier t, leaf nm, leaf ''('',
      tree ''params'' [if ps = [] then leaf ''void'' else list3 ''param-list'' (map param_tree ps)],
      leaf '')'', statement_tree fl body])"
    using b d ASTFunDeclaration derives_name [of nm]
    by (intro derived_tree) (auto simp: derives_simps(2) simp del: statement_tree.simps)
  then show ?thesis unfolding ASTFunDeclaration declaration_tree.simps
    by (intro derived_tree) (auto simp: derives_simps(2) simp del: statement_tree.simps)
qed

lemma program_text:
  assumes fl: "\<forall>x. P x \<longrightarrow> short (fl x) \<and> matches pattern_FLOATPOINT (fl x)"
    and p: "program_ok P p" "list_all name_ok (program_names p)"
  shows "\<exists>s. parses (tokens s) (program_tree fl p)"
proof -
  have d: "\<forall>x \<in> set (map (declaration_tree fl) (declarations p)). derived Declaration x"
    using derived_declaration [OF fl] p by (auto simp: program_ok_def program_names_def list_all_iff)
  have ne: "declarations p \<noteq> []" using p(1) by (simp add: program_ok_def)
  have "derived Declaration_List (list2 ''declaration-list'' (tree ''declaration-list'' [declaration_tree fl (hd (declarations p))])
      (map (declaration_tree fl) (tl (declarations p))))"
    by (rule derived_list2) (use d ne in \<open>auto intro!: derived_tree simp: derives_simps(2) dest: list.set_sel(2)\<close>)
  then have "derived Program (program_tree fl p)"
    unfolding program_tree_def by (auto intro!: derived_tree simp: derives_simps(2))
  then obtain ts where ts: "derivation (Production Program ts)" "built (Production Program ts) = program_tree fl p"
    "\<forall>(k, s) \<in> set (leaves (Production Program ts)). lexeme k s" unfolding derived_def by blast
  let ?toks = "leaves (Production Program ts)"
  let ?ws = "map (\<lambda>(k, s). (k, s, '' '')) ?toks"
  let ?s = "concat (map (\<lambda>(t, w, sep). w @ sep) ?ws)"
  have "\<forall>(t, w, sep) \<in> set ?ws. lexeme t w \<and> sep \<noteq> [] \<and> list_all white sep" using ts(3) by (auto simp: white_def)
  then have "fst (scan lexer_init ?s) = place (1, 1) ?ws" using scan_words [of ?ws lexer_init] by (simp add: lexer_init_def)
  moreover have "map (\<lambda>(t, w, l, p, e). (t, w)) (place lp ws) = map (\<lambda>(t, w, sep). (t, w)) ws" for lp ws
    by (induction lp ws rule: place.induct) simp_all
  ultimately have "tokens ?s = ?toks" by (auto simp: tokens_def intro!: map_idI)
  then have "parses (tokens ?s) (program_tree fl p)"
    unfolding parses_def using ts(1,2) action_value_built [OF ts(1)] by (intro exI [of _ "Production Program ts"]) simp
  then show ?thesis by blast
qed

lemma accepted_text:
  assumes "parses (tokens s) n"
    and "\<forall>(t, w) \<in> set (tokens s). (t \<in> {IDENTIFIER, INTEGER, FLOATPOINT} \<longrightarrow> length w < 30) \<and>
      (t = INTEGER \<longrightarrow> decimal w < 2 ^ 31) \<and> (t = FLOATPOINT \<longrightarrow> (\<exists>x. stof w = Inr x))"
  shows "\<exists>p. AST stof (Some (Some n)) = Inr p"
proof -
  obtain t where t: "derivation t" "symbol_of t = N Program" "leaves t = tokens s" "action_value t = Inr n"
    using assms(1) by (auto simp: parses_def)
  obtain ts where ts: "t = Production Program ts" using t(2) by (auto simp: symbol_of_simps)
  have "readable stof k w" if "(k, w) \<in> set (tokens s)" for k w
  proof (rule lexeme_readable)
    show "lexeme k w" using that scan_lexemes by (auto simp: tokens_def)
  qed (use assms(2) that in \<open>auto simp: short_def SYNTAX_TREE_NODE_NAME_MAX_def\<close>)
  then have r: "\<forall>(k, s) \<in> set (leaves (Production Program ts)). readable stof k s" using t(3) ts by auto
  have "understood stof Program (built t)"
    using derivation_understood [OF _ r] t(1) ts by simp
  moreover have "n = built t" using action_value_built [OF t(1)] t(4) by simp
  ultimately show ?thesis by (auto simp: AST_def as_program_def)
qed

text \<open>What can be read of a text: its identifiers and numbers fit the buffers and the types.\<close>

definition readable_text :: "(string \<Rightarrow> 'f result) \<Rightarrow> string \<Rightarrow> bool" where
  "readable_text stof s \<longleftrightarrow>
    (\<forall>(t, w) \<in> set (tokens s). (t \<in> {IDENTIFIER, INTEGER, FLOATPOINT} \<longrightarrow> length w < 30) \<and>
      (t = INTEGER \<longrightarrow> decimal w < 2 ^ 31) \<and> (t = FLOATPOINT \<longrightarrow> (\<exists>x. stof w = Inr x)))"

lemma accepted_iff:
  assumes "parses (tokens s) n"
  shows "(\<exists>p. AST stof (Some (Some n)) = Inr p) \<longleftrightarrow> readable_text stof s"
proof
  assume "\<exists>p. AST stof (Some (Some n)) = Inr p"
  then have n: "\<exists>y. transform_node_iter stof n = Inr y" by (auto simp: AST_def rbind_eq_Inr)
  obtain ts where ts: "derivation (Production Program ts)" "leaves (Production Program ts) = tokens s"
      "action_value (Production Program ts) = Inr n"
    using assms unfolding parses_def symbol_of_simps by blast
  have "n = built (Production Program ts)" using action_value_built [OF ts(1)] ts(3) by simp
  then have read: "read_back stof k w" if "(k, w) \<in> set (tokens s)" for k w
    using runs_reads [OF ts(1), of stof] n that unfolding ts(2) by (auto simp del: built.simps)
  have "decimal w < 2 ^ 31" if w: "(INTEGER, w) \<in> set (tokens s)" for w
  proof -
    have "lexeme INTEGER w" using w scan_lexemes by (auto simp: tokens_def)
    then have "list_all is_digit w" "w \<noteq> []" by (rule integer_lexemeD)+
    then show ?thesis using read [OF w] stoi_bound by (auto simp: read_back_def)
  qed
  then show "readable_text stof s"
    using read by (auto simp: readable_text_def read_back_def short_def SYNTAX_TREE_NODE_NAME_MAX_def)
qed (simp add: accepted_text [OF assms] readable_text_def)

section \<open>Properties\<close>

text \<open>
  C14. Of a text that the grammar accepts, \<^verbatim>\<open>AST\<close> makes a program exactly when the identifiers and
  numbers in it have fewer than 30 characters, the integers are less than 2^31 and \<^verbatim>\<open>std::stof\<close>
  reads the floating-point numbers. Then no cast goes wrong, no child is missing and no branch
  aborts. Otherwise the transformation ends in an error: a longer text has no NUL in the buffer of
  its node, and \<^verbatim>\<open>std::stoi\<close> and \<^verbatim>\<open>std::stof\<close> throw.
\<close>

theorem parse_understood:
  assumes "parses (tokens s) n"
  shows "(\<exists>p. AST stof (Some (Some n)) = Inr p) \<longleftrightarrow>
    (\<forall>(t, w) \<in> set (tokens s). (t \<in> {IDENTIFIER, INTEGER, FLOATPOINT} \<longrightarrow> length w < 30) \<and>
      (t = INTEGER \<longrightarrow> decimal w < 2 ^ 31) \<and> (t = FLOATPOINT \<longrightarrow> (\<exists>x. stof w = Inr x)))"
  unfolding accepted_iff [OF assms] readable_text_def ..

text \<open>A declaration of a variable, with a blank after each token.\<close>

definition declares :: "string \<Rightarrow> string" where
  "declares x = ''int '' @ x @ '' ; ''"

definition declares_tree :: "string \<Rightarrow> parse_tree" where
  "declares_tree x = Production Program [Production Declaration_List [Production Declaration [Production Var_Declaration
    [Production Type_Specifier [Token INT_TYPE ''int''], Token IDENTIFIER x, Token SEMICOLON '';'']]]]"

lemma declares_tokens:
  assumes "name_ok x"
  shows "tokens (declares x) = [(INT_TYPE, ''int''), (IDENTIFIER, x), (SEMICOLON, '';'')]"
proof -
  have "lexeme INT_TYPE ''int''" "lexeme SEMICOLON '';''" by (rule word_lexeme; simp add: reserved_def symbols_def)+
  moreover have "lexeme IDENTIFIER x" using assms by (intro identifier_lexeme) (simp_all add: name_ok_def)
  ultimately show ?thesis
    using scan_words [of "[(INT_TYPE, ''int'', '' ''), (IDENTIFIER, x, '' ''), (SEMICOLON, '';'', '' '')]" lexer_init]
    by (simp add: declares_def tokens_def white_def lexer_init_def advance_def)
qed

lemma declares_parses: "name_ok x \<Longrightarrow> parses (tokens (declares x)) (built (declares_tree x))"
  unfolding parses_def
  by (intro exI [of _ "declares_tree x"] conjI action_value_built) (simp_all add: declares_tokens declares_tree_def)

lemma names_x: "0 < n \<Longrightarrow> name_ok (replicate n CHR ''x'')"
  by (cases n) (auto simp: name_ok_def reserved_def letter_def list_all_iff neq_Nil_conv)

theorem parse_understood_witness:
  "(\<exists>n p. parses (tokens (declares (replicate 29 CHR ''x''))) n \<and> AST example_stof (Some (Some n)) = Inr p) \<and>
   (\<exists>n. parses (tokens (declares (replicate 30 CHR ''x''))) n \<and> (\<nexists>p. AST example_stof (Some (Some n)) = Inr p))"
proof -
  let ?x = "\<lambda>k. replicate k CHR ''x''"
  have ok: "name_ok (?x 29)" "name_ok (?x 30)" by (rule names_x; simp)+
  have iff: "(\<exists>p. AST example_stof (Some (Some (built (declares_tree x)))) = Inr p) \<longleftrightarrow> length x < 30" if "name_ok x" for x
    unfolding parse_understood [OF declares_parses [OF that], of example_stof] declares_tokens [OF that] by simp
  have "\<exists>p. AST example_stof (Some (Some (built (declares_tree (?x 29))))) = Inr p" using iff [OF ok(1)] by simp
  moreover have "\<nexists>p. AST example_stof (Some (Some (built (declares_tree (?x 30))))) = Inr p" using iff [OF ok(2)] by simp
  ultimately show ?thesis using declares_parses [OF ok(1)] declares_parses [OF ok(2)] by blast
qed

text \<open>\<^verbatim>\<open>int x ;\<close>\<close>

abbreviation example_tree :: parse_tree where
  "example_tree \<equiv> declares_tree ''x''"

lemma example_tokens: "tokens ''int x ; '' = [(INT_TYPE, ''int''), (IDENTIFIER, ''x''), (SEMICOLON, '';'')]"
  using declares_tokens [OF names_x [of 1]] by (simp add: declares_def)

lemma example_parses: "parses (tokens ''int x ; '') (built example_tree)"
  using declares_parses [OF names_x [of 1]] by (simp add: declares_def del: built.simps)

text \<open>
  C15. Every program of the language has a source text: one whose tokens the grammar derives to a tree
  that \<^verbatim>\<open>AST\<close> turns back into that very program, provided its identifiers are words of letters that
  are not reserved, its texts fit the buffers, its integers fit \<^verbatim>\<open>int\<close>, its numbers are read back
  from their texts, and no variable is \<^verbatim>\<open>void\<close>.
\<close>

theorem program_has_text:
  assumes "reads_back stof fl P" "\<And>x. P x \<Longrightarrow> matches pattern_FLOATPOINT (fl x)"
    and "program_ok P p" "list_all name_ok (program_names p)"
  shows "\<exists>s n. parses (tokens s) n \<and> AST stof (Some (Some n)) = Inr p"
proof -
  obtain s where "parses (tokens s) (program_tree fl p)"
    using program_text [where P = P and fl = fl, OF _ assms(3,4)] assms(1,2) by (auto simp: reads_back_def)
  moreover have "AST stof (Some (Some (program_tree fl p))) = Inr p"
    using transform_program [OF assms(1,3)] by (simp add: AST_def as_program_def)
  ultimately show ?thesis by blast
qed

theorem program_has_text_witness:
  "\<exists>s n. parses (tokens s) n \<and> AST example_stof (Some (Some n)) = Inr example_program"
proof (rule program_has_text [OF example_reads_back _ example_program_ok])
  show "list_all name_ok (program_names example_program)"
    by (simp add: example_program_def program_names_def var_declaration_names_def number_def name_ok_def reserved_def letter_def Let_def)
  show "matches pattern_FLOATPOINT (example_fl x)" if "x < 1000" for x
  proof -
    have "digit = is_digit" by (auto simp: digit_def is_digit_def fun_eq_iff)
    then have "matches (plus_of (Class digit)) (digits x)" using digits_spec [of x] by (simp add: matches_plus_class)
    then show ?thesis by (auto simp: pattern_FLOATPOINT_def example_fl_def matches_Seq)
  qed
qed

end
