(* ===== verification/Ir_Types.thy ===== *)
theory Ir_Types
  imports Prelude
begin

text \<open>
  The types of the intermediate representation (\<^verbatim>\<open>Type.h\<close>, \<^verbatim>\<open>Type.cpp\<close>) and the tables of
  \<^verbatim>\<open>Module.cpp\<close> that create each type once. Types are compared by their addresses; the last
  section shows that two addresses are equal exactly when the types they denote are, so the
  other theories use the denoted types \<open>ty\<close>.
\<close>

section \<open>Types as values\<close>

datatype ty =
    VoidTy
  | LabelTy
  | IntegerTy (num_bits: i32)
  | FunctionTy (result_type: ty) (param_types: "ty list")
  | ArrayTy (array_contained: ty) (num_elements: i32)
  | PointerTy (pointer_contained: ty)
  | FloatTy

definition is_void_type :: "ty \<Rightarrow> bool" where
  "is_void_type t \<longleftrightarrow> t = VoidTy"

definition is_integer_type :: "ty \<Rightarrow> bool" where
  "is_integer_type t \<longleftrightarrow> (case t of IntegerTy _ \<Rightarrow> True | _ \<Rightarrow> False)"

definition is_array_type :: "ty \<Rightarrow> bool" where
  "is_array_type t \<longleftrightarrow> (case t of ArrayTy _ _ \<Rightarrow> True | _ \<Rightarrow> False)"

definition is_pointer_type :: "ty \<Rightarrow> bool" where
  "is_pointer_type t \<longleftrightarrow> (case t of PointerTy _ \<Rightarrow> True | _ \<Rightarrow> False)"

definition is_float_type :: "ty \<Rightarrow> bool" where
  "is_float_type t \<longleftrightarrow> t = FloatTy"

definition get_pointer_element_type :: "ty \<Rightarrow> ty option" where
  "get_pointer_element_type t = (case t of PointerTy c \<Rightarrow> Some c | _ \<Rightarrow> None)"

definition get_array_element_type :: "ty \<Rightarrow> ty option" where
  "get_array_element_type t = (case t of ArrayTy c _ \<Rightarrow> Some c | _ \<Rightarrow> None)"

text \<open>
  \<^verbatim>\<open>get_size\<close>: the size of an array is a product of an \<^verbatim>\<open>int\<close> and an \<^verbatim>\<open>unsigned\<close>, so it wraps.
\<close>

fun get_size :: "ty \<Rightarrow> i32" where
  "get_size (IntegerTy n) = (if n div 8 > 0 then n div 8 else 1)"
| "get_size (ArrayTy c n) = get_size c * n"
| "get_size (PointerTy (ArrayTy c n)) = get_size (ArrayTy c n)"
| "get_size (PointerTy c) = 4"
| "get_size FloatTy = 4"
| "get_size _ = 0"

fun separated :: "string \<Rightarrow> string list \<Rightarrow> string" where
  "separated sep [] = []"
| "separated sep [s] = s"
| "separated sep (s # ss) = s @ sep @ separated sep ss"

fun print_type :: "ty \<Rightarrow> string" where
  "print_type VoidTy = ''void''"
| "print_type LabelTy = ''label''"
| "print_type (IntegerTy n) = ''i'' @ digits (unat n)"
| "print_type (FunctionTy r ps) = print_type r @ '' ('' @ separated '', '' (map print_type ps) @ '')''"
| "print_type (PointerTy c) = print_type c @ ''*''"
| "print_type (ArrayTy c n) = ''['' @ digits (unat n) @ '' x '' @ print_type c @ '']''"
| "print_type FloatTy = ''float''"

definition is_valid_return_type :: "ty \<Rightarrow> bool" where
  "is_valid_return_type t \<longleftrightarrow> is_integer_type t \<or> is_void_type t \<or> is_float_type t"

definition is_valid_argument_type :: "ty \<Rightarrow> bool" where
  "is_valid_argument_type t \<longleftrightarrow> is_integer_type t \<or> is_pointer_type t \<or> is_float_type t"

definition is_valid_element_type :: "ty \<Rightarrow> bool" where
  "is_valid_element_type t \<longleftrightarrow> is_integer_type t \<or> is_array_type t \<or> is_float_type t"

section \<open>Types as objects\<close>

text \<open>
  The objects in the order of their creation, an address being a position, and the three
  maps of a module. The void, label, integer and float types are made with the module.
\<close>

type_synonym type_addr = nat

datatype type_node =
    VoidNode
  | LabelNode
  | IntegerNode i32
  | FunctionNode type_addr "type_addr list"
  | ArrayNode type_addr i32
  | PointerNode type_addr
  | FloatNode

record type_store =
  objects :: "type_node list"
  pointer_map :: "type_addr \<rightharpoonup> type_addr"
  array_map :: "type_addr \<times> i32 \<rightharpoonup> type_addr"
  function_map :: "type_addr \<times> type_addr list \<rightharpoonup> type_addr"

definition type_store_init :: type_store where
  "type_store_init = \<lparr>objects = [VoidNode, LabelNode, IntegerNode 1, IntegerNode 32, FloatNode],
     pointer_map = Map.empty, array_map = Map.empty, function_map = Map.empty\<rparr>"

definition void_ty :: type_addr where "void_ty = 0"
definition label_ty :: type_addr where "label_ty = 1"
definition int1_ty :: type_addr where "int1_ty = 2"
definition int32_ty :: type_addr where "int32_ty = 3"
definition float32_ty :: type_addr where "float32_ty = 4"

text \<open>\<^verbatim>\<open>get_module\<close> is null for a function type only.\<close>

definition has_module :: "type_node \<Rightarrow> bool" where
  "has_module n \<longleftrightarrow> (case n of FunctionNode _ _ \<Rightarrow> False | _ \<Rightarrow> True)"

fun element_node :: "type_node \<Rightarrow> bool" where
  "element_node (IntegerNode _) = True"
| "element_node (ArrayNode _ _) = True"
| "element_node FloatNode = True"
| "element_node _ = False"

fun return_node :: "type_node \<Rightarrow> bool" where
  "return_node (IntegerNode _) = True"
| "return_node VoidNode = True"
| "return_node FloatNode = True"
| "return_node _ = False"

fun argument_node :: "type_node \<Rightarrow> bool" where
  "argument_node (IntegerNode _) = True"
| "argument_node (PointerNode _) = True"
| "argument_node FloatNode = True"
| "argument_node _ = False"

definition IntegerType_get :: "i32 \<Rightarrow> type_addr result" where
  "IntegerType_get n = (if n = 1 then Inr int1_ty else if n = 32 then Inr int32_ty else Inl AssertFailed)"

definition get_pointer_type :: "type_addr \<Rightarrow> type_store \<Rightarrow> type_addr \<times> type_store" where
  "get_pointer_type c st = (case pointer_map st c of
       Some p \<Rightarrow> (p, st)
     | None \<Rightarrow> (length (objects st),
         st\<lparr>objects := objects st @ [PointerNode c],
            pointer_map := (pointer_map st)(c \<mapsto> length (objects st))\<rparr>))"

text \<open>The constructors of array and function types assert that their parts are allowed.\<close>

definition get_array_type :: "type_addr \<times> i32 \<Rightarrow> type_store \<Rightarrow> (type_addr \<times> type_store) result" where
  "get_array_type k st = (case array_map st k of
       Some p \<Rightarrow> Inr (p, st)
     | None \<Rightarrow>
         if element_node (objects st ! fst k)
         then Inr (length (objects st),
           st\<lparr>objects := objects st @ [ArrayNode (fst k) (snd k)],
              array_map := (array_map st)(k \<mapsto> length (objects st))\<rparr>)
         else Inl AssertFailed)"

definition get_function_type ::
  "type_addr \<times> type_addr list \<Rightarrow> type_store \<Rightarrow> (type_addr \<times> type_store) result"
where
  "get_function_type k st = (case function_map st k of
       Some p \<Rightarrow> Inr (p, st)
     | None \<Rightarrow>
         if return_node (objects st ! fst k) \<and> list_all (\<lambda>a. argument_node (objects st ! a)) (snd k)
         then Inr (length (objects st),
           st\<lparr>objects := objects st @ [FunctionNode (fst k) (snd k)],
              function_map := (function_map st)(k \<mapsto> length (objects st))\<rparr>)
         else Inl AssertFailed)"

text \<open>The static functions reach the module through the contained type.\<close>

definition PointerType_get :: "type_addr \<Rightarrow> type_store \<Rightarrow> (type_addr \<times> type_store) result" where
  "PointerType_get c st =
     (if has_module (objects st ! c) then Inr (get_pointer_type c st) else Inl NullDeref)"

definition ArrayType_get :: "type_addr \<Rightarrow> i32 \<Rightarrow> type_store \<Rightarrow> (type_addr \<times> type_store) result" where
  "ArrayType_get c n st =
     (if has_module (objects st ! c) then get_array_type (c, n) st else Inl NullDeref)"

definition FunctionType_get ::
  "type_addr \<Rightarrow> type_addr list \<Rightarrow> type_store \<Rightarrow> (type_addr \<times> type_store) result"
where
  "FunctionType_get r ps st =
     (if has_module (objects st ! r) then get_function_type (r, ps) st else Inl NullDeref)"

section \<open>The contract of a table\<close>

text \<open>
  The tables of types and of constants follow one scheme: look the key up, create the object
  when it is not there. \<open>obj\<close> is the object at an address, \<open>mk\<close> the object of a key.
\<close>

locale intern_table =
  fixes get :: "'k \<Rightarrow> 's \<Rightarrow> ('p \<times> 's) result"
    and obj :: "'s \<Rightarrow> 'p \<Rightarrow> 'o option"
    and mk :: "'k \<Rightarrow> 'o"
    and ok :: "'s \<Rightarrow> bool"
    and allowed :: "'k \<Rightarrow> 's \<Rightarrow> bool"
  assumes get_new: "ok s \<Longrightarrow> allowed k s \<Longrightarrow> \<exists>p s'. get k s = Inr (p, s') \<and> ok s' \<and> obj s' p = Some (mk k)"
    and get_keeps: "ok s \<Longrightarrow> get k s = Inr (p, s') \<Longrightarrow> obj s q = Some x \<Longrightarrow> obj s' q = Some x"
    and get_found: "ok s \<Longrightarrow> obj s p = Some (mk k) \<Longrightarrow> get k s = Inr (p, s)"
begin

lemma get_ok:
  assumes "ok s" "allowed k s" "get k s = Inr (p, s')"
  shows "ok s'" "obj s' p = Some (mk k)"
  using get_new [OF assms(1,2)] assms(3) by auto

lemma get_again:
  assumes "ok s" "allowed k s" "get k s = Inr (p, s')"
  shows "get k s' = Inr (p, s')"
  by (rule get_found [OF get_ok [OF assms]])

lemma get_after:
  assumes "ok s" "allowed k s" "get k s = Inr (p, s1)" "allowed k' s1" "get k' s1 = Inr (q, s2)"
  shows "p = q \<longleftrightarrow> mk k = mk k'"
proof -
  note one = get_ok [OF assms(1-3)]
  note two = get_ok [OF one(1) assms(4,5)]
  have "obj s2 p = Some (mk k)" by (rule get_keeps [OF one(1) assms(5) one(2)])
  then show ?thesis using two(2) get_found [of s1 p k'] one assms(5) by auto
qed

end

section \<open>The invariant of the store\<close>

fun parts :: "type_node \<Rightarrow> type_addr list" where
  "parts (FunctionNode r ps) = r # ps"
| "parts (ArrayNode c _) = [c]"
| "parts (PointerNode c) = [c]"
| "parts _ = []"

definition object_at :: "type_store \<Rightarrow> type_addr \<Rightarrow> type_node option" where
  "object_at st p = (if p < length (objects st) then Some (objects st ! p) else None)"

definition types_ok :: "type_store \<Rightarrow> bool" where
  "types_ok st \<longleftrightarrow> distinct (objects st) \<and>
     (\<forall>p < length (objects st). \<forall>q \<in> set (parts (objects st ! p)). q < p) \<and>
     (\<forall>c p. pointer_map st c = Some p \<longleftrightarrow> object_at st p = Some (PointerNode c)) \<and>
     (\<forall>k p. array_map st k = Some p \<longleftrightarrow> object_at st p = Some (ArrayNode (fst k) (snd k))) \<and>
     (\<forall>k p. function_map st k = Some p \<longleftrightarrow> object_at st p = Some (FunctionNode (fst k) (snd k)))"

lemma types_okD:
  assumes "types_ok st"
  shows "distinct (objects st)"
    "p < length (objects st) \<Longrightarrow> q \<in> set (parts (objects st ! p)) \<Longrightarrow> q < p"
    "pointer_map st c = Some p \<longleftrightarrow> object_at st p = Some (PointerNode c)"
    "array_map st k = Some p \<longleftrightarrow> object_at st p = Some (ArrayNode (fst k) (snd k))"
    "function_map st f = Some p \<longleftrightarrow> object_at st p = Some (FunctionNode (fst f) (snd f))"
  using assms unfolding types_ok_def by blast+

lemma type_store_init_ok: "types_ok type_store_init"
  by (auto simp: types_ok_def type_store_init_def object_at_def less_Suc_eq nth_Cons' split: if_splits)

lemma object_at_mem: "object_at st p = Some x \<Longrightarrow> x \<in> set (objects st)"
  by (auto simp: object_at_def split: if_splits)

lemma object_at_inj:
  assumes "types_ok st" "object_at st p = Some x" "object_at st q = Some x"
  shows "p = q"
  using assms types_okD(1) [OF assms(1)] by (auto simp: object_at_def nth_eq_iff_index_eq split: if_splits)

lemma object_at_snoc:
  "object_at (st\<lparr>objects := objects st @ [x], pointer_map := pm\<rparr>) p =
     (if p = length (objects st) then Some x else object_at st p)"
  "object_at (st\<lparr>objects := objects st @ [x], array_map := am\<rparr>) p =
     (if p = length (objects st) then Some x else object_at st p)"
  "object_at (st\<lparr>objects := objects st @ [x], function_map := fm\<rparr>) p =
     (if p = length (objects st) then Some x else object_at st p)"
  by (auto simp: object_at_def nth_append)

lemma mem_object_at: "x \<in> set (objects st) \<Longrightarrow> \<exists>p. object_at st p = Some x"
  by (metis in_set_conv_nth object_at_def)

text \<open>An object can be added when its parts are there and it is not.\<close>

definition parts_in :: "type_store \<Rightarrow> type_addr list \<Rightarrow> bool" where
  "parts_in st qs \<longleftrightarrow> (\<forall>q \<in> set qs. q < length (objects st))"

lemma object_at_fresh: "object_at st (length (objects st)) = None"
  by (simp add: object_at_def)

lemma grow_ok:
  assumes ok: "types_ok st" and fresh: "x \<notin> set (objects st)" and parts: "parts_in st (parts x)"
  shows "x = PointerNode c \<Longrightarrow>
      types_ok (st\<lparr>objects := objects st @ [x], pointer_map := (pointer_map st)(c \<mapsto> length (objects st))\<rparr>)"
    and "x = ArrayNode (fst k) (snd k) \<Longrightarrow>
      types_ok (st\<lparr>objects := objects st @ [x], array_map := (array_map st)(k \<mapsto> length (objects st))\<rparr>)"
    and "x = FunctionNode (fst f) (snd f) \<Longrightarrow>
      types_ok (st\<lparr>objects := objects st @ [x], function_map := (function_map st)(f \<mapsto> length (objects st))\<rparr>)"
proof -
  note inv = types_okD [OF ok]
  have d: "distinct (objects st @ [x])" using inv(1) fresh by simp
  have p: "q < p" if "p < length (objects st @ [x])" "q \<in> set (parts ((objects st @ [x]) ! p))" for p q
    using that parts inv(2) by (auto simp: parts_in_def nth_append less_Suc_eq split: if_splits)
  have new: "object_at st q \<noteq> Some x" for q using fresh object_at_mem by blast
  show "types_ok (st\<lparr>objects := objects st @ [x], pointer_map := (pointer_map st)(c \<mapsto> length (objects st))\<rparr>)"
    if "x = PointerNode c"
    unfolding types_ok_def object_at_snoc
    using d p new that inv(3-5) object_at_fresh [of st] by (auto 0 0)
  show "types_ok (st\<lparr>objects := objects st @ [x], array_map := (array_map st)(k \<mapsto> length (objects st))\<rparr>)"
    if "x = ArrayNode (fst k) (snd k)"
    unfolding types_ok_def object_at_snoc
    using d p new that inv(3-5) object_at_fresh [of st] by (auto 0 0 simp: prod_eq_iff)
  show "types_ok (st\<lparr>objects := objects st @ [x], function_map := (function_map st)(f \<mapsto> length (objects st))\<rparr>)"
    if "x = FunctionNode (fst f) (snd f)"
    unfolding types_ok_def object_at_snoc
    using d p new that inv(3-5) object_at_fresh [of st] by (auto 0 0 simp: prod_eq_iff)
qed

section \<open>The three tables of types\<close>

definition pointer_allowed :: "type_addr \<Rightarrow> type_store \<Rightarrow> bool" where
  "pointer_allowed c st \<longleftrightarrow> c < length (objects st)"

definition array_allowed :: "type_addr \<times> i32 \<Rightarrow> type_store \<Rightarrow> bool" where
  "array_allowed k st \<longleftrightarrow> fst k < length (objects st) \<and> element_node (objects st ! fst k)"

definition function_allowed :: "type_addr \<times> type_addr list \<Rightarrow> type_store \<Rightarrow> bool" where
  "function_allowed k st \<longleftrightarrow> parts_in st (fst k # snd k) \<and> return_node (objects st ! fst k) \<and>
     list_all (\<lambda>a. argument_node (objects st ! a)) (snd k)"

interpretation pointer_types: intern_table "\<lambda>c st. Inr (get_pointer_type c st)" object_at PointerNode
  types_ok pointer_allowed
proof unfold_locales
  fix s k
  assume ok: "types_ok s" and k: "pointer_allowed k s"
  show "\<exists>p s'. Inr (get_pointer_type k s) = Inr (p, s') \<and> types_ok s' \<and> object_at s' p = Some (PointerNode k)"
  proof (cases "pointer_map s k")
    case None
    then have "PointerNode k \<notin> set (objects s)"
      using mem_object_at [of _ s] types_okD(3) [OF ok, of k] by auto
    then have "types_ok (s\<lparr>objects := objects s @ [PointerNode k], pointer_map := (pointer_map s)(k \<mapsto> length (objects s))\<rparr>)"
      using grow_ok(1) [OF ok] k by (simp add: parts_in_def pointer_allowed_def)
    then show ?thesis using None by (simp add: get_pointer_type_def object_at_snoc)
  next
    case (Some p)
    moreover have "object_at s p = Some (PointerNode k)" using Some types_okD(3) [OF ok] by blast
    ultimately show ?thesis using ok by (simp add: get_pointer_type_def)
  qed
next
  fix s k p s' q x
  assume "types_ok s" "Inr (get_pointer_type k s) = Inr (p, s')" "object_at s q = Some x"
  then show "object_at s' q = Some x" using object_at_fresh [of s]
    by (auto simp: get_pointer_type_def object_at_snoc split: option.splits)
next
  fix s p k
  assume "types_ok s" "object_at s p = Some (PointerNode k)"
  then have "pointer_map s k = Some p" using types_okD(3) by blast
  then show "Inr (get_pointer_type k s) = Inr (p, s)" by (simp add: get_pointer_type_def)
qed

interpretation array_types: intern_table get_array_type object_at "\<lambda>k. ArrayNode (fst k) (snd k)"
  types_ok array_allowed
proof unfold_locales
  fix s k
  assume ok: "types_ok s" and k: "array_allowed k s"
  show "\<exists>p s'. get_array_type k s = Inr (p, s') \<and> types_ok s' \<and> object_at s' p = Some (ArrayNode (fst k) (snd k))"
  proof (cases "array_map s k")
    case None
    then have "ArrayNode (fst k) (snd k) \<notin> set (objects s)"
      using mem_object_at [of _ s] types_okD(4) [OF ok, of k] by auto
    then have "types_ok (s\<lparr>objects := objects s @ [ArrayNode (fst k) (snd k)],
        array_map := (array_map s)(k \<mapsto> length (objects s))\<rparr>)"
      using grow_ok(2) [OF ok] k by (simp add: parts_in_def array_allowed_def)
    then show ?thesis using None k by (simp add: get_array_type_def object_at_snoc array_allowed_def)
  next
    case (Some p)
    moreover have "object_at s p = Some (ArrayNode (fst k) (snd k))" using Some types_okD(4) [OF ok] by blast
    ultimately show ?thesis using ok by (simp add: get_array_type_def)
  qed
next
  fix s k p s' q x
  assume "types_ok s" "get_array_type k s = Inr (p, s')" "object_at s q = Some x"
  then show "object_at s' q = Some x" using object_at_fresh [of s]
    by (auto simp: get_array_type_def object_at_snoc split: option.splits if_splits)
next
  fix s p k
  assume "types_ok s" "object_at s p = Some (ArrayNode (fst k) (snd k))"
  then have "array_map s k = Some p" using types_okD(4) by blast
  then show "get_array_type k s = Inr (p, s)" by (simp add: get_array_type_def)
qed

interpretation function_types: intern_table get_function_type object_at "\<lambda>k. FunctionNode (fst k) (snd k)"
  types_ok function_allowed
proof unfold_locales
  fix s k
  assume ok: "types_ok s" and k: "function_allowed k s"
  show "\<exists>p s'. get_function_type k s = Inr (p, s') \<and> types_ok s' \<and> object_at s' p = Some (FunctionNode (fst k) (snd k))"
  proof (cases "function_map s k")
    case None
    then have "FunctionNode (fst k) (snd k) \<notin> set (objects s)"
      using mem_object_at [of _ s] types_okD(5) [OF ok, of k] by auto
    then have "types_ok (s\<lparr>objects := objects s @ [FunctionNode (fst k) (snd k)],
        function_map := (function_map s)(k \<mapsto> length (objects s))\<rparr>)"
      using grow_ok(3) [OF ok] k by (simp add: function_allowed_def)
    then show ?thesis using None k by (simp add: get_function_type_def object_at_snoc function_allowed_def)
  next
    case (Some p)
    moreover have "object_at s p = Some (FunctionNode (fst k) (snd k))" using Some types_okD(5) [OF ok] by blast
    ultimately show ?thesis using ok by (simp add: get_function_type_def)
  qed
next
  fix s k p s' q x
  assume "types_ok s" "get_function_type k s = Inr (p, s')" "object_at s q = Some x"
  then show "object_at s' q = Some x" using object_at_fresh [of s]
    by (auto simp: get_function_type_def object_at_snoc split: option.splits if_splits)
next
  fix s p k
  assume "types_ok s" "object_at s p = Some (FunctionNode (fst k) (snd k))"
  then have "function_map s k = Some p" using types_okD(5) by blast
  then show "get_function_type k s = Inr (p, s)" by (simp add: get_function_type_def)
qed

section \<open>Addresses denote types\<close>

fun denote :: "type_node list \<Rightarrow> type_addr \<Rightarrow> ty" where
  "denote os p =
     (if p < length os then
        (case os ! p of
           VoidNode \<Rightarrow> VoidTy
         | LabelNode \<Rightarrow> LabelTy
         | IntegerNode n \<Rightarrow> IntegerTy n
         | FunctionNode r ps \<Rightarrow>
             FunctionTy (if r < p then denote os r else VoidTy) (map (\<lambda>q. if q < p then denote os q else VoidTy) ps)
         | ArrayNode c n \<Rightarrow> ArrayTy (if c < p then denote os c else VoidTy) n
         | PointerNode c \<Rightarrow> PointerTy (if c < p then denote os c else VoidTy)
         | FloatNode \<Rightarrow> FloatTy)
      else VoidTy)"

declare denote.simps [simp del]

lemma denote_simps:
  assumes "types_ok st" "object_at st p = Some x"
  shows "denote (objects st) p = (case x of
           VoidNode \<Rightarrow> VoidTy
         | LabelNode \<Rightarrow> LabelTy
         | IntegerNode n \<Rightarrow> IntegerTy n
         | FunctionNode r ps \<Rightarrow> FunctionTy (denote (objects st) r) (map (denote (objects st)) ps)
         | ArrayNode c n \<Rightarrow> ArrayTy (denote (objects st) c) n
         | PointerNode c \<Rightarrow> PointerTy (denote (objects st) c)
         | FloatNode \<Rightarrow> FloatTy)"
proof -
  have p: "p < length (objects st)" "objects st ! p = x"
    using assms(2) by (auto simp: object_at_def split: if_splits)
  then have "q < p" if "q \<in> set (parts x)" for q using types_okD(2) [OF assms(1) p(1), of q] that by simp
  then show ?thesis using p by (subst denote.simps) (auto split: type_node.splits)
qed

lemma denote_inj:
  assumes ok: "types_ok st" and "p < length (objects st)" "q < length (objects st)"
    and "denote (objects st) p = denote (objects st) q"
  shows "p = q"
  using assms(2-4)
proof (induction p arbitrary: q rule: less_induct)
  case (less p)
  let ?D = "denote (objects st)"
  obtain x y where x: "object_at st p = Some x" "object_at st q = Some y" "objects st ! p = x" "objects st ! q = y"
    using less.prems by (simp add: object_at_def)
  note D = denote_simps [OF ok x(1)] denote_simps [OF ok x(2)]
  have below: "a < p" "a < length (objects st)" if "a \<in> set (parts x)" for a
    using types_okD(2) [OF ok less.prems(1)] that x(3) less.prems(1) by fastforce+
  have below': "b < length (objects st)" if "b \<in> set (parts y)" for b
    using types_okD(2) [OF ok less.prems(2)] that x(4) less.prems(2) by fastforce
  have IH: "a = b" if "a \<in> set (parts x)" "b \<in> set (parts y)" "?D a = ?D b" for a b
    using less.IH [OF below(1) [OF that(1)] below(2) [OF that(1)] below' [OF that(2)] that(3)] .
  have "x = y"
  proof (cases x)
    case (FunctionNode r ps)
    then obtain r' ps' where y: "y = FunctionNode r' ps'" using D less.prems(3) by (cases y) auto
    then have eq: "?D r = ?D r'" "map ?D ps = map ?D ps'" using D less.prems(3) FunctionNode by auto
    have "length ps = length ps'" using arg_cong [OF eq(2), of length] by simp
    moreover have "ps ! i = ps' ! i" if "i < length ps" for i
      using IH [of "ps ! i" "ps' ! i"] arg_cong [OF eq(2), of "\<lambda>l. l ! i"] that calculation FunctionNode y by simp
    ultimately have "ps = ps'" by (rule nth_equalityI)
    then show ?thesis using IH [of r r'] eq(1) FunctionNode y by simp
  next
    case (ArrayNode c n)
    then obtain c' n' where y: "y = ArrayNode c' n'" using D less.prems(3) by (cases y) auto
    then show ?thesis using IH [of c c'] D less.prems(3) ArrayNode by auto
  next
    case (PointerNode c)
    then obtain c' where y: "y = PointerNode c'" using D less.prems(3) by (cases y) auto
    then show ?thesis using IH [of c c'] D less.prems(3) PointerNode by auto
  qed (use D less.prems(3) in \<open>cases y; auto\<close>)+
  then show ?case using object_at_inj [OF ok x(1)] x(2) by simp
qed

text \<open>Growing the store leaves old addresses with their meaning.\<close>

lemma denote_append: "p < length os \<Longrightarrow> denote (os @ xs) p = denote os p"
proof (induction p rule: less_induct)
  case (less p)
  then show ?case
    by (subst (1 2) denote.simps) (auto simp: nth_append split: type_node.splits)
qed

end
