(* ===== verification/Ir_Values.thy ===== *)
theory Ir_Values
  imports Ir_Types Cfg
begin

text \<open>
  The objects of the intermediate representation (\<^verbatim>\<open>Value\<close>, \<^verbatim>\<open>User\<close>, \<^verbatim>\<open>Instruction\<close> and its
  classes, \<^verbatim>\<open>BasicBlock\<close>, \<^verbatim>\<open>Function\<close>, \<^verbatim>\<open>Constant\<close>, \<^verbatim>\<open>GlobalVariable\<close>) as a heap of values,
  and the operations that change them.
\<close>

section \<open>Values\<close>

type_synonym addr = nat

text \<open>A \<^verbatim>\<open>float\<close> is its 32 bits.\<close>

type_synonym f32 = "32 word"

datatype OpID =
    Ret | Br | Add | Sub | Mul | Sdiv | Fadd | Fsub | Fmul | Fdiv | Alloca | Load | Store
  | Cmp | Fcmp | Phi | Call | Getelementptr | Zext | Fptosi | Sitofp

datatype CmpOp = EQ | NE | GT | GE | LT | LE

datatype value_kind =
    ArgumentV (arg_no: nat)
  | BasicBlockV
  | FunctionV
  | GlobalVariableV (is_const: bool) (init_val: "addr option")
  | ConstantIntV (int_value: i32)
  | ConstantFPV (fp_value: f32)
  | ConstantArrayV (const_array: "addr list")
  | ConstantZeroV
  | InstructionV (op_id: OpID)

text \<open>
  One record for the fields of all classes. \<open>use_list\<close> holds the users with the number of the
  operand; \<open>operands\<close> and \<open>num_ops\<close> are those of \<^verbatim>\<open>User\<close>. \<open>parent\<close> is the block of an
  instruction, the function of a block or an argument. \<open>cmp_op\<close> belongs to comparisons and
  \<open>inst_ty\<close> is \<^verbatim>\<open>alloca_ty_\<close>, \<^verbatim>\<open>dest_ty_\<close> or \<^verbatim>\<open>element_ty_\<close>.
\<close>

record val =
  vtype :: ty
  use_list :: "(addr \<times> nat) list"
  name :: string
  kind :: value_kind
  operands :: "addr option list"
  num_ops :: nat
  parent :: "addr option"
  cmp_op :: CmpOp
  inst_ty :: ty

text \<open>
  The module: the heap, the lists that blocks, functions and the module own, and the edges
  between blocks. A function's graph is \<open>cfg_of\<close>.
\<close>

record ir =
  heap :: "addr \<rightharpoonup> val"
  next_addr :: addr
  instr_list :: "addr \<Rightarrow> addr list"
  pre_list :: "addr \<Rightarrow> addr list"
  succ_list :: "addr \<Rightarrow> addr list"
  block_list :: "addr \<Rightarrow> addr list"
  arguments :: "addr \<Rightarrow> addr list"
  seq_cnt :: "addr \<Rightarrow> nat"
  function_list :: "addr list"
  global_list :: "addr list"

definition ir_init :: ir where
  "ir_init = \<lparr>heap = Map.empty, next_addr = 0, instr_list = (\<lambda>_. []), pre_list = (\<lambda>_. []),
     succ_list = (\<lambda>_. []), block_list = (\<lambda>_. []), arguments = (\<lambda>_. []), seq_cnt = (\<lambda>_. 0),
     function_list = [], global_list = []\<rparr>"

definition cfg_of :: "ir \<Rightarrow> addr \<Rightarrow> cfg" where
  "cfg_of m f = \<lparr>basic_blocks = block_list m f, pre_bbs = pre_list m, succ_bbs = succ_list m\<rparr>"

definition set_cfg :: "addr \<Rightarrow> cfg \<Rightarrow> ir \<Rightarrow> ir" where
  "set_cfg f g m = m\<lparr>block_list := (block_list m)(f := basic_blocks g),
     pre_list := pre_bbs g, succ_list := succ_bbs g\<rparr>"

text \<open>An address without an object is dangling.\<close>

definition get_val :: "addr \<Rightarrow> ir \<Rightarrow> val result" where
  "get_val a m = (case heap m a of Some x \<Rightarrow> Inr x | None \<Rightarrow> Inl UndefinedBehaviour)"

definition upd_val :: "addr \<Rightarrow> (val \<Rightarrow> val) \<Rightarrow> ir \<Rightarrow> ir result" where
  "upd_val a f m = rbind (get_val a m) (\<lambda>x. Inr (m\<lparr>heap := (heap m)(a \<mapsto> f x)\<rparr>))"

definition is_user :: "value_kind \<Rightarrow> bool" where
  "is_user k \<longleftrightarrow> (case k of ArgumentV _ \<Rightarrow> False | BasicBlockV \<Rightarrow> False | FunctionV \<Rightarrow> False | _ \<Rightarrow> True)"

definition is_constant :: "value_kind \<Rightarrow> bool" where
  "is_constant k \<longleftrightarrow> (case k of ConstantIntV _ \<Rightarrow> True | ConstantFPV _ \<Rightarrow> True | ConstantArrayV _ \<Rightarrow> True
     | ConstantZeroV \<Rightarrow> True | _ \<Rightarrow> False)"

definition is_instruction :: "value_kind \<Rightarrow> bool" where
  "is_instruction k \<longleftrightarrow> (case k of InstructionV _ \<Rightarrow> True | _ \<Rightarrow> False)"

definition is_void :: "val \<Rightarrow> bool" where
  "is_void x \<longleftrightarrow> kind x = InstructionV Ret \<or> kind x = InstructionV Br \<or> kind x = InstructionV Store \<or>
     kind x = InstructionV Call \<and> is_void_type (vtype x)"

definition isBinary :: "val \<Rightarrow> bool" where
  "isBinary x \<longleftrightarrow> kind x \<in> InstructionV ` {Add, Sub, Mul, Sdiv, Fadd, Fsub, Fmul, Fdiv} \<and> num_ops x = 2"

definition isTerminator :: "val \<Rightarrow> bool" where
  "isTerminator x \<longleftrightarrow> kind x = InstructionV Br \<or> kind x = InstructionV Ret"

definition new_val :: "ty \<Rightarrow> string \<Rightarrow> value_kind \<Rightarrow> nat \<Rightarrow> addr option \<Rightarrow> val" where
  "new_val t nm k n p = \<lparr>vtype = t, use_list = [], name = nm, kind = k, operands = replicate n None,
     num_ops = n, parent = p, cmp_op = EQ, inst_ty = VoidTy\<rparr>"

definition alloc :: "val \<Rightarrow> ir \<Rightarrow> addr \<times> ir" where
  "alloc x m = (next_addr m, m\<lparr>heap := (heap m)(next_addr m \<mapsto> x), next_addr := next_addr m + 1\<rparr>)"

section \<open>Uses\<close>

definition add_use :: "addr \<Rightarrow> addr \<Rightarrow> nat \<Rightarrow> ir \<Rightarrow> ir result" where
  "add_use this v n = upd_val this (\<lambda>x. x\<lparr>use_list := use_list x @ [(v, n)]\<rparr>)"

definition remove_use :: "addr \<Rightarrow> addr \<Rightarrow> ir \<Rightarrow> ir result" where
  "remove_use this v = upd_val this (\<lambda>x. x\<lparr>use_list := filter (\<lambda>u. fst u \<noteq> v) (use_list x)\<rparr>)"

definition set_name :: "addr \<Rightarrow> string \<Rightarrow> ir \<Rightarrow> (bool \<times> ir) result" where
  "set_name this nm m = rbind (get_val this m) (\<lambda>x.
     if name x = [] then rbind (upd_val this (\<lambda>x. x\<lparr>name := nm\<rparr>) m) (\<lambda>m. Inr (True, m)) else Inr (False, m))"

definition get_operand :: "addr \<Rightarrow> nat \<Rightarrow> ir \<Rightarrow> addr option result" where
  "get_operand this i m = rbind (get_val this m) (\<lambda>x.
     if i < length (operands x) then Inr (operands x ! i) else Inl UndefinedBehaviour)"

text \<open>The operand as an object that is used.\<close>

definition deref_operand :: "addr \<Rightarrow> nat \<Rightarrow> ir \<Rightarrow> addr result" where
  "deref_operand this i m = rbind (get_operand this i m) (\<lambda>v. case v of Some a \<Rightarrow> Inr a | None \<Rightarrow> Inl NullDeref)"

definition set_operand :: "addr \<Rightarrow> nat \<Rightarrow> addr \<Rightarrow> ir \<Rightarrow> ir result" where
  "set_operand this i v m = rbind (get_val this m) (\<lambda>x.
     if \<not> i < num_ops x then Inl AssertFailed
     else if \<not> i < length (operands x) then Inl UndefinedBehaviour
     else rbind (upd_val this (\<lambda>x. x\<lparr>operands := (operands x)[i := Some v]\<rparr>) m) (add_use v this i))"

definition add_operand :: "addr \<Rightarrow> addr \<Rightarrow> ir \<Rightarrow> ir result" where
  "add_operand this v m = rbind (get_val this m) (\<lambda>x.
     rbind (upd_val this (\<lambda>x. x\<lparr>operands := operands x @ [Some v]\<rparr>) m) (\<lambda>m.
     rbind (add_use v this (num_ops x) m)
       (upd_val this (\<lambda>x. x\<lparr>num_ops := num_ops x + 1\<rparr>))))"

definition remove_uses :: "addr \<Rightarrow> addr option list \<Rightarrow> ir \<Rightarrow> ir result" where
  "remove_uses this = rfold (\<lambda>v m. case v of Some a \<Rightarrow> remove_use a this m | None \<Rightarrow> Inl NullDeref)"

definition remove_use_of_ops :: "addr \<Rightarrow> ir \<Rightarrow> ir result" where
  "remove_use_of_ops this m = rbind (get_val this m) (\<lambda>x. remove_uses this (operands x) m)"

text \<open>The operands from \<open>i\<close> to \<open>j\<close> go; the numbers in the uses of those behind stay as they are.\<close>

definition remove_operands :: "addr \<Rightarrow> nat \<Rightarrow> nat \<Rightarrow> ir \<Rightarrow> ir result" where
  "remove_operands this i j m = rbind (get_val this m) (\<lambda>x.
     if j + 1 < i \<or> length (operands x) < j + 1 then Inl UndefinedBehaviour
     else rbind (remove_uses this (take (j + 1 - i) (drop i (operands x))) m)
       (upd_val this (\<lambda>x. let ops = take i (operands x) @ drop (j + 1) (operands x) in
          x\<lparr>operands := ops, num_ops := length ops\<rparr>)))"

text \<open>
  The loops over the list of uses, which \<^verbatim>\<open>set_operand\<close> may extend while they run. A list
  iterator is the position in the list.
\<close>

partial_function (option) replace_uses :: "addr \<Rightarrow> addr \<Rightarrow> nat \<Rightarrow> ir \<Rightarrow> ir outcome" where
  "replace_uses this new i m =
     obind (Some (get_val this m)) (\<lambda>x.
       if i < length (use_list x) then
         obind (Some (get_val (fst (use_list x ! i)) m)) (\<lambda>u.
           if \<not> is_user (kind u) then Some (Inl AssertFailed)
           else obind (Some (set_operand (fst (use_list x ! i)) (snd (use_list x ! i)) new m))
             (\<lambda>m. replace_uses this new (Suc i) m))
       else Some (Inr m))"

definition replace_all_use_with :: "addr \<Rightarrow> addr \<Rightarrow> ir \<Rightarrow> ir outcome" where
  "replace_all_use_with this new m =
     obind (replace_uses this new 0 m) (\<lambda>m. Some (upd_val this (\<lambda>x. x\<lparr>use_list := []\<rparr>) m))"

definition remove_nth :: "nat \<Rightarrow> 'a list \<Rightarrow> 'a list" where
  "remove_nth i xs = take i xs @ drop (Suc i) xs"

partial_function (option) replace_uses_when ::
  "addr \<Rightarrow> addr \<Rightarrow> (addr \<Rightarrow> ir \<Rightarrow> bool result) \<Rightarrow> nat \<Rightarrow> ir \<Rightarrow> ir outcome"
where
  "replace_uses_when this new pred i m =
     obind (Some (get_val this m)) (\<lambda>x.
       if i < length (use_list x) then
         obind (Some (get_val (fst (use_list x ! i)) m)) (\<lambda>u.
           if \<not> is_user (kind u) then Some (Inl AssertFailed)
           else obind (Some (pred (fst (use_list x ! i)) m)) (\<lambda>holds.
             if \<not> holds then replace_uses_when this new pred (Suc i) m
             else obind (Some (set_operand (fst (use_list x ! i)) (snd (use_list x ! i)) new m)) (\<lambda>m.
             obind (Some (upd_val this (\<lambda>x. x\<lparr>use_list := remove_nth i (use_list x)\<rparr>) m)) (\<lambda>m.
               replace_uses_when this new pred i m))))
       else Some (Inr m))"

definition replace_use_with_when :: "addr \<Rightarrow> addr \<Rightarrow> (addr \<Rightarrow> ir \<Rightarrow> bool result) \<Rightarrow> ir \<Rightarrow> ir outcome" where
  "replace_use_with_when this new pred = replace_uses_when this new pred 0"

section \<open>Blocks\<close>

definition add_instruction :: "addr \<Rightarrow> addr \<Rightarrow> ir \<Rightarrow> ir" where
  "add_instruction b i m = m\<lparr>instr_list := (instr_list m)(b := instr_list m b @ [i])\<rparr>"

definition add_instr_begin :: "addr \<Rightarrow> addr \<Rightarrow> ir \<Rightarrow> ir" where
  "add_instr_begin b i m = m\<lparr>instr_list := (instr_list m)(b := i # instr_list m b)\<rparr>"

definition unlink_instr :: "addr \<Rightarrow> addr \<Rightarrow> ir \<Rightarrow> ir" where
  "unlink_instr b i m = m\<lparr>instr_list := (instr_list m)(b := remove1 i (instr_list m b))\<rparr>"

text \<open>\<^verbatim>\<open>ilist::erase\<close> destroys the object, \<^verbatim>\<open>remove\<close> does not.\<close>

definition erase_from_list :: "addr \<Rightarrow> addr \<Rightarrow> ir \<Rightarrow> ir" where
  "erase_from_list b i m = (unlink_instr b i m)\<lparr>heap := (heap m)(i := None)\<rparr>"

definition delete_instr :: "addr \<Rightarrow> addr \<Rightarrow> ir \<Rightarrow> ir result" where
  "delete_instr b i m = remove_use_of_ops i (unlink_instr b i m)"

definition erase_instr :: "addr \<Rightarrow> addr \<Rightarrow> ir \<Rightarrow> ir result" where
  "erase_instr b i m = rbind (remove_use_of_ops i m) (\<lambda>m. Inr (erase_from_list b i m))"

definition get_terminator :: "addr \<Rightarrow> ir \<Rightarrow> addr option result" where
  "get_terminator b m = (if instr_list m b = [] then Inr None
     else rbind (get_val (last (instr_list m b)) m) (\<lambda>x.
       Inr (if isTerminator x then Some (last (instr_list m b)) else None)))"

definition create_basic_block :: "string \<Rightarrow> addr option \<Rightarrow> ir \<Rightarrow> (addr \<times> ir) result" where
  "create_basic_block nm f m = (case f of
       None \<Rightarrow> Inl AssertFailed
     | Some f \<Rightarrow>
         let (b, m) = alloc (new_val LabelTy ((if nm = [] then [] else ''label_'') @ nm) BasicBlockV 0 (Some f)) m in
         Inr (b, set_cfg f (add_basic_block b (cfg_of m f)) m))"

definition erase_from_parent :: "addr \<Rightarrow> ir \<Rightarrow> ir result" where
  "erase_from_parent b m = rbind (get_val b m) (\<lambda>x.
     case parent x of None \<Rightarrow> Inl NullDeref | Some f \<Rightarrow> Inr (set_cfg f (remove_block b (cfg_of m f)) m))"

section \<open>Functions and global variables\<close>

definition is_declaration :: "addr \<Rightarrow> ir \<Rightarrow> bool" where
  "is_declaration f m \<longleftrightarrow> block_list m f = []"

fun build_args :: "addr \<Rightarrow> nat \<Rightarrow> ty list \<Rightarrow> ir \<Rightarrow> ir" where
  "build_args f n [] m = m"
| "build_args f n (t # ts) m =
     (let (a, m) = alloc (new_val t [] (ArgumentV n) 0 (Some f)) m in
      build_args f (Suc n) ts (m\<lparr>arguments := (arguments m)(f := arguments m f @ [a])\<rparr>))"

definition create_function :: "ty \<Rightarrow> string \<Rightarrow> ir \<Rightarrow> addr \<times> ir" where
  "create_function t nm m =
     (let (f, m) = alloc (new_val t nm FunctionV 0 None) m in
      (f, build_args f 0 (param_types t) (m\<lparr>function_list := function_list m @ [f]\<rparr>)))"

definition create_global_variable :: "string \<Rightarrow> ty \<Rightarrow> bool \<Rightarrow> addr option \<Rightarrow> ir \<Rightarrow> (addr \<times> ir) result" where
  "create_global_variable nm t c init m =
     (let (g, m) = alloc (new_val (PointerTy t) nm (GlobalVariableV c init) (if init = None then 0 else 1) None) m;
          m = m\<lparr>global_list := global_list m @ [g]\<rparr> in
      case init of None \<Rightarrow> Inr (g, m) | Some i \<Rightarrow> rbind (set_operand g 0 i m) (\<lambda>m. Inr (g, m)))"

section \<open>Instructions\<close>

definition new_instruction :: "ty \<Rightarrow> OpID \<Rightarrow> nat \<Rightarrow> addr \<Rightarrow> ir \<Rightarrow> addr \<times> ir" where
  "new_instruction t op n b m =
     (let (i, m) = alloc (new_val t [] (InstructionV op) n (Some b)) m in (i, add_instruction b i m))"

fun set_operands :: "addr \<Rightarrow> nat \<Rightarrow> addr list \<Rightarrow> ir \<Rightarrow> ir result" where
  "set_operands this i [] m = Inr m"
| "set_operands this i (v # vs) m = rbind (set_operand this i v m) (set_operands this (Suc i) vs)"

definition create_inst :: "ty \<Rightarrow> OpID \<Rightarrow> addr list \<Rightarrow> addr \<Rightarrow> ir \<Rightarrow> (addr \<times> ir) result" where
  "create_inst t op vs b m = (let (i, m) = new_instruction t op (length vs) b m in
     rbind (set_operands i 0 vs m) (\<lambda>m. Inr (i, m)))"

definition create_binary :: "OpID \<Rightarrow> addr \<Rightarrow> addr \<Rightarrow> addr \<Rightarrow> ir \<Rightarrow> (addr \<times> ir) result" where
  "create_binary op v1 v2 b =
     create_inst (if op \<in> {Fadd, Fsub, Fmul, Fdiv} then FloatTy else IntegerTy 32) op [v1, v2] b"

definition create_cmp :: "OpID \<Rightarrow> CmpOp \<Rightarrow> addr \<Rightarrow> addr \<Rightarrow> addr \<Rightarrow> ir \<Rightarrow> (addr \<times> ir) result" where
  "create_cmp op c lhs rhs b m = rbind (create_inst (IntegerTy 1) op [lhs, rhs] b m) (\<lambda>(i, m).
     rbind (upd_val i (\<lambda>x. x\<lparr>cmp_op := c\<rparr>) m) (\<lambda>m. Inr (i, m)))"

definition create_call :: "addr \<Rightarrow> addr list \<Rightarrow> addr \<Rightarrow> ir \<Rightarrow> (addr \<times> ir) result" where
  "create_call f args b m = rbind (get_val f m) (\<lambda>x.
     if length (param_types (vtype x)) \<noteq> length args then Inl AssertFailed
     else create_inst (result_type (vtype x)) Call (f # args) b m)"

definition create_icmp :: "CmpOp \<Rightarrow> addr \<Rightarrow> addr \<Rightarrow> addr \<Rightarrow> ir \<Rightarrow> (addr \<times> ir) result" where
  "create_icmp = create_cmp Cmp"

definition create_fcmp :: "CmpOp \<Rightarrow> addr \<Rightarrow> addr \<Rightarrow> addr \<Rightarrow> ir \<Rightarrow> (addr \<times> ir) result" where
  "create_fcmp = create_cmp Fcmp"

text \<open>A branch changes the lists of edges of the blocks, whatever function they are in.\<close>

definition update_edges :: "(cfg \<Rightarrow> cfg) \<Rightarrow> ir \<Rightarrow> ir" where
  "update_edges f m = (let g = f \<lparr>basic_blocks = [], pre_bbs = pre_list m, succ_bbs = succ_list m\<rparr> in
     m\<lparr>pre_list := pre_bbs g, succ_list := succ_bbs g\<rparr>)"

definition create_cond_br :: "addr \<Rightarrow> addr \<Rightarrow> addr \<Rightarrow> addr \<Rightarrow> ir \<Rightarrow> (addr \<times> ir) result" where
  "create_cond_br cond if_true if_false b m =
     create_inst VoidTy Br [cond, if_true, if_false] b (update_edges (cond_br_edges if_true if_false b) m)"

definition create_br :: "addr \<Rightarrow> addr \<Rightarrow> ir \<Rightarrow> (addr \<times> ir) result" where
  "create_br if_true b m =
     create_inst VoidTy Br [if_true] b (update_edges (br_edges if_true b) m)"

definition create_ret :: "addr \<Rightarrow> addr \<Rightarrow> ir \<Rightarrow> (addr \<times> ir) result" where
  "create_ret v = create_inst VoidTy Ret [v]"

definition create_void_ret :: "addr \<Rightarrow> ir \<Rightarrow> (addr \<times> ir) result" where
  "create_void_ret = create_inst VoidTy Ret []"

text \<open>
  \<^verbatim>\<open>GetElementPtrInst::get_element_type\<close>: \<open>n\<close> is the number of indices; the first one stays at the
  array, each further one enters an element.
\<close>

fun gep_walk :: "nat \<Rightarrow> ty \<Rightarrow> ty \<Rightarrow> ty result" where
  "gep_walk 0 arr t = Inr t"
| "gep_walk (Suc k) arr t =
     (let t' = array_contained arr in
      if 0 < k \<and> \<not> is_array_type t' then Inl AssertFailed
      else gep_walk k (if is_array_type t' then t' else arr) t')"

definition gep_element_type :: "ty \<Rightarrow> nat \<Rightarrow> ty result" where
  "gep_element_type t n = (case get_pointer_element_type t of
       None \<Rightarrow> Inl NullDeref
     | Some e \<Rightarrow>
         if \<not> (is_array_type e \<or> is_integer_type e \<or> is_float_type e) then Inl AssertFailed
         else if is_array_type e then gep_walk (n - 1) e e else Inr e)"

definition create_gep :: "addr \<Rightarrow> addr list \<Rightarrow> addr \<Rightarrow> ir \<Rightarrow> (addr \<times> ir) result" where
  "create_gep ptr idxs b m = rbind (get_val ptr m) (\<lambda>x.
     rbind (gep_element_type (vtype x) (length idxs)) (\<lambda>e.
     rbind (create_inst (PointerTy e) Getelementptr (ptr # idxs) b m) (\<lambda>(i, m).
     rbind (upd_val i (\<lambda>x. x\<lparr>inst_ty := e\<rparr>) m) (\<lambda>m. Inr (i, m)))))"

definition create_store :: "addr \<Rightarrow> addr \<Rightarrow> addr \<Rightarrow> ir \<Rightarrow> (addr \<times> ir) result" where
  "create_store v ptr = create_inst VoidTy Store [v, ptr]"

definition create_load :: "ty \<Rightarrow> addr \<Rightarrow> addr \<Rightarrow> ir \<Rightarrow> (addr \<times> ir) result" where
  "create_load t ptr b m = rbind (get_val ptr m) (\<lambda>x.
     if vtype x \<noteq> PointerTy t then Inl AssertFailed else create_inst t Load [ptr] b m)"

definition create_alloca :: "ty \<Rightarrow> addr \<Rightarrow> ir \<Rightarrow> (addr \<times> ir) result" where
  "create_alloca t b m = rbind (create_inst (PointerTy t) Alloca [] b m) (\<lambda>(i, m).
     rbind (upd_val i (\<lambda>x. x\<lparr>inst_ty := t\<rparr>) m) (\<lambda>m. Inr (i, m)))"

definition create_cast :: "OpID \<Rightarrow> addr \<Rightarrow> ty \<Rightarrow> addr \<Rightarrow> ir \<Rightarrow> (addr \<times> ir) result" where
  "create_cast op v t b m = rbind (create_inst t op [v] b m) (\<lambda>(i, m).
     rbind (upd_val i (\<lambda>x. x\<lparr>inst_ty := t\<rparr>) m) (\<lambda>m. Inr (i, m)))"

definition create_zext :: "addr \<Rightarrow> ty \<Rightarrow> addr \<Rightarrow> ir \<Rightarrow> (addr \<times> ir) result" where
  "create_zext = create_cast Zext"

definition create_fptosi :: "addr \<Rightarrow> ty \<Rightarrow> addr \<Rightarrow> ir \<Rightarrow> (addr \<times> ir) result" where
  "create_fptosi = create_cast Fptosi"

definition create_sitofp :: "addr \<Rightarrow> ty \<Rightarrow> addr \<Rightarrow> ir \<Rightarrow> (addr \<times> ir) result" where
  "create_sitofp = create_cast Sitofp"

text \<open>A phi is not put into its block.\<close>

definition create_phi :: "ty \<Rightarrow> addr \<Rightarrow> ir \<Rightarrow> addr \<times> ir" where
  "create_phi t b m = alloc (new_val t [] (InstructionV Phi) 0 (Some b)) m"

definition add_phi_pair_operand :: "addr \<Rightarrow> addr \<Rightarrow> addr \<Rightarrow> ir \<Rightarrow> ir result" where
  "add_phi_pair_operand this v b m = rbind (add_operand this v m) (add_operand this b)"

end
