(* ===== verification/Ir_Uses.thy ===== *)
theory Ir_Uses
  imports Ir_Values
begin

text \<open>
  The consistency of operands and lists of uses: a pair of a user and a number is in the list
  of a value exactly when that operand of the user is the value. The operations that build
  instructions, replace a value and erase an instruction keep it.
\<close>

section \<open>The invariant\<close>

definition operand_at :: "ir \<Rightarrow> addr \<Rightarrow> nat \<Rightarrow> addr option" where
  "operand_at m u i = (case heap m u of
       Some x \<Rightarrow> if i < length (operands x) then operands x ! i else None
     | None \<Rightarrow> None)"

definition val_ok :: "val \<Rightarrow> bool" where
  "val_ok x \<longleftrightarrow> num_ops x = length (operands x) \<and> distinct (use_list x) \<and>
     (operands x \<noteq> [] \<longrightarrow> is_user (kind x))"

definition uses_ok :: "ir \<Rightarrow> bool" where
  "uses_ok m \<longleftrightarrow> (\<forall>a x. heap m a = Some x \<longrightarrow>
       a < next_addr m \<and> val_ok x \<and> set (use_list x) = {(u, i). operand_at m u i = Some a}) \<and>
     (\<forall>u i a. operand_at m u i = Some a \<longrightarrow> heap m a \<noteq> None)"

lemma uses_okD:
  assumes "uses_ok m"
  shows "heap m a = Some x \<Longrightarrow> a < next_addr m"
    "heap m a = Some x \<Longrightarrow> val_ok x"
    "heap m a = Some x \<Longrightarrow> (u, i) \<in> set (use_list x) \<longleftrightarrow> operand_at m u i = Some a"
    "operand_at m u i = Some a \<Longrightarrow> heap m a \<noteq> None"
  using assms unfolding uses_ok_def by blast+

lemma uses_okI:
  assumes "\<And>a x. heap m a = Some x \<Longrightarrow> a < next_addr m \<and> val_ok x"
    and "\<And>a x u i. heap m a = Some x \<Longrightarrow> (u, i) \<in> set (use_list x) \<longleftrightarrow> operand_at m u i = Some a"
    and "\<And>u i a. operand_at m u i = Some a \<Longrightarrow> heap m a \<noteq> None"
  shows "uses_ok m"
  using assms unfolding uses_ok_def by (auto 0 3)

lemma uses_ok_init: "uses_ok ir_init"
  by (simp add: uses_ok_def ir_init_def operand_at_def)

lemma operand_at_Some:
  "operand_at m u i = Some a \<longleftrightarrow>
     (\<exists>x. heap m u = Some x \<and> i < length (operands x) \<and> operands x ! i = Some a)"
  by (auto simp: operand_at_def split: option.splits)

text \<open>Only the heap and the next address matter.\<close>

lemma uses_ok_heap: "heap m' = heap m \<Longrightarrow> next_addr m' = next_addr m \<Longrightarrow> uses_ok m' = uses_ok m"
  by (simp add: uses_ok_def operand_at_def)

section \<open>New objects\<close>

lemma alloc_uses [invariant_intros]:
  assumes ok: "uses_ok m" and user: "n = 0 \<or> is_user k"
  shows "uses_ok (snd (alloc (new_val t nm k n p) m))"
proof -
  let ?b = "next_addr m" and ?x = "new_val t nm k n p" and ?m = "snd (alloc (new_val t nm k n p) m)"
  have fresh: "heap m ?b = None"
    using uses_okD(1) [OF ok, of ?b] by (cases "heap m ?b") auto
  have op: "operand_at ?m u i = operand_at m u i" for u i
    using fresh by (auto simp: operand_at_def alloc_def new_val_def split: option.splits)
  have none: "operand_at m u i \<noteq> Some ?b" for u i using uses_okD(4) [OF ok] fresh by blast
  show ?thesis
  proof (rule uses_okI)
    fix a x
    assume x: "heap ?m a = Some x"
    have "val_ok ?x" using user by (auto simp: val_ok_def new_val_def)
    then show "a < next_addr ?m \<and> val_ok x"
      using x uses_okD(1,2) [OF ok, of a x] by (auto simp: alloc_def split: if_splits)
    show "(u, i) \<in> set (use_list x) \<longleftrightarrow> operand_at ?m u i = Some a" for u i
      unfolding op using x uses_okD(3) [OF ok, of a x] none
      by (auto simp: alloc_def new_val_def split: if_splits)
  next
    show "heap ?m a \<noteq> None" if "operand_at ?m u i = Some a" for u i a
      using that uses_okD(4) [OF ok, of u i a] unfolding op by (auto simp: alloc_def)
  qed
qed

text \<open>
  Writing an operand that was null. The two objects may be the same one.
\<close>

lemma set_operand_eq:
  assumes "heap m u = Some x" "i < num_ops x" "i < length (operands x)" "heap m v \<noteq> None"
  shows "\<exists>m'. set_operand u i v m = Inr m' \<and> next_addr m' = next_addr m \<and>
    heap m' = (\<lambda>a. map_option (\<lambda>y. y\<lparr>
      operands := (if a = u then (operands y)[i := Some v] else operands y),
      use_list := use_list y @ (if a = v then [(u, i)] else [])\<rparr>) (heap m a)) \<and>
    m' = m\<lparr>heap := heap m'\<rparr>"
proof -
  obtain y where y: "heap m v = Some y" using assms(4) by auto
  show ?thesis
    using assms(1-3) y
    by (auto simp: set_operand_def get_val_def upd_val_def add_use_def fun_eq_iff option.map_ident intro!: val.equality)
qed

lemma set_operand_uses:
  assumes ok: "uses_ok m" and x: "heap m u = Some x" and i: "i < length (operands x)"
    and null: "operands x ! i = None" and v: "heap m v \<noteq> None"
  shows "\<exists>m'. set_operand u i v m = Inr m' \<and> uses_ok m' \<and> next_addr m' = next_addr m \<and>
    (\<forall>a. heap m' a = None \<longleftrightarrow> heap m a = None) \<and>
    heap m' u = Some (x\<lparr>operands := (operands x)[i := Some v],
      use_list := use_list x @ (if u = v then [(u, i)] else [])\<rparr>)"
proof -
  have vx: "val_ok x" by (rule uses_okD(2) [OF ok x])
  have num: "i < num_ops x" using i vx by (simp add: val_ok_def)
  obtain m' where m': "set_operand u i v m = Inr m'" "next_addr m' = next_addr m"
    and h: "heap m' = (\<lambda>a. map_option (\<lambda>y. y\<lparr>
      operands := (if a = u then (operands y)[i := Some v] else operands y),
      use_list := use_list y @ (if a = v then [(u, i)] else [])\<rparr>) (heap m a))"
    using set_operand_eq [OF x num i v] by blast
  have op: "operand_at m' w j = (if w = u \<and> j = i then Some v else operand_at m w j)" for w j
    using x i by (auto simp: operand_at_def h nth_list_update split: option.splits)
  have old: "operand_at m u i = None" using x i null by (simp add: operand_at_def)
  have "uses_ok m'"
  proof (rule uses_okI)
    fix a z
    assume "heap m' a = Some z"
    then obtain y where y: "heap m a = Some y" and z: "z = y\<lparr>
      operands := (if a = u then (operands y)[i := Some v] else operands y),
      use_list := use_list y @ (if a = v then [(u, i)] else [])\<rparr>"
      by (auto simp: h)
    have vy: "val_ok y" by (rule uses_okD(2) [OF ok y])
    have "(u, i) \<notin> set (use_list y)" using uses_okD(3) [OF ok y, of u i] old by simp
    moreover have "operands y \<noteq> []" if "a = u" using that x y i by auto
    ultimately show "a < next_addr m' \<and> val_ok z"
      using uses_okD(1) [OF ok y] vy z m'(2) by (auto simp: val_ok_def)
    show "(w, j) \<in> set (use_list z) \<longleftrightarrow> operand_at m' w j = Some a" for w j
      using uses_okD(3) [OF ok y, of w j] z old by (auto simp: op)
  next
    show "heap m' a \<noteq> None" if "operand_at m' w j = Some a" for w j a
      using that v uses_okD(4) [OF ok, of w j a] by (auto simp: op h split: if_splits)
  qed
  then show ?thesis using m' x by (auto simp: h)
qed

lemma set_operands_uses:
  assumes "uses_ok m" "heap m u = Some x" "i + length vs \<le> length (operands x)"
    and "\<And>j. i \<le> j \<Longrightarrow> j < i + length vs \<Longrightarrow> operands x ! j = None"
    and "\<And>v. v \<in> set vs \<Longrightarrow> heap m v \<noteq> None"
  shows "\<exists>m'. set_operands u i vs m = Inr m' \<and> uses_ok m' \<and> next_addr m' = next_addr m \<and>
    (\<forall>a. heap m' a = None \<longleftrightarrow> heap m a = None)"
  using assms
proof (induction vs arbitrary: i m x)
  case (Cons v vs)
  have null: "operands x ! i = None" and i: "i < length (operands x)" using Cons.prems(3,4) by auto
  have "heap m v \<noteq> None" using Cons.prems(5) by simp
  from set_operand_uses [OF Cons.prems(1,2) i null this] obtain m1
    where m1: "set_operand u i v m = Inr m1" "uses_ok m1" "next_addr m1 = next_addr m"
    "\<forall>a. heap m1 a = None \<longleftrightarrow> heap m a = None"
    "heap m1 u = Some (x\<lparr>operands := (operands x)[i := Some v],
      use_list := use_list x @ (if u = v then [(u, i)] else [])\<rparr>)" by blast
  have "\<exists>m'. set_operands u (Suc i) vs m1 = Inr m' \<and> uses_ok m' \<and> next_addr m' = next_addr m1 \<and>
    (\<forall>a. heap m' a = None \<longleftrightarrow> heap m1 a = None)"
    by (rule Cons.IH [OF m1(2,5)]) (use Cons.prems(3-5) m1(4) in auto)
  then show ?case using m1 by auto
qed simp

lemma create_inst_uses [invariant_intros]:
  assumes ok: "uses_ok m" and vs: "\<And>v. v \<in> set vs \<Longrightarrow> heap m v \<noteq> None"
  shows "\<exists>i m'. create_inst t op vs b m = Inr (i, m') \<and> uses_ok m' \<and> i = next_addr m \<and>
    (\<forall>a. heap m' a = None \<longleftrightarrow> heap m a = None \<and> a \<noteq> i)"
proof -
  let ?x = "new_val t [] (InstructionV op) (length vs) (Some b)" and ?i = "next_addr m"
  define m1 where "m1 = add_instruction b ?i (snd (alloc ?x m))"
  have h: "heap m1 = (heap m)(?i \<mapsto> ?x)" by (simp add: m1_def add_instruction_def alloc_def)
  have "uses_ok (snd (alloc ?x m))" by (rule alloc_uses [OF ok]) (simp add: is_user_def)
  then have ok1: "uses_ok m1"
    using uses_ok_heap [of m1 "snd (alloc ?x m)"] by (simp add: m1_def add_instruction_def)
  have x: "heap m1 ?i = Some ?x" by (simp add: h)
  have "\<exists>m'. set_operands ?i 0 vs m1 = Inr m' \<and> uses_ok m' \<and> next_addr m' = next_addr m1 \<and>
    (\<forall>a. heap m' a = None \<longleftrightarrow> heap m1 a = None)"
    by (rule set_operands_uses [OF ok1 x]) (use vs in \<open>auto simp: new_val_def h\<close>)
  then show ?thesis
    by (auto simp: create_inst_def new_instruction_def alloc_def m1_def add_instruction_def Let_def)
qed

section \<open>Replacing a value\<close>

text \<open>
  What the loop of \<^verbatim>\<open>replace_all_use_with\<close> has done after the uses \<open>us\<close>: their operands are the
  new value, whose list has grown by them.
\<close>

definition redirect :: "(addr \<times> nat) list \<Rightarrow> addr \<Rightarrow> ir \<Rightarrow> ir" where
  "redirect us new m = m\<lparr>heap := (\<lambda>a. map_option (\<lambda>x. x\<lparr>
     operands := map (\<lambda>j. if (a, j) \<in> set us then Some new else operands x ! j) [0..<length (operands x)],
     use_list := use_list x @ (if a = new then us else [])\<rparr>) (heap m a))\<rparr>"

lemma redirect_Nil: "redirect [] new m = m"
proof -
  have "map ((!) (operands x)) [0..<length (operands x)] = operands x" for x :: val
    by (rule map_nth)
  then have "heap (redirect [] new m) = heap m"
    by (auto simp: redirect_def fun_eq_iff option.map_ident_strong)
  then show ?thesis by (simp add: redirect_def)
qed

lemma redirect_snoc:
  assumes x: "heap m u = Some x" and i: "i < num_ops x" "i < length (operands x)" and new: "heap m new \<noteq> None"
  shows "set_operand u i new (redirect us new m) = Inr (redirect (us @ [(u, i)]) new m)"
proof -
  let ?m = "redirect us new m"
  obtain y where y: "heap ?m u = Some y" "num_ops y = num_ops x" "length (operands y) = length (operands x)"
    using x by (simp add: redirect_def)
  have n: "heap ?m new \<noteq> None" using new by (simp add: redirect_def)
  obtain m' where m': "set_operand u i new ?m = Inr m'"
    and h: "heap m' = (\<lambda>a. map_option (\<lambda>y. y\<lparr>
      operands := (if a = u then (operands y)[i := Some new] else operands y),
      use_list := use_list y @ (if a = new then [(u, i)] else [])\<rparr>) (heap ?m a))"
    and same: "m' = ?m\<lparr>heap := heap m'\<rparr>"
    using set_operand_eq [OF y(1) _ _ n, of i] i y(2,3) by auto
  have "heap m' a = heap (redirect (us @ [(u, i)]) new m) a" for a
  proof (cases "heap m a")
    case (Some z)
    have "(map (\<lambda>j. if (u, j) \<in> set us then Some new else operands z ! j) [0..<length (operands z)])[i := Some new] =
        map (\<lambda>j. if (u, j) \<in> set (us @ [(u, i)]) then Some new else operands z ! j) [0..<length (operands z)]" if "a = u"
      using that Some x i(2) by (intro nth_equalityI) (auto simp: nth_list_update)
    then show ?thesis using Some by (auto simp: h redirect_def)
  qed (simp add: h redirect_def)
  then have "heap m' = heap (redirect (us @ [(u, i)]) new m)" by blast
  then show ?thesis using m' same by (simp add: redirect_def)
qed

lemma replace_uses_spec:
  assumes ok: "uses_ok m" and x: "heap m this = Some x" and new: "heap m new \<noteq> None" "new \<noteq> this"
    and us: "use_list x = done @ rest"
  shows "replace_uses this new (length done) (redirect done new m) = Some (Inr (redirect (use_list x) new m))"
  using us
proof (induction rest arbitrary: "done")
  case Nil
  have "get_val this (redirect done new m) = Inr (x\<lparr>operands := map (\<lambda>j. if (this, j) \<in> set done then Some new
      else operands x ! j) [0..<length (operands x)]\<rparr>)"
    using x new(2) by (simp add: redirect_def get_val_def)
  then show ?case using Nil by (subst replace_uses.simps) simp
next
  case (Cons ui rest)
  obtain u i where ui: "ui = (u, i)" by (cases ui)
  have "operand_at m u i = Some this"
    using uses_okD(3) [OF ok x, of u i] Cons.prems ui by simp
  then obtain y where y: "heap m u = Some y" "i < length (operands y)" by (auto simp: operand_at_Some)
  then have vy: "i < num_ops y" "is_user (kind y)"
    using uses_okD(2) [OF ok y(1)] by (auto simp: val_ok_def)
  let ?m = "redirect done new m"
  have here: "get_val this ?m = Inr (x\<lparr>operands := map (\<lambda>j. if (this, j) \<in> set done then Some new
      else operands x ! j) [0..<length (operands x)]\<rparr>)"
    using x new(2) by (simp add: redirect_def get_val_def)
  obtain z where z: "get_val u ?m = Inr z" "is_user (kind z)"
    using y(1) vy(2) by (simp add: redirect_def get_val_def)
  have "replace_uses this new (length done) ?m = replace_uses this new (Suc (length done)) (redirect (done @ [(u, i)]) new m)"
    using here z Cons.prems ui redirect_snoc [OF y(1) vy(1) y(2) new(1), of "done"]
    by (subst replace_uses.simps) (simp add: nth_append)
  then show ?case using Cons.IH [of "done @ [ui]"] Cons.prems ui by simp
qed

lemma replace_all_use_with_spec:
  assumes ok: "uses_ok m" and x: "heap m this = Some x" and new: "heap m new \<noteq> None" "new \<noteq> this"
  shows "\<exists>m'. replace_all_use_with this new m = Some (Inr m') \<and> uses_ok m' \<and>
    (\<forall>u i. operand_at m' u i = (if operand_at m u i = Some this then Some new else operand_at m u i)) \<and>
    (\<exists>x'. heap m' this = Some x' \<and> use_list x' = [])"
proof -
  let ?r = "redirect (use_list x) new m"
  obtain r where r: "heap ?r this = Some r" using x by (simp add: redirect_def)
  define m' where "m' = ?r\<lparr>heap := (heap ?r)(this \<mapsto> r\<lparr>use_list := []\<rparr>)\<rparr>"
  have "replace_uses this new 0 m = Some (Inr ?r)"
    using replace_uses_spec [OF ok x new, of "[]" "use_list x"] by (simp add: redirect_Nil)
  then have res: "replace_all_use_with this new m = Some (Inr m')"
    using r by (simp add: replace_all_use_with_def upd_val_def get_val_def m'_def)
  have h: "heap m' a = map_option (\<lambda>y. y\<lparr>
     operands := map (\<lambda>j. if (a, j) \<in> set (use_list x) then Some new else operands y ! j) [0..<length (operands y)],
     use_list := if a = this then [] else use_list y @ (if a = new then use_list x else [])\<rparr>) (heap m a)" for a
    using r x new(2) by (auto simp: m'_def redirect_def)
  have uses: "(u, i) \<in> set (use_list x) \<longleftrightarrow> operand_at m u i = Some this" for u i
    by (rule uses_okD(3) [OF ok x])
  have op: "operand_at m' u i = (if operand_at m u i = Some this then Some new else operand_at m u i)" for u i
    using uses [of u i] by (auto simp: operand_at_def h split: option.splits)
  have "uses_ok m'"
  proof (rule uses_okI)
    fix a z
    assume "heap m' a = Some z"
    then obtain y where y: "heap m a = Some y" and z: "z = y\<lparr>
       operands := map (\<lambda>j. if (a, j) \<in> set (use_list x) then Some new else operands y ! j) [0..<length (operands y)],
       use_list := if a = this then [] else use_list y @ (if a = new then use_list x else [])\<rparr>"
      using h by auto
    have vy: "val_ok y" "val_ok x" using uses_okD(2) [OF ok] y x by auto
    have "set (use_list x) \<inter> set (use_list y) = {}" if "a \<noteq> this"
      using uses uses_okD(3) [OF ok y] that by auto
    then show "a < next_addr m' \<and> val_ok z"
      using uses_okD(1) [OF ok y] vy z by (auto simp: val_ok_def m'_def redirect_def)
    show "(u, i) \<in> set (use_list z) \<longleftrightarrow> operand_at m' u i = Some a" for u i
      using uses_okD(3) [OF ok y, of u i] uses [of u i] z new(2) by (auto simp: op)
  next
    show "heap m' a \<noteq> None" if "operand_at m' u i = Some a" for u i a
      using that new(1) uses_okD(4) [OF ok, of u i a] by (auto simp: op h split: if_splits)
  qed
  then show ?thesis using res op h [of this] x by auto
qed

text \<open>Replacing a value by itself extends the list that is being traversed, without end.\<close>

lemma replace_uses_self:
  assumes "heap m this = Some x" "i < length (use_list x)"
    and "\<And>u j. (u, j) \<in> set (use_list x) \<Longrightarrow> \<exists>y. heap m u = Some y \<and> is_user (kind y) \<and>
      j < num_ops y \<and> j < length (operands y)"
  shows "replace_uses this this i m = None"
proof -
  have "heap m this = Some x \<Longrightarrow> i < length (use_list x) \<Longrightarrow>
    (\<And>u j. (u, j) \<in> set (use_list x) \<Longrightarrow> \<exists>y. heap m u = Some y \<and> is_user (kind y) \<and>
      j < num_ops y \<and> j < length (operands y)) \<Longrightarrow> new = this \<Longrightarrow> False"
    if "replace_uses this new i m = Some r" for this new i m r x
    using that
  proof (induction arbitrary: x rule: replace_uses.raw_induct [rotated, consumes 1, case_names step])
    case (step f this new i m r x)
    obtain u j where uj: "use_list x ! i = (u, j)" by (cases "use_list x ! i")
    then have mem: "(u, j) \<in> set (use_list x)" using step(4) by (metis nth_mem)
    obtain y where y: "heap m u = Some y" "is_user (kind y)" "j < num_ops y" "j < length (operands y)"
      using step(5) [OF mem] by blast
    obtain m' where m': "set_operand u j this m = Inr m'"
      and h: "heap m' = (\<lambda>a. map_option (\<lambda>y. y\<lparr>
        operands := (if a = u then (operands y)[j := Some this] else operands y),
        use_list := use_list y @ (if a = this then [(u, j)] else [])\<rparr>) (heap m a))"
      using set_operand_eq [OF y(1,3,4), of this] step(3) by auto
    have run: "f this new (Suc i) m' = Some r"
      using step(2,3,4,6) uj y m' by (simp add: get_val_def)
    show False
    proof (rule step(1) [OF run])
      show "heap m' this = Some (x\<lparr>operands := (if this = u then (operands x)[j := Some this] else operands x),
          use_list := use_list x @ [(u, j)]\<rparr>)"
        using step(3) by (simp add: h)
    next
      fix w k
      assume "(w, k) \<in> set (use_list (x\<lparr>operands := (if this = u then (operands x)[j := Some this] else operands x),
          use_list := use_list x @ [(u, j)]\<rparr>))"
      then have "(w, k) \<in> set (use_list x)" using mem by auto
      then obtain z where "heap m w = Some z" "is_user (kind z)" "k < num_ops z" "k < length (operands z)"
        using step(5) by blast
      then show "\<exists>y. heap m' w = Some y \<and> is_user (kind y) \<and> k < num_ops y \<and> k < length (operands y)"
        by (auto simp: h)
    qed (use step(4,6) in auto)
  qed
  then show ?thesis using assms by (cases "replace_uses this this i m") blast+
qed

end
