(* ===== verification/Worklist.thy ===== *)
theory Worklist
  imports Prelude
begin

text \<open>
  The contract of the worklist loops of the optimiser (\<^verbatim>\<open>FuncInfo::run\<close>, \<^verbatim>\<open>DeadCode::mark\<close>
  and \<^verbatim>\<open>Mem2Reg::generate_phi\<close>): take the first element of the queue, mark its neighbours that are not
  marked yet and append them to the queue. Whatever the state is, the loop ends with the
  elements marked that the marked ones reach.
\<close>

locale worklist_loop =
  fixes loop :: "'s \<Rightarrow> 's outcome"
    and visit :: "'a \<Rightarrow> 's \<Rightarrow> 's outcome"
    and queue :: "'s \<Rightarrow> 'a list"
    and pop :: "'s \<Rightarrow> 's"
    and seen :: "'s \<Rightarrow> 'a set"
    and nbrs :: "'a \<Rightarrow> 'a set"
    and universe :: "'a set"
    and ok :: "'s \<Rightarrow> bool"
  assumes loop_step: "loop s = (case queue s of [] \<Rightarrow> Some (Inr s) | x # xs \<Rightarrow> obind (visit x (pop s)) loop)"
    and visit_ok: "ok s \<Longrightarrow> queue s = x # xs \<Longrightarrow> x \<in> universe \<Longrightarrow>
      \<exists>s' new. visit x (pop s) = Some (Inr s') \<and> ok s' \<and> queue s' = xs @ new \<and> distinct new \<and>
        set new = nbrs x - seen s \<and> seen s' = seen s \<union> nbrs x"
    and bounded: "ok s \<Longrightarrow> seen s \<subseteq> universe \<and> finite universe"
begin

text \<open>What is marked but not queued has its neighbours marked.\<close>

definition frontier_inv :: "'s \<Rightarrow> bool" where
  "frontier_inv s \<longleftrightarrow> ok s \<and> set (queue s) \<subseteq> universe \<and> (\<forall>x \<in> seen s - set (queue s). nbrs x \<subseteq> seen s)"

lemma loop_closes:
  assumes "frontier_inv s"
  shows "\<exists>s'. loop s = Some (Inr s') \<and> ok s' \<and> seen s \<subseteq> seen s' \<and>
    (\<forall>x \<in> seen s' \<union> set (queue s). nbrs x \<subseteq> seen s') \<and>
    (\<forall>y \<in> seen s' - seen s. \<exists>x \<in> seen s \<union> set (queue s). (\<lambda>a b. b \<in> nbrs a)\<^sup>+\<^sup>+ x y)"
  using assms
proof (induction "2 * card (universe - seen s) + length (queue s)" arbitrary: s rule: less_induct)
  case less
  have ok: "ok s" using less.prems by (simp add: frontier_inv_def)
  show ?case
  proof (cases "queue s")
    case Nil
    then show ?thesis using less.prems by (subst loop_step) (auto simp: frontier_inv_def)
  next
    case (Cons x xs)
    have x: "x \<in> universe" using less.prems Cons by (auto simp: frontier_inv_def)
    obtain s1 new where s1: "visit x (pop s) = Some (Inr s1)" "ok s1" "queue s1 = xs @ new" "distinct new"
      "set new = nbrs x - seen s" "seen s1 = seen s \<union> nbrs x"
      using visit_ok [OF ok Cons x] by blast
    have sub: "seen s1 \<subseteq> universe" "finite universe" using bounded [OF s1(2)] by blast+
    have inv: "frontier_inv s1"
      using less.prems s1 sub Cons by (auto simp: frontier_inv_def)
    have "universe - seen s = (universe - seen s1) \<union> set new" "(universe - seen s1) \<inter> set new = {}"
      using s1(5,6) sub by auto
    then have "card (universe - seen s) = card (universe - seen s1) + length new"
      using sub(2) s1(4) by (metis card_Un_disjoint distinct_card finite_Diff List.finite_set)
    then have "2 * card (universe - seen s1) + length (queue s1) < 2 * card (universe - seen s) + length (queue s)"
      using s1(3) Cons by simp
    then obtain s' where s': "loop s1 = Some (Inr s')" "ok s'" "seen s1 \<subseteq> seen s'"
      "\<forall>x \<in> seen s' \<union> set (queue s1). nbrs x \<subseteq> seen s'"
      "\<forall>y \<in> seen s' - seen s1. \<exists>x \<in> seen s1 \<union> set (queue s1). (\<lambda>a b. b \<in> nbrs a)\<^sup>+\<^sup>+ x y"
      using less.hyps [OF _ inv] by blast
    have step: "loop s = loop s1" using Cons s1(1) by (subst loop_step) simp
    have "\<exists>z \<in> seen s \<union> set (queue s). (\<lambda>a b. b \<in> nbrs a)\<^sup>+\<^sup>+ z y" if y: "y \<in> seen s' - seen s" for y
    proof (cases "y \<in> nbrs x")
      case False
      then have "y \<in> seen s' - seen s1" using y s1(6) by blast
      then obtain w where w: "w \<in> seen s1 \<union> set (queue s1)" "(\<lambda>a b. b \<in> nbrs a)\<^sup>+\<^sup>+ w y" using s'(5) by blast
      show ?thesis
      proof (cases "w \<in> nbrs x")
        case True
        then show ?thesis using tranclp_into_tranclp2 [of "\<lambda>a b. b \<in> nbrs a" x w y] w(2) Cons by auto
      next
        case False
        then have "w \<in> seen s \<union> set (queue s)" using w(1) s1(3,5,6) Cons by auto
        then show ?thesis using w(2) by blast
      qed
    qed (use Cons in auto)
    moreover have "nbrs z \<subseteq> seen s'" if "z \<in> set (queue s)" for z
    proof (cases "z = x")
      case True
      then show ?thesis using s'(3) s1(6) by blast
    next
      case False
      then show ?thesis using that s'(4) s1(3) Cons by auto
    qed
    ultimately show ?thesis using step s' s1(6) by auto
  qed
qed

text \<open>Started with a set of marked elements that are all queued, the loop computes its closure.\<close>

lemma loop_closure:
  assumes "ok s" "set (queue s) = seen s"
  shows "\<exists>s'. loop s = Some (Inr s') \<and> ok s' \<and> seen s' = {y. \<exists>x \<in> seen s. (\<lambda>a b. b \<in> nbrs a)\<^sup>*\<^sup>* x y}"
proof -
  have "frontier_inv s" using assms bounded [OF assms(1)] by (simp add: frontier_inv_def)
  then obtain s' where s': "loop s = Some (Inr s')" "ok s'" "seen s \<subseteq> seen s'"
    "\<forall>x \<in> seen s' \<union> set (queue s). nbrs x \<subseteq> seen s'"
    "\<forall>y \<in> seen s' - seen s. \<exists>x \<in> seen s \<union> set (queue s). (\<lambda>a b. b \<in> nbrs a)\<^sup>+\<^sup>+ x y"
    using loop_closes by blast
  have "y \<in> seen s'" if "x \<in> seen s" "(\<lambda>a b. b \<in> nbrs a)\<^sup>*\<^sup>* x y" for x y
    by (rule rtranclp_closed_set [OF _ that(2)]) (use s'(3,4) that(1) in auto)
  moreover have "\<exists>x \<in> seen s. (\<lambda>a b. b \<in> nbrs a)\<^sup>*\<^sup>* x y" if "y \<in> seen s'" for y
    using that s'(5) assms(2) by (cases "y \<in> seen s") (blast intro: tranclp_into_rtranclp)+
  ultimately have "seen s' = {y. \<exists>x \<in> seen s. (\<lambda>a b. b \<in> nbrs a)\<^sup>*\<^sup>* x y}" by blast
  then show ?thesis using s'(1,2) by blast
qed

text \<open>Started with nothing marked, it marks what the queued elements reach in one step or more.\<close>

lemma loop_frontier:
  assumes "ok s" "seen s = {}" "set (queue s) \<subseteq> universe"
  shows "\<exists>s'. loop s = Some (Inr s') \<and> ok s' \<and> seen s' = {y. \<exists>x \<in> set (queue s). (\<lambda>a b. b \<in> nbrs a)\<^sup>+\<^sup>+ x y}"
proof -
  have "frontier_inv s" using assms by (simp add: frontier_inv_def)
  then obtain s' where s': "loop s = Some (Inr s')" "ok s'"
    "\<forall>x \<in> seen s' \<union> set (queue s). nbrs x \<subseteq> seen s'"
    "\<forall>y \<in> seen s' - seen s. \<exists>x \<in> seen s \<union> set (queue s). (\<lambda>a b. b \<in> nbrs a)\<^sup>+\<^sup>+ x y"
    using loop_closes by blast
  have "y \<in> seen s'" if "(\<lambda>a b. b \<in> nbrs a)\<^sup>+\<^sup>+ x y" "x \<in> set (queue s)" for x y
    using that by (induction rule: tranclp_induct) (use s'(3) in blast)+
  then have "seen s' = {y. \<exists>x \<in> set (queue s). (\<lambda>a b. b \<in> nbrs a)\<^sup>+\<^sup>+ x y}" using s'(4) assms(2) by blast
  then show ?thesis using s'(1,2) by blast
qed

end

end
