(* ===== verification/Func_Info.thy ===== *)
theory Func_Info
  imports Ir_Uses Worklist
begin

text \<open>
  \<^verbatim>\<open>FuncInfo\<close> of \<^verbatim>\<open>FuncInfo.h\<close>: which functions are pure. A function is impure when it is
  trivially so or calls, directly or not, one that is. The logging is left out.
\<close>

section \<open>State and operations\<close>

record func_info =
  fi_worklist :: "addr list"
  is_pure :: "addr \<rightharpoonup> bool"

definition func_info_init :: func_info where
  "func_info_init = \<lparr>fi_worklist = [], is_pure = Map.empty\<rparr>"

text \<open>\<^verbatim>\<open>is_pure.at\<close> throws for a function that was not analysed.\<close>

definition is_pure_function :: "addr \<Rightarrow> func_info \<Rightarrow> bool result" where
  "is_pure_function f s = (case is_pure s f of Some b \<Rightarrow> Inr b | None \<Rightarrow> Inl OutOfRange)"

text \<open>\<^verbatim>\<open>inst->get_parent()->get_parent()\<close>.\<close>

definition func_of :: "ir \<Rightarrow> addr \<Rightarrow> addr result" where
  "func_of m i = rbind (get_val i m) (\<lambda>x. case parent x of
       None \<Rightarrow> Inl NullDeref
     | Some b \<Rightarrow> rbind (get_val b m) (\<lambda>y. case parent y of None \<Rightarrow> Inl NullDeref | Some f \<Rightarrow> Inr f))"

text \<open>The first operand of pointer type.\<close>

fun pointer_operand :: "ir \<Rightarrow> addr option list \<Rightarrow> addr option result" where
  "pointer_operand m [] = Inr None"
| "pointer_operand m (None # ops) = Inl NullDeref"
| "pointer_operand m (Some a # ops) = rbind (get_val a m) (\<lambda>x.
     if is_pointer_type (vtype x) then Inr (Some a) else pointer_operand m ops)"

text \<open>\<^verbatim>\<open>dynamic_cast\<close> of a null pointer is null, so a null operand is its own address.\<close>

partial_function (option) get_first_addr :: "ir \<Rightarrow> addr option \<Rightarrow> addr option outcome" where
  "get_first_addr m w = (case w of None \<Rightarrow> Some (Inr None) | Some v \<Rightarrow> obind (Some (get_val v m)) (\<lambda>x.
     if \<not> is_instruction (kind x) then Some (Inr w)
     else if kind x = InstructionV Alloca then Some (Inr w)
     else if kind x = InstructionV Getelementptr then
       obind (Some (get_operand v 0 m)) (\<lambda>a. get_first_addr m a)
     else if kind x = InstructionV Load then Some (Inr w)
     else obind (Some (pointer_operand m (operands x))) (\<lambda>r.
       case r of Some a \<Rightarrow> get_first_addr m (Some a) | None \<Rightarrow> Some (Inr w))))"

definition is_local_addr :: "ir \<Rightarrow> addr option \<Rightarrow> bool outcome" where
  "is_local_addr m w = obind (get_first_addr m w) (\<lambda>r. case r of
       None \<Rightarrow> Some (Inr False)
     | Some a \<Rightarrow> obind (Some (get_val a m)) (\<lambda>x. Some (Inr (kind x = InstructionV Alloca))))"

definition is_local_load :: "ir \<Rightarrow> addr \<Rightarrow> bool outcome" where
  "is_local_load m i = obind (Some (get_operand i 0 m)) (is_local_addr m)"

definition is_local_store :: "ir \<Rightarrow> addr \<Rightarrow> bool outcome" where
  "is_local_store m i = obind (Some (get_operand i 1 m)) (is_local_addr m)"

definition is_side_effect_inst :: "ir \<Rightarrow> addr \<Rightarrow> bool outcome" where
  "is_side_effect_inst m i = obind (Some (get_val i m)) (\<lambda>x.
     if kind x = InstructionV Store then obind (is_local_store m i) (\<lambda>l. Some (Inr (\<not> l)))
     else if kind x = InstructionV Load then obind (is_local_load m i) (\<lambda>l. Some (Inr (\<not> l)))
     else Some (Inr False))"

fun any_side_effect :: "ir \<Rightarrow> addr list \<Rightarrow> bool outcome" where
  "any_side_effect m [] = Some (Inr False)"
| "any_side_effect m (i # is) = obind (is_side_effect_inst m i) (\<lambda>e.
     if e then Some (Inr True) else any_side_effect m is)"

definition trivial_purity :: "ir \<Rightarrow> addr \<Rightarrow> bool outcome" where
  "trivial_purity m f = obind (Some (get_val f m)) (\<lambda>x.
     if is_declaration f m \<or> name x = ''main'' then Some (Inr False)
     else if list_ex (\<lambda>t. \<not> is_integer_type t \<and> \<not> is_float_type t) (param_types (vtype x)) then Some (Inr False)
     else obind (any_side_effect m (concat (map (instr_list m) (block_list m f)))) (\<lambda>e. Some (Inr (\<not> e))))"

definition trivial_mark :: "ir \<Rightarrow> addr \<Rightarrow> func_info \<Rightarrow> func_info outcome" where
  "trivial_mark m f s = obind (trivial_purity m f) (\<lambda>b. Some (Inr (s\<lparr>is_pure := (is_pure s)(f \<mapsto> b)\<rparr>)))"

text \<open>A caller that is not in the map yet is put there by \<^verbatim>\<open>operator[]\<close>, as impure.\<close>

definition process_use :: "ir \<Rightarrow> addr \<Rightarrow> func_info \<Rightarrow> func_info result" where
  "process_use m u s = rbind (get_val u m) (\<lambda>x.
     if is_instruction (kind x) then
       rbind (func_of m u) (\<lambda>f. Inr
         (if is_pure s f = Some True then s\<lparr>is_pure := (is_pure s)(f \<mapsto> False), fi_worklist := fi_worklist s @ [f]\<rparr>
          else s\<lparr>is_pure := (is_pure s)(f \<mapsto> False)\<rparr>))
     else Inr s)"

definition process :: "ir \<Rightarrow> addr \<Rightarrow> func_info \<Rightarrow> func_info result" where
  "process m f s = rbind (get_val f m) (\<lambda>x. rfold (process_use m) (map fst (use_list x)) s)"

partial_function (option) propagate :: "ir \<Rightarrow> func_info \<Rightarrow> func_info outcome" where
  "propagate m s = (case fi_worklist s of
       [] \<Rightarrow> Some (Inr s)
     | f # fs \<Rightarrow> obind (Some (process m f (s\<lparr>fi_worklist := fs\<rparr>))) (\<lambda>s. propagate m s))"

definition init_function :: "ir \<Rightarrow> addr \<Rightarrow> func_info \<Rightarrow> func_info outcome" where
  "init_function m f s = obind (trivial_mark m f s) (\<lambda>s.
     Some (Inr (if is_pure s f = Some True then s else s\<lparr>fi_worklist := fi_worklist s @ [f]\<rparr>)))"

definition run_func_info :: "ir \<Rightarrow> func_info \<Rightarrow> func_info outcome" where
  "run_func_info m s = obind (ofold (init_function m) (function_list m) s) (propagate m)"

section \<open>The propagation is a worklist loop\<close>

text \<open>\<open>callers m f\<close>: the functions that hold an instruction with \<open>f\<close> among its operands.\<close>

definition callers :: "ir \<Rightarrow> addr \<Rightarrow> addr set" where
  "callers m f = (case heap m f of None \<Rightarrow> {} | Some x \<Rightarrow>
     {g. \<exists>u \<in> fst ` set (use_list x). (\<exists>y. heap m u = Some y \<and> is_instruction (kind y)) \<and> func_of m u = Inr g})"

text \<open>What the analysis needs of a module: functions and their users exist and are placed.\<close>

definition calls_ok :: "ir \<Rightarrow> bool" where
  "calls_ok m \<longleftrightarrow> (\<forall>f \<in> set (function_list m). \<exists>x. heap m f = Some x \<and>
     (\<forall>u \<in> fst ` set (use_list x). \<exists>y. heap m u = Some y \<and>
        (is_instruction (kind y) \<longrightarrow> (\<exists>g \<in> set (function_list m). func_of m u = Inr g))))"

definition impure :: "func_info \<Rightarrow> addr set" where
  "impure s = {f. is_pure s f = Some False}"

definition analysed :: "ir \<Rightarrow> func_info \<Rightarrow> bool" where
  "analysed m s \<longleftrightarrow> calls_ok m \<and> dom (is_pure s) = set (function_list m)"

lemma process_uses_spec:
  assumes "\<And>u. u \<in> set us \<Longrightarrow> \<exists>y. heap m u = Some y \<and>
      (is_instruction (kind y) \<longrightarrow> (\<exists>g \<in> set (function_list m). func_of m u = Inr g))"
    and "dom (is_pure s) = set (function_list m)"
  shows "\<exists>s' new. rfold (process_use m) us s = Inr s' \<and> dom (is_pure s') = set (function_list m) \<and>
    fi_worklist s' = fi_worklist s @ new \<and> distinct new \<and>
    set new = {g. \<exists>u \<in> set us. (\<exists>y. heap m u = Some y \<and> is_instruction (kind y)) \<and> func_of m u = Inr g} - impure s \<and>
    impure s' = impure s \<union> {g. \<exists>u \<in> set us. (\<exists>y. heap m u = Some y \<and> is_instruction (kind y)) \<and> func_of m u = Inr g}"
  using assms
proof (induction us arbitrary: s)
  case (Cons u us)
  obtain y where y: "heap m u = Some y"
    "is_instruction (kind y) \<Longrightarrow> \<exists>g \<in> set (function_list m). func_of m u = Inr g"
    using Cons.prems(1) [of u] by auto
  show ?case
  proof (cases "is_instruction (kind y)")
    case False
    then have "process_use m u s = Inr s" using y(1) by (simp add: process_use_def get_val_def)
    then show ?thesis using Cons.IH [of s] Cons.prems y(1) False by auto
  next
    case True
    then obtain g where g: "g \<in> set (function_list m)" "func_of m u = Inr g" using y(2) by blast
    define s1 where "s1 = (if is_pure s g = Some True
      then s\<lparr>is_pure := (is_pure s)(g \<mapsto> False), fi_worklist := fi_worklist s @ [g]\<rparr>
      else s\<lparr>is_pure := (is_pure s)(g \<mapsto> False)\<rparr>)"
    have p: "process_use m u s = Inr s1"
      using y(1) True g(2) by (simp add: process_use_def get_val_def s1_def)
    have d1: "dom (is_pure s1) = set (function_list m)" using Cons.prems(2) g(1) by (auto simp: s1_def)
    have i1: "impure s1 = insert g (impure s)" by (auto simp: impure_def s1_def)
    obtain b where "is_pure s g = Some b" using g(1) Cons.prems(2) by blast
    then have w1: "fi_worklist s1 = fi_worklist s @ (if g \<in> impure s then [] else [g])"
      by (cases b) (auto simp: s1_def impure_def)
    obtain s' new where s': "rfold (process_use m) us s1 = Inr s'" "dom (is_pure s') = set (function_list m)"
      "fi_worklist s' = fi_worklist s1 @ new" "distinct new"
      "set new = {g. \<exists>u \<in> set us. (\<exists>y. heap m u = Some y \<and> is_instruction (kind y)) \<and> func_of m u = Inr g} - impure s1"
      "impure s' = impure s1 \<union> {g. \<exists>u \<in> set us. (\<exists>y. heap m u = Some y \<and> is_instruction (kind y)) \<and> func_of m u = Inr g}"
      using Cons.IH [OF _ d1] Cons.prems(1) by auto
    define new' where "new' = (if g \<in> impure s then [] else [g]) @ new"
    have "rfold (process_use m) (u # us) s = Inr s'" using p s'(1) by simp
    moreover have "fi_worklist s' = fi_worklist s @ new'" using s'(3) w1 by (simp add: new'_def)
    moreover have "distinct new'" using s'(4,5) i1 by (auto simp: new'_def)
    moreover have "set new' = {g. \<exists>u \<in> set (u # us). (\<exists>y. heap m u = Some y \<and> is_instruction (kind y)) \<and> func_of m u = Inr g} - impure s"
      using s'(5) i1 g(2) y(1) True by (auto simp: new'_def)
    moreover have "impure s' = impure s \<union> {g. \<exists>u \<in> set (u # us). (\<exists>y. heap m u = Some y \<and> is_instruction (kind y)) \<and> func_of m u = Inr g}"
      using s'(6) i1 g(2) y(1) True by auto
    ultimately show ?thesis using s'(2) by blast
  qed
qed auto

interpretation purity: worklist_loop "propagate m" "\<lambda>f s. Some (process m f s)" fi_worklist
  "\<lambda>s. s\<lparr>fi_worklist := tl (fi_worklist s)\<rparr>" impure "callers m" "set (function_list m)" "analysed m"
  for m
proof unfold_locales
  fix s
  show "propagate m s = (case fi_worklist s of [] \<Rightarrow> Some (Inr s)
      | x # xs \<Rightarrow> obind (Some (process m x (s\<lparr>fi_worklist := tl (fi_worklist s)\<rparr>))) (propagate m))"
    by (subst propagate.simps) (simp split: list.splits)
next
  fix s f fs
  assume s: "analysed m s" "fi_worklist s = f # fs" and f: "f \<in> set (function_list m)"
  then obtain x where x: "heap m f = Some x"
    "\<forall>u \<in> fst ` set (use_list x). \<exists>y. heap m u = Some y \<and>
        (is_instruction (kind y) \<longrightarrow> (\<exists>g \<in> set (function_list m). func_of m u = Inr g))"
    using s(1) by (auto simp: analysed_def calls_ok_def)
  let ?s = "s\<lparr>fi_worklist := tl (fi_worklist s)\<rparr>"
  have dom: "dom (is_pure ?s) = set (function_list m)" and imp: "impure ?s = impure s"
    using s(1) by (simp_all add: analysed_def impure_def)
  have "\<exists>s' new. rfold (process_use m) (map fst (use_list x)) ?s = Inr s' \<and> dom (is_pure s') = set (function_list m) \<and>
    fi_worklist s' = fi_worklist ?s @ new \<and> distinct new \<and>
    set new = {g. \<exists>u \<in> set (map fst (use_list x)). (\<exists>y. heap m u = Some y \<and> is_instruction (kind y)) \<and> func_of m u = Inr g} - impure ?s \<and>
    impure s' = impure ?s \<union> {g. \<exists>u \<in> set (map fst (use_list x)). (\<exists>y. heap m u = Some y \<and> is_instruction (kind y)) \<and> func_of m u = Inr g}"
    by (rule process_uses_spec [OF _ dom]) (use x(2) in auto)
  then show "\<exists>s' new. Some (process m f ?s) = Some (Inr s') \<and> analysed m s' \<and> fi_worklist s' = fs @ new \<and>
      distinct new \<and> set new = callers m f - impure s \<and> impure s' = impure s \<union> callers m f"
    using s(1,2) x(1) imp by (auto simp: process_def get_val_def callers_def analysed_def)
next
  fix s
  assume "analysed m s"
  then show "impure s \<subseteq> set (function_list m) \<and> finite (set (function_list m))"
    by (auto simp: analysed_def impure_def)
qed

section \<open>The analysis\<close>

lemma init_functions_spec:
  assumes "\<And>f. f \<in> set fs \<Longrightarrow> trivial_purity m f = Some (Inr (tp f))"
    and "dom (is_pure s) \<inter> set fs = {}" "distinct fs" "set (fi_worklist s) = impure s"
  shows "\<exists>s'. ofold (init_function m) fs s = Some (Inr s') \<and>
    is_pure s' = (\<lambda>f. if f \<in> set fs then Some (tp f) else is_pure s f) \<and> set (fi_worklist s') = impure s'"
  using assms
proof (induction fs arbitrary: s)
  case (Cons f fs)
  define s1 where "s1 = (if tp f then s\<lparr>is_pure := (is_pure s)(f \<mapsto> tp f)\<rparr>
    else s\<lparr>is_pure := (is_pure s)(f \<mapsto> tp f), fi_worklist := fi_worklist s @ [f]\<rparr>)"
  have step: "init_function m f s = Some (Inr s1)"
    using Cons.prems(1) [of f] by (simp add: init_function_def trivial_mark_def s1_def)
  have "\<exists>s'. ofold (init_function m) fs s1 = Some (Inr s') \<and>
    is_pure s' = (\<lambda>f. if f \<in> set fs then Some (tp f) else is_pure s1 f) \<and> set (fi_worklist s') = impure s'"
  proof (rule Cons.IH)
    show "dom (is_pure s1) \<inter> set fs = {}" "distinct fs"
      using Cons.prems(2,3) by (auto simp: s1_def)
    show "set (fi_worklist s1) = impure s1"
      using Cons.prems(2,4) by (auto simp: s1_def impure_def)
  qed (use Cons.prems(1) in auto)
  then show ?case using step Cons.prems(3) by (auto simp: s1_def fun_eq_iff)
qed (auto simp: fun_eq_iff)

lemma run_func_info_spec:
  assumes calls: "calls_ok m" and d: "distinct (function_list m)"
    and tp: "\<And>f. f \<in> set (function_list m) \<Longrightarrow> trivial_purity m f = Some (Inr (tp f))"
  shows "\<exists>s. run_func_info m func_info_init = Some (Inr s) \<and>
    (\<forall>f \<in> set (function_list m). is_pure_function f s =
       Inr (\<not> (\<exists>g \<in> set (function_list m). \<not> tp g \<and> (\<lambda>a b. b \<in> callers m a)\<^sup>*\<^sup>* g f)))"
proof -
  have start: "is_pure func_info_init = Map.empty" "fi_worklist func_info_init = []"
    by (simp_all add: func_info_init_def)
  have "\<exists>s'. ofold (init_function m) (function_list m) func_info_init = Some (Inr s') \<and>
    is_pure s' = (\<lambda>f. if f \<in> set (function_list m) then Some (tp f) else is_pure func_info_init f) \<and>
    set (fi_worklist s') = impure s'"
    by (rule init_functions_spec [OF tp _ d]) (simp_all add: start impure_def)
  then obtain s1 where s1: "ofold (init_function m) (function_list m) func_info_init = Some (Inr s1)"
    "is_pure s1 = (\<lambda>f. if f \<in> set (function_list m) then Some (tp f) else None)"
    "set (fi_worklist s1) = impure s1"
    unfolding start(1) by blast
  have "analysed m s1" using calls s1(2) by (auto simp: analysed_def split: if_splits)
  from purity.loop_closure [OF this s1(3)] obtain s2 where s2: "propagate m s1 = Some (Inr s2)" "analysed m s2"
    "impure s2 = {y. \<exists>x \<in> impure s1. (\<lambda>a b. b \<in> callers m a)\<^sup>*\<^sup>* x y}" by blast
  have imp: "impure s1 = {g \<in> set (function_list m). \<not> tp g}"
    by (auto simp: impure_def s1(2) split: if_splits)
  have "is_pure_function f s2 = Inr (f \<notin> impure s2)" if "f \<in> set (function_list m)" for f
  proof -
    have "f \<in> dom (is_pure s2)" using s2(2) that by (simp add: analysed_def)
    then obtain b where "is_pure s2 f = Some b" by blast
    then show ?thesis by (cases b) (auto simp: is_pure_function_def impure_def)
  qed
  then show ?thesis using s1(1) s2(1,3) imp by (auto simp: run_func_info_def)
qed

end
