(* ===== verification/Dead_Code.thy ===== *)
theory Dead_Code
  imports Func_Info
begin

text \<open>
  \<^verbatim>\<open>DeadCode\<close> of \<^verbatim>\<open>DeadCode.h\<close>: mark what the critical instructions of a function need, sweep
  the rest, and repeat until nothing changes.
\<close>

section \<open>State and operations\<close>

text \<open>\<^verbatim>\<open>marked\<close> is read with \<^verbatim>\<open>operator[]\<close>: the set of instructions it maps to true.\<close>

record dead_code =
  dc_work_list :: "addr list"
  marked :: "addr set"

definition is_critical :: "ir \<Rightarrow> func_info \<Rightarrow> addr \<Rightarrow> bool result" where
  "is_critical m fi i = rbind (get_val i m) (\<lambda>x.
     if kind x = InstructionV Call then
       rbind (get_operand i 0 m) (\<lambda>v. case v of
           None \<Rightarrow> Inl OutOfRange
         | Some f \<Rightarrow> rbind (get_val f m) (\<lambda>y.
             if kind y = FunctionV then rbind (is_pure_function f fi) (\<lambda>p. Inr (\<not> p)) else Inl OutOfRange))
     else Inr (kind x = InstructionV Br \<or> kind x = InstructionV Ret \<or> kind x = InstructionV Store))"

definition mark_operand :: "ir \<Rightarrow> addr \<Rightarrow> addr option \<Rightarrow> dead_code \<Rightarrow> dead_code result" where
  "mark_operand m i op s = (case op of
       None \<Rightarrow> Inr s
     | Some a \<Rightarrow> rbind (get_val a m) (\<lambda>x.
         if \<not> is_instruction (kind x) then Inr s
         else if a \<in> marked s then Inr s
         else rbind (func_of m a) (\<lambda>g. rbind (func_of m i) (\<lambda>f.
           if g \<noteq> f then Inr s
           else Inr (s\<lparr>marked := insert a (marked s), dc_work_list := dc_work_list s @ [a]\<rparr>)))))"

definition mark_instruction :: "ir \<Rightarrow> addr \<Rightarrow> dead_code \<Rightarrow> dead_code result" where
  "mark_instruction m i s = rbind (get_val i m) (\<lambda>x. rfold (mark_operand m i) (operands x) s)"

partial_function (option) mark_loop :: "ir \<Rightarrow> dead_code \<Rightarrow> dead_code outcome" where
  "mark_loop m s = (case dc_work_list s of
       [] \<Rightarrow> Some (Inr s)
     | i # is \<Rightarrow> obind (Some (mark_instruction m i (s\<lparr>dc_work_list := is\<rparr>))) (\<lambda>s. mark_loop m s))"

definition listed :: "ir \<Rightarrow> addr \<Rightarrow> addr list" where
  "listed m f = concat (map (instr_list m) (block_list m f))"

definition mark_critical :: "ir \<Rightarrow> func_info \<Rightarrow> addr \<Rightarrow> dead_code \<Rightarrow> dead_code result" where
  "mark_critical m fi i s = rbind (is_critical m fi i) (\<lambda>c.
     Inr (if c then s\<lparr>marked := insert i (marked s), dc_work_list := dc_work_list s @ [i]\<rparr> else s))"

definition mark_function :: "ir \<Rightarrow> func_info \<Rightarrow> addr \<Rightarrow> dead_code outcome" where
  "mark_function m fi f =
     obind (Some (rfold (mark_critical m fi) (listed m f) \<lparr>dc_work_list = [], marked = {}\<rparr>)) (mark_loop m)"

text \<open>The set \<^verbatim>\<open>wait_del\<close> is traversed in the order of the instructions here; the order is not fixed by C++.\<close>

definition erase_instruction :: "addr \<Rightarrow> ir \<Rightarrow> ir result" where
  "erase_instruction i m = rbind (get_val i m) (\<lambda>x. case parent x of
     None \<Rightarrow> Inl NullDeref | Some b \<Rightarrow> Inr (erase_from_list b i m))"

definition sweep :: "addr \<Rightarrow> dead_code \<Rightarrow> ir \<Rightarrow> (ir \<times> nat) result" where
  "sweep f s m = (let wait_del = filter (\<lambda>i. i \<notin> marked s) (listed m f) in
     rbind (rfold remove_use_of_ops wait_del m) (\<lambda>m.
     rbind (rfold erase_instruction wait_del m) (\<lambda>m. Inr (m, length wait_del))))"

definition dead_code_function :: "func_info \<Rightarrow> addr \<Rightarrow> ir \<times> bool \<times> nat \<Rightarrow> (ir \<times> bool \<times> nat) outcome" where
  "dead_code_function fi f = (\<lambda>(m, changed, ins_count).
     obind (mark_function m fi f) (\<lambda>s.
     obind (Some (sweep f s m)) (\<lambda>(m', n). Some (Inr (m', changed \<or> n \<noteq> 0, ins_count + n)))))"

partial_function (option) dead_code_loop :: "func_info \<Rightarrow> nat \<Rightarrow> ir \<Rightarrow> (ir \<times> nat) outcome" where
  "dead_code_loop fi n m =
     obind (ofold (dead_code_function fi) (function_list m) (m, False, n)) (\<lambda>r.
       if fst (snd r) then dead_code_loop fi (snd (snd r)) (fst r)
       else Some (Inr (fst r, snd (snd r))))"

definition run_dead_code :: "ir \<Rightarrow> (ir \<times> nat) outcome" where
  "run_dead_code m = obind (run_func_info m func_info_init) (\<lambda>fi. dead_code_loop fi 0 m)"

section \<open>Modules the pass can process\<close>

text \<open>\<open>needs m a\<close>: the instructions among the operands of \<open>a\<close>.\<close>

definition needs :: "ir \<Rightarrow> addr \<Rightarrow> addr set" where
  "needs m a = {b. (\<exists>j. operand_at m a j = Some b) \<and> (\<exists>x. heap m b = Some x \<and> is_instruction (kind x))}"

definition critical :: "ir \<Rightarrow> func_info \<Rightarrow> addr \<Rightarrow> bool" where
  "critical m fi i \<longleftrightarrow> (\<exists>x. heap m i = Some x \<and>
     (kind x \<in> {InstructionV Br, InstructionV Ret, InstructionV Store} \<or>
      kind x = InstructionV Call \<and> (\<exists>f. operand_at m i 0 = Some f \<and> is_pure fi f = Some False)))"

lemma is_critical_iff:
  assumes c: "is_critical m fi i = Inr c"
  shows "critical m fi i = c"
proof -
  obtain x where x: "heap m i = Some x" using c by (auto simp: is_critical_def get_val_def rbind_eq_Inr split: option.splits)
  show ?thesis
  proof (cases "kind x = InstructionV Call")
    case True
    then obtain v where v: "get_operand i 0 m = Inr v"
      using c x by (auto simp: is_critical_def get_val_def rbind_eq_Inr)
    then obtain f where "v = Some f"
      using c x True by (cases v) (auto simp: is_critical_def get_val_def)
    then have "operand_at m i 0 = Some f" "is_pure fi f = Some (\<not> c)"
      using v c x True by (auto simp: is_critical_def get_val_def get_operand_def operand_at_Some is_pure_function_def
          rbind_eq_Inr split: option.splits if_splits)
    then show ?thesis using x True by (auto simp: critical_def)
  next
    case False
    then show ?thesis using c x by (auto simp: critical_def is_critical_def get_val_def)
  qed
qed

definition needed :: "ir \<Rightarrow> func_info \<Rightarrow> addr \<Rightarrow> addr \<Rightarrow> bool" where
  "needed m fi f i \<longleftrightarrow> (\<exists>c \<in> set (listed m f). critical m fi c \<and> (\<lambda>a b. b \<in> needs m a)\<^sup>*\<^sup>* c i)"

text \<open>
  Every instruction that is used or uses an instruction is in the list of its block, all of
  them in one function; the operands of listed instructions are there; calls call an analysed
  function.
\<close>

definition module_ok :: "ir \<Rightarrow> func_info \<Rightarrow> bool" where
  "module_ok m fi \<longleftrightarrow> uses_ok m \<and> distinct (function_list m) \<and>
     (\<forall>f \<in> set (function_list m). distinct (listed m f) \<and> (\<forall>b \<in> set (block_list m f).
        (\<exists>y. heap m b = Some y \<and> kind y = BasicBlockV \<and> parent y = Some f) \<and>
        (\<forall>i \<in> set (instr_list m b). \<exists>x. heap m i = Some x \<and> is_instruction (kind x) \<and> parent x = Some b \<and>
           None \<notin> set (operands x) \<and> (\<exists>c. is_critical m fi i = Inr c)))) \<and>
     (\<forall>u j a x. operand_at m u j = Some a \<longrightarrow> heap m a = Some x \<longrightarrow> is_instruction (kind x) \<longrightarrow>
        (\<exists>f \<in> set (function_list m). u \<in> set (listed m f) \<and> a \<in> set (listed m f)))"

lemma module_okD:
  assumes "module_ok m fi"
  shows "uses_ok m" "distinct (function_list m)"
    "f \<in> set (function_list m) \<Longrightarrow> distinct (listed m f)"
    "f \<in> set (function_list m) \<Longrightarrow> i \<in> set (listed m f) \<Longrightarrow> func_of m i = Inr f"
    "f \<in> set (function_list m) \<Longrightarrow> b \<in> set (block_list m f) \<Longrightarrow> i \<in> set (instr_list m b) \<Longrightarrow>
      \<exists>x. heap m i = Some x \<and> is_instruction (kind x) \<and> parent x = Some b \<and> None \<notin> set (operands x) \<and>
        (\<exists>c. is_critical m fi i = Inr c)"
    "operand_at m u j = Some a \<Longrightarrow> heap m a = Some x \<Longrightarrow> is_instruction (kind x) \<Longrightarrow>
      \<exists>f \<in> set (function_list m). u \<in> set (listed m f) \<and> a \<in> set (listed m f)"
    "f \<in> set (function_list m) \<Longrightarrow> b \<in> set (block_list m f) \<Longrightarrow>
      \<exists>y. heap m b = Some y \<and> kind y = BasicBlockV \<and> parent y = Some f"
proof -
  show block: "\<exists>y. heap m b = Some y \<and> kind y = BasicBlockV \<and> parent y = Some f"
    if "f \<in> set (function_list m)" "b \<in> set (block_list m f)" for f b
    using assms that unfolding module_ok_def by blast
  show inst: "\<exists>x. heap m i = Some x \<and> is_instruction (kind x) \<and> parent x = Some b \<and> None \<notin> set (operands x) \<and>
      (\<exists>c. is_critical m fi i = Inr c)"
    if "f \<in> set (function_list m)" "b \<in> set (block_list m f)" "i \<in> set (instr_list m b)" for f b i
    using assms that unfolding module_ok_def by blast
  show "func_of m i = Inr f" if f: "f \<in> set (function_list m)" and i: "i \<in> set (listed m f)"
  proof -
    obtain b where b: "b \<in> set (block_list m f)" "i \<in> set (instr_list m b)" using i by (auto simp: listed_def)
    obtain x y where "heap m i = Some x" "parent x = Some b" "heap m b = Some y" "parent y = Some f"
      using inst [OF f b] block [OF f b(1)] by blast
    then show ?thesis by (simp add: func_of_def get_val_def)
  qed
qed (use assms in \<open>unfold module_ok_def, blast+\<close>)

lemma listedE:
  assumes "i \<in> set (listed m f)"
  obtains b where "b \<in> set (block_list m f)" "i \<in> set (instr_list m b)"
  using assms by (auto simp: listed_def)

lemma listed_instruction:
  assumes "module_ok m fi" "f \<in> set (function_list m)" "i \<in> set (listed m f)"
  shows "\<exists>x. heap m i = Some x \<and> is_instruction (kind x) \<and> None \<notin> set (operands x)"
  using listedE [OF assms(3)] module_okD(5) [OF assms(1,2)] by metis

lemma listed_unique:
  assumes "module_ok m fi" "f \<in> set (function_list m)" "g \<in> set (function_list m)"
    "i \<in> set (listed m f)" "i \<in> set (listed m g)"
  shows "f = g"
  using module_okD(4) [OF assms(1,2,4)] module_okD(4) [OF assms(1,3,5)] by simp

lemma needs_listed:
  assumes ok: "module_ok m fi" and f: "f \<in> set (function_list m)" "i \<in> set (listed m f)" and a: "a \<in> needs m i"
  shows "a \<in> set (listed m f)"
proof -
  obtain j x where "operand_at m i j = Some a" "heap m a = Some x" "is_instruction (kind x)"
    using a by (auto simp: needs_def)
  then obtain g where "g \<in> set (function_list m)" "i \<in> set (listed m g)" "a \<in> set (listed m g)"
    using module_okD(6) [OF ok] by blast
  then show ?thesis using listed_unique [OF ok f(1) _ f(2)] by metis
qed

lemma needed_listed:
  assumes "module_ok m fi" "f \<in> set (function_list m)" "needed m fi f i"
  shows "i \<in> set (listed m f)"
proof -
  obtain c where "c \<in> set (listed m f)" "(\<lambda>a b. b \<in> needs m a)\<^sup>*\<^sup>* c i" using assms(3) by (auto simp: needed_def)
  then show ?thesis using rtranclp_closed_set [of "set (listed m f)" "\<lambda>a b. b \<in> needs m a" c i]
      needs_listed [OF assms(1,2)] by blast
qed

section \<open>Marking is a worklist loop\<close>

definition marking :: "ir \<Rightarrow> func_info \<Rightarrow> addr \<Rightarrow> dead_code \<Rightarrow> bool" where
  "marking m fi f s \<longleftrightarrow> module_ok m fi \<and> f \<in> set (function_list m) \<and> marked s \<subseteq> set (listed m f)"

lemma mark_operands_spec:
  assumes f: "func_of m i = Inr f"
    and ops: "\<And>a. Some a \<in> set ops \<Longrightarrow> \<exists>x. heap m a = Some x \<and> (is_instruction (kind x) \<longrightarrow> func_of m a = Inr f)"
  shows "\<exists>s' new. rfold (mark_operand m i) ops s = Inr s' \<and> dc_work_list s' = dc_work_list s @ new \<and> distinct new \<and>
    set new = {a. Some a \<in> set ops \<and> (\<exists>x. heap m a = Some x \<and> is_instruction (kind x))} - marked s \<and>
    marked s' = marked s \<union> {a. Some a \<in> set ops \<and> (\<exists>x. heap m a = Some x \<and> is_instruction (kind x))}"
  using ops
proof (induction ops arbitrary: s)
  case (Cons op ops)
  show ?case
  proof (cases "\<exists>a x. op = Some a \<and> heap m a = Some x \<and> is_instruction (kind x) \<and> a \<notin> marked s")
    case False
    have "mark_operand m i op s = Inr s"
    proof (cases op)
      case (Some a)
      then obtain x where "heap m a = Some x" using Cons.prems [of a] by auto
      then show ?thesis using False Some by (auto simp: mark_operand_def get_val_def)
    qed (simp add: mark_operand_def)
    moreover obtain s' new where s': "rfold (mark_operand m i) ops s = Inr s'" "dc_work_list s' = dc_work_list s @ new"
      "distinct new" "set new = {a. Some a \<in> set ops \<and> (\<exists>x. heap m a = Some x \<and> is_instruction (kind x))} - marked s"
      "marked s' = marked s \<union> {a. Some a \<in> set ops \<and> (\<exists>x. heap m a = Some x \<and> is_instruction (kind x))}"
      using Cons.IH [of s] Cons.prems by auto
    ultimately show ?thesis using False by (intro exI [of _ s'] exI [of _ new]) auto
  next
    case True
    then obtain a x where a: "op = Some a" "heap m a = Some x" "is_instruction (kind x)" "a \<notin> marked s" by blast
    let ?s = "s\<lparr>marked := insert a (marked s), dc_work_list := dc_work_list s @ [a]\<rparr>"
    have "func_of m a = Inr f" using Cons.prems [of a] a by auto
    then have "mark_operand m i op s = Inr ?s" using a f by (simp add: mark_operand_def get_val_def)
    moreover obtain s' new where s': "rfold (mark_operand m i) ops ?s = Inr s'" "dc_work_list s' = dc_work_list ?s @ new"
      "distinct new" "set new = {a. Some a \<in> set ops \<and> (\<exists>x. heap m a = Some x \<and> is_instruction (kind x))} - marked ?s"
      "marked s' = marked ?s \<union> {a. Some a \<in> set ops \<and> (\<exists>x. heap m a = Some x \<and> is_instruction (kind x))}"
      using Cons.IH [of ?s] Cons.prems by auto
    ultimately show ?thesis using a by (intro exI [of _ s'] exI [of _ "a # new"]) auto
  qed
qed simp

lemma operands_needs:
  assumes "heap m i = Some x"
  shows "{a. Some a \<in> set (operands x) \<and> (\<exists>y. heap m a = Some y \<and> is_instruction (kind y))} = needs m i"
  using assms by (auto simp: needs_def operand_at_def in_set_conv_nth split: if_splits)

interpretation mark: worklist_loop "mark_loop m" "\<lambda>i s. Some (mark_instruction m i s)" dc_work_list
  "\<lambda>s. s\<lparr>dc_work_list := tl (dc_work_list s)\<rparr>" marked "needs m" "set (listed m f)" "marking m fi f"
  for m fi f
proof unfold_locales
  fix s
  show "mark_loop m s = (case dc_work_list s of [] \<Rightarrow> Some (Inr s)
      | x # xs \<Rightarrow> obind (Some (mark_instruction m x (s\<lparr>dc_work_list := tl (dc_work_list s)\<rparr>))) (mark_loop m))"
    by (subst mark_loop.simps) (simp split: list.splits)
next
  fix s i "is"
  assume s: "marking m fi f s" "dc_work_list s = i # is" "i \<in> set (listed m f)"
  then have ok: "module_ok m fi" and f: "f \<in> set (function_list m)" and i: "i \<in> set (listed m f)"
    by (auto simp: marking_def)
  obtain x where x: "heap m i = Some x" using listed_instruction [OF ok f i] by blast
  have ops: "\<exists>y. heap m a = Some y \<and> (is_instruction (kind y) \<longrightarrow> func_of m a = Inr f)" if a: "Some a \<in> set (operands x)" for a
  proof -
    obtain j where "j < length (operands x)" "operands x ! j = Some a" using a by (auto simp: in_set_conv_nth)
    then have op: "operand_at m i j = Some a" using x by (simp add: operand_at_def)
    then obtain y where y: "heap m a = Some y" using uses_okD(4) [OF module_okD(1) [OF ok]] by blast
    have "func_of m a = Inr f" if "is_instruction (kind y)"
    proof (rule module_okD(4) [OF ok f], rule needs_listed [OF ok f i])
      show "a \<in> needs m i" using op y that by (auto simp: needs_def)
    qed
    then show ?thesis using y by blast
  qed
  let ?s = "s\<lparr>dc_work_list := tl (dc_work_list s)\<rparr>"
  obtain s' new where s': "rfold (mark_operand m i) (operands x) ?s = Inr s'" "dc_work_list s' = dc_work_list ?s @ new"
    "distinct new" "set new = needs m i - marked ?s" "marked s' = marked ?s \<union> needs m i"
    using mark_operands_spec [where s = ?s and ops = "operands x", OF module_okD(4) [OF ok f i] ops] unfolding operands_needs [OF x] by auto
  have "marked s' \<subseteq> set (listed m f)"
    using s'(5) s(1) needs_listed [OF ok f i] by (auto simp: marking_def)
  then show "\<exists>s' new. Some (mark_instruction m i ?s) = Some (Inr s') \<and> marking m fi f s' \<and>
      dc_work_list s' = is @ new \<and> distinct new \<and> set new = needs m i - marked s \<and> marked s' = marked s \<union> needs m i"
    using s' s(1,2) x by (auto simp: mark_instruction_def get_val_def marking_def)
next
  fix s
  assume "marking m fi f s"
  then show "marked s \<subseteq> set (listed m f) \<and> finite (set (listed m f))" by (simp add: marking_def)
qed

lemma mark_critical_spec:
  assumes "\<And>i. i \<in> set is \<Longrightarrow> \<exists>c. is_critical m fi i = Inr c"
  shows "\<exists>s'. rfold (mark_critical m fi) is s = Inr s' \<and>
    dc_work_list s' = dc_work_list s @ filter (critical m fi) is \<and>
    marked s' = marked s \<union> {i \<in> set is. critical m fi i}"
  using assms
proof (induction "is" arbitrary: s)
  case (Cons i "is")
  obtain c where c: "is_critical m fi i = Inr c" using Cons.prems by auto
  let ?s = "if c then s\<lparr>marked := insert i (marked s), dc_work_list := dc_work_list s @ [i]\<rparr> else s"
  obtain s' where "rfold (mark_critical m fi) is ?s = Inr s'"
    "dc_work_list s' = dc_work_list ?s @ filter (critical m fi) is"
    "marked s' = marked ?s \<union> {i \<in> set is. critical m fi i}"
    using Cons.IH [of ?s] Cons.prems by auto
  moreover have "mark_critical m fi i s = Inr ?s" "critical m fi i = c"
    using c is_critical_iff [OF c] by (simp_all add: mark_critical_def)
  ultimately show ?case by (cases c) (auto intro!: exI [of _ s'])
qed auto

lemma mark_function_spec:
  assumes ok: "module_ok m fi" and f: "f \<in> set (function_list m)"
  shows "\<exists>s. mark_function m fi f = Some (Inr s) \<and> marked s = {i. needed m fi f i}"
proof -
  have crit: "\<exists>c. is_critical m fi i = Inr c" if i: "i \<in> set (listed m f)" for i
    using listedE [OF i] module_okD(5) [OF ok f] by metis
  obtain s0 where s0: "rfold (mark_critical m fi) (listed m f) \<lparr>dc_work_list = [], marked = {}\<rparr> = Inr s0"
    "dc_work_list s0 = filter (critical m fi) (listed m f)" "marked s0 = {i \<in> set (listed m f). critical m fi i}"
    using mark_critical_spec [of "listed m f" m fi "\<lparr>dc_work_list = [], marked = {}\<rparr>"] crit by auto
  have "marking m fi f s0" "set (dc_work_list s0) = marked s0"
    using ok f s0(2,3) by (auto simp: marking_def)
  from mark.loop_closure [OF this] obtain s where "mark_loop m s0 = Some (Inr s)"
    "marked s = {y. \<exists>x \<in> marked s0. (\<lambda>a b. b \<in> needs m a)\<^sup>*\<^sup>* x y}" by blast
  then show ?thesis using s0 by (auto simp: mark_function_def needed_def)
qed

end
