(* ===== verification/Dead_Sweep.thy ===== *)
theory Dead_Sweep
  imports Dead_Code
begin

text \<open>
  What \<^verbatim>\<open>DeadCode::sweep\<close> leaves of the module, and the whole pass: it terminates after at most
  two rounds with exactly the needed instructions in the blocks, and the lists of uses agree
  with the operands again.
\<close>

section \<open>A module without a set of instructions\<close>

definition drop_uses :: "addr set \<Rightarrow> val \<Rightarrow> val" where
  "drop_uses D x = x\<lparr>use_list := filter (\<lambda>u. fst u \<notin> D) (use_list x)\<rparr>"

lemma drop_uses_simps [simp]:
  "kind (drop_uses D x) = kind x" "operands (drop_uses D x) = operands x" "parent (drop_uses D x) = parent x"
  "num_ops (drop_uses D x) = num_ops x" "vtype (drop_uses D x) = vtype x" "name (drop_uses D x) = name x"
  "use_list (drop_uses D x) = filter (\<lambda>u. fst u \<notin> D) (use_list x)"
  "drop_uses {} x = x"
  by (simp_all add: drop_uses_def)

lemma drop_uses_twice [simp]: "drop_uses D (drop_uses E x) = drop_uses (D \<union> E) x"
proof -
  have "filter (\<lambda>u. fst u \<notin> E \<and> fst u \<notin> D) (use_list x) = filter (\<lambda>u. fst u \<notin> D \<union> E) (use_list x)"
    by (rule filter_cong) auto
  then show ?thesis by (simp add: drop_uses_def)
qed

lemma drop_uses_id: "(\<And>u. u \<in> fst ` set (use_list x) \<Longrightarrow> u \<notin> D) \<Longrightarrow> drop_uses D x = x"
  by (auto simp: drop_uses_def intro!: val.equality filter_True)

definition blocks_of :: "ir \<Rightarrow> addr set" where
  "blocks_of m = (\<Union>f \<in> set (function_list m). set (block_list m f))"

text \<open>\<open>swept D E m\<close>: the uses by \<open>D\<close> are gone, and the objects and list entries of \<open>E\<close>.\<close>

definition swept :: "addr set \<Rightarrow> addr set \<Rightarrow> ir \<Rightarrow> ir" where
  "swept D E m = m\<lparr>
     heap := (\<lambda>a. if a \<in> E then None else map_option (drop_uses D) (heap m a)),
     instr_list := (\<lambda>b. if b \<in> blocks_of m then filter (\<lambda>i. i \<notin> E) (instr_list m b) else instr_list m b)\<rparr>"

lemma swept_simps [simp]:
  "heap (swept D E m) a = (if a \<in> E then None else map_option (drop_uses D) (heap m a))"
  "instr_list (swept D E m) b = (if b \<in> blocks_of m then filter (\<lambda>i. i \<notin> E) (instr_list m b) else instr_list m b)"
  "function_list (swept D E m) = function_list m" "block_list (swept D E m) = block_list m"
  "next_addr (swept D E m) = next_addr m" "blocks_of (swept D E m) = blocks_of m"
  by (simp_all add: swept_def blocks_of_def)

lemma swept_empty [simp]: "swept {} {} m = m"
  by (auto simp: swept_def fun_eq_iff option.map_ident_strong intro!: ir.equality)

lemma swept_swept: "swept D E (swept D' E' m) = swept (D \<union> D') (E \<union> E') m"
proof -
  have "heap (swept D E (swept D' E' m)) = heap (swept (D \<union> D') (E \<union> E') m)"
    by (auto simp: fun_eq_iff option.map_comp o_def)
  moreover have "instr_list (swept D E (swept D' E' m)) = instr_list (swept (D \<union> D') (E \<union> E') m)"
    by (auto simp: fun_eq_iff intro: filter_cong)
  ultimately show ?thesis by (simp add: swept_def blocks_of_def)
qed

lemma listed_swept:
  assumes "f \<in> set (function_list m)"
  shows "listed (swept D E m) f = filter (\<lambda>i. i \<notin> E) (listed m f)"
proof -
  have "map (instr_list (swept D E m)) (block_list m f) = map (filter (\<lambda>i. i \<notin> E) \<circ> instr_list m) (block_list m f)"
    using assms by (auto simp: blocks_of_def)
  then show ?thesis unfolding listed_def swept_simps(4) filter_concat map_map by (rule arg_cong)
qed

section \<open>Sweeping a function\<close>

lemma remove_uses_spec:
  assumes "\<And>op. op \<in> set ops \<Longrightarrow> \<exists>a. op = Some a \<and> heap m a \<noteq> None"
  shows "remove_uses i ops m = Inr (m\<lparr>heap := (\<lambda>a.
    map_option (\<lambda>x. if Some a \<in> set ops then drop_uses {i} x else x) (heap m a))\<rparr>)"
  using assms
proof (induction ops arbitrary: m)
  case Nil
  then show ?case by (simp add: remove_uses_def option.map_ident)
next
  case (Cons op ops)
  obtain a x where a: "op = Some a" "heap m a = Some x" using Cons.prems [of op] by auto
  let ?m = "m\<lparr>heap := (heap m)(a \<mapsto> drop_uses {i} x)\<rparr>"
  have "remove_use a i m = Inr ?m"
    using a(2) by (simp add: remove_use_def upd_val_def get_val_def drop_uses_def)
  then have "remove_uses i (op # ops) m = remove_uses i ops ?m" using a(1) by (simp add: remove_uses_def)
  also have "\<dots> = Inr (?m\<lparr>heap := (\<lambda>a. map_option (\<lambda>x. if Some a \<in> set ops then drop_uses {i} x else x) (heap ?m a))\<rparr>)"
    by (rule Cons.IH) (use Cons.prems in auto)
  finally show ?case using a by (auto simp: fun_eq_iff)
qed

lemma remove_use_of_ops_swept:
  assumes ok: "uses_ok m" and x: "heap m i = Some x" "None \<notin> set (operands x)"
  shows "remove_use_of_ops i (swept D {} m) = Inr (swept (insert i D) {} m)"
proof -
  have alive: "\<exists>a. op = Some a \<and> heap (swept D {} m) a \<noteq> None" if mem: "op \<in> set (operands x)" for op
  proof -
    obtain j where j: "j < length (operands x)" "operands x ! j = op" using mem by (metis in_set_conv_nth)
    obtain a where "op = Some a" using x(2) mem by (cases op) auto
    moreover have "heap m a \<noteq> None"
      using uses_okD(4) [OF ok, of i j a] x(1) j calculation by (simp add: operand_at_def)
    ultimately show ?thesis by simp
  qed
  have "map_option (\<lambda>x'. if Some a \<in> set (operands x) then drop_uses {i} x' else x') (heap (swept D {} m) a) =
      heap (swept (insert i D) {} m) a" for a
  proof (cases "heap m a")
    case (Some y)
    have "drop_uses (insert i D) y = drop_uses D y" if "Some a \<notin> set (operands x)"
    proof -
      have "(i, j) \<notin> set (use_list y)" for j
        using uses_okD(3) [OF ok Some, of i j] x(1) that
        unfolding operand_at_Some by (metis nth_mem option.inject)
      then have "filter (\<lambda>u. fst u \<notin> insert i D) (use_list y) = filter (\<lambda>u. fst u \<notin> D) (use_list y)"
        by (intro filter_cong) auto
      then show ?thesis by (simp only: drop_uses_def)
    qed
    then show ?thesis using Some by simp
  qed simp
  moreover have "remove_use_of_ops i (swept D {} m) = remove_uses i (operands x) (swept D {} m)"
    using x(1) by (simp add: remove_use_of_ops_def get_val_def)
  ultimately show ?thesis using remove_uses_spec [where m = "swept D {} m" and i = i and ops = "operands x", OF alive] by (simp add: swept_def)
qed

lemma remove_uses_swept:
  assumes "uses_ok m" "\<And>i. i \<in> set is \<Longrightarrow> \<exists>x. heap m i = Some x \<and> None \<notin> set (operands x)"
  shows "rfold remove_use_of_ops is (swept D {} m) = Inr (swept (set is \<union> D) {} m)"
  using assms(2)
proof (induction "is" arbitrary: D)
  case (Cons i "is")
  obtain x where "heap m i = Some x" "None \<notin> set (operands x)" using Cons.prems [of i] by auto
  then have "remove_use_of_ops i (swept D {} m) = Inr (swept (insert i D) {} m)"
    by (rule remove_use_of_ops_swept [OF assms(1)])
  then show ?case using Cons.IH [of "insert i D"] Cons.prems by simp
qed simp

lemma erase_instruction_swept:
  assumes ok: "module_ok m fi" and f: "f \<in> set (function_list m)" and i: "i \<in> set (listed m f)" "i \<notin> E"
  shows "erase_instruction i (swept D E m) = Inr (swept D (insert i E) m)"
proof -
  obtain b where b: "b \<in> set (block_list m f)" "i \<in> set (instr_list m b)" using i(1) by (rule listedE)
  obtain x where x: "heap m i = Some x" "parent x = Some b" using module_okD(5) [OF ok f b] by blast
  have only: "i \<notin> set (instr_list m c)" if "c \<in> blocks_of m" "c \<noteq> b" for c
    using that module_okD(5) [OF ok, of _ c i] x by (force simp: blocks_of_def)
  have "distinct (instr_list m b)"
    using module_okD(3) [OF ok f] b(1) by (auto simp: listed_def distinct_concat_iff)
  then have rem: "remove1 i (filter (\<lambda>i. i \<notin> E) (instr_list m b)) = filter (\<lambda>j. j \<notin> insert i E) (instr_list m b)"
    by (simp add: distinct_remove1_removeAll removeAll_filter_not_eq) (metis (lifting))
  have bb: "b \<in> blocks_of m" using b(1) f by (auto simp: blocks_of_def)
  have other: "filter (\<lambda>j. j \<notin> insert i E) (instr_list m c) = filter (\<lambda>i. i \<notin> E) (instr_list m c)"
    if "c \<in> blocks_of m" "c \<noteq> b" for c
    using only [OF that] by (intro filter_cong) auto
  have "instr_list (unlink_instr b i (swept D E m)) = instr_list (swept D (insert i E) m)"
    using rem bb other by (auto simp: unlink_instr_def fun_eq_iff)
  moreover have "(heap (swept D E m))(i := None) = heap (swept D (insert i E) m)"
    by (auto simp: fun_eq_iff)
  moreover have "erase_instruction i (swept D E m) = Inr (erase_from_list b i (swept D E m))"
    using x i(2) by (simp add: erase_instruction_def get_val_def)
  ultimately show ?thesis by (simp add: erase_from_list_def unlink_instr_def swept_def)
qed

lemma erase_instructions_swept:
  assumes "module_ok m fi" "f \<in> set (function_list m)" "distinct is" "set is \<subseteq> set (listed m f)" "set is \<inter> E = {}"
  shows "rfold erase_instruction is (swept D E m) = Inr (swept D (set is \<union> E) m)"
  using assms(3-5)
proof (induction "is" arbitrary: E)
  case (Cons i "is")
  have "erase_instruction i (swept D E m) = Inr (swept D (insert i E) m)"
    by (rule erase_instruction_swept [OF assms(1,2)]) (use Cons.prems in auto)
  then show ?case using Cons.IH [of "insert i E"] Cons.prems by simp
qed simp

lemma sweep_spec:
  assumes ok: "module_ok m fi" and f: "f \<in> set (function_list m)" and D: "D = set (listed m f) - marked s"
  shows "sweep f s m = Inr (swept D D m, length (filter (\<lambda>i. i \<notin> marked s) (listed m f)))"
proof -
  let ?w = "filter (\<lambda>i. i \<notin> marked s) (listed m f)"
  have "set ?w = D" by (auto simp: D)
  moreover have "\<exists>x. heap m i = Some x \<and> None \<notin> set (operands x)" if "i \<in> set ?w" for i
    using listed_instruction [OF ok f, of i] that by auto
  then have "rfold remove_use_of_ops ?w (swept {} {} m) = Inr (swept (set ?w \<union> {}) {} m)"
    by (intro remove_uses_swept [OF module_okD(1) [OF ok]])
  moreover have "rfold erase_instruction ?w (swept D {} m) = Inr (swept D (set ?w \<union> {}) m)"
    by (rule erase_instructions_swept [OF ok f]) (use module_okD(3) [OF ok f] in auto)
  ultimately show ?thesis by (simp add: sweep_def Let_def)
qed

section \<open>Sweeping keeps the rest\<close>

text \<open>What is not needed in the functions \<open>fs\<close>.\<close>

definition dead :: "ir \<Rightarrow> func_info \<Rightarrow> addr set \<Rightarrow> addr set" where
  "dead m fi fs = {i. \<exists>f \<in> fs. i \<in> set (listed m f) \<and> \<not> needed m fi f i}"

lemma needed_step:
  assumes "needed m fi f i" "j \<in> needs m i"
  shows "needed m fi f j"
  using assms unfolding needed_def by (metis rtranclp.rtrancl_into_rtrancl)

lemma operand_not_dead:
  assumes ok: "module_ok m fi" and fs: "fs \<subseteq> set (function_list m)"
    and u: "u \<notin> dead m fi fs" and op: "operand_at m u j = Some a"
  shows "a \<notin> dead m fi fs"
proof
  assume "a \<in> dead m fi fs"
  then obtain f where f: "f \<in> fs" "a \<in> set (listed m f)" "\<not> needed m fi f a" by (auto simp: dead_def)
  have ff: "f \<in> set (function_list m)" using f(1) fs by blast
  obtain x where x: "heap m a = Some x" "is_instruction (kind x)"
    using listed_instruction [OF ok ff f(2)] by blast
  obtain g where g: "g \<in> set (function_list m)" "u \<in> set (listed m g)" "a \<in> set (listed m g)"
    using module_okD(6) [OF ok op x] by blast
  have "g = f" by (rule listed_unique [OF ok g(1) ff g(3) f(2)])
  then have "needed m fi f u" using u g(2) f(1) by (auto simp: dead_def)
  moreover have "a \<in> needs m u" using op x by (auto simp: needs_def)
  ultimately show False using needed_step f(3) by blast
qed

lemma not_dead_object:
  assumes ok: "module_ok m fi" and fs: "fs \<subseteq> set (function_list m)"
    and x: "heap m a = Some x" "\<not> is_instruction (kind x)"
  shows "a \<notin> dead m fi fs"
  using listed_instruction [OF ok] x fs by (fastforce simp: dead_def)

text \<open>The facts about the module without the dead instructions of \<open>fs\<close> that the next theorems need.\<close>

lemma swept_operand_at:
  assumes "module_ok m fi" "fs \<subseteq> set (function_list m)" "D = dead m fi fs"
  shows "operand_at (swept D D m) u j = (if u \<in> D then None else operand_at m u j)"
  by (simp add: operand_at_def split: option.splits)

lemma swept_needs:
  assumes ok: "module_ok m fi" and fs: "fs \<subseteq> set (function_list m)" and D: "D = dead m fi fs" and u: "u \<notin> D"
  shows "needs (swept D D m) u = needs m u"
proof -
  have "a \<notin> D" if "operand_at m u j = Some a" for j a
    using operand_not_dead [OF ok fs _ that] u D by blast
  then show ?thesis
    unfolding needs_def swept_operand_at [OF ok fs D] using u by auto
qed

lemma swept_is_critical:
  assumes ok: "module_ok m fi" and fs: "fs \<subseteq> set (function_list m)" and D: "D = dead m fi fs" and u: "u \<notin> D"
  shows "is_critical (swept D D m) fi u = is_critical m fi u"
proof (cases "heap m u")
  case (Some x)
  have op: "a \<notin> D" if "0 < length (operands x)" "operands x ! 0 = Some a" for a
    using operand_not_dead [OF ok fs, of u 0 a] u D that Some by (auto simp: operand_at_def)
  show ?thesis
  proof (cases "0 < length (operands x)")
    case True
    then show ?thesis using Some u op
      by (cases "operands x ! 0") (auto simp: is_critical_def get_val_def get_operand_def split: option.splits)
  next
    case False
    then show ?thesis using Some u by (simp add: is_critical_def get_val_def get_operand_def)
  qed
qed (simp add: is_critical_def get_val_def)

lemma swept_uses_ok:
  assumes ok: "module_ok m fi" and fs: "fs \<subseteq> set (function_list m)" and D: "D = dead m fi fs"
  shows "uses_ok (swept D D m)"
proof (rule uses_okI)
  note uok = module_okD(1) [OF ok]
  fix a z
  assume "heap (swept D D m) a = Some z"
  then obtain x where x: "a \<notin> D" "heap m a = Some x" "z = drop_uses D x" by (auto split: if_splits)
  show "a < next_addr (swept D D m) \<and> val_ok z"
    using uses_okD(1,2) [OF uok x(2)] x(3) by (simp add: val_ok_def)
  show "(u, i) \<in> set (use_list z) \<longleftrightarrow> operand_at (swept D D m) u i = Some a" for u i
    unfolding swept_operand_at [OF ok fs D] using uses_okD(3) [OF uok x(2), of u i] x(3) by auto
next
  fix u i a
  assume "operand_at (swept D D m) u i = Some a"
  then have "u \<notin> D" and op: "operand_at m u i = Some a"
    unfolding swept_operand_at [OF ok fs D] by (auto split: if_splits)
  then have "a \<notin> D" using operand_not_dead [OF ok fs _ op] D by blast
  then show "heap (swept D D m) a \<noteq> None" using uses_okD(4) [OF module_okD(1) [OF ok] op] by simp
qed

lemma swept_module_ok:
  assumes ok: "module_ok m fi" and fs: "fs \<subseteq> set (function_list m)" and D: "D = dead m fi fs"
  shows "module_ok (swept D D m) fi"
  unfolding module_ok_def
proof (intro conjI ballI allI impI)
  let ?m = "swept D D m"
  show "uses_ok ?m" by (rule swept_uses_ok [OF ok fs D])
  show "distinct (function_list ?m)" using module_okD(2) [OF ok] by simp
  fix f
  assume "f \<in> set (function_list ?m)"
  then have f: "f \<in> set (function_list m)" by simp
  show "distinct (listed ?m f)" unfolding listed_swept [OF f] using module_okD(3) [OF ok f] by simp
  fix b
  assume "b \<in> set (block_list ?m f)"
  then have b: "b \<in> set (block_list m f)" by simp
  obtain y where y: "heap m b = Some y" "kind y = BasicBlockV" "parent y = Some f"
    using module_okD(7) [OF ok f b] by blast
  have "b \<notin> D" unfolding D by (rule not_dead_object [OF ok fs y(1)]) (simp add: y(2) is_instruction_def)
  then show "\<exists>y. heap ?m b = Some y \<and> kind y = BasicBlockV \<and> parent y = Some f" using y by auto
  fix i
  assume "i \<in> set (instr_list ?m b)"
  then have i: "i \<in> set (instr_list m b)" "i \<notin> D" using b f by (auto simp: blocks_of_def split: if_splits)
  show "\<exists>x. heap ?m i = Some x \<and> is_instruction (kind x) \<and> parent x = Some b \<and>
      None \<notin> set (operands x) \<and> (\<exists>c. is_critical ?m fi i = Inr c)"
    unfolding swept_is_critical [OF ok fs D i(2)] using module_okD(5) [OF ok f b i(1)] i(2) by auto
next
  let ?m = "swept D D m"
  fix u j a x
  assume "operand_at ?m u j = Some a" "heap ?m a = Some x" "is_instruction (kind x)"
  then obtain y where "operand_at m u j = Some a" "u \<notin> D" "a \<notin> D" "heap m a = Some y" "is_instruction (kind y)"
    unfolding swept_operand_at [OF ok fs D] by (auto split: if_splits)
  then obtain f where "f \<in> set (function_list m)" "u \<in> set (listed m f)" "a \<in> set (listed m f)"
    using module_okD(6) [OF ok] by blast
  then show "\<exists>f \<in> set (function_list ?m). u \<in> set (listed ?m f) \<and> a \<in> set (listed ?m f)"
    using \<open>u \<notin> D\<close> \<open>a \<notin> D\<close> by (auto simp: listed_swept)
qed

lemma swept_needed:
  assumes ok: "module_ok m fi" and fs: "fs \<subseteq> set (function_list m)" and D: "D = dead m fi fs"
    and f: "f \<in> set (function_list m)"
  shows "needed (swept D D m) fi f i = needed m fi f i"
proof -
  have crit: "c \<notin> D" if c: "c \<in> set (listed m f)" "critical m fi c" for c
  proof
    assume "c \<in> D"
    then obtain g where g: "g \<in> fs" "c \<in> set (listed m g)" "\<not> needed m fi g c" by (auto simp: D dead_def)
    then have "g = f" using listed_unique [OF ok _ f g(2) c(1)] fs by blast
    then show False using g(3) c by (auto simp: needed_def)
  qed
  have step: "b \<in> needs m a \<longleftrightarrow> b \<in> needs (swept D D m) a" if "a \<in> - D" for a b
    using swept_needs [OF ok fs D] that by simp
  have stay: "b \<in> - D" if "a \<in> - D" "b \<in> needs m a" for a b
    using operand_not_dead [OF ok fs, of a _ b] that by (auto simp: D needs_def)
  have reach: "(\<lambda>a b. b \<in> needs (swept D D m) a)\<^sup>*\<^sup>* c i \<longleftrightarrow> (\<lambda>a b. b \<in> needs m a)\<^sup>*\<^sup>* c i" if "c \<notin> D" for c
    using rtranclp_closed_cong [of "- D" "\<lambda>a b. b \<in> needs m a" "\<lambda>a b. b \<in> needs (swept D D m) a" c i]
      step stay that by blast
  have same: "critical (swept D D m) fi c = critical m fi c" if "c \<notin> D" for c
    using that by (cases "heap m c") (simp_all add: critical_def operand_at_def)
  show ?thesis
    unfolding needed_def listed_swept [OF f] using crit reach same by (auto 0 4)
qed

section \<open>The pass\<close>

definition erased_count :: "ir \<Rightarrow> func_info \<Rightarrow> addr \<Rightarrow> nat" where
  "erased_count m fi f = length (filter (\<lambda>i. \<not> needed m fi f i) (listed m f))"

lemma dead_code_function_spec:
  assumes ok: "module_ok m fi" and f: "f \<in> set (function_list m)"
  shows "dead_code_function fi f (m, ch, k) =
    Some (Inr (swept (dead m fi {f}) (dead m fi {f}) m, ch \<or> erased_count m fi f \<noteq> 0, k + erased_count m fi f))"
proof -
  obtain s where s: "mark_function m fi f = Some (Inr s)" "marked s = {i. needed m fi f i}"
    using mark_function_spec [OF ok f] by blast
  have "dead m fi {f} = set (listed m f) - marked s" by (auto simp: dead_def s(2))
  from sweep_spec [OF ok f this] show ?thesis
    using s by (simp add: dead_code_function_def erased_count_def)
qed

lemma dead_code_functions_spec:
  assumes ok: "module_ok m fi"
    and "set done \<subseteq> set (function_list m)" "set fs \<subseteq> set (function_list m)" "distinct (done @ fs)"
    and "D = dead m fi (set done)" "D' = dead m fi (set done \<union> set fs)"
  shows "ofold (dead_code_function fi) fs (swept D D m, ch, k) =
    Some (Inr (swept D' D' m, ch \<or> sum_list (map (erased_count m fi) fs) \<noteq> 0,
      k + sum_list (map (erased_count m fi) fs)))"
  using assms(2-)
proof (induction fs arbitrary: "done" D ch k)
  case (Cons f fs)
  let ?m = "swept D D m"
  have f: "f \<in> set (function_list m)" "f \<notin> set done" using Cons.prems by auto
  note okD = swept_module_ok [OF ok Cons.prems(1,4)]
  have needed: "needed ?m fi f i = needed m fi f i" for i by (rule swept_needed [OF ok Cons.prems(1,4) f(1)])
  have keep: "i \<notin> D" if i: "i \<in> set (listed m f)" for i
    using listed_unique [OF ok f(1) _ i] f(2) Cons.prems(1) by (auto simp: Cons.prems(4) dead_def)
  have listed: "listed ?m f = listed m f"
    unfolding listed_swept [OF f(1)] using keep by (simp add: filter_id_conv)
  let ?D = "dead m fi (set (done @ [f]))"
  have "dead ?m fi {f} = dead m fi {f}" by (simp add: dead_def listed needed)
  then have D1: "dead ?m fi {f} \<union> D = ?D" by (auto simp: Cons.prems(4) dead_def)
  have count: "erased_count ?m fi f = erased_count m fi f" by (simp add: erased_count_def listed needed)
  have step: "dead_code_function fi f (?m, ch, k) =
      Some (Inr (swept ?D ?D m, ch \<or> erased_count m fi f \<noteq> 0, k + erased_count m fi f))"
    using dead_code_function_spec [OF okD, of f ch k] f(1) by (simp add: swept_swept D1 count del: swept_simps(1,2))
  have "ofold (dead_code_function fi) fs (swept ?D ?D m, ch \<or> erased_count m fi f \<noteq> 0, k + erased_count m fi f) =
    Some (Inr (swept D' D' m, (ch \<or> erased_count m fi f \<noteq> 0) \<or> sum_list (map (erased_count m fi) fs) \<noteq> 0,
      k + erased_count m fi f + sum_list (map (erased_count m fi) fs)))"
    by (rule Cons.IH [OF _ _ _ refl]) (use Cons.prems in auto)
  then show ?case using step by (simp add: disj_assoc add.assoc)
qed simp

definition dead_all :: "ir \<Rightarrow> func_info \<Rightarrow> addr set" where
  "dead_all m fi = dead m fi (set (function_list m))"

lemma dead_code_round:
  assumes ok: "module_ok m fi"
  shows "ofold (dead_code_function fi) (function_list m) (m, False, k) =
    Some (Inr (swept (dead_all m fi) (dead_all m fi) m, sum_list (map (erased_count m fi) (function_list m)) \<noteq> 0,
      k + sum_list (map (erased_count m fi) (function_list m))))"
proof -
  have "ofold (dead_code_function fi) (function_list m) (swept {} {} m, False, k) =
    Some (Inr (swept (dead_all m fi) (dead_all m fi) m, False \<or> sum_list (map (erased_count m fi) (function_list m)) \<noteq> 0,
      k + sum_list (map (erased_count m fi) (function_list m))))"
    by (rule dead_code_functions_spec [OF ok, of "[]"]) (use module_okD(2) [OF ok] in \<open>auto simp: dead_def dead_all_def\<close>)
  then show ?thesis by simp
qed

lemma dead_code_listed:
  assumes "f \<in> set (function_list m)" "module_ok m fi"
  shows "listed (swept (dead_all m fi) (dead_all m fi) m) f = filter (needed m fi f) (listed m f)"
proof -
  have "i \<in> dead_all m fi \<longleftrightarrow> \<not> needed m fi f i" if i: "i \<in> set (listed m f)" for i
  proof
    assume "i \<in> dead_all m fi"
    then obtain g where g: "g \<in> set (function_list m)" "i \<in> set (listed m g)" "\<not> needed m fi g i"
      unfolding dead_all_def dead_def by blast
    have "g = f" by (rule listed_unique [OF assms(2) g(1) assms(1) g(2) i])
    then show "\<not> needed m fi f i" using g(3) by blast
  qed (use assms(1) i in \<open>unfold dead_all_def dead_def, blast\<close>)
  then show ?thesis unfolding listed_swept [OF assms(1)] by (intro filter_cong) auto
qed

theorem dead_code_loop_spec:
  assumes ok: "module_ok m fi" and D: "D = dead_all m fi"
  shows "dead_code_loop fi k m =
    Some (Inr (swept D D m, k + sum_list (map (erased_count m fi) (function_list m))))"
proof -
  let ?m = "swept D D m" and ?N = "sum_list (map (erased_count m fi) (function_list m))"
  have D': "D = dead m fi (set (function_list m))" by (simp add: D dead_all_def)
  have ok': "module_ok ?m fi" by (rule swept_module_ok [OF ok _ D']) simp
  have clean: "i \<in> set (listed ?m f) \<Longrightarrow> needed ?m fi f i" if f: "f \<in> set (function_list m)" for f i
    unfolding swept_needed [OF ok subset_refl D' f] using dead_code_listed [OF f ok] by (simp add: D)
  have none: "dead_all ?m fi = {}" using clean by (auto simp: dead_all_def dead_def)
  have zero: "map (erased_count ?m fi) (function_list m) = map (\<lambda>_. 0) (function_list m)"
    using clean by (auto simp: erased_count_def filter_empty_conv)
  have again: "ofold (dead_code_function fi) (function_list m) (?m, False, n) = Some (Inr (?m, False, n))" for n
    using dead_code_round [OF ok', of n] by (simp add: none zero)
  have "dead_code_loop fi n ?m = Some (Inr (?m, n))" for n
    by (subst dead_code_loop.simps) (simp add: again)
  then show ?thesis
    by (subst dead_code_loop.simps) (simp add: dead_code_round [OF ok] D [symmetric])
qed

end
