(* ===== verification/Pass_Properties.thy ===== *)
theory Pass_Properties
  imports Dead_Sweep
begin

text \<open>
  The properties of the purity analysis and of dead-code elimination, with a module of two
  functions on which they are witnessed.
\<close>

section \<open>An example module\<close>

text \<open>
  \<^verbatim>\<open>int get() { return 1; }  void main() { get(); x = 1 + 1; y = x * 1; return; }\<close>: the call of the
  pure function and the two arithmetic instructions are dead. Addresses 0 and 10 are the
  functions, 2 and 3 their blocks, 4 is the constant, 5 the return of \<^verbatim>\<open>get\<close>, 6 to 9 the body of
  \<^verbatim>\<open>main\<close>.
\<close>

definition i32_ty :: ty where "i32_ty = IntegerTy 32"

definition instr :: "ty \<Rightarrow> OpID \<Rightarrow> addr list \<Rightarrow> addr \<Rightarrow> (addr \<times> nat) list \<Rightarrow> val" where
  "instr t op vs b us = (new_val t [] (InstructionV op) (length vs) (Some b))\<lparr>operands := map Some vs, use_list := us\<rparr>"

definition example_heap :: "addr \<rightharpoonup> val" where
  "example_heap = [
     0 \<mapsto> (new_val (FunctionTy i32_ty []) ''get'' FunctionV 0 None)\<lparr>use_list := [(6, 0)]\<rparr>,
     10 \<mapsto> new_val (FunctionTy VoidTy []) ''main'' FunctionV 0 None,
     2 \<mapsto> new_val LabelTy ''label0'' BasicBlockV 0 (Some 0),
     3 \<mapsto> new_val LabelTy ''label0'' BasicBlockV 0 (Some 10),
     4 \<mapsto> (new_val i32_ty [] (ConstantIntV 1) 0 None)\<lparr>use_list := [(5, 0), (7, 0), (7, 1), (8, 1)]\<rparr>,
     5 \<mapsto> instr VoidTy Ret [4] 2 [],
     6 \<mapsto> instr i32_ty Call [0] 3 [],
     7 \<mapsto> instr i32_ty Add [4, 4] 3 [(8, 0)],
     8 \<mapsto> instr i32_ty Mul [7, 4] 3 [],
     9 \<mapsto> instr VoidTy Ret [] 3 []]"

definition example_ir :: ir where
  "example_ir = ir_init\<lparr>heap := example_heap, next_addr := 11,
     instr_list := (\<lambda>_. [])(2 := [5], 3 := [6, 7, 8, 9]), block_list := (\<lambda>_. [])(0 := [2], 10 := [3]),
     function_list := [0, 10]\<rparr>"

definition example_info :: func_info where
  "example_info = \<lparr>fi_worklist = [], is_pure = [0 \<mapsto> True, 10 \<mapsto> False]\<rparr>"

lemma example_fields:
  "heap example_ir = example_heap" "next_addr example_ir = 11" "function_list example_ir = [0, 10]"
  "instr_list example_ir = (\<lambda>_. [])(2 := [5], 3 := [6, 7, 8, 9])"
  "block_list example_ir = (\<lambda>_. [])(0 := [2], 10 := [3])"
  by (simp_all add: example_ir_def)

lemma example_operand:
  "operand_at example_ir u i = Some a \<longleftrightarrow>
     (u, i, a) \<in> {(5, 0, 4), (6, 0, 0), (7, 0, 4), (7, 1, 4), (8, 0, 7), (8, 1, 4)}"
  by (auto simp: operand_at_Some example_fields example_heap_def instr_def new_val_def less_Suc_eq split: if_splits)

lemma example_uses: "uses_ok example_ir"
proof (rule uses_okI)
  fix a x
  assume "heap example_ir a = Some x"
  then have x: "example_heap a = Some x" by (simp add: example_fields)
  then show "a < next_addr example_ir \<and> val_ok x"
    by (auto simp: example_fields example_heap_def val_ok_def instr_def new_val_def is_user_def split: if_splits)
  show "(u, i) \<in> set (use_list x) \<longleftrightarrow> operand_at example_ir u i = Some a" for u i
    unfolding example_operand using x
    by (auto simp: example_heap_def instr_def new_val_def split: if_splits)
next
  fix u i a
  assume "operand_at example_ir u i = Some a"
  then show "heap example_ir a \<noteq> None"
    unfolding example_operand by (auto simp: example_fields example_heap_def)
qed

lemma example_listed: "listed example_ir 0 = [5]" "listed example_ir 10 = [6, 7, 8, 9]"
  by (simp_all add: listed_def example_fields)

lemma example_critical:
  "is_critical example_ir example_info 5 = Inr True" "is_critical example_ir example_info 6 = Inr False"
  "is_critical example_ir example_info 7 = Inr False" "is_critical example_ir example_info 8 = Inr False"
  "is_critical example_ir example_info 9 = Inr True"
  by (simp_all add: is_critical_def get_val_def example_fields example_heap_def instr_def new_val_def
      get_operand_def is_pure_function_def example_info_def)

lemma example_ok: "module_ok example_ir example_info"
proof -
  have body: "\<exists>x. heap example_ir i = Some x \<and> is_instruction (kind x) \<and> parent x = Some b \<and>
      None \<notin> set (operands x) \<and> (\<exists>c. is_critical example_ir example_info i = Inr c)"
    if "(b, i) \<in> {(2, 5), (3, 6), (3, 7), (3, 8), (3, 9)}" for b i
    using that example_critical
    by (auto simp: example_fields example_heap_def instr_def new_val_def is_instruction_def)
  have used: "u \<in> {7, 8} \<and> a \<in> {7, 8}" if "operand_at example_ir u j = Some a" "heap example_ir a = Some x" "is_instruction (kind x)" for u j a x
    using that unfolding example_operand
    by (auto simp: example_fields example_heap_def instr_def new_val_def is_instruction_def)
  show ?thesis
    unfolding module_ok_def
  proof (intro conjI ballI allI impI)
    show "uses_ok example_ir" by (rule example_uses)
    show "distinct (function_list example_ir)" by (simp add: example_fields)
    fix f
    assume "f \<in> set (function_list example_ir)"
    then have f: "f = 0 \<or> f = 10" by (auto simp: example_fields)
    then show "distinct (listed example_ir f)" by (auto simp: example_listed)
    fix b
    assume "b \<in> set (block_list example_ir f)"
    then have b: "f = 0 \<and> b = 2 \<or> f = 10 \<and> b = 3" using f by (auto simp: example_fields)
    then show "\<exists>y. heap example_ir b = Some y \<and> kind y = BasicBlockV \<and> parent y = Some f"
      by (auto simp: example_fields example_heap_def new_val_def)
    fix i
    assume "i \<in> set (instr_list example_ir b)"
    then have "(b, i) \<in> {(2, 5), (3, 6), (3, 7), (3, 8), (3, 9)}" using b by (auto simp: example_fields)
    then show "\<exists>x. heap example_ir i = Some x \<and> is_instruction (kind x) \<and> parent x = Some b \<and>
      None \<notin> set (operands x) \<and> (\<exists>c. is_critical example_ir example_info i = Inr c)" by (rule body)
  next
    fix u j a x
    assume "operand_at example_ir u j = Some a" "heap example_ir a = Some x" "is_instruction (kind x)"
    then have "u \<in> {7, 8} \<and> a \<in> {7, 8}" by (rule used)
    then show "\<exists>f \<in> set (function_list example_ir). u \<in> set (listed example_ir f) \<and> a \<in> set (listed example_ir f)"
      by (intro bexI [of _ 10]) (auto simp: example_listed example_fields)
  qed
qed

text \<open>The purity analysis of the example.\<close>

lemma example_purity:
  "trivial_purity example_ir 0 = Some (Inr True)" "trivial_purity example_ir 10 = Some (Inr False)"
  by (simp_all add: trivial_purity_def get_val_def example_fields example_heap_def instr_def new_val_def
      is_declaration_def is_side_effect_inst_def i32_ty_def)

lemma example_calls: "calls_ok example_ir"
  by (auto simp: calls_ok_def example_fields example_heap_def instr_def new_val_def func_of_def get_val_def)

lemma example_callers: "callers example_ir 0 = {10}" "callers example_ir 10 = {}"
  by (auto simp: callers_def example_fields example_heap_def instr_def new_val_def func_of_def get_val_def
      is_instruction_def)

lemma propagate_Nil: "fi_worklist s = [] \<Longrightarrow> propagate m s = Some (Inr s)"
  by (subst propagate.simps) simp

lemma example_run_info: "run_func_info example_ir func_info_init = Some (Inr example_info)"
  by (simp add: run_func_info_def example_fields(3) init_function_def trivial_mark_def example_purity
      func_info_init_def propagate.simps process_def get_val_def example_fields(1))
    (simp add: example_heap_def new_val_def example_info_def propagate_Nil)

section \<open>Properties\<close>

text \<open>
  C18. Dead-code elimination terminates on every well-formed module. Afterwards the blocks of
  each function list exactly the needed instructions, in their order: those that a branch, a
  return, a store or a call of an impure function reaches through operands. The count is the
  number of erased instructions, the lists of uses agree with the operands, and what is left
  keeps its kind and its operands.
\<close>

theorem run_dead_code_correct:
  assumes "run_func_info m func_info_init = Some (Inr fi)" and ok: "module_ok m fi"
  shows "\<exists>m' n. run_dead_code m = Some (Inr (m', n)) \<and> uses_ok m' \<and>
    (\<forall>f \<in> set (function_list m). listed m' f = filter (needed m fi f) (listed m f)) \<and>
    n = (\<Sum>f \<leftarrow> function_list m. length (filter (\<lambda>i. \<not> needed m fi f i) (listed m f))) \<and>
    (\<forall>i x'. heap m' i = Some x' \<longrightarrow> (\<exists>x. heap m i = Some x \<and> kind x' = kind x \<and> operands x' = operands x))"
proof (intro exI conjI)
  let ?D = "dead_all m fi"
  show "run_dead_code m = Some (Inr (swept ?D ?D m, \<Sum>f \<leftarrow> function_list m. length (filter (\<lambda>i. \<not> needed m fi f i) (listed m f))))"
    using assms(1) dead_code_loop_spec [OF ok refl, of 0] by (simp add: run_dead_code_def erased_count_def [abs_def])
  show "uses_ok (swept ?D ?D m)" by (rule swept_uses_ok [OF ok subset_refl dead_all_def])
  show "\<forall>f \<in> set (function_list m). listed (swept ?D ?D m) f = filter (needed m fi f) (listed m f)"
    using dead_code_listed ok by blast
  show "\<forall>i x'. heap (swept ?D ?D m) i = Some x' \<longrightarrow>
      (\<exists>x. heap m i = Some x \<and> kind x' = kind x \<and> operands x' = operands x)"
    by auto
qed (rule refl)

lemma example_needed:
  "needed example_ir example_info 0 i \<longleftrightarrow> i = 5" "needed example_ir example_info 10 i \<longleftrightarrow> i = 9"
proof -
  have none: "needs example_ir c = {}" if "c = 5 \<or> c = 9" for c
    using that by (auto simp: needs_def example_operand example_fields example_heap_def new_val_def is_instruction_def)
  have reach: "(\<lambda>a b. b \<in> needs example_ir a)\<^sup>*\<^sup>* c i \<longleftrightarrow> i = c" if c: "c = 5 \<or> c = 9" for c i
    using none [OF c] by (auto elim: converse_rtranclpE)
  show "needed example_ir example_info 0 i \<longleftrightarrow> i = 5" "needed example_ir example_info 10 i \<longleftrightarrow> i = 9"
    by (auto simp: needed_def example_listed example_critical [THEN is_critical_iff] reach)
qed

theorem run_dead_code_correct_witness:
  "\<exists>m'. run_dead_code example_ir = Some (Inr (m', 3)) \<and> uses_ok m' \<and> listed m' 0 = [5] \<and> listed m' 10 = [9]"
  using run_dead_code_correct [OF example_run_info example_ok]
  by (auto simp: example_fields example_listed example_needed)

text \<open>
  C19. The purity analysis terminates, and a function is pure exactly when no function that is
  impure by itself (a declaration, \<^verbatim>\<open>main\<close>, one with an array parameter or with a load or store
  that is not local) is reached from it through calls.
\<close>

theorem run_func_info_correct:
  assumes "calls_ok m" "distinct (function_list m)"
    and "\<And>f. f \<in> set (function_list m) \<Longrightarrow> trivial_purity m f = Some (Inr (tp f))"
  shows "\<exists>s. run_func_info m func_info_init = Some (Inr s) \<and>
    (\<forall>f \<in> set (function_list m). is_pure_function f s =
       Inr (\<not> (\<exists>g \<in> set (function_list m). \<not> tp g \<and> (\<lambda>a b. b \<in> callers m a)\<^sup>*\<^sup>* g f)))"
  by (rule run_func_info_spec [OF assms])

theorem run_func_info_correct_witness:
  "\<exists>s. run_func_info example_ir func_info_init = Some (Inr s) \<and> is_pure_function 10 s = Inr False"
proof -
  have tp: "trivial_purity example_ir f = Some (Inr (f = 0))" if "f \<in> set (function_list example_ir)" for f
    using that example_purity by (auto simp: example_fields)
  have d: "distinct (function_list example_ir)" by (simp add: example_fields)
  obtain s where s: "run_func_info example_ir func_info_init = Some (Inr s)"
    "\<forall>f \<in> set (function_list example_ir). is_pure_function f s =
       Inr (\<not> (\<exists>g \<in> set (function_list example_ir). \<not> g = 0 \<and> (\<lambda>a b. b \<in> callers example_ir a)\<^sup>*\<^sup>* g f))"
    using run_func_info_correct [OF example_calls d tp] by blast
  then show ?thesis by (auto simp: example_fields)
qed

end
