(* ===== verification/Ir_Steps.thy ===== *)
theory Ir_Steps
  imports Dead_Sweep
begin

text \<open>
  The operations that build and change a module as one step relation, and the proof that each
  keeps operands and lists of uses consistent.
\<close>

section \<open>Operations one by one\<close>

lemma upd_val_uses [invariant_intros]:
  assumes ok: "uses_ok m" and f: "\<And>x. use_list (f x) = use_list x \<and> operands (f x) = operands x \<and>
      num_ops (f x) = num_ops x \<and> kind (f x) = kind x"
    and m': "upd_val a f m = Inr m'"
  shows "uses_ok m'"
proof -
  obtain x where x: "heap m a = Some x" "m' = m\<lparr>heap := (heap m)(a \<mapsto> f x)\<rparr>"
    using m' by (cases "heap m a") (auto simp: upd_val_def get_val_def)
  have op: "operand_at m' u j = operand_at m u j" for u j
    using x f by (simp add: operand_at_def)
  show ?thesis
  proof (rule uses_okI)
    fix b z
    assume "heap m' b = Some z"
    then obtain y where y: "heap m b = Some y" "use_list z = use_list y" "operands z = operands y"
      "num_ops z = num_ops y" "kind z = kind y"
      using x f by (auto split: if_splits)
    show "b < next_addr m' \<and> val_ok z"
      using uses_okD(1,2) [OF ok y(1)] y x(2) by (simp add: val_ok_def)
    show "(u, i) \<in> set (use_list z) \<longleftrightarrow> operand_at m' u i = Some b" for u i
      unfolding op y(2) by (rule uses_okD(3) [OF ok y(1)])
  next
    show "heap m' b \<noteq> None" if "operand_at m' u i = Some b" for u i b
      using that uses_okD(4) [OF ok, of u i b] unfolding op by (simp add: x(2))
  qed
qed

lemma create_inst_keeps:
  assumes "uses_ok m" "\<forall>v \<in> set vs. heap m v \<noteq> None" "create_inst t op vs b m = Inr (i, m')"
  shows "uses_ok m'"
  using create_inst_uses [OF assms(1), of vs t op b] assms(2,3) by auto

lemma build_args_uses [invariant_intros]: "uses_ok m \<Longrightarrow> uses_ok (build_args f n ts m)"
proof (induction ts arbitrary: n m)
  case (Cons t ts)
  have "uses_ok (snd (alloc (new_val t [] (ArgumentV n) 0 (Some f)) m))"
    by (rule alloc_uses [OF Cons.prems]) simp
  then show ?case
    using Cons.IH uses_ok_heap [of "m'\<lparr>arguments := x\<rparr>" m' for m' x] by (simp add: alloc_def Let_def)
qed simp

lemma create_function_uses [invariant_intros]:
  assumes "uses_ok m" "create_function t nm m = (f, m')"
  shows "uses_ok m'"
proof -
  have "uses_ok (snd (alloc (new_val t nm FunctionV 0 None) m))" by (rule alloc_uses [OF assms(1)]) simp
  then have "uses_ok ((snd (alloc (new_val t nm FunctionV 0 None) m))\<lparr>function_list := fs\<rparr>)" for fs
    using uses_ok_heap [of "(snd (alloc (new_val t nm FunctionV 0 None) m))\<lparr>function_list := fs\<rparr>"] by simp
  then show ?thesis using assms(2) build_args_uses by (auto simp: create_function_def alloc_def Let_def)
qed

lemma create_basic_block_uses [invariant_intros]:
  assumes "uses_ok m" "create_basic_block nm f m = Inr (b, m')"
  shows "uses_ok m'"
proof -
  obtain g where f: "f = Some g" using assms(2) by (cases f) (auto simp: create_basic_block_def)
  let ?m = "snd (alloc (new_val LabelTy ((if nm = [] then [] else ''label_'') @ nm) BasicBlockV 0 (Some g)) m)"
  have "uses_ok ?m" by (rule alloc_uses [OF assms(1)]) simp
  moreover have "heap m' = heap ?m" "next_addr m' = next_addr ?m"
    using assms(2) f by (auto simp: create_basic_block_def alloc_def Let_def set_cfg_def)
  ultimately show ?thesis using uses_ok_heap by blast
qed

lemma create_global_variable_uses [invariant_intros]:
  assumes ok: "uses_ok m" and init: "\<forall>i. init = Some i \<longrightarrow> heap m i \<noteq> None"
    and run: "create_global_variable nm t c init m = Inr (g, m')"
  shows "uses_ok m'"
proof -
  let ?x = "new_val (PointerTy t) nm (GlobalVariableV c init) (if init = None then 0 else 1) None"
  define m1 where "m1 = (snd (alloc ?x m))\<lparr>global_list := global_list m @ [next_addr m]\<rparr>"
  have "uses_ok (snd (alloc ?x m))" by (rule alloc_uses [OF ok]) (simp add: is_user_def)
  then have ok1: "uses_ok m1" using uses_ok_heap [of m1 "snd (alloc ?x m)"] by (simp add: m1_def)
  show ?thesis
  proof (cases init)
    case None
    then show ?thesis using run ok1 by (auto simp: create_global_variable_def m1_def alloc_def Let_def)
  next
    case (Some i)
    have h: "heap m1 (next_addr m) = Some ?x" by (simp add: m1_def alloc_def)
    have "heap m1 i \<noteq> None" using init Some by (simp add: m1_def alloc_def)
    moreover have "0 < length (operands ?x)" "operands ?x ! 0 = None" using Some by (simp_all add: new_val_def)
    ultimately obtain m2 where "set_operand (next_addr m) 0 i m1 = Inr m2" "uses_ok m2"
      using set_operand_uses [OF ok1 h, of 0 i] by blast
    then show ?thesis using run Some by (simp add: create_global_variable_def m1_def alloc_def Let_def)
  qed
qed

lemma add_operand_uses [invariant_intros]:
  assumes ok: "uses_ok m" and u: "heap m u = Some x" "is_user (kind x)" and v: "heap m v \<noteq> None"
  shows "\<exists>m'. add_operand u v m = Inr m' \<and> uses_ok m' \<and> (\<forall>a. heap m' a = None \<longleftrightarrow> heap m a = None) \<and>
    (\<exists>x'. heap m' u = Some x' \<and> kind x' = kind x)"
proof -
  obtain y where y: "heap m v = Some y" using v by auto
  let ?n = "num_ops x"
  have n: "?n = length (operands x)" using uses_okD(2) [OF ok u(1)] by (simp add: val_ok_def)
  have "\<exists>m'. add_operand u v m = Inr m' \<and> next_addr m' = next_addr m \<and>
    heap m' = (\<lambda>a. map_option (\<lambda>z. z\<lparr>
      operands := (if a = u then operands z @ [Some v] else operands z),
      num_ops := (if a = u then num_ops z + 1 else num_ops z),
      use_list := use_list z @ (if a = v then [(u, ?n)] else [])\<rparr>) (heap m a))"
    using u y by (cases "u = v")
      (auto simp: add_operand_def get_val_def upd_val_def add_use_def fun_eq_iff option.map_ident intro!: val.equality)
  then obtain m' where m': "add_operand u v m = Inr m'" "next_addr m' = next_addr m"
    and h: "heap m' = (\<lambda>a. map_option (\<lambda>z. z\<lparr>
      operands := (if a = u then operands z @ [Some v] else operands z),
      num_ops := (if a = u then num_ops z + 1 else num_ops z),
      use_list := use_list z @ (if a = v then [(u, ?n)] else [])\<rparr>) (heap m a))"
    by blast
  have op: "operand_at m' w j = (if w = u \<and> j = ?n then Some v else operand_at m w j)" for w j
    using u(1) n by (auto simp: operand_at_def h nth_append split: option.splits)
  have new: "operand_at m u ?n = None" using u(1) n by (simp add: operand_at_def)
  have "uses_ok m'"
  proof (rule uses_okI)
    fix a z
    assume "heap m' a = Some z"
    then obtain w where w: "heap m a = Some w" and z: "z = w\<lparr>
      operands := (if a = u then operands w @ [Some v] else operands w),
      num_ops := (if a = u then num_ops w + 1 else num_ops w),
      use_list := use_list w @ (if a = v then [(u, ?n)] else [])\<rparr>"
      by (auto simp: h)
    have "(u, ?n) \<notin> set (use_list w)" using uses_okD(3) [OF ok w, of u ?n] new by simp
    then show "a < next_addr m' \<and> val_ok z"
      using uses_okD(1,2) [OF ok w] z m'(2) u w by (auto simp: val_ok_def)
    show "(t, j) \<in> set (use_list z) \<longleftrightarrow> operand_at m' t j = Some a" for t j
      using uses_okD(3) [OF ok w, of t j] z new by (auto simp: op)
  next
    show "heap m' a \<noteq> None" if "operand_at m' w j = Some a" for w j a
      using that v uses_okD(4) [OF ok, of w j a] by (auto simp: op h split: if_splits)
  qed
  then show ?thesis using m' u by (auto simp: h)
qed

text \<open>Erasing an instruction that nothing uses.\<close>

lemma erase_instr_uses [invariant_intros]:
  assumes ok: "uses_ok m" and x: "heap m i = Some x" "use_list x = []" "None \<notin> set (operands x)"
  shows "\<exists>m'. erase_instr b i m = Inr m' \<and> uses_ok m'"
proof -
  define m' where "m' = erase_from_list b i (swept {i} {} m)"
  have run: "erase_instr b i m = Inr m'"
    using remove_use_of_ops_swept [OF ok x(1,3), of "{}"] by (simp add: erase_instr_def m'_def)
  have h: "heap m' a = (if a = i then None else map_option (drop_uses {i}) (heap m a))" for a
    by (simp add: m'_def erase_from_list_def unlink_instr_def)
  have op: "operand_at m' u j = (if u = i then None else operand_at m u j)" for u j
    by (simp add: operand_at_def h split: option.splits)
  have unused: "operand_at m u j \<noteq> Some i" for u j using uses_okD(3) [OF ok x(1), of u j] x(2) by simp
  have "uses_ok m'"
  proof (rule uses_okI)
    fix a z
    assume "heap m' a = Some z"
    then obtain y where y: "a \<noteq> i" "heap m a = Some y" "z = drop_uses {i} y" by (auto simp: h split: if_splits)
    show "a < next_addr m' \<and> val_ok z"
      using uses_okD(1,2) [OF ok y(2)] y(3) by (simp add: val_ok_def m'_def erase_from_list_def unlink_instr_def)
    show "(u, j) \<in> set (use_list z) \<longleftrightarrow> operand_at m' u j = Some a" for u j
      using uses_okD(3) [OF ok y(2), of u j] y(3) by (auto simp: op)
  next
    show "heap m' a \<noteq> None" if "operand_at m' u j = Some a" for u j a
      using that unused uses_okD(4) [OF ok, of u j a] by (auto simp: op h split: if_splits)
  qed
  then show ?thesis using run by blast
qed

text \<open>One round of \<^verbatim>\<open>replace_use_with_when\<close>: the use at \<open>i\<close> becomes a use of the new value.\<close>

lemma set_remove_nth:
  assumes "distinct us" "i < length us"
  shows "set (remove_nth i us) = set us - {us ! i}" "distinct (remove_nth i us)"
proof -
  have us: "us = take i us @ us ! i # drop (Suc i) us" by (rule id_take_nth_drop [OF assms(2)])
  have "distinct (take i us @ us ! i # drop (Suc i) us)" using assms(1) us by simp
  moreover have "set us = insert (us ! i) (set (take i us) \<union> set (drop (Suc i) us))"
    using arg_cong [OF us, of set] by simp
  ultimately show "set (remove_nth i us) = set us - {us ! i}" "distinct (remove_nth i us)"
    by (auto simp: remove_nth_def)
qed

lemma redirect_use:
  assumes ok: "uses_ok m" and x: "heap m this = Some x" and i: "i < length (use_list x)" "use_list x ! i = (u, k)"
    and new: "heap m new \<noteq> None" "new \<noteq> this"
  shows "\<exists>m1 m2 x2. set_operand u k new m = Inr m1 \<and>
    upd_val this (\<lambda>x. x\<lparr>use_list := remove_nth i (use_list x)\<rparr>) m1 = Inr m2 \<and> uses_ok m2 \<and>
    heap m2 this = Some x2 \<and> use_list x2 = remove_nth i (use_list x) \<and> heap m2 new \<noteq> None"
proof -
  have mem: "(u, k) \<in> set (use_list x)" using i by (metis nth_mem)
  then have uk: "operand_at m u k = Some this" using uses_okD(3) [OF ok x] by simp
  then obtain y where y: "heap m u = Some y" "k < length (operands y)" by (auto simp: operand_at_Some)
  have "k < num_ops y" using uses_okD(2) [OF ok y(1)] y(2) by (simp add: val_ok_def)
  from set_operand_eq [OF y(1) this y(2) new(1)] obtain m1 where m1: "set_operand u k new m = Inr m1" "next_addr m1 = next_addr m"
    and h1: "heap m1 = (\<lambda>a. map_option (\<lambda>y. y\<lparr>
      operands := (if a = u then (operands y)[k := Some new] else operands y),
      use_list := use_list y @ (if a = new then [(u, k)] else [])\<rparr>) (heap m a))" by blast
  obtain x1 where x1: "heap m1 this = Some x1" "use_list x1 = use_list x" using x new(2) by (simp add: h1)
  define m2 where "m2 = m1\<lparr>heap := (heap m1)(this \<mapsto> x1\<lparr>use_list := remove_nth i (use_list x1)\<rparr>)\<rparr>"
  have run: "upd_val this (\<lambda>x. x\<lparr>use_list := remove_nth i (use_list x)\<rparr>) m1 = Inr m2"
    using x1 by (simp add: upd_val_def get_val_def m2_def)
  have h: "heap m2 a = map_option (\<lambda>y. y\<lparr>
      operands := (if a = u then (operands y)[k := Some new] else operands y),
      use_list := (if a = this then remove_nth i (use_list y) else use_list y @ (if a = new then [(u, k)] else []))\<rparr>) (heap m a)" for a
    using x x1 new(2) by (auto simp: m2_def h1)
  have op: "operand_at m2 w j = (if w = u \<and> j = k then Some new else operand_at m w j)" for w j
    using y by (auto simp: operand_at_def h nth_list_update split: option.splits)
  have vx: "distinct (use_list x)" using uses_okD(2) [OF ok x] by (simp add: val_ok_def)
  have rem: "set (remove_nth i (use_list x)) = set (use_list x) - {(u, k)}" "distinct (remove_nth i (use_list x))"
    using set_remove_nth [OF vx i(1)] i(2) by simp_all
  have "uses_ok m2"
  proof (rule uses_okI)
    fix a z
    assume "heap m2 a = Some z"
    then obtain w where w: "heap m a = Some w" and z: "z = w\<lparr>
      operands := (if a = u then (operands w)[k := Some new] else operands w),
      use_list := (if a = this then remove_nth i (use_list w) else use_list w @ (if a = new then [(u, k)] else []))\<rparr>"
      by (auto simp: h)
    have vw: "val_ok w" by (rule uses_okD(2) [OF ok w])
    have "(u, k) \<notin> set (use_list w)" if "a \<noteq> this" using uses_okD(3) [OF ok w, of u k] uk that by simp
    then show "a < next_addr m2 \<and> val_ok z"
      using uses_okD(1) [OF ok w] vw z m1(2) rem(2) w x by (auto simp: val_ok_def m2_def)
    have old: "(v, j) \<in> set (use_list w) \<longleftrightarrow> operand_at m v j = Some a" for v j by (rule uses_okD(3) [OF ok w])
    have "set (use_list z) = (if a = this then set (use_list x) - {(u, k)} else set (use_list w) \<union> (if a = new then {(u, k)} else {}))"
      using z w x rem(1) by (cases "a = this") simp_all
    moreover have "use_list w = use_list x" if "a = this" using that w x by simp
    ultimately show "(v, j) \<in> set (use_list z) \<longleftrightarrow> operand_at m2 v j = Some a" for v j
      using old [of v j] new(2) uk by (cases "a = this"; cases "v = u \<and> j = k") (auto simp: op)
  next
    show "heap m2 a \<noteq> None" if "operand_at m2 w j = Some a" for w j a
      using that new(1) uses_okD(4) [OF ok, of w j a] by (auto simp: op h split: if_splits)
  qed
  then show ?thesis using m1(1) run x new by (auto simp: h)
qed

lemma replace_uses_when_uses:
  assumes "uses_ok m" "heap m this = Some x" "heap m new \<noteq> None" "new \<noteq> this"
    and "replace_uses_when this new pred i m = Some (Inr m')"
  shows "uses_ok m'"
  using assms
proof (induction "length (use_list x) - i" arbitrary: i m x rule: less_induct)
  case less
  note here = less.prems(2)
  show ?case
  proof (cases "i < length (use_list x)")
    case False
    then show ?thesis using less.prems by (subst (asm) replace_uses_when.simps) (simp add: get_val_def)
  next
    case True
    obtain u k where uk: "use_list x ! i = (u, k)" by (cases "use_list x ! i")
    obtain m1 m2 x2 where s: "set_operand u k new m = Inr m1"
      "upd_val this (\<lambda>x. x\<lparr>use_list := remove_nth i (use_list x)\<rparr>) m1 = Inr m2" "uses_ok m2"
      "heap m2 this = Some x2" "use_list x2 = remove_nth i (use_list x)" "heap m2 new \<noteq> None"
      using redirect_use [OF less.prems(1,2) True uk less.prems(3,4)] by blast
    have len: "length (use_list x2) - i < length (use_list x) - i" using True s(5) by (simp add: remove_nth_def)
    from less.prems(5) True uk s(1,2) here consider
        "replace_uses_when this new pred (Suc i) m = Some (Inr m')" | "replace_uses_when this new pred i m2 = Some (Inr m')"
      by (subst (asm) replace_uses_when.simps) (auto simp: get_val_def obind_eq_Inr split: if_splits)
    then show ?thesis
    proof cases
      case 1
      show ?thesis by (rule less.hyps [OF _ less.prems(1-4) 1]) (use True in simp)
    next
      case 2
      show ?thesis by (rule less.hyps [OF len s(3,4,6) less.prems(4) 2])
    qed
  qed
qed

text \<open>Removing the last operands, which are no operands in front of them.\<close>

lemma remove_operands_uses:
  assumes ok: "uses_ok m" and x: "heap m u = Some x" and j: "j + 1 = length (operands x)" "i \<le> j"
    and tail: "None \<notin> set (drop i (operands x))" "set (take i (operands x)) \<inter> set (drop i (operands x)) = {}"
    and run: "remove_operands u i j m = Inr m'"
  shows "uses_ok m'"
proof -
  let ?ops = "drop i (operands x)"
  have alive: "\<exists>a. op = Some a \<and> heap m a \<noteq> None" if "op \<in> set ?ops" for op
  proof -
    obtain a where a: "op = Some a" using tail(1) \<open>op \<in> set ?ops\<close> by (cases op) auto
    then have "Some a \<in> set (operands x)" using \<open>op \<in> set ?ops\<close> by (auto dest: in_set_dropD)
    then obtain n where "n < length (operands x)" "operands x ! n = Some a" by (metis in_set_conv_nth)
    then have "operand_at m u n = Some a" using x by (simp add: operand_at_def)
    then show ?thesis using a uses_okD(4) [OF ok] by blast
  qed
  let ?m = "m\<lparr>heap := (\<lambda>a. map_option (\<lambda>x. if Some a \<in> set ?ops then drop_uses {u} x else x) (heap m a))\<rparr>"
  have "remove_uses u ?ops m = Inr ?m" by (rule remove_uses_spec [OF alive])
  moreover have "take (j + 1 - i) ?ops = ?ops" using j by simp
  ultimately have m': "m' = ?m\<lparr>heap := (heap ?m)(u \<mapsto> (the (heap ?m u))\<lparr>operands := take i (operands x), num_ops := i\<rparr>)\<rparr>"
    using run x j by (auto simp: remove_operands_def get_val_def upd_val_def min_def)
  have h: "heap m' a = map_option (\<lambda>y. y\<lparr>use_list := (if Some a \<in> set ?ops then filter (\<lambda>w. fst w \<noteq> u) (use_list y) else use_list y),
      operands := (if a = u then take i (operands y) else operands y), num_ops := (if a = u then i else num_ops y)\<rparr>) (heap m a)" for a
    using x by (cases "heap m a") (auto simp: m' drop_uses_def)
  have op: "operand_at m' w k = (if w = u \<and> i \<le> k then None else operand_at m w k)" for w k
    using x j by (auto simp: operand_at_def h split: option.splits)
  have dropped: "Some a \<in> set ?ops" if "operand_at m u k = Some a" "i \<le> k" for a k
  proof -
    have "k < length (operands x)" "operands x ! k = Some a" using that(1) x by (auto simp: operand_at_Some)
    then have "?ops ! (k - i) = Some a" "k - i < length ?ops" using that(2) j by auto
    then show ?thesis by (metis nth_mem)
  qed
  have kept: "Some a \<notin> set ?ops" if "operand_at m u k = Some a" "k < i" for a k
  proof -
    have "operands x ! k = Some a" using that(1) x by (auto simp: operand_at_Some)
    then have "Some a \<in> set (take i (operands x))" using that(2) j by (metis in_set_conv_nth length_take min_less_iff_conj nth_take less_trans le_imp_less_Suc Suc_eq_plus1)
    then show ?thesis using tail(2) by blast
  qed
  show ?thesis
  proof (rule uses_okI)
    fix a z
    assume "heap m' a = Some z"
    then obtain y where y: "heap m a = Some y" and z: "z = y\<lparr>
      use_list := (if Some a \<in> set ?ops then filter (\<lambda>w. fst w \<noteq> u) (use_list y) else use_list y),
      operands := (if a = u then take i (operands y) else operands y), num_ops := (if a = u then i else num_ops y)\<rparr>"
      by (auto simp: h)
    have "val_ok z" using uses_okD(2) [OF ok y] z x y j by (auto simp: val_ok_def)
    moreover have "a < next_addr m'" using uses_okD(1) [OF ok y] by (simp add: m')
    ultimately show "a < next_addr m' \<and> val_ok z" by blast
    have old: "(w, k) \<in> set (use_list y) \<longleftrightarrow> operand_at m w k = Some a" for w k by (rule uses_okD(3) [OF ok y])
    show "(w, k) \<in> set (use_list z) \<longleftrightarrow> operand_at m' w k = Some a" for w k
      using z old [of w k] dropped [of k a] kept [of k a] by (auto simp: op not_le)
  next
    show "heap m' a \<noteq> None" if "operand_at m' w k = Some a" for w k a
      using that uses_okD(4) [OF ok, of w k a] by (auto simp: op h split: if_splits)
  qed
qed

section \<open>The step relation\<close>

text \<open>
  What a client does to a module: operands are live objects, a value is not replaced by itself,
  and only unused instructions are erased. \<^verbatim>\<open>set_operand\<close> writes null operands, and
  \<^verbatim>\<open>remove_operands\<close> removes the last ones, which are no operands in front of them.
\<close>

abbreviation alive :: "ir \<Rightarrow> addr \<Rightarrow> bool" where
  "alive m a \<equiv> heap m a \<noteq> None"

inductive ir_step :: "ir \<Rightarrow> ir \<Rightarrow> bool" where
  new_function: "create_function t nm m = (f, m') \<Longrightarrow> ir_step m m'"
| global: "create_global_variable nm t c init m = Inr (g, m') \<Longrightarrow> \<forall>i. init = Some i \<longrightarrow> alive m i \<Longrightarrow> ir_step m m'"
| basic_block: "create_basic_block nm (Some f) m = Inr (b, m') \<Longrightarrow> ir_step m m'"
| new_constant: "alloc (new_val t [] k n None) m = (a, m') \<Longrightarrow> is_constant k \<Longrightarrow> ir_step m m'"
| binary: "create_binary op v1 v2 b m = Inr (i, m') \<Longrightarrow> alive m v1 \<Longrightarrow> alive m v2 \<Longrightarrow> ir_step m m'"
| comparison: "create_cmp op c v1 v2 b m = Inr (i, m') \<Longrightarrow> alive m v1 \<Longrightarrow> alive m v2 \<Longrightarrow> ir_step m m'"
| call: "create_call f args b m = Inr (i, m') \<Longrightarrow> \<forall>v \<in> set args. alive m v \<Longrightarrow> ir_step m m'"
| branch: "create_br t b m = Inr (i, m') \<Longrightarrow> alive m t \<Longrightarrow> ir_step m m'"
| cond_branch: "create_cond_br v t f b m = Inr (i, m') \<Longrightarrow> alive m v \<Longrightarrow> alive m t \<Longrightarrow> alive m f \<Longrightarrow> ir_step m m'"
| ret: "create_ret v b m = Inr (i, m') \<Longrightarrow> alive m v \<Longrightarrow> ir_step m m'"
| void_ret: "create_void_ret b m = Inr (i, m') \<Longrightarrow> ir_step m m'"
| gep: "create_gep v idxs b m = Inr (i, m') \<Longrightarrow> \<forall>x \<in> set idxs. alive m x \<Longrightarrow> ir_step m m'"
| store: "create_store v ptr b m = Inr (i, m') \<Longrightarrow> alive m v \<Longrightarrow> alive m ptr \<Longrightarrow> ir_step m m'"
| load: "create_load t ptr b m = Inr (i, m') \<Longrightarrow> ir_step m m'"
| alloca: "create_alloca t b m = Inr (i, m') \<Longrightarrow> ir_step m m'"
| cast: "create_cast op v t b m = Inr (i, m') \<Longrightarrow> alive m v \<Longrightarrow> ir_step m m'"
| phi: "create_phi t b m = (i, m') \<Longrightarrow> ir_step m m'"
| phi_operand: "add_phi_pair_operand p v b m = Inr m' \<Longrightarrow> heap m p = Some x \<Longrightarrow> kind x = InstructionV Phi \<Longrightarrow>
    alive m v \<Longrightarrow> alive m b \<Longrightarrow> ir_step m m'"
| operand: "set_operand u n v m = Inr m' \<Longrightarrow> heap m u = Some x \<Longrightarrow> n < length (operands x) \<Longrightarrow> operands x ! n = None \<Longrightarrow>
    alive m v \<Longrightarrow> ir_step m m'"
| new_operand: "add_operand u v m = Inr m' \<Longrightarrow> heap m u = Some x \<Longrightarrow> is_user (kind x) \<Longrightarrow> alive m v \<Longrightarrow> ir_step m m'"
| last_operands: "remove_operands u i j m = Inr m' \<Longrightarrow> heap m u = Some x \<Longrightarrow> j + 1 = length (operands x) \<Longrightarrow> i \<le> j \<Longrightarrow>
    None \<notin> set (drop i (operands x)) \<Longrightarrow> set (take i (operands x)) \<inter> set (drop i (operands x)) = {} \<Longrightarrow> ir_step m m'"
| naming: "set_name a nm m = Inr (r, m') \<Longrightarrow> ir_step m m'"
| replace: "replace_all_use_with a new m = Some (Inr m') \<Longrightarrow> alive m a \<Longrightarrow> alive m new \<Longrightarrow> new \<noteq> a \<Longrightarrow> ir_step m m'"
| remove_block: "erase_from_parent b m = Inr m' \<Longrightarrow> ir_step m m'"
| replace_when: "replace_use_with_when a new pred m = Some (Inr m') \<Longrightarrow> alive m a \<Longrightarrow> alive m new \<Longrightarrow> new \<noteq> a \<Longrightarrow> ir_step m m'"
| erase: "erase_instr b i m = Inr m' \<Longrightarrow> heap m i = Some x \<Longrightarrow> use_list x = [] \<Longrightarrow> None \<notin> set (operands x) \<Longrightarrow> ir_step m m'"

inductive_cases ir_stepE: "ir_step m m'"

lemma get_val_alive: "get_val a m = Inr x \<Longrightarrow> alive m a"
  by (cases "heap m a") (auto simp: get_val_def)

lemma update_edges_uses: "uses_ok (update_edges f m) = uses_ok m" "heap (update_edges f m) = heap m"
proof -
  show "heap (update_edges f m) = heap m" by (simp add: update_edges_def Let_def)
  then show "uses_ok (update_edges f m) = uses_ok m" by (rule uses_ok_heap) (simp add: update_edges_def Let_def)
qed

lemma create_inst_upd_keeps:
  assumes "uses_ok m" "\<forall>v \<in> set vs. alive m v"
    and f: "\<And>x. use_list (f x) = use_list x \<and> operands (f x) = operands x \<and>
      num_ops (f x) = num_ops x \<and> kind (f x) = kind x"
    and "rbind (create_inst t op vs b m) (\<lambda>(i, m). rbind (upd_val i f m) (\<lambda>m. Inr (i, m))) = Inr (i, m')"
  shows "uses_ok m'"
  using assms(4) create_inst_keeps [OF assms(1,2)] upd_val_uses [OF _ f] by (fastforce simp: rbind_eq_Inr)

lemma ir_step_uses:
  assumes "ir_step m m'" "uses_ok m"
  shows "uses_ok m'"
  using assms
proof cases
  case (new_function t nm f)
  then show ?thesis using create_function_uses assms(2) by blast
next
  case (global nm t c init g)
  then show ?thesis using create_global_variable_uses assms(2) by blast
next
  case (basic_block nm f b)
  then show ?thesis using create_basic_block_uses assms(2) by blast
next
  case (new_constant t k n a)
  then have "is_user k" by (auto simp: is_constant_def is_user_def split: value_kind.splits)
  then show ?thesis using alloc_uses [OF assms(2), of n k t "[]" None] new_constant(1) by simp
next
  case (binary op v1 v2 b i)
  then show ?thesis using create_inst_keeps [OF assms(2), of "[v1, v2]"] by (simp add: create_binary_def)
next
  case (comparison op c v1 v2 b i)
  then show ?thesis
    using create_inst_upd_keeps [OF assms(2), of "[v1, v2]" "\<lambda>x. x\<lparr>cmp_op := c\<rparr>"] by (simp add: create_cmp_def)
next
  case (call f args b i)
  obtain x where x: "get_val f m = Inr x" "create_inst (result_type (vtype x)) Call (f # args) b m = Inr (i, m')"
    using call(1) by (auto simp: create_call_def rbind_eq_Inr split: if_splits)
  show ?thesis by (rule create_inst_keeps [OF assms(2) _ x(2)]) (use call(2) get_val_alive [OF x(1)] in simp)
next
  case (branch t b i)
  then show ?thesis
    using create_inst_keeps [of "update_edges (br_edges t b) m" "[t]"] assms(2)
    by (simp add: create_br_def update_edges_uses)
next
  case (cond_branch v t f b i)
  then show ?thesis
    using create_inst_keeps [of "update_edges (cond_br_edges t f b) m" "[v, t, f]"] assms(2)
    by (simp add: create_cond_br_def update_edges_uses)
next
  case (ret v b i)
  then show ?thesis using create_inst_keeps [OF assms(2), of "[v]"] by (simp add: create_ret_def)
next
  case (void_ret b i)
  then show ?thesis using create_inst_keeps [OF assms(2), of "[]"] by (simp add: create_void_ret_def)
next
  case (gep v idxs b i)
  obtain x e where x: "get_val v m = Inr x"
    "rbind (create_inst (PointerTy e) Getelementptr (v # idxs) b m) (\<lambda>(i, m).
       rbind (upd_val i (\<lambda>x. x\<lparr>inst_ty := e\<rparr>) m) (\<lambda>m. Inr (i, m))) = Inr (i, m')"
    using gep(1) by (auto simp: create_gep_def rbind_eq_Inr)
  show ?thesis
    by (rule create_inst_upd_keeps [OF assms(2) _ _ x(2)]) (use gep(2) get_val_alive [OF x(1)] in auto)
next
  case (store v ptr b i)
  then show ?thesis using create_inst_keeps [OF assms(2), of "[v, ptr]"] by (simp add: create_store_def)
next
  case (load t ptr b i)
  obtain x where x: "get_val ptr m = Inr x" "create_inst t Load [ptr] b m = Inr (i, m')"
    using load by (auto simp: create_load_def rbind_eq_Inr split: if_splits)
  show ?thesis by (rule create_inst_keeps [OF assms(2) _ x(2)]) (use get_val_alive [OF x(1)] in simp)
next
  case (alloca t b i)
  then show ?thesis
    using create_inst_upd_keeps [OF assms(2), of "[]" "\<lambda>x. x\<lparr>inst_ty := t\<rparr>"] by (simp add: create_alloca_def)
next
  case (cast op v t b i)
  then show ?thesis
    using create_inst_upd_keeps [OF assms(2), of "[v]" "\<lambda>x. x\<lparr>inst_ty := t\<rparr>"] by (simp add: create_cast_def)
next
  case (phi t b i)
  then show ?thesis
    using alloc_uses [OF assms(2), of 0 "InstructionV Phi" t "[]" "Some b"] by (simp add: create_phi_def)
next
  case (phi_operand p v b x)
  have user: "is_user (kind x)" using phi_operand(3) by (simp add: is_user_def)
  obtain m1 x1 where m1: "add_operand p v m = Inr m1" "uses_ok m1" "\<forall>a. heap m1 a = None \<longleftrightarrow> heap m a = None"
    "heap m1 p = Some x1" "kind x1 = kind x"
    using add_operand_uses [OF assms(2) phi_operand(2) user phi_operand(4)] by blast
  have "is_user (kind x1)" "alive m1 b" using m1(3,5) user phi_operand(5) by simp_all
  then show ?thesis
    using add_operand_uses [OF m1(2,4), of b] phi_operand(1) m1(1) by (auto simp: add_phi_pair_operand_def)
next
  case (naming a nm r)
  then show ?thesis
    using upd_val_uses [OF assms(2), of "\<lambda>x. x\<lparr>name := nm\<rparr>" a] assms(2)
    by (auto simp: set_name_def rbind_eq_Inr split: if_splits)
next
  case (replace a new)
  then show ?thesis using replace_all_use_with_spec [OF assms(2), of a _ new] by auto
next
  case (operand u n v x)
  then show ?thesis using set_operand_uses [OF assms(2), of u x n v] by auto
next
  case (new_operand u v x)
  then show ?thesis using add_operand_uses [OF assms(2), of u x v] by auto
next
  case (last_operands u i j x)
  then show ?thesis using remove_operands_uses [OF assms(2)] by blast
next
  case (remove_block b)
  then have "heap m' = heap m" "next_addr m' = next_addr m"
    by (auto simp: erase_from_parent_def rbind_eq_Inr set_cfg_def split: option.splits)
  then show ?thesis using uses_ok_heap assms(2) by blast
next
  case (replace_when a new pred)
  obtain x where x: "heap m a = Some x" using replace_when(2) by auto
  show ?thesis
    by (rule replace_uses_when_uses [OF assms(2) x replace_when(3,4)]) (use replace_when(1) in \<open>simp add: replace_use_with_when_def\<close>)
next
  case (erase b i x)
  then show ?thesis using erase_instr_uses [OF assms(2), of i x b] by auto
qed

end
