(* ===== verification/Ir_Print.thy ===== *)
theory Ir_Print
  imports Ir_Values
begin

text \<open>
  The text of the intermediate representation: \<^verbatim>\<open>print_as_op\<close> of \<^verbatim>\<open>IRprinter.cpp\<close> and the
  \<^verbatim>\<open>print\<close> functions of constants, instructions, blocks, functions, global variables and the
  module, and the numbering of the values of a function.
\<close>

section \<open>Constants\<close>

text \<open>The \<^verbatim>\<open>double\<close> with the value of a \<^verbatim>\<open>float\<close>, as its bits.\<close>

fun normalize_fraction :: "nat \<Rightarrow> nat \<Rightarrow> nat \<Rightarrow> nat \<times> nat" where
  "normalize_fraction 0 fr k = (fr, k)"
| "normalize_fraction (Suc n) fr k =
     (if fr < 2 ^ 23 then normalize_fraction n (2 * fr) (k + 1) else (fr, k))"

definition double_bits :: "f32 \<Rightarrow> 64 word" where
  "double_bits x =
     (let b = unat x; s = b div 2 ^ 31; e = b div 2 ^ 23 mod 2 ^ 8; fr = b mod 2 ^ 23;
          pack = (\<lambda>e fr. of_nat (s * 2 ^ 63 + e * 2 ^ 52 + fr * 2 ^ 29)) in
      if e = 255 then pack 2047 fr
      else if e \<noteq> 0 then pack (e + 896) fr
      else if fr = 0 then pack 0 0
      else (case normalize_fraction 23 fr 0 of (fr', k) \<Rightarrow> pack (897 - k) (fr' - 2 ^ 23)))"

definition hex_digit :: "nat \<Rightarrow> char" where
  "hex_digit d = (if d < 10 then char_of (48 + d) else char_of (87 + d))"

fun hex :: "nat \<Rightarrow> string" where
  "hex n = (if n < 16 then [hex_digit n] else hex (n div 16) @ [hex_digit (n mod 16)])"

declare hex.simps [simp del]

definition print_fp :: "f32 \<Rightarrow> string" where
  "print_fp x = ''0x'' @ hex (unat (double_bits x))"

definition print_int :: "val \<Rightarrow> i32 \<Rightarrow> string" where
  "print_int x k = (if vtype x = IntegerTy 1 then (if k = 0 then ''false'' else ''true'') else to_string k)"

text \<open>
  The elements of a constant array are printed by recursion; the fuel is the depth of nesting.
  A comma follows every element, the last one too.
\<close>

fun print_constant :: "nat \<Rightarrow> addr \<Rightarrow> ir \<Rightarrow> string outcome" where
  "print_constant 0 a m = None"
| "print_constant (Suc n) a m = obind (Some (get_val a m)) (\<lambda>x.
     case kind x of
       ConstantIntV k \<Rightarrow> Some (Inr (print_int x k))
     | ConstantFPV f \<Rightarrow> Some (Inr (print_fp f))
     | ConstantZeroV \<Rightarrow> Some (Inr ''zeroinitializer'')
     | ConstantArrayV es \<Rightarrow>
         obind (ofold (\<lambda>e s. obind (Some (get_val e m)) (\<lambda>y.
            obind (print_constant n e m) (\<lambda>t.
              Some (Inr (s @ (case kind y of ConstantArrayV _ \<Rightarrow> [] | _ \<Rightarrow> print_type (vtype y)) @ t @ '', ''))))) es [])
           (\<lambda>s. Some (Inr (print_type (vtype x) @ '' ['' @ s @ '']'')))
     | _ \<Rightarrow> Some (Inl UndefinedBehaviour))"

section \<open>Operands\<close>

definition instr_op_name :: "OpID \<Rightarrow> string" where
  "instr_op_name op = (case op of
       Ret \<Rightarrow> ''ret'' | Br \<Rightarrow> ''br'' | Add \<Rightarrow> ''add'' | Sub \<Rightarrow> ''sub'' | Mul \<Rightarrow> ''mul'' | Sdiv \<Rightarrow> ''sdiv''
     | Fadd \<Rightarrow> ''fadd'' | Fsub \<Rightarrow> ''fsub'' | Fmul \<Rightarrow> ''fmul'' | Fdiv \<Rightarrow> ''fdiv''
     | Alloca \<Rightarrow> ''alloca'' | Load \<Rightarrow> ''load'' | Store \<Rightarrow> ''store'' | Cmp \<Rightarrow> ''icmp'' | Fcmp \<Rightarrow> ''fcmp''
     | Phi \<Rightarrow> ''phi'' | Call \<Rightarrow> ''call'' | Getelementptr \<Rightarrow> ''getelementptr'' | Zext \<Rightarrow> ''zext''
     | Fptosi \<Rightarrow> ''fptosi'' | Sitofp \<Rightarrow> ''sitofp'')"

text \<open>The static \<^verbatim>\<open>Instruction::get_instr_op_name\<close> names comparisons differently.\<close>

definition static_op_name :: "OpID \<Rightarrow> string" where
  "static_op_name op = (if op = Cmp then ''cmp'' else instr_op_name op)"

definition print_cmp_type :: "CmpOp \<Rightarrow> string" where
  "print_cmp_type c = (case c of GE \<Rightarrow> ''sge'' | GT \<Rightarrow> ''sgt'' | LE \<Rightarrow> ''sle'' | LT \<Rightarrow> ''slt'' | EQ \<Rightarrow> ''eq'' | NE \<Rightarrow> ''ne'')"

definition print_fcmp_type :: "CmpOp \<Rightarrow> string" where
  "print_fcmp_type c = (case c of GE \<Rightarrow> ''uge'' | GT \<Rightarrow> ''ugt'' | LE \<Rightarrow> ''ule'' | LT \<Rightarrow> ''ult'' | EQ \<Rightarrow> ''ueq'' | NE \<Rightarrow> ''une'')"

definition print_as_op :: "addr \<Rightarrow> bool \<Rightarrow> ir \<Rightarrow> string outcome" where
  "print_as_op v print_ty m = obind (Some (get_val v m)) (\<lambda>x.
     obind (case kind x of
         GlobalVariableV _ _ \<Rightarrow> Some (Inr (''@'' @ name x))
       | FunctionV \<Rightarrow> Some (Inr (''@'' @ name x))
       | _ \<Rightarrow> if is_constant (kind x) then print_constant (next_addr m) v m else Some (Inr (''%'' @ name x)))
       (\<lambda>s. Some (Inr ((if print_ty then print_type (vtype x) @ '' '' else []) @ s))))"

definition op_text :: "addr \<Rightarrow> nat \<Rightarrow> bool \<Rightarrow> ir \<Rightarrow> string outcome" where
  "op_text this i print_ty m = obind (Some (deref_operand this i m)) (\<lambda>v. print_as_op v print_ty m)"

definition op_type :: "addr \<Rightarrow> nat \<Rightarrow> ir \<Rightarrow> ty outcome" where
  "op_type this i m = Some (rbind (deref_operand this i m) (\<lambda>v. rbind (get_val v m) (\<lambda>x. Inr (vtype x))))"

text \<open>A list of texts one after the other.\<close>

fun seq_text :: "string outcome list \<Rightarrow> string outcome" where
  "seq_text [] = Some (Inr [])"
| "seq_text (t # ts) = obind t (\<lambda>s. obind (seq_text ts) (\<lambda>ss. Some (Inr (s @ ss))))"

abbreviation txt_const :: "string \<Rightarrow> string outcome" where
  "txt_const s \<equiv> Some (Inr s)"

definition type_text :: "ty outcome \<Rightarrow> string outcome" where
  "type_text t = obind t (\<lambda>t. Some (Inr (print_type t)))"

section \<open>Instructions\<close>

definition result_text :: "val \<Rightarrow> string outcome" where
  "result_text x = txt_const (''%'' @ name x @ '' = '')"

text \<open>The second operand is printed with its type when that differs from the first one's.\<close>

definition second_operand :: "addr \<Rightarrow> ir \<Rightarrow> string outcome" where
  "second_operand i m = obind (op_type i 0 m) (\<lambda>t0. obind (op_type i 1 m) (\<lambda>t1. op_text i 1 (t0 \<noteq> t1) m))"

definition print_binary :: "addr \<Rightarrow> val \<Rightarrow> OpID \<Rightarrow> ir \<Rightarrow> string outcome" where
  "print_binary i x op m = seq_text [result_text x, txt_const (instr_op_name op), txt_const '' '',
     type_text (op_type i 0 m), txt_const '' '', op_text i 0 False m, txt_const '', '', second_operand i m]"

definition print_cmp :: "addr \<Rightarrow> val \<Rightarrow> ir \<Rightarrow> string outcome" where
  "print_cmp i x m = seq_text [result_text x, txt_const (instr_op_name Cmp), txt_const '' '',
     txt_const (print_cmp_type (cmp_op x)), txt_const '' '', type_text (op_type i 0 m), txt_const '' '',
     op_text i 0 False m, txt_const '', '', second_operand i m]"

definition print_fcmp :: "addr \<Rightarrow> val \<Rightarrow> ir \<Rightarrow> string outcome" where
  "print_fcmp i x m = seq_text [result_text x, txt_const (instr_op_name Fcmp), txt_const '' '',
     txt_const (print_fcmp_type (cmp_op x)), txt_const '' '', type_text (op_type i 0 m), txt_const '' '',
     op_text i 0 False m, txt_const '','', second_operand i m]"

definition typed_operand :: "addr \<Rightarrow> ir \<Rightarrow> nat \<Rightarrow> string outcome" where
  "typed_operand i m k = seq_text [type_text (op_type i k m), txt_const '' '', op_text i k False m]"

definition comma_texts :: "string outcome list \<Rightarrow> string outcome" where
  "comma_texts ts = seq_text (case ts of [] \<Rightarrow> [] | t # ts \<Rightarrow> t # concat (map (\<lambda>t. [txt_const '', '', t]) ts))"

definition print_call :: "addr \<Rightarrow> val \<Rightarrow> ir \<Rightarrow> string outcome" where
  "print_call i x m = seq_text [if is_void x then txt_const [] else result_text x,
     txt_const (instr_op_name Call), txt_const '' '',
     obind (op_type i 0 m) (\<lambda>t. txt_const (print_type (result_type t))), txt_const '' '',
     obind (Some (deref_operand i 0 m)) (\<lambda>f. obind (Some (get_val f m)) (\<lambda>y.
       if kind y = FunctionV then txt_const [] else Some (Inl AssertFailed))),
     op_text i 0 False m, txt_const ''('', comma_texts (map (typed_operand i m) [1..<num_ops x]), txt_const '')'']"

definition print_br :: "addr \<Rightarrow> val \<Rightarrow> ir \<Rightarrow> string outcome" where
  "print_br i x m = seq_text ([txt_const (instr_op_name Br), txt_const '' '', op_text i 0 True m] @
     (if num_ops x = 3 then [txt_const '', '', op_text i 1 True m, txt_const '', '', op_text i 2 True m] else []))"

definition print_ret :: "addr \<Rightarrow> val \<Rightarrow> ir \<Rightarrow> string outcome" where
  "print_ret i x m = seq_text ([txt_const (instr_op_name Ret), txt_const '' ''] @
     (if num_ops x \<noteq> 0 then [typed_operand i m 0] else [txt_const ''void'']))"

definition pointee_text :: "addr \<Rightarrow> ir \<Rightarrow> string outcome" where
  "pointee_text i m = obind (op_type i 0 m) (\<lambda>t. case get_pointer_element_type t of
     Some e \<Rightarrow> txt_const (print_type e) | None \<Rightarrow> Some (Inl AssertFailed))"

definition print_gep :: "addr \<Rightarrow> val \<Rightarrow> ir \<Rightarrow> string outcome" where
  "print_gep i x m = seq_text [result_text x, txt_const (instr_op_name Getelementptr), txt_const '' '',
     pointee_text i m, txt_const '', '', comma_texts (map (typed_operand i m) [0..<num_ops x])]"

definition print_store :: "addr \<Rightarrow> val \<Rightarrow> ir \<Rightarrow> string outcome" where
  "print_store i x m = seq_text [txt_const (instr_op_name Store), txt_const '' '', typed_operand i m 0,
     txt_const '', '', op_text i 1 True m]"

definition print_load :: "addr \<Rightarrow> val \<Rightarrow> ir \<Rightarrow> string outcome" where
  "print_load i x m = seq_text [result_text x, txt_const (instr_op_name Load), txt_const '' '',
     pointee_text i m, txt_const '','', txt_const '' '', op_text i 0 True m]"

definition print_alloca :: "addr \<Rightarrow> val \<Rightarrow> ir \<Rightarrow> string outcome" where
  "print_alloca i x m = seq_text [result_text x, txt_const (instr_op_name Alloca), txt_const '' '',
     txt_const (print_type (inst_ty x))]"

definition print_cast :: "addr \<Rightarrow> val \<Rightarrow> OpID \<Rightarrow> ir \<Rightarrow> string outcome" where
  "print_cast i x op m = seq_text [result_text x, txt_const (instr_op_name op), txt_const '' '',
     typed_operand i m 0, txt_const '' to '', txt_const (print_type (inst_ty x))]"

text \<open>A predecessor that is no operand of a phi is printed with an undefined value.\<close>

definition print_phi :: "addr \<Rightarrow> val \<Rightarrow> ir \<Rightarrow> string outcome" where
  "print_phi i x m = seq_text [result_text x, txt_const (instr_op_name Phi), txt_const '' '',
     type_text (op_type i 0 m), txt_const '' '',
     comma_texts (map (\<lambda>k. seq_text [txt_const ''[ '', op_text i (2 * k) False m, txt_const '', '',
        op_text i (2 * k + 1) False m, txt_const '' ]'']) [0..<num_ops x div 2]),
     (case parent x of None \<Rightarrow> Some (Inl NullDeref) | Some b \<Rightarrow>
        if num_ops x div 2 < length (pre_list m b)
        then seq_text (map (\<lambda>p. seq_text [txt_const '', [ undef, '', print_as_op p False m, txt_const '' ]''])
               (filter (\<lambda>p. Some p \<notin> set (operands x)) (pre_list m b)))
        else txt_const [])]"

text \<open>
  Each \<^verbatim>\<open>print\<close> looks up the name of its operation by \<^verbatim>\<open>get_module()\<close>: an instruction without a block,
  or in a block without a function, is a null pointer there.
\<close>

definition instr_module :: "val \<Rightarrow> ir \<Rightarrow> unit result" where
  "instr_module x m = (case parent x of
       None \<Rightarrow> Inl NullDeref
     | Some b \<Rightarrow> rbind (get_val b m) (\<lambda>y. if parent y = None then Inl NullDeref else Inr ()))"

definition print_instruction :: "addr \<Rightarrow> ir \<Rightarrow> string outcome" where
  "print_instruction i m = obind (Some (get_val i m)) (\<lambda>x. case kind x of
     InstructionV op \<Rightarrow> obind (Some (instr_module x m)) (\<lambda>_. case op of
         Ret \<Rightarrow> print_ret i x m | Br \<Rightarrow> print_br i x m | Alloca \<Rightarrow> print_alloca i x m
       | Load \<Rightarrow> print_load i x m | Store \<Rightarrow> print_store i x m | Cmp \<Rightarrow> print_cmp i x m
       | Fcmp \<Rightarrow> print_fcmp i x m | Phi \<Rightarrow> print_phi i x m | Call \<Rightarrow> print_call i x m
       | Getelementptr \<Rightarrow> print_gep i x m | Zext \<Rightarrow> print_cast i x op m | Fptosi \<Rightarrow> print_cast i x op m
       | Sitofp \<Rightarrow> print_cast i x op m | _ \<Rightarrow> print_binary i x op m)
   | _ \<Rightarrow> Some (Inl UndefinedBehaviour))"

section \<open>Blocks, functions and the module\<close>

definition print_basic_block :: "addr \<Rightarrow> ir \<Rightarrow> string outcome" where
  "print_basic_block b m = obind (Some (get_val b m)) (\<lambda>x. seq_text ([txt_const (name x), txt_const '':'',
     txt_const (if pre_list m b = [] then [] else ''                                                ; preds = '')] @
     map (\<lambda>p. seq_text [txt_const (if p \<noteq> hd (pre_list m b) then '', '' else []), print_as_op p False m]) (pre_list m b) @
     [txt_const (if parent x = None then CHR 0x0A # ''; Error: Block without parent!'' else []), txt_const [CHR 0x0A]] @
     map (\<lambda>i. seq_text [txt_const ''  '', print_instruction i m, txt_const [CHR 0x0A]]) (instr_list m b)))"

definition print_argument :: "addr \<Rightarrow> ir \<Rightarrow> string outcome" where
  "print_argument a m = obind (Some (get_val a m)) (\<lambda>x. txt_const (print_type (vtype x) @ '' %'' @ name x))"

text \<open>
  \<^verbatim>\<open>set_instr_name\<close>: a name is a prefix and the number of values named so far in this call,
  on top of the count of the calls before. A value that has a name keeps it and takes no number.
\<close>

definition name_value :: "string \<Rightarrow> addr \<Rightarrow> (addr set \<times> nat) \<times> ir \<Rightarrow> nat \<Rightarrow> ((addr set \<times> nat) \<times> ir) result" where
  "name_value prefix a = (\<lambda>((named, n), m) base.
     if a \<in> named then Inr ((named, n), m)
     else rbind (set_name a (prefix @ digits (n + base)) m) (\<lambda>(fresh, m).
       Inr (if fresh then (insert a named, n + 1) else (named, n), m)))"

definition name_block :: "nat \<Rightarrow> addr \<Rightarrow> (addr set \<times> nat) \<times> ir \<Rightarrow> ((addr set \<times> nat) \<times> ir) result" where
  "name_block base b s = rbind (name_value ''label'' b s base) (\<lambda>s.
     rfold (\<lambda>i s. rbind (get_val i (snd s)) (\<lambda>x.
       if is_void x then Inr s else name_value ''op'' i s base)) (instr_list (snd s) b) s)"

definition set_instr_name :: "addr \<Rightarrow> ir \<Rightarrow> ir result" where
  "set_instr_name f m = (let base = seq_cnt m f in
     rbind (rfold (\<lambda>a s. name_value ''arg'' a s base) (arguments m f) (({}, 0), m)) (\<lambda>s.
     rbind (rfold (name_block base) (block_list (snd s) f) s) (\<lambda>((named, n), m).
       Inr (m\<lparr>seq_cnt := (seq_cnt m)(f := seq_cnt m f + n)\<rparr>))))"

definition print_function :: "addr \<Rightarrow> ir \<Rightarrow> (string \<times> ir) outcome" where
  "print_function f m = obind (Some (set_instr_name f m)) (\<lambda>m.
     obind (Some (get_val f m)) (\<lambda>x.
     obind (seq_text ([txt_const (if is_declaration f m then ''declare '' else ''define ''),
         txt_const (print_type (result_type (vtype x))), txt_const '' '', print_as_op f False m, txt_const ''('',
         comma_texts (if is_declaration f m then map (\<lambda>t. txt_const (print_type t)) (param_types (vtype x))
           else map (\<lambda>a. print_argument a m) (arguments m f)),
         txt_const '')''] @
       (if is_declaration f m then [txt_const [CHR 0x0A]]
        else [txt_const '' {'', txt_const [CHR 0x0A]] @ map (\<lambda>b. print_basic_block b m) (block_list m f) @ [txt_const ''}''])))
       (\<lambda>s. Some (Inr (s, m)))))"

definition print_global_variable :: "addr \<Rightarrow> ir \<Rightarrow> string outcome" where
  "print_global_variable g m = obind (Some (get_val g m)) (\<lambda>x. case kind x of
     GlobalVariableV c init \<Rightarrow> seq_text [print_as_op g False m, txt_const '' = '',
       txt_const (if c then ''constant '' else ''global ''),
       (case get_pointer_element_type (vtype x) of Some t \<Rightarrow> txt_const (print_type t) | None \<Rightarrow> Some (Inl NullDeref)),
       txt_const '' '',
       (case init of Some i \<Rightarrow> print_constant (next_addr m) i m | None \<Rightarrow> Some (Inl NullDeref))]
   | _ \<Rightarrow> Some (Inl UndefinedBehaviour))"

definition set_print_name :: "ir \<Rightarrow> ir result" where
  "set_print_name m = rfold set_instr_name (function_list m) m"

definition print_module :: "ir \<Rightarrow> (string \<times> ir) outcome" where
  "print_module m =
     obind (seq_text (concat (map (\<lambda>g. [print_global_variable g m, txt_const [CHR 0x0A]]) (global_list m)))) (\<lambda>gs.
     ofold (\<lambda>f (s, m). obind (print_function f m) (\<lambda>(t, m). Some (Inr (s @ t @ [CHR 0x0A], m))))
       (function_list m) (gs, m))"

end
