(* ===== verification/Ir_Properties.thy ===== *)
theory Ir_Properties
  imports Ir_Steps Ir_Print
begin

text \<open>
  The properties of the intermediate representation: interned types, consistency of operands
  and uses, replacement of values, sizes and the text of floating-point constants.
\<close>

section \<open>The table of types as a state machine\<close>

inductive type_step :: "type_store \<Rightarrow> type_store \<Rightarrow> bool" where
  pointer_type: "c < length (objects st) \<Longrightarrow> PointerType_get c st = Inr (p, st') \<Longrightarrow> type_step st st'"
| array_type: "c < length (objects st) \<Longrightarrow> ArrayType_get c n st = Inr (p, st') \<Longrightarrow> type_step st st'"
| function_type: "parts_in st (r # ps) \<Longrightarrow> FunctionType_get r ps st = Inr (p, st') \<Longrightarrow> type_step st st'"

lemma type_step_ok:
  assumes "type_step st st'" and ok: "types_ok st"
  shows "types_ok st'"
  using assms(1)
proof cases
  case (pointer_type c p)
  then have "Inr (get_pointer_type c st) = (Inr (p, st') :: _ result)"
    by (simp add: PointerType_get_def split: if_splits)
  then show ?thesis using pointer_types.get_ok(1) [OF ok, of c p st'] pointer_type(1)
    by (simp add: pointer_allowed_def)
next
  case (array_type c n p)
  then have get: "get_array_type (c, n) st = Inr (p, st')"
    by (simp add: ArrayType_get_def split: if_splits)
  show ?thesis
  proof (cases "element_node (objects st ! c)")
    case True
    then show ?thesis using array_types.get_ok(1) [OF ok _ get] array_type(1) by (simp add: array_allowed_def)
  next
    case False
    then show ?thesis using get ok by (auto simp: get_array_type_def split: option.splits)
  qed
next
  case (function_type r ps p)
  then have get: "get_function_type (r, ps) st = Inr (p, st')"
    by (simp add: FunctionType_get_def split: if_splits)
  show ?thesis
  proof (cases "return_node (objects st ! r) \<and> list_all (\<lambda>a. argument_node (objects st ! a)) ps")
    case True
    then show ?thesis using function_types.get_ok(1) [OF ok _ get] function_type(1)
      by (simp add: function_allowed_def)
  next
    case False
    then show ?thesis using get ok by (auto simp: get_function_type_def split: option.splits)
  qed
qed

lemma types_reachable_ok: "type_step\<^sup>*\<^sup>* type_store_init st \<Longrightarrow> types_ok st"
  by (induction rule: rtranclp_induct) (auto intro: type_store_init_ok type_step_ok)

lemma array_denotes:
  assumes "types_ok st" "array_allowed (c, n) st"
  shows "\<exists>p st'. ArrayType_get c n st = Inr (p, st') \<and> object_at st' p = Some (ArrayNode c n) \<and> types_ok st' \<and>
    (\<forall>q x. object_at st q = Some x \<longrightarrow> object_at st' q = Some x)"
proof -
  have "has_module (objects st ! c)"
    using assms(2) by (cases "objects st ! c") (auto simp: array_allowed_def has_module_def)
  then show ?thesis
    using array_types.get_new [OF assms] array_types.get_keeps [OF assms(1)]
    by (fastforce simp: ArrayType_get_def)
qed

lemma function_denotes:
  assumes "types_ok st" "function_allowed (r, ps) st"
  shows "\<exists>p st'. FunctionType_get r ps st = Inr (p, st') \<and> object_at st' p = Some (FunctionNode r ps) \<and> types_ok st' \<and>
    (\<forall>q x. object_at st q = Some x \<longrightarrow> object_at st' q = Some x)"
proof -
  have "has_module (objects st ! r)"
    using assms(2) by (cases "objects st ! r") (auto simp: function_allowed_def has_module_def)
  then show ?thesis
    using function_types.get_new [OF assms] function_types.get_keeps [OF assms(1)]
    by (fastforce simp: FunctionType_get_def)
qed

lemma pointer_denotes:
  assumes "types_ok st" "c < length (objects st)" "has_module (objects st ! c)"
  shows "\<exists>p st'. PointerType_get c st = Inr (p, st') \<and> object_at st' p = Some (PointerNode c) \<and> types_ok st' \<and>
    (\<forall>q x. object_at st q = Some x \<longrightarrow> object_at st' q = Some x)"
proof -
  obtain p st' where p: "get_pointer_type c st = (p, st')" by (cases "get_pointer_type c st")
  have allowed: "pointer_allowed c st" using assms(2) by (simp add: pointer_allowed_def)
  show ?thesis
    using pointer_types.get_ok [OF assms(1) allowed, of p st'] pointer_types.get_keeps [OF assms(1), of c p st'] assms(3) p
    by (auto simp: PointerType_get_def)
qed

text \<open>What an address denotes does not change while the store grows.\<close>

lemma denote_keeps:
  assumes "types_ok st" "types_ok st'" "\<forall>q x. object_at st q = Some x \<longrightarrow> object_at st' q = Some x"
    and "p < length (objects st)"
  shows "denote (objects st') p = denote (objects st) p"
  using assms(4)
proof (induction p rule: less_induct)
  case (less p)
  obtain x where x: "object_at st p = Some x" "objects st ! p = x" using less.prems by (simp add: object_at_def)
  then have x': "object_at st' p = Some x" using assms(3) by blast
  have sub: "denote (objects st') q = denote (objects st) q" if "q \<in> set (parts x)" for q
    using less types_okD(2) [OF assms(1) less.prems, of q] that x(2) by simp
  show ?case
    unfolding denote_simps [OF assms(1) x(1)] denote_simps [OF assms(2) x']
    using sub by (auto split: type_node.splits)
qed

lemma pointer_get_denotes:
  assumes ok: "types_ok st" and c: "c < length (objects st)" "has_module (objects st ! c)"
  shows "\<exists>p st'. PointerType_get c st = Inr (p, st') \<and> types_ok st' \<and>
    denote (objects st') p = PointerTy (denote (objects st) c) \<and>
    (\<forall>q < length (objects st). denote (objects st') q = denote (objects st) q)"
proof -
  obtain p st' where p: "PointerType_get c st = Inr (p, st')" "object_at st' p = Some (PointerNode c)" "types_ok st'"
    "\<forall>q x. object_at st q = Some x \<longrightarrow> object_at st' q = Some x" using pointer_denotes [OF ok c] by blast
  have "\<forall>q < length (objects st). denote (objects st') q = denote (objects st) q"
    using denote_keeps [OF ok p(3,4)] by blast
  then show ?thesis using p(1,3) c(1) denote_simps [OF p(3,2)] by simp
qed

lemma array_get_denotes:
  assumes ok: "types_ok st" and c: "array_allowed (c, n) st"
  shows "\<exists>p st'. ArrayType_get c n st = Inr (p, st') \<and> types_ok st' \<and>
    denote (objects st') p = ArrayTy (denote (objects st) c) n \<and>
    (\<forall>q < length (objects st). denote (objects st') q = denote (objects st) q)"
proof -
  obtain p st' where p: "ArrayType_get c n st = Inr (p, st')" "object_at st' p = Some (ArrayNode c n)" "types_ok st'"
    "\<forall>q x. object_at st q = Some x \<longrightarrow> object_at st' q = Some x" using array_denotes [OF ok c] by blast
  have "\<forall>q < length (objects st). denote (objects st') q = denote (objects st) q"
    using denote_keeps [OF ok p(3,4)] by blast
  then show ?thesis using p(1,3) c denote_simps [OF p(3,2)] by (simp add: array_allowed_def)
qed

lemma function_get_denotes:
  assumes ok: "types_ok st" and c: "function_allowed (r, ps) st"
  shows "\<exists>p st'. FunctionType_get r ps st = Inr (p, st') \<and> types_ok st' \<and>
    denote (objects st') p = FunctionTy (denote (objects st) r) (map (denote (objects st)) ps) \<and>
    (\<forall>q < length (objects st). denote (objects st') q = denote (objects st) q)"
proof -
  obtain p st' where p: "FunctionType_get r ps st = Inr (p, st')" "object_at st' p = Some (FunctionNode r ps)" "types_ok st'"
    "\<forall>q x. object_at st q = Some x \<longrightarrow> object_at st' q = Some x" using function_denotes [OF ok c] by blast
  have keep: "\<forall>q < length (objects st). denote (objects st') q = denote (objects st) q"
    using denote_keeps [OF ok p(3,4)] by blast
  then show ?thesis using p(1,3) c denote_simps [OF p(3,2)] by (simp add: function_allowed_def parts_in_def)
qed

section \<open>Sizes\<close>

text \<open>The size of a type as a natural number, without the wrap-around of \<^verbatim>\<open>int\<close>.\<close>

fun type_bytes :: "ty \<Rightarrow> nat" where
  "type_bytes (IntegerTy n) = max 1 (unat n div 8)"
| "type_bytes (ArrayTy c n) = type_bytes c * unat n"
| "type_bytes (PointerTy (ArrayTy c n)) = type_bytes (ArrayTy c n)"
| "type_bytes (PointerTy c) = 4"
| "type_bytes FloatTy = 4"
| "type_bytes _ = 0"

lemma get_size_bytes: "get_size t = of_nat (type_bytes t)"
proof (induction t rule: get_size.induct)
  case (1 n)
  have "unat (n div 8) = unat n div 8" by (simp add: unat_div_distrib)
  moreover have "of_nat (unat (n div 8)) = n div 8" by simp
  moreover have "0 < n div 8 \<longleftrightarrow> 0 < unat (n div 8)" by (simp add: word_less_nat_alt)
  ultimately show ?case by (auto simp: max_def)
qed simp_all

section \<open>Example modules\<close>

text \<open>A function with a block that adds a constant to itself and returns the sum.\<close>

definition built_ir :: "ir result" where
  "built_ir = (let (f, m) = create_function (FunctionTy (IntegerTy 32) []) ''get'' ir_init in
     rbind (create_basic_block [] (Some f) m) (\<lambda>(b, m).
     let (c, m) = alloc (new_val (IntegerTy 32) [] (ConstantIntV 1) 0 None) m in
     rbind (create_binary Add c c b m) (\<lambda>(i, m).
     rbind (create_ret i b m) (\<lambda>(r, m). Inr m))))"

lemmas build_defs = built_ir_def create_function_def alloc_def new_val_def ir_init_def create_basic_block_def
  set_cfg_def cfg_of_def add_basic_block_def create_binary_def create_ret_def create_inst_def
  new_instruction_def add_instruction_def set_operand_def get_val_def upd_val_def add_use_def

lemma built_ir_reachable: "\<exists>m. built_ir = Inr m \<and> ir_step\<^sup>*\<^sup>* ir_init m"
proof -
  obtain f m1 where m1: "create_function (FunctionTy (IntegerTy 32) []) ''get'' ir_init = (f, m1)" by fastforce
  then have f: "heap m1 = [0 \<mapsto> new_val (FunctionTy (IntegerTy 32) []) ''get'' FunctionV 0 None]" "next_addr m1 = 1"
    by (auto simp: create_function_def alloc_def ir_init_def)
  obtain b m2 where m2: "create_basic_block [] (Some f) m1 = Inr (b, m2)" "heap m2 = (heap m1)(1 \<mapsto> new_val LabelTy [] BasicBlockV 0 (Some f))"
    "next_addr m2 = 2"
    using f(2) by (simp add: create_basic_block_def alloc_def set_cfg_def)
  let ?c = "new_val (IntegerTy 32) [] (ConstantIntV 1) 0 None"
  obtain m3 where m3: "alloc ?c m2 = (2, m3)" "heap m3 = (heap m2)(2 \<mapsto> ?c)" "next_addr m3 = 3"
    using m2(3) by (simp add: alloc_def)
  have steps: "ir_step ir_init m1" "ir_step m1 m2" "ir_step m2 m3"
    using ir_step.new_function [OF m1] ir_step.basic_block [OF m2(1)] ir_step.new_constant [OF m3(1)]
    by (simp_all add: is_constant_def)
  then have r3: "ir_step\<^sup>*\<^sup>* ir_init m3" by (meson converse_rtranclp_into_rtranclp rtranclp.rtrancl_refl)
  have ok3: "uses_ok m3" using r3 by (induction rule: rtranclp_induct) (auto intro: uses_ok_init ir_step_uses)
  have c: "alive m3 2" using m3(2) by simp
  obtain i m4 where m4: "create_binary Add 2 2 b m3 = Inr (i, m4)" "alive m4 i" "uses_ok m4"
    using create_inst_uses [OF ok3, of "[2, 2]" "IntegerTy 32" Add b] c by (auto simp: create_binary_def)
  obtain r m5 where m5: "create_ret i b m4 = Inr (r, m5)"
    using create_inst_uses [OF m4(3), of "[i]" VoidTy Ret b] m4(2) by (auto simp: create_ret_def)
  have "ir_step m3 m4" "ir_step m4 m5"
    using ir_step.binary [OF m4(1) c c] ir_step.ret [OF m5 m4(2)] by simp_all
  then have "ir_step\<^sup>*\<^sup>* ir_init m5" using r3 by (meson rtranclp.rtrancl_into_rtrancl)
  moreover have "built_ir = Inr m5" using m1 m2(1) m3(1) m4(1) m5 by (simp add: built_ir_def)
  ultimately show ?thesis by blast
qed

text \<open>A constant, another one, and an instruction that uses the first one twice.\<close>

definition small_ir :: ir where
  "small_ir = ir_init\<lparr>next_addr := 9, heap := [
     6 \<mapsto> (new_val (IntegerTy 32) [] (ConstantIntV 1) 0 None)\<lparr>use_list := [(8, 0), (8, 1)]\<rparr>,
     7 \<mapsto> new_val (IntegerTy 32) [] (ConstantIntV 2) 0 None,
     8 \<mapsto> (new_val (IntegerTy 32) [] (InstructionV Add) 2 None)\<lparr>operands := [Some 6, Some 6]\<rparr>]\<rparr>"

lemma small_operand: "operand_at small_ir u i = Some a \<longleftrightarrow> (u, i, a) \<in> {(8, 0, 6), (8, 1, 6)}"
  by (auto simp: operand_at_Some small_ir_def new_val_def less_Suc_eq split: if_splits)

lemma small_uses: "uses_ok small_ir"
proof (rule uses_okI)
  fix a x
  assume x: "heap small_ir a = Some x"
  then show "a < next_addr small_ir \<and> val_ok x"
    by (auto simp: small_ir_def val_ok_def new_val_def is_user_def split: if_splits)
  show "(u, i) \<in> set (use_list x) \<longleftrightarrow> operand_at small_ir u i = Some a" for u i
    unfolding small_operand using x by (auto simp: small_ir_def new_val_def split: if_splits)
next
  show "heap small_ir a \<noteq> None" if "operand_at small_ir u i = Some a" for u i a
    using that unfolding small_operand by (auto simp: small_ir_def)
qed

section \<open>Properties\<close>

text \<open>
  Three operations may break the lists of uses, as nothing in them guards against it: writing an
  operand that is not null, which leaves the use of the old value behind; removing operands in
  front of others, whose uses keep their old numbers; \<^verbatim>\<open>delete_instr\<close>, which takes the uses of an
  object away and leaves the object with its operands. Nothing calls the last two.
\<close>

lemma unguarded_operations:
  "\<exists>m. set_operand 8 0 7 small_ir = Inr m \<and> \<not> uses_ok m"
  "\<exists>m. remove_operands 8 0 0 small_ir = Inr m \<and> \<not> uses_ok m"
  "\<exists>m. delete_instr 5 8 small_ir = Inr m \<and> \<not> uses_ok m"
proof -
  have broken: "\<exists>m. r = Inr m \<and> \<not> uses_ok m"
    if "case r of Inl e \<Rightarrow> False | Inr m \<Rightarrow> \<exists>x. heap m 6 = Some x \<and> ((8, 0) \<in> set (use_list x) \<longleftrightarrow> operand_at m 8 0 \<noteq> Some 6)"
    for r :: "ir result"
    using that uses_okD(3) [of _ 6 _ 8 0] by (auto split: sum.splits)
  note eval = small_ir_def set_operand_def remove_operands_def delete_instr_def remove_use_of_ops_def remove_uses_def
    remove_use_def get_val_def upd_val_def add_use_def new_val_def unlink_instr_def operand_at_def ir_init_def
  show "\<exists>m. set_operand 8 0 7 small_ir = Inr m \<and> \<not> uses_ok m" by (rule broken) (simp add: eval)
  show "\<exists>m. remove_operands 8 0 0 small_ir = Inr m \<and> \<not> uses_ok m" by (rule broken) (simp add: eval)
  show "\<exists>m. delete_instr 5 8 small_ir = Inr m \<and> \<not> uses_ok m" by (rule broken) (simp add: eval)
qed



text \<open>
  C30. \<^verbatim>\<open>replace_all_use_with\<close> terminates for two different values: every operand that was the
  old value is the new one, all others stay, the old value has no uses left, and the lists of
  uses are consistent again.
\<close>

theorem replace_all_use_with_correct:
  assumes "uses_ok m" "heap m this = Some x" "heap m new \<noteq> None" "new \<noteq> this"
  shows "\<exists>m'. replace_all_use_with this new m = Some (Inr m') \<and> uses_ok m' \<and>
    (\<forall>u i. operand_at m' u i = (if operand_at m u i = Some this then Some new else operand_at m u i)) \<and>
    (\<exists>x'. heap m' this = Some x' \<and> use_list x' = [])"
  by (rule replace_all_use_with_spec [OF assms])

theorem replace_all_use_with_correct_witness:
  "\<exists>m'. replace_all_use_with 6 7 small_ir = Some (Inr m') \<and> operand_at m' 8 1 = Some 7"
proof -
  obtain x where x: "heap small_ir 6 = Some x" by (simp add: small_ir_def)
  have "heap small_ir 7 \<noteq> None" "(7 :: nat) \<noteq> 6" by (simp_all add: small_ir_def)
  from replace_all_use_with_correct [OF small_uses x this] show ?thesis using small_operand [of 8 1 6] by auto
qed

text \<open>
  C37. Replacing a value that is used by itself never returns: each \<^verbatim>\<open>set_operand\<close> appends a use
  to the list the loop runs over.
\<close>

theorem replace_by_itself_diverges:
  assumes "uses_ok m" "heap m this = Some x" "use_list x \<noteq> []"
  shows "replace_all_use_with this this m = None"
proof -
  have "replace_uses this this 0 m = None"
  proof (rule replace_uses_self [OF assms(2)])
    fix u j
    assume "(u, j) \<in> set (use_list x)"
    then have "operand_at m u j = Some this" using uses_okD(3) [OF assms(1,2)] by simp
    then obtain y where y: "heap m u = Some y" "j < length (operands y)" by (auto simp: operand_at_Some)
    then show "\<exists>y. heap m u = Some y \<and> is_user (kind y) \<and> j < num_ops y \<and> j < length (operands y)"
      using uses_okD(2) [OF assms(1) y(1)] by (auto simp: val_ok_def)
  qed (use assms(3) in simp)
  then show ?thesis by (simp add: replace_all_use_with_def)
qed

theorem replace_by_itself_diverges_witness: "replace_all_use_with 6 6 small_ir = None"
proof -
  obtain x where "heap small_ir 6 = Some x" "use_list x \<noteq> []" by (simp add: small_ir_def)
  then show ?thesis by (rule replace_by_itself_diverges [OF small_uses])
qed

text \<open>
  Types are unique: in every table that the \<^verbatim>\<open>get\<close> functions build, two addresses are equal
  exactly when the types they stand for are structurally equal. This is what makes the
  comparison of pointers in \<^verbatim>\<open>Type::is_eq_type\<close> the comparison of types.
\<close>

theorem types_interned:
  assumes "type_step\<^sup>*\<^sup>* type_store_init st" "p < length (objects st)" "q < length (objects st)"
  shows "denote (objects st) p = denote (objects st) q \<longleftrightarrow> p = q"
  using denote_inj [OF types_reachable_ok [OF assms(1)] assms(2,3)] by blast

theorem types_interned_witness:
  "\<exists>p st. PointerType_get int32_ty type_store_init = Inr (p, st) \<and>
     (denote (objects st) p = denote (objects st) int32_ty \<longleftrightarrow> p = int32_ty)"
proof -
  obtain p st where get: "PointerType_get int32_ty type_store_init = Inr (p, st)" "p = 5" "length (objects st) = 6"
    by (simp add: PointerType_get_def get_pointer_type_def type_store_init_def int32_ty_def has_module_def)
  have "type_step\<^sup>*\<^sup>* type_store_init st"
    using type_step.pointer_type [OF _ get(1)] by (simp add: type_store_init_def int32_ty_def r_into_rtranclp)
  from types_interned [OF this, of p int32_ty] get show ?thesis by (simp add: int32_ty_def)
qed

text \<open>
  C29. The \<^verbatim>\<open>get\<close> functions return the address of the requested pointer, array or function type,
  keep the tables consistent, and leave the meaning of every address alone.
\<close>

theorem type_get_denotes:
  assumes ok: "types_ok st"
  shows "(c < length (objects st) \<and> has_module (objects st ! c) \<longrightarrow>
      (\<exists>p st'. PointerType_get c st = Inr (p, st') \<and> types_ok st' \<and>
        denote (objects st') p = PointerTy (denote (objects st) c) \<and>
        (\<forall>q < length (objects st). denote (objects st') q = denote (objects st) q))) \<and>
    (array_allowed (c, n) st \<longrightarrow>
      (\<exists>p st'. ArrayType_get c n st = Inr (p, st') \<and> types_ok st' \<and>
        denote (objects st') p = ArrayTy (denote (objects st) c) n \<and>
        (\<forall>q < length (objects st). denote (objects st') q = denote (objects st) q))) \<and>
    (function_allowed (c, ps) st \<longrightarrow>
      (\<exists>p st'. FunctionType_get c ps st = Inr (p, st') \<and> types_ok st' \<and>
        denote (objects st') p = FunctionTy (denote (objects st) c) (map (denote (objects st)) ps) \<and>
        (\<forall>q < length (objects st). denote (objects st') q = denote (objects st) q)))"
  using pointer_get_denotes [OF ok] array_get_denotes [OF ok] function_get_denotes [OF ok] by blast

theorem type_get_denotes_witness:
  "\<exists>p st. ArrayType_get int32_ty 8 type_store_init = Inr (p, st) \<and> denote (objects st) p = ArrayTy (IntegerTy 32) 8"
proof -
  have c: "array_allowed (int32_ty, 8) type_store_init"
    by (simp add: array_allowed_def type_store_init_def int32_ty_def)
  have "denote (objects type_store_init) int32_ty = IntegerTy 32"
    by (subst denote.simps) (simp add: type_store_init_def int32_ty_def)
  then show ?thesis using type_get_denotes [OF type_store_init_ok, of int32_ty 8 "[]"] c by auto
qed

text \<open>
  \<^verbatim>\<open>get_size\<close> is the size in bytes reduced modulo 2^32, so it is that size exactly for the
  types below 2^32 bytes; an array of 2^30 integers has size 0.
\<close>

theorem get_size_modulo:
  "get_size t = of_nat (type_bytes t) \<and>
   (unat (get_size t) = type_bytes t \<longleftrightarrow> type_bytes t < 2 ^ 32) \<and>
   get_size (ArrayTy (IntegerTy 32) (2 ^ 30)) = 0"
proof (intro conjI)
  show "unat (get_size t) = type_bytes t \<longleftrightarrow> type_bytes t < 2 ^ 32"
    unfolding get_size_bytes by (simp add: unat_of_nat) (metis mod_less mod_less_divisor zero_less_numeral)
qed (simp_all add: get_size_bytes [of t])

end
