(* ===== verification/Ir_Text.thy ===== *)
theory Ir_Text
  imports Ir_Print
begin

text \<open>
  The properties of the text: floating-point constants are printed exactly, and the names that
  \<^verbatim>\<open>set_instr_name\<close> gives to the values of a function are distinct.
\<close>

section \<open>Floating-point constants\<close>

text \<open>
  The magnitude of a finite \<^verbatim>\<open>float\<close> in units of 2^-149 and of a finite \<^verbatim>\<open>double\<close> in units of
  2^-1074, and the value of a hexadecimal numeral.
\<close>

definition float_magnitude :: "f32 \<Rightarrow> nat" where
  "float_magnitude x = (let e = unat x div 2 ^ 23 mod 2 ^ 8; fr = unat x mod 2 ^ 23 in
     if e = 0 then fr else (2 ^ 23 + fr) * 2 ^ (e - 1))"

definition double_magnitude :: "64 word \<Rightarrow> nat" where
  "double_magnitude x = (let e = unat x div 2 ^ 52 mod 2 ^ 11; fr = unat x mod 2 ^ 52 in
     if e = 0 then fr else (2 ^ 52 + fr) * 2 ^ (e - 1))"

definition hex_value :: "string \<Rightarrow> nat" where
  "hex_value s = foldl (\<lambda>n c. 16 * n + (if of_char c < (58 :: nat) then of_char c - 48 else of_char c - 87)) 0 s"

lemma hex_digit_value: "d < 16 \<Longrightarrow> (if of_char (hex_digit d) < (58 :: nat) then of_char (hex_digit d) - 48 else of_char (hex_digit d) - 87) = d"
  by (auto simp: hex_digit_def)

lemma hex_value_hex: "hex_value (hex n) = n"
proof (induction n rule: hex.induct)
  case (1 n)
  show ?case
  proof (cases "n < 16")
    case True
    then show ?thesis using hex_digit_value [of n] by (subst hex.simps) (simp add: hex_value_def)
  next
    case False
    then show ?thesis using 1 [OF False] hex_digit_value [of "n mod 16"]
      by (subst hex.simps) (simp add: hex_value_def)
  qed
qed

lemma packed_fields:
  assumes "s < 2" "e < 2 ^ 11" "f < 2 ^ 52"
  defines "w \<equiv> of_nat (s * 2 ^ 63 + e * 2 ^ 52 + f) :: 64 word"
  shows "unat w div 2 ^ 63 = s" "unat w div 2 ^ 52 mod 2 ^ 11 = e" "unat w mod 2 ^ 52 = f"
proof -
  have bound: "e * 2 ^ 52 + f < 2 ^ 63"
  proof -
    have "e * 2 ^ 52 + f < (e + 1) * 2 ^ 52" using assms(3) by (simp add: algebra_simps)
    also have "\<dots> \<le> 2 ^ 11 * 2 ^ 52" using assms(2) by (intro mult_right_mono) simp_all
    finally show ?thesis by simp
  qed
  have "s * 2 ^ 63 \<le> 1 * 2 ^ 63" using assms(1) by (intro mult_right_mono) simp_all
  then have "s * 2 ^ 63 + e * 2 ^ 52 + f < 2 ^ 64" using bound by simp
  then have w: "unat w = s * 2 ^ 63 + e * 2 ^ 52 + f" 
    unfolding w_def unat_of_nat by simp
  have "unat w = (e * 2 ^ 52 + f) + s * 2 ^ 63" by (simp add: w)
  then show "unat w div 2 ^ 63 = s" using bound by simp
  have split: "unat w = f + (e + s * 2 ^ 11) * 2 ^ 52" by (simp add: w algebra_simps)
  show "unat w mod 2 ^ 52 = f" unfolding split using assms(3) by (simp only: mod_mult_self1 mod_less)
  have "unat w div 2 ^ 52 = e + s * 2 ^ 11"
    unfolding split by (subst div_mult_self1) (simp, simp only: div_less [OF assms(3)] add_0_right)
  then show "unat w div 2 ^ 52 mod 2 ^ 11 = e" using assms(2) by simp
qed

lemma normalize_fraction_spec:
  "fr < 2 ^ 24 \<Longrightarrow> 2 ^ 23 \<le> fr * 2 ^ n \<Longrightarrow>
     \<exists>j \<le> n. normalize_fraction n fr k = (fr * 2 ^ j, k + j) \<and> 2 ^ 23 \<le> fr * 2 ^ j \<and> fr * 2 ^ j < 2 ^ 24"
proof (induction n arbitrary: fr k)
  case (Suc n)
  show ?case
  proof (cases "fr < 2 ^ 23")
    case True
    have "2 * fr < 2 ^ 24" "2 ^ 23 \<le> 2 * fr * 2 ^ n" using True Suc.prems(2) by simp_all
    from Suc.IH [OF this, of "k + 1"] obtain j where "j \<le> n"
      "normalize_fraction n (2 * fr) (k + 1) = (2 * fr * 2 ^ j, k + 1 + j)"
      "2 ^ 23 \<le> 2 * fr * 2 ^ j" "2 * fr * 2 ^ j < 2 ^ 24" by blast
    then show ?thesis using True by (intro exI [of _ "Suc j"]) simp
  qed (use Suc.prems in \<open>auto intro!: exI [of _ 0]\<close>)
qed simp

lemma double_bits_exact:
  assumes finite: "unat x div 2 ^ 23 mod 2 ^ 8 \<noteq> 255"
  shows "double_magnitude (double_bits x) = float_magnitude x * 2 ^ 925 \<and>
    unat (double_bits x) div 2 ^ 63 = unat x div 2 ^ 31"
proof -
  define s e fr where "s = unat x div 2 ^ 31" and "e = unat x div 2 ^ 23 mod 2 ^ 8" and "fr = unat x mod 2 ^ 23"
  have "unat x < 2 ^ LENGTH(32)" by (rule unsigned_less)
  then have s: "s < 2" by (simp add: s_def less_mult_imp_div_less)
  have e: "e < 2 ^ 8" "e \<noteq> 255" using finite by (simp_all add: e_def)
  have fr: "fr < 2 ^ 23" by (simp add: fr_def)
  have fm: "float_magnitude x = (if e = 0 then fr else (2 ^ 23 + fr) * 2 ^ (e - 1))"
    by (simp add: float_magnitude_def e_def fr_def)
  note db = double_bits_def [of x, unfolded Let_def, folded s_def e_def fr_def]
  have result: ?thesis if w: "double_bits x = of_nat (s * 2 ^ 63 + e' * 2 ^ 52 + f' * 2 ^ 29)"
    and bounds: "e' < 2 ^ 11" "f' < 2 ^ 23"
    and mag: "(if e' = 0 then f' * 2 ^ 29 else (2 ^ 52 + f' * 2 ^ 29) * 2 ^ (e' - 1)) = float_magnitude x * 2 ^ 925" for e' f'
  proof -
    have "f' * 2 ^ 29 < 2 ^ 23 * 2 ^ 29" by (rule mult_strict_right_mono [OF bounds(2)]) simp
    then have "f' * 2 ^ 29 < 2 ^ 52" by simp
    note fields = packed_fields [OF s bounds(1) this, folded w]
    show ?thesis
      unfolding double_magnitude_def Let_def fields mag by (simp only: s_def)
  qed
  consider (normal) "e \<noteq> 0" | (zero) "e = 0" "fr = 0" | (denormal) "e = 0" "fr \<noteq> 0" by blast
  then show ?thesis
  proof cases
    case normal
    have "(2 ^ 52 + fr * 2 ^ 29) * 2 ^ (e + 896 - 1) = (2 ^ 23 + fr) * 2 ^ (e - 1) * (2 ^ 925 :: nat)"
    proof -
      obtain d where d: "e = Suc d" using normal by (cases e) auto
      have "(2 ^ 52 + fr * 2 ^ 29) * 2 ^ (e + 896 - 1) = (2 ^ 23 + fr) * 2 ^ 29 * (2 ^ 896 * 2 ^ d :: nat)"
        by (simp add: d power_add algebra_simps)
      also have "\<dots> = (2 ^ 23 + fr) * 2 ^ d * (2 ^ 29 * 2 ^ 896)" by (simp only: ac_simps)
      finally show ?thesis by (simp only: d diff_Suc_1 power_add [symmetric]) simp
    qed
    moreover have "e + 896 \<noteq> 0" "e + 896 < 2 ^ 11" using e by simp_all
    moreover have "double_bits x = of_nat (s * 2 ^ 63 + (e + 896) * 2 ^ 52 + fr * 2 ^ 29)"
      unfolding db using normal e(2) by (simp only: if_False if_True not_False_eq_True)
    ultimately show ?thesis using normal fr
      by (intro result [of "e + 896" fr]) (simp_all only: fm if_False)
  next
    case zero
    then have "double_bits x = of_nat (s * 2 ^ 63 + 0 * 2 ^ 52 + 0 * 2 ^ 29)"
      unfolding db by simp
    then show ?thesis by (rule result) (simp_all add: fm zero)
  next
    case denormal
    have "fr < 2 ^ 24" "2 ^ 23 \<le> fr * 2 ^ 23" using fr denormal by simp_all
    from normalize_fraction_spec [OF this, of 0] obtain j where j: "j \<le> 23"
      "normalize_fraction 23 fr 0 = (fr * 2 ^ j, j)" "2 ^ 23 \<le> fr * 2 ^ j" "fr * 2 ^ j < 2 ^ 24" by auto
    have "(2 ^ 52 + (fr * 2 ^ j - 2 ^ 23) * 2 ^ 29) * 2 ^ (897 - j - 1) = fr * (2 ^ 925 :: nat)"
    proof -
      have "(2 ^ 52 + (fr * 2 ^ j - 2 ^ 23) * 2 ^ 29 :: nat) = fr * 2 ^ j * 2 ^ 29"
        using j(3) by (simp add: diff_mult_distrib)
      then have "(2 ^ 52 + (fr * 2 ^ j - 2 ^ 23) * 2 ^ 29) * 2 ^ (897 - j - 1) = fr * (2 ^ j * 2 ^ 29 * 2 ^ (896 - j))"
        by (simp only: ac_simps) simp
      also have "2 ^ j * 2 ^ 29 * 2 ^ (896 - j) = (2 ^ (j + 29 + (896 - j)) :: nat)" by (simp only: power_add)
      also have "j + 29 + (896 - j) = 925" using j(1) by simp
      finally show ?thesis .
    qed
    moreover have "897 - j \<noteq> 0" "897 - j < 2 ^ 11" "fr * 2 ^ j - 2 ^ 23 < 2 ^ 23" using j by simp_all
    moreover have "double_bits x = of_nat (s * 2 ^ 63 + (897 - j) * 2 ^ 52 + (fr * 2 ^ j - 2 ^ 23) * 2 ^ 29)"
      unfolding db j(2) using denormal e(2) by (simp only: if_False if_True not_True_eq_False simp_thms prod.case)
    ultimately show ?thesis using denormal
      by (intro result [of "897 - j" "fr * 2 ^ j - 2 ^ 23"]) (simp_all only: fm simp_thms if_False if_True)
  qed
qed

section \<open>Names\<close>

text \<open>The values of a function that get a name, and a module whose names are given by \<open>nm\<close>.\<close>

definition named_values :: "ir \<Rightarrow> addr \<Rightarrow> addr list" where
  "named_values m f = arguments m f @ concat (map (\<lambda>b. b # filter (\<lambda>i. \<not> is_void (the (heap m i))) (instr_list m b))
     (block_list m f))"

definition rename :: "(addr \<Rightarrow> string) \<Rightarrow> ir \<Rightarrow> ir" where
  "rename nm m = m\<lparr>heap := (\<lambda>a. map_option (\<lambda>x. x\<lparr>name := nm a\<rparr>) (heap m a))\<rparr>"

lemma rename_fields [simp]:
  "heap (rename nm m) a = map_option (\<lambda>x. x\<lparr>name := nm a\<rparr>) (heap m a)"
  "arguments (rename nm m) = arguments m" "block_list (rename nm m) = block_list m"
  "instr_list (rename nm m) = instr_list m" "seq_cnt (rename nm m) = seq_cnt m"
  by (simp_all add: rename_def)

definition prefixes :: "string set" where
  "prefixes = {''arg'', ''label'', ''op''}"

text \<open>A name is a prefix and a number, and the number can be read off.\<close>

definition name_number :: "string \<Rightarrow> nat \<Rightarrow> bool" where
  "name_number s k \<longleftrightarrow> (\<exists>p \<in> prefixes. s = p @ digits k)"

definition decimal_digit :: "char \<Rightarrow> bool" where
  "decimal_digit c \<longleftrightarrow> 48 \<le> (of_char c :: nat) \<and> (of_char c :: nat) \<le> 57"

lemma digits_decimal: "list_all decimal_digit (digits n)"
proof (induction n rule: digits.induct)
  case (1 n)
  have last: "decimal_digit (char_of (48 + d))" if "d < 10" for d :: nat
    using that by (simp add: decimal_digit_def)
  show ?case
  proof (cases "n < 10")
    case True
    then show ?thesis using last [of n] by (subst digits.simps) simp
  next
    case False
    then show ?thesis using last [of "n mod 10"] 1 [OF False] by (subst digits.simps) simp
  qed
qed

lemma digits_inj: "digits m = digits n \<Longrightarrow> m = n"
proof (induction m arbitrary: n rule: digits.induct)
  case (1 m)
  have len: "n < 10 \<longleftrightarrow> length (digits n) = 1" for n
    by (subst digits.simps) simp
  show ?case
  proof (cases "m < 10")
    case True
    then have "n < 10" using 1(2) len by metis
    then show ?thesis using True 1(2) by (simp add: digits.simps)
  next
    case False
    then have n: "\<not> n < 10" using 1(2) len by metis
    have "digits (m div 10) @ [char_of (48 + m mod 10)] = digits (n div 10) @ [char_of (48 + n mod 10)]"
      using 1(2) False n by (simp add: digits.simps [of m] digits.simps [of n])
    then have "digits (m div 10) = digits (n div 10)" "m mod 10 = n mod 10" by simp_all
    then show ?thesis using 1(1) [OF False] by (metis div_mult_mod_eq)
  qed
qed

lemma name_number_unique:
  assumes "name_number s j" "name_number s k"
  shows "j = k"
proof -
  have strip: "dropWhile (\<lambda>c. \<not> decimal_digit c) s = digits i" if "name_number s i" for i
  proof -
    obtain p where p: "p \<in> prefixes" "s = p @ digits i" using \<open>name_number s i\<close> by (auto simp: name_number_def)
    have "dropWhile (\<lambda>c. \<not> decimal_digit c) (digits i) = digits i"
      using digits_decimal [of i] by (cases "digits i") auto
    moreover have "\<not> decimal_digit c" if "c \<in> set p" for c
      using that p(1) by (auto simp: prefixes_def decimal_digit_def)
    ultimately show ?thesis using p(2) by (simp add: dropWhile_append2)
  qed
  show ?thesis using strip [OF assms(1)] strip [OF assms(2)] digits_inj by simp
qed

definition nameless :: "ir \<Rightarrow> addr set \<Rightarrow> addr set" where
  "nameless m A = {a \<in> A. name (the (heap m a)) = []}"

lemma nameless_simps:
  "nameless m {} = {}" "nameless m (A \<union> B) = nameless m A \<union> nameless m B" "nameless m (\<Union>x \<in> S. g x) = (\<Union>x \<in> S. nameless m (g x))"
  "nameless m {a} = (if name (the (heap m a)) = [] then {a} else {})"
  by (auto simp: nameless_def)

text \<open>
  The state of \<^verbatim>\<open>set_instr_name\<close> after naming the values \<open>vs\<close>: they had no names, carry different
  numbers from \<open>base\<close> on, and nothing else has changed.
\<close>

definition naming :: "ir \<Rightarrow> nat \<Rightarrow> addr set \<Rightarrow> (addr set \<times> nat) \<times> ir \<Rightarrow> bool" where
  "naming m base vs s \<longleftrightarrow> fst s = (vs, card vs) \<and> finite vs \<and> nameless m vs = vs \<and> (\<exists>nm num. snd s = rename nm m \<and>
     inj_on num vs \<and> (\<forall>a \<in> vs. base \<le> num a \<and> num a < base + card vs \<and> name_number (nm a) (num a)) \<and>
     (\<forall>a x. a \<notin> vs \<longrightarrow> heap m a = Some x \<longrightarrow> nm a = name x))"

lemma naming_start: "naming m base {} (({}, 0), m)"
proof -
  have "rename (\<lambda>a. name (the (heap m a))) m = m"
    by (auto simp: rename_def fun_eq_iff intro!: ir.equality option.map_ident_strong)
  then show ?thesis by (auto simp: naming_def nameless_def intro!: exI [of _ "\<lambda>a. name (the (heap m a))"])
qed

lemma name_value_naming:
  assumes inv: "naming m base vs s" and a: "heap m a = Some x" and p: "p \<in> prefixes"
  shows "\<exists>s'. name_value p a s base = Inr s' \<and> naming m base (vs \<union> nameless m {a}) s'"
proof -
  obtain nm num where s: "s = ((vs, card vs), rename nm m)" "finite vs" "nameless m vs = vs" "inj_on num vs"
    "\<forall>a \<in> vs. base \<le> num a \<and> num a < base + card vs \<and> name_number (nm a) (num a)"
    "\<forall>a x. a \<notin> vs \<longrightarrow> heap m a = Some x \<longrightarrow> nm a = name x"
    using inv by (cases s) (auto simp: naming_def)
  have nm: "nm a = name x" if "a \<notin> vs" using s(6) that a by blast
  consider (again) "a \<in> vs" | (named) "a \<notin> vs" "name x \<noteq> []" | (fresh) "a \<notin> vs" "name x = []" by blast
  then show ?thesis
  proof cases
    case again
    then have "vs \<union> nameless m {a} = vs" by (auto simp: nameless_def)
    then show ?thesis using inv s(1) again by (simp add: name_value_def)
  next
    case named
    then have "set_name a n (rename nm m) = Inr (False, rename nm m)" for n
      using a nm by (simp add: set_name_def get_val_def)
    then have "name_value p a s base = Inr s" using named s(1) by (simp add: name_value_def)
    moreover have "vs \<union> nameless m {a} = vs" using named a by (simp add: nameless_simps)
    ultimately show ?thesis using inv by simp
  next
    case fresh
    let ?k = "card vs + base"
    let ?nm = "nm(a := p @ digits ?k)" and ?num = "num(a := ?k)"
    have "set_name a (p @ digits ?k) (rename nm m) = Inr (True, rename ?nm m)"
      using a nm fresh by (auto simp: set_name_def get_val_def upd_val_def rename_def fun_eq_iff)
    then have run: "name_value p a s base = Inr ((insert a vs, card vs + 1), rename ?nm m)"
      using fresh s(1) by (simp add: name_value_def)
    have number: "name_number (p @ digits ?k) ?k" using p by (auto simp: name_number_def)
    have all: "vs \<union> nameless m {a} = insert a vs" using fresh a by (simp add: nameless_simps)
    have "naming m base (insert a vs) ((insert a vs, card vs + 1), rename ?nm m)"
      unfolding naming_def
    proof (intro conjI exI [of _ ?nm] exI [of _ ?num])
      have "?k \<notin> num ` vs" using s(5) by fastforce
      moreover have "?num ` vs = num ` vs" "inj_on ?num vs" using s(4) fresh by (auto simp: inj_on_def)
      ultimately show "inj_on ?num (insert a vs)" using fresh by simp
      show "\<forall>b \<in> insert a vs. base \<le> ?num b \<and> ?num b < base + card (insert a vs) \<and> name_number (?nm b) (?num b)"
      proof
        fix b
        assume b: "b \<in> insert a vs"
        have card: "card (insert a vs) = Suc (card vs)" using s(2) fresh by simp
        show "base \<le> ?num b \<and> ?num b < base + card (insert a vs) \<and> name_number (?nm b) (?num b)"
        proof (cases "b = a")
          case True
          then show ?thesis using number card by simp
        next
          case False
          then have "b \<in> vs" using b by simp
          then show ?thesis using False s(5) card by auto
        qed
      qed
      show "\<forall>b x. b \<notin> insert a vs \<longrightarrow> heap m b = Some x \<longrightarrow> ?nm b = name x" using s(6) by auto
      have "nameless m {a} = {a}" using fresh a by (simp add: nameless_simps)
      then have "nameless m ({a} \<union> vs) = {a} \<union> vs" by (simp only: nameless_simps(2) s(3))
      then show "nameless m (insert a vs) = insert a vs" by simp
    qed (use s(2) fresh in auto)
    then show ?thesis using run all by auto
  qed
qed

lemma fold_naming:
  assumes "naming m base vs s"
    and step: "\<And>x s vs. x \<in> set xs \<Longrightarrow> naming m base vs s \<Longrightarrow> \<exists>s'. f x s = Inr s' \<and> naming m base (vs \<union> g x) s'"
  shows "\<exists>s'. rfold f xs s = Inr s' \<and> naming m base (vs \<union> (\<Union>x \<in> set xs. g x)) s'"
  using assms
proof (induction xs arbitrary: vs s)
  case (Cons x xs)
  obtain t where t: "f x s = Inr t" "naming m base (vs \<union> g x) t"
    using Cons.prems(2) [of x vs s] Cons.prems(1) by auto
  have "\<exists>s'. rfold f xs t = Inr s' \<and> naming m base ((vs \<union> g x) \<union> (\<Union>x \<in> set xs. g x)) s'"
    by (rule Cons.IH [OF t(2)]) (use Cons.prems(2) in auto)
  then show ?case using t(1) by (simp add: Un_assoc)
qed simp

lemma name_number_last: "name_number s k \<Longrightarrow> s \<noteq> [] \<and> decimal_digit (last s)"
proof -
  assume "name_number s k"
  moreover have "digits k \<noteq> []" by (subst digits.simps) simp
  moreover have "decimal_digit (last (digits k))" if "digits k \<noteq> []" using digits_decimal [of k] that by (simp add: list_all_iff)
  ultimately show ?thesis by (auto simp: name_number_def)
qed

text \<open>
  The values that \<^verbatim>\<open>set_instr_name\<close> looks at exist. Those that have a name already have different
  ones, and none with a number that the counter has not reached, as is the case after earlier calls.
\<close>

definition named_ok :: "ir \<Rightarrow> addr \<Rightarrow> bool" where
  "named_ok m f \<longleftrightarrow> (\<forall>a \<in> set (named_values m f). heap m a \<noteq> None) \<and>
     (\<forall>b \<in> set (block_list m f). \<forall>i \<in> set (instr_list m b). heap m i \<noteq> None) \<and>
     inj_on (\<lambda>a. name (the (heap m a))) (set (named_values m f) - nameless m (set (named_values m f))) \<and>
     (\<forall>a \<in> set (named_values m f). \<forall>k \<ge> seq_cnt m f. \<not> name_number (name (the (heap m a))) k)"

lemma name_block_naming:
  assumes ok: "named_ok m f" and b: "b \<in> set (block_list m f)" and inv: "naming m base vs s"
  shows "\<exists>s'. name_block base b s = Inr s' \<and>
    naming m base (vs \<union> nameless m ({b} \<union> {i \<in> set (instr_list m b). \<not> is_void (the (heap m i))})) s'"
proof -
  have "heap m b \<noteq> None" using ok b by (auto simp: named_ok_def named_values_def)
  then obtain xb where xb: "heap m b = Some xb" by blast
  obtain s1 where s1: "name_value ''label'' b s base = Inr s1" "naming m base (vs \<union> nameless m {b}) s1"
    using name_value_naming [OF inv xb, of "''label''"] by (auto simp: prefixes_def)
  obtain nm where nm: "snd s1 = rename nm m" using s1(2) by (auto simp: naming_def)
  let ?f = "\<lambda>i s. rbind (get_val i (snd s)) (\<lambda>x. if is_void x then Inr s else name_value ''op'' i s base)"
  let ?g = "\<lambda>i. if is_void (the (heap m i)) then {} else nameless m {i}"
  have step: "\<exists>t'. ?f i t = Inr t' \<and> naming m base (ws \<union> ?g i) t'"
    if i: "i \<in> set (instr_list m b)" and t: "naming m base ws t" for i t ws
  proof -
    have "heap m i \<noteq> None" using ok b i unfolding named_ok_def by blast
    then obtain x where x: "heap m i = Some x" by blast
    obtain nm where nm: "snd t = rename nm m" using t by (auto simp: naming_def)
    have here: "get_val i (snd t) = Inr (x\<lparr>name := nm i\<rparr>)" "is_void (x\<lparr>name := nm i\<rparr>) = is_void x"
      using x by (simp_all add: get_val_def nm is_void_def)
    show ?thesis
    proof (cases "is_void x")
      case False
      then show ?thesis using name_value_naming [OF t x, of "''op''"] here x by (simp add: prefixes_def)
    qed (use here x t in simp)
  qed
  obtain s2 where s2: "rfold ?f (instr_list m b) s1 = Inr s2"
    "naming m base (vs \<union> nameless m {b} \<union> (\<Union>i \<in> set (instr_list m b). ?g i)) s2"
    using fold_naming [where f = ?f and g = ?g and xs = "instr_list m b", OF s1(2) step] by blast
  moreover have "vs \<union> nameless m {b} \<union> (\<Union>i \<in> set (instr_list m b). ?g i) =
      vs \<union> nameless m ({b} \<union> {i \<in> set (instr_list m b). \<not> is_void (the (heap m i))})" by (auto simp: nameless_def)
  ultimately show ?thesis using s1(1) by (simp add: name_block_def nm)
qed

lemma set_instr_name_spec:
  assumes ok: "named_ok m f"
  defines "new \<equiv> nameless m (set (named_values m f))"
  shows "\<exists>nm num. set_instr_name f m = Inr ((rename nm m)\<lparr>seq_cnt := (seq_cnt m)(f := seq_cnt m f + card new)\<rparr>) \<and>
    inj_on num new \<and> (\<forall>a \<in> new. seq_cnt m f \<le> num a \<and> num a < seq_cnt m f + card new \<and> name_number (nm a) (num a)) \<and>
    (\<forall>a x. a \<notin> new \<longrightarrow> heap m a = Some x \<longrightarrow> nm a = name x)"
proof -
  let ?base = "seq_cnt m f"
  have "\<exists>s'. rfold (\<lambda>a s. name_value ''arg'' a s ?base) (arguments m f) (({}, 0), m) = Inr s' \<and>
      naming m ?base ({} \<union> (\<Union>a \<in> set (arguments m f). nameless m {a})) s'"
  proof (rule fold_naming [OF naming_start])
    fix a s vs
    assume a: "a \<in> set (arguments m f)" "naming m ?base vs s"
    then have "heap m a \<noteq> None" using ok by (auto simp: named_ok_def named_values_def)
    then show "\<exists>s'. name_value ''arg'' a s ?base = Inr s' \<and> naming m ?base (vs \<union> nameless m {a}) s'"
      using name_value_naming [OF a(2)] by (auto simp: prefixes_def)
  qed
  then obtain s1 where s1: "rfold (\<lambda>a s. name_value ''arg'' a s ?base) (arguments m f) (({}, 0), m) = Inr s1"
    "naming m ?base (\<Union>a \<in> set (arguments m f). nameless m {a}) s1" by auto
  obtain nm1 where nm1: "snd s1 = rename nm1 m" using s1(2) by (auto simp: naming_def)
  let ?g = "\<lambda>b. nameless m ({b} \<union> {i \<in> set (instr_list m b). \<not> is_void (the (heap m i))})"
  obtain s2 where s2: "rfold (name_block ?base) (block_list m f) s1 = Inr s2"
    "naming m ?base ((\<Union>a \<in> set (arguments m f). nameless m {a}) \<union> (\<Union>b \<in> set (block_list m f). ?g b)) s2"
    using fold_naming [where f = "name_block ?base" and g = ?g and xs = "block_list m f", OF s1(2) name_block_naming [OF ok]]
    by blast
  have all: "(\<Union>a \<in> set (arguments m f). nameless m {a}) \<union> (\<Union>b \<in> set (block_list m f). ?g b) = new"
    by (auto simp: named_values_def nameless_def new_def)
  obtain nm num where s2': "s2 = ((new, card new), rename nm m)" "inj_on num new"
    "\<forall>a \<in> new. ?base \<le> num a \<and> num a < ?base + card new \<and> name_number (nm a) (num a)"
    "\<forall>a x. a \<notin> new \<longrightarrow> heap m a = Some x \<longrightarrow> nm a = name x"
    using s2(2) unfolding all by (cases s2) (auto simp: naming_def)
  have "set_instr_name f m = Inr ((rename nm m)\<lparr>seq_cnt := (seq_cnt m)(f := ?base + card new)\<rparr>)"
    using s1(1) s2(1) nm1 s2'(1) by (simp add: set_instr_name_def)
  then show ?thesis using s2'(2-4) by blast
qed

section \<open>Properties\<close>

text \<open>
  C26. The text of a finite floating-point constant is \<^verbatim>\<open>0x\<close> and the hexadecimal digits of the
  \<^verbatim>\<open>double\<close> with the same sign and exactly the same magnitude, denormal numbers included.
\<close>

theorem print_fp_exact:
  assumes "unat x div 2 ^ 23 mod 2 ^ 8 \<noteq> 255"
  shows "\<exists>h w. print_fp x = ''0x'' @ h \<and> hex_value h = unat (w :: 64 word) \<and>
    double_magnitude w = float_magnitude x * 2 ^ 925 \<and> unat w div 2 ^ 63 = unat x div 2 ^ 31"
  unfolding print_fp_def
  using double_bits_exact [OF assms] hex_value_hex by blast

theorem print_fp_exact_witness:
  "\<exists>h w. print_fp 0x3F800000 = ''0x'' @ h \<and> hex_value h = unat (w :: 64 word) \<and>
    double_magnitude w = float_magnitude 0x3F800000 * 2 ^ 925"
proof -
  have "unat (0x3F800000 :: f32) div 2 ^ 23 mod 2 ^ 8 \<noteq> 255" by simp
  from print_fp_exact [OF this] show ?thesis by blast
qed

text \<open>
  C27. \<^verbatim>\<open>set_instr_name\<close> on a function whose arguments, blocks and instructions exist, where the values
  that are named already (the block \<^verbatim>\<open>label_entry\<close> that the builder makes, or the values of an earlier
  call) have different names, none with a number from the counter on. Then all arguments, blocks
  and instructions with a result have pairwise different names that are not empty, the old names
  stay, nothing else changes, the counter moves on by the number of names given, and the function
  is again as the next call needs it.
\<close>

theorem set_instr_name_distinct:
  assumes "named_ok m f"
  shows "\<exists>m'. set_instr_name f m = Inr m' \<and> named_ok m' f \<and>
    inj_on (\<lambda>a. name (the (heap m' a))) (set (named_values m f)) \<and>
    (\<forall>a \<in> set (named_values m f). name (the (heap m' a)) \<noteq> []) \<and>
    (\<forall>a. a \<notin> nameless m (set (named_values m f)) \<longrightarrow> heap m' a = heap m a) \<and>
    seq_cnt m' f = seq_cnt m f + card (nameless m (set (named_values m f)))"
proof -
  let ?V = "set (named_values m f)"
  let ?new = "nameless m ?V"
  obtain nm num where nm: "set_instr_name f m = Inr ((rename nm m)\<lparr>seq_cnt := (seq_cnt m)(f := seq_cnt m f + card ?new)\<rparr>)"
    "inj_on num ?new" "\<forall>a \<in> ?new. seq_cnt m f \<le> num a \<and> num a < seq_cnt m f + card ?new \<and> name_number (nm a) (num a)"
    "\<forall>a x. a \<notin> ?new \<longrightarrow> heap m a = Some x \<longrightarrow> nm a = name x"
    using set_instr_name_spec [OF assms] by blast
  let ?m = "(rename nm m)\<lparr>seq_cnt := (seq_cnt m)(f := seq_cnt m f + card ?new)\<rparr>"
  have alive: "heap m a \<noteq> None" if "a \<in> ?V" for a using assms that by (simp add: named_ok_def)
  have name: "name (the (heap ?m a)) = nm a" if "a \<in> ?V" for a using alive [OF that] by auto
  have old: "nm a = name (the (heap m a))" "nm a \<noteq> []" if "a \<in> ?V" "a \<notin> ?new" for a
    using nm(4) alive [OF that(1)] that by (auto simp: nameless_def)
  have named: "nm a \<noteq> []" if "a \<in> ?V" for a
    using nm(3) old(2) [OF that] by (cases "a \<in> ?new") (auto simp: name_number_def prefixes_def)
  have bound: "\<not> name_number (nm a) k" if "a \<in> ?V" "a \<notin> ?new" "seq_cnt m f \<le> k" for a k
    using assms that old(1) [OF that(1,2)] by (simp add: named_ok_def)
  have inj: "inj_on nm ?V"
  proof (rule inj_onI)
    fix a b
    assume ab: "a \<in> ?V" "b \<in> ?V" "nm a = nm b"
    consider "a \<in> ?new" "b \<in> ?new" | "a \<in> ?V - ?new" "b \<in> ?V - ?new" | "a \<in> ?new" "b \<notin> ?new" | "a \<notin> ?new" "b \<in> ?new"
      using ab by blast
    then show "a = b"
    proof cases
      case 1
      then have "num a = num b" using nm(3) ab(3) name_number_unique by metis
      then show ?thesis using nm(2) 1 by (simp add: inj_on_def)
    next
      case 2
      then have "name (the (heap m a)) = name (the (heap m b))" using old(1) ab(3) by auto
      then show ?thesis using assms 2 by (auto simp: named_ok_def inj_on_def)
    next
      case 3
      then show ?thesis using nm(3) bound [OF ab(2) 3(2)] ab(3) by fastforce
    next
      case 4
      then show ?thesis using nm(3) bound [OF ab(1) 4(1)] ab(3) by fastforce
    qed
  qed
  have "is_void (the (heap ?m i)) = is_void (the (heap m i))"
    if "b \<in> set (block_list m f)" "i \<in> set (instr_list m b)" for b i
    using assms that by (cases "heap m i") (auto simp: named_ok_def is_void_def)
  then have same: "named_values ?m f = named_values m f"
    unfolding named_values_def by (simp cong: map_cong filter_cong)
  have "named_ok ?m f"
    unfolding named_ok_def same
  proof (intro conjI ballI allI impI)
    show "heap ?m a \<noteq> None" if "a \<in> ?V" for a using alive [OF that] by simp
    show "heap ?m i \<noteq> None" if "b \<in> set (block_list ?m f)" "i \<in> set (instr_list ?m b)" for b i
      using assms that by (auto simp: named_ok_def)
    show "inj_on (\<lambda>a. name (the (heap ?m a))) (?V - nameless ?m ?V)"
      using inj name by (simp add: inj_on_def)
    show "\<not> name_number (name (the (heap ?m a))) k" if a: "a \<in> ?V" and k: "seq_cnt ?m f \<le> k" for a k
    proof (cases "a \<in> ?new")
      case True
      then have "num a < k" "name_number (nm a) (num a)" using nm(3) k by fastforce+
      then have "\<not> name_number (nm a) k" using name_number_unique by blast
      then show ?thesis unfolding name [OF a] .
    next
      case False
      have "seq_cnt m f \<le> k" using k by simp
      then show ?thesis unfolding name [OF a] by (rule bound [OF a False])
    qed
  qed
  moreover have "heap ?m a = heap m a" if "a \<notin> ?new" for a using nm(4) that by (cases "heap m a") auto
  moreover have "inj_on (\<lambda>a. name (the (heap ?m a))) ?V" using inj name by (simp add: inj_on_def)
  ultimately show ?thesis using nm(1) named name by (intro exI [of _ ?m]) simp
qed

end
