(* ===== verification/Scope.thy ===== *)
theory Scope
  imports Ir_Values
begin

text \<open>
  \<^verbatim>\<open>Scope\<close> of \<^verbatim>\<open>cminusf_builder.hpp\<close>: a stack of maps from names to values. The innermost
  scope, the back of the vector, is the head of the list.
\<close>

section \<open>Operations\<close>

type_synonym scope = "(string \<rightharpoonup> addr) list"

definition scope_enter :: "scope \<Rightarrow> scope" where
  "scope_enter sc = Map.empty # sc"

text \<open>\<^verbatim>\<open>pop_back\<close> and \<^verbatim>\<open>operator[]\<close> on an empty vector are undefined.\<close>

definition scope_exit :: "scope \<Rightarrow> scope result" where
  "scope_exit sc = (case sc of [] \<Rightarrow> Inl UndefinedBehaviour | _ # sc \<Rightarrow> Inr sc)"

definition in_global :: "scope \<Rightarrow> bool" where
  "in_global sc \<longleftrightarrow> length sc = 1"

text \<open>\<^verbatim>\<open>insert\<close> does not overwrite; the result says whether the name is new.\<close>

definition scope_push :: "string \<Rightarrow> addr \<Rightarrow> scope \<Rightarrow> (bool \<times> scope) result" where
  "scope_push nm v sc = (case sc of
       [] \<Rightarrow> Inl UndefinedBehaviour
     | m # sc \<Rightarrow> Inr (case m nm of None \<Rightarrow> (True, m(nm \<mapsto> v) # sc) | Some _ \<Rightarrow> (False, m # sc)))"

fun scope_find :: "string \<Rightarrow> scope \<Rightarrow> addr option" where
  "scope_find nm [] = None"
| "scope_find nm (m # sc) = (case m nm of Some v \<Rightarrow> Some v | None \<Rightarrow> scope_find nm sc)"

section \<open>The contract of nested scopes\<close>

text \<open>\<open>declared\<close>: the name is bound in the innermost scope.\<close>

locale nested_scopes =
  fixes enter :: "'s \<Rightarrow> 's"
    and exit :: "'s \<Rightarrow> 's result"
    and push :: "'k \<Rightarrow> 'v \<Rightarrow> 's \<Rightarrow> (bool \<times> 's) result"
    and find :: "'k \<Rightarrow> 's \<Rightarrow> 'v option"
    and declared :: "'k \<Rightarrow> 's \<Rightarrow> bool"
    and opened :: "'s \<Rightarrow> bool"
  assumes exit_enter: "exit (enter s) = Inr s"
    and find_enter: "find k (enter s) = find k s"
    and fresh_enter: "\<not> declared k (enter s)" "opened (enter s)"
    and push_total: "opened s \<Longrightarrow> \<exists>r s'. push k v s = Inr (r, s') \<and> opened s'"
    and push_exit: "push k v s = Inr (r, s') \<Longrightarrow> exit s' = exit s"
    and push_new: "push k v s = Inr (r, s') \<Longrightarrow> r = (\<not> declared k s)"
    and push_declared: "push k v s = Inr (r, s') \<Longrightarrow> declared j s' = (j = k \<or> declared j s)"
    and push_find: "push k v s = Inr (r, s') \<Longrightarrow> find j s' = (if j = k \<and> \<not> declared k s then Some v else find j s)"
begin

fun pushes :: "('k \<times> 'v) list \<Rightarrow> 's \<Rightarrow> 's result" where
  "pushes [] s = Inr s"
| "pushes ((k, v) # kvs) s = rbind (push k v s) (\<lambda>(_, s). pushes kvs s)"

lemma pushes_total: "opened s \<Longrightarrow> \<exists>s'. pushes kvs s = Inr s' \<and> opened s'"
proof (induction kvs arbitrary: s)
  case (Cons kv kvs)
  obtain k v where kv: "kv = (k, v)" by (cases kv)
  obtain r s1 where "push k v s = Inr (r, s1)" "opened s1" using push_total [OF Cons.prems] by blast
  then show ?case using Cons.IH [of s1] kv by simp
qed simp

lemma pushes_exit: "pushes kvs s = Inr s' \<Longrightarrow> exit s' = exit s"
  by (induction kvs s rule: pushes.induct) (auto simp: rbind_eq_Inr dest: push_exit)

text \<open>The first binding of a name in a scope wins, and the others see the outer scopes.\<close>

lemma pushes_find:
  "pushes kvs s = Inr s' \<Longrightarrow>
     find j s' = (if declared j s then find j s else case map_of kvs j of Some v \<Rightarrow> Some v | None \<Rightarrow> find j s)"
proof (induction kvs s rule: pushes.induct)
  case (2 k v kvs s)
  obtain r s1 where s1: "push k v s = Inr (r, s1)" "pushes kvs s1 = Inr s'"
    using "2.prems" by (auto simp: rbind_eq_Inr)
  show ?case using "2.IH" [OF s1(1) refl s1(2)] push_declared [OF s1(1)] push_find [OF s1(1)]
    by (auto split: option.splits)
qed simp

text \<open>A block that enters, declares and exits leaves every name with its meaning.\<close>

lemma block_restores:
  "\<exists>s1. pushes kvs (enter s) = Inr s1 \<and> exit s1 = Inr s \<and>
     find j s1 = (case map_of kvs j of Some v \<Rightarrow> Some v | None \<Rightarrow> find j s)"
proof -
  obtain s1 where s1: "pushes kvs (enter s) = Inr s1" using pushes_total [OF fresh_enter(2)] by blast
  then show ?thesis using pushes_exit [OF s1] pushes_find [OF s1, of j] by (simp add: exit_enter fresh_enter find_enter split: option.splits)
qed

end

interpretation scopes: nested_scopes scope_enter scope_exit scope_push scope_find
  "\<lambda>k sc. sc \<noteq> [] \<and> hd sc k \<noteq> None" "\<lambda>sc. sc \<noteq> []"
  by unfold_locales (auto simp: scope_enter_def scope_exit_def scope_push_def split: list.splits option.splits)

end
