(* ===== verification/Ir_Constants.thy ===== *)
theory Ir_Constants
  imports Ir_Steps
begin

text \<open>
  The caches of \<^verbatim>\<open>Constant.cpp\<close>: integers, booleans, floating-point numbers and zero
  initialisers are made once per module.
\<close>

section \<open>Operations\<close>

text \<open>
  A key of \<^verbatim>\<open>cached_float\<close> is found by \<^verbatim>\<open>==\<close> on \<^verbatim>\<open>float\<close>: no NaN is found, and the two zeros
  are the same key.
\<close>

definition f32_eq :: "f32 \<Rightarrow> f32 \<Rightarrow> bool" where
  "f32_eq x y \<longleftrightarrow>
     (let nan = (\<lambda>w :: f32. unat w div 2 ^ 23 mod 2 ^ 8 = 255 \<and> unat w mod 2 ^ 23 \<noteq> 0);
          zero = (\<lambda>w :: f32. unat w mod 2 ^ 31 = 0) in
      \<not> nan x \<and> \<not> nan y \<and> (x = y \<or> zero x \<and> zero y))"

record const_cache =
  cached_int :: "i32 \<rightharpoonup> addr"
  cached_bool :: "bool \<rightharpoonup> addr"
  cached_float :: "(f32 \<times> addr) list"
  cached_zero :: "ty \<rightharpoonup> addr"

definition const_cache_init :: const_cache where
  "const_cache_init = \<lparr>cached_int = Map.empty, cached_bool = Map.empty, cached_float = [], cached_zero = Map.empty\<rparr>"

definition new_constant :: "ty \<Rightarrow> value_kind \<Rightarrow> ir \<Rightarrow> addr \<times> ir" where
  "new_constant t k m = alloc (new_val t [] k 0 None) m"

definition ConstantInt_get :: "i32 \<Rightarrow> ir \<times> const_cache \<Rightarrow> addr \<times> ir \<times> const_cache" where
  "ConstantInt_get k = (\<lambda>(m, c). case cached_int c k of
       Some a \<Rightarrow> (a, m, c)
     | None \<Rightarrow> (case new_constant (IntegerTy 32) (ConstantIntV k) m of
         (a, m) \<Rightarrow> (a, m, c\<lparr>cached_int := (cached_int c)(k \<mapsto> a)\<rparr>)))"

definition ConstantBool_get :: "bool \<Rightarrow> ir \<times> const_cache \<Rightarrow> addr \<times> ir \<times> const_cache" where
  "ConstantBool_get b = (\<lambda>(m, c). case cached_bool c b of
       Some a \<Rightarrow> (a, m, c)
     | None \<Rightarrow> (case new_constant (IntegerTy 1) (ConstantIntV (if b then 1 else 0)) m of
         (a, m) \<Rightarrow> (a, m, c\<lparr>cached_bool := (cached_bool c)(b \<mapsto> a)\<rparr>)))"

definition ConstantFP_get :: "f32 \<Rightarrow> ir \<times> const_cache \<Rightarrow> addr \<times> ir \<times> const_cache" where
  "ConstantFP_get x = (\<lambda>(m, c). case List.find (\<lambda>ka. f32_eq (fst ka) x) (cached_float c) of
       Some (_, a) \<Rightarrow> (a, m, c)
     | None \<Rightarrow> (case new_constant FloatTy (ConstantFPV x) m of
         (a, m) \<Rightarrow> (a, m, c\<lparr>cached_float := cached_float c @ [(x, a)]\<rparr>)))"

definition ConstantZero_get :: "ty \<Rightarrow> ir \<times> const_cache \<Rightarrow> addr \<times> ir \<times> const_cache" where
  "ConstantZero_get t = (\<lambda>(m, c). case cached_zero c t of
       Some a \<Rightarrow> (a, m, c)
     | None \<Rightarrow> (case new_constant t ConstantZeroV m of
         (a, m) \<Rightarrow> (a, m, c\<lparr>cached_zero := (cached_zero c)(t \<mapsto> a)\<rparr>)))"

definition ConstantArray_get :: "ty \<Rightarrow> addr list \<Rightarrow> ir \<Rightarrow> (addr \<times> ir) result" where
  "ConstantArray_get t vals m =
     (let (a, m) = alloc (new_val t [] (ConstantArrayV vals) (length vals) None) m in
      rbind (set_operands a 0 vals m) (\<lambda>m. Inr (a, m)))"

section \<open>The caches are tables\<close>

definition is_const_at :: "ir \<Rightarrow> ty \<Rightarrow> value_kind \<Rightarrow> addr \<Rightarrow> bool" where
  "is_const_at m t k a \<longleftrightarrow> (\<exists>x. heap m a = Some x \<and> vtype x = t \<and> kind x = k)"

text \<open>Every cached address is that of the constant for its key.\<close>

definition cache_ok :: "ir \<times> const_cache \<Rightarrow> bool" where
  "cache_ok s \<longleftrightarrow> (\<forall>a. heap (fst s) a \<noteq> None \<longrightarrow> a < next_addr (fst s)) \<and>
     (\<forall>k a. cached_int (snd s) k = Some a \<longrightarrow> is_const_at (fst s) (IntegerTy 32) (ConstantIntV k) a) \<and>
     (\<forall>b a. cached_bool (snd s) b = Some a \<longrightarrow> is_const_at (fst s) (IntegerTy 1) (ConstantIntV (if b then 1 else 0)) a) \<and>
     (\<forall>y a. (y, a) \<in> set (cached_float (snd s)) \<longrightarrow> is_const_at (fst s) FloatTy (ConstantFPV y) a) \<and>
     (\<forall>t a. cached_zero (snd s) t = Some a \<longrightarrow> is_const_at (fst s) t ConstantZeroV a)"

lemma cache_okD:
  assumes "cache_ok s"
  shows "heap (fst s) a \<noteq> None \<Longrightarrow> a < next_addr (fst s)"
    "cached_int (snd s) k = Some a \<Longrightarrow> is_const_at (fst s) (IntegerTy 32) (ConstantIntV k) a"
    "cached_bool (snd s) b = Some a \<Longrightarrow> is_const_at (fst s) (IntegerTy 1) (ConstantIntV (if b then 1 else 0)) a"
    "(y, a) \<in> set (cached_float (snd s)) \<Longrightarrow> is_const_at (fst s) FloatTy (ConstantFPV y) a"
    "cached_zero (snd s) t = Some a \<Longrightarrow> is_const_at (fst s) t ConstantZeroV a"
  using assms unfolding cache_ok_def by blast+

lemma new_constant_spec:
  assumes ok: "cache_ok (m, c)" and new: "new_constant t k m = (a, m')"
  shows "heap m' = (heap m)(a \<mapsto> new_val t [] k 0 None)" "heap m a = None" "cache_ok (m', c)"
    "is_const_at m' t k a" "is_const_at m t' k' b \<Longrightarrow> is_const_at m' t' k' b"
proof -
  have a: "a = next_addr m" "next_addr m' = Suc a" and h: "heap m' = (heap m)(a \<mapsto> new_val t [] k 0 None)"
    using new by (auto simp: new_constant_def alloc_def)
  show "heap m' = (heap m)(a \<mapsto> new_val t [] k 0 None)" by (rule h)
  show fresh: "heap m a = None" using cache_okD(1) [OF ok, of a] a(1) by (cases "heap m a") auto
  show "is_const_at m' t k a" by (simp add: is_const_at_def h new_val_def)
  have keep: "is_const_at m' t' k' b" if "is_const_at m t' k' b" for t' k' b
    using that fresh by (auto simp: is_const_at_def h)
  then show "is_const_at m t' k' b \<Longrightarrow> is_const_at m' t' k' b" .
  have "b < next_addr m'" if "heap m' b \<noteq> None" for b
    using that cache_okD(1) [OF ok, of b] a h by (cases "b = a") auto
  then show "cache_ok (m', c)"
    using cache_okD(2-5) [OF ok] keep unfolding cache_ok_def by simp
qed

text \<open>A constant is its type and kind; the objects of a cache are the constants it points to.\<close>

definition cached_at :: "addr set \<Rightarrow> ir \<Rightarrow> addr \<Rightarrow> (ty \<times> value_kind) option" where
  "cached_at A m a = (if a \<in> A then map_option (\<lambda>x. (vtype x, kind x)) (heap m a) else None)"

lemma cached_at_Some: "cached_at A m a = Some (t, k) \<longleftrightarrow> a \<in> A \<and> is_const_at m t k a"
  by (auto simp: cached_at_def is_const_at_def)

lemma cached_at_keeps:
  assumes "cache_ok (m, c)" "new_constant t k m = (b, m')" "cached_at A m a = Some x" "A \<subseteq> B"
  shows "cached_at B m' a = Some x"
  using assms(3,4) new_constant_spec(5) [OF assms(1,2)] by (cases x) (auto simp: cached_at_Some)

interpretation ints: intern_table "\<lambda>k s. Inr (ConstantInt_get k s)"
  "\<lambda>s. cached_at (ran (cached_int (snd s))) (fst s)" "\<lambda>k. (IntegerTy 32, ConstantIntV k)" cache_ok "\<lambda>_ _. True"
proof unfold_locales
  fix s :: "ir \<times> const_cache" and k
  assume ok: "cache_ok s"
  obtain m c where s: "s = (m, c)" by (cases s)
  show "\<exists>p s'. Inr (ConstantInt_get k s) = (Inr (p, s') :: _ result) \<and> cache_ok s' \<and>
      cached_at (ran (cached_int (snd s'))) (fst s') p = Some (IntegerTy 32, ConstantIntV k)"
  proof (cases "cached_int c k")
    case None
    obtain a m' where new: "new_constant (IntegerTy 32) (ConstantIntV k) m = (a, m')" by fastforce
    note n = new_constant_spec [OF ok [unfolded s] new]
    have "cache_ok (m', c\<lparr>cached_int := (cached_int c)(k \<mapsto> a)\<rparr>)"
      using n(3,4) unfolding cache_ok_def by simp
    then show ?thesis using None new n(4) s by (auto simp: ConstantInt_get_def cached_at_Some)
  next
    case (Some a)
    then show ?thesis using ok s cache_okD(2) [OF ok, of k a]
      by (auto simp: ConstantInt_get_def cached_at_Some intro: ranI)
  qed
next
  fix s s' :: "ir \<times> const_cache" and k p q x
  assume ok: "cache_ok s" and get: "Inr (ConstantInt_get k s) = (Inr (p, s') :: _ result)"
    and q: "cached_at (ran (cached_int (snd s))) (fst s) q = Some x"
  obtain m c where s: "s = (m, c)" by (cases s)
  show "cached_at (ran (cached_int (snd s'))) (fst s') q = Some x"
  proof (cases "cached_int c k")
    case None
    obtain a m' where new: "new_constant (IntegerTy 32) (ConstantIntV k) m = (a, m')" by fastforce
    have "ran (cached_int c) \<subseteq> ran ((cached_int c)(k \<mapsto> a))" using None by auto
    moreover have "cached_at (ran (cached_int c)) m q = Some x" using q s by simp
    ultimately have "cached_at (ran ((cached_int c)(k \<mapsto> a))) m' q = Some x"
      using cached_at_keeps [OF ok [unfolded s] new] by blast
    then show ?thesis using get None new s by (auto simp: ConstantInt_get_def)
  qed (use get q s in \<open>simp add: ConstantInt_get_def\<close>)
next
  fix s :: "ir \<times> const_cache" and p k
  assume ok: "cache_ok s" and "cached_at (ran (cached_int (snd s))) (fst s) p = Some (IntegerTy 32, ConstantIntV k)"
  then obtain j where "cached_int (snd s) j = Some p" "is_const_at (fst s) (IntegerTy 32) (ConstantIntV k) p"
    by (auto simp: cached_at_Some ran_def)
  moreover from this have "j = k" using cache_okD(2) [OF ok, of j p] by (auto simp: is_const_at_def)
  ultimately show "Inr (ConstantInt_get k s) = Inr (p, s)" by (cases s) (simp add: ConstantInt_get_def)
qed

interpretation zeros: intern_table "\<lambda>t s. Inr (ConstantZero_get t s)"
  "\<lambda>s. cached_at (ran (cached_zero (snd s))) (fst s)" "\<lambda>t. (t, ConstantZeroV)" cache_ok "\<lambda>_ _. True"
proof unfold_locales
  fix s :: "ir \<times> const_cache" and t
  assume ok: "cache_ok s"
  obtain m c where s: "s = (m, c)" by (cases s)
  show "\<exists>p s'. Inr (ConstantZero_get t s) = (Inr (p, s') :: _ result) \<and> cache_ok s' \<and>
      cached_at (ran (cached_zero (snd s'))) (fst s') p = Some (t, ConstantZeroV)"
  proof (cases "cached_zero c t")
    case None
    obtain a m' where new: "new_constant t ConstantZeroV m = (a, m')" by fastforce
    note n = new_constant_spec [OF ok [unfolded s] new]
    have "cache_ok (m', c\<lparr>cached_zero := (cached_zero c)(t \<mapsto> a)\<rparr>)"
      using n(3,4) unfolding cache_ok_def by simp
    then show ?thesis using None new n(4) s by (auto simp: ConstantZero_get_def cached_at_Some)
  next
    case (Some a)
    then show ?thesis using ok s cache_okD(5) [OF ok, of t a]
      by (auto simp: ConstantZero_get_def cached_at_Some intro: ranI)
  qed
next
  fix s s' :: "ir \<times> const_cache" and t p q x
  assume ok: "cache_ok s" and get: "Inr (ConstantZero_get t s) = (Inr (p, s') :: _ result)"
    and q: "cached_at (ran (cached_zero (snd s))) (fst s) q = Some x"
  obtain m c where s: "s = (m, c)" by (cases s)
  show "cached_at (ran (cached_zero (snd s'))) (fst s') q = Some x"
  proof (cases "cached_zero c t")
    case None
    obtain a m' where new: "new_constant t ConstantZeroV m = (a, m')" by fastforce
    have "ran (cached_zero c) \<subseteq> ran ((cached_zero c)(t \<mapsto> a))" using None by auto
    moreover have "cached_at (ran (cached_zero c)) m q = Some x" using q s by simp
    ultimately have "cached_at (ran ((cached_zero c)(t \<mapsto> a))) m' q = Some x"
      using cached_at_keeps [OF ok [unfolded s] new] by blast
    then show ?thesis using get None new s by (auto simp: ConstantZero_get_def)
  qed (use get q s in \<open>simp add: ConstantZero_get_def\<close>)
next
  fix s :: "ir \<times> const_cache" and p t
  assume ok: "cache_ok s" and "cached_at (ran (cached_zero (snd s))) (fst s) p = Some (t, ConstantZeroV)"
  then obtain j where "cached_zero (snd s) j = Some p" "is_const_at (fst s) t ConstantZeroV p"
    by (auto simp: cached_at_Some ran_def)
  moreover from this have "j = t" using cache_okD(5) [OF ok, of j p] by (auto simp: is_const_at_def)
  ultimately show "Inr (ConstantZero_get t s) = Inr (p, s)" by (cases s) (simp add: ConstantZero_get_def)
qed

text \<open>
  The constant \<^verbatim>\<open>ConstantFP::get\<close> returns is equal to the number as a \<^verbatim>\<open>float\<close>, or is the number
  itself: for \<open>- 0\<close> it may be \<open>+ 0\<close>.
\<close>

lemma ConstantFP_get_spec:
  assumes ok: "cache_ok (m, c)" and get: "ConstantFP_get x (m, c) = (a, m', c')"
  shows "cache_ok (m', c') \<and> (\<exists>y. is_const_at m' FloatTy (ConstantFPV y) a \<and> (y = x \<or> f32_eq y x))"
proof (cases "List.find (\<lambda>ka. f32_eq (fst ka) x) (cached_float c)")
  case None
  obtain b m1 where new: "new_constant FloatTy (ConstantFPV x) m = (b, m1)" by fastforce
  note n = new_constant_spec [OF ok new]
  have "cache_ok (m1, c\<lparr>cached_float := cached_float c @ [(x, b)]\<rparr>)"
    using n(3,4) unfolding cache_ok_def by auto
  then show ?thesis using None get new n(4) by (auto simp: ConstantFP_get_def)
next
  case (Some ya)
  obtain y b where "ya = (y, b)" by (cases ya)
  then have "(y, b) \<in> set (cached_float c)" "f32_eq y x" using find_Some_mem [OF Some] by auto
  then show ?thesis using cache_okD(4) [OF ok, of y b] ok Some get \<open>ya = (y, b)\<close> by (auto simp: ConstantFP_get_def)
qed

end
