(* ===== verification/Builder.thy ===== *)
theory Builder
  imports Scope Ir_Constants Ast
begin

text \<open>
  \<^verbatim>\<open>CminusfBuilder\<close> of \<^verbatim>\<open>cminusf_builder.cpp\<close> and the \<^verbatim>\<open>IRBuilder\<close> it inserts instructions with:
  the visitor that turns a program into a module. Each \<^verbatim>\<open>visit\<close> is a function on the state of
  the visitor; its value is left in \<open>tmp_val\<close>, as in the code. The messages on the standard
  output are left out.
\<close>

section \<open>State\<close>

record builder =
  module :: ir
  cached :: const_cache
  scope :: scope
  insert_block :: "addr option"
  tmp_val :: "addr option"
  require_lvalue :: bool
  pre_enter_scope :: bool
  cur_fun :: "addr option"

definition get_tmp :: "builder \<Rightarrow> addr result" where
  "get_tmp s = (case tmp_val s of None \<Rightarrow> Inl NullDeref | Some a \<Rightarrow> Inr a)"

definition set_tmp :: "addr \<Rightarrow> builder \<Rightarrow> builder" where
  "set_tmp a s = s\<lparr>tmp_val := Some a\<rparr>"

definition type_of :: "addr \<Rightarrow> builder \<Rightarrow> ty result" where
  "type_of a s = rbind (get_val a (module s)) (\<lambda>x. Inr (vtype x))"

definition pointee :: "addr \<Rightarrow> builder \<Rightarrow> ty result" where
  "pointee a s = rbind (type_of a s) (\<lambda>t. case get_pointer_element_type t of None \<Rightarrow> Inl NullDeref | Some e \<Rightarrow> Inr e)"

section \<open>IRBuilder\<close>

definition set_insert_point :: "addr \<Rightarrow> builder \<Rightarrow> builder" where
  "set_insert_point b s = s\<lparr>insert_block := Some b\<rparr>"

text \<open>An instruction is appended to the current block.\<close>

definition emit :: "(addr \<Rightarrow> ir \<Rightarrow> (addr \<times> ir) result) \<Rightarrow> builder \<Rightarrow> (addr \<times> builder) result" where
  "emit f s = (case insert_block s of
       None \<Rightarrow> Inl NullDeref
     | Some b \<Rightarrow> rbind (f b (module s)) (\<lambda>(i, m). Inr (i, s\<lparr>module := m\<rparr>)))"

definition b_ibinary :: "OpID \<Rightarrow> addr \<Rightarrow> addr \<Rightarrow> builder \<Rightarrow> (addr \<times> builder) result" where
  "b_ibinary op l r = emit (create_binary op l r)"

definition b_fbinary :: "OpID \<Rightarrow> addr \<Rightarrow> addr \<Rightarrow> builder \<Rightarrow> (addr \<times> builder) result" where
  "b_fbinary op l r = emit (create_binary op l r)"

definition b_icmp :: "CmpOp \<Rightarrow> addr \<Rightarrow> addr \<Rightarrow> builder \<Rightarrow> (addr \<times> builder) result" where
  "b_icmp c l r = emit (create_icmp c l r)"

definition b_fcmp :: "CmpOp \<Rightarrow> addr \<Rightarrow> addr \<Rightarrow> builder \<Rightarrow> (addr \<times> builder) result" where
  "b_fcmp c l r = emit (create_fcmp c l r)"

definition b_call :: "addr option \<Rightarrow> addr list \<Rightarrow> builder \<Rightarrow> (addr \<times> builder) result" where
  "b_call f args s = (case f of
       None \<Rightarrow> Inl AssertFailed
     | Some f \<Rightarrow> rbind (get_val f (module s)) (\<lambda>x.
         if kind x \<noteq> FunctionV then Inl AssertFailed else emit (create_call f args) s))"

definition b_br :: "addr \<Rightarrow> builder \<Rightarrow> (addr \<times> builder) result" where
  "b_br t = emit (create_br t)"

definition b_cond_br :: "addr \<Rightarrow> addr \<Rightarrow> addr \<Rightarrow> builder \<Rightarrow> (addr \<times> builder) result" where
  "b_cond_br c t f = emit (create_cond_br c t f)"

definition b_ret :: "addr \<Rightarrow> builder \<Rightarrow> (addr \<times> builder) result" where
  "b_ret v = emit (create_ret v)"

definition b_void_ret :: "builder \<Rightarrow> (addr \<times> builder) result" where
  "b_void_ret = emit create_void_ret"

definition b_gep :: "addr \<Rightarrow> addr list \<Rightarrow> builder \<Rightarrow> (addr \<times> builder) result" where
  "b_gep p idxs = emit (create_gep p idxs)"

definition b_store :: "addr \<Rightarrow> addr \<Rightarrow> builder \<Rightarrow> (addr \<times> builder) result" where
  "b_store v p = emit (create_store v p)"

definition b_load :: "addr \<Rightarrow> builder \<Rightarrow> (addr \<times> builder) result" where
  "b_load p s = rbind (type_of p s) (\<lambda>t. case get_pointer_element_type t of
       None \<Rightarrow> Inl AssertFailed
     | Some e \<Rightarrow> emit (create_load e p) s)"

definition b_alloca :: "ty \<Rightarrow> builder \<Rightarrow> (addr \<times> builder) result" where
  "b_alloca t = emit (create_alloca t)"

definition b_zext :: "addr \<Rightarrow> ty \<Rightarrow> builder \<Rightarrow> (addr \<times> builder) result" where
  "b_zext v t = emit (create_zext v t)"

definition b_sitofp :: "addr \<Rightarrow> ty \<Rightarrow> builder \<Rightarrow> (addr \<times> builder) result" where
  "b_sitofp v t = emit (create_sitofp v t)"

definition b_fptosi :: "addr \<Rightarrow> ty \<Rightarrow> builder \<Rightarrow> (addr \<times> builder) result" where
  "b_fptosi v t = emit (create_fptosi v t)"

section \<open>Constants, blocks and the current function\<close>

abbreviation INT1_T :: ty where "INT1_T \<equiv> IntegerTy 1"
abbreviation INT32_T :: ty where "INT32_T \<equiv> IntegerTy 32"
abbreviation FLOAT_T :: ty where "FLOAT_T \<equiv> FloatTy"

definition CONST_INT :: "i32 \<Rightarrow> builder \<Rightarrow> addr \<times> builder" where
  "CONST_INT k s = (case ConstantInt_get k (module s, cached s) of
     (a, m, c) \<Rightarrow> (a, s\<lparr>module := m, cached := c\<rparr>))"

definition CONST_FP :: "f32 \<Rightarrow> builder \<Rightarrow> addr \<times> builder" where
  "CONST_FP x s = (case ConstantFP_get x (module s, cached s) of
     (a, m, c) \<Rightarrow> (a, s\<lparr>module := m, cached := c\<rparr>))"

definition zero_initializer :: "ty \<Rightarrow> builder \<Rightarrow> addr \<times> builder" where
  "zero_initializer t s = (case ConstantZero_get t (module s, cached s) of
     (a, m, c) \<Rightarrow> (a, s\<lparr>module := m, cached := c\<rparr>))"

definition new_block :: "string \<Rightarrow> builder \<Rightarrow> (addr \<times> builder) result" where
  "new_block nm s = rbind (create_basic_block nm (cur_fun s) (module s)) (\<lambda>(b, m). Inr (b, s\<lparr>module := m\<rparr>))"

definition terminated :: "builder \<Rightarrow> bool result" where
  "terminated s = (case insert_block s of
       None \<Rightarrow> Inl NullDeref
     | Some b \<Rightarrow> rbind (get_terminator b (module s)) (\<lambda>t. Inr (t \<noteq> None)))"

definition fun_return_type :: "builder \<Rightarrow> ty result" where
  "fun_return_type s = (case cur_fun s of
       None \<Rightarrow> Inl NullDeref
     | Some f \<Rightarrow> rbind (type_of f s) (\<lambda>t. case t of FunctionTy r _ \<Rightarrow> Inr r | _ \<Rightarrow> Inl UndefinedBehaviour))"

definition push_name :: "string \<Rightarrow> addr \<Rightarrow> builder \<Rightarrow> builder result" where
  "push_name nm a s = rbind (scope_push nm a (scope s)) (\<lambda>(_, sc). Inr (s\<lparr>scope := sc\<rparr>))"

definition enter :: "builder \<Rightarrow> builder" where
  "enter s = s\<lparr>scope := scope_enter (scope s)\<rparr>"

definition leave :: "builder \<Rightarrow> builder result" where
  "leave s = rbind (scope_exit (scope s)) (\<lambda>sc. Inr (s\<lparr>scope := sc\<rparr>))"

text \<open>The return of a zero of the function's type, after a negative index and at the end of a body.\<close>

definition return_zero :: "builder \<Rightarrow> builder result" where
  "return_zero s = rbind (fun_return_type s) (\<lambda>t.
     if is_void_type t then rbind (b_void_ret s) (\<lambda>(_, s). Inr s)
     else if is_float_type t then (case CONST_FP 0 s of (c, s) \<Rightarrow> rbind (b_ret c s) (\<lambda>(_, s). Inr s))
     else (case CONST_INT 0 s of (c, s) \<Rightarrow> rbind (b_ret c s) (\<lambda>(_, s). Inr s)))"

text \<open>A branch to \<open>t\<close> unless the block is terminated.\<close>

definition br_unless_terminated :: "addr \<Rightarrow> builder \<Rightarrow> builder result" where
  "br_unless_terminated t s = rbind (terminated s) (\<lambda>d.
     if d then Inr s else rbind (b_br t s) (\<lambda>(_, s). Inr s))"

text \<open>The comparison of a condition with zero.\<close>

definition condition :: "addr \<Rightarrow> builder \<Rightarrow> (addr \<times> builder) result" where
  "condition v s = rbind (type_of v s) (\<lambda>t.
     if is_integer_type t then (case CONST_INT 0 s of (z, s) \<Rightarrow> b_icmp NE v z s)
     else (case CONST_FP 0 s of (z, s) \<Rightarrow> b_fcmp NE v z s))"

text \<open>The operands of an operation, and whether both are integers.\<close>

definition promote :: "addr \<Rightarrow> addr \<Rightarrow> builder \<Rightarrow> (addr \<times> addr \<times> bool \<times> builder) result" where
  "promote l r s = rbind (type_of l s) (\<lambda>tl. rbind (type_of r s) (\<lambda>tr.
     if tl = tr then Inr (l, r, is_integer_type tl, s)
     else if is_integer_type tl then rbind (b_sitofp l FLOAT_T s) (\<lambda>(l, s). Inr (l, r, False, s))
     else rbind (b_sitofp r FLOAT_T s) (\<lambda>(r, s). Inr (l, r, False, s))))"

definition cmp_op_of :: "RelOp \<Rightarrow> CmpOp" where
  "cmp_op_of op = (case op of OP_LT \<Rightarrow> LT | OP_LE \<Rightarrow> LE | OP_GE \<Rightarrow> GE | OP_GT \<Rightarrow> GT | OP_EQ \<Rightarrow> EQ | OP_NEQ \<Rightarrow> NE)"

section \<open>Expressions\<close>

definition build_num :: "f32 ASTNum \<Rightarrow> builder \<Rightarrow> builder" where
  "build_num n s = (case n of
       ASTNumInt k \<Rightarrow> (case CONST_INT k s of (c, s) \<Rightarrow> set_tmp c s)
     | ASTNumFloat x \<Rightarrow> (case CONST_FP x s of (c, s) \<Rightarrow> set_tmp c s))"

text \<open>A variable without an index: its address, or the value there, or the address of the first element.\<close>

definition build_plain_var :: "addr \<Rightarrow> ty \<Rightarrow> bool \<Rightarrow> builder \<Rightarrow> builder result" where
  "build_plain_var var e lvalue s =
     (if lvalue then Inr ((set_tmp var s)\<lparr>require_lvalue := False\<rparr>)
      else if is_integer_type e \<or> is_float_type e \<or> is_pointer_type e
      then rbind (b_load var s) (\<lambda>(v, s). Inr (set_tmp v s))
      else (case CONST_INT 0 s of (z, s) \<Rightarrow> case CONST_INT 0 s of (z', s) \<Rightarrow>
        rbind (b_gep var [z, z'] s) (\<lambda>(p, s). Inr (set_tmp p s))))"

text \<open>The address of the element with the index \<open>v\<close>, which is not negative any more.\<close>

definition element_pointer :: "addr \<Rightarrow> ty \<Rightarrow> addr \<Rightarrow> builder \<Rightarrow> (addr \<times> builder) result" where
  "element_pointer var e v s =
     (if is_integer_type e \<or> is_float_type e then b_gep var [v] s
      else if is_pointer_type e then rbind (b_load var s) (\<lambda>(a, s). b_gep a [v] s)
      else (case CONST_INT 0 s of (z, s) \<Rightarrow> b_gep var [z, v] s))"

text \<open>The check of an index, whose value is in \<open>tmp_val\<close>, and the element.\<close>

definition build_index :: "addr \<Rightarrow> ty \<Rightarrow> bool \<Rightarrow> builder \<Rightarrow> builder result" where
  "build_index var e lvalue s =
     rbind (get_tmp s) (\<lambda>v.
     rbind (new_block [] s) (\<lambda>(exceptBB, s).
     rbind (new_block [] s) (\<lambda>(contBB, s).
     rbind (type_of v s) (\<lambda>t.
     rbind (if is_float_type t then b_fptosi v INT32_T s else Inr (v, s)) (\<lambda>(v, s).
     rbind (case CONST_INT 0 s of (z, s) \<Rightarrow> b_icmp LT v z s) (\<lambda>(is_neg, s).
     rbind (b_cond_br is_neg exceptBB contBB s) (\<lambda>(_, s).
     rbind (b_call (scope_find ''neg_idx_except'' (scope s)) [] (set_insert_point exceptBB s)) (\<lambda>(_, s).
     rbind (return_zero s) (\<lambda>s.
     rbind (element_pointer var e v (set_insert_point contBB s)) (\<lambda>(p, s).
     if lvalue then Inr ((set_tmp p s)\<lparr>require_lvalue := False\<rparr>)
     else rbind (b_load p s) (\<lambda>(x, s). Inr (set_tmp x s))))))))))))"

text \<open>The conversion of an argument; \<open>ps\<close> are the types of the parameters from the current one on.\<close>

definition convert_arg :: "ty list \<Rightarrow> builder \<Rightarrow> builder result" where
  "convert_arg ps s = rbind (get_tmp s) (\<lambda>v. rbind (type_of v s) (\<lambda>t.
     if is_pointer_type t then Inr s
     else case ps of
       [] \<Rightarrow> Inl UndefinedBehaviour
     | p # _ \<Rightarrow>
         if p = t then Inr s
         else if is_integer_type t then rbind (b_sitofp v FLOAT_T s) (\<lambda>(v, s). Inr (set_tmp v s))
         else rbind (b_fptosi v INT32_T s) (\<lambda>(v, s). Inr (set_tmp v s))))"

text \<open>The conversion and the store of an assignment, whose address is in \<open>tmp_val\<close>.\<close>

definition build_assign :: "addr \<Rightarrow> builder \<Rightarrow> builder result" where
  "build_assign v s = rbind (get_tmp s) (\<lambda>a.
     rbind (type_of a s) (\<lambda>ta.
     rbind (type_of v s) (\<lambda>tv.
     rbind (if get_pointer_element_type ta = Some tv then Inr (v, s)
            else if tv = INT32_T then b_sitofp v FLOAT_T s
            else b_fptosi v INT32_T s) (\<lambda>(v, s).
     rbind (b_store v a s) (\<lambda>(_, s). Inr (set_tmp v s))))))"

definition build_compare :: "RelOp \<Rightarrow> addr \<Rightarrow> addr \<Rightarrow> builder \<Rightarrow> builder result" where
  "build_compare op l r s = rbind (promote l r s) (\<lambda>(l, r, is_int, s).
     rbind (if is_int then b_icmp (cmp_op_of op) l r s else b_fcmp (cmp_op_of op) l r s) (\<lambda>(c, s).
     rbind (b_zext c INT32_T s) (\<lambda>(v, s). Inr (set_tmp v s))))"

definition build_addop :: "AddOp \<Rightarrow> addr \<Rightarrow> addr \<Rightarrow> builder \<Rightarrow> builder result" where
  "build_addop op l r s = rbind (promote l r s) (\<lambda>(l, r, is_int, s).
     rbind (case op of
         OP_PLUS \<Rightarrow> if is_int then b_ibinary Add l r s else b_fbinary Fadd l r s
       | OP_MINUS \<Rightarrow> if is_int then b_ibinary Sub l r s else b_fbinary Fsub l r s) (\<lambda>(v, s). Inr (set_tmp v s)))"

definition build_mulop :: "MulOp \<Rightarrow> addr \<Rightarrow> addr \<Rightarrow> builder \<Rightarrow> builder result" where
  "build_mulop op l r s = rbind (promote l r s) (\<lambda>(l, r, is_int, s).
     rbind (case op of
         OP_MUL \<Rightarrow> if is_int then b_ibinary Mul l r s else b_fbinary Fmul l r s
       | OP_DIV \<Rightarrow> if is_int then b_ibinary Sdiv l r s else b_fbinary Fdiv l r s) (\<lambda>(v, s). Inr (set_tmp v s)))"

fun build_expression :: "f32 ASTExpression \<Rightarrow> builder \<Rightarrow> builder result"
  and build_var :: "f32 ASTVar \<Rightarrow> builder \<Rightarrow> builder result"
  and build_additive :: "f32 ASTAdditiveExpression \<Rightarrow> builder \<Rightarrow> builder result"
  and build_term :: "f32 ASTTerm \<Rightarrow> builder \<Rightarrow> builder result"
  and build_factor :: "f32 ASTFactor \<Rightarrow> builder \<Rightarrow> builder result"
where
  "build_expression (ASTAssignExpression v e) s =
     rbind (build_expression e s) (\<lambda>s.
     rbind (get_tmp s) (\<lambda>r.
     rbind (build_var v (s\<lparr>require_lvalue := True\<rparr>)) (\<lambda>s. build_assign r s)))"
| "build_expression (ASTSimpleExpression a None) s = build_additive a s"
| "build_expression (ASTSimpleExpression a (Some (op, b))) s =
     rbind (build_additive a s) (\<lambda>s. rbind (get_tmp s) (\<lambda>l.
     rbind (build_additive b s) (\<lambda>s. rbind (get_tmp s) (\<lambda>r. build_compare op l r s))))"
| "build_var (ASTVar nm i) s =
     (case scope_find nm (scope s) of
        None \<Rightarrow> Inl AssertFailed
      | Some var \<Rightarrow> rbind (pointee var s) (\<lambda>e.
          case i of
            None \<Rightarrow> build_plain_var var e (require_lvalue s) (s\<lparr>require_lvalue := False\<rparr>)
          | Some ix \<Rightarrow> rbind (build_expression ix (s\<lparr>require_lvalue := False\<rparr>)) (\<lambda>s'.
              build_index var e (require_lvalue s) s')))"
| "build_additive (ASTAdditiveExpression None t) s = build_term t s"
| "build_additive (ASTAdditiveExpression (Some (a, op)) t) s =
     rbind (build_additive a s) (\<lambda>s. rbind (get_tmp s) (\<lambda>l.
     rbind (build_term t s) (\<lambda>s. rbind (get_tmp s) (\<lambda>r. build_addop op l r s))))"
| "build_term (ASTTerm None f) s = build_factor f s"
| "build_term (ASTTerm (Some (t, op)) f) s =
     rbind (build_term t s) (\<lambda>s. rbind (get_tmp s) (\<lambda>l.
     rbind (build_factor f s) (\<lambda>s. rbind (get_tmp s) (\<lambda>r. build_mulop op l r s))))"
| "build_factor (FactorExpression e) s = build_expression e s"
| "build_factor (FactorVar v) s = build_var v s"
| "build_factor (FactorCall nm args) s =
     (case scope_find nm (scope s) of
        None \<Rightarrow> Inl NullDeref
      | Some f \<Rightarrow> rbind (type_of f s) (\<lambda>t. case t of
          FunctionTy r ps \<Rightarrow>
            rbind (rfold (\<lambda>e vps. case vps of (vs, ps, s) \<Rightarrow>
                rbind (build_expression e s) (\<lambda>s.
                rbind (convert_arg ps s) (\<lambda>s.
                rbind (get_tmp s) (\<lambda>v. Inr (vs @ [v], tl ps, s))))) args ([], ps, s)) (\<lambda>vps. case vps of (vs, _, s) \<Rightarrow>
            rbind (b_call (Some f) vs s) (\<lambda>(v, s). Inr (set_tmp v s)))
        | _ \<Rightarrow> Inl UndefinedBehaviour))"
| "build_factor (FactorNum n) s = Inr (build_num n s)"

end
