(* ===== verification/Builder_Program.thy ===== *)
theory Builder_Program
  imports Builder
begin

text \<open>
  The rest of \<^verbatim>\<open>CminusfBuilder\<close>: declarations, statements, functions, the whole program and the
  constructor, which declares the functions of the run-time library.
\<close>

section \<open>Variables\<close>

definition scalar_type :: "CminusType \<Rightarrow> ty" where
  "scalar_type t = (if t = TYPE_INT then INT32_T else FLOAT_T)"

definition declared_type :: "f32 ASTVarDeclaration \<Rightarrow> ty result" where
  "declared_type d = (case num d of
       None \<Rightarrow> Inr (scalar_type (var_type d))
     | Some (ASTNumInt k) \<Rightarrow> Inr (ArrayTy (scalar_type (var_type d)) k)
     | Some (ASTNumFloat _) \<Rightarrow> Inl UndefinedBehaviour)"

text \<open>The initialiser of a global has the element type, for an array too.\<close>

definition build_var_declaration :: "f32 ASTVarDeclaration \<Rightarrow> builder \<Rightarrow> builder result" where
  "build_var_declaration d s = rbind (declared_type d) (\<lambda>t.
     if in_global (scope s) then
       (case zero_initializer (scalar_type (var_type d)) s of (z, s) \<Rightarrow>
          rbind (create_global_variable (var_id d) t False (Some z) (module s)) (\<lambda>(g, m).
            push_name (var_id d) g (s\<lparr>module := m\<rparr>)))
     else rbind (b_alloca t s) (\<lambda>(a, s). push_name (var_id d) a s))"

section \<open>Statements\<close>

text \<open>
  The parts of the branching statements around their sub-statements. The blocks are made after
  the condition is evaluated.
\<close>

definition begin_selection :: "bool \<Rightarrow> builder \<Rightarrow> (addr \<times> addr \<times> addr \<times> builder) result" where
  "begin_selection has_else s =
     rbind (get_tmp s) (\<lambda>v.
     rbind (new_block [] s) (\<lambda>(trueBB, s).
     rbind (new_block [] s) (\<lambda>(falseBB, s).
     rbind (new_block [] s) (\<lambda>(contBB, s).
     rbind (condition v s) (\<lambda>(c, s).
     rbind (b_cond_br c trueBB (if has_else then falseBB else contBB) s) (\<lambda>(_, s).
       Inr (trueBB, falseBB, contBB, s)))))))"

definition begin_iteration :: "builder \<Rightarrow> (addr \<times> builder) result" where
  "begin_iteration s =
     rbind (new_block [] s) (\<lambda>(exprBB, s).
     rbind (br_unless_terminated exprBB s) (\<lambda>s. Inr (exprBB, set_insert_point exprBB s)))"

definition enter_loop :: "builder \<Rightarrow> (addr \<times> builder) result" where
  "enter_loop s =
     rbind (get_tmp s) (\<lambda>v.
     rbind (new_block [] s) (\<lambda>(trueBB, s).
     rbind (new_block [] s) (\<lambda>(contBB, s).
     rbind (condition v s) (\<lambda>(c, s).
     rbind (b_cond_br c trueBB contBB s) (\<lambda>(_, s). Inr (contBB, set_insert_point trueBB s))))))"

definition drop_block :: "addr \<Rightarrow> builder \<Rightarrow> builder result" where
  "drop_block b s = rbind (erase_from_parent b (module s)) (\<lambda>m. Inr (s\<lparr>module := m\<rparr>))"

text \<open>The conversion to the type of the function's result, and the return.\<close>

definition build_return :: "ty \<Rightarrow> builder \<Rightarrow> builder result" where
  "build_return rt s = rbind (get_tmp s) (\<lambda>v. rbind (type_of v s) (\<lambda>t.
     rbind (if rt = t then Inr s
            else if is_integer_type rt then rbind (b_fptosi v INT32_T s) (\<lambda>(v, s). Inr (set_tmp v s))
            else rbind (b_sitofp v FLOAT_T s) (\<lambda>(v, s). Inr (set_tmp v s))) (\<lambda>s.
     rbind (get_tmp s) (\<lambda>v. rbind (b_ret v s) (\<lambda>(_, s). Inr s)))))"

fun build_statement :: "f32 ASTStatement \<Rightarrow> builder \<Rightarrow> builder result"
  and build_statements :: "f32 ASTStatement list \<Rightarrow> builder \<Rightarrow> builder result"
where
  "build_statement (ASTCompoundStmt ds ss) s =
     (let need_exit = \<not> pre_enter_scope s;
          s = (if pre_enter_scope s then s\<lparr>pre_enter_scope := False\<rparr> else enter s) in
      rbind (rfold build_var_declaration ds s) (\<lambda>s.
      rbind (build_statements ss s) (\<lambda>s.
      if need_exit then leave s else Inr s)))"
| "build_statement (ASTExpressionStmt None) s = Inr s"
| "build_statement (ASTExpressionStmt (Some e)) s = build_expression e s"
| "build_statement (ASTSelectionStmt e th None) s =
     rbind (build_expression e s) (\<lambda>s.
     rbind (begin_selection False s) (\<lambda>(trueBB, falseBB, contBB, s).
     rbind (build_statement th (set_insert_point trueBB s)) (\<lambda>s.
     rbind (br_unless_terminated contBB s) (\<lambda>s.
     rbind (drop_block falseBB s) (\<lambda>s. Inr (set_insert_point contBB s))))))"
| "build_statement (ASTSelectionStmt e th (Some el)) s =
     rbind (build_expression e s) (\<lambda>s.
     rbind (begin_selection True s) (\<lambda>(trueBB, falseBB, contBB, s).
     rbind (build_statement th (set_insert_point trueBB s)) (\<lambda>s.
     rbind (br_unless_terminated contBB s) (\<lambda>s.
     rbind (build_statement el (set_insert_point falseBB s)) (\<lambda>s.
     rbind (br_unless_terminated contBB s) (\<lambda>s. Inr (set_insert_point contBB s)))))))"
| "build_statement (ASTIterationStmt e body) s =
     rbind (begin_iteration s) (\<lambda>(exprBB, s).
     rbind (build_expression e s) (\<lambda>s.
     rbind (enter_loop s) (\<lambda>(contBB, s).
     rbind (build_statement body s) (\<lambda>s.
     rbind (br_unless_terminated exprBB s) (\<lambda>s. Inr (set_insert_point contBB s))))))"
| "build_statement (ASTReturnStmt None) s = rbind (b_void_ret s) (\<lambda>(_, s). Inr s)"
| "build_statement (ASTReturnStmt (Some e)) s =
     rbind (fun_return_type s) (\<lambda>rt. rbind (build_expression e s) (build_return rt))"
| "build_statements [] s = Inr s"
| "build_statements (st # ss) s = rbind (build_statement st s) (\<lambda>s.
     rbind (terminated s) (\<lambda>d. if d then Inr s else build_statements ss s))"

section \<open>Functions\<close>

definition param_ty :: "ASTParam \<Rightarrow> ty" where
  "param_ty p = (if isarray p then PointerTy (scalar_type (param_type p)) else scalar_type (param_type p))"

definition return_ty :: "CminusType \<Rightarrow> ty" where
  "return_ty t = (case t of TYPE_INT \<Rightarrow> INT32_T | TYPE_FLOAT \<Rightarrow> FLOAT_T | TYPE_VOID \<Rightarrow> VoidTy)"

text \<open>The visitor of a parameter, which \<^verbatim>\<open>ASTFunDeclaration\<close> does not call.\<close>

definition build_param :: "ASTParam \<Rightarrow> builder \<Rightarrow> builder result" where
  "build_param p s = (if param_type p = TYPE_VOID then Inr s
     else rbind (b_alloca (param_ty p) s) (\<lambda>(a, s). push_name (param_id p) a s))"

text \<open>An argument is stored in a cell of its own, which the name of the parameter is bound to.\<close>

definition build_argument :: "ASTParam \<times> addr \<Rightarrow> builder \<Rightarrow> builder result" where
  "build_argument pa s = rbind (b_alloca (param_ty (fst pa)) s) (\<lambda>(a, s).
     rbind (b_store (snd pa) a s) (\<lambda>(_, s). push_name (param_id (fst pa)) a s))"

definition begin_function :: "CminusType \<Rightarrow> string \<Rightarrow> ASTParam list \<Rightarrow> builder \<Rightarrow> builder result" where
  "begin_function t nm ps s =
     (case create_function (FunctionTy (return_ty t) (map param_ty ps)) nm (module s) of (f, m) \<Rightarrow>
      rbind (push_name nm f (s\<lparr>module := m\<rparr>)) (\<lambda>s.
      rbind (new_block ''entry'' (s\<lparr>cur_fun := Some f\<rparr>)) (\<lambda>(b, s).
      rfold build_argument (zip ps (arguments (module s) f)) (enter (set_insert_point b s)))))"

definition end_function :: "builder \<Rightarrow> builder result" where
  "end_function s = rbind (terminated s) (\<lambda>d.
     rbind (if d then Inr s else return_zero s) leave)"

fun build_declaration :: "f32 ASTDeclaration \<Rightarrow> builder \<Rightarrow> builder result" where
  "build_declaration (VarDeclaration d) s = build_var_declaration d s"
| "build_declaration (ASTFunDeclaration t nm ps body) s =
     rbind (begin_function t nm ps s) (\<lambda>s. rbind (build_statement body s) end_function)"

definition build_program :: "f32 ASTProgram \<Rightarrow> builder \<Rightarrow> builder result" where
  "build_program p s = rfold build_declaration (declarations p) s"

section \<open>The constructor\<close>

text \<open>\<^verbatim>\<open>input\<close>, \<^verbatim>\<open>output\<close>, \<^verbatim>\<open>outputFloat\<close> and \<^verbatim>\<open>neg_idx_except\<close> are the names of the outermost scope.\<close>

definition library :: "(string \<times> ty) list" where
  "library = [(''input'', FunctionTy INT32_T []), (''output'', FunctionTy VoidTy [INT32_T]),
     (''outputFloat'', FunctionTy VoidTy [FLOAT_T]), (''neg_idx_except'', FunctionTy VoidTy [])]"

definition builder_new :: builder where
  "builder_new = \<lparr>module = ir_init, cached = const_cache_init, scope = [], insert_block = None,
     tmp_val = None, require_lvalue = False, pre_enter_scope = False, cur_fun = None\<rparr>"

definition builder_init :: "builder result" where
  "builder_init =
     (case fold (\<lambda>(nm, t) (fs, m). case create_function t nm m of (f, m) \<Rightarrow> (fs @ [(nm, f)], m))
        library ([], module builder_new) of
      (fs, m) \<Rightarrow> rfold (\<lambda>(nm, f). push_name nm f) fs (enter (builder_new\<lparr>module := m\<rparr>)))"

text \<open>The module the driver takes from the builder once the tree has been visited.\<close>

definition compile :: "f32 ASTProgram \<Rightarrow> ir result" where
  "compile p = rbind builder_init (\<lambda>s. rbind (build_program p s) (\<lambda>s. Inr (module s)))"

end
