(* ===== verification/Ir_Growth.thy ===== *)
theory Ir_Growth
  imports Ir_Constants
begin

text \<open>
  What the building operations do to a module, apart from the lists of uses: they add one
  object and leave the type, kind, operands and parent of all others as they are. These are
  the facts that the invariants of the builder rest on.
\<close>

section \<open>The shape of an object\<close>

definition shape_of :: "ir \<Rightarrow> addr \<Rightarrow> (ty \<times> value_kind \<times> addr option list \<times> addr option \<times> string) option" where
  "shape_of m a = map_option (\<lambda>x. (vtype x, kind x, operands x, parent x, name x)) (heap m a)"

lemma shape_of_None: "shape_of m a = None \<longleftrightarrow> heap m a = None"
  by (simp add: shape_of_def)

lemma shape_of_Some:
  "shape_of m a = Some (t, k, ops, p, nm) \<longleftrightarrow>
     (\<exists>x. heap m a = Some x \<and> vtype x = t \<and> kind x = k \<and> operands x = ops \<and> parent x = p \<and> name x = nm)"
  by (auto simp: shape_of_def)

lemma shape_ofI: "heap m a = Some x \<Longrightarrow> shape_of m a = Some (vtype x, kind x, operands x, parent x, name x)"
  by (simp add: shape_of_def)

lemma shape_of_same:
  assumes "shape_of m' a = shape_of m a" "heap m a = Some x"
  shows "\<exists>x'. heap m' a = Some x' \<and> vtype x' = vtype x \<and> kind x' = kind x \<and> operands x' = operands x \<and>
    parent x' = parent x \<and> name x' = name x"
  using assms by (auto simp: shape_of_def)

lemma operand_at_shape: "shape_of m' u = shape_of m u \<Longrightarrow> operand_at m' u i = operand_at m u i"
  by (cases "heap m u"; cases "heap m' u") (auto simp: shape_of_def operand_at_def)

text \<open>Everything but the heap and the next address.\<close>

definition lists_of :: "ir \<Rightarrow> ir" where
  "lists_of m = m\<lparr>heap := Map.empty, next_addr := 0\<rparr>"

lemma lists_of_fields:
  assumes "lists_of m' = lists_of m"
  shows "instr_list m' = instr_list m" "pre_list m' = pre_list m" "succ_list m' = succ_list m"
    "block_list m' = block_list m" "arguments m' = arguments m" "function_list m' = function_list m"
    "global_list m' = global_list m"
  using assms by (cases m, cases m', simp add: lists_of_def)+

section \<open>Operands of a new instruction\<close>

lemma upd_val_eq: "upd_val a f m = Inr m' \<longleftrightarrow> (\<exists>x. heap m a = Some x \<and> m' = m\<lparr>heap := (heap m)(a \<mapsto> f x)\<rparr>)"
  by (cases "heap m a") (auto simp: upd_val_def get_val_def)

lemma set_operand_shape:
  assumes "set_operand u i v m = Inr m'" "heap m u = Some x"
  shows "next_addr m' = next_addr m \<and> lists_of m' = lists_of m \<and> (\<forall>a. a \<noteq> u \<longrightarrow> shape_of m' a = shape_of m a) \<and>
    (\<exists>x'. heap m' u = Some x' \<and> vtype x' = vtype x \<and> kind x' = kind x \<and> parent x' = parent x \<and> name x' = name x \<and>
      operands x' = (operands x)[i := Some v])"
  using assms
  by (auto simp: set_operand_def get_val_def add_use_def rbind_eq_Inr upd_val_eq lists_of_def shape_of_def
      split: if_splits)

lemma set_operands_shape:
  assumes "set_operands u i vs m = Inr m'" "heap m u = Some x" "i + length vs \<le> length (operands x)"
  shows "next_addr m' = next_addr m \<and> lists_of m' = lists_of m \<and> (\<forall>a. a \<noteq> u \<longrightarrow> shape_of m' a = shape_of m a) \<and>
    (\<exists>x'. heap m' u = Some x' \<and> vtype x' = vtype x \<and> kind x' = kind x \<and> parent x' = parent x \<and> name x' = name x \<and>
      operands x' = take i (operands x) @ map Some vs @ drop (i + length vs) (operands x))"
  using assms
proof (induction vs arbitrary: i m x)
  case (Cons v vs)
  obtain m1 where m1: "set_operand u i v m = Inr m1" "set_operands u (Suc i) vs m1 = Inr m'"
    using Cons.prems(1) by (auto simp: rbind_eq_Inr)
  note s = set_operand_shape [OF m1(1) Cons.prems(2)]
  then obtain x1 where x1: "heap m1 u = Some x1" "vtype x1 = vtype x" "kind x1 = kind x" "parent x1 = parent x"
    "name x1 = name x" "operands x1 = (operands x)[i := Some v]"
    by blast
  have i: "i < length (operands x)" "Suc i + length vs \<le> length (operands x1)" using Cons.prems(3) x1(6) by auto
  have "take (Suc i) (operands x1) @ map Some vs @ drop (Suc i + length vs) (operands x1) =
      take i (operands x) @ map Some (v # vs) @ drop (i + length (v # vs)) (operands x)"
    using i(1) by (simp add: x1(6) take_update_swap take_Suc_conv_app_nth list_update_append)
  then show ?case using Cons.IH [OF m1(2) x1(1) i(2)] s x1 by auto
qed auto

section \<open>Emitting an instruction\<close>

text \<open>\<open>E\<close> is what the instruction does to the edges of every function's graph.\<close>

definition emitted :: "ty \<Rightarrow> OpID \<Rightarrow> addr list \<Rightarrow> addr \<Rightarrow> (cfg \<Rightarrow> cfg) \<Rightarrow> addr \<Rightarrow> ir \<Rightarrow> ir \<Rightarrow> bool" where
  "emitted t op vs b E i m m' \<longleftrightarrow> uses_ok m' \<and> i = next_addr m \<and> next_addr m' = Suc i \<and>
     shape_of m' i = Some (t, InstructionV op, map Some vs, Some b, []) \<and>
     (\<forall>a. a \<noteq> i \<longrightarrow> shape_of m' a = shape_of m a) \<and>
     instr_list m' = (instr_list m)(b := instr_list m b @ [i]) \<and> (\<forall>f. cfg_of m' f = E (cfg_of m f)) \<and>
     arguments m' = arguments m \<and> function_list m' = function_list m \<and> global_list m' = global_list m"

lemma create_inst_emitted:
  assumes ok: "uses_ok m" and vs: "\<forall>v \<in> set vs. heap m v \<noteq> None" and run: "create_inst t op vs b m = Inr (i, m')"
  shows "emitted t op vs b (\<lambda>g. g) i m m'"
proof -
  let ?x = "new_val t [] (InstructionV op) (length vs) (Some b)" and ?i = "next_addr m"
  define m1 where "m1 = add_instruction b ?i (snd (alloc ?x m))"
  have i: "i = ?i" and set: "set_operands ?i 0 vs m1 = Inr m'"
    using run by (auto simp: create_inst_def new_instruction_def alloc_def m1_def Let_def rbind_eq_Inr)
  have x: "heap m1 ?i = Some ?x" "operands ?x = replicate (length vs) None"
    by (simp_all add: m1_def add_instruction_def alloc_def new_val_def)
  note s = set_operands_shape [OF set x(1)]
  then obtain x' where x': "heap m' ?i = Some x'" "vtype x' = t" "kind x' = InstructionV op" "parent x' = Some b"
    "name x' = []" "operands x' = map Some vs"
    by (auto simp: new_val_def)
  have "uses_ok m'" using create_inst_keeps [OF ok vs run] .
  moreover have "shape_of m' a = shape_of m a" if "a \<noteq> ?i" for a
    using s that x(2) by (auto simp: m1_def add_instruction_def alloc_def shape_of_def)
  moreover have "cfg_of m' f = cfg_of m f" for f
    using s x(2) lists_of_fields [of m' m1] by (simp add: cfg_of_def m1_def add_instruction_def alloc_def)
  ultimately show ?thesis
    using s x(2) x' i lists_of_fields [of m' m1]
    by (simp add: emitted_def shape_of_Some m1_def add_instruction_def alloc_def)
qed

text \<open>A field that is written afterwards does not matter.\<close>

lemma emitted_upd:
  assumes e: "emitted t op vs b E i m m1" and upd: "upd_val i f m1 = Inr m'"
    and f: "\<And>x. use_list (f x) = use_list x \<and> operands (f x) = operands x \<and>
      num_ops (f x) = num_ops x \<and> kind (f x) = kind x \<and> vtype (f x) = vtype x \<and> parent (f x) = parent x \<and> name (f x) = name x"
  shows "emitted t op vs b E i m m'"
proof -
  obtain x where m': "m' = m1\<lparr>heap := (heap m1)(i \<mapsto> f x)\<rparr>" and x: "heap m1 i = Some x"
    using upd by (auto simp: upd_val_eq)
  have "uses_ok m'" by (rule upd_val_uses [OF _ _ upd]) (use e f in \<open>auto simp: emitted_def\<close>)
  moreover have "shape_of m' a = shape_of m1 a" for a using f x by (auto simp: m' shape_of_def)
  moreover have "lists_of m' = lists_of m1" "next_addr m' = next_addr m1" by (simp_all add: m' lists_of_def)
  ultimately show ?thesis using e lists_of_fields [of m' m1] unfolding emitted_def cfg_of_def by auto
qed

text \<open>The edges are drawn before the instruction is made.\<close>

lemma emitted_edges:
  assumes e: "emitted t op vs b (\<lambda>g. g) i (update_edges E m) m'"
    and E: "\<And>g bs. E ((g :: cfg)\<lparr>basic_blocks := bs\<rparr>) = (E g)\<lparr>basic_blocks := bs\<rparr>" "\<And>g. basic_blocks (E g) = basic_blocks g"
  shows "emitted t op vs b E i m m'"
proof -
  let ?m = "update_edges E m"
  let ?g = "\<lparr>basic_blocks = [], pre_bbs = pre_list m, succ_bbs = succ_list m\<rparr>"
  have "cfg_of ?m f = E (cfg_of m f)" for f
    using E(1) [where g = ?g and bs = "block_list m f"] E(2) [of ?g] by (simp add: cfg_of_def update_edges_def Let_def)
  moreover have "shape_of ?m = shape_of m" by (simp add: fun_eq_iff shape_of_def update_edges_uses)
  moreover have "next_addr ?m = next_addr m" "instr_list ?m = instr_list m" "arguments ?m = arguments m"
    "function_list ?m = function_list m" "global_list ?m = global_list m"
    by (simp_all add: update_edges_def Let_def)
  ultimately show ?thesis using e unfolding emitted_def by auto
qed

lemma br_edges_blocks:
  "br_edges t b (g\<lparr>basic_blocks := bs\<rparr>) = (br_edges t b g)\<lparr>basic_blocks := bs\<rparr>"
  "basic_blocks (br_edges t b g) = basic_blocks g"
  "cond_br_edges t f b (g\<lparr>basic_blocks := bs\<rparr>) = (cond_br_edges t f b g)\<lparr>basic_blocks := bs\<rparr>"
  "basic_blocks (cond_br_edges t f b g) = basic_blocks g"
  by (simp_all add: br_edges_def cond_br_edges_def add_pre_basic_block_def add_succ_basic_block_def)

lemma create_upd_emitted:
  assumes "uses_ok m" "\<forall>v \<in> set vs. heap m v \<noteq> None"
    and run: "rbind (create_inst t op vs b m) (\<lambda>(i, m). rbind (upd_val i f m) (\<lambda>m. Inr (i, m))) = Inr (i, m')"
    and f: "\<And>x. use_list (f x) = use_list x \<and> operands (f x) = operands x \<and>
      num_ops (f x) = num_ops x \<and> kind (f x) = kind x \<and> vtype (f x) = vtype x \<and> parent (f x) = parent x \<and> name (f x) = name x"
  shows "emitted t op vs b (\<lambda>g. g) i m m'"
proof -
  obtain m1 where m1: "create_inst t op vs b m = Inr (i, m1)" "upd_val i f m1 = Inr m'"
    using run by (auto simp: rbind_eq_Inr)
  show ?thesis by (rule emitted_upd [OF create_inst_emitted [OF assms(1,2) m1(1)] m1(2) f])
qed

lemma heap_nonempty: "get_val a m = Inr x \<longleftrightarrow> heap m a = Some x"
  by (simp add: get_val_def split: option.splits)

section \<open>Every constructor of an instruction\<close>

lemma create_emitted:
  assumes ok: "uses_ok m"
  shows "create_binary op v1 v2 b m = Inr (i, m') \<Longrightarrow> alive m v1 \<Longrightarrow> alive m v2 \<Longrightarrow>
      emitted (if op \<in> {Fadd, Fsub, Fmul, Fdiv} then FloatTy else IntegerTy 32) op [v1, v2] b (\<lambda>g. g) i m m'"
    "create_cmp op c v1 v2 b m = Inr (i, m') \<Longrightarrow> alive m v1 \<Longrightarrow> alive m v2 \<Longrightarrow>
      emitted (IntegerTy 1) op [v1, v2] b (\<lambda>g. g) i m m'"
    "create_ret v b m = Inr (i, m') \<Longrightarrow> alive m v \<Longrightarrow> emitted VoidTy Ret [v] b (\<lambda>g. g) i m m'"
    "create_void_ret b m = Inr (i, m') \<Longrightarrow> emitted VoidTy Ret [] b (\<lambda>g. g) i m m'"
    "create_store v ptr b m = Inr (i, m') \<Longrightarrow> alive m v \<Longrightarrow> alive m ptr \<Longrightarrow>
      emitted VoidTy Store [v, ptr] b (\<lambda>g. g) i m m'"
    "create_alloca t b m = Inr (i, m') \<Longrightarrow> emitted (PointerTy t) Alloca [] b (\<lambda>g. g) i m m'"
    "create_cast op v t b m = Inr (i, m') \<Longrightarrow> alive m v \<Longrightarrow> emitted t op [v] b (\<lambda>g. g) i m m'"
    "create_br t' b m = Inr (i, m') \<Longrightarrow> alive m t' \<Longrightarrow> emitted VoidTy Br [t'] b (br_edges t' b) i m m'"
    "create_cond_br v t' f b m = Inr (i, m') \<Longrightarrow> alive m v \<Longrightarrow> alive m t' \<Longrightarrow> alive m f \<Longrightarrow>
      emitted VoidTy Br [v, t', f] b (cond_br_edges t' f b) i m m'"
proof -
  note ce = create_inst_emitted [OF ok] and cu = create_upd_emitted [OF ok]
  show "create_binary op v1 v2 b m = Inr (i, m') \<Longrightarrow> alive m v1 \<Longrightarrow> alive m v2 \<Longrightarrow>
      emitted (if op \<in> {Fadd, Fsub, Fmul, Fdiv} then FloatTy else IntegerTy 32) op [v1, v2] b (\<lambda>g. g) i m m'"
    using ce [of "[v1, v2]"] by (simp add: create_binary_def)
  show "create_cmp op c v1 v2 b m = Inr (i, m') \<Longrightarrow> alive m v1 \<Longrightarrow> alive m v2 \<Longrightarrow>
      emitted (IntegerTy 1) op [v1, v2] b (\<lambda>g. g) i m m'"
    using cu [of "[v1, v2]" _ _ _ "\<lambda>x. x\<lparr>cmp_op := c\<rparr>"] by (simp add: create_cmp_def)
  show "create_ret v b m = Inr (i, m') \<Longrightarrow> alive m v \<Longrightarrow> emitted VoidTy Ret [v] b (\<lambda>g. g) i m m'"
    using ce [of "[v]"] by (simp add: create_ret_def)
  show "create_void_ret b m = Inr (i, m') \<Longrightarrow> emitted VoidTy Ret [] b (\<lambda>g. g) i m m'"
    using ce [of "[]"] by (simp add: create_void_ret_def)
  show "create_store v ptr b m = Inr (i, m') \<Longrightarrow> alive m v \<Longrightarrow> alive m ptr \<Longrightarrow>
      emitted VoidTy Store [v, ptr] b (\<lambda>g. g) i m m'"
    using ce [of "[v, ptr]"] by (simp add: create_store_def)
  show "create_alloca t b m = Inr (i, m') \<Longrightarrow> emitted (PointerTy t) Alloca [] b (\<lambda>g. g) i m m'"
    using cu [of "[]" _ _ _ "\<lambda>x. x\<lparr>inst_ty := t\<rparr>"] by (simp add: create_alloca_def)
  show "create_cast op v t b m = Inr (i, m') \<Longrightarrow> alive m v \<Longrightarrow> emitted t op [v] b (\<lambda>g. g) i m m'"
    using cu [of "[v]" _ _ _ "\<lambda>x. x\<lparr>inst_ty := t\<rparr>"] by (simp add: create_cast_def)
  show "emitted VoidTy Br [t'] b (br_edges t' b) i m m'" if "create_br t' b m = Inr (i, m')" "alive m t'"
  proof (rule emitted_edges [OF _ br_edges_blocks(1,2)])
    show "emitted VoidTy Br [t'] b (\<lambda>g. g) i (update_edges (br_edges t' b) m) m'"
      using that ok by (intro create_inst_emitted) (auto simp: create_br_def update_edges_uses)
  qed
  show "emitted VoidTy Br [v, t', f] b (cond_br_edges t' f b) i m m'"
    if "create_cond_br v t' f b m = Inr (i, m')" "alive m v" "alive m t'" "alive m f"
  proof (rule emitted_edges [OF _ br_edges_blocks(3,4)])
    show "emitted VoidTy Br [v, t', f] b (\<lambda>g. g) i (update_edges (cond_br_edges t' f b) m) m'"
      using that ok by (intro create_inst_emitted) (auto simp: create_cond_br_def update_edges_uses)
  qed
qed

lemma create_checked_emitted:
  assumes ok: "uses_ok m"
  shows "create_call f args b m = Inr (i, m') \<Longrightarrow> \<forall>v \<in> set args. alive m v \<Longrightarrow>
      \<exists>x. heap m f = Some x \<and> length (param_types (vtype x)) = length args \<and>
        emitted (result_type (vtype x)) Call (f # args) b (\<lambda>g. g) i m m'"
    "create_gep v idxs b m = Inr (i, m') \<Longrightarrow> \<forall>x \<in> set idxs. alive m x \<Longrightarrow>
      \<exists>x e. heap m v = Some x \<and> gep_element_type (vtype x) (length idxs) = Inr e \<and>
        emitted (PointerTy e) Getelementptr (v # idxs) b (\<lambda>g. g) i m m'"
    "create_load t v b m = Inr (i, m') \<Longrightarrow>
      \<exists>x. heap m v = Some x \<and> vtype x = PointerTy t \<and> emitted t Load [v] b (\<lambda>g. g) i m m'"
proof -
  note ce = create_inst_emitted [OF ok] and cu = create_upd_emitted [OF ok]
  show "\<exists>x. heap m f = Some x \<and> length (param_types (vtype x)) = length args \<and>
      emitted (result_type (vtype x)) Call (f # args) b (\<lambda>g. g) i m m'"
    if "create_call f args b m = Inr (i, m')" "\<forall>v \<in> set args. alive m v"
    using that ce [of "f # args"] by (auto simp: create_call_def rbind_eq_Inr heap_nonempty split: if_splits)
  show "\<exists>x e. heap m v = Some x \<and> gep_element_type (vtype x) (length idxs) = Inr e \<and>
      emitted (PointerTy e) Getelementptr (v # idxs) b (\<lambda>g. g) i m m'"
    if run: "create_gep v idxs b m = Inr (i, m')" and idxs: "\<forall>x \<in> set idxs. alive m x"
  proof -
    obtain x where v: "heap m v = Some x" using run by (cases "heap m v") (simp_all add: create_gep_def get_val_def)
    obtain e where x: "gep_element_type (vtype x) (length idxs) = Inr e"
      "rbind (create_inst (PointerTy e) Getelementptr (v # idxs) b m) (\<lambda>(i, m).
         rbind (upd_val i (\<lambda>x. x\<lparr>inst_ty := e\<rparr>) m) (\<lambda>m. Inr (i, m))) = Inr (i, m')"
      using run v by (cases "gep_element_type (vtype x) (length idxs)") (simp_all add: create_gep_def get_val_def)
    have "emitted (PointerTy e) Getelementptr (v # idxs) b (\<lambda>g. g) i m m'"
      by (rule cu [OF _ x(2)]) (use idxs v in auto)
    then show ?thesis using v x by blast
  qed
  show "\<exists>x. heap m v = Some x \<and> vtype x = PointerTy t \<and> emitted t Load [v] b (\<lambda>g. g) i m m'"
    if "create_load t v b m = Inr (i, m')"
    using that ce [of "[v]"] by (auto simp: create_load_def rbind_eq_Inr heap_nonempty split: if_splits)
qed

end
