(* ===== verification/Ir_Built.thy ===== *)
theory Ir_Built
  imports Ir_Growth
begin

text \<open>
  The modules that a client builds with the operations of \<^verbatim>\<open>IRBuilder\<close>: the graph of every
  function is well formed and its entry has no predecessor, every instruction is in the list of
  exactly one block of a function, operands are older than the instruction that uses them and
  live in the same function. Each building operation keeps this.
\<close>

section \<open>The invariant\<close>

definition graph_ok :: "ir \<Rightarrow> bool" where
  "graph_ok m \<longleftrightarrow> distinct (function_list m) \<and>
     (\<forall>f. f \<in> set (function_list m) \<longleftrightarrow> (\<exists>x. heap m f = Some x \<and> kind x = FunctionV)) \<and>
     (\<forall>f. block_list m f \<noteq> [] \<longrightarrow> f \<in> set (function_list m)) \<and>
     (\<forall>f. cfg_wf (cfg_of m f)) \<and>
     (\<forall>f. block_list m f \<noteq> [] \<longrightarrow> pre_list m (hd (block_list m f)) = []) \<and>
     (\<forall>f b. b \<in> set (block_list m f) \<longrightarrow> (\<exists>y. heap m b = Some y \<and> kind y = BasicBlockV \<and> parent y = Some f))"

text \<open>The number of operands that an instruction has.\<close>

definition arity_ok :: "OpID \<Rightarrow> nat \<Rightarrow> bool" where
  "arity_ok op n = (case op of
       Ret \<Rightarrow> n \<le> 1 | Br \<Rightarrow> n = 1 \<or> n = 3 | Alloca \<Rightarrow> n = 0 | Load \<Rightarrow> n = 1 | Phi \<Rightarrow> even n | Call \<Rightarrow> 1 \<le> n
     | Getelementptr \<Rightarrow> 1 \<le> n | Zext \<Rightarrow> n = 1 | Fptosi \<Rightarrow> n = 1 | Sitofp \<Rightarrow> n = 1 | _ \<Rightarrow> n = 2)"

text \<open>
  The types of instructions: the address of a load, a store or an element is a pointer, the type
  of the result is the one that the operation and the operands give it, and a call has a function
  of the module with as many arguments as that has parameters. A client of \<^verbatim>\<open>IRBuilder\<close> makes no
  phi function.
\<close>

definition typed_ops :: "ir \<Rightarrow> ty \<Rightarrow> OpID \<Rightarrow> addr option list \<Rightarrow> bool" where
  "typed_ops m t op ops = (case op of
       Load \<Rightarrow> \<exists>v y. ops = [Some v] \<and> heap m v = Some y \<and> vtype y = PointerTy t
     | Store \<Rightarrow> t = VoidTy \<and> (\<exists>w v y e. ops = [Some w, Some v] \<and> heap m v = Some y \<and> vtype y = PointerTy e)
     | Getelementptr \<Rightarrow> \<exists>v y e idxs. ops = Some v # idxs \<and> heap m v = Some y \<and>
         gep_element_type (vtype y) (length idxs) = Inr e \<and> t = PointerTy e
     | Call \<Rightarrow> \<exists>f y args. ops = Some f # args \<and> f \<in> set (function_list m) \<and> heap m f = Some y \<and>
         t = result_type (vtype y) \<and> length args = length (param_types (vtype y))
     | Alloca \<Rightarrow> \<exists>e. t = PointerTy e
     | Phi \<Rightarrow> False
     | _ \<Rightarrow> (op \<in> {Add, Sub, Mul, Sdiv} \<longrightarrow> t = IntegerTy 32) \<and> (op \<in> {Fadd, Fsub, Fmul, Fdiv} \<longrightarrow> t = FloatTy) \<and>
         (op \<in> {Cmp, Fcmp} \<longrightarrow> t = IntegerTy 1) \<and> (op \<in> {Ret, Br} \<longrightarrow> t = VoidTy))"

lemma typed_ops_mono:
  assumes "typed_ops m t op ops" "set (function_list m) \<subseteq> set (function_list m')"
    and "\<And>v y. heap m v = Some y \<Longrightarrow> \<exists>y'. heap m' v = Some y' \<and> vtype y' = vtype y"
  shows "typed_ops m' t op ops"
  using assms by (cases op) (fastforce simp: typed_ops_def)+

lemma typed_opsD:
  "typed_ops m t Load ops \<Longrightarrow> \<exists>v y. ops = [Some v] \<and> heap m v = Some y \<and> vtype y = PointerTy t"
  "typed_ops m t Store ops \<Longrightarrow> \<exists>w v y e. ops = [Some w, Some v] \<and> heap m v = Some y \<and> vtype y = PointerTy e"
  "typed_ops m t Getelementptr ops \<Longrightarrow> \<exists>v y e idxs. ops = Some v # idxs \<and> heap m v = Some y \<and>
     gep_element_type (vtype y) (length idxs) = Inr e \<and> t = PointerTy e"
  "typed_ops m t Call ops \<Longrightarrow> \<exists>f y args. ops = Some f # args \<and> f \<in> set (function_list m) \<and> heap m f = Some y \<and>
     t = result_type (vtype y) \<and> length args = length (param_types (vtype y))"
  by (simp_all add: typed_ops_def)

definition instr_ok :: "ir \<Rightarrow> addr \<Rightarrow> addr \<Rightarrow> bool" where
  "instr_ok m b i \<longleftrightarrow> (\<exists>x. heap m i = Some x \<and> is_instruction (kind x) \<and> parent x = Some b \<and>
     None \<notin> set (operands x) \<and> arity_ok (op_id (kind x)) (length (operands x)) \<and>
     typed_ops m (vtype x) (op_id (kind x)) (operands x))"

definition code_ok :: "ir \<Rightarrow> bool" where
  "code_ok m \<longleftrightarrow>
     (\<forall>b. distinct (instr_list m b) \<and> (instr_list m b \<noteq> [] \<longrightarrow> (\<exists>f. b \<in> set (block_list m f)))) \<and>
     (\<forall>b i. i \<in> set (instr_list m b) \<longrightarrow> instr_ok m b i) \<and>
     (\<forall>i x. heap m i = Some x \<longrightarrow> is_instruction (kind x) \<longrightarrow> (\<exists>f. i \<in> set (listed m f))) \<and>
     (\<forall>u j a. operand_at m u j = Some a \<longrightarrow> a < u) \<and>
     (\<forall>u j a f. operand_at m u j = Some a \<longrightarrow> a \<in> set (listed m f) \<longrightarrow> u \<in> set (listed m f))"

text \<open>
  The other objects: constants are no arrays, functions have a function type, and a global
  variable is a pointer with a constant as its initialiser.
\<close>

definition leaf_constant :: "value_kind \<Rightarrow> bool" where
  "leaf_constant k \<longleftrightarrow> (case k of ConstantIntV _ \<Rightarrow> True | ConstantFPV _ \<Rightarrow> True | ConstantZeroV \<Rightarrow> True | _ \<Rightarrow> False)"

definition datum_ok :: "ir \<Rightarrow> val \<Rightarrow> bool" where
  "datum_ok m x = (case kind x of
       ConstantArrayV _ \<Rightarrow> False
     | FunctionV \<Rightarrow> \<exists>r ps. vtype x = FunctionTy r ps
     | GlobalVariableV c init \<Rightarrow> \<exists>z w t. init = Some z \<and> heap m z = Some w \<and> leaf_constant (kind w) \<and> vtype x = PointerTy t
     | _ \<Rightarrow> True)"

definition global_at :: "ir \<Rightarrow> addr \<Rightarrow> bool" where
  "global_at m g \<longleftrightarrow> (\<exists>x c init. heap m g = Some x \<and> kind x = GlobalVariableV c init)"

definition data_ok :: "ir \<Rightarrow> bool" where
  "data_ok m \<longleftrightarrow> (\<forall>a x. heap m a = Some x \<longrightarrow> datum_ok m x) \<and> (\<forall>g \<in> set (global_list m). global_at m g)"

lemma datum_ok_mono:
  assumes "datum_ok m x" "vtype x' = vtype x" "kind x' = kind x"
    and "\<And>a x. heap m a = Some x \<Longrightarrow> \<exists>x'. heap m' a = Some x' \<and> kind x' = kind x"
  shows "datum_ok m' x'"
  using assms unfolding datum_ok_def by (cases "kind x") fastforce+

text \<open>Old objects stay, new ones are as they should be.\<close>

lemma data_ok_grow:
  assumes d: "data_ok m"
    and old: "\<And>a x. heap m a = Some x \<Longrightarrow> \<exists>x'. heap m' a = Some x' \<and> vtype x' = vtype x \<and> kind x' = kind x"
    and new: "\<And>a x. heap m a = None \<Longrightarrow> heap m' a = Some x \<Longrightarrow> datum_ok m' x"
    and gl: "\<And>g. g \<in> set (global_list m') \<Longrightarrow> g \<in> set (global_list m) \<or> global_at m' g"
  shows "data_ok m'"
  unfolding data_ok_def
proof (intro conjI allI impI ballI)
  show "datum_ok m' x'" if x': "heap m' a = Some x'" for a x'
  proof (cases "heap m a")
    case (Some x)
    have "datum_ok m x" using d Some by (simp add: data_ok_def)
    then show ?thesis by (rule datum_ok_mono) (use old [OF Some] x' old in auto)
  qed (use new x' in blast)
  show "global_at m' g" if "g \<in> set (global_list m')" for g
    using gl [OF that] d old by (fastforce simp: data_ok_def global_at_def)
qed

definition well_built :: "ir \<Rightarrow> bool" where
  "well_built m \<longleftrightarrow> uses_ok m \<and> graph_ok m \<and> code_ok m \<and> data_ok m"

lemma well_builtD:
  assumes "well_built m"
  shows "uses_ok m" "graph_ok m" "code_ok m" "data_ok m"
  using assms by (simp_all add: well_built_def)

lemma graph_okD:
  assumes "graph_ok m"
  shows "distinct (function_list m)"
    "f \<in> set (function_list m) \<longleftrightarrow> (\<exists>x. heap m f = Some x \<and> kind x = FunctionV)"
    "b \<in> set (block_list m f) \<Longrightarrow> f \<in> set (function_list m)"
    "cfg_wf (cfg_of m f)"
    "block_list m f \<noteq> [] \<Longrightarrow> pre_list m (hd (block_list m f)) = []"
    "b \<in> set (block_list m f) \<Longrightarrow> \<exists>y. heap m b = Some y \<and> kind y = BasicBlockV \<and> parent y = Some f"
proof -
  note g = assms [unfolded graph_ok_def]
  show "distinct (function_list m)" "f \<in> set (function_list m) \<longleftrightarrow> (\<exists>x. heap m f = Some x \<and> kind x = FunctionV)"
    "cfg_wf (cfg_of m f)" "block_list m f \<noteq> [] \<Longrightarrow> pre_list m (hd (block_list m f)) = []"
    "b \<in> set (block_list m f) \<Longrightarrow> \<exists>y. heap m b = Some y \<and> kind y = BasicBlockV \<and> parent y = Some f"
    using g by simp_all
  have "block_list m f \<noteq> []" if "b \<in> set (block_list m f)" using that by auto
  then show "b \<in> set (block_list m f) \<Longrightarrow> f \<in> set (function_list m)" using g by blast
qed

lemma code_okD:
  assumes "code_ok m"
  shows "distinct (instr_list m b)"
    "i \<in> set (instr_list m b) \<Longrightarrow> \<exists>f. b \<in> set (block_list m f)"
    "i \<in> set (instr_list m b) \<Longrightarrow> instr_ok m b i"
    "heap m i = Some x \<Longrightarrow> is_instruction (kind x) \<Longrightarrow> \<exists>f. i \<in> set (listed m f)"
    "operand_at m u j = Some a \<Longrightarrow> a < u"
    "operand_at m u j = Some a \<Longrightarrow> a \<in> set (listed m f) \<Longrightarrow> u \<in> set (listed m f)"
proof -
  note c = assms [unfolded code_ok_def]
  show "distinct (instr_list m b)" "i \<in> set (instr_list m b) \<Longrightarrow> instr_ok m b i"
    "heap m i = Some x \<Longrightarrow> is_instruction (kind x) \<Longrightarrow> \<exists>f. i \<in> set (listed m f)"
    "operand_at m u j = Some a \<Longrightarrow> a < u"
    "operand_at m u j = Some a \<Longrightarrow> a \<in> set (listed m f) \<Longrightarrow> u \<in> set (listed m f)"
    using c by blast+
  have "instr_list m b \<noteq> []" if "i \<in> set (instr_list m b)" using that by auto
  then show "i \<in> set (instr_list m b) \<Longrightarrow> \<exists>f. b \<in> set (block_list m f)" using c by blast
qed

lemma block_unique:
  assumes "graph_ok m" "b \<in> set (block_list m f)" "b \<in> set (block_list m g)"
  shows "f = g"
  using graph_okD(6) [OF assms(1,2)] graph_okD(6) [OF assms(1,3)] by auto

lemma instr_block_unique:
  assumes "code_ok m" "i \<in> set (instr_list m b)" "i \<in> set (instr_list m c)"
  shows "b = c"
  using code_okD(3) [OF assms(1,2)] code_okD(3) [OF assms(1,3)] by (auto simp: instr_ok_def)

lemma blocks_alive: "graph_ok m \<Longrightarrow> b \<in> set (block_list m f) \<Longrightarrow> alive m b"
  using graph_okD(6) by fastforce

lemma set_listed: "set (listed m f) = (\<Union>b \<in> set (block_list m f). set (instr_list m b))"
  by (simp add: listed_def)

lemma distinct_concat_blocks:
  "distinct bs \<Longrightarrow> (\<And>b. b \<in> set bs \<Longrightarrow> distinct (g b)) \<Longrightarrow>
     (\<And>b c i. i \<in> set (g b) \<Longrightarrow> i \<in> set (g c) \<Longrightarrow> b = c) \<Longrightarrow> distinct (concat (map g bs))"
  by (induction bs) auto

lemma listed_distinct:
  assumes "well_built m"
  shows "distinct (listed m f)"
  unfolding listed_def
proof (rule distinct_concat_blocks)
  show "distinct (block_list m f)"
    using cfg_wf_distinct [OF graph_okD(4) [OF well_builtD(2) [OF assms], of f]] by (simp add: cfg_of_def)
  show "distinct (instr_list m b)" for b using code_okD(1) [OF well_builtD(3) [OF assms]] .
  show "b = c" if "i \<in> set (instr_list m b)" "i \<in> set (instr_list m c)" for b c i
    using instr_block_unique [OF well_builtD(3) [OF assms] that] .
qed

lemma well_built_init: "well_built ir_init"
  using uses_ok_init by (simp add: well_built_def graph_ok_def code_ok_def data_ok_def ir_init_def cfg_wf_def cfg_of_def operand_at_def)

section \<open>Emitting an instruction\<close>

text \<open>A value the instruction may refer to from the function \<open>f\<close>.\<close>

definition usable :: "ir \<Rightarrow> addr \<Rightarrow> addr \<Rightarrow> bool" where
  "usable m f a \<longleftrightarrow> (\<exists>x. heap m a = Some x \<and> (is_instruction (kind x) \<longrightarrow> a \<in> set (listed m f)))"

lemma usable_alive: "usable m f a \<Longrightarrow> alive m a"
  by (auto simp: usable_def)

lemma operand_at_shape_of:
  "operand_at m u j = Some a \<longleftrightarrow>
     (\<exists>t k ops p nm. shape_of m u = Some (t, k, ops, p, nm) \<and> j < length ops \<and> ops ! j = Some a)"
  by (auto simp: operand_at_Some shape_of_def)

lemma emitted_fields:
  assumes "emitted t op vs b E i m m'"
  shows "uses_ok m'" "i = next_addr m" "shape_of m' i = Some (t, InstructionV op, map Some vs, Some b, [])"
    "a \<noteq> i \<Longrightarrow> shape_of m' a = shape_of m a"
    "instr_list m' c = instr_list m c @ (if c = b then [i] else [])"
    "cfg_of m' f = E (cfg_of m f)" "function_list m' = function_list m" "global_list m' = global_list m"
  using assms by (auto simp: emitted_def)

lemma emitted_object:
  assumes "emitted t op vs b E i m m'" "uses_ok m" "heap m a = Some x"
  shows "\<exists>x'. heap m' a = Some x' \<and> vtype x' = vtype x \<and> kind x' = kind x \<and> operands x' = operands x \<and>
    parent x' = parent x \<and> name x' = name x"
proof -
  have "a \<noteq> i" using uses_okD(1) [OF assms(2,3)] emitted_fields(2) [OF assms(1)] by simp
  then show ?thesis using shape_of_same [OF emitted_fields(4) [OF assms(1)]] assms(3) by blast
qed

lemma emitted_fresh: "emitted t op vs b E i m m' \<Longrightarrow> uses_ok m \<Longrightarrow> heap m i = None"
  using uses_okD(1) [of m i] emitted_fields(2) by (cases "heap m i") fastforce+

lemma emitted_object_back:
  assumes "emitted t op vs b E i m m'" "heap m' a = Some x'" "a \<noteq> i"
  shows "\<exists>x. heap m a = Some x \<and> vtype x' = vtype x \<and> kind x' = kind x \<and> operands x' = operands x \<and>
    parent x' = parent x \<and> name x' = name x"
  using emitted_fields(4) [OF assms(1,3)] assms(2) by (cases "heap m a") (auto simp: shape_of_def)

lemma emitted_blocks:
  assumes "emitted t op vs b E i m m'" "\<And>g. basic_blocks (E g) = basic_blocks g"
  shows "block_list m' f = block_list m f"
  using emitted_fields(6) [OF assms(1), of f] assms(2) [of "cfg_of m f"]
  by (simp add: cfg_of_def) (metis cfg.select_convs(1))

lemma emitted_listed:
  assumes "emitted t op vs b E i m m'" "\<And>g. basic_blocks (E g) = basic_blocks g"
  shows "set (listed m' f) = set (listed m f) \<union> (if b \<in> set (block_list m f) then {i} else {})"
  unfolding set_listed emitted_blocks [OF assms] by (auto simp: emitted_fields(5) [OF assms(1)] split: if_splits)

lemma emitted_graph_ok:
  assumes wb: "well_built m" and e: "emitted t op vs b E i m m'"
    and E: "\<And>g. basic_blocks (E g) = basic_blocks g"
    and wf: "\<And>g. cfg_wf (E (cfg_of m g))"
    and entry: "\<And>g. block_list m g \<noteq> [] \<Longrightarrow> pre_bbs (E (cfg_of m g)) (hd (block_list m g)) = []"
  shows "graph_ok m'"
proof -
  note gr = well_builtD(2) [OF wb] and u = well_builtD(1) [OF wb] and bl = emitted_blocks [OF e E] and fl = emitted_fields(7) [OF e]
  have pre: "pre_list m' = pre_bbs (E (cfg_of m g))" for g
    using emitted_fields(6) [OF e, of g] by (simp add: cfg_of_def) (metis cfg.select_convs(2))
  show ?thesis
    unfolding graph_ok_def bl fl
  proof (intro conjI allI impI)
    show "distinct (function_list m)" by (rule graph_okD(1) [OF gr])
    show "f \<in> set (function_list m) \<longleftrightarrow> (\<exists>x. heap m' f = Some x \<and> kind x = FunctionV)" for f
    proof (cases "f = i")
      case True
      then show ?thesis
        using graph_okD(2) [OF gr, of f] emitted_fresh [OF e u] emitted_fields(3) [OF e] by (auto simp: shape_of_Some)
    next
      case False
      then show ?thesis
        using graph_okD(2) [OF gr, of f] emitted_object [OF e u] emitted_object_back [OF e _ False] by metis
    qed
    show "f \<in> set (function_list m)" if "block_list m f \<noteq> []" for f
      using graph_okD(3) [OF gr, of "hd (block_list m f)" f] that by simp
    show "cfg_wf (cfg_of m' f)" for f unfolding emitted_fields(6) [OF e] by (rule wf)
    show "pre_list m' (hd (block_list m f)) = []" if "block_list m f \<noteq> []" for f
      unfolding pre [of f] by (rule entry [OF that])
    show "\<exists>y. heap m' c = Some y \<and> kind y = BasicBlockV \<and> parent y = Some f" if "c \<in> set (block_list m f)" for f c
      using graph_okD(6) [OF gr that] emitted_object [OF e u] by metis
  qed
qed

lemma emitted_code_ok:
  assumes wb: "well_built m" and e: "emitted t op vs b E i m m'"
    and E: "\<And>g. basic_blocks (E g) = basic_blocks g"
    and b: "b \<in> set (block_list m f)" and vs: "\<forall>v \<in> set vs. usable m f v"
    and arity: "arity_ok op (length vs)"
    and typed: "typed_ops m t op (map Some vs)"
  shows "code_ok m'"
proof -
  note u = well_builtD(1) [OF wb] and gr = well_builtD(2) [OF wb] and c = well_builtD(3) [OF wb]
    and bl = emitted_blocks [OF e E] and li = emitted_listed [OF e E] and fr = emitted_fresh [OF e u]
  have old: "i \<notin> set (instr_list m d)" for d using code_okD(3) [OF c, of i d] fr by (auto simp: instr_ok_def)
  have op: "operand_at m' w j = (if w = i then if j < length vs then Some (vs ! j) else None else operand_at m w j)" for w j
  proof (cases "w = i")
    case True
    then show ?thesis using emitted_fields(3) [OF e] by (auto simp: operand_at_def shape_of_Some)
  next
    case False
    then show ?thesis using operand_at_shape [OF emitted_fields(4) [OF e False]] by simp
  qed
  have old_alive: "v < i" if "usable m f v" for v
    using that uses_okD(1) [OF u] emitted_fields(2) [OF e] by (auto simp: usable_def)
  have mono: "typed_ops m' t' op' ops" if "typed_ops m t' op' ops" for t' op' ops
    by (rule typed_ops_mono [OF that]) (use emitted_object [OF e u] emitted_fields(7) [OF e] in auto)
  have new_ok: "instr_ok m' b i"
    using emitted_fields(3) [OF e] mono [OF typed] arity by (auto simp: instr_ok_def shape_of_Some is_instruction_def)
  show ?thesis
    unfolding code_ok_def bl
  proof (intro conjI allI impI)
    show "distinct (instr_list m' d)" for d
      using code_okD(1) [OF c, of d] old by (simp add: emitted_fields(5) [OF e])
    show "\<exists>f. d \<in> set (block_list m f)" if ne: "instr_list m' d \<noteq> []" for d
    proof (cases "d = b")
      case False
      then have "hd (instr_list m d) \<in> set (instr_list m d)" using ne by (simp add: emitted_fields(5) [OF e])
      then show ?thesis by (rule code_okD(2) [OF c])
    qed (use b in blast)
    show "instr_ok m' d j" if "j \<in> set (instr_list m' d)" for d j
    proof (cases "j = i")
      case True
      then have "d = b" using that old by (auto simp: emitted_fields(5) [OF e] split: if_splits)
      then show ?thesis using new_ok True by simp
    next
      case False
      then have "instr_ok m d j" using that code_okD(3) [OF c] by (auto simp: emitted_fields(5) [OF e] split: if_splits)
      then obtain x where x: "heap m j = Some x" "is_instruction (kind x)" "parent x = Some d" "None \<notin> set (operands x)"
        "arity_ok (op_id (kind x)) (length (operands x))"
        "typed_ops m (vtype x) (op_id (kind x)) (operands x)"
        by (auto simp: instr_ok_def)
      then show ?thesis using emitted_object [OF e u x(1)] mono [OF x(6)] by (auto simp: instr_ok_def)
    qed
    show "\<exists>f. j \<in> set (listed m' f)" if x: "heap m' j = Some x" "is_instruction (kind x)" for j x
    proof (cases "j = i")
      case True
      then show ?thesis unfolding li using b by auto
    next
      case False
      then obtain y where "heap m j = Some y" "kind x = kind y" using emitted_object_back [OF e x(1)] by auto
      then show ?thesis unfolding li using code_okD(4) [OF c, of j y] x(2) by auto
    qed
    show "a < w" if "operand_at m' w j = Some a" for w j a
      using that code_okD(5) [OF c, of w j a] old_alive vs by (auto simp: op split: if_splits)
    show "w \<in> set (listed m' g)" if o: "operand_at m' w j = Some a" and a: "a \<in> set (listed m' g)" for w j a g
    proof -
      have new: "v \<noteq> i" if "v \<in> set vs" for v using that vs old_alive by blast
      have "a \<noteq> i"
        using o new [of "vs ! j"] uses_okD(4) [OF u, of w j a] fr by (auto simp: op split: if_splits)
      then have a: "a \<in> set (listed m g)" using a by (auto simp: li split: if_splits)
      show ?thesis
      proof (cases "w = i")
        case False
        then show ?thesis using o code_okD(6) [OF c _ a, of w j] by (auto simp: op li split: if_splits)
      next
        case True
        then have "usable m f a" using o vs by (auto simp: op split: if_splits)
        moreover obtain d where d: "d \<in> set (block_list m g)" "a \<in> set (instr_list m d)"
          using a by (auto simp: set_listed)
        ultimately have "a \<in> set (listed m f)"
          using code_okD(3) [OF c d(2)] by (auto simp: usable_def instr_ok_def)
        then obtain d' where "d' \<in> set (block_list m f)" "a \<in> set (instr_list m d')" by (auto simp: set_listed)
        then have "f = g" using d instr_block_unique [OF c] block_unique [OF gr] by metis
        then show ?thesis using b True by (simp add: li)
      qed
    qed
  qed
qed

lemma emitted_well_built:
  assumes "well_built m" "emitted t op vs b E i m m'" "\<And>g. basic_blocks (E g) = basic_blocks g"
    "\<And>g. cfg_wf (E (cfg_of m g))" "\<And>g. block_list m g \<noteq> [] \<Longrightarrow> pre_bbs (E (cfg_of m g)) (hd (block_list m g)) = []"
    "b \<in> set (block_list m f)" "\<forall>v \<in> set vs. usable m f v" "arity_ok op (length vs)"
    "typed_ops m t op (map Some vs)"
  shows "well_built m'"
proof -
  note e = assms(2) and u = well_builtD(1) [OF assms(1)]
  have "data_ok m'"
  proof (rule data_ok_grow [OF well_builtD(4) [OF assms(1)]])
    show "\<exists>x'. heap m' a = Some x' \<and> vtype x' = vtype x \<and> kind x' = kind x" if "heap m a = Some x" for a x
      using emitted_object [OF e u that] by blast
    show "datum_ok m' x" if "heap m a = None" "heap m' a = Some x" for a x
      using that emitted_object_back [OF e that(2)] emitted_fields(3) [OF e] by (cases "a = i") (auto simp: datum_ok_def shape_of_Some)
  qed (use emitted_fields(8) [OF e] in simp)
  then show ?thesis
    using emitted_graph_ok [OF assms(1-5)] emitted_code_ok [OF assms(1-3,6-9)] emitted_fields(1) [OF e]
    by (simp add: well_built_def)
qed

lemma emitted_usable:
  assumes e: "emitted t op vs b E i m m'" and u: "uses_ok m" and E: "\<And>g. basic_blocks (E g) = basic_blocks g"
  shows "usable m f a \<Longrightarrow> usable m' f a" "b \<in> set (block_list m f) \<Longrightarrow> usable m' f i"
proof -
  show "usable m' f a" if a: "usable m f a"
  proof -
    obtain x where "heap m a = Some x" "is_instruction (kind x) \<longrightarrow> a \<in> set (listed m f)" using a by (auto simp: usable_def)
    then show ?thesis using emitted_object [OF e u] by (fastforce simp: usable_def emitted_listed [OF e E])
  qed
  show "usable m' f i" if "b \<in> set (block_list m f)"
    using that emitted_fields(3) [OF e] by (auto simp: usable_def shape_of_Some emitted_listed [OF e E])
qed

section \<open>Objects that are not instructions\<close>

text \<open>
  An operation that adds no instruction and keeps the lists of instructions; blocks may come and
  go as long as they are empty.
\<close>

definition extends :: "ir \<Rightarrow> ir \<Rightarrow> bool" where
  "extends m m' \<longleftrightarrow> (\<forall>a. heap m a \<noteq> None \<longrightarrow> shape_of m' a = shape_of m a) \<and>
     (\<forall>a x. heap m a = None \<longrightarrow> heap m' a = Some x \<longrightarrow> \<not> is_instruction (kind x) \<and> datum_ok m' x \<and>
        (\<forall>j v. j < length (operands x) \<longrightarrow> operands x ! j = Some v \<longrightarrow>
           v < a \<and> (\<forall>y. heap m' v = Some y \<longrightarrow> \<not> is_instruction (kind y)))) \<and>
     instr_list m' = instr_list m \<and> (\<forall>f. set (listed m' f) = set (listed m f)) \<and>
     set (function_list m) \<subseteq> set (function_list m') \<and>
     (\<forall>g \<in> set (global_list m'). g \<in> set (global_list m) \<or> global_at m' g)"

lemma extendsD:
  assumes "extends m m'"
  shows "heap m a \<noteq> None \<Longrightarrow> shape_of m' a = shape_of m a"
    "heap m a = None \<Longrightarrow> heap m' a = Some x \<Longrightarrow> \<not> is_instruction (kind x)"
    "heap m a = None \<Longrightarrow> operand_at m' a j = Some v \<Longrightarrow> v < a \<and> (\<forall>y. heap m' v = Some y \<longrightarrow> \<not> is_instruction (kind y))"
    "instr_list m' = instr_list m" "set (listed m' f) = set (listed m f)"
    "set (function_list m) \<subseteq> set (function_list m')"
    "heap m a = None \<Longrightarrow> heap m' a = Some x \<Longrightarrow> datum_ok m' x"
    "g \<in> set (global_list m') \<Longrightarrow> g \<in> set (global_list m) \<or> global_at m' g"
  using assms unfolding extends_def by (simp_all add: operand_at_Some) blast+

lemma extends_object:
  assumes "extends m m'" "heap m a = Some x"
  shows "\<exists>x'. heap m' a = Some x' \<and> vtype x' = vtype x \<and> kind x' = kind x \<and> operands x' = operands x \<and>
    parent x' = parent x \<and> name x' = name x"
  using shape_of_same [OF extendsD(1) [OF assms(1)] assms(2)] assms(2) by simp

lemma extends_data_ok:
  assumes "data_ok m" "extends m m'"
  shows "data_ok m'"
  by (rule data_ok_grow [OF assms(1)]) (use extends_object [OF assms(2)] extendsD(7,8) [OF assms(2)] in blast)+

lemma extends_usable: "extends m m' \<Longrightarrow> usable m f a \<Longrightarrow> usable m' f a"
  using extends_object extendsD(5) unfolding usable_def by metis

lemma extends_code_ok:
  assumes c: "code_ok m" and ex: "extends m m'"
    and bl: "\<And>b f. instr_list m b \<noteq> [] \<Longrightarrow> b \<in> set (block_list m f) \<Longrightarrow> b \<in> set (block_list m' f)"
  shows "code_ok m'"
proof -
  note obj = extends_object [OF ex] and li = extendsD(5) [OF ex] and il = extendsD(4) [OF ex]
  have op: "operand_at m' u j = operand_at m u j" if "heap m u \<noteq> None" for u j
    by (rule operand_at_shape [OF extendsD(1) [OF ex that]])
  show ?thesis
    unfolding code_ok_def il li
  proof (intro conjI allI impI)
    show "distinct (instr_list m b)" for b by (rule code_okD(1) [OF c])
    show "\<exists>f. b \<in> set (block_list m' f)" if ne: "instr_list m b \<noteq> []" for b
    proof -
      have "hd (instr_list m b) \<in> set (instr_list m b)" using ne by simp
      then show ?thesis using code_okD(2) [OF c] bl [OF ne] by blast
    qed
    show "instr_ok m' b i" if i: "i \<in> set (instr_list m b)" for b i
    proof -
      obtain x where x: "heap m i = Some x" "is_instruction (kind x)" "parent x = Some b" "None \<notin> set (operands x)"
        "arity_ok (op_id (kind x)) (length (operands x))"
        "typed_ops m (vtype x) (op_id (kind x)) (operands x)"
        using code_okD(3) [OF c i] by (auto simp: instr_ok_def)
      have "typed_ops m' (vtype x) (op_id (kind x)) (operands x)"
        by (rule typed_ops_mono [OF x(6) extendsD(6) [OF ex]]) (use obj in blast)
      then show ?thesis using x obj [OF x(1)] by (auto simp: instr_ok_def)
    qed
    show "\<exists>f. i \<in> set (listed m f)" if x: "heap m' i = Some x" "is_instruction (kind x)" for i x
    proof (cases "heap m i")
      case None
      then show ?thesis using extendsD(2) [OF ex None x(1)] x(2) by simp
    next
      case (Some y)
      then show ?thesis using obj [OF Some] x code_okD(4) [OF c Some] by auto
    qed
    show "a < u" if "operand_at m' u j = Some a" for u j a
      using that extendsD(3) [OF ex _ that] op [of u j] code_okD(5) [OF c, of u j a] by (cases "heap m u") auto
    show "u \<in> set (listed m f)" if o: "operand_at m' u j = Some a" and a: "a \<in> set (listed m f)" for u j a f
    proof (cases "heap m u")
      case None
      obtain b where "a \<in> set (instr_list m b)" using a by (auto simp: set_listed)
      then obtain x where "heap m a = Some x" "is_instruction (kind x)"
        using code_okD(3) [OF c] by (auto simp: instr_ok_def)
      then show ?thesis using extendsD(3) [OF ex None o] obj by fastforce
    qed (use o a op code_okD(6) [OF c] in simp)
  qed
qed

lemma cfg_wf_cong:
  assumes "basic_blocks g' = basic_blocks g"
    "\<And>b. b \<in> set (basic_blocks g) \<Longrightarrow> pre_bbs g' b = pre_bbs g b \<and> succ_bbs g' b = succ_bbs g b"
  shows "cfg_wf g' = cfg_wf g"
  using assms by (simp add: cfg_wf_def)

text \<open>The graphs stay as they are, apart from new functions without blocks.\<close>

lemma extends_well_built:
  assumes wb: "well_built m" and ex: "extends m m'" and u: "uses_ok m'"
    and g: "\<And>f. cfg_of m' f = cfg_of m f" and d: "distinct (function_list m')"
    and fl: "\<And>a x. heap m a = None \<Longrightarrow> heap m' a = Some x \<Longrightarrow> kind x = FunctionV \<longleftrightarrow> a \<in> set (function_list m')"
    and new: "\<And>a. a \<in> set (function_list m') \<Longrightarrow> heap m' a \<noteq> None \<and> (heap m a \<noteq> None \<longrightarrow> a \<in> set (function_list m))"
  shows "well_built m'"
proof -
  note gr = well_builtD(2) [OF wb]
  have bl: "block_list m' = block_list m" using g by (simp add: cfg_of_def fun_eq_iff)
  have pre: "pre_list m' = pre_list m" using g by (simp add: cfg_of_def)
  have "graph_ok m'"
    unfolding graph_ok_def bl pre
  proof (intro conjI allI impI)
    show "distinct (function_list m')" by (rule d)
    show "f \<in> set (function_list m') \<longleftrightarrow> (\<exists>x. heap m' f = Some x \<and> kind x = FunctionV)" for f
    proof (cases "heap m f")
      case None
      then show ?thesis using fl [OF None] new [of f] by (cases "heap m' f") auto
    next
      case (Some y)
      then show ?thesis
        using extends_object [OF ex Some] graph_okD(2) [OF gr, of f] new [of f] extendsD(6) [OF ex] by auto
    qed
    show "f \<in> set (function_list m')" if "block_list m f \<noteq> []" for f
      using graph_okD(3) [OF gr, of "hd (block_list m f)" f] that extendsD(6) [OF ex] by auto
    show "cfg_wf (cfg_of m' f)" for f unfolding g by (rule graph_okD(4) [OF gr])
    show "pre_list m (hd (block_list m f)) = []" if "block_list m f \<noteq> []" for f using graph_okD(5) [OF gr that] .
    show "\<exists>y. heap m' b = Some y \<and> kind y = BasicBlockV \<and> parent y = Some f" if "b \<in> set (block_list m f)" for f b
      using graph_okD(6) [OF gr that] extends_object [OF ex] by metis
  qed
  moreover have "code_ok m'" by (rule extends_code_ok [OF well_builtD(3) [OF wb] ex]) (simp add: bl)
  ultimately show ?thesis using u extends_data_ok [OF well_builtD(4) [OF wb] ex] by (simp add: well_built_def)
qed

section \<open>Constants, blocks, functions and global variables\<close>

lemma alloc_fields:
  assumes "alloc x m = (a, m')"
  shows "a = next_addr m" "heap m' = (heap m)(a \<mapsto> x)" "instr_list m' = instr_list m" "block_list m' = block_list m"
    "function_list m' = function_list m" "cfg_of m' f = cfg_of m f" "arguments m' = arguments m"
    "pre_list m' = pre_list m" "succ_list m' = succ_list m" "next_addr m' = Suc a" "global_list m' = global_list m"
  using assms by (auto simp: alloc_def cfg_of_def)

lemma fresh_addr: "uses_ok m \<Longrightarrow> next_addr m \<le> a \<Longrightarrow> heap m a = None"
  using uses_okD(1) [of m a] by (cases "heap m a") fastforce+

lemma new_constant_built:
  assumes wb: "well_built m" and run: "new_constant t k m = (a, m')" and k: "leaf_constant k"
  shows "well_built m' \<and> extends m m' \<and> (\<forall>f. usable m' f a) \<and> (\<forall>f. cfg_of m' f = cfg_of m f)"
proof -
  note al = alloc_fields [OF run [unfolded new_constant_def]]
  have a: "heap m a = None" using fresh_addr [OF well_builtD(1) [OF wb]] al(1) by simp
  have kinds: "\<not> is_instruction k" "k \<noteq> FunctionV" using k by (auto simp: leaf_constant_def is_instruction_def split: value_kind.splits)
  have datum: "datum_ok m' (new_val t [] k 0 None)"
    using k by (auto simp: leaf_constant_def datum_ok_def new_val_def split: value_kind.splits)
  have u: "uses_ok m'"
    using alloc_uses [OF well_builtD(1) [OF wb], of 0 k t "[]" None] run by (simp add: new_constant_def)
  have ex: "extends m m'"
    using a kinds al datum by (auto simp: extends_def shape_of_def new_val_def listed_def)
  have f: "a \<notin> set (function_list m)" using graph_okD(2) [OF well_builtD(2) [OF wb], of a] a by simp
  have "well_built m'"
    by (rule extends_well_built [OF wb ex u])
      (use al f kinds graph_okD(1,2) [OF well_builtD(2) [OF wb]] in \<open>auto simp: new_val_def split: if_splits\<close>)
  then show ?thesis using ex al kinds by (auto simp: usable_def new_val_def)
qed

lemma create_basic_block_fields:
  assumes "create_basic_block nm (Some f) m = Inr (b, m')"
  shows "b = next_addr m" "heap m' = (heap m)(b \<mapsto> new_val LabelTy ((if nm = [] then [] else ''label_'') @ nm) BasicBlockV 0 (Some f))"
    "instr_list m' = instr_list m" "block_list m' = (block_list m)(f := block_list m f @ [b])"
    "pre_list m' = (pre_list m)(b := [])" "succ_list m' = (succ_list m)(b := [])"
    "function_list m' = function_list m" "arguments m' = arguments m" "next_addr m' = Suc b" "global_list m' = global_list m"
  using assms by (auto simp: create_basic_block_def alloc_def Let_def set_cfg_def add_basic_block_def cfg_of_def)

lemma create_basic_block_built:
  assumes wb: "well_built m" and f: "f \<in> set (function_list m)" and run: "create_basic_block nm (Some f) m = Inr (b, m')"
  shows "well_built m' \<and> extends m m'"
proof -
  note cb = create_basic_block_fields [OF run] and gr = well_builtD(2) [OF wb] and c = well_builtD(3) [OF wb]
  have b: "heap m b = None" using fresh_addr [OF well_builtD(1) [OF wb]] cb(1) by simp
  have nb: "b \<notin> set (block_list m g)" for g using blocks_alive [OF gr] b by blast
  have il: "instr_list m b = []" using code_okD(2) [OF c, of "hd (instr_list m b)" b] nb by (cases "instr_list m b") auto
  have ex: "extends m m'"
    using b cb il by (auto simp: extends_def shape_of_def new_val_def set_listed is_instruction_def datum_ok_def)
  have bf: "b \<noteq> f" "b \<notin> set (function_list m)" using b graph_okD(2) [OF gr, of f] graph_okD(2) [OF gr, of b] f by auto
  have fl: "g \<in> set (function_list m) \<longleftrightarrow> (\<exists>x. heap m' g = Some x \<and> kind x = FunctionV)" for g
    using graph_okD(2) [OF gr, of g] bf(2) cb(2) by (auto simp: new_val_def)
  have wf: "cfg_wf (cfg_of m' g)" for g
  proof (cases "g = f")
    case True
    have "cfg_of m' f = add_basic_block b (cfg_of m f)" using cb by (simp add: cfg_of_def add_basic_block_def)
    then show ?thesis using True add_basic_block_wf [OF graph_okD(4) [OF gr, of f]] nb by (simp add: cfg_of_def)
  next
    case False
    have "cfg_wf (cfg_of m' g) = cfg_wf (cfg_of m g)"
    proof (rule cfg_wf_cong)
      show "basic_blocks (cfg_of m' g) = basic_blocks (cfg_of m g)" using False cb(4) by (simp add: cfg_of_def)
      show "pre_bbs (cfg_of m' g) d = pre_bbs (cfg_of m g) d \<and> succ_bbs (cfg_of m' g) d = succ_bbs (cfg_of m g) d"
        if "d \<in> set (basic_blocks (cfg_of m g))" for d
        using that nb [of g] cb(5,6) by (auto simp: cfg_of_def)
    qed
    then show ?thesis using graph_okD(4) [OF gr] by simp
  qed
  have entry: "pre_list m' (hd (block_list m' g)) = []" if "block_list m' g \<noteq> []" for g
  proof (cases "block_list m g = []")
    case True
    then show ?thesis using that cb(4,5) by (auto split: if_splits)
  next
    case False
    then have "hd (block_list m' g) = hd (block_list m g)" using cb(4) by (cases "g = f") (simp_all add: hd_append)
    then show ?thesis using graph_okD(5) [OF gr False] cb(5) by simp
  qed
  have placed: "\<exists>y. heap m' d = Some y \<and> kind y = BasicBlockV \<and> parent y = Some g" if "d \<in> set (block_list m' g)" for g d
  proof (cases "d = b")
    case True
    then have "g = f" using that nb [of g] cb(4) by (auto split: if_splits)
    then show ?thesis using True cb(2) by (simp add: new_val_def)
  next
    case False
    then have "d \<in> set (block_list m g)" using that cb(4) by (auto split: if_splits)
    then show ?thesis using graph_okD(6) [OF gr] False cb(2) by simp
  qed
  have "graph_ok m'"
    unfolding graph_ok_def cb(7)
  proof (intro conjI allI impI)
    show "g \<in> set (function_list m)" if "block_list m' g \<noteq> []" for g
      using that graph_okD(3) [OF gr, of "hd (block_list m g)" g] f cb(4) by (cases "g = f") auto
  qed (use graph_okD(1) [OF gr] fl wf entry placed in blast)+
  moreover have "uses_ok m'"
  proof (rule iffD2 [OF uses_ok_heap])
    show "uses_ok (snd (alloc (new_val LabelTy ((if nm = [] then [] else ''label_'') @ nm) BasicBlockV 0 (Some f)) m))"
      by (rule alloc_uses [OF well_builtD(1) [OF wb]]) simp
  qed (use cb in \<open>auto simp: alloc_def\<close>)
  moreover have "code_ok m'" by (rule extends_code_ok [OF c ex]) (auto simp: cb(4))
  ultimately show ?thesis using ex extends_data_ok [OF well_builtD(4) [OF wb] ex] by (simp add: well_built_def)
qed

text \<open>A block that no branch leads to or from leaves without a trace.\<close>

lemma erase_from_parent_built:
  assumes wb: "well_built m" and b: "b \<in> set (tl (block_list m f))" and run: "erase_from_parent b m = Inr m'"
    and empty: "instr_list m b = []" "pre_list m b = []" "succ_list m b = []"
  shows "well_built m' \<and> extends m m' \<and> heap m' = heap m \<and> instr_list m' = instr_list m \<and>
    block_list m' = (block_list m)(f := removeAll b (block_list m f)) \<and>
    pre_list m' = pre_list m \<and> succ_list m' = succ_list m \<and> function_list m' = function_list m \<and>
    next_addr m' = next_addr m \<and> arguments m' = arguments m"
proof -
  note gr = well_builtD(2) [OF wb] and c = well_builtD(3) [OF wb]
  have bf: "b \<in> set (block_list m f)" using b by (cases "block_list m f") auto
  obtain y where y: "heap m b = Some y" "parent y = Some f" using graph_okD(6) [OF gr bf] by blast
  let ?g = "remove_block b (cfg_of m f)"
  have m': "m' = set_cfg f ?g m" using run y by (simp add: erase_from_parent_def get_val_def)
  have g: "?g = (cfg_of m f)\<lparr>basic_blocks := removeAll b (block_list m f)\<rparr>"
    by (simp add: remove_block_def cfg_of_def empty)
  have fields: "heap m' = heap m" "instr_list m' = instr_list m"
    "block_list m' = (block_list m)(f := removeAll b (block_list m f))"
    "pre_list m' = pre_list m" "succ_list m' = succ_list m" "function_list m' = function_list m"
    "next_addr m' = next_addr m" "arguments m' = arguments m" "global_list m' = global_list m"
    using m' g by (simp_all add: set_cfg_def cfg_of_def)
  have sub: "set (block_list m' g) \<subseteq> set (block_list m g)" for g by (auto simp: fields)
  have ex: "extends m m'"
    using fields empty by (auto simp: extends_def shape_of_def set_listed)
  have hd: "hd (block_list m' g) = hd (block_list m g)" for g
  proof (cases "g = f")
    case True
    have "distinct (block_list m f)" using cfg_wf_distinct [OF graph_okD(4) [OF gr, of f]] by (simp add: cfg_of_def)
    then show ?thesis using b True by (cases "block_list m f") (auto simp: fields)
  qed (simp add: fields)
  have wf: "cfg_wf (cfg_of m' g)" for g
  proof (cases "g = f")
    case True
    then show ?thesis using remove_block_wf [OF graph_okD(4) [OF gr, of f], of b] g fields bf
      by (simp add: cfg_of_def)
  next
    case False
    then show ?thesis using graph_okD(4) [OF gr, of g] by (simp add: cfg_of_def fields)
  qed
  have "graph_ok m'"
    unfolding graph_ok_def fields(6)
  proof (intro conjI allI impI)
    show "distinct (function_list m)" using graph_okD(1) [OF gr] .
    show "g \<in> set (function_list m) \<longleftrightarrow> (\<exists>x. heap m' g = Some x \<and> kind x = FunctionV)" for g
      unfolding fields by (rule graph_okD(2) [OF gr])
    show "g \<in> set (function_list m)" if "block_list m' g \<noteq> []" for g
      using that graph_okD(3) [OF gr, of "hd (block_list m' g)" g] sub [of g] by (metis hd_in_set subsetD)
    show "cfg_wf (cfg_of m' g)" for g by (rule wf)
    show "pre_list m' (hd (block_list m' g)) = []" if "block_list m' g \<noteq> []" for g
      unfolding hd fields(4) by (rule graph_okD(5) [OF gr]) (use that sub [of g] in auto)
    show "\<exists>y. heap m' d = Some y \<and> kind y = BasicBlockV \<and> parent y = Some g" if "d \<in> set (block_list m' g)" for g d
      unfolding fields(1) using graph_okD(6) [OF gr] that sub by blast
  qed
  moreover have "uses_ok m'" using well_builtD(1) [OF wb] uses_ok_heap [OF fields(1,7)] by simp
  moreover have "code_ok m'"
    by (rule extends_code_ok [OF c ex]) (use empty in \<open>auto simp: fields\<close>)
  ultimately show ?thesis using ex fields extends_data_ok [OF well_builtD(4) [OF wb] ex] by (simp add: well_built_def)
qed

lemma build_args_fields:
  assumes "m' = build_args f n ts m"
  shows "next_addr m' = next_addr m + length ts \<and>
    (\<forall>a. (a < next_addr m \<or> next_addr m' \<le> a) \<longrightarrow> heap m' a = heap m a) \<and>
    (\<forall>a. next_addr m \<le> a \<longrightarrow> a < next_addr m' \<longrightarrow>
       (\<exists>x k. heap m' a = Some x \<and> kind x = ArgumentV k \<and> operands x = [])) \<and>
    instr_list m' = instr_list m \<and> block_list m' = block_list m \<and> pre_list m' = pre_list m \<and>
    succ_list m' = succ_list m \<and> function_list m' = function_list m \<and> global_list m' = global_list m \<and>
    arguments m' = (arguments m)(f := arguments m f @ [next_addr m..<next_addr m'])"
  using assms
proof (induction ts arbitrary: n m)
  case (Cons t ts)
  define m1 where "m1 = (snd (alloc (new_val t [] (ArgumentV n) 0 (Some f)) m))
    \<lparr>arguments := (arguments m)(f := arguments m f @ [next_addr m])\<rparr>"
  have m1: "next_addr m1 = Suc (next_addr m)" "heap m1 = (heap m)(next_addr m \<mapsto> new_val t [] (ArgumentV n) 0 (Some f))"
    "instr_list m1 = instr_list m" "block_list m1 = block_list m" "pre_list m1 = pre_list m"
    "succ_list m1 = succ_list m" "function_list m1 = function_list m"
    "arguments m1 = (arguments m)(f := arguments m f @ [next_addr m])" "global_list m1 = global_list m"
    by (simp_all add: m1_def alloc_def)
  have m': "m' = build_args f (Suc n) ts m1" using Cons.prems by (simp add: m1_def alloc_def Let_def)
  note ih = Cons.IH [OF m']
  have new: "\<exists>x k. heap m' a = Some x \<and> kind x = ArgumentV k \<and> operands x = []"
    if "next_addr m \<le> a" "a < next_addr m'" for a
  proof (cases "a = next_addr m")
    case True
    then have "heap m' a = heap m1 a" using ih m1(1) by simp
    then show ?thesis using True m1(2) by (simp add: new_val_def)
  qed (use that ih m1(1) in auto)
  have "[next_addr m..<next_addr m'] = next_addr m # [next_addr m1..<next_addr m']"
    using ih m1(1) by (simp add: upt_conv_Cons del: upt_Suc)
  then have "arguments m' = (arguments m)(f := arguments m f @ [next_addr m..<next_addr m'])"
    using ih m1(8) by auto
  moreover have "heap m' a = heap m a" if "a < next_addr m \<or> next_addr m' \<le> a" for a
    using that ih m1(1,2) by auto
  moreover have "next_addr m' = next_addr m + length (t # ts)" using ih m1(1) by simp
  moreover have "instr_list m' = instr_list m \<and> block_list m' = block_list m \<and> pre_list m' = pre_list m \<and>
      succ_list m' = succ_list m \<and> function_list m' = function_list m \<and> global_list m' = global_list m"
    using ih m1(3-7,9) by simp
  ultimately show ?case using new by blast
qed auto

lemma create_function_built:
  assumes wb: "well_built m" and run: "create_function t nm m = (f, m')" and t: "\<exists>r ps. t = FunctionTy r ps"
  shows "well_built m' \<and> extends m m' \<and> (\<forall>g. cfg_of m' g = cfg_of m g) \<and> heap m f = None \<and>
    f \<in> set (function_list m') \<and> block_list m' f = [] \<and>
    (\<exists>x. heap m' f = Some x \<and> kind x = FunctionV \<and> vtype x = t \<and> name x = nm) \<and>
    (\<exists>l. arguments m' = (arguments m)(f := arguments m f @ l) \<and> length l = length (param_types t) \<and>
       (\<forall>a \<in> set l. \<exists>x. heap m' a = Some x \<and> \<not> is_instruction (kind x)))"
proof -
  define m1 where "m1 = (snd (alloc (new_val t nm FunctionV 0 None) m))\<lparr>function_list := function_list m @ [next_addr m]\<rparr>"
  have f: "f = next_addr m" and m': "m' = build_args f 0 (param_types t) m1"
    using run by (auto simp: create_function_def alloc_def m1_def Let_def)
  note ba = build_args_fields [OF m'] and gr = well_builtD(2) [OF wb] and u = well_builtD(1) [OF wb]
  have m1: "next_addr m1 = Suc f" "heap m1 = (heap m)(f \<mapsto> new_val t nm FunctionV 0 None)" "function_list m1 = function_list m @ [f]"
    "instr_list m1 = instr_list m" "block_list m1 = block_list m" "pre_list m1 = pre_list m"
    "succ_list m1 = succ_list m" "arguments m1 = arguments m" "global_list m1 = global_list m"
    by (simp_all add: m1_def alloc_def f)
  have fresh: "heap m a = None" if "f \<le> a" for a using fresh_addr [OF u] that f by simp
  have old: "heap m' a = heap m a" if "a \<noteq> f" "a < f \<or> next_addr m' \<le> a" for a
  proof -
    have "a < next_addr m1 \<or> next_addr m' \<le> a" using that ba m1(1) by auto
    then show ?thesis using ba m1(2) that(1) by (metis fun_upd_apply)
  qed
  have oldS: "a < f" if "heap m a \<noteq> None" for a using that fresh [of a] by (cases "a < f") auto
  have hf: "heap m' f = Some (new_val t nm FunctionV 0 None)" using ba m1(1,2) by simp
  have arg: "\<exists>x k. heap m' a = Some x \<and> kind x = ArgumentV k \<and> operands x = []" if "f < a" "a < next_addr m'" for a
    using that ba m1(1) by simp
  have new: "kind x = FunctionV \<and> a = f \<and> operands x = [] \<or> (\<exists>k. kind x = ArgumentV k) \<and> operands x = [] \<and> a \<noteq> f"
    if "heap m a = None" "heap m' a = Some x" for a x
  proof -
    have "f < next_addr m'" using ba m1(1) by simp
    moreover have "\<not> (a \<noteq> f \<and> (a < f \<or> next_addr m' \<le> a))" using that old [of a] by auto
    ultimately have "f \<le> a \<and> a < next_addr m'" by linarith
    then show ?thesis using that(2) hf arg [of a] by (cases "a = f") (auto simp: new_val_def)
  qed
  have datum: "datum_ok m' x" if "heap m a = None" "heap m' a = Some x" for a x
    using new [OF that] hf that(2) t by (auto simp: datum_ok_def new_val_def)
  have ex: "extends m m'"
    unfolding extends_def
  proof (intro conjI allI impI)
    show "shape_of m' a = shape_of m a" if "heap m a \<noteq> None" for a
      using old [of a] oldS [OF that] by (simp add: shape_of_def)
    show "\<not> is_instruction (kind x)" if "heap m a = None" "heap m' a = Some x" for a x
      using new [OF that] by (auto simp: is_instruction_def)
    show "datum_ok m' x" if "heap m a = None" "heap m' a = Some x" for a x using datum [OF that] .
    show "v < a" "\<not> is_instruction (kind y)"
      if "heap m a = None" "heap m' a = Some x" "j < length (operands x)" for a x j v y
      using new [OF that(1,2)] that(3) by auto
    show "set (listed m' g) = set (listed m g)" for g using ba m1 by (simp add: set_listed)
  qed (use ba m1 in auto)
  have nf: "f \<notin> set (function_list m)" using graph_okD(2) [OF gr, of f] fresh [of f] by simp
  have "well_built m'"
  proof (rule extends_well_built [OF wb ex])
    show "uses_ok m'" by (rule create_function_uses [OF u run])
    show "cfg_of m' g = cfg_of m g" for g using ba m1 by (simp add: cfg_of_def)
    show "distinct (function_list m')" using ba m1 nf graph_okD(1) [OF gr] by simp
    show "(kind x = FunctionV) = (a \<in> set (function_list m'))" if "heap m a = None" "heap m' a = Some x" for a x
      using new [OF that] graph_okD(2) [OF gr, of a] that(1) ba m1(3) by auto
    show "heap m' a \<noteq> None \<and> (heap m a \<noteq> None \<longrightarrow> a \<in> set (function_list m))" if "a \<in> set (function_list m')" for a
    proof (cases "a = f")
      case False
      then have "a \<in> set (function_list m)" using that ba m1(3) by simp
      then show ?thesis using graph_okD(2) [OF gr, of a] extends_object [OF ex] by fastforce
    qed (use hf fresh in simp)
  qed
  moreover have "arguments m' = (arguments m)(f := arguments m f @ [next_addr m1..<next_addr m'])"
    using ba m1(8) by simp
  moreover have "block_list m f = []"
    using graph_okD(3) [OF gr, of "hd (block_list m f)" f] nf by (cases "block_list m f") auto
  moreover have "length [next_addr m1..<next_addr m'] = length (param_types t)" using ba by simp
  moreover have "\<forall>a \<in> set [next_addr m1..<next_addr m']. \<exists>x. heap m' a = Some x \<and> \<not> is_instruction (kind x)"
  proof
    fix a
    assume "a \<in> set [next_addr m1..<next_addr m']"
    then have "f < a" "a < next_addr m'" using m1(1) by auto
    then show "\<exists>x. heap m' a = Some x \<and> \<not> is_instruction (kind x)"
      using arg [of a] by (auto simp: is_instruction_def)
  qed
  moreover have "cfg_of m' g = cfg_of m g" for g using ba m1 by (simp add: cfg_of_def)
  ultimately have "\<exists>l. arguments m' = (arguments m)(f := arguments m f @ l) \<and> length l = length (param_types t) \<and>
      (\<forall>a \<in> set l. \<exists>x. heap m' a = Some x \<and> \<not> is_instruction (kind x))"
    "well_built m'" "\<And>g. cfg_of m' g = cfg_of m g" "block_list m f = []"
    by blast+
  moreover have "\<exists>x. heap m' f = Some x \<and> kind x = FunctionV \<and> vtype x = t \<and> name x = nm"
    using hf by (simp add: new_val_def)
  moreover have "f \<in> set (function_list m')" "block_list m' f = block_list m f" using ba m1(3,5) by simp_all
  ultimately show ?thesis using ex fresh [of f] by simp
qed

lemma create_global_variable_built:
  assumes wb: "well_built m" and z: "heap m z = Some w" "leaf_constant (kind w)"
    and run: "create_global_variable nm t c (Some z) m = Inr (g, m')"
  shows "well_built m' \<and> extends m m' \<and> (\<forall>f. cfg_of m' f = cfg_of m f) \<and> arguments m' = arguments m \<and>
    (\<exists>x. heap m' g = Some x \<and> \<not> is_instruction (kind x) \<and> kind x \<noteq> FunctionV \<and> vtype x = PointerTy t)"
proof -
  let ?x = "new_val (PointerTy t) nm (GlobalVariableV c (Some z)) 1 None"
  define m1 where "m1 = (snd (alloc ?x m))\<lparr>global_list := global_list m @ [next_addr m]\<rparr>"
  note gr = well_builtD(2) [OF wb] and u = well_builtD(1) [OF wb]
  have g: "g = next_addr m" and set: "set_operand g 0 z m1 = Inr m'"
    using run by (auto simp: create_global_variable_def alloc_def m1_def Let_def rbind_eq_Inr)
  have m1: "heap m1 = (heap m)(g \<mapsto> ?x)" "instr_list m1 = instr_list m" "block_list m1 = block_list m"
    "pre_list m1 = pre_list m" "succ_list m1 = succ_list m" "function_list m1 = function_list m" "arguments m1 = arguments m"
    "global_list m1 = global_list m @ [g]"
    by (simp_all add: m1_def alloc_def g)
  have fresh: "heap m g = None" using fresh_addr [OF u] g by simp
  have zg: "z < g" using uses_okD(1) [OF u z(1)] g by simp
  note s = set_operand_shape [OF set, of ?x]
  have fields: "\<forall>a. a \<noteq> g \<longrightarrow> shape_of m' a = shape_of m a" "lists_of m' = lists_of m1"
    using s m1(1) by (auto simp: shape_of_def)
  note l = lists_of_fields [OF fields(2), unfolded m1]
  obtain x' where x': "heap m' g = Some x'" "kind x' = GlobalVariableV c (Some z)" "operands x' = [Some z]" "vtype x' = PointerTy t"
    using s m1(1) by (auto simp: new_val_def)
  have new: "a = g" if "heap m a = None" "heap m' a = Some x" for a x
    using that fields(1) by (metis option.distinct(1) shape_of_None)
  have ex: "extends m m'"
    unfolding extends_def
  proof (intro conjI allI impI ballI)
    show "shape_of m' a = shape_of m a" if "heap m a \<noteq> None" for a using that fresh fields(1) by metis
    show "\<not> is_instruction (kind x)" if "heap m a = None" "heap m' a = Some x" for a x
      using new [OF that] that(2) x' by (simp add: is_instruction_def)
    have z': "\<exists>w'. heap m' z = Some w' \<and> kind w' = kind w"
      using shape_of_same [of m' z m] fields(1) zg z(1) by fastforce
    then show "datum_ok m' x" if "heap m a = None" "heap m' a = Some x" for a x
      using new [OF that] that(2) x' z(2) by (auto simp: datum_ok_def)
    show "g' \<in> set (global_list m) \<or> global_at m' g'" if "g' \<in> set (global_list m')" for g'
      using that l x' by (auto simp: global_at_def)
    have v: "v = z \<and> a = g" if "heap m a = None" "heap m' a = Some x" "j < length (operands x)" "operands x ! j = Some v" for a x j v
      using new [OF that(1,2)] that(2-4) x' by simp
    show "v < a" if "heap m a = None" "heap m' a = Some x" "j < length (operands x)" "operands x ! j = Some v" for a x j v
      using v [OF that] zg by simp
    have zi: "\<not> is_instruction (kind w)" using z(2) by (auto simp: leaf_constant_def is_instruction_def split: value_kind.splits)
    then show "\<not> is_instruction (kind y)"
      if "heap m a = None" "heap m' a = Some x" "j < length (operands x)" "operands x ! j = Some v" "heap m' v = Some y" for a x j v y
      using v [OF that(1-4)] that(5) z' zi by auto
    show "set (listed m' f) = set (listed m f)" for f using l by (simp add: set_listed)
  qed (use l in auto)
  have "well_built m'"
  proof (rule extends_well_built [OF wb ex])
    show "uses_ok m'" by (rule create_global_variable_uses [OF u _ run]) (use z(1) in simp)
    show "cfg_of m' f = cfg_of m f" for f using l by (simp add: cfg_of_def)
    show "distinct (function_list m')" using l graph_okD(1) [OF gr] by simp
    show "(kind x = FunctionV) = (a \<in> set (function_list m'))" if "heap m a = None" "heap m' a = Some x" for a x
      using new [OF that] that(2) x' l graph_okD(2) [OF gr, of g] fresh by auto
    show "heap m' a \<noteq> None \<and> (heap m a \<noteq> None \<longrightarrow> a \<in> set (function_list m))" if "a \<in> set (function_list m')" for a
      using that l graph_okD(2) [OF gr, of a] extends_object [OF ex] by fastforce
  qed
  then show ?thesis using ex x' l by (auto simp: cfg_of_def is_instruction_def)
qed

end
