(* ===== verification/Builder_Flow.thy ===== *)
theory Builder_Flow
  imports Builder_Program Ir_Built
begin

text \<open>
  The invariant of the builder inside the body of a function: the module is well built, every
  block but the current one and the pending ones ends with its only terminator, and every name
  in scope stands for a value the function may use.
\<close>

section \<open>Blocks\<close>

fun branch_targets :: "addr option list \<Rightarrow> addr list" where
  "branch_targets [Some t] = [t]"
| "branch_targets [_, Some t, Some f] = [f, t]"
| "branch_targets _ = []"

definition targets :: "ir \<Rightarrow> addr \<Rightarrow> addr list" where
  "targets m i = (case heap m i of
       Some x \<Rightarrow> if kind x = InstructionV Br then branch_targets (operands x) else [] | None \<Rightarrow> [])"

definition is_term :: "ir \<Rightarrow> addr \<Rightarrow> bool" where
  "is_term m i = (case heap m i of Some x \<Rightarrow> isTerminator x | None \<Rightarrow> False)"

definition open_block :: "ir \<Rightarrow> addr \<Rightarrow> bool" where
  "open_block m b \<longleftrightarrow> (\<forall>i \<in> set (instr_list m b). \<not> is_term m i) \<and> succ_list m b = []"

text \<open>The successors of a finished block are the targets of its last instruction.\<close>

definition sealed :: "ir \<Rightarrow> addr \<Rightarrow> bool" where
  "sealed m b \<longleftrightarrow> instr_list m b \<noteq> [] \<and> (\<forall>i \<in> set (butlast (instr_list m b)). \<not> is_term m i) \<and>
     is_term m (last (instr_list m b)) \<and> succ_list m b = targets m (last (instr_list m b))"

definition blank :: "ir \<Rightarrow> addr \<Rightarrow> bool" where
  "blank m b \<longleftrightarrow> instr_list m b = [] \<and> succ_list m b = []"

lemma blank_open: "blank m b \<Longrightarrow> open_block m b"
  by (simp add: blank_def open_block_def)

text \<open>The edges that an instruction at the end of \<open>b\<close> with the targets \<open>ts\<close> draws.\<close>

definition draws :: "(cfg \<Rightarrow> cfg) \<Rightarrow> bb \<Rightarrow> bb list \<Rightarrow> bool" where
  "draws E b ts \<longleftrightarrow> (\<forall>g. basic_blocks (E g) = basic_blocks g) \<and>
     (\<forall>g c. succ_bbs (E g) c = succ_bbs g c @ (if c = b then ts else [])) \<and>
     (\<forall>g c. c \<notin> set ts \<longrightarrow> pre_bbs (E g) c = pre_bbs g c) \<and>
     (\<forall>g. cfg_wf g \<longrightarrow> insert b (set ts) \<subseteq> set (basic_blocks g) \<or> insert b (set ts) \<inter> set (basic_blocks g) = {} \<longrightarrow>
        cfg_wf (E g))"

lemma drawsD:
  assumes "draws E b ts"
  shows "basic_blocks (E g) = basic_blocks g"
    "succ_bbs (E g) c = succ_bbs g c @ (if c = b then ts else [])"
    "c \<notin> set ts \<Longrightarrow> pre_bbs (E g) c = pre_bbs g c"
    "cfg_wf g \<Longrightarrow> insert b (set ts) \<subseteq> set (basic_blocks g) \<or> insert b (set ts) \<inter> set (basic_blocks g) = {} \<Longrightarrow> cfg_wf (E g)"
  using assms unfolding draws_def by blast+

lemma draws_nothing: "draws (\<lambda>g. g) b []"
  by (simp add: draws_def)

lemma draws_br: "draws (br_edges t b) b [t]"
  unfolding draws_def
proof (intro conjI allI impI)
  show "cfg_wf (br_edges t b g)" if wf: "cfg_wf g"
    and d: "insert b (set [t]) \<subseteq> set (basic_blocks g) \<or> insert b (set [t]) \<inter> set (basic_blocks g) = {}" for g
    using d
  proof
    assume "insert b (set [t]) \<subseteq> set (basic_blocks g)"
    then show ?thesis using br_edges_wf [OF wf] by simp
  next
    assume "insert b (set [t]) \<inter> set (basic_blocks g) = {}"
    then have out: "c \<noteq> b" "c \<notin> set [t]" if "c \<in> set (basic_blocks g)" for c using that by blast+
    have "cfg_wf (br_edges t b g) = cfg_wf g"
    proof (rule cfg_wf_cong)
      fix c
      assume "c \<in> set (basic_blocks g)"
      from out [OF this] show "pre_bbs (br_edges t b g) c = pre_bbs g c \<and> succ_bbs (br_edges t b g) c = succ_bbs g c"
        by (simp add: br_edges_def edges_fields)
    qed (simp add: br_edges_blocks)
    then show ?thesis using wf by simp
  qed
qed (simp_all add: br_edges_def edges_fields)

lemma draws_cond_br: "draws (cond_br_edges t f b) b [f, t]"
  unfolding draws_def
proof (intro conjI allI impI)
  show "cfg_wf (cond_br_edges t f b g)" if wf: "cfg_wf g"
    and d: "insert b (set [f, t]) \<subseteq> set (basic_blocks g) \<or> insert b (set [f, t]) \<inter> set (basic_blocks g) = {}" for g
    using d
  proof
    assume "insert b (set [f, t]) \<subseteq> set (basic_blocks g)"
    then show ?thesis using cond_br_edges_wf [OF wf] by simp
  next
    assume "insert b (set [f, t]) \<inter> set (basic_blocks g) = {}"
    then have out: "c \<noteq> b" "c \<notin> set [f, t]" if "c \<in> set (basic_blocks g)" for c using that by blast+
    have "cfg_wf (cond_br_edges t f b g) = cfg_wf g"
    proof (rule cfg_wf_cong)
      fix c
      assume "c \<in> set (basic_blocks g)"
      from out [OF this] show "pre_bbs (cond_br_edges t f b g) c = pre_bbs g c \<and> succ_bbs (cond_br_edges t f b g) c = succ_bbs g c"
        by (simp add: cond_br_edges_def edges_fields)
    qed (simp add: br_edges_blocks)
    then show ?thesis using wf by simp
  qed
qed (simp_all add: cond_br_edges_def edges_fields)

lemma cfg_of_sel:
  "basic_blocks (cfg_of m f) = block_list m f" "pre_bbs (cfg_of m f) = pre_list m" "succ_bbs (cfg_of m f) = succ_list m"
  by (simp_all add: cfg_of_def)

text \<open>What only looks at old objects stays as it is.\<close>

definition grows :: "ir \<Rightarrow> ir \<Rightarrow> bool" where
  "grows m m' \<longleftrightarrow> (\<forall>a x. heap m a = Some x \<longrightarrow> (\<exists>x'. heap m' a = Some x' \<and> vtype x' = vtype x \<and> kind x' = kind x \<and>
     operands x' = operands x \<and> parent x' = parent x \<and> name x' = name x))"

lemma grows_refl [simp]: "grows m m" by (simp add: grows_def)

lemma growsD: "grows m m' \<Longrightarrow> heap m a = Some x \<Longrightarrow> \<exists>x'. heap m' a = Some x' \<and> vtype x' = vtype x \<and> kind x' = kind x \<and>
     operands x' = operands x \<and> parent x' = parent x \<and> name x' = name x"
  by (simp add: grows_def)

lemma grows_trans:
  assumes "grows m m1" "grows m1 m2"
  shows "grows m m2"
  unfolding grows_def
proof (intro allI impI)
  fix a x
  assume "heap m a = Some x"
  from growsD [OF assms(1) this] obtain y where y: "heap m1 a = Some y" "vtype y = vtype x \<and> kind y = kind x \<and>
     operands y = operands x \<and> parent y = parent x \<and> name y = name x"
    by blast
  from growsD [OF assms(2) y(1)] y(2) show "\<exists>x'. heap m2 a = Some x' \<and> vtype x' = vtype x \<and> kind x' = kind x \<and>
     operands x' = operands x \<and> parent x' = parent x \<and> name x' = name x"
    by auto
qed

lemma emitted_grows: "emitted t op vs b E i m m' \<Longrightarrow> uses_ok m \<Longrightarrow> grows m m'"
  unfolding grows_def using emitted_object by blast

lemma extends_grows: "extends m m' \<Longrightarrow> grows m m'"
  unfolding grows_def using extends_object by blast

lemma grows_term: "grows m m' \<Longrightarrow> alive m i \<Longrightarrow> is_term m' i = is_term m i \<and> targets m' i = targets m i"
  using growsD by (fastforce simp: is_term_def targets_def isTerminator_def)

lemma grows_block:
  assumes "grows m m'" "\<forall>i \<in> set (instr_list m b). alive m i" "instr_list m' b = instr_list m b" "succ_list m' b = succ_list m b"
  shows "open_block m' b = open_block m b" "sealed m' b = sealed m b" "blank m' b = blank m b"
proof -
  note g = grows_term [OF assms(1)]
  have "is_term m' i = is_term m i" if "i \<in> set (butlast (instr_list m b))" for i
    using g assms(2) in_set_butlastD [OF that] by blast
  then show "open_block m' b = open_block m b" "sealed m' b = sealed m b" "blank m' b = blank m b"
    using g assms(2-4) by (auto simp: open_block_def sealed_def blank_def)
qed

lemma cache_ok_grows:
  assumes "cache_ok (m, c)" "grows m m'" "uses_ok m'"
  shows "cache_ok (m', c)"
proof -
  have keep: "is_const_at m' t k a" if "is_const_at m t k a" for t k a
    using that growsD [OF assms(2)] by (fastforce simp: is_const_at_def)
  have "a < next_addr m'" if "heap m' a \<noteq> None" for a using that uses_okD(1) [OF assms(3)] by auto
  then show ?thesis using cache_okD(2-5) [OF assms(1)] keep unfolding cache_ok_def by simp
qed

section \<open>The invariant\<close>

definition args_ok :: "ir \<Rightarrow> bool" where
  "args_ok m \<longleftrightarrow> (\<forall>f. \<forall>a \<in> set (arguments m f). \<exists>x. heap m a = Some x \<and> \<not> is_instruction (kind x))"

lemma args_ok_grows: "args_ok m \<Longrightarrow> grows m m' \<Longrightarrow> arguments m' = arguments m \<Longrightarrow> args_ok m'"
  unfolding args_ok_def using growsD by metis

text \<open>
  \<open>T\<close>: blocks that branches may go to; \<open>P\<close>: those that are still empty; \<open>N\<close>: those that no branch
  goes to yet.
\<close>

definition flow_ok :: "addr set \<Rightarrow> addr set \<Rightarrow> addr set \<Rightarrow> addr \<Rightarrow> addr \<Rightarrow> ir \<Rightarrow> bool" where
  "flow_ok T P N f b m \<longleftrightarrow> b \<in> set (block_list m f) \<and> b \<notin> P \<and> N \<subseteq> P \<and> P \<subseteq> T \<and> T \<subseteq> set (tl (block_list m f)) \<and>
     (\<forall>g c. c \<in> set (block_list m g) \<longrightarrow> (if c \<in> P then blank m c else if c = b then open_block m c \<or> sealed m c else sealed m c)) \<and>
     (\<forall>c \<in> N. pre_list m c = [])"

definition names_ok :: "addr \<Rightarrow> ir \<Rightarrow> scope \<Rightarrow> bool" where
  "names_ok f m sc \<longleftrightarrow> (\<forall>e \<in> set sc. \<forall>nm a. e nm = Some a \<longrightarrow> usable m f a)"

definition in_body :: "addr set \<Rightarrow> addr set \<Rightarrow> addr set \<Rightarrow> builder \<Rightarrow> bool" where
  "in_body T P N s \<longleftrightarrow> well_built (module s) \<and> cache_ok (module s, cached s) \<and> args_ok (module s) \<and>
     \<not> pre_enter_scope s \<and> 2 \<le> length (scope s) \<and>
     (\<exists>f b. cur_fun s = Some f \<and> insert_block s = Some b \<and> names_ok f (module s) (scope s) \<and> flow_ok T P N f b (module s))"

definition cur_open :: "builder \<Rightarrow> bool" where
  "cur_open s \<longleftrightarrow> (\<exists>b. insert_block s = Some b \<and> open_block (module s) b)"

definition cur_sealed :: "builder \<Rightarrow> bool" where
  "cur_sealed s \<longleftrightarrow> (\<exists>b. insert_block s = Some b \<and> sealed (module s) b)"

definition can_use :: "builder \<Rightarrow> addr \<Rightarrow> bool" where
  "can_use s a \<longleftrightarrow> (\<exists>f. cur_fun s = Some f \<and> usable (module s) f a)"

text \<open>What a step of the builder leaves alone.\<close>

definition stable :: "builder \<Rightarrow> builder \<Rightarrow> bool" where
  "stable s s' \<longleftrightarrow> cur_fun s' = cur_fun s \<and> scope s' = scope s \<and> grows (module s) (module s') \<and>
     (\<forall>a. can_use s a \<longrightarrow> can_use s' a)"

lemma stable_refl [simp]: "stable s s" by (simp add: stable_def)

lemma stable_trans: "stable s s1 \<Longrightarrow> stable s1 s2 \<Longrightarrow> stable s s2"
  unfolding stable_def using grows_trans by auto

lemma stable_use: "stable s s' \<Longrightarrow> can_use s a \<Longrightarrow> can_use s' a"
  by (simp add: stable_def)

lemma stableD: "stable s s' \<Longrightarrow> cur_fun s' = cur_fun s" "stable s s' \<Longrightarrow> scope s' = scope s" "stable s s' \<Longrightarrow> grows (module s) (module s')"
  by (simp_all add: stable_def)

lemma in_bodyD:
  assumes "in_body T P N s" "cur_fun s = Some f" "insert_block s = Some b"
  shows "well_built (module s)" "cache_ok (module s, cached s)" "args_ok (module s)" "\<not> pre_enter_scope s"
    "2 \<le> length (scope s)" "names_ok f (module s) (scope s)" "flow_ok T P N f b (module s)"
  using assms by (auto simp: in_body_def)

lemma in_bodyE:
  assumes "in_body T P N s"
  obtains f b where "cur_fun s = Some f" "insert_block s = Some b"
  using assms by (auto simp: in_body_def)

lemma flow_okD:
  assumes "flow_ok T P N f b m"
  shows "b \<in> set (block_list m f)" "b \<notin> P" "N \<subseteq> P" "P \<subseteq> T" "T \<subseteq> set (tl (block_list m f))"
    "c \<in> set (block_list m g) \<Longrightarrow> c \<in> P \<Longrightarrow> blank m c"
    "c \<in> set (block_list m g) \<Longrightarrow> c \<notin> P \<Longrightarrow> c \<noteq> b \<Longrightarrow> sealed m c"
    "open_block m b \<or> sealed m b"
    "c \<in> N \<Longrightarrow> pre_list m c = []"
proof -
  note a = assms [unfolded flow_ok_def]
  have blocks: "if c \<in> P then blank m c else if c = b then open_block m c \<or> sealed m c else sealed m c"
    if "c \<in> set (block_list m g)" for c g
    using a that by blast
  show b: "b \<in> set (block_list m f)" "b \<notin> P" "N \<subseteq> P" "P \<subseteq> T" "T \<subseteq> set (tl (block_list m f))"
    and "c \<in> N \<Longrightarrow> pre_list m c = []"
    using a by blast+
  show "c \<in> set (block_list m g) \<Longrightarrow> c \<in> P \<Longrightarrow> blank m c" using blocks [of c g] by simp
  show "c \<in> set (block_list m g) \<Longrightarrow> c \<notin> P \<Longrightarrow> c \<noteq> b \<Longrightarrow> sealed m c" using blocks [of c g] by simp
  show "open_block m b \<or> sealed m b" using blocks [OF b(1)] b(2) by simp
qed

lemma flow_okI:
  assumes "b \<in> set (block_list m f)" "b \<notin> P" "N \<subseteq> P" "P \<subseteq> T" "T \<subseteq> set (tl (block_list m f))"
    "\<And>c g. c \<in> set (block_list m g) \<Longrightarrow> c \<in> P \<Longrightarrow> blank m c"
    "\<And>c g. c \<in> set (block_list m g) \<Longrightarrow> c \<notin> P \<Longrightarrow> c \<noteq> b \<Longrightarrow> sealed m c"
    "open_block m b \<or> sealed m b"
    "\<And>c. c \<in> N \<Longrightarrow> pre_list m c = []"
  shows "flow_ok T P N f b m"
  unfolding flow_ok_def
proof (intro conjI allI impI ballI)
  show "if c \<in> P then blank m c else if c = b then open_block m c \<or> sealed m c else sealed m c"
    if "c \<in> set (block_list m g)" for g c
    using assms(6,7) [OF that] assms(8) by simp
  show "pre_list m c = []" if "c \<in> N" for c by (rule assms(9) [OF that])
qed (fact assms(1-5))+

lemma open_not_sealed: "open_block m b \<Longrightarrow> \<not> sealed m b"
  by (auto simp: open_block_def sealed_def)

lemma instrs_alive: "well_built m \<Longrightarrow> \<forall>i \<in> set (instr_list m b). alive m i"
  using code_okD(3) [OF well_builtD(3)] by (fastforce simp: instr_ok_def)

lemma terminated_iff:
  assumes "in_body T P N s"
  shows "(terminated s = Inr True \<longleftrightarrow> cur_sealed s) \<and> (terminated s = Inr False \<longleftrightarrow> cur_open s) \<and> (\<exists>d. terminated s = Inr d)"
proof -
  obtain f b where fb: "cur_fun s = Some f" "insert_block s = Some b" using in_bodyE [OF assms] .
  note B = in_bodyD [OF assms fb]
  have d: "open_block (module s) b \<or> sealed (module s) b" by (rule flow_okD(8) [OF B(7)])
  show ?thesis
  proof (cases "instr_list (module s) b = []")
    case True
    then have "terminated s = Inr False" "\<not> sealed (module s) b"
      using fb by (simp_all add: terminated_def get_terminator_def sealed_def)
    then show ?thesis using d fb by (auto simp: cur_open_def cur_sealed_def)
  next
    case False
    let ?t = "last (instr_list (module s) b)"
    have mem: "?t \<in> set (instr_list (module s) b)" using False by simp
    then obtain x where x: "heap (module s) ?t = Some x" using instrs_alive [OF B(1)] by blast
    then have "terminated s = Inr (is_term (module s) ?t)"
      using fb False by (simp add: terminated_def get_terminator_def get_val_def is_term_def)
    moreover have "open_block (module s) b \<Longrightarrow> \<not> is_term (module s) ?t" using mem by (simp add: open_block_def)
    moreover have "sealed (module s) b \<Longrightarrow> is_term (module s) ?t" by (simp add: sealed_def)
    ultimately show ?thesis using d fb by (auto simp: cur_open_def cur_sealed_def)
  qed
qed

section \<open>Emitting an instruction\<close>

lemma emitted_body:
  assumes body: "in_body T P N s" and fb: "cur_fun s = Some f" "insert_block s = Some b" and op: "open_block (module s) b"
    and e: "emitted t oper vs b E i (module s) m'" and dr: "draws E b ts" and ts: "set ts \<subseteq> T"
    and vs: "\<forall>v \<in> set vs. can_use s v" and arity: "arity_ok oper (length vs)"
    and typed: "typed_ops (module s) t oper (map Some vs)"
    and br: "ts = (if oper = Br then branch_targets (map Some vs) else [])"
  shows "in_body T P (N - set ts) (s\<lparr>module := m'\<rparr>)" "stable s (s\<lparr>module := m'\<rparr>)" "can_use (s\<lparr>module := m'\<rparr>) i"
    "if oper = Br \<or> oper = Ret then sealed m' b else open_block m' b"
proof -
  let ?m = "module s"
  note B = in_bodyD [OF body fb] and dE = drawsD(1) [OF dr]
  note F = flow_okD [OF B(7)] and u = well_builtD(1) [OF B(1)] and gr = well_builtD(2) [OF B(1)]
  have gw: "grows ?m m'" by (rule emitted_grows [OF e u])
  have us: "\<And>a. usable ?m f a \<Longrightarrow> usable m' f a" by (rule emitted_usable(1) [OF e u dE])
  have bl: "block_list m' g = block_list ?m g" for g by (rule emitted_blocks [OF e dE])
  have g0: "cfg_of m' g = E (cfg_of ?m g)" for g by (rule emitted_fields(6) [OF e])
  have succ: "succ_list m' c = succ_list ?m c @ (if c = b then ts else [])" for c
    using drawsD(2) [OF dr, of "cfg_of ?m f" c] unfolding g0 [of f, symmetric] cfg_of_sel .
  have pre: "pre_list m' c = pre_list ?m c" if "c \<notin> set ts" for c
    using drawsD(3) [OF dr that, of "cfg_of ?m f"] unfolding g0 [of f, symmetric] cfg_of_sel .
  have il: "instr_list m' c = instr_list ?m c @ (if c = b then [i] else [])" for c by (rule emitted_fields(5) [OF e])
  have tl: "set ts \<subseteq> set (tl (block_list ?m f))" using ts F(5) by blast
  have tlsub: "set (tl (block_list ?m f)) \<subseteq> set (block_list ?m f)" by (cases "block_list ?m f") auto
  have inf: "insert b (set ts) \<subseteq> set (block_list ?m f)" using tl tlsub F(1) by blast
  have wb: "well_built m'"
  proof (rule emitted_well_built [OF B(1) e dE _ _ F(1)])
    show "cfg_wf (E (cfg_of ?m g))" for g
    proof (rule drawsD(4) [OF dr graph_okD(4) [OF gr]])
      show "insert b (set ts) \<subseteq> set (basic_blocks (cfg_of ?m g)) \<or> insert b (set ts) \<inter> set (basic_blocks (cfg_of ?m g)) = {}"
      proof (cases "g = f")
        case False
        then have "x \<notin> set (block_list ?m g)" if "x \<in> insert b (set ts)" for x
          using that inf block_unique [OF gr, of x f g] by blast
        then show ?thesis by (auto simp: cfg_of_def)
      qed (use inf in \<open>simp add: cfg_of_def\<close>)
    qed
    show "pre_bbs (E (cfg_of ?m g)) (hd (block_list ?m g)) = []" if ne: "block_list ?m g \<noteq> []" for g
    proof -
      have "hd (block_list ?m g) \<notin> set ts"
      proof
        assume "hd (block_list ?m g) \<in> set ts"
        then have h: "hd (block_list ?m g) \<in> set (tl (block_list ?m f))" using tl by blast
        then have "g = f" using block_unique [OF gr, of "hd (block_list ?m g)" f g] tlsub ne by auto
        moreover have "distinct (block_list ?m f)" using cfg_wf_distinct [OF graph_okD(4) [OF gr, of f]] by (simp add: cfg_of_def)
        ultimately show False using h by (cases "block_list ?m f") auto
      qed
      then have "pre_bbs (E (cfg_of ?m g)) (hd (block_list ?m g)) = pre_list ?m (hd (block_list ?m g))"
        using drawsD(3) [OF dr, of _ "cfg_of ?m g"] unfolding cfg_of_sel by blast
      then show ?thesis using graph_okD(5) [OF gr ne] by simp
    qed
    show "\<forall>v \<in> set vs. usable ?m f v" using vs fb by (simp add: can_use_def)
  qed (use arity typed in blast)+
  have keep: "open_block m' c = open_block ?m c" "sealed m' c = sealed ?m c" "blank m' c = blank ?m c" if "c \<noteq> b" for c
    using grows_block [OF gw instrs_alive [OF B(1)], of c] il succ that by simp_all
  have shape: "shape_of m' i = Some (t, InstructionV oper, map Some vs, Some b, [])" by (rule emitted_fields(3) [OF e])
  then have it: "is_term m' i \<longleftrightarrow> oper = Br \<or> oper = Ret" "targets m' i = ts"
    using br by (auto simp: shape_of_Some is_term_def isTerminator_def targets_def)
  have old: "\<not> is_term m' j" if "j \<in> set (instr_list ?m b)" for j
    using op that grows_term [OF gw] instrs_alive [OF B(1), of b] by (simp add: open_block_def)
  have sb: "succ_list ?m b = []" using op by (simp add: open_block_def)
  show fin: "if oper = Br \<or> oper = Ret then sealed m' b else open_block m' b"
    using it old sb br by (auto simp: sealed_def open_block_def il succ)
  have fl: "flow_ok T P (N - set ts) f b m'"
  proof (rule flow_okI)
    show "b \<in> set (block_list m' f)" "b \<notin> P" "P \<subseteq> T" "T \<subseteq> set (tl (block_list m' f))" using F bl by auto
    show "N - set ts \<subseteq> P" using F(3) by blast
    show "blank m' c" if "c \<in> set (block_list m' g)" "c \<in> P" for c g
      using that F(2) F(6) [of c g] keep(3) [of c] bl by auto
    show "sealed m' c" if "c \<in> set (block_list m' g)" "c \<notin> P" "c \<noteq> b" for c g
      using that F(7) [of c g] keep(2) bl by simp
    show "open_block m' b \<or> sealed m' b" using fin by (auto split: if_splits)
    show "pre_list m' c = []" if "c \<in> N - set ts" for c using that F(9) pre by simp
  qed
  have ag: "arguments m' = arguments ?m" using e by (simp add: emitted_def)
  have nm: "names_ok f m' (scope s)" using B(6) us by (auto simp: names_ok_def)
  have "in_body T P (N - set ts) (s\<lparr>module := m'\<rparr>)"
    using wb cache_ok_grows [OF B(2) gw well_builtD(1) [OF wb]] args_ok_grows [OF B(3) gw ag] B(4,5) fb nm fl
    by (simp add: in_body_def)
  then show "in_body T P (N - set ts) (s\<lparr>module := m'\<rparr>)" .
  show "stable s (s\<lparr>module := m'\<rparr>)" using gw us fb by (simp add: stable_def can_use_def)
  show "can_use (s\<lparr>module := m'\<rparr>) i" using emitted_usable(2) [OF e u dE F(1)] fb by (simp add: can_use_def)
qed

end
