(* ===== verification/Builder_Steps.thy ===== *)
theory Builder_Steps
  imports Builder_Flow
begin

text \<open>
  Each operation of the builder keeps the invariant of a function body: the operations of
  \<^verbatim>\<open>IRBuilder\<close>, the constants, new blocks, the insertion point and the return of a zero.
\<close>

section \<open>Results of a step\<close>

definition goes :: "addr set \<Rightarrow> addr set \<Rightarrow> addr set \<Rightarrow> builder \<Rightarrow> builder \<Rightarrow> bool" where
  "goes T P N s s' \<longleftrightarrow> in_body T P N s' \<and> cur_open s' \<and> stable s s'"

definition gives :: "addr set \<Rightarrow> addr set \<Rightarrow> addr set \<Rightarrow> builder \<Rightarrow> addr \<Rightarrow> builder \<Rightarrow> bool" where
  "gives T P N s a s' \<longleftrightarrow> goes T P N s s' \<and> can_use s' a"

definition closes :: "addr set \<Rightarrow> addr set \<Rightarrow> addr set \<Rightarrow> builder \<Rightarrow> builder \<Rightarrow> bool" where
  "closes T P N s s' \<longleftrightarrow> in_body T P N s' \<and> cur_sealed s' \<and> stable s s'"

lemma goesD: "goes T P N s s' \<Longrightarrow> in_body T P N s'" "goes T P N s s' \<Longrightarrow> cur_open s'" "goes T P N s s' \<Longrightarrow> stable s s'"
  by (simp_all add: goes_def)

lemma closesD: "closes T P N s s' \<Longrightarrow> in_body T P N s'" "closes T P N s s' \<Longrightarrow> cur_sealed s'" "closes T P N s s' \<Longrightarrow> stable s s'"
  by (simp_all add: closes_def)

lemma givesD:
  "gives T P N s a s' \<Longrightarrow> in_body T P N s'" "gives T P N s a s' \<Longrightarrow> cur_open s'" "gives T P N s a s' \<Longrightarrow> stable s s'"
  "gives T P N s a s' \<Longrightarrow> can_use s' a" "gives T P N s a s' \<Longrightarrow> can_use s v \<Longrightarrow> can_use s' v"
  "gives T P N s a s' \<Longrightarrow> goes T P N s s'"
  by (auto simp: gives_def goes_def dest: stable_use)

lemma goes_refl: "in_body T P N s \<Longrightarrow> cur_open s \<Longrightarrow> goes T P N s s"
  by (simp add: goes_def)

lemma goes_trans: "goes T P N s s1 \<Longrightarrow> goes T' P' N' s1 s2 \<Longrightarrow> goes T' P' N' s s2"
  by (auto simp: goes_def intro: stable_trans)

lemma goes_gives: "goes T P N s s1 \<Longrightarrow> gives T' P' N' s1 a s2 \<Longrightarrow> gives T' P' N' s a s2"
  by (auto simp: gives_def intro: goes_trans)

lemma gives_trans: "gives T P N s v s1 \<Longrightarrow> gives T' P' N' s1 a s2 \<Longrightarrow> gives T' P' N' s a s2"
  by (auto simp: gives_def intro: goes_trans)

lemma can_use_alive: "can_use s a \<Longrightarrow> alive (module s) a"
  by (auto simp: can_use_def usable_def)

text \<open>Fields the invariant does not read.\<close>

lemma body_tmp [simp]:
  "in_body T P N (s\<lparr>tmp_val := v\<rparr>) = in_body T P N s" "in_body T P N (s\<lparr>require_lvalue := l\<rparr>) = in_body T P N s"
  "cur_open (s\<lparr>tmp_val := v\<rparr>) = cur_open s" "cur_open (s\<lparr>require_lvalue := l\<rparr>) = cur_open s"
  "cur_sealed (s\<lparr>tmp_val := v\<rparr>) = cur_sealed s" "cur_sealed (s\<lparr>require_lvalue := l\<rparr>) = cur_sealed s"
  "can_use (s\<lparr>tmp_val := v\<rparr>) a = can_use s a" "can_use (s\<lparr>require_lvalue := l\<rparr>) a = can_use s a"
  "stable s (s'\<lparr>tmp_val := v\<rparr>) = stable s s'" "stable s (s'\<lparr>require_lvalue := l\<rparr>) = stable s s'"
  "stable (s\<lparr>tmp_val := v\<rparr>) s' = stable s s'" "stable (s\<lparr>require_lvalue := l\<rparr>) s' = stable s s'"
  by (simp_all add: in_body_def cur_open_def cur_sealed_def can_use_def stable_def)

lemma goes_tmp [simp]:
  "goes T P N s (s'\<lparr>tmp_val := v\<rparr>) = goes T P N s s'" "goes T P N s (s'\<lparr>require_lvalue := l\<rparr>) = goes T P N s s'"
  "goes T P N (s\<lparr>tmp_val := v\<rparr>) s' = goes T P N s s'" "goes T P N (s\<lparr>require_lvalue := l\<rparr>) s' = goes T P N s s'"
  by (simp_all add: goes_def)

lemma gives_tmp [simp]:
  "gives T P N s a (s'\<lparr>tmp_val := v\<rparr>) = gives T P N s a s'" "gives T P N s a (s'\<lparr>require_lvalue := l\<rparr>) = gives T P N s a s'"
  "gives T P N (s\<lparr>tmp_val := v\<rparr>) a s' = gives T P N s a s'" "gives T P N (s\<lparr>require_lvalue := l\<rparr>) a s' = gives T P N s a s'"
  by (simp_all add: gives_def)

section \<open>Instructions\<close>

lemma emitE:
  assumes "emit F s = Inr (i, s')"
  obtains b m' where "insert_block s = Some b" "F b (module s) = Inr (i, m')" "s' = s\<lparr>module := m'\<rparr>"
  using assms by (auto simp: emit_def rbind_eq_Inr split: option.splits)

lemma emit_gives:
  assumes body: "in_body T P N s" and op: "cur_open s" and run: "emit F s = Inr (i, s')"
    and e: "\<And>b m'. F b (module s) = Inr (i, m') \<Longrightarrow> uses_ok (module s) \<Longrightarrow> \<exists>t. emitted t oper vs b (\<lambda>g. g) i (module s) m' \<and> typed_ops (module s) t oper (map Some vs)"
    and vs: "\<forall>v \<in> set vs. can_use s v" and oper: "oper \<noteq> Br" "oper \<noteq> Ret" "arity_ok oper (length vs)"
  shows "gives T P N s i s'"
proof -
  obtain b m' where b: "insert_block s = Some b" "F b (module s) = Inr (i, m')" "s' = s\<lparr>module := m'\<rparr>"
    using emitE [OF run] .
  obtain f where f: "cur_fun s = Some f" using body by (auto simp: in_body_def)
  have u: "uses_ok (module s)" using body by (simp add: in_body_def well_built_def)
  obtain t where t: "emitted t oper vs b (\<lambda>g. g) i (module s) m'" "typed_ops (module s) t oper (map Some vs)"
    using e [OF b(2) u] by blast
  have ob: "open_block (module s) b" using op b(1) by (simp add: cur_open_def)
  note eb = emitted_body [OF body f b(1) ob t(1) draws_nothing _ vs oper(3) t(2)]
  show ?thesis
    using eb(1-4) oper b by (simp add: gives_def goes_def cur_open_def)
qed

lemma emit_closes:
  assumes body: "in_body T P N s" and op: "cur_open s" and run: "emit F s = Inr (i, s')"
    and e: "\<And>b m'. F b (module s) = Inr (i, m') \<Longrightarrow> uses_ok (module s) \<Longrightarrow> emitted t oper vs b (E b) i (module s) m'"
    and vs: "\<forall>v \<in> set vs. can_use s v" and oper: "oper = Br \<or> oper = Ret" "arity_ok oper (length vs)"
    and E: "\<And>b. draws (E b) b ts" and ts: "set ts \<subseteq> T" "ts = (if oper = Br then branch_targets (map Some vs) else [])"
    and t: "t = VoidTy"
  shows "closes T P (N - set ts) s s'"
proof -
  obtain b m' where b: "insert_block s = Some b" "F b (module s) = Inr (i, m')" "s' = s\<lparr>module := m'\<rparr>"
    using emitE [OF run] .
  obtain f where f: "cur_fun s = Some f" using body by (auto simp: in_body_def)
  have u: "uses_ok (module s)" using body by (simp add: in_body_def well_built_def)
  have ob: "open_block (module s) b" using op b(1) by (simp add: cur_open_def)
  have typed: "typed_ops (module s) t oper (map Some vs)" using oper(1) t by (auto simp: typed_ops_def)
  note eb = emitted_body [OF body f b(1) ob e [OF b(2) u] E ts(1) vs oper(2) typed ts(2)]
  show ?thesis
    using eb(1,2,4) oper b by (auto simp: closes_def cur_sealed_def split: if_splits)
qed

text \<open>A value of a pointer type.\<close>

definition pointer_at :: "builder \<Rightarrow> addr \<Rightarrow> bool" where
  "pointer_at s a \<longleftrightarrow> (\<exists>x e. heap (module s) a = Some x \<and> vtype x = PointerTy e)"

lemma b_gives:
  assumes body: "in_body T P N s" "cur_open s"
  shows "b_ibinary op l r s = Inr (i, s') \<Longrightarrow> op \<in> {Add, Sub, Mul, Sdiv} \<Longrightarrow> can_use s l \<Longrightarrow> can_use s r \<Longrightarrow> gives T P N s i s'"
    "b_fbinary op l r s = Inr (i, s') \<Longrightarrow> op \<in> {Fadd, Fsub, Fmul, Fdiv} \<Longrightarrow> can_use s l \<Longrightarrow> can_use s r \<Longrightarrow> gives T P N s i s'"
    "b_icmp c l r s = Inr (i, s') \<Longrightarrow> can_use s l \<Longrightarrow> can_use s r \<Longrightarrow> gives T P N s i s'"
    "b_fcmp c l r s = Inr (i, s') \<Longrightarrow> can_use s l \<Longrightarrow> can_use s r \<Longrightarrow> gives T P N s i s'"
    "b_store l r s = Inr (i, s') \<Longrightarrow> can_use s l \<Longrightarrow> can_use s r \<Longrightarrow> pointer_at s r \<Longrightarrow> gives T P N s i s'"
    "b_alloca t s = Inr (i, s') \<Longrightarrow> gives T P N s i s'"
    "b_zext l t s = Inr (i, s') \<Longrightarrow> can_use s l \<Longrightarrow> gives T P N s i s'"
    "b_sitofp l t s = Inr (i, s') \<Longrightarrow> can_use s l \<Longrightarrow> gives T P N s i s'"
    "b_fptosi l t s = Inr (i, s') \<Longrightarrow> can_use s l \<Longrightarrow> gives T P N s i s'"
    "b_gep l vs s = Inr (i, s') \<Longrightarrow> can_use s l \<Longrightarrow> \<forall>v \<in> set vs. can_use s v \<Longrightarrow> gives T P N s i s'"
    "b_load l s = Inr (i, s') \<Longrightarrow> can_use s l \<Longrightarrow> gives T P N s i s'"
proof -
  note eg = emit_gives [OF body] and al = can_use_alive
  show "gives T P N s i s'" if "b_ibinary op l r s = Inr (i, s')" "op \<in> {Add, Sub, Mul, Sdiv}" "can_use s l" "can_use s r"
    by (rule eg [OF that(1) [unfolded b_ibinary_def], of op "[l, r]"])
      (use that create_emitted(1) [of "module s" op l r] al in \<open>auto simp: arity_ok_def typed_ops_def\<close>)
  show "gives T P N s i s'" if "b_fbinary op l r s = Inr (i, s')" "op \<in> {Fadd, Fsub, Fmul, Fdiv}" "can_use s l" "can_use s r"
    by (rule eg [OF that(1) [unfolded b_fbinary_def], of op "[l, r]"])
      (use that create_emitted(1) [of "module s" op l r] al in \<open>auto simp: arity_ok_def typed_ops_def\<close>)
  show "gives T P N s i s'" if "b_icmp c l r s = Inr (i, s')" "can_use s l" "can_use s r"
    by (rule eg [OF that(1) [unfolded b_icmp_def create_icmp_def], of Cmp "[l, r]"])
      (use that create_emitted(2) [of "module s" Cmp c l r] al in \<open>auto simp: arity_ok_def typed_ops_def\<close>)
  show "gives T P N s i s'" if "b_fcmp c l r s = Inr (i, s')" "can_use s l" "can_use s r"
    by (rule eg [OF that(1) [unfolded b_fcmp_def create_fcmp_def], of Fcmp "[l, r]"])
      (use that create_emitted(2) [of "module s" Fcmp c l r] al in \<open>auto simp: arity_ok_def typed_ops_def\<close>)
  show "gives T P N s i s'" if "b_store l r s = Inr (i, s')" "can_use s l" "can_use s r" "pointer_at s r"
    by (rule eg [OF that(1) [unfolded b_store_def], of Store "[l, r]"])
      (use that create_emitted(5) [of "module s" l r] al in \<open>fastforce simp: arity_ok_def typed_ops_def pointer_at_def\<close>)+
  show "gives T P N s i s'" if "b_alloca t s = Inr (i, s')"
    by (rule eg [OF that(1) [unfolded b_alloca_def], of Alloca "[]"])
      (use create_emitted(6) [of "module s" t] in \<open>auto simp: arity_ok_def typed_ops_def\<close>)
  show "gives T P N s i s'" if "b_zext l t s = Inr (i, s')" "can_use s l"
    by (rule eg [OF that(1) [unfolded b_zext_def create_zext_def], of Zext "[l]"])
      (use that create_emitted(7) [of "module s" Zext l t] al in \<open>auto simp: arity_ok_def typed_ops_def\<close>)
  show "gives T P N s i s'" if "b_sitofp l t s = Inr (i, s')" "can_use s l"
    by (rule eg [OF that(1) [unfolded b_sitofp_def create_sitofp_def], of Sitofp "[l]"])
      (use that create_emitted(7) [of "module s" Sitofp l t] al in \<open>auto simp: arity_ok_def typed_ops_def\<close>)
  show "gives T P N s i s'" if "b_fptosi l t s = Inr (i, s')" "can_use s l"
    by (rule eg [OF that(1) [unfolded b_fptosi_def create_fptosi_def], of Fptosi "[l]"])
      (use that create_emitted(7) [of "module s" Fptosi l t] al in \<open>auto simp: arity_ok_def typed_ops_def\<close>)
  show "gives T P N s i s'" if "b_gep l vs s = Inr (i, s')" "can_use s l" "\<forall>v \<in> set vs. can_use s v"
  proof (rule eg [OF that(1) [unfolded b_gep_def], of Getelementptr "l # vs"])
    show "\<exists>t. emitted t Getelementptr (l # vs) b (\<lambda>g. g) i (module s) m' \<and>
        typed_ops (module s) t Getelementptr (map Some (l # vs))"
      if "create_gep l vs b (module s) = Inr (i, m')" "uses_ok (module s)" for b m'
      using create_checked_emitted(2) [OF that(2,1)] \<open>\<forall>v \<in> set vs. can_use s v\<close> al
      by (fastforce simp: typed_ops_def)
  qed (use that in \<open>auto simp: arity_ok_def\<close>)
  show "gives T P N s i s'" if load: "b_load l s = Inr (i, s')" "can_use s l"
  proof -
    obtain e where "emit (create_load e l) s = Inr (i, s')"
      using load(1) by (auto simp: b_load_def rbind_eq_Inr split: option.splits)
    then show ?thesis
      by (rule eg [of _ _ _ Load "[l]"])
        (use load(2) create_checked_emitted(3) [of "module s" e l] in \<open>fastforce simp: typed_ops_def arity_ok_def\<close>)+
  qed
qed

lemma pointer_at_stable: "pointer_at s a \<Longrightarrow> stable s s' \<Longrightarrow> pointer_at s' a"
  unfolding pointer_at_def stable_def using growsD by metis

lemma pointer_at_tmp [simp]:
  "pointer_at (s\<lparr>tmp_val := v\<rparr>) a = pointer_at s a" "pointer_at (s\<lparr>require_lvalue := l\<rparr>) a = pointer_at s a"
  by (simp_all add: pointer_at_def)

lemma b_pointers:
  assumes body: "in_body T P N s"
  shows "b_gep l vs s = Inr (i, s') \<Longrightarrow> \<forall>v \<in> set vs. can_use s v \<Longrightarrow> pointer_at s' i"
    "b_alloca t s = Inr (i, s') \<Longrightarrow> pointer_at s' i"
proof -
  have u: "uses_ok (module s)" using body by (simp add: in_body_def well_built_def)
  have ptr: "pointer_at s' i" if "emitted (PointerTy e) op ops b E i (module s) m'" "s' = s\<lparr>module := m'\<rparr>" for e op ops b E i m' s'
    using emitted_fields(3) [OF that(1)] that(2) by (auto simp: pointer_at_def shape_of_Some)
  show "pointer_at s' i" if r: "b_gep l vs s = Inr (i, s')" "\<forall>v \<in> set vs. can_use s v"
  proof -
    obtain b m' where b: "create_gep l vs b (module s) = Inr (i, m')" "s' = s\<lparr>module := m'\<rparr>"
      using emitE [OF r(1) [unfolded b_gep_def]] by metis
    have "\<forall>v \<in> set vs. alive (module s) v" using r(2) can_use_alive by blast
    from create_checked_emitted(2) [OF u b(1) this] show ?thesis using ptr b(2) by blast
  qed
  show "pointer_at s' i" if r: "b_alloca t s = Inr (i, s')"
  proof -
    obtain b m' where b: "create_alloca t b (module s) = Inr (i, m')" "s' = s\<lparr>module := m'\<rparr>"
      using emitE [OF r [unfolded b_alloca_def]] by metis
    show ?thesis using ptr [OF create_emitted(6) [OF u b(1)] b(2)] .
  qed
qed

lemma b_call_gives:
  assumes body: "in_body T P N s" "cur_open s" and run: "b_call f args s = Inr (i, s')"
    and f: "\<And>g. f = Some g \<Longrightarrow> can_use s g" and args: "\<forall>v \<in> set args. can_use s v"
  shows "gives T P N s i s'"
proof -
  obtain g x where g: "f = Some g" "heap (module s) g = Some x" "kind x = FunctionV"
    "emit (create_call g args) s = Inr (i, s')"
    using run by (auto simp: b_call_def rbind_eq_Inr heap_nonempty split: option.splits if_splits)
  have gl: "g \<in> set (function_list (module s))"
    using body(1) g(2,3) graph_okD(2) [OF well_builtD(2), of "module s" g] by (auto simp: in_body_def)
  show ?thesis
  proof (rule emit_gives [OF body g(4), of Call "g # args"])
    show "\<exists>t. emitted t Call (g # args) b (\<lambda>g. g) i (module s) m' \<and> typed_ops (module s) t Call (map Some (g # args))"
      if "create_call g args b (module s) = Inr (i, m')" "uses_ok (module s)" for b m'
    proof -
      have "\<forall>v \<in> set args. alive (module s) v" using args can_use_alive by blast
      from create_checked_emitted(1) [OF that(2,1) this] show ?thesis using gl by (auto simp: typed_ops_def)
    qed
  qed (use f g(1) args in \<open>auto simp: arity_ok_def\<close>)
qed

lemma b_closes:
  assumes body: "in_body T P N s" "cur_open s"
  shows "b_ret v s = Inr (i, s') \<Longrightarrow> can_use s v \<Longrightarrow> closes T P N s s'"
    "b_void_ret s = Inr (i, s') \<Longrightarrow> closes T P N s s'"
    "b_br t s = Inr (i, s') \<Longrightarrow> t \<in> T \<Longrightarrow> closes T P (N - {t}) s s'"
    "b_cond_br c t f s = Inr (i, s') \<Longrightarrow> can_use s c \<Longrightarrow> t \<in> T \<Longrightarrow> f \<in> T \<Longrightarrow> closes T P (N - {f, t}) s s'"
proof -
  note ec = emit_closes [OF body]
  obtain fn b where fb: "cur_fun s = Some fn" "insert_block s = Some b" using in_bodyE [OF body(1)] .
  note B = in_bodyD [OF body(1) fb]
  have use: "can_use s t" if "t \<in> T" for t
  proof -
    have "t \<in> set (tl (block_list (module s) fn))" using that flow_okD(5) [OF B(7)] by blast
    then have "t \<in> set (block_list (module s) fn)" by (cases "block_list (module s) fn") auto
    then show ?thesis
      using graph_okD(6) [OF well_builtD(2) [OF B(1)]] fb(1) by (fastforce simp: can_use_def usable_def is_instruction_def)
  qed
  show "closes T P N s s'" if "b_ret v s = Inr (i, s')" "can_use s v"
    using ec [OF that(1) [unfolded b_ret_def], of VoidTy Ret "[v]" "\<lambda>_ g. g" "[]"] that(2)
      create_emitted(3) [of "module s" v] can_use_alive draws_nothing by (simp add: arity_ok_def)
  show "closes T P N s s'" if "b_void_ret s = Inr (i, s')"
    using ec [OF that(1) [unfolded b_void_ret_def], of VoidTy Ret "[]" "\<lambda>_ g. g" "[]"]
      create_emitted(4) [of "module s"] draws_nothing by (simp add: arity_ok_def)
  show "closes T P (N - {t}) s s'" if "b_br t s = Inr (i, s')" "t \<in> T"
    using ec [OF that(1) [unfolded b_br_def], of VoidTy Br "[t]" "br_edges t" "[t]"] that(2)
      create_emitted(8) [of "module s" t] can_use_alive [OF use] use draws_br by (simp add: arity_ok_def)
  show "closes T P (N - {f, t}) s s'" if c: "b_cond_br c t f s = Inr (i, s')" "can_use s c" "t \<in> T" "f \<in> T"
  proof -
    have al: "alive (module s) c" "alive (module s) t" "alive (module s) f"
      by (rule can_use_alive [OF c(2)], rule can_use_alive [OF use [OF c(3)]], rule can_use_alive [OF use [OF c(4)]])
    have "closes T P (N - set [f, t]) s s'"
    proof (rule ec [OF c(1) [unfolded b_cond_br_def], of VoidTy Br "[c, t, f]" "cond_br_edges t f"])
      show "emitted VoidTy Br [c, t, f] b (cond_br_edges t f b) i (module s) m'"
        if "create_cond_br c t f b (module s) = Inr (i, m')" "uses_ok (module s)" for b m'
        by (rule create_emitted(9) [OF that(2,1) al])
      show "\<forall>v \<in> set [c, t, f]. can_use s v" using c(2) use [OF c(3)] use [OF c(4)] by simp
      show "draws (cond_br_edges t f b) b [f, t]" for b by (rule draws_cond_br)
    qed (use c(3,4) in \<open>simp_all add: arity_ok_def\<close>)
    then show ?thesis by simp
  qed
qed

section \<open>Constants\<close>

lemma extends_body:
  assumes body: "in_body T P N s" and wb: "well_built m'" and ex: "extends (module s) m'"
    and cfg: "\<And>f. cfg_of m' f = cfg_of (module s) f" and ag: "arguments m' = arguments (module s)" and c: "cache_ok (m', c')"
    and s': "s' = s\<lparr>module := m', cached := c'\<rparr>"
  shows "in_body T P N s' \<and> cur_open s' = cur_open s \<and> cur_sealed s' = cur_sealed s \<and> stable s s'"
proof -
  obtain f b where fb: "cur_fun s = Some f" "insert_block s = Some b" using in_bodyE [OF body] .
  note B = in_bodyD [OF body fb]
  note F = flow_okD [OF B(7)] and gw = extends_grows [OF ex]
  have l: "block_list m' g = block_list (module s) g" "pre_list m' = pre_list (module s)" "succ_list m' = succ_list (module s)" for g
    using cfg [of g] by (simp_all add: cfg_of_def)
  note keep = grows_block [OF gw instrs_alive [OF B(1)]]
  have keep: "open_block m' d = open_block (module s) d" "sealed m' d = sealed (module s) d" "blank m' d = blank (module s) d" for d
    using keep [of d] extendsD(4) [OF ex] l(3) by simp_all
  have "flow_ok T P N f b m'"
    by (rule flow_okI) (use F l keep in simp_all)
  moreover have nm: "names_ok f m' (scope s)" using B(6) extends_usable [OF ex] by (auto simp: names_ok_def)
  ultimately have "in_body T P N s'"
    using wb c args_ok_grows [OF B(3) gw ag] B(4,5) fb by (simp add: in_body_def s')
  moreover have "stable s s'" using gw extends_usable [OF ex] fb by (simp add: stable_def can_use_def s')
  ultimately show ?thesis using keep by (simp add: cur_open_def cur_sealed_def s')
qed

lemma new_constant_body:
  assumes body: "in_body T P N s" and new: "new_constant t k (module s) = (a, m')" and k: "leaf_constant k"
    and c: "cache_ok (m', c')" and s': "s' = s\<lparr>module := m', cached := c'\<rparr>"
  shows "in_body T P N s' \<and> cur_open s' = cur_open s \<and> cur_sealed s' = cur_sealed s \<and> stable s s' \<and> can_use s' a"
proof -
  obtain f b where fb: "cur_fun s = Some f" "insert_block s = Some b" using in_bodyE [OF body] .
  note n = new_constant_built [OF in_bodyD(1) [OF body fb] new k]
  have "arguments m' = arguments (module s)" using alloc_fields(7) [OF new [unfolded new_constant_def]] .
  then show ?thesis using extends_body [OF body, of m' c'] n c s' fb by (simp add: can_use_def)
qed

lemma const_usable: "is_const_at m t k a \<Longrightarrow> leaf_constant k \<Longrightarrow> usable m f a"
  by (auto simp: is_const_at_def usable_def leaf_constant_def is_instruction_def split: value_kind.splits)

lemma CONST_INT_body:
  assumes body: "in_body T P N s" and run: "CONST_INT k s = (a, s')"
  shows "in_body T P N s' \<and> cur_open s' = cur_open s \<and> cur_sealed s' = cur_sealed s \<and> stable s s' \<and> can_use s' a"
proof -
  obtain f b where fb: "cur_fun s = Some f" "insert_block s = Some b" using in_bodyE [OF body] .
  note c = in_bodyD(2) [OF body fb]
  have k: "leaf_constant (ConstantIntV k)" by (simp add: leaf_constant_def)
  show ?thesis
  proof (cases "cached_int (cached s) k")
    case None
    obtain m' where new: "new_constant (IntegerTy 32) (ConstantIntV k) (module s) = (a, m')"
      and s': "s' = s\<lparr>module := m', cached := (cached s)\<lparr>cached_int := (cached_int (cached s))(k \<mapsto> a)\<rparr>\<rparr>"
      using run None by (auto simp: CONST_INT_def ConstantInt_get_def split: prod.splits)
    have "cache_ok (m', (cached s)\<lparr>cached_int := (cached_int (cached s))(k \<mapsto> a)\<rparr>)"
      using new_constant_spec(3,4) [OF c new] unfolding cache_ok_def by simp
    then show ?thesis by (rule new_constant_body [OF body new k _ s'])
  next
    case (Some d)
    then have "s' = s" "a = d" using run by (auto simp: CONST_INT_def ConstantInt_get_def)
    moreover have "can_use s d" using const_usable [OF cache_okD(2) [OF c] k] Some fb by (simp add: can_use_def)
    ultimately show ?thesis using body by simp
  qed
qed

lemma CONST_FP_body:
  assumes body: "in_body T P N s" and run: "CONST_FP x s = (a, s')"
  shows "in_body T P N s' \<and> cur_open s' = cur_open s \<and> cur_sealed s' = cur_sealed s \<and> stable s s' \<and> can_use s' a"
proof -
  obtain f b where fb: "cur_fun s = Some f" "insert_block s = Some b" using in_bodyE [OF body] .
  note c = in_bodyD(2) [OF body fb]
  have k: "leaf_constant (ConstantFPV x)" for x by (simp add: leaf_constant_def)
  show ?thesis
  proof (cases "List.find (\<lambda>ka. f32_eq (fst ka) x) (cached_float (cached s))")
    case None
    obtain m' where new: "new_constant FloatTy (ConstantFPV x) (module s) = (a, m')"
      and s': "s' = s\<lparr>module := m', cached := (cached s)\<lparr>cached_float := cached_float (cached s) @ [(x, a)]\<rparr>\<rparr>"
      using run None by (auto simp: CONST_FP_def ConstantFP_get_def split: prod.splits)
    have "cache_ok (m', (cached s)\<lparr>cached_float := cached_float (cached s) @ [(x, a)]\<rparr>)"
      using new_constant_spec(3,4) [OF c new] unfolding cache_ok_def by auto
    then show ?thesis by (rule new_constant_body [OF body new k _ s'])
  next
    case (Some yd)
    obtain y d where yd: "yd = (y, d)" by (cases yd)
    have "s' = s" "a = d" using run Some yd by (auto simp: CONST_FP_def ConstantFP_get_def)
    moreover have "(y, d) \<in> set (cached_float (cached s))" using find_Some_mem [OF Some] yd by simp
    then have "can_use s d" using const_usable [OF cache_okD(4) [OF c] k] fb by (simp add: can_use_def)
    ultimately show ?thesis using body by simp
  qed
qed

lemma const_gives:
  assumes "in_body T P N s" "cur_open s"
  shows "CONST_INT k s = (a, s') \<Longrightarrow> gives T P N s a s'" "CONST_FP x s = (a, s') \<Longrightarrow> gives T P N s a s'"
  using CONST_INT_body [OF assms(1), of k a s'] CONST_FP_body [OF assms(1), of x a s'] assms(2)
  by (simp_all add: gives_def goes_def)

section \<open>Blocks\<close>

lemma new_block_body:
  assumes body: "in_body T P N s" and run: "new_block nm s = Inr (b, s')"
  shows "in_body (insert b T) (insert b P) (insert b N) s'" "cur_open s' = cur_open s" "cur_sealed s' = cur_sealed s"
    "stable s s'" "b \<notin> T"
proof -
  obtain f c where fb: "cur_fun s = Some f" "insert_block s = Some c" using in_bodyE [OF body] .
  note B = in_bodyD [OF body fb]
  note F = flow_okD [OF B(7)] and gr = well_builtD(2) [OF B(1)]
  obtain m' where m': "create_basic_block nm (Some f) (module s) = Inr (b, m')" and s': "s' = s\<lparr>module := m'\<rparr>"
    using run fb by (auto simp: new_block_def rbind_eq_Inr)
  note cb = create_basic_block_fields [OF m']
  have "f \<in> set (function_list (module s))" by (rule graph_okD(3) [OF gr F(1)])
  note n = create_basic_block_built [OF B(1) this m']
  have gw: "grows (module s) m'" using n extends_grows by blast
  have fresh: "heap (module s) b = None" using fresh_addr [OF well_builtD(1) [OF B(1)]] cb(1) by simp
  have nb: "b \<notin> set (block_list (module s) g)" for g using blocks_alive [OF gr] fresh by blast
  have tlsub: "set (tl (block_list (module s) f)) \<subseteq> set (block_list (module s) f)" by (cases "block_list (module s) f") auto
  then show nT: "b \<notin> T" using F(5) nb [of f] by blast
  have ne: "block_list (module s) f \<noteq> []" using F(1) by auto
  have keep: "open_block m' d = open_block (module s) d" "sealed m' d = sealed (module s) d" "blank m' d = blank (module s) d"
    if "d \<noteq> b" for d
    using grows_block [OF gw instrs_alive [OF B(1)], of d] cb that by simp_all
  have il: "instr_list (module s) b = []"
    using code_okD(2) [OF well_builtD(3) [OF B(1)], of "hd (instr_list (module s) b)" b] nb by (cases "instr_list (module s) b") auto
  have bl: "d \<in> set (block_list m' g) \<longleftrightarrow> d \<in> set (block_list (module s) g) \<or> (d = b \<and> g = f)" for d g
    using cb(4) by auto
  have cb': "c \<noteq> b" using F(1) nb by blast
  have "flow_ok (insert b T) (insert b P) (insert b N) f c m'"
  proof (rule flow_okI)
    show "c \<in> set (block_list m' f)" "c \<notin> insert b P" "insert b N \<subseteq> insert b P" "insert b P \<subseteq> insert b T"
      using F cb' bl by auto
    show "insert b T \<subseteq> set (tl (block_list m' f))" using F(5) ne cb(4) by (auto simp: tl_append split: list.splits)
    show "blank m' d" if "d \<in> set (block_list m' g)" "d \<in> insert b P" for d g
    proof (cases "d = b")
      case True
      then show ?thesis using il cb by (simp add: blank_def)
    next
      case False
      then show ?thesis using that F(6) [of d g] keep(3) bl by simp
    qed
    show "sealed m' d" if "d \<in> set (block_list m' g)" "d \<notin> insert b P" "d \<noteq> c" for d g
      using that F(7) [of d g] keep(2) [of d] bl by simp
    show "open_block m' c \<or> sealed m' c" using F(8) keep [OF cb'] by simp
    show "pre_list m' d = []" if "d \<in> insert b N" for d using that F(9) [of d] cb(5) by auto
  qed
  moreover have us: "usable (module s) f a \<Longrightarrow> usable m' f a" for a using n extends_usable by blast
  moreover have nm: "names_ok f m' (scope s)" using B(6) us by (auto simp: names_ok_def)
  ultimately show "in_body (insert b T) (insert b P) (insert b N) s'"
    using n cache_ok_grows [OF B(2) gw] args_ok_grows [OF B(3) gw cb(8)] B(4,5) fb
    by (simp add: in_body_def s' well_built_def)
  show "stable s s'" using gw us fb by (simp add: stable_def can_use_def s')
  show "cur_open s' = cur_open s" "cur_sealed s' = cur_sealed s"
    using keep [OF cb'] fb by (simp_all add: cur_open_def cur_sealed_def s')
qed

lemma set_insert_point_body:
  assumes body: "in_body T P N s" and cs: "cur_sealed s" and t: "t \<in> P"
  shows "goes T (P - {t}) (N - {t}) s (set_insert_point t s)"
proof -
  obtain f c where fb: "cur_fun s = Some f" "insert_block s = Some c" using in_bodyE [OF body] .
  note B = in_bodyD [OF body fb]
  note F = flow_okD [OF B(7)]
  have "set (tl (block_list (module s) f)) \<subseteq> set (block_list (module s) f)" by (cases "block_list (module s) f") auto
  then have tb: "t \<in> set (block_list (module s) f)" using t F(4,5) by blast
  have sc: "sealed (module s) c" using cs fb by (simp add: cur_sealed_def)
  have "flow_ok T (P - {t}) (N - {t}) f t (module s)"
  proof (rule flow_okI)
    show "sealed (module s) d" if "d \<in> set (block_list (module s) g)" "d \<notin> P - {t}" "d \<noteq> t" for d g
      using that F(7) [of d g] sc by (cases "d = c") auto
    show "open_block (module s) t \<or> sealed (module s) t" using blank_open [OF F(6) [OF tb t]] ..
    show "N - {t} \<subseteq> P - {t}" "P - {t} \<subseteq> T" using F(3,4) by blast+
  qed (use F tb in \<open>auto simp: arity_ok_def\<close>)
  moreover have "open_block (module s) t" using blank_open [OF F(6) [OF tb t]] .
  ultimately show ?thesis
    using B(1-6) fb by (simp add: goes_def in_body_def cur_open_def set_insert_point_def stable_def can_use_def)
qed

lemma drop_block_body:
  assumes body: "in_body T P N s" and b: "b \<in> N" and run: "drop_block b s = Inr s'"
  shows "in_body (T - {b}) (P - {b}) (N - {b}) s'" "cur_open s' = cur_open s" "cur_sealed s' = cur_sealed s" "stable s s'"
proof -
  obtain f c where fb: "cur_fun s = Some f" "insert_block s = Some c" using in_bodyE [OF body] .
  note B = in_bodyD [OF body fb]
  note F = flow_okD [OF B(7)]
  obtain m' where m': "erase_from_parent b (module s) = Inr m'" and s': "s' = s\<lparr>module := m'\<rparr>"
    using run by (auto simp: drop_block_def rbind_eq_Inr)
  have bt: "b \<in> set (tl (block_list (module s) f))" using b F(3-5) by blast
  have bb: "b \<in> set (block_list (module s) f)" using bt by (cases "block_list (module s) f") auto
  have bP: "b \<in> P" using b F(3) by blast
  have bl: "blank (module s) b" by (rule F(6) [OF bb bP])
  note e = erase_from_parent_built [OF B(1) bt m' _ F(9) [OF b]]
  have e: "well_built m'" "extends (module s) m'" "heap m' = heap (module s)" "instr_list m' = instr_list (module s)"
    "block_list m' = (block_list (module s))(f := removeAll b (block_list (module s) f))"
    "pre_list m' = pre_list (module s)" "succ_list m' = succ_list (module s)" "arguments m' = arguments (module s)"
    using e bl by (simp_all add: blank_def)
  have gw: "grows (module s) m'" by (simp add: grows_def e(3))
  have keep: "open_block m' d = open_block (module s) d" "sealed m' d = sealed (module s) d" "blank m' d = blank (module s) d" for d
    using grows_block [OF gw instrs_alive [OF B(1)], of d] e by simp_all
  have cb: "c \<noteq> b" using bP F(2) by blast
  have d: "distinct (block_list (module s) f)"
    using cfg_wf_distinct [OF graph_okD(4) [OF well_builtD(2) [OF B(1)], of f]] by (simp add: cfg_of_def)
  have "flow_ok (T - {b}) (P - {b}) (N - {b}) f c m'"
  proof (rule flow_okI)
    show "c \<in> set (block_list m' f)" using F(1) cb e(5) by simp
    show "T - {b} \<subseteq> set (tl (block_list m' f))"
      using F(5) d bt e(5) by (cases "block_list (module s) f") auto
    show "blank m' x" if "x \<in> set (block_list m' g)" "x \<in> P - {b}" for x g
      using that F(6) [of x g] keep(3) e(5) by (auto split: if_splits)
    show "sealed m' x" if "x \<in> set (block_list m' g)" "x \<notin> P - {b}" "x \<noteq> c" for x g
    proof -
      have "x \<in> set (block_list (module s) g)" "g = f \<Longrightarrow> x \<noteq> b" using that(1) e(5) by (auto split: if_splits)
      moreover have "x \<noteq> b"
        using calculation block_unique [OF well_builtD(2) [OF B(1)] bb, of g] by blast
      ultimately show ?thesis using F(7) [of x g] that(2,3) keep(2) by simp
    qed
    show "open_block m' c \<or> sealed m' c" using F(8) keep by simp
    show "pre_list m' x = []" if "x \<in> N - {b}" for x using that F(9) e(6) by simp
  qed (use F cb in \<open>auto simp: arity_ok_def\<close>)
  moreover have us: "usable (module s) f a \<Longrightarrow> usable m' f a" for a by (rule extends_usable [OF e(2)])
  moreover have nm: "names_ok f m' (scope s)" using B(6) us by (auto simp: names_ok_def)
  ultimately show "in_body (T - {b}) (P - {b}) (N - {b}) s'"
    using e(1) cache_ok_grows [OF B(2) gw well_builtD(1) [OF e(1)]] args_ok_grows [OF B(3) gw e(8)] B(4,5) fb
    by (simp add: in_body_def s')
  show "stable s s'" using gw us fb by (simp add: stable_def can_use_def s')
  show "cur_open s' = cur_open s" "cur_sealed s' = cur_sealed s"
    using keep fb by (simp_all add: cur_open_def cur_sealed_def s')
qed

text \<open>Targets may be forgotten.\<close>

lemma body_weaken:
  assumes "in_body T P N s" "P \<subseteq> T'" "T' \<subseteq> T" "N' \<subseteq> N"
  shows "in_body T' P N' s"
proof -
  obtain f c where fb: "cur_fun s = Some f" "insert_block s = Some c" using in_bodyE [OF assms(1)] .
  note B = in_bodyD [OF assms(1) fb]
  note F = flow_okD [OF B(7)]
  have "flow_ok T' P N' f c (module s)"
  proof (rule flow_okI)
    show "N' \<subseteq> P" "T' \<subseteq> set (tl (block_list (module s) f))" using F(3,5) assms(3,4) by blast+
    show "pre_list (module s) d = []" if "d \<in> N'" for d using that assms(4) F(9) by blast
  qed (use F assms(2) in blast)+
  then show ?thesis using B(1-6) fb by (simp add: in_body_def)
qed

end
