(* ===== verification/Builder_Run.thy ===== *)
theory Builder_Run
  imports Builder_Steps
begin

text \<open>
  The visitors of expressions and statements keep the invariant of a function body: an
  expression leaves an open block and a usable value, a statement an open or a finished block,
  and the scope is as before.
\<close>

section \<open>Parts of expressions\<close>

definition evals :: "addr set \<Rightarrow> addr set \<Rightarrow> addr set \<Rightarrow> builder \<Rightarrow> builder \<Rightarrow> bool" where
  "evals T P N s s' \<longleftrightarrow> goes T P N s s' \<and> (\<exists>a. tmp_val s' = Some a \<and> can_use s' a)"

lemma case_prod_eq_Inr: "(case p of (a, b) \<Rightarrow> F a b) = Inr y \<longleftrightarrow> (\<exists>a b. p = (a, b) \<and> F a b = Inr y)"
  by (simp split: prod.split)

lemma evalsD:
  "evals T P N s s' \<Longrightarrow> goes T P N s s'" "evals T P N s s' \<Longrightarrow> in_body T P N s'" "evals T P N s s' \<Longrightarrow> cur_open s'"
  "evals T P N s s' \<Longrightarrow> stable s s'" "evals T P N s s' \<Longrightarrow> get_tmp s' = Inr a \<Longrightarrow> can_use s' a"
  "evals T P N s s' \<Longrightarrow> can_use s v \<Longrightarrow> can_use s' v"
  by (auto simp: evals_def goes_def get_tmp_def dest: stable_use)

lemma goes_evals: "goes T P N s s1 \<Longrightarrow> evals T' P' N' s1 s2 \<Longrightarrow> evals T' P' N' s s2"
  by (auto simp: evals_def intro: goes_trans)

lemma evals_trans: "evals T P N s s1 \<Longrightarrow> evals T' P' N' s1 s2 \<Longrightarrow> evals T' P' N' s s2"
  by (auto simp: evals_def intro: goes_trans)

lemma gives_evals: "gives T P N s a s1 \<Longrightarrow> evals T P N s (set_tmp a s1)"
  by (auto simp: evals_def gives_def set_tmp_def)

lemma evals_tmp [simp]:
  "evals T P N s (s'\<lparr>require_lvalue := l\<rparr>) = evals T P N s s'" "evals T P N (s\<lparr>require_lvalue := l\<rparr>) s' = evals T P N s s'"
  by (simp_all add: evals_def)

lemma scope_find_usable: "names_ok f m sc \<Longrightarrow> scope_find nm sc = Some a \<Longrightarrow> usable m f a"
proof (induction nm sc rule: scope_find.induct)
  case (2 nm e sc)
  then show ?case by (cases "e nm") (auto simp: names_ok_def)
qed simp

lemma find_can_use: "in_body T P N s \<Longrightarrow> scope_find nm (scope s) = Some a \<Longrightarrow> can_use s a"
  unfolding in_body_def can_use_def using scope_find_usable by metis

lemma return_zero_closes:
  assumes body: "in_body T P N s" "cur_open s" and run: "return_zero s = Inr s'"
  shows "closes T P N s s'"
proof -
  obtain t where t: "fun_return_type s = Inr t" using run by (auto simp: return_zero_def rbind_eq_Inr)
  have const: "closes T P N s s'" if "gives T P N s c s1" "b_ret c s1 = Inr (i, s')" for c s1 i
    using b_closes(1) [OF givesD(1,2) [OF that(1)] that(2) givesD(4) [OF that(1)]] givesD(3) [OF that(1)]
    by (auto simp: closes_def intro: stable_trans)
  consider "is_void_type t" | "\<not> is_void_type t" "is_float_type t" | "\<not> is_void_type t" "\<not> is_float_type t" by blast
  then show ?thesis
  proof cases
    case 1
    then obtain i where "b_void_ret s = Inr (i, s')" using run t by (auto simp: return_zero_def rbind_eq_Inr)
    then show ?thesis by (rule b_closes(2) [OF body])
  next
    case 2
    then obtain c s1 i where "CONST_FP 0 s = (c, s1)" "b_ret c s1 = Inr (i, s')"
      using run t by (auto simp: return_zero_def rbind_eq_Inr split: prod.splits)
    then show ?thesis using const_gives(2) [OF body] const by blast
  next
    case 3
    then obtain c s1 i where "CONST_INT 0 s = (c, s1)" "b_ret c s1 = Inr (i, s')"
      using run t by (auto simp: return_zero_def rbind_eq_Inr split: prod.splits)
    then show ?thesis using const_gives(1) [OF body] const by blast
  qed
qed

lemma condition_gives:
  assumes body: "in_body T P N s" "cur_open s" and v: "can_use s v" and run: "condition v s = Inr (c, s')"
  shows "gives T P N s c s'"
proof -
  obtain t where t: "type_of v s = Inr t" using run by (auto simp: condition_def rbind_eq_Inr)
  show ?thesis
  proof (cases "is_integer_type t")
    case True
    then obtain z s1 where z: "CONST_INT 0 s = (z, s1)" "b_icmp NE v z s1 = Inr (c, s')"
      using run t by (auto simp: condition_def split: prod.splits)
    note g = const_gives(1) [OF body z(1)]
    show ?thesis by (rule gives_trans [OF g b_gives(3) [OF givesD(1,2) [OF g] z(2) givesD(5) [OF g v] givesD(4) [OF g]]])
  next
    case False
    then obtain z s1 where z: "CONST_FP 0 s = (z, s1)" "b_fcmp NE v z s1 = Inr (c, s')"
      using run t by (auto simp: condition_def split: prod.splits)
    note g = const_gives(2) [OF body z(1)]
    show ?thesis by (rule gives_trans [OF g b_gives(4) [OF givesD(1,2) [OF g] z(2) givesD(5) [OF g v] givesD(4) [OF g]]])
  qed
qed

lemma promote_goes:
  assumes body: "in_body T P N s" "cur_open s" and lr: "can_use s l" "can_use s r" and run: "promote l r s = Inr (l', r', b, s')"
  shows "goes T P N s s' \<and> can_use s' l' \<and> can_use s' r'"
proof -
  obtain tl tr where t: "type_of l s = Inr tl" "type_of r s = Inr tr" using run by (auto simp: promote_def rbind_eq_Inr)
  consider "tl = tr" | "tl \<noteq> tr" "is_integer_type tl" | "tl \<noteq> tr" "\<not> is_integer_type tl" by blast
  then show ?thesis
  proof cases
    case 1
    then show ?thesis using run t lr goes_refl [OF body] by (simp add: promote_def)
  next
    case 2
    then have g: "b_sitofp l FLOAT_T s = Inr (l', s')" "r' = r" using run t by (auto simp: promote_def rbind_eq_Inr)
    show ?thesis using b_gives(8) [OF body g(1) lr(1)] givesD(4,5,6) lr(2) g(2) by blast
  next
    case 3
    then have g: "b_sitofp r FLOAT_T s = Inr (r', s')" "l' = l" using run t by (auto simp: promote_def rbind_eq_Inr)
    show ?thesis using b_gives(8) [OF body g(1) lr(2)] givesD(4,5,6) lr(1) g(2) by blast
  qed
qed

lemma build_num_evals: "in_body T P N s \<Longrightarrow> cur_open s \<Longrightarrow> evals T P N s (build_num n s)"
  using const_gives by (auto simp: build_num_def intro!: gives_evals split: ASTNum.splits prod.splits)

text \<open>The value of a variable that is to be assigned is a pointer.\<close>

definition tmp_pointer :: "builder \<Rightarrow> bool" where
  "tmp_pointer s \<longleftrightarrow> (\<forall>a. get_tmp s = Inr a \<longrightarrow> pointer_at s a)"

lemma tmp_pointer_set [simp]:
  "tmp_pointer (set_tmp a s) = pointer_at s a" "tmp_pointer (s\<lparr>require_lvalue := l\<rparr>) = tmp_pointer s"
  by (simp_all add: tmp_pointer_def get_tmp_def set_tmp_def)

lemma pointee_pointer: "pointee v s = Inr e \<Longrightarrow> pointer_at s v"
  by (auto simp: pointee_def type_of_def rbind_eq_Inr pointer_at_def get_val_def get_pointer_element_type_def
      split: option.splits ty.splits)

lemma build_plain_var_evals:
  assumes body: "in_body T P N s" "cur_open s" and v: "can_use s v" and run: "build_plain_var v e l s = Inr s'"
    and ptr: "pointer_at s v"
  shows "evals T P N s s' \<and> (l \<longrightarrow> tmp_pointer s')"
proof -
  consider "l" | "\<not> l" "is_integer_type e \<or> is_float_type e \<or> is_pointer_type e"
    | "\<not> l" "\<not> (is_integer_type e \<or> is_float_type e \<or> is_pointer_type e)" by blast
  then show ?thesis
  proof cases
    case 1
    then show ?thesis
      using run v ptr goes_refl [OF body] by (auto simp: build_plain_var_def evals_def set_tmp_def tmp_pointer_def get_tmp_def)
  next
    case 2
    then obtain x s1 where x: "b_load v s = Inr (x, s1)" "s' = set_tmp x s1"
      using run by (auto simp: build_plain_var_def rbind_eq_Inr)
    show ?thesis using gives_evals [OF b_gives(11) [OF body x(1) v]] x(2) 2(1) by simp
  next
    case 3
    obtain z s1 where z: "CONST_INT 0 s = (z, s1)" by fastforce
    obtain z' s2 where z': "CONST_INT 0 s1 = (z', s2)" by fastforce
    obtain p s3 where p: "b_gep v [z, z'] s2 = Inr (p, s3)" "s' = set_tmp p s3"
      using run 3 z z' by (auto simp: build_plain_var_def rbind_eq_Inr)
    note g = const_gives(1) [OF body z]
    note g' = const_gives(1) [OF givesD(1,2) [OF g] z']
    have "gives T P N s2 p s3"
      using b_gives(10) [OF givesD(1,2) [OF g'] p(1)] givesD(5) [OF g'] givesD(4) [OF g] givesD(5) [OF g v] givesD(4) [OF g']
      by simp
    then show ?thesis using gives_evals [OF gives_trans [OF g gives_trans [OF g']]] p(2) 3(1) by blast
  qed
qed

lemma element_pointer_gives:
  assumes body: "in_body T P N s" "cur_open s" and u: "can_use s var" "can_use s v"
    and run: "element_pointer var e v s = Inr (p, s')"
  shows "gives T P N s p s' \<and> pointer_at s' p"
proof -
  consider "is_integer_type e \<or> is_float_type e" | "\<not> (is_integer_type e \<or> is_float_type e)" "is_pointer_type e"
    | "\<not> (is_integer_type e \<or> is_float_type e)" "\<not> is_pointer_type e" by blast
  then show ?thesis
  proof cases
    case 1
    then show ?thesis
      using run b_gives(10) [OF body, of var "[v]"] b_pointers(1) [OF body(1), of var "[v]"] u by (simp add: element_pointer_def)
  next
    case 2
    then obtain a s1 where a: "b_load var s = Inr (a, s1)" "b_gep a [v] s1 = Inr (p, s')"
      using run by (auto simp: element_pointer_def rbind_eq_Inr)
    note g = b_gives(11) [OF body a(1) u(1)]
    show ?thesis
      using gives_trans [OF g b_gives(10) [OF givesD(1,2) [OF g] a(2) givesD(4) [OF g]]]
        b_pointers(1) [OF givesD(1) [OF g] a(2)] givesD(5) [OF g u(2)] by simp
  next
    case 3
    then obtain z s1 where z: "CONST_INT 0 s = (z, s1)" "b_gep var [z, v] s1 = Inr (p, s')"
      using run by (auto simp: element_pointer_def split: prod.splits)
    note g = const_gives(1) [OF body z(1)]
    show ?thesis
      using gives_trans [OF g b_gives(10) [OF givesD(1,2) [OF g] z(2) givesD(5) [OF g u(1)]]]
        b_pointers(1) [OF givesD(1) [OF g] z(2)] givesD(5) [OF g u(2)] givesD(4) [OF g]
      by simp
  qed
qed

text \<open>Two new blocks: one for the failure, which returns, and one to go on in.\<close>

lemma build_index_evals:
  assumes body: "in_body T P N s" "cur_open s" and var: "can_use s var" and tmp: "\<And>a. get_tmp s = Inr a \<Longrightarrow> can_use s a"
    and run: "build_index var e l s = Inr s'"
  shows "evals T P N s s' \<and> (l \<longrightarrow> tmp_pointer s')"
proof -
  obtain v e1 s1 c1 s2 t v' s3 z s3' n s4 i4 s5 i6 s6 s7 p s8 where r:
    "get_tmp s = Inr v" "new_block [] s = Inr (e1, s1)" "new_block [] s1 = Inr (c1, s2)" "type_of v s2 = Inr t"
    "(if is_float_type t then b_fptosi v INT32_T s2 else Inr (v, s2)) = Inr (v', s3)"
    "CONST_INT 0 s3 = (z, s3')" "b_icmp LT v' z s3' = Inr (n, s4)" "b_cond_br n e1 c1 s4 = Inr (i4, s5)"
    "b_call (scope_find ''neg_idx_except'' (scope s5)) [] (set_insert_point e1 s5) = Inr (i6, s6)"
    "return_zero s6 = Inr s7" "element_pointer var e v' (set_insert_point c1 s7) = Inr (p, s8)"
    "(if l then Inr ((set_tmp p s8)\<lparr>require_lvalue := False\<rparr>)
      else rbind (b_load p s8) (\<lambda>(x, s). Inr (set_tmp x s))) = Inr s'"
    using run unfolding build_index_def rbind_eq_Inr case_prod_eq_Inr by blast
  let ?T = "insert c1 (insert e1 T)" and ?P = "insert c1 (insert e1 P)" and ?N = "insert c1 (insert e1 N)"
  note n1 = new_block_body [OF body(1) r(2)]
  note n2 = new_block_body [OF n1(1) r(3)]
  obtain f b where fb: "cur_fun s = Some f" "insert_block s = Some b" using in_bodyE [OF body(1)] .
  note sub = flow_okD(4,3) [OF in_bodyD(7) [OF body(1) fb]]
  have o2: "cur_open s2" using n1(2) n2(2) body(2) by simp
  have st2: "stable s s2" using stable_trans [OF n1(4) n2(4)] .
  have v2: "can_use s2 v" "can_use s2 var" using stable_use [OF st2] tmp [OF r(1)] var by blast+
  have g3: "goes ?T ?P ?N s2 s3 \<and> can_use s3 v' \<and> can_use s3 var"
  proof (cases "is_float_type t")
    case True
    then have "gives ?T ?P ?N s2 v' s3" using b_gives(9) [OF n2(1) o2 _ v2(1)] r(5) by simp
    then show ?thesis using givesD(4,5,6) v2(2) by blast
  next
    case False
    then show ?thesis using r(5) goes_refl [OF n2(1) o2] v2 by simp
  qed
  note g3' = const_gives(1) [OF goesD(1,2) [OF conjunct1 [OF g3]] r(6)]
  have v3: "can_use s3' v'" "can_use s3' var" using givesD(5) [OF g3'] g3 by blast+
  note g4 = b_gives(3) [OF givesD(1,2) [OF g3'] r(7) v3(1) givesD(4) [OF g3']]
  note c5 = b_closes(4) [OF givesD(1,2) [OF g4] r(8) givesD(4) [OF g4]]
  have c5: "closes ?T ?P (?N - {c1, e1}) s4 s5" using c5 by simp
  have g5: "goes ?T (?P - {e1}) (?N - {c1, e1} - {e1}) s5 (set_insert_point e1 s5)"
    by (rule set_insert_point_body [OF closesD(1,2) [OF c5]]) simp
  have g6: "gives ?T (?P - {e1}) (?N - {c1, e1} - {e1}) (set_insert_point e1 s5) i6 s6"
  proof (rule b_call_gives [OF goesD(1,2) [OF g5] r(9)])
    show "can_use (set_insert_point e1 s5) g" if "scope_find ''neg_idx_except'' (scope s5) = Some g" for g
      using find_can_use [OF closesD(1) [OF c5] that] by (simp add: set_insert_point_def can_use_def)
  qed simp
  note c7 = return_zero_closes [OF givesD(1,2) [OF g6] r(10)]
  have ce: "c1 \<noteq> e1" using n2(5) by blast
  note g8 = set_insert_point_body [OF closesD(1,2) [OF c7], of c1]
  have PN: "?P - {e1} - {c1} = P" "?N - {c1, e1} - {e1} - {c1} = N"
    using n1(5) n2(5) sub by blast+
  have g8: "goes ?T P N s7 (set_insert_point c1 s7)" using g8 ce unfolding PN by simp
  have st7: "stable s3' s7"
    using stable_trans [OF givesD(3) [OF g4] stable_trans [OF closesD(3) [OF c5] stable_trans [OF goesD(3) [OF g5]
      stable_trans [OF givesD(3) [OF g6] closesD(3) [OF c7]]]]] .
  have st8: "stable s3' (set_insert_point c1 s7)" by (rule stable_trans [OF st7 goesD(3) [OF g8]])
  note g9p = element_pointer_gives [OF goesD(1,2) [OF g8] stable_use [OF st8 v3(2)] stable_use [OF st8 v3(1)] r(11)]
  note g9 = conjunct1 [OF g9p]
  have st9: "stable s s8"
    by (rule stable_trans [OF st2 stable_trans [OF goesD(3) [OF conjunct1 [OF g3]] stable_trans [OF givesD(3) [OF g3']
      stable_trans [OF st8 givesD(3) [OF g9]]]]])
  have b8: "in_body T P N s8" by (rule body_weaken [OF givesD(1) [OF g9]]) (use sub in auto)
  have g: "gives T P N s p s8" using b8 givesD(2,4) [OF g9] st9 by (simp add: gives_def goes_def)
  show ?thesis
  proof (cases l)
    case True
    then show ?thesis using r(12) gives_evals [OF g] conjunct2 [OF g9p] by auto
  next
    case False
    then obtain x s9 where x: "b_load p s8 = Inr (x, s9)" "s' = set_tmp x s9"
      using r(12) by (auto simp: rbind_eq_Inr)
    show ?thesis
      using gives_evals [OF gives_trans [OF g b_gives(11) [OF b8 givesD(2) [OF g9] x(1) givesD(4) [OF g9]]]] x(2) False by simp
  qed
qed

lemma convert_arg_evals:
  assumes e: "evals T P N s0 s" and run: "convert_arg ps s = Inr s'"
  shows "evals T P N s0 s'"
proof -
  obtain v t where v: "get_tmp s = Inr v" "type_of v s = Inr t" using run by (auto simp: convert_arg_def rbind_eq_Inr)
  have conv: "evals T P N s0 (set_tmp w s1)" if "gives T P N s w s1" for w s1
    by (rule evals_trans [OF e gives_evals [OF that]])
  note gv = b_gives(8,9) [OF evalsD(2,3) [OF e] _ evalsD(5) [OF e v(1)]]
  consider "s' = s" | w s1 where "b_sitofp v FLOAT_T s = Inr (w, s1)" "s' = set_tmp w s1"
    | w s1 where "b_fptosi v INT32_T s = Inr (w, s1)" "s' = set_tmp w s1"
    using run v by (auto simp: convert_arg_def rbind_eq_Inr split: if_splits list.splits)
  then show ?thesis using e conv gv by cases auto
qed

lemma build_assign_evals:
  assumes e: "evals T P N s0 s" and v: "can_use s v" and ptr: "tmp_pointer s" and run: "build_assign v s = Inr s'"
  shows "evals T P N s0 s'"
proof -
  obtain a ta tv v' s1 i s2 where r: "get_tmp s = Inr a" "type_of a s = Inr ta" "type_of v s = Inr tv"
    "(if get_pointer_element_type ta = Some tv then Inr (v, s)
      else if tv = INT32_T then b_sitofp v FLOAT_T s else b_fptosi v INT32_T s) = Inr (v', s1)"
    "b_store v' a s1 = Inr (i, s2)" "s' = set_tmp v' s2"
    using run by (fastforce simp: build_assign_def rbind_eq_Inr)
  note body = evalsD(2,3) [OF e] and a = evalsD(5) [OF e r(1)]
  have g1: "goes T P N s s1 \<and> can_use s1 v' \<and> can_use s1 a"
  proof (cases "get_pointer_element_type ta = Some tv")
    case True
    then show ?thesis using r(4) goes_refl [OF body] v a by simp
  next
    case False
    then have "gives T P N s v' s1" using r(4) b_gives(8,9) [OF body _ v] by (auto split: if_splits)
    then show ?thesis using givesD(4,5,6) a by blast
  qed
  have p: "pointer_at s1 a"
    using pointer_at_stable [OF _ goesD(3) [OF conjunct1 [OF g1]]] ptr r(1) by (simp add: tmp_pointer_def)
  have g2: "gives T P N s1 i s2" using b_gives(5) [OF goesD(1,2) [OF conjunct1 [OF g1]] r(5)] g1 p by blast
  have "goes T P N s0 s2"
    by (rule goes_trans [OF goes_trans [OF evalsD(1) [OF e] conjunct1 [OF g1]] givesD(6) [OF g2]])
  then show ?thesis using r(6) givesD(5) [OF g2] g1 by (auto simp: evals_def set_tmp_def)
qed

lemma build_binop_evals:
  assumes body: "in_body T P N s" "cur_open s" and lr: "can_use s l" "can_use s r"
  shows "build_compare cop l r s = Inr s' \<Longrightarrow> evals T P N s s'"
    "build_addop aop l r s = Inr s' \<Longrightarrow> evals T P N s s'"
    "build_mulop mop l r s = Inr s' \<Longrightarrow> evals T P N s s'"
proof -
  have arith: "evals T P N s (set_tmp v s2)"
    if "promote l r s = Inr (l', r', k, s1)" "F l' r' s1 = Inr (v, s2)"
      "F = b_ibinary op \<and> op \<in> {Add, Sub, Mul, Sdiv} \<or> F = b_fbinary op \<and> op \<in> {Fadd, Fsub, Fmul, Fdiv}" for l' r' k s1 F v s2 op
  proof -
    note p = promote_goes [OF body lr that(1)]
    have "gives T P N s1 v s2"
      using that(2,3) b_gives(1,2) [OF goesD(1,2) [OF conjunct1 [OF p]]] p by blast
    then show ?thesis using gives_evals [OF goes_gives [OF conjunct1 [OF p]]] by blast
  qed
  show "evals T P N s s'" if run: "build_addop aop l r s = Inr s'"
  proof -
    obtain l' r' k s1 where p: "promote l r s = Inr (l', r', k, s1)"
      using run by (auto simp: build_addop_def rbind_eq_Inr)
    show ?thesis
      using run p arith [OF p] by (cases aop; cases k) (auto simp: build_addop_def rbind_eq_Inr)
  qed
  show "evals T P N s s'" if run: "build_mulop mop l r s = Inr s'"
  proof -
    obtain l' r' k s1 where p: "promote l r s = Inr (l', r', k, s1)"
      using run by (auto simp: build_mulop_def rbind_eq_Inr)
    show ?thesis
      using run p arith [OF p] by (cases mop; cases k) (auto simp: build_mulop_def rbind_eq_Inr)
  qed
  show "evals T P N s s'" if run: "build_compare cop l r s = Inr s'"
  proof -
    obtain l' r' k s1 where p: "promote l r s = Inr (l', r', k, s1)"
      using run by (auto simp: build_compare_def rbind_eq_Inr)
    let ?cmp = "if k then b_icmp (cmp_op_of cop) l' r' s1 else b_fcmp (cmp_op_of cop) l' r' s1"
    have "rbind ?cmp (\<lambda>(c, s). rbind (b_zext c INT32_T s) (\<lambda>(v, s). Inr (set_tmp v s))) = Inr s'"
      using run p by (simp add: build_compare_def)
    then obtain c s2 v s3 where c: "?cmp = Inr (c, s2)"
      and z: "b_zext c INT32_T s2 = Inr (v, s3)" "s' = set_tmp v s3"
      by (cases ?cmp) (auto simp: rbind_eq_Inr)
    note g = promote_goes [OF body lr p]
    have gc: "gives T P N s1 c s2"
      using c b_gives(3,4) [OF goesD(1,2) [OF conjunct1 [OF g]]] g by (auto split: if_splits)
    note gz = b_gives(7) [OF givesD(1,2) [OF gc] z(1) givesD(4) [OF gc]]
    show ?thesis using gives_evals [OF goes_gives [OF conjunct1 [OF g] gives_trans [OF gc gz]]] z(2) by simp
  qed
qed

section \<open>Expressions\<close>

lemma build_expr_evals:
  fixes e :: "f32 ASTExpression" and v :: "f32 ASTVar" and a :: "f32 ASTAdditiveExpression"
    and t :: "f32 ASTTerm" and f :: "f32 ASTFactor"
  shows "build_expression e s = Inr s' \<Longrightarrow> in_body T P N s \<Longrightarrow> cur_open s \<Longrightarrow> evals T P N s s'"
    "build_var v s = Inr s' \<Longrightarrow> in_body T P N s \<Longrightarrow> cur_open s \<Longrightarrow> evals T P N s s' \<and> (require_lvalue s \<longrightarrow> tmp_pointer s')"
    "build_additive a s = Inr s' \<Longrightarrow> in_body T P N s \<Longrightarrow> cur_open s \<Longrightarrow> evals T P N s s'"
    "build_term t s = Inr s' \<Longrightarrow> in_body T P N s \<Longrightarrow> cur_open s \<Longrightarrow> evals T P N s s'"
    "build_factor f s = Inr s' \<Longrightarrow> in_body T P N s \<Longrightarrow> cur_open s \<Longrightarrow> evals T P N s s'"
proof (induction e s and v s and a s and t s and f s arbitrary: s' and s' and s' and s' and s'
    rule: build_expression_build_var_build_additive_build_term_build_factor.induct)
  case (1 v e s)
  obtain s1 r s2 where r: "build_expression e s = Inr s1" "get_tmp s1 = Inr r"
    "build_var v (s1\<lparr>require_lvalue := True\<rparr>) = Inr s2" "build_assign r s2 = Inr s'"
    using "1.prems"(1) by (auto simp: rbind_eq_Inr)
  note e1 = "1.IH"(1) [OF r(1) "1.prems"(2,3)]
  have e2: "evals T P N (s1\<lparr>require_lvalue := True\<rparr>) s2 \<and> (require_lvalue (s1\<lparr>require_lvalue := True\<rparr>) \<longrightarrow> tmp_pointer s2)"
    by (rule "1.IH"(2) [OF r(1,2,3)]) (use evalsD(2,3) [OF e1] in simp_all)
  then have e2: "evals T P N s1 s2" and p: "tmp_pointer s2" by simp_all
  show ?case
    by (rule evals_trans [OF e1 build_assign_evals [OF e2 evalsD(6) [OF e2 evalsD(5) [OF e1 r(2)]] p r(4)]])
next
  case (2 a s)
  then show ?case by simp
next
  case (3 a op b s)
  obtain s1 l s2 r where r: "build_additive a s = Inr s1" "get_tmp s1 = Inr l" "build_additive b s1 = Inr s2"
    "get_tmp s2 = Inr r" "build_compare op l r s2 = Inr s'"
    using "3.prems"(1) by (auto simp: rbind_eq_Inr)
  note e1 = "3.IH"(1) [OF r(1) "3.prems"(2,3)]
  note e2 = "3.IH"(2) [OF r(1,2,3) evalsD(2,3) [OF e1]]
  show ?case
    using evals_trans [OF evals_trans [OF e1 e2] build_binop_evals(1) [OF evalsD(2,3) [OF e2] evalsD(6) [OF e2 evalsD(5) [OF e1 r(2)]] evalsD(5) [OF e2 r(4)] r(5)]] .
next
  case (4 nm i s)
  obtain var e where v: "scope_find nm (scope s) = Some var" "pointee var s = Inr e"
    using "4.prems"(1) by (auto simp: rbind_eq_Inr split: option.splits)
  have u: "can_use s var" by (rule find_can_use [OF "4.prems"(2) v(1)])
  show ?case
  proof (cases i)
    case None
    have "evals T P N (s\<lparr>require_lvalue := False\<rparr>) s' \<and> (require_lvalue s \<longrightarrow> tmp_pointer s')"
      by (rule build_plain_var_evals [of _ _ _ _ var e "require_lvalue s"])
        (use "4.prems" v None u pointee_pointer [OF v(2)] in \<open>simp_all add: in_body_def\<close>)
    then show ?thesis by simp
  next
    case (Some ix)
    obtain s1 where r: "build_expression ix (s\<lparr>require_lvalue := False\<rparr>) = Inr s1" "build_index var e (require_lvalue s) s1 = Inr s'"
      using "4.prems"(1) v Some by (auto simp: rbind_eq_Inr)
    have "evals T P N (s\<lparr>require_lvalue := False\<rparr>) s1"
      by (rule "4.IH" [OF v Some r(1)]) (use "4.prems"(2,3) in simp_all)
    then have e1: "evals T P N s s1" by simp
    note bi = build_index_evals [OF evalsD(2,3) [OF e1] evalsD(6) [OF e1 u] evalsD(5) [OF e1] r(2)]
    show ?thesis using evals_trans [OF e1 conjunct1 [OF bi]] conjunct2 [OF bi] by blast
  qed
next
  case (5 t s)
  then show ?case by simp
next
  case (6 a op t s)
  obtain s1 l s2 r where r: "build_additive a s = Inr s1" "get_tmp s1 = Inr l" "build_term t s1 = Inr s2"
    "get_tmp s2 = Inr r" "build_addop op l r s2 = Inr s'"
    using "6.prems"(1) by (auto simp: rbind_eq_Inr)
  note e1 = "6.IH"(1) [OF r(1) "6.prems"(2,3)]
  note e2 = "6.IH"(2) [OF r(1,2,3) evalsD(2,3) [OF e1]]
  show ?case
    using evals_trans [OF evals_trans [OF e1 e2] build_binop_evals(2) [OF evalsD(2,3) [OF e2] evalsD(6) [OF e2 evalsD(5) [OF e1 r(2)]] evalsD(5) [OF e2 r(4)] r(5)]] .
next
  case (7 f s)
  then show ?case by simp
next
  case (8 t op f s)
  obtain s1 l s2 r where r: "build_term t s = Inr s1" "get_tmp s1 = Inr l" "build_factor f s1 = Inr s2"
    "get_tmp s2 = Inr r" "build_mulop op l r s2 = Inr s'"
    using "8.prems"(1) by (auto simp: rbind_eq_Inr)
  note e1 = "8.IH"(1) [OF r(1) "8.prems"(2,3)]
  note e2 = "8.IH"(2) [OF r(1,2,3) evalsD(2,3) [OF e1]]
  show ?case
    using evals_trans [OF evals_trans [OF e1 e2] build_binop_evals(3) [OF evalsD(2,3) [OF e2] evalsD(6) [OF e2 evalsD(5) [OF e1 r(2)]] evalsD(5) [OF e2 r(4)] r(5)]] .
next
  case (9 e s)
  then show ?case by simp
next
  case (10 v s)
  then show ?case by simp
next
  case (11 nm args s)
  obtain f where f: "scope_find nm (scope s) = Some f"
    using "11.prems"(1) by (auto split: option.splits)
  obtain r ps where ty: "type_of f s = Inr (FunctionTy r ps)"
    using "11.prems"(1) f by (cases "type_of f s") (auto split: ty.splits)
  let ?arg = "\<lambda>e vps. case vps of (vs, ps, s) \<Rightarrow> rbind (build_expression e s) (\<lambda>s. rbind (convert_arg ps s) (\<lambda>s.
      rbind (get_tmp s) (\<lambda>v. Inr (vs @ [v], tl ps, s))))"
  obtain vs ps' s1 v s2 where run: "rfold ?arg args ([], ps, s) = Inr (vs, ps', s1)" "b_call (Some f) vs s1 = Inr (v, s2)"
    "s' = set_tmp v s2"
    using "11.prems"(1) f ty by (auto simp: rbind_eq_Inr)
  have "case (vs, ps', s1) of (vs, _, s1) \<Rightarrow> goes T P N s s1 \<and> (\<forall>v \<in> set vs. can_use s1 v)"
  proof (rule rfold_invariant [OF run(1), where P = "\<lambda>vps. case vps of (vs, _, s1) \<Rightarrow> goes T P N s s1 \<and> (\<forall>v \<in> set vs. can_use s1 v)"])
    show "case ([], ps, s) of (vs, _, s1) \<Rightarrow> goes T P N s s1 \<and> (\<forall>v \<in> set vs. can_use s1 v)"
      using goes_refl [OF "11.prems"(2,3)] by simp
    fix e st st'
    assume e: "e \<in> set args" and st: "case st of (vs, _, s1) \<Rightarrow> goes T P N s s1 \<and> (\<forall>v \<in> set vs. can_use s1 v)"
      and step: "?arg e st = Inr st'"
    obtain us qs t where st_eq: "st = (us, qs, t)" by (cases st)
    obtain t1 t2 w where t: "build_expression e t = Inr t1" "convert_arg qs t1 = Inr t2" "get_tmp t2 = Inr w" "st' = (us @ [w], tl qs, t2)"
      using step st_eq by (auto simp: rbind_eq_Inr)
    have g: "goes T P N s t" and us: "\<forall>v \<in> set us. can_use t v" using st st_eq by simp_all
    have "evals T P N t t1" by (rule "11.IH" [OF f ty refl e refl refl t(1) goesD(1,2) [OF g]])
    then have e2: "evals T P N t t2" by (rule convert_arg_evals [OF _ t(2)])
    have "goes T P N s t2" by (rule goes_trans [OF g evalsD(1) [OF e2]])
    then show "case st' of (vs, _, s1) \<Rightarrow> goes T P N s s1 \<and> (\<forall>v \<in> set vs. can_use s1 v)"
      using us evalsD(6) [OF e2] evalsD(5) [OF e2 t(3)] t(4) by auto
  qed
  then have g: "goes T P N s s1" and vs: "\<forall>v \<in> set vs. can_use s1 v" by simp_all
  have "gives T P N s1 v s2"
    by (rule b_call_gives [OF goesD(1,2) [OF g] run(2)])
      (use vs stable_use [OF goesD(3) [OF g] find_can_use [OF "11.prems"(2) f]] in auto)
  then show ?case using gives_evals [OF goes_gives [OF g]] run(3) by blast
next
  case (12 n s)
  then show ?case using build_num_evals by auto
qed

section \<open>Statements\<close>

text \<open>A statement leaves the block open or finished, and its own blocks behind.\<close>

definition runs :: "addr set \<Rightarrow> addr set \<Rightarrow> addr set \<Rightarrow> builder \<Rightarrow> builder \<Rightarrow> bool" where
  "runs T P N s s' \<longleftrightarrow> in_body T P N s' \<and> stable s s'"

lemma runs_intros:
  "goes T P N s s' \<Longrightarrow> runs T P N s s'" "closes T P N s s' \<Longrightarrow> runs T P N s s'" "evals T P N s s' \<Longrightarrow> runs T P N s s'"
  by (auto simp: runs_def goes_def closes_def evals_def)

lemma runsD: "runs T P N s s' \<Longrightarrow> in_body T P N s'" "runs T P N s s' \<Longrightarrow> stable s s'"
  by (simp_all add: runs_def)

lemma runs_trans: "runs T P N s s1 \<Longrightarrow> runs T' P' N' s1 s2 \<Longrightarrow> runs T' P' N' s s2"
  by (auto simp: runs_def intro: stable_trans)

lemma open_or_sealed: "in_body T P N s \<Longrightarrow> cur_open s \<or> cur_sealed s"
  using terminated_iff [of T P N s] by (metis (full_types))

lemma br_unless_terminated_closes:
  assumes body: "in_body T P N s" and t: "t \<in> T" and run: "br_unless_terminated t s = Inr s'"
  shows "closes T P (N - {t}) s s'"
proof -
  note ti = terminated_iff [OF body]
  obtain d where d: "terminated s = Inr d" using ti by blast
  show ?thesis
  proof (cases d)
    case True
    then have "s' = s" "cur_sealed s" using run d ti by (simp_all add: br_unless_terminated_def)
    moreover obtain f b where fb: "cur_fun s = Some f" "insert_block s = Some b" using in_bodyE [OF body] .
    moreover have "P \<subseteq> T" using flow_okD(4) [OF in_bodyD(7) [OF body fb]] .
    ultimately show ?thesis using body_weaken [OF body, of T "N - {t}"] by (simp add: closes_def)
  next
    case False
    then obtain i where "cur_open s" "b_br t s = Inr (i, s')"
      using run d ti by (auto simp: br_unless_terminated_def rbind_eq_Inr)
    then show ?thesis using b_closes(3) [OF body _ _ t] by blast
  qed
qed

text \<open>The same for a step that may add names to the innermost scope.\<close>

definition declares :: "addr set \<Rightarrow> addr set \<Rightarrow> addr set \<Rightarrow> builder \<Rightarrow> builder \<Rightarrow> bool" where
  "declares T P N s s' \<longleftrightarrow> in_body T P N s' \<and> cur_open s' \<and> cur_fun s' = cur_fun s \<and>
     length (scope s') = length (scope s) \<and> tl (scope s') = tl (scope s) \<and> grows (module s) (module s') \<and>
     (\<forall>a. can_use s a \<longrightarrow> can_use s' a)"

lemma declares_trans: "declares T P N s s1 \<Longrightarrow> declares T' P' N' s1 s2 \<Longrightarrow> declares T' P' N' s s2"
  by (auto simp: declares_def intro: grows_trans)

lemma goes_declares: "goes T P N s s' \<Longrightarrow> declares T P N s s'"
  by (auto simp: goes_def stable_def declares_def)

lemma push_name_declares:
  assumes body: "in_body T P N s" "cur_open s" and a: "can_use s a" and run: "push_name nm a s = Inr s'"
  shows "declares T P N s s'"
proof -
  obtain f b where fb: "cur_fun s = Some f" "insert_block s = Some b" using in_bodyE [OF body(1)] .
  note B = in_bodyD [OF body(1) fb]
  obtain e sc e' where sc: "scope s = e # sc" "e' = e \<or> e' = e(nm \<mapsto> a)" "s' = s\<lparr>scope := e' # sc\<rparr>"
    using run by (auto simp: push_name_def scope_push_def rbind_eq_Inr split: list.splits option.splits)
  have "names_ok f (module s) (e' # sc)"
    using B(6) sc(1,2) a fb(1) by (auto simp: names_ok_def can_use_def split: if_splits)
  then have "in_body T P N s'" using B fb sc(1,3) by (simp add: in_body_def)
  then show ?thesis using sc(1,3) body(2) by (simp add: declares_def cur_open_def can_use_def)
qed

lemma build_var_declaration_declares:
  assumes body: "in_body T P N s" "cur_open s" and run: "build_var_declaration d s = Inr s'"
  shows "declares T P N s s'"
proof -
  have "\<not> in_global (scope s)" using body(1) by (auto simp: in_body_def in_global_def)
  then obtain t a s1 where r: "b_alloca t s = Inr (a, s1)" "push_name (var_id d) a s1 = Inr s'"
    using run by (auto simp: build_var_declaration_def rbind_eq_Inr)
  note g = b_gives(6) [OF body r(1)]
  show ?thesis
    by (rule declares_trans [OF goes_declares [OF givesD(6) [OF g]] push_name_declares [OF givesD(1,2,4) [OF g] r(2)]])
qed

lemma declarations_declares:
  assumes "in_body T P N s" "cur_open s" "rfold build_var_declaration ds s = Inr s'"
  shows "declares T P N s s'"
proof (rule rfold_invariant [OF assms(3)])
  show "declares T P N s s" using goes_declares [OF goes_refl [OF assms(1,2)]] .
  show "declares T P N s t'" if "declares T P N s t" "build_var_declaration d t = Inr t'" for d t t'
    using declares_trans [OF that(1) build_var_declaration_declares [OF _ _ that(2)]] that(1) by (auto simp: declares_def)
qed

lemma enter_body:
  assumes "in_body T P N s" "cur_open s"
  shows "in_body T P N (enter s)" "cur_open (enter s)"
proof -
  obtain f b where fb: "cur_fun s = Some f" "insert_block s = Some b" using in_bodyE [OF assms(1)] .
  note B = in_bodyD [OF assms(1) fb]
  have "names_ok f (module s) (Map.empty # scope s)" using B(6) by (simp add: names_ok_def)
  then show "in_body T P N (enter s)" using B fb by (simp add: in_body_def enter_def scope_enter_def)
  show "cur_open (enter s)" using assms(2) by (simp add: cur_open_def enter_def)
qed

lemma leave_body:
  assumes body: "in_body T P N s" and l: "3 \<le> length (scope s)" and run: "leave s = Inr s'"
  shows "in_body T P N s'" "s' = s\<lparr>scope := tl (scope s)\<rparr>"
proof -
  obtain f b where fb: "cur_fun s = Some f" "insert_block s = Some b" using in_bodyE [OF body] .
  note B = in_bodyD [OF body fb]
  show s': "s' = s\<lparr>scope := tl (scope s)\<rparr>"
    using run by (auto simp: leave_def scope_exit_def rbind_eq_Inr split: list.splits)
  have "names_ok f (module s) (tl (scope s))" using B(6) l by (cases "scope s") (auto simp: names_ok_def)
  then show "in_body T P N s'" using B fb l s' by (auto simp: in_body_def)
qed

text \<open>A compound statement around its list.\<close>

lemma compound_runs:
  assumes body: "in_body T P N s" "cur_open s"
    and ds: "rfold build_var_declaration ds (enter s) = Inr s1" and ss: "runs T P N s1 s2" and run: "leave s2 = Inr s'"
  shows "runs T P N s s'"
proof -
  note e = enter_body [OF body]
  note d = declarations_declares [OF e ds]
  have sc1: "length (scope s1) = Suc (length (scope s))" "tl (scope s1) = scope s"
    using d by (simp_all add: declares_def enter_def scope_enter_def)
  have sc2: "scope s2 = scope s1" using runsD(2) [OF ss] by (simp add: stable_def)
  have l: "3 \<le> length (scope s2)" using sc1 sc2 body(1) by (auto simp: in_body_def)
  note lv = leave_body [OF runsD(1) [OF ss] l run]
  have "grows (module s) (module s1)" "cur_fun s1 = cur_fun s"
    using d by (simp_all add: declares_def enter_def)
  moreover have "can_use s1 a" if "can_use s a" for a
  proof -
    have "can_use (enter s) a" using that by (simp add: enter_def can_use_def)
    then show ?thesis using d by (simp add: declares_def)
  qed
  moreover note runsD(2) [OF ss]
  ultimately have "stable s s'"
    unfolding stable_def lv(2) by (auto simp: sc1 sc2 can_use_def intro: grows_trans)
  then show ?thesis using lv(1) by (simp add: runs_def)
qed

lemma body_sub:
  assumes "in_body T P N s"
  shows "P \<subseteq> T" "N \<subseteq> P"
proof -
  obtain f b where fb: "cur_fun s = Some f" "insert_block s = Some b" using in_bodyE [OF assms] .
  show "P \<subseteq> T" "N \<subseteq> P" using flow_okD(3,4) [OF in_bodyD(7) [OF assms fb]] by blast+
qed

lemma begin_selection_closes:
  assumes e: "evals T P N s0 s" and run: "begin_selection el s = Inr (t, f, c, s')"
  shows "closes ({t, f, c} \<union> T) ({t, f, c} \<union> P) ((if el then {c} else {f}) \<union> N) s s'"
    "t \<noteq> f" "t \<noteq> c" "f \<noteq> c" "t \<notin> T" "f \<notin> T" "c \<notin> T"
proof -
  obtain v s1 s2 s3 k s4 i where r: "get_tmp s = Inr v" "new_block [] s = Inr (t, s1)" "new_block [] s1 = Inr (f, s2)"
    "new_block [] s2 = Inr (c, s3)" "condition v s3 = Inr (k, s4)" "b_cond_br k t (if el then f else c) s4 = Inr (i, s')"
    using run unfolding begin_selection_def rbind_eq_Inr case_prod_eq_Inr by auto
  note body = evalsD(2,3) [OF e]
  note n1 = new_block_body [OF body(1) r(2)]
  note n2 = new_block_body [OF n1(1) r(3)]
  note n3 = new_block_body [OF n2(1) r(4)]
  show ne: "t \<noteq> f" "t \<noteq> c" "f \<noteq> c" "t \<notin> T" "f \<notin> T" "c \<notin> T" using n1(5) n2(5) n3(5) by auto
  have st: "stable s s3" by (rule stable_trans [OF n1(4) stable_trans [OF n2(4) n3(4)]])
  have o: "cur_open s3" using body(2) n1(2) n2(2) n3(2) by simp
  note g = condition_gives [OF n3(1) o stable_use [OF st evalsD(5) [OF e r(1)]] r(5)]
  let ?T = "insert c (insert f (insert t T))" and ?P = "insert c (insert f (insert t P))" and ?N = "insert c (insert f (insert t N))"
  have c: "closes ?T ?P (?N - {if el then f else c, t}) s4 s'"
    by (rule b_closes(4) [OF givesD(1,2) [OF g] r(6) givesD(4) [OF g]]) auto
  have "N \<subseteq> T" using body_sub [OF body(1)] by blast
  then have "?N - {if el then f else c, t} = (if el then {c} else {f}) \<union> N" using ne by auto
  moreover have "?T = {t, f, c} \<union> T" "?P = {t, f, c} \<union> P" by auto
  ultimately show "closes ({t, f, c} \<union> T) ({t, f, c} \<union> P) ((if el then {c} else {f}) \<union> N) s s'"
    using c stable_trans [OF st stable_trans [OF givesD(3) [OF g]]] by (simp add: closes_def)
qed

lemma begin_iteration_goes:
  assumes body: "in_body T P N s" "cur_open s" and run: "begin_iteration s = Inr (b, s')"
  shows "goes (insert b T) P N s s'" "b \<notin> T"
proof -
  obtain s1 s2 where r: "new_block [] s = Inr (b, s1)" "br_unless_terminated b s1 = Inr s2" "s' = set_insert_point b s2"
    using run by (auto simp: begin_iteration_def rbind_eq_Inr)
  note n = new_block_body [OF body(1) r(1)]
  show nb: "b \<notin> T" by (rule n(5))
  note c = br_unless_terminated_closes [OF n(1) _ r(2)]
  have c: "closes (insert b T) (insert b P) (insert b N - {b}) s1 s2" by (rule c) simp
  have g: "goes (insert b T) (insert b P - {b}) (insert b N - {b} - {b}) s2 s'"
    unfolding r(3) by (rule set_insert_point_body [OF closesD(1,2) [OF c]]) simp
  have "b \<notin> P" "b \<notin> N" using body_sub [OF body(1)] nb by auto
  then have "insert b P - {b} = P" "insert b N - {b} - {b} = N" by auto
  then have "goes (insert b T) P N s2 s'" using g by simp
  then show "goes (insert b T) P N s s'"
    using stable_trans [OF n(4) stable_trans [OF closesD(3) [OF c]]] by (simp add: goes_def)
qed

lemma enter_loop_goes:
  assumes e: "evals T P N s0 s" and run: "enter_loop s = Inr (c, s')"
  shows "\<exists>t. goes (insert c (insert t T)) (insert c P) N s s' \<and> t \<notin> T \<and> t \<noteq> c" "c \<notin> T"
proof -
  obtain v t s1 s2 k s3 i s4 where r: "get_tmp s = Inr v" "new_block [] s = Inr (t, s1)" "new_block [] s1 = Inr (c, s2)"
    "condition v s2 = Inr (k, s3)" "b_cond_br k t c s3 = Inr (i, s4)" "s' = set_insert_point t s4"
    using run unfolding enter_loop_def rbind_eq_Inr case_prod_eq_Inr by auto
  note body = evalsD(2,3) [OF e]
  note n1 = new_block_body [OF body(1) r(2)]
  note n2 = new_block_body [OF n1(1) r(3)]
  have ne: "t \<noteq> c" "t \<notin> T" "c \<notin> T" using n1(5) n2(5) by auto
  show "c \<notin> T" by (rule ne)
  have st: "stable s s2" by (rule stable_trans [OF n1(4) n2(4)])
  have o: "cur_open s2" using body(2) n1(2) n2(2) by simp
  note g = condition_gives [OF n2(1) o stable_use [OF st evalsD(5) [OF e r(1)]] r(4)]
  let ?T = "insert c (insert t T)" and ?P = "insert c (insert t P)" and ?N = "insert c (insert t N)"
  have cl: "closes ?T ?P (?N - {c, t}) s3 s4"
    by (rule b_closes(4) [OF givesD(1,2) [OF g] r(5) givesD(4) [OF g]]) auto
  have g5: "goes ?T (?P - {t}) (?N - {c, t} - {t}) s4 s'"
    unfolding r(6) by (rule set_insert_point_body [OF closesD(1,2) [OF cl]]) simp
  have "P \<subseteq> T" "N \<subseteq> T" using body_sub [OF body(1)] by blast+
  then have "?P - {t} = insert c P" "?N - {c, t} - {t} = N" using ne by auto
  then have "goes ?T (insert c P) N s4 s'" using g5 by metis
  then have "goes ?T (insert c P) N s s'"
    using stable_trans [OF st stable_trans [OF givesD(3) [OF g] stable_trans [OF closesD(3) [OF cl]]]] by (simp add: goes_def)
  then show "\<exists>t. goes (insert c (insert t T)) (insert c P) N s s' \<and> t \<notin> T \<and> t \<noteq> c"
    using ne by blast
qed

lemma build_return_closes:
  assumes e: "evals T P N s0 s" and run: "build_return rt s = Inr s'"
  shows "closes T P N s s'"
proof -
  obtain v t where v: "get_tmp s = Inr v" "type_of v s = Inr t" using run by (auto simp: build_return_def rbind_eq_Inr)
  let ?conv = "if rt = t then Inr s
            else if is_integer_type rt then rbind (b_fptosi v INT32_T s) (\<lambda>(v, s). Inr (set_tmp v s))
            else rbind (b_sitofp v FLOAT_T s) (\<lambda>(v, s). Inr (set_tmp v s))"
  obtain s1 w i where s1: "?conv = Inr s1" "get_tmp s1 = Inr w" "b_ret w s1 = Inr (i, s')"
    using run v by (cases ?conv) (auto simp: build_return_def rbind_eq_Inr)
  note gv = b_gives(8,9) [OF evalsD(2,3) [OF e] _ evalsD(5) [OF e v(1)]]
  have e1: "evals T P N s s1"
  proof (cases "rt = t")
    case True
    then show ?thesis using s1(1) e goes_refl [OF evalsD(2,3) [OF e]] by (auto simp: evals_def)
  next
    case False
    then show ?thesis using s1(1) gv gives_evals by (auto simp: rbind_eq_Inr split: if_splits)
  qed
  have "closes T P N s1 s'" by (rule b_closes(1) [OF evalsD(2,3) [OF e1] s1(3) evalsD(5) [OF e1 s1(2)]])
  then show ?thesis using stable_trans [OF evalsD(4) [OF e1]] by (simp add: closes_def)
qed

text \<open>
  Whether a statement finishes its block: a return does, and a compound statement with one in
  its list. What follows it in the list is not visited.
\<close>

fun ends :: "'f ASTStatement \<Rightarrow> bool" and ends_list :: "'f ASTStatement list \<Rightarrow> bool" where
  "ends (ASTCompoundStmt ds ss) = ends_list ss"
| "ends (ASTExpressionStmt e) = False"
| "ends (ASTSelectionStmt e th el) = False"
| "ends (ASTIterationStmt e body) = False"
| "ends (ASTReturnStmt e) = True"
| "ends_list [] = False"
| "ends_list (st # ss) = (ends st \<or> ends_list ss)"

definition finished :: "bool \<Rightarrow> builder \<Rightarrow> bool" where
  "finished d s \<longleftrightarrow> (if d then cur_sealed s else cur_open s)"

lemma open_xor_sealed: "cur_open s \<Longrightarrow> \<not> cur_sealed s"
  by (auto simp: cur_open_def cur_sealed_def dest: open_not_sealed)

lemma goes_finished: "goes T P N s s' \<Longrightarrow> runs T P N s s' \<and> finished False s'"
  by (simp add: runs_intros(1) finished_def goes_def)

lemma closes_finished: "closes T P N s s' \<Longrightarrow> runs T P N s s' \<and> finished True s'"
  by (simp add: runs_intros(2) finished_def closes_def)

lemma build_statement_runs:
  fixes st :: "f32 ASTStatement" and ss :: "f32 ASTStatement list"
  shows "build_statement st s = Inr s' \<Longrightarrow> in_body T P N s \<Longrightarrow> cur_open s \<Longrightarrow> runs T P N s s' \<and> finished (ends st) s'"
    "build_statements ss s = Inr s' \<Longrightarrow> in_body T P N s \<Longrightarrow> cur_open s \<Longrightarrow> runs T P N s s' \<and> finished (ends_list ss) s'"
proof (induction st s and ss s arbitrary: s' T P N and s' T P N rule: build_statement_build_statements.induct)
  case (1 ds ss s)
  have pe: "\<not> pre_enter_scope s" using "1.prems"(2) by (simp add: in_body_def)
  obtain s1 s2 where r: "rfold build_var_declaration ds (enter s) = Inr s1" "build_statements ss s1 = Inr s2" "leave s2 = Inr s'"
    using "1.prems"(1) pe by (auto simp: Let_def rbind_eq_Inr)
  have d: "in_body T P N s1" "cur_open s1"
    using declarations_declares [OF enter_body [OF "1.prems"(2,3)] r(1)] by (simp_all add: declares_def)
  have s2: "runs T P N s1 s2 \<and> finished (ends_list ss) s2" using "1.IH" r(1,2) d pe by simp
  have "finished (ends_list ss) s'"
    using s2 r(3) by (auto simp: finished_def cur_open_def cur_sealed_def leave_def rbind_eq_Inr)
  then show ?case using compound_runs [OF "1.prems"(2,3) r(1) conjunct1 [OF s2] r(3)] by simp
next
  case (2 s)
  then show ?case using goes_finished [OF goes_refl] by auto
next
  case (3 e s)
  then show ?case using goes_finished [OF evalsD(1) [OF build_expr_evals(1)]] by auto
next
  case (4 e th s)
  obtain s1 t f c s2 s3 s4 s5 where r: "build_expression e s = Inr s1" "begin_selection False s1 = Inr (t, f, c, s2)"
    "build_statement th (set_insert_point t s2) = Inr s3" "br_unless_terminated c s3 = Inr s4" "drop_block f s4 = Inr s5"
    "s' = set_insert_point c s5"
    using "4.prems"(1) by (auto simp: rbind_eq_Inr)
  note e1 = build_expr_evals(1) [OF r(1) "4.prems"(2,3)]
  note b = begin_selection_closes [OF e1 r(2), unfolded if_True if_False]
  note sub = body_sub [OF "4.prems"(2)]
  let ?T = "{t, f, c} \<union> T" and ?P = "{t, f, c} \<union> P" and ?N = "{f} \<union> N"
  have g1: "goes ?T (?P - {t}) (?N - {t}) s2 (set_insert_point t s2)"
    by (rule set_insert_point_body [OF closesD(1,2) [OF b(1)]]) simp
  have r3: "runs ?T (?P - {t}) (?N - {t}) (set_insert_point t s2) s3"
    by (rule conjunct1 [OF "4.IH" [OF r(1,2) refl refl refl r(3) goesD(1,2) [OF g1]]])
  have c4: "closes ?T (?P - {t}) (?N - {t} - {c}) s3 s4"
    by (rule br_unless_terminated_closes [OF runsD(1) [OF r3] _ r(4)]) simp
  have fN: "f \<in> ?N - {t} - {c}" using b(2-4) by auto
  note d5 = drop_block_body [OF closesD(1) [OF c4] fN r(5)]
  have cs5: "cur_sealed s5" using d5(3) closesD(2) [OF c4] by simp
  have g6: "goes (?T - {f}) (?P - {t} - {f} - {c}) (?N - {t} - {c} - {f} - {c}) s5 s'"
    unfolding r(6) by (rule set_insert_point_body [OF d5(1) cs5]) (use b(2-4) in auto)
  have eq: "?P - {t} - {f} - {c} = P" "?N - {t} - {c} - {f} - {c} = N" using sub b(5-7) by blast+
  have g6: "goes (?T - {f}) P N s5 s'" using g6 unfolding eq .
  have "in_body T P N s'" by (rule body_weaken [OF goesD(1) [OF g6]]) (use sub b(6) in auto)
  moreover have "stable s s'"
    by (rule stable_trans [OF evalsD(4) [OF e1] stable_trans [OF closesD(3) [OF b(1)] stable_trans [OF goesD(3) [OF g1]
      stable_trans [OF runsD(2) [OF r3] stable_trans [OF closesD(3) [OF c4] stable_trans [OF d5(4) goesD(3) [OF g6]]]]]]])
  ultimately show ?case using goesD(2) [OF g6] by (simp add: runs_def finished_def)
next
  case (5 e th el s)
  obtain s1 t f c s2 s3 s4 s5 s6 where r: "build_expression e s = Inr s1" "begin_selection True s1 = Inr (t, f, c, s2)"
    "build_statement th (set_insert_point t s2) = Inr s3" "br_unless_terminated c s3 = Inr s4"
    "build_statement el (set_insert_point f s4) = Inr s5" "br_unless_terminated c s5 = Inr s6" "s' = set_insert_point c s6"
    using "5.prems"(1) by (auto simp: rbind_eq_Inr)
  note e1 = build_expr_evals(1) [OF r(1) "5.prems"(2,3)]
  note b = begin_selection_closes [OF e1 r(2), unfolded if_True if_False]
  note sub = body_sub [OF "5.prems"(2)]
  let ?T = "{t, f, c} \<union> T" and ?P = "{t, f, c} \<union> P" and ?N = "{c} \<union> N"
  have g1: "goes ?T (?P - {t}) (?N - {t}) s2 (set_insert_point t s2)"
    by (rule set_insert_point_body [OF closesD(1,2) [OF b(1)]]) simp
  have r3: "runs ?T (?P - {t}) (?N - {t}) (set_insert_point t s2) s3"
    by (rule conjunct1 [OF "5.IH"(1) [OF r(1,2) refl refl refl r(3) goesD(1,2) [OF g1]]])
  have c4: "closes ?T (?P - {t}) (?N - {t} - {c}) s3 s4"
    by (rule br_unless_terminated_closes [OF runsD(1) [OF r3] _ r(4)]) simp
  have g4: "goes ?T (?P - {t} - {f}) (?N - {t} - {c} - {f}) s4 (set_insert_point f s4)"
    by (rule set_insert_point_body [OF closesD(1,2) [OF c4]]) (use b(2-4) in auto)
  have r5: "runs ?T (?P - {t} - {f}) (?N - {t} - {c} - {f}) (set_insert_point f s4) s5"
    by (rule conjunct1 [OF "5.IH"(2) [OF r(1,2) refl refl refl r(3,4,5) goesD(1,2) [OF g4]]])
  have c6: "closes ?T (?P - {t} - {f}) (?N - {t} - {c} - {f} - {c}) s5 s6"
    by (rule br_unless_terminated_closes [OF runsD(1) [OF r5] _ r(6)]) simp
  have g7: "goes ?T (?P - {t} - {f} - {c}) (?N - {t} - {c} - {f} - {c} - {c}) s6 s'"
    unfolding r(7) by (rule set_insert_point_body [OF closesD(1,2) [OF c6]]) (use b(2-4) in auto)
  have eq: "?P - {t} - {f} - {c} = P" "?N - {t} - {c} - {f} - {c} - {c} = N" using sub b(5-7) by blast+
  have g7: "goes ?T P N s6 s'" using g7 unfolding eq .
  have "in_body T P N s'" by (rule body_weaken [OF goesD(1) [OF g7]]) (use sub in auto)
  moreover have "stable s s'"
    by (rule stable_trans [OF evalsD(4) [OF e1] stable_trans [OF closesD(3) [OF b(1)] stable_trans [OF goesD(3) [OF g1]
      stable_trans [OF runsD(2) [OF r3] stable_trans [OF closesD(3) [OF c4] stable_trans [OF goesD(3) [OF g4]
      stable_trans [OF runsD(2) [OF r5] stable_trans [OF closesD(3) [OF c6] goesD(3) [OF g7]]]]]]]]])
  ultimately show ?case using goesD(2) [OF g7] by (simp add: runs_def finished_def)
next
  case (6 e body s)
  obtain b s1 s2 c s3 s4 s5 where r: "begin_iteration s = Inr (b, s1)" "build_expression e s1 = Inr s2"
    "enter_loop s2 = Inr (c, s3)" "build_statement body s3 = Inr s4" "br_unless_terminated b s4 = Inr s5"
    "s' = set_insert_point c s5"
    using "6.prems"(1) by (auto simp: rbind_eq_Inr)
  note g1 = begin_iteration_goes [OF "6.prems"(2,3) r(1)]
  note sub = body_sub [OF "6.prems"(2)]
  note e2 = build_expr_evals(1) [OF r(2) goesD(1,2) [OF g1(1)]]
  note el = enter_loop_goes [OF e2 r(3)]
  obtain t where t: "goes (insert c (insert t (insert b T))) (insert c P) N s2 s3" "t \<notin> insert b T" "t \<noteq> c" using el(1) by blast
  let ?T = "insert c (insert t (insert b T))"
  have r4: "runs ?T (insert c P) N s3 s4" by (rule conjunct1 [OF "6.IH" [OF r(1) refl r(2,3) refl r(4) goesD(1,2) [OF t(1)]]])
  have c5: "closes ?T (insert c P) (N - {b}) s4 s5"
    by (rule br_unless_terminated_closes [OF runsD(1) [OF r4] _ r(5)]) simp
  have g6: "goes ?T (insert c P - {c}) (N - {b} - {c}) s5 s'"
    unfolding r(6) by (rule set_insert_point_body [OF closesD(1,2) [OF c5]]) simp
  have eq: "insert c P - {c} = P" "N - {b} - {c} = N" using sub g1(2) el(2) by blast+
  have g6: "goes ?T P N s5 s'" using g6 unfolding eq .
  have "in_body T P N s'" by (rule body_weaken [OF goesD(1) [OF g6]]) (use sub in auto)
  moreover have "stable s s'"
    by (rule stable_trans [OF goesD(3) [OF g1(1)] stable_trans [OF evalsD(4) [OF e2] stable_trans [OF goesD(3) [OF t(1)]
      stable_trans [OF runsD(2) [OF r4] stable_trans [OF closesD(3) [OF c5] goesD(3) [OF g6]]]]]])
  ultimately show ?case using goesD(2) [OF g6] by (simp add: runs_def finished_def)
next
  case (7 s)
  obtain i where "b_void_ret s = Inr (i, s')" using "7.prems"(1) by (auto simp: rbind_eq_Inr)
  then show ?case using closes_finished [OF b_closes(2) [OF "7.prems"(2,3)]] by simp
next
  case (8 e s)
  obtain rt s1 where r: "build_expression e s = Inr s1" "build_return rt s1 = Inr s'"
    using "8.prems"(1) by (auto simp: rbind_eq_Inr)
  note e1 = build_expr_evals(1) [OF r(1) "8.prems"(2,3)]
  note c = closes_finished [OF build_return_closes [OF e1 r(2)]]
  show ?case using runs_trans [OF runs_intros(3) [OF e1] conjunct1 [OF c]] c by simp
next
  case (9 s)
  then show ?case using goes_finished [OF goes_refl] by auto
next
  case (10 st ss s)
  obtain s1 d where r: "build_statement st s = Inr s1" "terminated s1 = Inr d" "(if d then Inr s1 else build_statements ss s1) = Inr s'"
    using "10.prems"(1) by (auto simp: rbind_eq_Inr)
  note r1 = "10.IH"(1) [OF r(1) "10.prems"(2,3)]
  note ti = terminated_iff [OF runsD(1) [OF conjunct1 [OF r1]]]
  show ?case
  proof (cases d)
    case True
    then have "cur_sealed s1" using ti r(2) by simp
    then have "ends st" using r1 open_xor_sealed by (auto simp: finished_def split: if_splits)
    then show ?thesis using r(3) r1 True by (simp add: finished_def)
  next
    case False
    then have o: "cur_open s1" using ti r(2) by simp
    then have "\<not> ends st" using r1 open_xor_sealed by (auto simp: finished_def split: if_splits)
    moreover have "runs T P N s1 s' \<and> finished (ends_list ss) s'"
      using "10.IH"(2) [OF r(1,2) False _ runsD(1) [OF conjunct1 [OF r1]] o] r(3) False by simp
    ultimately show ?thesis using runs_trans [OF conjunct1 [OF r1]] by simp
  qed
qed

end
