(* ===== verification/Builder_Correct.thy ===== *)
theory Builder_Correct
  imports Builder_Run
begin

text \<open>
  Functions, declarations and the whole program: between two declarations every block of every
  function is finished, and the outermost scope holds functions and global variables only.
\<close>

section \<open>Names in scope\<close>

definition names :: "scope \<Rightarrow> string set" where
  "names sc = {nm. scope_find nm sc \<noteq> None}"

lemma names_Nil [simp]: "names [] = {}"
  by (simp add: names_def)

lemma names_Cons: "names (e # sc) = dom e \<union> names sc"
  by (auto simp: names_def split: option.splits)

lemma push_name_names: "push_name nm a s = Inr s' \<Longrightarrow> names (scope s') = insert nm (names (scope s)) \<and> module s' = module s \<and> cached s' = cached s"
  by (auto simp: push_name_def scope_push_def rbind_eq_Inr names_Cons split: list.splits option.splits)

lemma stable_names: "stable s s' \<Longrightarrow> names (scope s') = names (scope s)"
  by (simp add: stableD(2))

section \<open>Between declarations\<close>

definition global_names :: "ir \<Rightarrow> scope \<Rightarrow> bool" where
  "global_names m sc \<longleftrightarrow> (\<forall>e \<in> set sc. \<forall>nm a. e nm = Some a \<longrightarrow> (\<exists>x. heap m a = Some x \<and> \<not> is_instruction (kind x)))"

definition all_sealed :: "ir \<Rightarrow> bool" where
  "all_sealed m \<longleftrightarrow> (\<forall>f. \<forall>b \<in> set (block_list m f). sealed m b)"

definition at_top :: "builder \<Rightarrow> bool" where
  "at_top s \<longleftrightarrow> well_built (module s) \<and> cache_ok (module s, cached s) \<and> args_ok (module s) \<and>
     \<not> pre_enter_scope s \<and> length (scope s) = 1 \<and> global_names (module s) (scope s) \<and> all_sealed (module s)"

lemma at_topD:
  assumes "at_top s"
  shows "well_built (module s)" "cache_ok (module s, cached s)" "args_ok (module s)" "\<not> pre_enter_scope s"
    "length (scope s) = 1" "global_names (module s) (scope s)" "all_sealed (module s)"
  using assms by (simp_all add: at_top_def)

lemma global_names_grows:
  assumes "grows m m'" "global_names m sc"
  shows "global_names m' sc"
  unfolding global_names_def
proof (intro ballI allI impI)
  fix e nm a
  assume "e \<in> set sc" "e nm = Some a"
  then obtain x where "heap m a = Some x" "\<not> is_instruction (kind x)" using assms(2) unfolding global_names_def by blast
  then show "\<exists>x. heap m' a = Some x \<and> \<not> is_instruction (kind x)" using growsD [OF assms(1)] by fastforce
qed

lemma global_names_usable: "global_names m sc \<Longrightarrow> names_ok f m sc"
  by (fastforce simp: global_names_def names_ok_def usable_def)

lemma all_sealed_grows:
  assumes "all_sealed m" "grows m m'" "well_built m" "instr_list m' = instr_list m" "succ_list m' = succ_list m"
    "block_list m' = block_list m"
  shows "all_sealed m'"
  using grows_block(2) [OF assms(2) instrs_alive [OF assms(3)]] assms(1,4-6) by (simp add: all_sealed_def)

lemma cfg_of_lists:
  assumes "\<And>f. cfg_of m' f = cfg_of m f"
  shows "block_list m' = block_list m" "pre_list m' = pre_list m" "succ_list m' = succ_list m"
proof -
  show "block_list m' = block_list m"
  proof
    fix f
    show "block_list m' f = block_list m f" using assms [of f] by (simp add: cfg_of_def)
  qed
  show "pre_list m' = pre_list m" "succ_list m' = succ_list m" using assms [of 0] by (simp_all add: cfg_of_def)
qed

section \<open>Global variables\<close>

lemma push_name_eq:
  assumes "length (scope s) = 1"
  shows "\<exists>e e'. scope s = [e] \<and> (e' = e \<or> e' = e(nm \<mapsto> a)) \<and> push_name nm a s = Inr (s\<lparr>scope := [e']\<rparr>)"
proof -
  obtain e where "scope s = [e]" using assms by (cases "scope s") auto
  then show ?thesis by (cases "e nm") (auto simp: push_name_def scope_push_def)
qed

lemma extends_top:
  assumes top: "at_top s" and wb: "well_built m'" and ex: "extends (module s) m'" and cfg: "\<And>f. cfg_of m' f = cfg_of (module s) f"
    and ag: "args_ok m'" and c: "cache_ok (m', c')"
  shows "at_top (s\<lparr>module := m', cached := c'\<rparr>)"
proof -
  note A = at_topD [OF top] and gw = extends_grows [OF ex]
  have "all_sealed m'" by (rule all_sealed_grows [OF A(7) gw A(1) extendsD(4) [OF ex] cfg_of_lists(3,1) [OF cfg]])
  then show ?thesis using A wb ag c global_names_grows [OF gw A(6)] by (simp add: at_top_def)
qed

lemma zero_initializer_top:
  assumes top: "at_top s" and run: "zero_initializer t s = (z, s')"
  shows "at_top s' \<and> scope s' = scope s \<and> (\<exists>x. heap (module s') z = Some x \<and> leaf_constant (kind x))"
proof -
  note A = at_topD [OF top]
  have const: "\<exists>x. heap m z = Some x \<and> leaf_constant (kind x)" if "is_const_at m t ConstantZeroV z" for m t
    using that by (auto simp: is_const_at_def leaf_constant_def)
  show ?thesis
  proof (cases "cached_zero (cached s) t")
    case None
    obtain m' where new: "new_constant t ConstantZeroV (module s) = (z, m')"
      and s': "s' = s\<lparr>module := m', cached := (cached s)\<lparr>cached_zero := (cached_zero (cached s))(t \<mapsto> z)\<rparr>\<rparr>"
      using run None by (auto simp: zero_initializer_def ConstantZero_get_def split: prod.splits)
    have c: "cache_ok (m', (cached s)\<lparr>cached_zero := (cached_zero (cached s))(t \<mapsto> z)\<rparr>)"
      using new_constant_spec(3,4) [OF A(2) new] unfolding cache_ok_def by simp
    have n: "well_built m'" "extends (module s) m'" "\<And>f. cfg_of m' f = cfg_of (module s) f"
      using new_constant_built [OF A(1) new] by (simp_all add: leaf_constant_def)
    have "args_ok m'"
      by (rule args_ok_grows [OF A(3) extends_grows [OF n(2)] alloc_fields(7) [OF new [unfolded new_constant_def]]])
    then show ?thesis
      using extends_top [OF top n _ c] const [OF new_constant_spec(4) [OF A(2) new]] s' by simp
  next
    case (Some d)
    then have "s' = s" "z = d" using run by (auto simp: zero_initializer_def ConstantZero_get_def)
    then show ?thesis using top const [OF cache_okD(5) [OF A(2)]] Some by simp
  qed
qed

lemma zero_initializer_scope: "zero_initializer t s = (z, s') \<Longrightarrow> scope s' = scope s"
  by (auto simp: zero_initializer_def split: prod.splits)

lemma build_global_names:
  assumes "at_top s" "build_var_declaration d s = Inr s'"
  shows "names (scope s') = insert (var_id d) (names (scope s))"
proof -
  obtain z s1 where z: "zero_initializer (scalar_type (var_type d)) s = (z, s1)" by fastforce
  then obtain g m' where "push_name (var_id d) g (s1\<lparr>module := m'\<rparr>) = Inr s'"
    using assms by (auto simp: build_var_declaration_def at_top_def in_global_def rbind_eq_Inr)
  then show ?thesis using push_name_names zero_initializer_scope [OF z] by fastforce
qed

lemma build_global_top:
  assumes top: "at_top s" and run: "build_var_declaration d s = Inr s'"
  shows "at_top s'"
proof -
  obtain z s1 where z1: "zero_initializer (scalar_type (var_type d)) s = (z, s1)" by fastforce
  then obtain t g m' where r: "zero_initializer (scalar_type (var_type d)) s = (z, s1)"
    "create_global_variable (var_id d) t False (Some z) (module s1) = Inr (g, m')"
    "push_name (var_id d) g (s1\<lparr>module := m'\<rparr>) = Inr s'"
    using run at_topD(5) [OF top] by (auto simp: build_var_declaration_def in_global_def rbind_eq_Inr)
  have z: "at_top s1" using zero_initializer_top [OF top r(1)] by simp
  note A = at_topD [OF z]
  obtain x where "heap (module s1) z = Some x" "leaf_constant (kind x)" using zero_initializer_top [OF top r(1)] by blast
  note g = create_global_variable_built [OF A(1) this r(2)]
  have gw: "grows (module s1) m'" using g extends_grows by blast
  have "at_top (s1\<lparr>module := m', cached := cached s1\<rparr>)"
    by (rule extends_top [OF z]) (use g args_ok_grows [OF A(3) gw] cache_ok_grows [OF A(2) gw] well_builtD(1) in auto)
  then have t1: "at_top (s1\<lparr>module := m'\<rparr>)" by simp
  obtain e e' where e: "scope s1 = [e]" "e' = e \<or> e' = e(var_id d \<mapsto> g)" "s' = s1\<lparr>module := m', scope := [e']\<rparr>"
    using push_name_eq [of "s1\<lparr>module := m'\<rparr>" "var_id d" g] at_topD(5) [OF t1] r(3) by auto
  have "global_names m' [e']" using at_topD(6) [OF t1] e(1,2) g by (auto simp: global_names_def split: if_splits)
  then show ?thesis using at_topD [OF t1] e(3) by (simp add: at_top_def)
qed

section \<open>Functions\<close>

lemma args_ok_function:
  assumes "args_ok m" "grows m m'" "arguments m' = (arguments m)(f := arguments m f @ l)"
    "\<forall>a \<in> set l. \<exists>x. heap m' a = Some x \<and> \<not> is_instruction (kind x)"
  shows "args_ok m'"
  unfolding args_ok_def
proof (intro allI ballI)
  fix g a
  assume "a \<in> set (arguments m' g)"
  then consider "a \<in> set (arguments m g)" | "a \<in> set l" using assms(3) by (auto split: if_splits)
  then show "\<exists>x. heap m' a = Some x \<and> \<not> is_instruction (kind x)"
  proof cases
    case 1
    then obtain x where "heap m a = Some x" "\<not> is_instruction (kind x)" using assms(1) unfolding args_ok_def by blast
    then show ?thesis using growsD [OF assms(2)] by fastforce
  qed (use assms(4) in blast)
qed

lemma build_argument_declares:
  assumes body: "in_body T P N s" "cur_open s" and a: "can_use s (snd pa)" and run: "build_argument pa s = Inr s'"
  shows "declares T P N s s'" "names (scope s') = insert (param_id (fst pa)) (names (scope s))"
proof -
  obtain c s1 i s2 where r: "b_alloca (param_ty (fst pa)) s = Inr (c, s1)" "b_store (snd pa) c s1 = Inr (i, s2)"
    "push_name (param_id (fst pa)) c s2 = Inr s'"
    using run by (auto simp: build_argument_def rbind_eq_Inr)
  note g1 = b_gives(6) [OF body r(1)]
  note g2 = b_gives(5) [OF givesD(1,2) [OF g1] r(2) givesD(5) [OF g1 a] givesD(4) [OF g1] b_pointers(2) [OF body(1) r(1)]]
  note p = push_name_declares [OF givesD(1,2) [OF g2] givesD(5) [OF g2 givesD(4) [OF g1]] r(3)]
  show "declares T P N s s'"
    by (rule declares_trans [OF goes_declares [OF goes_trans [OF givesD(6) [OF g1] givesD(6) [OF g2]]] p])
  show "names (scope s') = insert (param_id (fst pa)) (names (scope s))"
    using push_name_names [OF r(3)] stable_names [OF stable_trans [OF givesD(3) [OF g1] givesD(3) [OF g2]]] by simp
qed

lemma build_arguments_declares:
  assumes "rfold build_argument pas s = Inr s'" "in_body T P N s" "cur_open s" "\<forall>pa \<in> set pas. can_use s (snd pa)"
  shows "declares T P N s s' \<and> names (scope s') = names (scope s) \<union> param_id ` fst ` set pas"
  using assms
proof (induction pas arbitrary: s)
  case Nil
  then show ?case using goes_declares [OF goes_refl [OF Nil(2,3)]] by simp
next
  case (Cons pa pas)
  obtain t where t: "build_argument pa s = Inr t" "rfold build_argument pas t = Inr s'"
    using Cons.prems(1) by (auto simp: rbind_eq_Inr)
  have "can_use s (snd pa)" using Cons.prems(4) by simp
  note d = build_argument_declares [OF Cons.prems(2,3) this t(1)]
  have "declares T P N t s' \<and> names (scope s') = names (scope t) \<union> param_id ` fst ` set pas"
    by (rule Cons.IH [OF t(2)]) (use d(1) Cons.prems(4) in \<open>auto simp: declares_def\<close>)
  then show ?case using d declares_trans [OF d(1)] by auto
qed

text \<open>The new function with its entry block, in the two innermost scopes.\<close>

lemma begin_function_declares:
  assumes top: "at_top s" and run: "begin_function t nm ps s = Inr s'"
  shows "\<exists>s1 e. in_body {} {} {} s1 \<and> cur_open s1 \<and> scope s1 = [Map.empty, e] \<and> global_names (module s1) [e] \<and>
    declares {} {} {} s1 s' \<and> names [e] = insert nm (names (scope s)) \<and> names (scope s') = names [e] \<union> param_id ` set ps"
proof -
  note A = at_topD [OF top]
  obtain f m1 where cf: "create_function (FunctionTy (return_ty t) (map param_ty ps)) nm (module s) = (f, m1)" by fastforce
  have "\<exists>r qs. FunctionTy (return_ty t) (map param_ty ps) = FunctionTy r qs" by blast
  note F = create_function_built [OF A(1) cf this]
  have gw1: "grows (module s) m1" using F extends_grows by blast
  obtain l where l: "arguments m1 = (arguments (module s))(f := arguments (module s) f @ l)"
    "\<forall>a \<in> set l. \<exists>x. heap m1 a = Some x \<and> \<not> is_instruction (kind x)" "length l = length ps" using F by auto
  have ag1: "args_ok m1" by (rule args_ok_function [OF A(3) gw1 l(1,2)])
  obtain e e' where e: "scope s = [e]" "e' = e \<or> e' = e(nm \<mapsto> f)"
    "push_name nm f (s\<lparr>module := m1\<rparr>) = Inr (s\<lparr>module := m1, scope := [e']\<rparr>)"
    using push_name_eq [of "s\<lparr>module := m1\<rparr>" nm f] A(5) by auto
  have gn1: "global_names m1 [e']"
    using global_names_grows [OF gw1 A(6)] e(1,2) F by (auto simp: global_names_def is_instruction_def split: if_splits)
  let ?s2 = "s\<lparr>module := m1, scope := [e'], cur_fun := Some f\<rparr>"
  obtain b m3 where cb: "create_basic_block ''entry'' (Some f) m1 = Inr (b, m3)"
    and fold: "rfold build_argument (zip ps (arguments m3 f)) (enter (set_insert_point b (?s2\<lparr>module := m3\<rparr>))) = Inr s'"
    using run cf e(3) by (auto simp: begin_function_def rbind_eq_Inr new_block_def)
  note C = create_basic_block_fields [OF cb]
  have fl: "f \<in> set (function_list m1)" and wb1: "well_built m1" and nobl: "block_list m1 f = []"
    and cfg1: "\<And>g. cfg_of m1 g = cfg_of (module s) g" using F by blast+
  have B: "well_built m3" "extends m1 m3" using create_basic_block_built [OF wb1 fl cb] by simp_all
  have gw3: "grows m1 m3" by (rule extends_grows [OF B(2)])
  have fresh: "heap m1 b = None" using fresh_addr [OF well_builtD(1) [OF wb1]] C(1) by simp
  have nb: "b \<notin> set (block_list m1 g)" for g using blocks_alive [OF well_builtD(2) [OF wb1]] fresh by blast
  have il: "instr_list m1 b = []"
    using code_okD(2) [OF well_builtD(3) [OF wb1], of "hd (instr_list m1 b)" b] nb by (cases "instr_list m1 b") auto
  have blank: "blank m3 b" using il C by (simp add: blank_def)
  have "all_sealed m1"
    by (rule all_sealed_grows [OF A(7) gw1 A(1)])
      (use F extendsD(4) cfg_of_lists [OF cfg1] in auto)
  then have sealed: "sealed m3 c" if "c \<in> set (block_list m1 g)" for c g
  proof -
    have "c \<noteq> b" using nb that by blast
    then show ?thesis
      using grows_block(2) [OF gw3 instrs_alive [OF wb1], of c] \<open>all_sealed m1\<close> that C by (simp add: all_sealed_def)
  qed
  let ?s = "enter (set_insert_point b (?s2\<lparr>module := m3\<rparr>))"
  have gn3: "global_names m3 [e']" by (rule global_names_grows [OF gw3 gn1])
  have "flow_ok {} {} {} f b m3"
  proof (rule flow_okI)
    show "b \<in> set (block_list m3 f)" by (simp add: C(4))
    show "sealed m3 c" if "c \<in> set (block_list m3 g)" "c \<notin> {}" "c \<noteq> b" for c g
      using that sealed [of c g] C(4) by (auto split: if_splits)
    show "open_block m3 b \<or> sealed m3 b" using blank_open [OF blank] ..
  qed simp_all
  moreover have "names_ok f m3 (scope ?s)"
    using global_names_usable [OF gn3, of f] by (simp add: enter_def scope_enter_def set_insert_point_def names_ok_def)
  moreover have "cache_ok (m3, cached s)"
    by (rule cache_ok_grows [OF A(2) grows_trans [OF gw1 gw3] well_builtD(1) [OF B(1)]])
  moreover have "args_ok m3" by (rule args_ok_grows [OF ag1 gw3 C(8)])
  ultimately have body: "in_body {} {} {} ?s"
    using B(1) A(4) by (simp add: in_body_def enter_def scope_enter_def set_insert_point_def)
  have op: "cur_open ?s" using blank_open [OF blank] by (simp add: cur_open_def enter_def set_insert_point_def)
  have args: "can_use ?s a" if "a \<in> set (arguments m3 f)" for a
    using that \<open>args_ok m3\<close> by (fastforce simp: args_ok_def can_use_def usable_def enter_def set_insert_point_def)
  have "\<forall>pa \<in> set (zip ps (arguments m3 f)). can_use ?s (snd pa)"
    using args by (auto dest: set_zip_rightD)
  note d = build_arguments_declares [OF fold body op this]
  have "length ps \<le> length (arguments m3 f)" using l(1,3) C(8) by simp
  then have "fst ` set (zip ps (arguments m3 f)) = set ps" by (metis map_fst_zip_take min.absorb1 set_map take_all order_refl)
  moreover have "names (scope ?s) = names [e']"
    by (simp add: enter_def scope_enter_def set_insert_point_def names_Cons)
  moreover have "names [e'] = insert nm (names (scope s))" using push_name_names [OF e(3)] by simp
  ultimately show ?thesis using d body op gn3
    by (intro exI [of _ ?s] exI [of _ e']) (simp add: enter_def scope_enter_def set_insert_point_def)
qed

lemma end_function_scope:
  assumes r: "runs {} {} {} s s2" and run: "end_function s2 = Inr s'"
  shows "scope s' = tl (scope s)"
proof -
  obtain d where d: "terminated s2 = Inr d" using terminated_iff [OF runsD(1) [OF r]] by blast
  obtain s3 where s3: "(if d then Inr s2 else return_zero s2) = Inr s3" "leave s3 = Inr s'"
    using run d by (auto simp: end_function_def rbind_eq_Inr)
  have "scope s3 = scope s2"
  proof (cases d)
    case False
    then have "cur_open s2" using terminated_iff [OF runsD(1) [OF r]] d by simp
    then show ?thesis using s3(1) False return_zero_closes [OF runsD(1) [OF r]] stableD(2) closesD(3) by metis
  qed (use s3(1) in simp)
  then show ?thesis
    using s3(2) stableD(2) [OF runsD(2) [OF r]] by (auto simp: leave_def scope_exit_def rbind_eq_Inr split: list.splits)
qed

lemma build_declaration_top:
  assumes top: "at_top s" and run: "build_declaration d s = Inr s'"
  shows "at_top s'"
proof (cases d)
  case (VarDeclaration v)
  then show ?thesis using build_global_top [OF top] run by simp
next
  case (ASTFunDeclaration t nm ps body)
  obtain s1 s2 where r: "begin_function t nm ps s = Inr s1" "build_statement body s1 = Inr s2" "end_function s2 = Inr s'"
    using run ASTFunDeclaration by (auto simp: rbind_eq_Inr)
  obtain s0 e where b: "in_body {} {} {} s0" "scope s0 = [Map.empty, e]" "global_names (module s0) [e]"
    "declares {} {} {} s0 s1" using begin_function_declares [OF top r(1)] by blast
  have s1: "in_body {} {} {} s1" "cur_open s1" using b(4) by (simp_all add: declares_def)
  note s2 = conjunct1 [OF build_statement_runs(1) [OF r(2) s1]]
  obtain d where d: "terminated s2 = Inr d" using terminated_iff [OF runsD(1) [OF s2]] by blast
  obtain s3 where s3: "(if d then Inr s2 else return_zero s2) = Inr s3" "leave s3 = Inr s'"
    using r(3) d by (auto simp: end_function_def rbind_eq_Inr)
  have c3: "closes {} {} {} s2 s3"
  proof (cases d)
    case True
    then show ?thesis using s3(1) terminated_iff [OF runsD(1) [OF s2]] d runsD(1) [OF s2] by (simp add: closes_def)
  next
    case False
    then show ?thesis using s3(1) terminated_iff [OF runsD(1) [OF s2]] d return_zero_closes [OF runsD(1) [OF s2]] by simp
  qed
  have sc: "length (scope s3) = 2" "tl (scope s3) = [e]"
    using b(2,4) stableD(2) [OF runsD(2) [OF s2]] stableD(2) [OF closesD(3) [OF c3]] by (simp_all add: declares_def)
  have gw: "grows (module s0) (module s3)"
    using b(4) grows_trans [OF _ grows_trans [OF stableD(3) [OF runsD(2) [OF s2]] stableD(3) [OF closesD(3) [OF c3]]]]
    by (simp add: declares_def)
  have s': "s' = s3\<lparr>scope := [e]\<rparr>"
    using s3(2) sc by (auto simp: leave_def scope_exit_def rbind_eq_Inr split: list.splits)
  obtain f c where fb: "cur_fun s3 = Some f" "insert_block s3 = Some c" using in_bodyE [OF closesD(1) [OF c3]] .
  note B = in_bodyD [OF closesD(1) [OF c3] fb]
  have "sealed (module s3) x" if "x \<in> set (block_list (module s3) g)" for x g
    using flow_okD(7) [OF B(7), of x g] that closesD(2) [OF c3] fb(2) by (cases "x = c") (auto simp: cur_sealed_def)
  then have "all_sealed (module s3)" by (simp add: all_sealed_def)
  then show ?thesis using B global_names_grows [OF gw b(3)] s' by (simp add: at_top_def)
qed

lemma build_program_top: "at_top s \<Longrightarrow> build_program p s = Inr s' \<Longrightarrow> at_top s'"
  unfolding build_program_def by (erule rfold_invariant [of _ _ _ _ at_top]) (auto intro: build_declaration_top)

section \<open>The constructor\<close>

lemma library_functions:
  assumes "fold (\<lambda>(nm, t) (fs, m). case create_function t nm m of (f, m) \<Rightarrow> (fs @ [(nm, f)], m)) l (fs, m) = (fs', m')"
    and "well_built m \<and> args_ok m \<and> (\<forall>f. block_list m f = []) \<and> (\<forall>nf \<in> set fs. \<exists>x. heap m (snd nf) = Some x \<and> \<not> is_instruction (kind x))"
    and "\<forall>nt \<in> set l. \<exists>r ps. snd nt = FunctionTy r ps"
  shows "well_built m' \<and> args_ok m' \<and> (\<forall>f. block_list m' f = []) \<and> (\<forall>nf \<in> set fs'. \<exists>x. heap m' (snd nf) = Some x \<and> \<not> is_instruction (kind x))"
  using assms
proof (induction l arbitrary: fs m)
  case (Cons nt l)
  obtain nm t where nt: "nt = (nm, t)" by (cases nt)
  obtain f m1 where cf: "create_function t nm m = (f, m1)" by fastforce
  have wb: "well_built m" using Cons.prems(2) by blast
  have "\<exists>r ps. t = FunctionTy r ps" using Cons.prems(3) nt by simp
  note F = create_function_built [OF wb cf this]
  have gw: "grows m m1" using F extends_grows by blast
  obtain k where k: "arguments m1 = (arguments m)(f := arguments m f @ k)"
    "\<forall>a \<in> set k. \<exists>x. heap m1 a = Some x \<and> \<not> is_instruction (kind x)" using F by blast
  have "args_ok m1" by (rule args_ok_function [OF _ gw k]) (use Cons.prems(2) in blast)
  moreover have "\<exists>x. heap m1 (snd nf) = Some x \<and> \<not> is_instruction (kind x)" if "nf \<in> set (fs @ [(nm, f)])" for nf
    using that Cons.prems(2) F growsD [OF gw] by (fastforce simp: is_instruction_def)
  moreover have "block_list m1 g = []" for g
    using Cons.prems(2) cfg_of_lists(1) [of m1 m] F by metis
  moreover have "well_built m1" using F by blast
  ultimately show ?case using Cons.IH [of "fs @ [(nm, f)]" m1] Cons.prems(1,3) nt cf by simp
qed simp

lemma builder_init_top:
  assumes "builder_init = Inr s"
  shows "at_top s"
proof -
  obtain fs m where fs: "fold (\<lambda>(nm, t) (fs, m). case create_function t nm m of (f, m) \<Rightarrow> (fs @ [(nm, f)], m))
      library ([], module builder_new) = (fs, m)" by fastforce
  have run: "rfold (\<lambda>(nm, f). push_name nm f) fs (enter (builder_new\<lparr>module := m\<rparr>)) = Inr s"
    using assms fs by (simp add: builder_init_def)
  have L: "well_built m" "args_ok m" "\<And>f. block_list m f = []" "\<forall>nf \<in> set fs. \<exists>x. heap m (snd nf) = Some x \<and> \<not> is_instruction (kind x)"
    using library_functions [OF fs] well_built_init by (simp_all add: builder_new_def args_ok_def ir_init_def library_def)
  have "cache_ok (m, const_cache_init)"
    using uses_okD(1) [OF well_builtD(1) [OF L(1)]] by (auto simp: cache_ok_def const_cache_init_def)
  then have start: "at_top (enter (builder_new\<lparr>module := m\<rparr>))"
    using L by (simp add: at_top_def enter_def scope_enter_def builder_new_def global_names_def all_sealed_def)
  have "at_top s \<and> module s = m"
  proof (rule rfold_invariant [OF run, of "\<lambda>s. at_top s \<and> module s = m"])
    fix nf t t'
    assume nf: "nf \<in> set fs" and t: "at_top t \<and> module t = m" and step: "(case nf of (nm, f) \<Rightarrow> push_name nm f) t = Inr t'"
    obtain e e' where e: "scope t = [e]" "e' = e \<or> e' = e(fst nf \<mapsto> snd nf)" "t' = t\<lparr>scope := [e']\<rparr>"
      using push_name_eq [of t "fst nf" "snd nf"] at_topD(5) [OF conjunct1 [OF t]] step by (auto simp: case_prod_beta)
    have "global_names m [e']" using at_topD(6) [OF conjunct1 [OF t]] t e(1,2) L(4) nf by (auto simp: global_names_def split: if_splits)
    then show "at_top t' \<and> module t' = m" using at_topD [OF conjunct1 [OF t]] t e(3) by (simp add: at_top_def)
  qed (use start in \<open>simp add: enter_def\<close>)
  then show ?thesis ..
qed

lemma builder_init_names:
  assumes "builder_init = Inr s"
  shows "names (scope s) = {''input'', ''output'', ''outputFloat'', ''neg_idx_except''}"
proof -
  have fst: "map fst (fst (fold (\<lambda>(nm, t) (fs, m). case create_function t nm m of (f, m) \<Rightarrow> (fs @ [(nm, f)], m)) l (fs, m)))
      = map fst fs @ map fst l" for l fs m
    by (induction l arbitrary: fs m) (auto split: prod.splits)
  obtain fs m where fs: "fold (\<lambda>(nm, t) (fs, m). case create_function t nm m of (f, m) \<Rightarrow> (fs @ [(nm, f)], m))
      library ([], module builder_new) = (fs, m)" by fastforce
  have run: "rfold (\<lambda>(nm, f). push_name nm f) fs (enter (builder_new\<lparr>module := m\<rparr>)) = Inr s"
    using assms fs by (simp add: builder_init_def)
  have "names (scope u') = names (scope u) \<union> fst ` set fs" if "rfold (\<lambda>nf. push_name (fst nf) (snd nf)) fs u = Inr u'" for fs u u'
    using that
  proof (induction fs arbitrary: u)
    case (Cons nf fs)
    obtain v where v: "push_name (fst nf) (snd nf) u = Inr v" "rfold (\<lambda>nf. push_name (fst nf) (snd nf)) fs v = Inr u'"
      using Cons.prems by (auto simp: rbind_eq_Inr)
    show ?case using Cons.IH [OF v(2)] push_name_names [OF v(1)] by auto
  qed simp
  from this [OF run [unfolded case_prod_beta']] have "names (scope s) = fst ` set fs"
    by (simp add: enter_def scope_enter_def builder_new_def names_Cons)
  moreover have "map fst fs = map fst library" using fst [of library "[]" "module builder_new"] fs by simp
  then have "fst ` set fs = set (map fst library)" by (metis set_map)
  ultimately show ?thesis by (simp add: library_def)
qed

lemma compile_top:
  assumes "compile p = Inr m"
  shows "well_built m \<and> all_sealed m \<and> args_ok m"
proof -
  obtain s s' where "builder_init = Inr s" "build_program p s = Inr s'" "m = module s'"
    using assms by (auto simp: compile_def rbind_eq_Inr)
  then show ?thesis using at_topD(1,3,7) [OF build_program_top [OF builder_init_top]] by blast
qed

end
