(* ===== verification/Pipeline.thy ===== *)
theory Pipeline
  imports Builder_Correct
begin

text \<open>
  The passes on the modules that the builder makes: the hypotheses of the purity analysis, of
  dead-code elimination and of the dominator pass follow from the builder's invariant.
\<close>

section \<open>The purity analysis\<close>

lemma instr_objE:
  assumes "well_built m" "heap m i = Some x" "is_instruction (kind x)"
  obtains f b where "f \<in> set (function_list m)" "b \<in> set (block_list m f)" "i \<in> set (instr_list m b)"
    "instr_ok m b i" "func_of m i = Inr f"
proof -
  note gr = well_builtD(2) [OF assms(1)] and c = well_builtD(3) [OF assms(1)]
  obtain f where "i \<in> set (listed m f)" using code_okD(4) [OF c assms(2,3)] by blast
  then obtain b where b: "b \<in> set (block_list m f)" "i \<in> set (instr_list m b)" by (auto simp: set_listed)
  have ok: "instr_ok m b i" by (rule code_okD(3) [OF c b(2)])
  obtain y where "heap m b = Some y" "parent y = Some f" using graph_okD(6) [OF gr b(1)] by blast
  then have "func_of m i = Inr f" using ok by (auto simp: instr_ok_def func_of_def get_val_def)
  then show ?thesis using that b ok graph_okD(3) [OF gr b(1)] by blast
qed

lemma operands_alive:
  assumes "well_built m" "heap m u = Some x" "Some a \<in> set (operands x)"
  shows "alive m a" "a < u"
proof -
  obtain j where "j < length (operands x)" "operands x ! j = Some a" using assms(3) by (metis in_set_conv_nth)
  then have "operand_at m u j = Some a" using assms(2) by (simp add: operand_at_def)
  then show "alive m a" "a < u"
    using uses_okD(4) [OF well_builtD(1) [OF assms(1)]] code_okD(5) [OF well_builtD(3) [OF assms(1)]] by blast+
qed

lemma pointer_operand_total:
  "None \<notin> set ops \<Longrightarrow> (\<And>a. Some a \<in> set ops \<Longrightarrow> alive m a) \<Longrightarrow>
     \<exists>r. pointer_operand m ops = Inr r \<and> (\<forall>a. r = Some a \<longrightarrow> Some a \<in> set ops)"
proof (induction m ops rule: pointer_operand.induct)
  case (3 m a ops)
  obtain x where "heap m a = Some x" using "3.prems"(2) [of a] by auto
  then show ?case using "3.IH" [of x] "3.prems" by (auto simp: get_val_def)
qed auto

lemma get_first_addr_total:
  assumes wb: "well_built m"
  shows "alive m v \<Longrightarrow> \<exists>a. get_first_addr m (Some v) = Some (Inr (Some a)) \<and> alive m a"
proof (induction v rule: less_induct)
  case (less v)
  obtain x where x: "heap m v = Some x" using less.prems by auto
  show ?case
  proof (cases "is_instruction (kind x)")
    case False
    then show ?thesis using x by (subst get_first_addr.simps) (simp add: get_val_def)
  next
    case True
    obtain b where "instr_ok m b v" using instr_objE [OF wb x True] by metis
    then have ok: "None \<notin> set (operands x)" "arity_ok (op_id (kind x)) (length (operands x))"
      using x by (auto simp: instr_ok_def)
    have rec: "\<exists>c. get_first_addr m (Some a) = Some (Inr (Some c)) \<and> alive m c" if "Some a \<in> set (operands x)" for a
      using less.IH operands_alive [OF wb x that] by blast
    show ?thesis
    proof (cases "kind x = InstructionV Getelementptr")
      case True
      then obtain o1 ops where o1: "operands x = o1 # ops" using ok(2) by (cases "operands x") (auto simp: arity_ok_def)
      then obtain a where a: "o1 = Some a" using ok(1) by (cases o1) auto
      then have "get_operand v 0 m = Inr (Some a)" using x o1 by (simp add: get_operand_def get_val_def)
      then show ?thesis using True x rec [of a] o1 a by (subst get_first_addr.simps) (simp add: get_val_def is_instruction_def)
    next
      case False
      obtain r where r: "pointer_operand m (operands x) = Inr r" "\<And>a. r = Some a \<Longrightarrow> Some a \<in> set (operands x)"
        using pointer_operand_total [of "operands x" m] ok(1) operands_alive [OF wb x] by blast
      then show ?thesis
        using False x rec less.prems by (subst get_first_addr.simps) (auto simp: get_val_def split: option.splits)
    qed
  qed
qed

lemma is_local_addr_total: "well_built m \<Longrightarrow> alive m v \<Longrightarrow> \<exists>l. is_local_addr m (Some v) = Some (Inr l)"
  using get_first_addr_total by (fastforce simp: is_local_addr_def get_val_def)

lemma is_side_effect_inst_total:
  assumes wb: "well_built m" and i: "i \<in> set (listed m f)"
  shows "\<exists>e. is_side_effect_inst m i = Some (Inr e)"
proof -
  obtain b where "instr_ok m b i" using i code_okD(3) [OF well_builtD(3) [OF wb]] by (auto simp: set_listed)
  then obtain x where x: "heap m i = Some x" "is_instruction (kind x)" "None \<notin> set (operands x)"
    "arity_ok (op_id (kind x)) (length (operands x))" by (auto simp: instr_ok_def)
  have nth: "\<exists>l. obind (Some (get_operand i j m)) (is_local_addr m) = Some (Inr l)" if "j < length (operands x)" for j
  proof -
    have "operands x ! j \<in> set (operands x)" using that by simp
    then have "\<exists>a. operands x ! j = Some a \<and> Some a \<in> set (operands x)"
      using x(3) by (metis not_None_eq)
    then obtain a where a: "operands x ! j = Some a" "Some a \<in> set (operands x)" by blast
    then show ?thesis
      using that x(1) is_local_addr_total [OF wb operands_alive(1) [OF wb x(1) a(2)]]
      by (simp add: get_operand_def get_val_def)
  qed
  consider "kind x = InstructionV Store" | "kind x = InstructionV Load"
    | "kind x \<noteq> InstructionV Store" "kind x \<noteq> InstructionV Load" by blast
  then show ?thesis
  proof cases
    case 1
    then have "1 < length (operands x)" using x(4) by (simp add: arity_ok_def)
    from nth [OF this] obtain l where "is_local_store m i = Some (Inr l)" unfolding is_local_store_def by blast
    then show ?thesis using 1 x(1) by (simp add: is_side_effect_inst_def get_val_def)
  next
    case 2
    then have "0 < length (operands x)" using x(4) by (simp add: arity_ok_def)
    from nth [OF this] obtain l where "is_local_load m i = Some (Inr l)" unfolding is_local_load_def by blast
    then show ?thesis using 2 x(1) by (simp add: is_side_effect_inst_def get_val_def)
  qed (use x(1) in \<open>auto simp: is_side_effect_inst_def get_val_def\<close>)
qed

lemma any_side_effect_total:
  "(\<And>i. i \<in> set is \<Longrightarrow> \<exists>e. is_side_effect_inst m i = Some (Inr e)) \<Longrightarrow> \<exists>e. any_side_effect m is = Some (Inr e)"
proof (induction "is")
  case (Cons i "is")
  obtain e where "is_side_effect_inst m i = Some (Inr e)" using Cons.prems [of i] by auto
  then show ?case using Cons by (cases e) auto
qed auto

lemma trivial_purity_total:
  assumes wb: "well_built m" and f: "f \<in> set (function_list m)"
  shows "\<exists>p. trivial_purity m f = Some (Inr p)"
proof -
  obtain x where x: "heap m f = Some x" using graph_okD(2) [OF well_builtD(2) [OF wb], of f] f by auto
  obtain e where "any_side_effect m (listed m f) = Some (Inr e)"
    using any_side_effect_total is_side_effect_inst_total [OF wb] by blast
  then show ?thesis using x by (auto simp: trivial_purity_def get_val_def listed_def)
qed

lemma well_built_calls_ok:
  assumes wb: "well_built m"
  shows "calls_ok m"
  unfolding calls_ok_def
proof
  fix f
  assume "f \<in> set (function_list m)"
  then obtain x where x: "heap m f = Some x" using graph_okD(2) [OF well_builtD(2) [OF wb], of f] by auto
  have "\<exists>y. heap m u = Some y \<and> (is_instruction (kind y) \<longrightarrow> (\<exists>g \<in> set (function_list m). func_of m u = Inr g))"
    if "u \<in> fst ` set (use_list x)" for u
  proof -
    obtain j where "(u, j) \<in> set (use_list x)" using \<open>u \<in> fst ` set (use_list x)\<close> by auto
    then have "operand_at m u j = Some f" using uses_okD(3) [OF well_builtD(1) [OF wb] x] by simp
    then obtain y where y: "heap m u = Some y" by (auto simp: operand_at_Some)
    then show ?thesis using instr_objE [OF wb y] by metis
  qed
  then show "\<exists>x. heap m f = Some x \<and> (\<forall>u \<in> fst ` set (use_list x). \<exists>y. heap m u = Some y \<and>
      (is_instruction (kind y) \<longrightarrow> (\<exists>g \<in> set (function_list m). func_of m u = Inr g)))"
    using x by blast
qed

section \<open>Dead-code elimination\<close>

lemma well_built_module_ok:
  assumes wb: "well_built m" and fi: "\<And>f. f \<in> set (function_list m) \<Longrightarrow> \<exists>p. is_pure_function f fi = Inr p"
  shows "module_ok m fi"
  unfolding module_ok_def
proof (intro conjI ballI allI impI)
  note gr = well_builtD(2) [OF wb] and c = well_builtD(3) [OF wb]
  show "uses_ok m" "distinct (function_list m)" using well_builtD(1) [OF wb] graph_okD(1) [OF gr] .
  show "distinct (listed m f)" for f by (rule listed_distinct [OF wb])
  show "\<exists>y. heap m b = Some y \<and> kind y = BasicBlockV \<and> parent y = Some f" if "b \<in> set (block_list m f)" for f b
    using graph_okD(6) [OF gr that] .
  show "\<exists>x. heap m i = Some x \<and> is_instruction (kind x) \<and> parent x = Some b \<and> None \<notin> set (operands x) \<and>
      (\<exists>c. is_critical m fi i = Inr c)" if "i \<in> set (instr_list m b)" for b i
  proof -
    obtain x where x: "heap m i = Some x" "is_instruction (kind x)" "parent x = Some b" "None \<notin> set (operands x)"
      and typed: "typed_ops m (vtype x) (op_id (kind x)) (operands x)"
      using code_okD(3) [OF c \<open>i \<in> set (instr_list m b)\<close>] by (auto simp: instr_ok_def)
    have "\<exists>c. is_critical m fi i = Inr c"
    proof (cases "kind x = InstructionV Call")
      case True
      then obtain f ops where f: "f \<in> set (function_list m)" "operands x = Some f # ops"
        using typed_opsD(4) [of m "vtype x" "operands x"] typed by auto
      obtain y where "heap m f = Some y" "kind y = FunctionV" using graph_okD(2) [OF gr, of f] f(1) by blast
      then show ?thesis using True x(1) f fi [OF f(1)] by (auto simp: is_critical_def get_val_def get_operand_def)
    qed (use x(1) in \<open>simp add: is_critical_def get_val_def\<close>)
    then show ?thesis using x by blast
  qed
  show "\<exists>f \<in> set (function_list m). u \<in> set (listed m f) \<and> a \<in> set (listed m f)"
    if o: "operand_at m u j = Some a" and x: "heap m a = Some x" "is_instruction (kind x)" for u j a x
  proof -
    obtain f b where "f \<in> set (function_list m)" "b \<in> set (block_list m f)" "a \<in> set (instr_list m b)"
      using instr_objE [OF wb x] by metis
    then show ?thesis using code_okD(6) [OF c o, of f] by (auto simp: set_listed)
  qed
qed

lemma well_built_func_info:
  assumes wb: "well_built m"
  shows "\<exists>fi. run_func_info m func_info_init = Some (Inr fi) \<and> module_ok m fi"
proof -
  obtain tp where tp: "\<And>f. f \<in> set (function_list m) \<Longrightarrow> trivial_purity m f = Some (Inr (tp f))"
    using trivial_purity_total [OF wb] by metis
  obtain fi where fi: "run_func_info m func_info_init = Some (Inr fi)"
    "\<And>f. f \<in> set (function_list m) \<Longrightarrow> \<exists>p. is_pure_function f fi = Inr p"
    using run_func_info_spec [OF well_built_calls_ok [OF wb] graph_okD(1) [OF well_builtD(2) [OF wb]] tp] by blast
  then show ?thesis using well_built_module_ok [OF wb fi(2)] by blast
qed

lemma well_built_dead_code:
  assumes wb: "well_built m"
  shows "\<exists>fi m' n. run_func_info m func_info_init = Some (Inr fi) \<and> run_dead_code m = Some (Inr (m', n)) \<and>
    uses_ok m' \<and> (\<forall>f \<in> set (function_list m). listed m' f = filter (needed m fi f) (listed m f))"
proof -
  obtain fi where fi: "run_func_info m func_info_init = Some (Inr fi)" and ok: "module_ok m fi"
    using well_built_func_info [OF wb] by blast
  let ?D = "dead_all m fi"
  have "run_dead_code m = Some (Inr (swept ?D ?D m, \<Sum>f \<leftarrow> function_list m. length (filter (\<lambda>i. \<not> needed m fi f i) (listed m f))))"
    using fi dead_code_loop_spec [OF ok refl, of 0] by (simp add: run_dead_code_def erased_count_def [abs_def])
  moreover have "uses_ok (swept ?D ?D m)" by (rule swept_uses_ok [OF ok subset_refl dead_all_def])
  moreover have "\<forall>f \<in> set (function_list m). listed (swept ?D ?D m) f = filter (needed m fi f) (listed m f)"
    using dead_code_listed ok by blast
  ultimately show ?thesis using fi by blast
qed

text \<open>A terminator is critical, so it is needed.\<close>

lemma terminator_needed:
  assumes "is_term m t" "t \<in> set (listed m f)"
  shows "needed m fi f t"
proof -
  obtain x where "heap m t = Some x" "isTerminator x" using assms(1) by (auto simp: is_term_def split: option.splits)
  then have "critical m fi t" by (auto simp: critical_def isTerminator_def)
  then show ?thesis using assms(2) unfolding needed_def by blast
qed

section \<open>The graph\<close>

lemma sealed_last: "sealed m b \<Longrightarrow> last (instr_list m b) \<in> set (instr_list m b) \<and> is_term m (last (instr_list m b))"
  by (simp add: sealed_def)

lemma entry_no_preds:
  assumes "well_built m" "get_entry_block (cfg_of m f) = Inr r"
  shows "pre_bbs (cfg_of m f) r = []" "block_list m f \<noteq> []" "r = hd (block_list m f)"
  using assms(2) graph_okD(5) [OF well_builtD(2) [OF assms(1)], of f]
  by (auto simp: get_entry_block_def cfg_of_def split: list.splits)

end
