(* ===== verification/Dead_Keeps.thy ===== *)
theory Dead_Keeps
  imports Pipeline
begin

text \<open>
  Dead-code elimination keeps the builder's invariant: the instructions that stay have operands
  that stay, and the terminators of the blocks are needed.
\<close>

lemma typed_ops_operands:
  assumes "typed_ops m t op ops" "set (function_list m) \<subseteq> set (function_list m')"
    and "\<And>v y. Some v \<in> set ops \<Longrightarrow> heap m v = Some y \<Longrightarrow> \<exists>y'. heap m' v = Some y' \<and> vtype y' = vtype y"
  shows "typed_ops m' t op ops"
  using assms by (cases op) (fastforce simp: typed_ops_def)+

text \<open>\<open>m'\<close> is what the pass leaves of \<open>m\<close>, without the instructions \<open>D\<close>.\<close>

definition sweeping :: "ir \<Rightarrow> func_info \<Rightarrow> addr set \<Rightarrow> ir \<Rightarrow> bool" where
  "sweeping m fi D m' \<longleftrightarrow> well_built m \<and> module_ok m fi \<and> D = dead m fi (set (function_list m)) \<and> m' = swept D D m"

lemma sweepingD:
  assumes "sweeping m fi D m'"
  shows "well_built m" "module_ok m fi" "D = dead m fi (set (function_list m))" "m' = swept D D m"
    "uses_ok m" "graph_ok m" "code_ok m" "data_ok m"
  using assms by (simp_all add: sweeping_def well_built_def)

lemma sweeping_fields:
  assumes "sweeping m fi D m'"
  shows "heap m' a = (if a \<in> D then None else map_option (drop_uses D) (heap m a))"
    "function_list m' = function_list m" "block_list m' = block_list m" "global_list m' = global_list m"
    "pre_list m' = pre_list m" "succ_list m' = succ_list m" "cfg_of m' f = cfg_of m f"
  using sweepingD(4) [OF assms] by (simp_all add: swept_def cfg_of_def)

lemma object_stays:
  assumes "sweeping m fi D m'" "heap m a = Some x" "\<not> is_instruction (kind x)"
  shows "heap m' a = Some (drop_uses D x)"
  using not_dead_object [OF sweepingD(2) [OF assms(1)] subset_refl assms(2,3)] assms(2)
  by (simp add: sweeping_fields(1) [OF assms(1)] sweepingD(3) [OF assms(1), symmetric])

lemma object_was:
  assumes "sweeping m fi D m'" "heap m' a = Some y"
  shows "a \<notin> D" "\<exists>x. heap m a = Some x \<and> y = drop_uses D x"
  using assms(2) by (auto simp: sweeping_fields(1) [OF assms(1)] split: if_splits)

lemma operand_stays:
  assumes sw: "sweeping m fi D m'" and "u \<notin> D" "heap m u = Some x" "Some a \<in> set (operands x)"
  shows "a \<notin> D"
proof -
  obtain j where "j < length (operands x)" "operands x ! j = Some a" using assms(4) by (metis in_set_conv_nth)
  then have "operand_at m u j = Some a" using assms(3) by (simp add: operand_at_def)
  then show ?thesis
    using operand_not_dead [OF sweepingD(2) [OF sw] subset_refl, of u j a] assms(2) sweepingD(3) [OF sw] by blast
qed

lemma instr_list_kept:
  assumes sw: "sweeping m fi D m'"
  shows "instr_list m' b = filter (\<lambda>i. i \<notin> D) (instr_list m b)"
proof -
  have "b \<in> blocks_of m" if ne: "instr_list m b \<noteq> []"
  proof -
    obtain f where "b \<in> set (block_list m f)"
      using code_okD(2) [OF sweepingD(7) [OF sw] hd_in_set [OF ne]] by blast
    then show ?thesis using graph_okD(3) [OF sweepingD(6) [OF sw]] by (auto simp: blocks_of_def)
  qed
  then show ?thesis by (cases "instr_list m b = []") (simp_all add: sweepingD(4) [OF sw])
qed

lemma graph_kept:
  assumes sw: "sweeping m fi D m'"
  shows "graph_ok m'"
proof -
  note g = sweepingD(6) [OF sw]
  have fn: "(\<exists>x. heap m' f = Some x \<and> kind x = FunctionV) \<longleftrightarrow> (\<exists>x. heap m f = Some x \<and> kind x = FunctionV)" for f
  proof
    assume "\<exists>x. heap m' f = Some x \<and> kind x = FunctionV"
    then show "\<exists>x. heap m f = Some x \<and> kind x = FunctionV" using object_was(2) [OF sw] by fastforce
  next
    assume "\<exists>x. heap m f = Some x \<and> kind x = FunctionV"
    then show "\<exists>x. heap m' f = Some x \<and> kind x = FunctionV"
      using object_stays [OF sw] by (auto simp: is_instruction_def)
  qed
  have blk: "\<exists>y. heap m' b = Some y \<and> kind y = BasicBlockV \<and> parent y = Some f" if "b \<in> set (block_list m f)" for b f
    using graph_okD(6) [OF g that] object_stays [OF sw, of b] by (fastforce simp: is_instruction_def)
  show ?thesis
    using g unfolding graph_ok_def sweeping_fields(2-7) [OF sw] fn by (elim conjE, intro conjI allI impI) (use blk in blast)+
qed

lemma instr_kept:
  assumes sw: "sweeping m fi D m'" and i: "instr_ok m b i" "i \<notin> D"
  shows "instr_ok m' b i"
proof -
  obtain x where x: "heap m i = Some x" "is_instruction (kind x)" "parent x = Some b" "None \<notin> set (operands x)"
    "arity_ok (op_id (kind x)) (length (operands x))" "typed_ops m (vtype x) (op_id (kind x)) (operands x)"
    using i(1) by (auto simp: instr_ok_def)
  have "typed_ops m' (vtype x) (op_id (kind x)) (operands x)"
    by (rule typed_ops_operands [OF x(6)])
      (use operand_stays [OF sw i(2) x(1)] in \<open>auto simp: sweeping_fields [OF sw]\<close>)
  then show ?thesis using x i(2) by (simp add: instr_ok_def sweeping_fields(1) [OF sw])
qed

lemma listed_kept:
  assumes sw: "sweeping m fi D m'"
  shows "i \<in> set (listed m' f) \<longleftrightarrow> i \<in> set (listed m f) \<and> i \<notin> D"
  by (auto simp: set_listed instr_list_kept [OF sw] sweeping_fields(3) [OF sw])

lemma operand_at_kept:
  assumes sw: "sweeping m fi D m'"
  shows "operand_at m' u j = (if u \<in> D then None else operand_at m u j)"
  unfolding sweepingD(4) [OF sw] by (rule swept_operand_at [OF sweepingD(2) [OF sw] subset_refl sweepingD(3) [OF sw]])

lemma code_kept:
  assumes sw: "sweeping m fi D m'"
  shows "code_ok m'"
  unfolding code_ok_def
proof (intro conjI allI impI)
  note c = sweepingD(7) [OF sw] and bl = sweeping_fields(3) [OF sw] and il = instr_list_kept [OF sw]
    and op = operand_at_kept [OF sw] and li = listed_kept [OF sw]
  show "distinct (instr_list m' b)" for b using code_okD(1) [OF c] by (simp add: il)
  show "\<exists>f. b \<in> set (block_list m' f)" if "instr_list m' b \<noteq> []" for b
    using that code_okD(2) [OF c, of "hd (instr_list m b)" b] by (cases "instr_list m b") (auto simp: il bl)
  show "instr_ok m' b i" if "i \<in> set (instr_list m' b)" for b i
    using that code_okD(3) [OF c] instr_kept [OF sw] by (simp add: il)
  show "\<exists>f. i \<in> set (listed m' f)" if "heap m' i = Some x" "is_instruction (kind x)" for i x
    using object_was [OF sw that(1)] that(2) code_okD(4) [OF c] by (auto simp: li)
  show "a < u" if "operand_at m' u j = Some a" for u j a
    using that code_okD(5) [OF c] by (simp add: op split: if_splits)
  show "u \<in> set (listed m' f)" if "operand_at m' u j = Some a" "a \<in> set (listed m' f)" for u j a f
    using that code_okD(6) [OF c] by (auto simp: op li split: if_splits)
qed

lemma data_kept:
  assumes sw: "sweeping m fi D m'"
  shows "data_ok m'"
  unfolding data_ok_def
proof (intro conjI allI impI ballI)
  note d = sweepingD(8) [OF sw]
  show "datum_ok m' y" if y: "heap m' a = Some y" for a y
  proof -
    obtain x where x: "heap m a = Some x" "y = drop_uses D x" using object_was(2) [OF sw y] by blast
    have ok: "datum_ok m x" using d x(1) by (simp add: data_ok_def)
    have leaf: "\<exists>w'. heap m' z = Some w' \<and> kind w' = kind w" if "heap m z = Some w" "leaf_constant (kind w)" for z w
      using object_stays [OF sw that(1)] that(2)
      by (auto simp: leaf_constant_def is_instruction_def split: value_kind.splits)
    show ?thesis
    proof (cases "kind x")
      case (GlobalVariableV c init)
      then obtain z w t where "init = Some z" "heap m z = Some w" "leaf_constant (kind w)" "vtype x = PointerTy t"
        using ok by (auto simp: datum_ok_def)
      then show ?thesis using GlobalVariableV leaf [of z w] x(2) by (auto simp: datum_ok_def)
    qed (use ok x(2) in \<open>simp_all add: datum_ok_def\<close>)
  qed
  show "global_at m' g" if "g \<in> set (global_list m')" for g
  proof -
    have "global_at m g" using d that by (simp add: data_ok_def sweeping_fields(4) [OF sw])
    then show ?thesis using object_stays [OF sw] unfolding global_at_def by (fastforce simp: is_instruction_def)
  qed
qed

lemma well_built_kept:
  assumes sw: "sweeping m fi D m'"
  shows "well_built m'"
  unfolding well_built_def
  using graph_kept [OF sw] code_kept [OF sw] data_kept [OF sw]
    swept_uses_ok [OF sweepingD(2) [OF sw] subset_refl sweepingD(3) [OF sw]] sweepingD(4) [OF sw] by simp

lemma terminator_kept:
  assumes sw: "sweeping m fi D m'" and t: "is_term m t"
  shows "t \<notin> D"
proof
  assume "t \<in> D"
  then obtain f where "t \<in> set (listed m f)" "\<not> needed m fi f t" by (auto simp: sweepingD(3) [OF sw] dead_def)
  then show False using terminator_needed [OF t] by blast
qed

lemma is_term_kept: "sweeping m fi D m' \<Longrightarrow> i \<notin> D \<Longrightarrow> is_term m' i = is_term m i"
  by (cases "heap m i") (auto simp: is_term_def sweeping_fields(1) isTerminator_def)

lemma sealed_kept:
  assumes sw: "sweeping m fi D m'" and s: "sealed m b"
  shows "sealed m' b"
proof -
  let ?is = "instr_list m b"
  have b: "?is \<noteq> []" "\<forall>i \<in> set (butlast ?is). \<not> is_term m i" "is_term m (last ?is)" "succ_list m b = targets m (last ?is)"
    using s by (simp_all add: sealed_def)
  have t: "last ?is \<notin> D" by (rule terminator_kept [OF sw b(3)])
  have "?is = butlast ?is @ [last ?is]" using b(1) by simp
  then have split: "instr_list m' b = filter (\<lambda>i. i \<notin> D) (butlast ?is) @ [last ?is]"
    unfolding instr_list_kept [OF sw] using t by (metis (no_types, lifting) filter.simps filter_append)
  have "targets m' (last ?is) = targets m (last ?is)"
    using t by (cases "heap m (last ?is)") (auto simp: targets_def sweeping_fields(1) [OF sw])
  moreover have "succ_list m' b = succ_list m b" by (simp add: sweeping_fields(6) [OF sw])
  ultimately show ?thesis using b t by (auto simp: sealed_def split is_term_kept [OF sw])
qed

lemma dead_code_keeps:
  assumes wb: "well_built m"
  shows "\<exists>fi m' n. run_func_info m func_info_init = Some (Inr fi) \<and> run_dead_code m = Some (Inr (m', n)) \<and>
    well_built m' \<and> (all_sealed m \<longrightarrow> all_sealed m') \<and> function_list m' = function_list m \<and> block_list m' = block_list m \<and>
    (\<forall>f \<in> set (function_list m). listed m' f = filter (needed m fi f) (listed m f))"
proof -
  obtain fi where fi: "run_func_info m func_info_init = Some (Inr fi)" and ok: "module_ok m fi"
    using well_built_func_info [OF wb] by blast
  let ?m = "swept (dead_all m fi) (dead_all m fi) m"
  have sw: "sweeping m fi (dead_all m fi) ?m" using wb ok by (simp add: sweeping_def dead_all_def)
  have "\<exists>n. run_dead_code m = Some (Inr (?m, n))"
    using fi dead_code_loop_spec [OF ok refl, of 0] by (simp add: run_dead_code_def)
  moreover have "all_sealed m \<longrightarrow> all_sealed ?m"
    using sealed_kept [OF sw] by (simp add: all_sealed_def)
  moreover have "\<forall>f \<in> set (function_list m). listed ?m f = filter (needed m fi f) (listed m f)"
    using dead_code_listed ok by blast
  ultimately show ?thesis using fi well_built_kept [OF sw] sweeping_fields(2,3) [OF sw] by blast
qed

end
