(* ===== verification/Builder_Scoping.thy ===== *)
theory Builder_Scoping
  imports Builder_Correct
begin

text \<open>
  The scoping rules of the language as a check on the tree, and the proof that the builder only
  accepts programs that pass it. Statements behind a return are not looked at.
\<close>

section \<open>The rules\<close>

fun names_expression :: "'f ASTExpression \<Rightarrow> string set"
  and names_var :: "'f ASTVar \<Rightarrow> string set"
  and names_additive :: "'f ASTAdditiveExpression \<Rightarrow> string set"
  and names_term :: "'f ASTTerm \<Rightarrow> string set"
  and names_factor :: "'f ASTFactor \<Rightarrow> string set"
where
  "names_expression (ASTAssignExpression v e) = names_expression e \<union> names_var v"
| "names_expression (ASTSimpleExpression a None) = names_additive a"
| "names_expression (ASTSimpleExpression a (Some (op, b))) = names_additive a \<union> names_additive b"
| "names_var (ASTVar nm None) = {nm}"
| "names_var (ASTVar nm (Some e)) = insert nm (names_expression e)"
| "names_additive (ASTAdditiveExpression None t) = names_term t"
| "names_additive (ASTAdditiveExpression (Some (a, op)) t) = names_additive a \<union> names_term t"
| "names_term (ASTTerm None f) = names_factor f"
| "names_term (ASTTerm (Some (t, op)) f) = names_term t \<union> names_factor f"
| "names_factor (FactorExpression e) = names_expression e"
| "names_factor (FactorVar v) = names_var v"
| "names_factor (FactorCall nm args) = insert nm (\<Union>e \<in> set args. names_expression e)"
| "names_factor (FactorNum n) = {}"

fun scoped :: "string set \<Rightarrow> 'f ASTStatement \<Rightarrow> bool"
  and scoped_list :: "string set \<Rightarrow> 'f ASTStatement list \<Rightarrow> bool"
where
  "scoped env (ASTCompoundStmt ds ss) = scoped_list (env \<union> var_id ` set ds) ss"
| "scoped env (ASTExpressionStmt None) = True"
| "scoped env (ASTExpressionStmt (Some e)) = (names_expression e \<subseteq> env)"
| "scoped env (ASTSelectionStmt e th None) = (names_expression e \<subseteq> env \<and> scoped env th)"
| "scoped env (ASTSelectionStmt e th (Some el)) = (names_expression e \<subseteq> env \<and> scoped env th \<and> scoped env el)"
| "scoped env (ASTIterationStmt e body) = (names_expression e \<subseteq> env \<and> scoped env body)"
| "scoped env (ASTReturnStmt None) = True"
| "scoped env (ASTReturnStmt (Some e)) = (names_expression e \<subseteq> env)"
| "scoped_list env [] = True"
| "scoped_list env (st # ss) = (scoped env st \<and> (ends st \<or> scoped_list env ss))"

fun scoped_declarations :: "string set \<Rightarrow> 'f ASTDeclaration list \<Rightarrow> bool" where
  "scoped_declarations env [] = True"
| "scoped_declarations env (VarDeclaration d # ds) = scoped_declarations (insert (var_id d) env) ds"
| "scoped_declarations env (ASTFunDeclaration t nm ps body # ds) =
     (scoped (insert nm env \<union> param_id ` set ps) body \<and> scoped_declarations (insert nm env) ds)"

definition library_names :: "string set" where
  "library_names = {''input'', ''output'', ''outputFloat'', ''neg_idx_except''}"

section \<open>Expressions\<close>

lemma build_expr_names:
  fixes e :: "f32 ASTExpression" and v :: "f32 ASTVar" and a :: "f32 ASTAdditiveExpression"
    and t :: "f32 ASTTerm" and f :: "f32 ASTFactor"
  shows "build_expression e s = Inr s' \<Longrightarrow> in_body T P N s \<Longrightarrow> cur_open s \<Longrightarrow> names_expression e \<subseteq> names (scope s)"
    "build_var v s = Inr s' \<Longrightarrow> in_body T P N s \<Longrightarrow> cur_open s \<Longrightarrow> names_var v \<subseteq> names (scope s)"
    "build_additive a s = Inr s' \<Longrightarrow> in_body T P N s \<Longrightarrow> cur_open s \<Longrightarrow> names_additive a \<subseteq> names (scope s)"
    "build_term t s = Inr s' \<Longrightarrow> in_body T P N s \<Longrightarrow> cur_open s \<Longrightarrow> names_term t \<subseteq> names (scope s)"
    "build_factor f s = Inr s' \<Longrightarrow> in_body T P N s \<Longrightarrow> cur_open s \<Longrightarrow> names_factor f \<subseteq> names (scope s)"
proof (induction e s and v s and a s and t s and f s arbitrary: s' and s' and s' and s' and s'
    rule: build_expression_build_var_build_additive_build_term_build_factor.induct)
  case (1 v e s)
  obtain s1 r s2 where r: "build_expression e s = Inr s1" "get_tmp s1 = Inr r"
    "build_var v (s1\<lparr>require_lvalue := True\<rparr>) = Inr s2"
    using "1.prems"(1) by (auto simp: rbind_eq_Inr)
  note e1 = build_expr_evals(1) [OF r(1) "1.prems"(2,3)]
  have "names_var v \<subseteq> names (scope (s1\<lparr>require_lvalue := True\<rparr>))"
    by (rule "1.IH"(2) [OF r(1,2,3)]) (use evalsD(2,3) [OF e1] in simp_all)
  then show ?case using "1.IH"(1) [OF r(1) "1.prems"(2,3)] stable_names [OF evalsD(4) [OF e1]] by simp
next
  case (3 a op b s)
  obtain s1 l s2 where r: "build_additive a s = Inr s1" "get_tmp s1 = Inr l" "build_additive b s1 = Inr s2"
    using "3.prems"(1) by (auto simp: rbind_eq_Inr)
  note e1 = build_expr_evals(3) [OF r(1) "3.prems"(2,3)]
  show ?case
    using "3.IH"(1) [OF r(1) "3.prems"(2,3)] "3.IH"(2) [OF r(1,2,3) evalsD(2,3) [OF e1]] stable_names [OF evalsD(4) [OF e1]] by simp
next
  case (4 nm i s)
  obtain var e where v: "scope_find nm (scope s) = Some var" "pointee var s = Inr e"
    using "4.prems"(1) by (auto simp: rbind_eq_Inr split: option.splits)
  have nm: "nm \<in> names (scope s)" using v(1) by (simp add: names_def)
  show ?case
  proof (cases i)
    case None
    then show ?thesis using nm by simp
  next
    case (Some ix)
    obtain s1 where r: "build_expression ix (s\<lparr>require_lvalue := False\<rparr>) = Inr s1"
      using "4.prems"(1) v Some by (auto simp: rbind_eq_Inr)
    have "names_expression ix \<subseteq> names (scope (s\<lparr>require_lvalue := False\<rparr>))"
      by (rule "4.IH" [OF v Some r]) (use "4.prems"(2,3) in simp_all)
    then show ?thesis using nm Some by simp
  qed
next
  case (6 a op t s)
  obtain s1 l s2 where r: "build_additive a s = Inr s1" "get_tmp s1 = Inr l" "build_term t s1 = Inr s2"
    using "6.prems"(1) by (auto simp: rbind_eq_Inr)
  note e1 = build_expr_evals(3) [OF r(1) "6.prems"(2,3)]
  show ?case
    using "6.IH"(1) [OF r(1) "6.prems"(2,3)] "6.IH"(2) [OF r(1,2,3) evalsD(2,3) [OF e1]] stable_names [OF evalsD(4) [OF e1]] by simp
next
  case (8 t op f s)
  obtain s1 l s2 where r: "build_term t s = Inr s1" "get_tmp s1 = Inr l" "build_factor f s1 = Inr s2"
    using "8.prems"(1) by (auto simp: rbind_eq_Inr)
  note e1 = build_expr_evals(4) [OF r(1) "8.prems"(2,3)]
  show ?case
    using "8.IH"(1) [OF r(1) "8.prems"(2,3)] "8.IH"(2) [OF r(1,2,3) evalsD(2,3) [OF e1]] stable_names [OF evalsD(4) [OF e1]] by simp
next
  case (11 nm args s)
  obtain f where f: "scope_find nm (scope s) = Some f"
    using "11.prems"(1) by (auto split: option.splits)
  obtain r ps where ty: "type_of f s = Inr (FunctionTy r ps)"
    using "11.prems"(1) f by (cases "type_of f s") (auto split: ty.splits)
  let ?arg = "\<lambda>e vps. case vps of (vs, ps, s) \<Rightarrow> rbind (build_expression e s) (\<lambda>s. rbind (convert_arg ps s) (\<lambda>s.
      rbind (get_tmp s) (\<lambda>v. Inr (vs @ [v], tl ps, s))))"
  obtain vps where run: "rfold ?arg args ([], ps, s) = Inr vps"
    using "11.prems"(1) f ty by (auto simp: rbind_eq_Inr)
  have "(\<Union>e \<in> set es. names_expression e) \<subseteq> names (scope s)"
    if "rfold ?arg es st = Inr vps" "set es \<subseteq> set args" "goes T P N s (snd (snd st))" for es st
    using that
  proof (induction es arbitrary: st)
    case (Cons e es)
    obtain us qs t where st: "st = (us, qs, t)" by (cases st)
    obtain t1 t2 w where t: "build_expression e t = Inr t1" "convert_arg qs t1 = Inr t2" "get_tmp t2 = Inr w"
      and rest: "rfold ?arg es (us @ [w], tl qs, t2) = Inr vps"
      using Cons.prems(1) st by (auto simp: rbind_eq_Inr)
    have g: "goes T P N s t" using Cons.prems(3) st by simp
    have e: "e \<in> set args" using Cons.prems(2) by simp
    have "names_expression e \<subseteq> names (scope t)"
      by (rule "11.IH" [OF f ty refl e refl refl t(1) goesD(1,2) [OF g]])
    moreover have "names (scope t) = names (scope s)" by (rule stable_names [OF goesD(3) [OF g]])
    moreover have e2: "evals T P N t t2"
      by (rule convert_arg_evals [OF build_expr_evals(1) [OF t(1) goesD(1,2) [OF g]] t(2)])
    moreover have "(\<Union>e \<in> set es. names_expression e) \<subseteq> names (scope s)"
      by (rule Cons.IH [OF rest]) (use Cons.prems(2) goes_trans [OF g evalsD(1) [OF e2]] in auto)
    ultimately show ?case by simp
  qed simp
  from this [OF run] show ?case using f goes_refl [OF "11.prems"(2,3)] by (auto simp: names_def)
qed auto

section \<open>Statements\<close>

lemma declarations_names:
  "rfold build_var_declaration ds s = Inr s' \<Longrightarrow> in_body T P N s \<Longrightarrow> cur_open s \<Longrightarrow>
     names (scope s') = names (scope s) \<union> var_id ` set ds"
proof (induction ds arbitrary: s)
  case (Cons d ds)
  obtain t where t: "build_var_declaration d s = Inr t" "rfold build_var_declaration ds t = Inr s'"
    using Cons.prems(1) by (auto simp: rbind_eq_Inr)
  have "\<not> in_global (scope s)" using Cons.prems(2) by (auto simp: in_body_def in_global_def)
  then obtain ty a s1 where r: "b_alloca ty s = Inr (a, s1)" "push_name (var_id d) a s1 = Inr t"
    using t(1) by (auto simp: build_var_declaration_def rbind_eq_Inr)
  have "names (scope s1) = names (scope s)"
    by (rule stable_names [OF givesD(3) [OF b_gives(6) [OF Cons.prems(2,3) r(1)]]])
  then have "names (scope t) = insert (var_id d) (names (scope s))" using push_name_names [OF r(2)] by simp
  moreover have "declares T P N s t" by (rule build_var_declaration_declares [OF Cons.prems(2,3) t(1)])
  ultimately show ?case using Cons.IH [OF t(2)] by (simp add: declares_def)
qed simp

lemma build_statement_scoped:
  fixes st :: "f32 ASTStatement" and ss :: "f32 ASTStatement list"
  shows "build_statement st s = Inr s' \<Longrightarrow> in_body T P N s \<Longrightarrow> cur_open s \<Longrightarrow> scoped (names (scope s)) st"
    "build_statements ss s = Inr s' \<Longrightarrow> in_body T P N s \<Longrightarrow> cur_open s \<Longrightarrow> scoped_list (names (scope s)) ss"
proof (induction st s and ss s arbitrary: s' T P N and s' T P N rule: build_statement_build_statements.induct)
  case (1 ds ss s)
  have pe: "\<not> pre_enter_scope s" using "1.prems"(2) by (simp add: in_body_def)
  obtain s1 s2 where r: "rfold build_var_declaration ds (enter s) = Inr s1" "build_statements ss s1 = Inr s2"
    using "1.prems"(1) pe by (auto simp: Let_def rbind_eq_Inr)
  note e = enter_body [OF "1.prems"(2,3)]
  have d: "in_body T P N s1" "cur_open s1"
    using declarations_declares [OF e r(1)] by (simp_all add: declares_def)
  have "names (scope (enter s)) = names (scope s)" by (simp add: enter_def scope_enter_def names_Cons)
  then have "names (scope s1) = names (scope s) \<union> var_id ` set ds"
    using declarations_names [OF r(1) e] by simp
  moreover have "scoped_list (names (scope s1)) ss" using "1.IH" r d pe by simp
  ultimately show ?case by simp
next
  case (3 e s)
  then show ?case using build_expr_names(1) by auto
next
  case (4 e th s)
  obtain s1 t f c s2 s3 where r: "build_expression e s = Inr s1" "begin_selection False s1 = Inr (t, f, c, s2)"
    "build_statement th (set_insert_point t s2) = Inr s3"
    using "4.prems"(1) by (auto simp: rbind_eq_Inr)
  note e1 = build_expr_evals(1) [OF r(1) "4.prems"(2,3)]
  note b = closesD [OF begin_selection_closes(1) [OF e1 r(2)]]
  note g = goesD [OF set_insert_point_body [OF b(1,2), of t]]
  have "scoped (names (scope (set_insert_point t s2))) th"
    by (rule "4.IH" [OF r(1,2) refl refl refl r(3) g(1,2)]) simp_all
  then show ?case
    using build_expr_names(1) [OF r(1) "4.prems"(2,3)] stable_names [OF stable_trans [OF evalsD(4) [OF e1] b(3)]]
    by (simp add: set_insert_point_def)
next
  case (5 e th el s)
  obtain s1 t f c s2 s3 s4 s5 where r: "build_expression e s = Inr s1" "begin_selection True s1 = Inr (t, f, c, s2)"
    "build_statement th (set_insert_point t s2) = Inr s3" "br_unless_terminated c s3 = Inr s4"
    "build_statement el (set_insert_point f s4) = Inr s5"
    using "5.prems"(1) by (auto simp: rbind_eq_Inr)
  note e1 = build_expr_evals(1) [OF r(1) "5.prems"(2,3)]
  note bs = begin_selection_closes [OF e1 r(2)]
  note b = closesD [OF bs(1)]
  let ?T = "{t, f, c} \<union> T" and ?P = "{t, f, c} \<union> P"
  have t: "t \<in> ?P" by simp
  note g = goesD [OF set_insert_point_body [OF b(1,2) t]]
  have th: "scoped (names (scope (set_insert_point t s2))) th"
    by (rule "5.IH"(1) [OF r(1,2) refl refl refl r(3) g(1,2)])
  note r3 = conjunct1 [OF build_statement_runs(1) [OF r(3) g(1,2)]]
  have cT: "c \<in> ?T" by simp
  note c4 = closesD [OF br_unless_terminated_closes [OF runsD(1) [OF r3] cT r(4)]]
  have fP: "f \<in> ?P - {t}" using bs(2) by auto
  note g4 = goesD [OF set_insert_point_body [OF c4(1,2) fP]]
  have el: "scoped (names (scope (set_insert_point f s4))) el"
    by (rule "5.IH"(2) [OF r(1,2) refl refl refl r(3,4,5) g4(1,2)])
  have n2: "names (scope s2) = names (scope s)" by (rule stable_names [OF stable_trans [OF evalsD(4) [OF e1] b(3)]])
  have "names (scope s4) = names (scope (set_insert_point t s2))"
    by (rule stable_names [OF stable_trans [OF runsD(2) [OF r3] c4(3)]])
  then show ?case using build_expr_names(1) [OF r(1) "5.prems"(2,3)] th el n2 by (simp add: set_insert_point_def)
next
  case (6 e body s)
  obtain b s1 s2 c s3 s4 where r: "begin_iteration s = Inr (b, s1)" "build_expression e s1 = Inr s2"
    "enter_loop s2 = Inr (c, s3)" "build_statement body s3 = Inr s4"
    using "6.prems"(1) by (auto simp: rbind_eq_Inr)
  note g1 = begin_iteration_goes(1) [OF "6.prems"(2,3) r(1)]
  note e2 = build_expr_evals(1) [OF r(2) goesD(1,2) [OF g1]]
  obtain t where t: "goes (insert c (insert t (insert b T))) (insert c P) N s2 s3" using enter_loop_goes(1) [OF e2 r(3)] by blast
  have "scoped (names (scope s3)) body" by (rule "6.IH" [OF r(1) refl r(2,3) refl r(4) goesD(1,2) [OF t]])
  moreover have "names (scope s1) = names (scope s)" by (rule stable_names [OF goesD(3) [OF g1]])
  moreover have "names (scope s3) = names (scope s1)" by (rule stable_names [OF stable_trans [OF evalsD(4) [OF e2] goesD(3) [OF t]]])
  ultimately show ?case using build_expr_names(1) [OF r(2) goesD(1,2) [OF g1]] by simp
next
  case (8 e s)
  obtain s1 where r: "build_expression e s = Inr s1" using "8.prems"(1) by (auto simp: rbind_eq_Inr)
  then show ?case using build_expr_names(1) [OF r "8.prems"(2,3)] by simp
next
  case (10 st ss s)
  obtain s1 d where r: "build_statement st s = Inr s1" "terminated s1 = Inr d" "(if d then Inr s1 else build_statements ss s1) = Inr s'"
    using "10.prems"(1) by (auto simp: rbind_eq_Inr)
  note r1 = build_statement_runs(1) [OF r(1) "10.prems"(2,3)]
  note ti = terminated_iff [OF runsD(1) [OF conjunct1 [OF r1]]]
  have "scoped_list (names (scope s)) ss" if "\<not> ends st"
  proof -
    have o: "cur_open s1" using r1 that by (simp add: finished_def)
    then have d: "\<not> d" using ti r(2) open_xor_sealed [OF o] by auto
    have "scoped_list (names (scope s1)) ss"
      by (rule "10.IH"(2) [OF r(1,2) d _ runsD(1) [OF conjunct1 [OF r1]] o]) (use r(3) d in simp)
    then show ?thesis using stable_names [OF runsD(2) [OF conjunct1 [OF r1]]] by simp
  qed
  then show ?case using "10.IH"(1) [OF r(1) "10.prems"(2,3)] by auto
qed auto

section \<open>Programs\<close>

lemma build_declaration_scoped:
  assumes top: "at_top s" and run: "build_declaration d s = Inr s'"
  shows "scoped_declarations (names (scope s)) [d]"
    "scoped_declarations (names (scope s')) ds \<Longrightarrow> scoped_declarations (names (scope s)) (d # ds)"
proof -
  have both: "scoped_declarations (names (scope s)) [d] \<and>
    (scoped_declarations (names (scope s')) ds \<longrightarrow> scoped_declarations (names (scope s)) (d # ds))"
  proof (cases d)
    case (VarDeclaration v)
    then have "names (scope s') = insert (var_id v) (names (scope s))" using build_global_names [OF top] run by simp
    then show ?thesis using VarDeclaration by simp
  next
    case (ASTFunDeclaration t nm ps body)
    obtain s1 s2 where r: "begin_function t nm ps s = Inr s1" "build_statement body s1 = Inr s2" "end_function s2 = Inr s'"
      using run ASTFunDeclaration by (auto simp: rbind_eq_Inr)
    obtain s0 e where b: "scope s0 = [Map.empty, e]" "names [e] = insert nm (names (scope s))"
      "names (scope s1) = names [e] \<union> param_id ` set ps" "declares {} {} {} s0 s1"
      using begin_function_declares [OF top r(1)] by blast
    have s1: "in_body {} {} {} s1" "cur_open s1" using b(4) by (simp_all add: declares_def)
    have "scoped (names (scope s1)) body" by (rule build_statement_scoped(1) [OF r(2) s1])
    moreover have "scope s' = [e]"
      using end_function_scope [OF conjunct1 [OF build_statement_runs(1) [OF r(2) s1]] r(3)] b(1,4) by (simp add: declares_def)
    ultimately show ?thesis using ASTFunDeclaration b(2,3) by simp
  qed
  then show "scoped_declarations (names (scope s)) [d]"
    "scoped_declarations (names (scope s')) ds \<Longrightarrow> scoped_declarations (names (scope s)) (d # ds)" by blast+
qed

lemma build_declarations_scoped:
  "rfold build_declaration ds s = Inr s' \<Longrightarrow> at_top s \<Longrightarrow> scoped_declarations (names (scope s)) ds"
proof (induction ds arbitrary: s)
  case (Cons d ds)
  obtain t where t: "build_declaration d s = Inr t" "rfold build_declaration ds t = Inr s'"
    using Cons.prems(1) by (auto simp: rbind_eq_Inr)
  show ?case by (rule build_declaration_scoped(2) [OF Cons.prems(2) t(1) Cons.IH [OF t(2) build_declaration_top [OF Cons.prems(2) t(1)]]])
qed simp

lemma compile_scoped:
  assumes "compile p = Inr m"
  shows "scoped_declarations library_names (declarations p)"
proof -
  obtain s s' where s: "builder_init = Inr s" "build_program p s = Inr s'"
    using assms by (auto simp: compile_def rbind_eq_Inr)
  have "names (scope s) = library_names" unfolding library_names_def by (rule builder_init_names [OF s(1)])
  then show ?thesis
    using build_declarations_scoped [OF s(2) [unfolded build_program_def] builder_init_top [OF s(1)]] by simp
qed

end
