(* ===== verification/Mem2Reg.thy ===== *)
theory Mem2Reg
  imports Ir_Values Dominators
begin

text \<open>
  The pass \<^verbatim>\<open>Mem2Reg\<close> of \<^verbatim>\<open>Mem2Reg.cpp\<close>: it places phi functions on the iterated dominance
  frontiers of the stores, renames along the dominator tree, and removes the scalar allocas.
\<close>

section \<open>State\<close>

text \<open>
  The module, \<^verbatim>\<open>l_val_\<close> of the phi functions (only \<^verbatim>\<open>set_lval\<close> initialises it), and the global
  map \<^verbatim>\<open>var_val_stack\<close>, whose vectors have their back at the end. \<^verbatim>\<open>std::set\<close> and \<^verbatim>\<open>std::map\<close>
  order pointers by their machine addresses, which the allocator of the library chooses:
  \<open>key\<close> is the machine address of an object.
\<close>

record mem2reg =
  m2_ir :: ir
  l_val :: "addr \<rightharpoonup> addr"
  var_val_stack :: "addr \<rightharpoonup> addr list"

definition in_order :: "(addr \<Rightarrow> nat) \<Rightarrow> addr set \<Rightarrow> addr list" where
  "in_order key A = sort_key key (sorted_list_of_set A)"

text \<open>\<^verbatim>\<open>IS_GLOBAL_VARIABLE\<close> and \<^verbatim>\<open>IS_GEP_INSTR\<close> of the address of a load or store.\<close>

definition is_promoted :: "addr \<Rightarrow> ir \<Rightarrow> bool result" where
  "is_promoted v m = rbind (get_val v m) (\<lambda>x.
     Inr (\<not> (case kind x of GlobalVariableV _ _ \<Rightarrow> True | InstructionV Getelementptr \<Rightarrow> True | _ \<Rightarrow> False)))"

text \<open>What \<open>k\<close> does with the promoted address of the store \<open>i\<close>; other instructions change nothing.\<close>

definition on_store :: "ir \<Rightarrow> addr \<Rightarrow> (addr \<Rightarrow> 's \<Rightarrow> 's result) \<Rightarrow> 's \<Rightarrow> 's result" where
  "on_store m i k s = rbind (get_val i m) (\<lambda>x.
     if kind x \<noteq> InstructionV Store then Inr s
     else rbind (deref_operand i 1 m) (\<lambda>v.
          rbind (is_promoted v m) (\<lambda>p. if p then k v s else Inr s)))"

section \<open>Placing phi functions\<close>

text \<open>Step 1: the variables that are stored to, and the blocks of the stores.\<close>

definition note_store :: "ir \<Rightarrow> addr \<Rightarrow> addr \<Rightarrow> addr set \<times> (addr \<Rightarrow> addr set) \<Rightarrow>
    (addr set \<times> (addr \<Rightarrow> addr set)) result" where
  "note_store m b i = on_store m i (\<lambda>v (live, blocks). Inr (insert v live, blocks(v := insert b (blocks v))))"

definition collect_stores :: "addr \<Rightarrow> ir \<Rightarrow> (addr set \<times> (addr \<Rightarrow> addr set)) result" where
  "collect_stores f m = rfold (\<lambda>b. rfold (note_store m b) (instr_list m b)) (block_list m f) ({}, \<lambda>_. {})"

text \<open>
  Step 2: a phi function for \<open>var\<close> in a block of the frontier that has none, which is then put
  on the work list. \<open>has_phi\<close> is \<^verbatim>\<open>bb_has_var_phi\<close>.
\<close>

record phi_state =
  ph_pass :: mem2reg
  has_phi :: "(addr \<times> addr) set"
  work_list :: "addr list"

definition place_phi :: "addr \<Rightarrow> addr \<Rightarrow> phi_state \<Rightarrow> phi_state result" where
  "place_phi var b s =
     (if (b, var) \<in> has_phi s then Inr s
      else rbind (get_val var (m2_ir (ph_pass s))) (\<lambda>x.
        case get_pointer_element_type (vtype x) of
          None \<Rightarrow> Inl NullDeref
        | Some t \<Rightarrow>
            let (phi, m) = create_phi t b (m2_ir (ph_pass s)) in
            Inr (s\<lparr>ph_pass := (ph_pass s)\<lparr>m2_ir := add_instr_begin b phi m, l_val := (l_val (ph_pass s))(phi \<mapsto> var)\<rparr>,
                   has_phi := insert (b, var) (has_phi s),
                   work_list := work_list s @ [b]\<rparr>)))"

text \<open>The loop over the positions of a work list that grows.\<close>

partial_function (option) phi_loop :: "(addr \<Rightarrow> nat) \<Rightarrow> dominators \<Rightarrow> addr \<Rightarrow> phi_state \<Rightarrow> phi_state outcome" where
  "phi_loop key d var s =
     (case work_list s of
        [] \<Rightarrow> Some (Inr s)
      | b # bs \<Rightarrow>
          obind (Some (rfold (place_phi var) (in_order key (get_dominance_frontier d (Some b))) (s\<lparr>work_list := bs\<rparr>)))
            (phi_loop key d var))"

definition generate_phi :: "(addr \<Rightarrow> nat) \<Rightarrow> dominators \<Rightarrow> addr \<Rightarrow> mem2reg \<Rightarrow> mem2reg outcome" where
  "generate_phi key d f p =
     obind (Some (collect_stores f (m2_ir p))) (\<lambda>(live, blocks).
     obind (ofold (\<lambda>var s. phi_loop key d var (s\<lparr>work_list := in_order key (blocks var)\<rparr>)) (in_order key live)
              \<lparr>ph_pass = p, has_phi = {}, work_list = []\<rparr>) (\<lambda>s. Some (Inr (ph_pass s))))"

section \<open>Renaming\<close>

definition push_val :: "addr \<Rightarrow> addr \<Rightarrow> mem2reg \<Rightarrow> mem2reg" where
  "push_val v a p = p\<lparr>var_val_stack := (var_val_stack p)(v \<mapsto> (case var_val_stack p v of None \<Rightarrow> [] | Some st \<Rightarrow> st) @ [a])\<rparr>"

text \<open>\<^verbatim>\<open>pop_back\<close> on \<^verbatim>\<open>var_val_stack[l_val]\<close>, which is undefined on an empty vector.\<close>

definition pop_val :: "addr \<Rightarrow> mem2reg \<Rightarrow> mem2reg result" where
  "pop_val v p = (case var_val_stack p v of
       None \<Rightarrow> Inl UndefinedBehaviour
     | Some st \<Rightarrow> if st = [] then Inl UndefinedBehaviour
         else Inr (p\<lparr>var_val_stack := (var_val_stack p)(v \<mapsto> butlast st)\<rparr>))"

text \<open>What \<open>k\<close> does with the variable of the phi function \<open>i\<close>; other instructions change nothing.\<close>

definition phi_lval :: "addr \<Rightarrow> mem2reg \<Rightarrow> addr result" where
  "phi_lval i p = (case l_val p i of None \<Rightarrow> Inl UndefinedBehaviour | Some v \<Rightarrow> Inr v)"

definition on_phi :: "addr \<Rightarrow> (addr \<Rightarrow> mem2reg \<Rightarrow> mem2reg result) \<Rightarrow> mem2reg \<Rightarrow> mem2reg result" where
  "on_phi i k p = rbind (get_val i (m2_ir p)) (\<lambda>x.
     if kind x \<noteq> InstructionV Phi then Inr p else rbind (phi_lval i p) (\<lambda>v. k v p))"

text \<open>Step 3: the phi functions are the latest values.\<close>

definition push_phi :: "addr \<Rightarrow> mem2reg \<Rightarrow> mem2reg result" where
  "push_phi i = on_phi i (\<lambda>v p. Inr (push_val v i p))"

text \<open>Steps 4 and 5: a load is replaced by the latest value, a store makes one. Both wait for their deletion.\<close>

definition rename_load :: "addr \<Rightarrow> mem2reg \<times> addr list \<Rightarrow> (mem2reg \<times> addr list) outcome" where
  "rename_load i = (\<lambda>(p, del).
     obind (Some (deref_operand i 0 (m2_ir p))) (\<lambda>v.
     obind (Some (is_promoted v (m2_ir p))) (\<lambda>pr.
     if \<not> pr then Some (Inr (p, del))
     else case var_val_stack p v of
         None \<Rightarrow> Some (Inr (p, del))
       | Some st \<Rightarrow>
           if st = [] then Some (Inl UndefinedBehaviour)
           else obind (replace_all_use_with i (last st) (m2_ir p)) (\<lambda>m. Some (Inr (p\<lparr>m2_ir := m\<rparr>, del @ [i]))))))"

definition rename_store :: "addr \<Rightarrow> mem2reg \<times> addr list \<Rightarrow> (mem2reg \<times> addr list) result" where
  "rename_store i = (\<lambda>(p, del).
     rbind (deref_operand i 1 (m2_ir p)) (\<lambda>v.
     rbind (deref_operand i 0 (m2_ir p)) (\<lambda>r.
     rbind (is_promoted v (m2_ir p)) (\<lambda>pr. Inr (if pr then (push_val v r p, del @ [i]) else (p, del))))))"

definition rename_instr :: "addr \<Rightarrow> mem2reg \<times> addr list \<Rightarrow> (mem2reg \<times> addr list) outcome" where
  "rename_instr i s =
     obind (Some (get_val i (m2_ir (fst s)))) (\<lambda>x.
       if kind x = InstructionV Load then rename_load i s
       else if kind x = InstructionV Store then Some (rename_store i s)
       else Some (Inr s))"

text \<open>Step 6: the operands of the phi functions of a successor.\<close>

definition fill_phi :: "addr \<Rightarrow> addr \<Rightarrow> mem2reg \<Rightarrow> mem2reg result" where
  "fill_phi b i = on_phi i (\<lambda>v p. case var_val_stack p v of
       None \<Rightarrow> Inr p
     | Some st \<Rightarrow>
         if st = [] then Inl AssertFailed
         else rbind (add_phi_pair_operand i (last st) b (m2_ir p)) (\<lambda>m. Inr (p\<lparr>m2_ir := m\<rparr>)))"

definition fill_phis :: "addr \<Rightarrow> mem2reg \<Rightarrow> mem2reg result" where
  "fill_phis b p = rfold (\<lambda>c p. rfold (fill_phi b) (instr_list (m2_ir p) c) p) (succ_list (m2_ir p) b) p"

text \<open>Step 8: what the block has pushed is popped.\<close>

definition pop_instr :: "addr \<Rightarrow> mem2reg \<Rightarrow> mem2reg result" where
  "pop_instr i p = rbind (on_store (m2_ir p) i pop_val p)
     (on_phi i (\<lambda>v p. if var_val_stack p v = None then Inr p else pop_val v p))"

definition erase_all :: "addr \<Rightarrow> addr list \<Rightarrow> mem2reg \<Rightarrow> mem2reg result" where
  "erase_all b del p = rbind (rfold (erase_instr b) del (m2_ir p)) (\<lambda>m. Inr (p\<lparr>m2_ir := m\<rparr>))"

text \<open>The work on a block before and after its children in the dominator tree.\<close>

definition enter_block :: "addr \<Rightarrow> mem2reg \<Rightarrow> (mem2reg \<times> addr list) outcome" where
  "enter_block b p =
     obind (Some (rfold push_phi (instr_list (m2_ir p) b) p)) (\<lambda>p.
     obind (ofold rename_instr (instr_list (m2_ir p) b) (p, [])) (\<lambda>(p, del).
     obind (Some (fill_phis b p)) (\<lambda>p. Some (Inr (p, del)))))"

definition leave_block :: "addr \<Rightarrow> addr list \<Rightarrow> mem2reg \<Rightarrow> mem2reg result" where
  "leave_block b del p = rbind (rfold pop_instr (instr_list (m2_ir p) b) p) (erase_all b del)"

partial_function (option) re_name :: "(addr \<Rightarrow> nat) \<Rightarrow> dominators \<Rightarrow> addr \<Rightarrow> mem2reg \<Rightarrow> mem2reg outcome" where
  "re_name key d b p =
     obind (enter_block b p) (\<lambda>(p, del).
     obind (ofold (re_name key d) (in_order key (get_dom_tree_succ_blocks d (Some b))) p) (\<lambda>p.
     Some (leave_block b del p)))"

section \<open>Removing allocas and the pass\<close>

definition is_scalar_alloca :: "addr \<Rightarrow> ir \<Rightarrow> bool result" where
  "is_scalar_alloca i m = rbind (get_val i m) (\<lambda>x.
     if kind x \<noteq> InstructionV Alloca then Inr False
     else case get_pointer_element_type (vtype x) of
         None \<Rightarrow> Inl NullDeref
       | Some t \<Rightarrow> Inr (is_integer_type t \<or> is_float_type t))"

definition remove_alloca_block :: "addr \<Rightarrow> ir \<Rightarrow> ir result" where
  "remove_alloca_block b m =
     rbind (rfold (\<lambda>i del. rbind (is_scalar_alloca i m) (\<lambda>a. Inr (if a then del @ [i] else del))) (instr_list m b) [])
       (\<lambda>del. rfold (erase_instr b) del m)"

definition remove_alloca :: "addr \<Rightarrow> mem2reg \<Rightarrow> mem2reg result" where
  "remove_alloca f p = rbind (rfold remove_alloca_block (block_list (m2_ir p) f) (m2_ir p)) (\<lambda>m. Inr (p\<lparr>m2_ir := m\<rparr>))"

definition mem2reg_function :: "(addr \<Rightarrow> nat) \<Rightarrow> dominators \<Rightarrow> addr \<Rightarrow> mem2reg \<Rightarrow> mem2reg outcome" where
  "mem2reg_function key d f p =
     obind (if block_list (m2_ir p) f = [] then Some (Inr p)
            else obind (generate_phi key d f p) (\<lambda>p.
                 obind (Some (get_entry_block (cfg_of (m2_ir p) f))) (\<lambda>b. re_name key d b p)))
       (\<lambda>p. Some (remove_alloca f p))"

definition run_mem2reg :: "(addr \<Rightarrow> nat) \<Rightarrow> ir \<Rightarrow> ir outcome" where
  "run_mem2reg key m =
     obind (run_dominators (map (cfg_of m) (function_list m))) (\<lambda>d.
     obind (ofold (mem2reg_function key d) (function_list m) \<lparr>m2_ir = m, l_val = Map.empty, var_val_stack = Map.empty\<rparr>)
       (\<lambda>p. Some (Inr (m2_ir p))))"

end
