(* ===== verification/Compiler_Properties.thy ===== *)
theory Compiler_Properties
  imports Dead_Keeps Builder_Scoping Dom_Properties Mem2Reg Ir_Text
begin

text \<open>
  The properties of the builder and of the builder followed by the passes, with the program
  \<^verbatim>\<open>void f(void) while (1) if (1) return; else return;\<close> as the example.
\<close>

section \<open>The example\<close>

definition one :: "f32 ASTExpression" where
  "one = ASTSimpleExpression (ASTAdditiveExpression None (ASTTerm None (FactorNum (ASTNumInt 1)))) None"

definition endless :: "f32 ASTProgram" where
  "endless = ASTProgram [ASTFunDeclaration TYPE_VOID ''f'' []
     (ASTIterationStmt one (ASTSelectionStmt one (ASTReturnStmt None) (Some (ASTReturnStmt None))))]"

lemmas module_eval = compile_def builder_init_def library_def builder_new_def ir_init_def create_function_def alloc_def
  Let_def new_val_def push_name_def scope_push_def enter_def leave_def scope_enter_def scope_exit_def const_cache_init_def
  build_program_def begin_function_def end_function_def return_ty_def param_ty_def new_block_def create_basic_block_def
  set_cfg_def add_basic_block_def cfg_of_def set_insert_point_def terminated_def get_terminator_def get_val_def upd_val_def
  return_zero_def fun_return_type_def

lemmas code_eval = b_void_ret_def emit_def create_void_ret_def create_inst_def new_instruction_def add_instruction_def
  isTerminator_def begin_iteration_def br_unless_terminated_def b_br_def create_br_def update_edges_def br_edges_def
  add_pre_basic_block_def add_succ_basic_block_def set_operand_def add_use_def build_num_def CONST_INT_def
  ConstantInt_get_def new_constant_def set_tmp_def get_tmp_def enter_loop_def begin_selection_def condition_def type_of_def
  b_icmp_def create_icmp_def create_cmp_def b_cond_br_def create_cond_br_def cond_br_edges_def is_integer_type_def
  is_void_type_def

lemma endless_compiles:
  "\<exists>m. compile endless = Inr m \<and> function_list m = [0, 1, 3, 5, 6] \<and>
     block_list m = (\<lambda>_. [])(6 := [7, 8, 11, 12, 16, 17, 18]) \<and>
     pre_list m = (\<lambda>_. [])(7 := [], 11 := [8], 12 := [8], 18 := [], 16 := [11], 17 := [11], 8 := [7, 18]) \<and>
     succ_list m = (\<lambda>_. [])(7 := [8], 12 := [], 8 := [12, 11], 16 := [], 17 := [], 11 := [17, 16], 18 := [8])"
  by (simp add: module_eval code_eval one_def endless_def del: One_nat_def)

definition literal :: "i32 \<Rightarrow> f32 ASTExpression" where
  "literal k = ASTSimpleExpression (ASTAdditiveExpression None (ASTTerm None (FactorNum (ASTNumInt k)))) None"

definition assign :: "string \<Rightarrow> i32 \<Rightarrow> f32 ASTStatement" where
  "assign x k = ASTExpressionStmt (Some (ASTAssignExpression (ASTVar x None) (literal k)))"

definition read_var :: "string \<Rightarrow> f32 ASTExpression" where
  "read_var x = ASTSimpleExpression (ASTAdditiveExpression None (ASTTerm None (FactorVar (ASTVar x None)))) None"

text \<open>\<^verbatim>\<open>int f(int a) { int x; x = a; output(x); return x; }\<close>\<close>

definition copies :: "f32 ASTProgram" where
  "copies = ASTProgram [ASTFunDeclaration TYPE_INT ''f'' [ASTParam TYPE_INT ''a'' False]
     (ASTCompoundStmt [ASTVarDeclaration TYPE_INT ''x'' None]
       [ASTExpressionStmt (Some (ASTAssignExpression (ASTVar ''x'' None) (read_var ''a''))),
        ASTExpressionStmt (Some (ASTSimpleExpression (ASTAdditiveExpression None
          (ASTTerm None (FactorCall ''output'' [read_var ''x'']))) None)),
        ASTReturnStmt (Some (read_var ''x''))])]"

lemmas local_eval = literal_def assign_def build_var_declaration_def declared_type_def in_global_def scalar_type_def b_alloca_def
  create_alloca_def drop_block_def build_assign_def pointee_def get_pointer_element_type_def build_plain_var_def b_store_def
  create_store_def

lemmas call_eval = build_return_def b_load_def create_load_def b_ret_def create_ret_def build_argument_def b_call_def create_call_def
  convert_arg_def is_pointer_type_def

lemma copies_compiles:
  "\<exists>m. compile copies = Inr m \<and> seq_cnt m 6 = 0 \<and> named_values m 6 = [7, 8, 9, 11, 12, 14, 16] \<and>
     block_list m 6 = [8] \<and> instr_list m 8 = [9, 10, 11, 12, 13, 14, 15, 16, 17] \<and>
     (\<forall>i \<in> {7, 9, 11, 12, 14, 16}. map_option name (heap m i) = Some []) \<and> map_option name (heap m 8) = Some ''label_entry'' \<and>
     (\<forall>i \<in> {10, 13, 15, 17}. heap m i \<noteq> None)"
  by (simp add: module_eval code_eval local_eval call_eval copies_def read_var_def named_values_def is_void_def del: One_nat_def)

section \<open>What the builder makes\<close>

text \<open>
  C3. Every module that the builder makes of a program is well built: the lists of uses agree
  with the operands, the graph of every function is well formed with an entry that nothing
  branches to, every instruction is in one block, operands are older than their user and of the
  same function. Every block ends with its only terminator, and its list of successors holds the
  targets of that terminator.
\<close>

theorem compile_well_built:
  assumes "compile p = Inr m"
  shows "well_built m \<and> all_sealed m"
  using compile_top [OF assms] by blast

theorem compile_well_built_witness: "\<exists>m. compile endless = Inr m \<and> well_built m \<and> all_sealed m"
  using endless_compiles compile_well_built by blast

text \<open>
  C7. The purity analysis and dead-code elimination run to their end on every module that the
  builder makes. What is left is well built again, with every block ended by its only terminator,
  and holds the needed instructions of every function in their order, the terminator of every block
  among them.
\<close>

theorem compile_dead_code:
  assumes "compile p = Inr m"
  shows "\<exists>fi m' n. run_func_info m func_info_init = Some (Inr fi) \<and> run_dead_code m = Some (Inr (m', n)) \<and>
    well_built m' \<and> all_sealed m' \<and>
    (\<forall>f \<in> set (function_list m). listed m' f = filter (needed m fi f) (listed m f) \<and>
       (\<forall>b \<in> set (block_list m f). last (instr_list m b) \<in> set (listed m' f)))"
proof -
  have wb: "well_built m" "all_sealed m" using compile_top [OF assms] by blast+
  obtain fi m' n where r: "run_func_info m func_info_init = Some (Inr fi)" "run_dead_code m = Some (Inr (m', n))"
      "well_built m'" "all_sealed m'"
    and l: "\<forall>f \<in> set (function_list m). listed m' f = filter (needed m fi f) (listed m f)"
    using dead_code_keeps [OF wb(1)] wb(2) by blast
  have "last (instr_list m b) \<in> set (listed m' f)" if f: "f \<in> set (function_list m)" and b: "b \<in> set (block_list m f)" for f b
  proof -
    have t: "last (instr_list m b) \<in> set (instr_list m b)" "is_term m (last (instr_list m b))"
      using sealed_last wb(2) b by (auto simp: all_sealed_def)
    then have in_f: "last (instr_list m b) \<in> set (listed m f)" using b by (auto simp: set_listed)
    then show ?thesis using l f terminator_needed [OF t(2) in_f] by simp
  qed
  then show ?thesis using r l by blast
qed

theorem compile_dead_code_witness:
  "\<exists>m m' n. compile endless = Inr m \<and> run_dead_code m = Some (Inr (m', n)) \<and> well_built m' \<and> all_sealed m'"
  using endless_compiles compile_dead_code by metis

text \<open>
  C12. The builder accepts only programs in which every variable and every called function in
  the code that it visits is declared before its use, in the function, in an enclosing block, as a
  parameter or globally, or is a function of the library. Statements that follow a return in the
  same list are not visited and may use anything.
\<close>

theorem compile_accepts_scoped:
  assumes "compile p = Inr m"
  shows "scoped_declarations library_names (declarations p)"
  by (rule compile_scoped [OF assms])

theorem compile_accepts_scoped_witness: "scoped_declarations library_names (declarations copies)"
  using copies_compiles compile_accepts_scoped by blast

theorem set_instr_name_distinct_witness:
  "\<exists>m m'. compile copies = Inr m \<and> set_instr_name 6 m = Inr m' \<and> name (the (heap m' 8)) = ''label_entry'' \<and>
     name (the (heap m' 7)) \<noteq> name (the (heap m' 9)) \<and> seq_cnt m' 6 = 6"
proof -
  obtain m where m: "compile copies = Inr m" "seq_cnt m 6 = 0" "named_values m 6 = [7, 8, 9, 11, 12, 14, 16]"
    "block_list m 6 = [8]" "instr_list m 8 = [9, 10, 11, 12, 13, 14, 15, 16, 17]"
    and n: "\<forall>i \<in> {7, 9, 11, 12, 14, 16}. map_option name (heap m i) = Some []" "map_option name (heap m 8) = Some ''label_entry''"
    "\<forall>i \<in> {10, 13, 15, 17}. heap m i \<noteq> None"
    using copies_compiles by blast
  have new: "nameless m (set (named_values m 6)) = {7, 9, 11, 12, 14, 16}"
    using n by (auto simp: nameless_def m(3))
  have none: "\<not> name_number [] k" "\<not> name_number ''label_entry'' k" for k
    using name_number_last [of "[]" k] name_number_last [of "''label_entry''" k] by (auto simp: decimal_digit_def)
  have "named_ok m 6"
    unfolding named_ok_def new using n none by (auto simp: m(3-5) inj_on_def)
  from set_instr_name_distinct [OF this] obtain m' where m': "set_instr_name 6 m = Inr m'"
    "inj_on (\<lambda>a. name (the (heap m' a))) (set (named_values m 6))" "\<forall>a. a \<notin> nameless m (set (named_values m 6)) \<longrightarrow> heap m' a = heap m a"
    "seq_cnt m' 6 = seq_cnt m 6 + card (nameless m (set (named_values m 6)))" by blast
  have "name (the (heap m' 7)) \<noteq> name (the (heap m' 9))"
    using inj_onD [OF m'(2), of 7 9] by (auto simp: m(3))
  moreover have "heap m' 8 = heap m 8" using m'(3) by (auto simp: new)
  moreover have "seq_cnt m' 6 = 6" using m'(4) m(2) unfolding new by simp
  ultimately show ?thesis using m(1) m'(1) n(2) by auto
qed

section \<open>The builder and the dominator pass\<close>

lemma compile_pass_entry:
  assumes "compile p = Inr m" "block_list m f \<noteq> []"
  shows "cfg_wf (cfg_of m f)" "get_entry_block (cfg_of m f) = Inr (hd (block_list m f))"
    "pre_bbs (cfg_of m f) (hd (block_list m f)) = []"
proof -
  have wb: "well_built m" using compile_top [OF assms(1)] by blast
  show "cfg_wf (cfg_of m f)" by (rule graph_okD(4) [OF well_builtD(2) [OF wb]])
  show e: "get_entry_block (cfg_of m f) = Inr (hd (block_list m f))"
    using assms(2) by (cases "block_list m f") (simp_all add: get_entry_block_def cfg_of_def)
  show "pre_bbs (cfg_of m f) (hd (block_list m f)) = []" by (rule entry_no_preds(1) [OF wb e])
qed

lemma endless_unsafe:
  assumes "block_list m = (\<lambda>_. [])(6 := [7, 8, 11, 12, 16, 17, 18])"
    "pre_list m = (\<lambda>_. [])(7 := [], 11 := [8], 12 := [8], 18 := [], 16 := [11], 17 := [11], 8 := [7, 18])"
    "succ_list m = (\<lambda>_. [])(7 := [8], 12 := [], 8 := [12, 11], 16 := [], 17 := [], 11 := [17, 16], 18 := [8])"
  shows "\<not> frontier_safe (cfg_of m 6) 7"
proof
  assume safe: "frontier_safe (cfg_of m 6) 7"
  have "edge (cfg_of m 6) 7 8" by (simp add: edge_def cfg_of_def assms)
  then have "(edge (cfg_of m 6))\<^sup>*\<^sup>* 7 8" by (rule r_into_rtranclp)
  then have r: "(edge (cfg_of m 6))\<^sup>*\<^sup>* 7 18" using safe by (simp add: frontier_safe_def cfg_of_def assms)
  have "y \<in> {7, 8, 11, 12, 16, 17}" if "x \<in> {7, 8, 11, 12, 16, 17}" "edge (cfg_of m 6) x y" for x y
    using that by (auto simp: edge_def cfg_of_def assms split: if_splits)
  from rtranclp_closed_set [OF this r] show False by simp
qed

text \<open>
  On a function that the builder made, the dominator pass returns exactly when no reachable block
  with two or more predecessors has an unreachable one.
\<close>

lemma compile_dominators_returns_iff:
  assumes "compile p = Inr m" "block_list m f \<noteq> []" "idom d None = None"
  shows "run_function (cfg_of m f) d \<noteq> None \<longleftrightarrow> frontier_safe (cfg_of m f) (hd (block_list m f))"
  by (rule run_function_iff [OF compile_pass_entry [OF assms(1,2)] assms(3)])


section \<open>Scopes and constants\<close>

text \<open>
  C39. A block that enters a scope, declares names and exits leaves every name with the value it
  had. Inside, the first declaration of a name in the block wins and the other names are those
  of the enclosing scopes.
\<close>

theorem block_scoping:
  "\<exists>s1. scopes.pushes kvs (scope_enter s) = Inr s1 \<and> scope_exit s1 = Inr s \<and>
     scope_find j s1 = (case map_of kvs j of Some v \<Rightarrow> Some v | None \<Rightarrow> scope_find j s)"
  by (rule scopes.block_restores)

text \<open>
  Integer constants are unique: two requests give the same address exactly when they ask for
  the same number.
\<close>

theorem constants_interned:
  assumes "cache_ok s" "ConstantInt_get j s = (p, s1)" "ConstantInt_get k s1 = (q, s2)"
  shows "p = q \<longleftrightarrow> j = k"
  using ints.get_after [of s j p s1 k q s2] assms by simp

lemma empty_cache_ok: "cache_ok (ir_init, const_cache_init)"
  by (simp add: cache_ok_def ir_init_def const_cache_init_def)

theorem constants_interned_witness:
  "\<exists>p q s1 s2. ConstantInt_get 7 (ir_init, const_cache_init) = (p, s1) \<and> ConstantInt_get 8 s1 = (q, s2) \<and> p \<noteq> q"
proof -
  obtain p s1 q s2 where r: "ConstantInt_get 7 (ir_init, const_cache_init) = (p, s1)" "ConstantInt_get 8 s1 = (q, s2)"
    by (metis surj_pair)
  show ?thesis using constants_interned [OF empty_cache_ok r] r by auto
qed

end
