(* ===== verification/Mem2Reg_Phi.thy ===== *)
theory Mem2Reg_Phi
  imports Mem2Reg Worklist Ir_Uses
begin

text \<open>
  \<^verbatim>\<open>generate_phi\<close> returns, and it puts one phi function for a variable into each block of the
  iterated dominance frontier of the blocks that store to the variable, and into no other.
\<close>

section \<open>Stores\<close>

text \<open>The promoted variable that an instruction stores to.\<close>

definition stored_var :: "ir \<Rightarrow> addr \<Rightarrow> addr option" where
  "stored_var m i = (case heap m i of None \<Rightarrow> None | Some x \<Rightarrow>
     if kind x \<noteq> InstructionV Store then None
     else case operand_at m i 1 of None \<Rightarrow> None | Some v \<Rightarrow> if is_promoted v m = Inr True then Some v else None)"

definition stores_to :: "ir \<Rightarrow> addr \<Rightarrow> addr \<Rightarrow> bool" where
  "stores_to m b v \<longleftrightarrow> (\<exists>i \<in> set (instr_list m b). stored_var m i = Some v)"

text \<open>Listed instructions exist, and a store has an address of a pointer type.\<close>

definition stores_ok :: "ir \<Rightarrow> addr \<Rightarrow> bool" where
  "stores_ok m b \<longleftrightarrow> (\<forall>i \<in> set (instr_list m b). \<exists>x. heap m i = Some x \<and> (kind x = InstructionV Store \<longrightarrow>
     (\<exists>v y t. operand_at m i 1 = Some v \<and> heap m v = Some y \<and> vtype y = PointerTy t)))"

lemma stores_okE:
  assumes "stores_ok m b" "i \<in> set (instr_list m b)"
  obtains x where "heap m i = Some x"
    "kind x = InstructionV Store \<Longrightarrow> \<exists>v y t. operand_at m i 1 = Some v \<and> heap m v = Some y \<and> vtype y = PointerTy t"
  using assms unfolding stores_ok_def by blast

lemma in_order [simp]: "finite A \<Longrightarrow> set (in_order key A) = A" "distinct (in_order key A)"
  by (simp_all add: in_order_def)

lemma on_store_eq:
  assumes "stores_ok m b" "i \<in> set (instr_list m b)"
  shows "on_store m i k s = (case stored_var m i of None \<Rightarrow> Inr s | Some v \<Rightarrow> k v s)"
proof -
  obtain x where x: "heap m i = Some x"
    "kind x = InstructionV Store \<Longrightarrow> \<exists>v y t. operand_at m i 1 = Some v \<and> heap m v = Some y \<and> vtype y = PointerTy t"
    using stores_okE [OF assms] by blast
  show ?thesis
  proof (cases "kind x = InstructionV Store")
    case True
    then obtain v y where v: "operand_at m i 1 = Some v" "heap m v = Some y" using x(2) by blast
    then have "deref_operand i 1 m = Inr v"
      using x(1) by (simp add: deref_operand_def get_operand_def get_val_def operand_at_def split: if_splits)
    then show ?thesis
      using True v x(1) by (simp add: on_store_def get_val_def is_promoted_def stored_var_def)
  qed (use x(1) in \<open>simp add: on_store_def get_val_def stored_var_def\<close>)
qed

lemma note_stores:
  assumes "stores_ok m b" "set is \<subseteq> set (instr_list m b)"
  shows "rfold (note_store m b) is (live, blocks) =
    Inr (live \<union> {v. \<exists>i \<in> set is. stored_var m i = Some v},
         \<lambda>v. if \<exists>i \<in> set is. stored_var m i = Some v then insert b (blocks v) else blocks v)"
  using assms(2)
proof (induction "is" arbitrary: live blocks)
  case (Cons i "is")
  have i: "i \<in> set (instr_list m b)" "set is \<subseteq> set (instr_list m b)" using Cons.prems by auto
  show ?case
  proof (cases "stored_var m i")
    case None
    then have "note_store m b i (live, blocks) = Inr (live, blocks)"
      by (simp add: note_store_def on_store_eq [OF assms(1) i(1)])
    then show ?thesis using Cons.IH [OF i(2), of live blocks] None by simp
  next
    case (Some v)
    then have n: "note_store m b i (live, blocks) = Inr (insert v live, blocks(v := insert b (blocks v)))"
      by (simp add: note_store_def on_store_eq [OF assms(1) i(1)])
    show ?thesis unfolding rfold.simps n rbind_Inr Cons.IH [OF i(2)] using Some by (auto simp: fun_eq_iff)
  qed
qed simp

lemma collect_stores_spec:
  assumes "\<And>b. b \<in> set (block_list m f) \<Longrightarrow> stores_ok m b"
  shows "collect_stores f m = Inr ({v. \<exists>b \<in> set (block_list m f). stores_to m b v},
    \<lambda>v. {b \<in> set (block_list m f). stores_to m b v})"
proof -
  have "rfold (\<lambda>b. rfold (note_store m b) (instr_list m b)) bs (live, blocks) =
      Inr (live \<union> {v. \<exists>b \<in> set bs. stores_to m b v}, \<lambda>v. blocks v \<union> {b \<in> set bs. stores_to m b v})"
    if "set bs \<subseteq> set (block_list m f)" for bs live blocks
    using that
  proof (induction bs arbitrary: live blocks)
    case (Cons b bs)
    have b: "stores_ok m b" "set bs \<subseteq> set (block_list m f)" using Cons.prems assms by auto
    show ?case
      unfolding rfold.simps note_stores [OF b(1) subset_refl] rbind_Inr Cons.IH [OF b(2)]
      by (auto simp: fun_eq_iff stores_to_def)
  qed simp
  from this [OF subset_refl, of "{}" "\<lambda>_. {}"] show ?thesis by (simp add: collect_stores_def)
qed

section \<open>The phi functions of a block\<close>

text \<open>
  The module with new phi functions in front of the blocks: one in block \<open>b\<close> for each variable
  \<open>v\<close> with \<open>(b, v) \<in> H\<close>, without operands. Nothing else has changed.
\<close>

definition new_phi :: "mem2reg \<Rightarrow> mem2reg \<Rightarrow> addr \<Rightarrow> addr \<Rightarrow> bool" where
  "new_phi p p' b i \<longleftrightarrow> heap (m2_ir p) i = None \<and> (\<exists>v y t. l_val p' i = Some v \<and> heap (m2_ir p) v = Some y \<and>
     vtype y = PointerTy t \<and> heap (m2_ir p') i = Some (new_val t [] (InstructionV Phi) 0 (Some b)))"

definition block_phis :: "(addr \<times> addr) set \<Rightarrow> mem2reg \<Rightarrow> mem2reg \<Rightarrow> addr \<Rightarrow> addr list \<Rightarrow> bool" where
  "block_phis H p p' b phis \<longleftrightarrow> instr_list (m2_ir p') b = phis @ instr_list (m2_ir p) b \<and>
     distinct (map (l_val p') phis) \<and> l_val p' ` set phis = Some ` {v. (b, v) \<in> H} \<and>
     (\<forall>i \<in> set phis. new_phi p p' b i)"

definition phis_placed :: "(addr \<times> addr) set \<Rightarrow> mem2reg \<Rightarrow> mem2reg \<Rightarrow> bool" where
  "phis_placed H p p' \<longleftrightarrow>
     (\<forall>b. \<exists>phis. block_phis H p p' b phis) \<and>
     (\<forall>a x. heap (m2_ir p) a = Some x \<longrightarrow> heap (m2_ir p') a = Some x) \<and>
     (\<forall>a. heap (m2_ir p') a \<noteq> None \<longrightarrow> a < next_addr (m2_ir p')) \<and> next_addr (m2_ir p) \<le> next_addr (m2_ir p') \<and>
     (\<forall>a. a < next_addr (m2_ir p) \<longrightarrow> l_val p' a = l_val p a) \<and>
     var_val_stack p' = var_val_stack p \<and>
     (\<exists>h n l. m2_ir p' = (m2_ir p)\<lparr>heap := h, next_addr := n, instr_list := l\<rparr>)"

lemma phis_placedD:
  assumes "phis_placed H p p'"
  shows "\<exists>phis. block_phis H p p' b phis"
    "heap (m2_ir p) a = Some x \<Longrightarrow> heap (m2_ir p') a = Some x"
    "heap (m2_ir p') a \<noteq> None \<Longrightarrow> a < next_addr (m2_ir p')" "next_addr (m2_ir p) \<le> next_addr (m2_ir p')"
    "a < next_addr (m2_ir p) \<Longrightarrow> l_val p' a = l_val p a" "var_val_stack p' = var_val_stack p"
    "\<exists>h n l. m2_ir p' = (m2_ir p)\<lparr>heap := h, next_addr := n, instr_list := l\<rparr>"
  using assms unfolding phis_placed_def by blast+

lemma phis_placed_init:
  assumes "\<forall>a. heap (m2_ir p) a \<noteq> None \<longrightarrow> a < next_addr (m2_ir p)"
  shows "phis_placed {} p p"
proof -
  have "m2_ir p = (m2_ir p)\<lparr>heap := heap (m2_ir p), next_addr := next_addr (m2_ir p), instr_list := instr_list (m2_ir p)\<rparr>"
    by simp
  moreover have "block_phis {} p p b []" for b by (simp add: block_phis_def)
  ultimately show ?thesis unfolding phis_placed_def using assms by blast
qed

lemma block_phis_cons:
  assumes phis: "block_phis H p q c phis" and fresh: "heap (m2_ir q) i = None" "heap (m2_ir p) i = None" "(b, var) \<notin> H"
    and var: "heap (m2_ir p) var = Some y" "vtype y = PointerTy t"
    and q': "heap (m2_ir q') = (heap (m2_ir q))(i \<mapsto> new_val t [] (InstructionV Phi) 0 (Some b))"
    "instr_list (m2_ir q') = (instr_list (m2_ir q))(b := i # instr_list (m2_ir q) b)" "l_val q' = (l_val q)(i \<mapsto> var)"
  shows "\<exists>phis. block_phis (insert (b, var) H) p q' c phis"
proof -
  have i: "j \<noteq> i" if "j \<in> set phis" for j
    using that phis fresh(1) by (auto simp: block_phis_def new_phi_def)
  have l: "map (l_val q') phis = map (l_val q) phis" "l_val q' ` set phis = l_val q ` set phis"
    using i by (simp_all add: q'(3))
  have old: "new_phi p q' c j" if "j \<in> set phis" for j
    using that phis i [OF that] by (simp add: block_phis_def new_phi_def q')
  show ?thesis
  proof (cases "c = b")
    case True
    have "Some var \<notin> l_val q ` set phis" using phis fresh(3) True by (auto simp: block_phis_def)
    then have "distinct (map (l_val q') (i # phis))"
      unfolding list.map(2) distinct.simps(2) list.set_map l using phis by (simp add: q'(3) block_phis_def)
    moreover have "l_val q' ` set (i # phis) = Some ` {v. (c, v) \<in> insert (b, var) H}"
    proof -
      have "l_val q' ` set (i # phis) = insert (Some var) (l_val q ` set phis)"
        unfolding list.set(2) image_insert l(2) by (simp add: q'(3))
      then show ?thesis using phis True by (auto simp: block_phis_def)
    qed
    moreover have "new_phi p q' c i" using fresh(2) var True by (simp add: new_phi_def q')
    ultimately have "block_phis (insert (b, var) H) p q' c (i # phis)"
      unfolding block_phis_def using True phis old by (simp add: q'(2) block_phis_def)
    then show ?thesis by blast
  next
    case False
    then have "block_phis (insert (b, var) H) p q' c phis"
      unfolding block_phis_def l using phis old by (auto simp: q'(2) block_phis_def)
    then show ?thesis by blast
  qed
qed

lemma place_phi_spec:
  assumes placed: "phis_placed (has_phi s) p (ph_pass s)"
    and var: "heap (m2_ir p) var = Some y" "vtype y = PointerTy t"
  shows "\<exists>s'. place_phi var b s = Inr s' \<and> phis_placed (has_phi s') p (ph_pass s') \<and>
    has_phi s' = insert (b, var) (has_phi s) \<and>
    work_list s' = work_list s @ (if (b, var) \<in> has_phi s then [] else [b])"
proof (cases "(b, var) \<in> has_phi s")
  case True
  then show ?thesis using placed by (auto simp: place_phi_def insert_absorb)
next
  case False
  note P = phis_placedD [OF placed]
  define q where "q = ph_pass s"
  define i where "i = next_addr (m2_ir q)"
  define q' where "q' = q\<lparr>m2_ir := add_instr_begin b i (snd (create_phi t b (m2_ir q))), l_val := (l_val q)(i \<mapsto> var)\<rparr>"
  let ?s = "s\<lparr>ph_pass := q', has_phi := insert (b, var) (has_phi s), work_list := work_list s @ [b]\<rparr>"
  have here: "heap (m2_ir q) var = Some y" using P(2) [OF var(1)] by (simp add: q_def)
  have step: "place_phi var b s = Inr ?s"
    using False here var(2)
    by (simp add: place_phi_def get_val_def q_def [symmetric] q'_def i_def create_phi_def alloc_def Let_def get_pointer_element_type_def)
  have q'_ir: "heap (m2_ir q') = (heap (m2_ir q))(i \<mapsto> new_val t [] (InstructionV Phi) 0 (Some b))"
    "next_addr (m2_ir q') = i + 1" "instr_list (m2_ir q') = (instr_list (m2_ir q))(b := i # instr_list (m2_ir q) b)"
    "l_val q' = (l_val q)(i \<mapsto> var)" "var_val_stack q' = var_val_stack q"
    by (simp_all add: q'_def create_phi_def alloc_def add_instr_begin_def i_def)
  have fresh: "heap (m2_ir q) i = None" using P(3) [of i] by (cases "heap (m2_ir q) i") (auto simp: q_def i_def)
  then have fresh0: "heap (m2_ir p) i = None" using P(2) [of i] by (cases "heap (m2_ir p) i") (auto simp: q_def)
  have "phis_placed (insert (b, var) (has_phi s)) p q'"
    unfolding phis_placed_def
  proof (intro conjI allI impI)
    fix c
    obtain phis where "block_phis (has_phi s) p q c phis" using P(1) [of c] unfolding q_def by blast
    then show "\<exists>phis. block_phis (insert (b, var) (has_phi s)) p q' c phis"
      by (rule block_phis_cons [OF _ fresh fresh0 False var q'_ir(1,3,4)])
  next
    fix a x assume "heap (m2_ir p) a = Some x"
    then show "heap (m2_ir q') a = Some x" using P(2) fresh0 by (auto simp: q'_ir q_def)
  next
    fix a assume "heap (m2_ir q') a \<noteq> None"
    then show "a < next_addr (m2_ir q')" using P(3) [of a] by (auto simp: q'_ir q_def i_def split: if_splits)
  next
    show "next_addr (m2_ir p) \<le> next_addr (m2_ir q')" using P(4) by (simp add: q'_ir i_def q_def)
  next
    fix a assume "a < next_addr (m2_ir p)"
    then show "l_val q' a = l_val p a" using P(4,5) by (auto simp: q'_ir i_def q_def)
  next
    show "var_val_stack q' = var_val_stack p" using P(6) by (simp add: q'_ir q_def)
  next
    obtain h n l where "m2_ir q = (m2_ir p)\<lparr>heap := h, next_addr := n, instr_list := l\<rparr>" using P(7) q_def by blast
    then have "m2_ir q' = (m2_ir p)\<lparr>heap := heap (m2_ir q'), next_addr := next_addr (m2_ir q'), instr_list := instr_list (m2_ir q')\<rparr>"
      by (simp add: q'_def create_phi_def alloc_def add_instr_begin_def)
    then show "\<exists>h n l. m2_ir q' = (m2_ir p)\<lparr>heap := h, next_addr := n, instr_list := l\<rparr>" by blast
  qed
  then show ?thesis using step False by simp
qed

lemma place_phis_spec:
  assumes "phis_placed (has_phi s) p (ph_pass s)" "heap (m2_ir p) var = Some y" "vtype y = PointerTy t" "distinct bs"
  shows "\<exists>s' new. rfold (place_phi var) bs s = Inr s' \<and> phis_placed (has_phi s') p (ph_pass s') \<and>
    has_phi s' = has_phi s \<union> set bs \<times> {var} \<and> work_list s' = work_list s @ new \<and> distinct new \<and>
    set new = {b \<in> set bs. (b, var) \<notin> has_phi s}"
  using assms
proof (induction bs arbitrary: s)
  case (Cons b bs)
  obtain s1 where s1: "place_phi var b s = Inr s1" "phis_placed (has_phi s1) p (ph_pass s1)"
    "has_phi s1 = insert (b, var) (has_phi s)" "work_list s1 = work_list s @ (if (b, var) \<in> has_phi s then [] else [b])"
    using place_phi_spec [OF Cons.prems(1-3)] by blast
  have d: "distinct bs" "b \<notin> set bs" using Cons.prems(4) by simp_all
  obtain s' new where s': "rfold (place_phi var) bs s1 = Inr s'" "phis_placed (has_phi s') p (ph_pass s')"
    "has_phi s' = has_phi s1 \<union> set bs \<times> {var}" "work_list s' = work_list s1 @ new" "distinct new"
    "set new = {c \<in> set bs. (c, var) \<notin> has_phi s1}"
    using Cons.IH [OF s1(2) Cons.prems(2,3) d(1)] by blast
  show ?case
  proof (cases "(b, var) \<in> has_phi s")
    case True
    then show ?thesis using s1 s' by (intro exI [of _ s'] exI [of _ new]) auto
  next
    case False
    then show ?thesis using s1 s' d(2) by (intro exI [of _ s'] exI [of _ "b # new"]) auto
  qed
qed simp

section \<open>The work list\<close>

definition placing :: "mem2reg \<Rightarrow> dominators \<Rightarrow> addr set \<Rightarrow> addr \<Rightarrow> (addr \<times> addr) set \<Rightarrow> phi_state \<Rightarrow> bool" where
  "placing p d U var H s \<longleftrightarrow> phis_placed (has_phi s) p (ph_pass s) \<and> {h \<in> has_phi s. snd h \<noteq> var} = H \<and>
     {b. (b, var) \<in> has_phi s} \<subseteq> U \<and> finite U \<and> (\<forall>b \<in> U. get_dominance_frontier d (Some b) \<subseteq> U) \<and>
     (\<exists>y t. heap (m2_ir p) var = Some y \<and> vtype y = PointerTy t)"

interpretation phi_work: worklist_loop "phi_loop key d var"
  "\<lambda>b s. Some (rfold (place_phi var) (in_order key (get_dominance_frontier d (Some b))) s)" work_list
  "\<lambda>s. s\<lparr>work_list := tl (work_list s)\<rparr>" "\<lambda>s. {b. (b, var) \<in> has_phi s}" "\<lambda>b. get_dominance_frontier d (Some b)" U
  "placing p d U var H"
  for key d var U p H
proof unfold_locales
  fix s
  show "phi_loop key d var s = (case work_list s of [] \<Rightarrow> Some (Inr s)
      | x # xs \<Rightarrow> obind (Some (rfold (place_phi var) (in_order key (get_dominance_frontier d (Some x)))
          (s\<lparr>work_list := tl (work_list s)\<rparr>))) (phi_loop key d var))"
    by (subst phi_loop.simps) (simp split: list.splits)
next
  fix s b bs
  assume s: "placing p d U var H s" "work_list s = b # bs" "b \<in> U"
  let ?F = "get_dominance_frontier d (Some b)"
  have F: "?F \<subseteq> U" "finite ?F" using s(1,3) finite_subset [of ?F U] by (auto simp: placing_def)
  obtain y t where var: "heap (m2_ir p) var = Some y" "vtype y = PointerTy t" using s(1) by (auto simp: placing_def)
  have placed: "phis_placed (has_phi (s\<lparr>work_list := bs\<rparr>)) p (ph_pass (s\<lparr>work_list := bs\<rparr>))"
    using s(1) by (simp add: placing_def)
  obtain s' new where s': "rfold (place_phi var) (in_order key ?F) (s\<lparr>work_list := bs\<rparr>) = Inr s'"
    "phis_placed (has_phi s') p (ph_pass s')" "has_phi s' = has_phi s \<union> ?F \<times> {var}" "work_list s' = bs @ new" "distinct new"
    "set new = {b \<in> ?F. (b, var) \<notin> has_phi s}"
    using place_phis_spec [OF placed var in_order(2), of key ?F] in_order(1) [OF F(2), of key] by auto
  have "placing p d U var H s'"
    using s(1) s'(2,3) F(1) by (auto simp: placing_def)
  then show "\<exists>s' new. Some (rfold (place_phi var) (in_order key ?F) (s\<lparr>work_list := tl (work_list s)\<rparr>)) = Some (Inr s') \<and>
      placing p d U var H s' \<and> work_list s' = bs @ new \<and> distinct new \<and>
      set new = ?F - {b. (b, var) \<in> has_phi s} \<and> {b. (b, var) \<in> has_phi s'} = {b. (b, var) \<in> has_phi s} \<union> ?F"
    using s(2) s'(1,3-6) by (intro exI [of _ s'] exI [of _ new]) auto
next
  fix s
  assume "placing p d U var H s"
  then show "{b. (b, var) \<in> has_phi s} \<subseteq> U \<and> finite U" by (simp add: placing_def)
qed

section \<open>The iterated frontier\<close>

definition iterated_frontier :: "dominators \<Rightarrow> addr set \<Rightarrow> addr set" where
  "iterated_frontier d S = {y. \<exists>x \<in> S. (\<lambda>a b. b \<in> get_dominance_frontier d (Some a))\<^sup>+\<^sup>+ x y}"

lemma phi_loop_spec:
  assumes "phis_placed (has_phi s) p (ph_pass s)" "\<And>b. (b, var) \<notin> has_phi s" "finite U" "S \<subseteq> U"
    and "\<And>b. b \<in> U \<Longrightarrow> get_dominance_frontier d (Some b) \<subseteq> U"
    and var: "heap (m2_ir p) var = Some y" "vtype y = PointerTy t"
  shows "\<exists>s'. phi_loop key d var (s\<lparr>work_list := in_order key S\<rparr>) = Some (Inr s') \<and>
    phis_placed (has_phi s') p (ph_pass s') \<and> has_phi s' = has_phi s \<union> iterated_frontier d S \<times> {var}"
proof -
  let ?s = "s\<lparr>work_list := in_order key S\<rparr>"
  have none: "{b. (b, var) \<in> has_phi ?s} = {}" and q: "set (work_list ?s) = S"
    using assms(2) in_order(1) [OF finite_subset [OF assms(4,3)]] by simp_all
  have ok: "placing p d U var (has_phi s) ?s"
    using assms none by (auto simp: placing_def)
  have "set (work_list ?s) \<subseteq> U" using q assms(4) by blast
  from phi_work.loop_frontier [OF ok none this, of key] obtain s' where s': "phi_loop key d var ?s = Some (Inr s')"
    "placing p d U var (has_phi s) s'" "{b. (b, var) \<in> has_phi s'} = iterated_frontier d S"
    unfolding iterated_frontier_def q by blast
  have "x \<in> has_phi s' \<longleftrightarrow> x \<in> has_phi s \<union> iterated_frontier d S \<times> {var}" for x
  proof (cases "snd x = var")
    case True
    then show ?thesis using s'(3) assms(2) by (cases x) auto
  next
    case False
    moreover have "x \<in> has_phi s' \<and> snd x \<noteq> var \<longleftrightarrow> x \<in> has_phi s" using s'(2) unfolding placing_def by blast
    ultimately show ?thesis by (cases x) auto
  qed
  then have "has_phi s' = has_phi s \<union> iterated_frontier d S \<times> {var}" by blast
  then show ?thesis using s'(1,2) by (auto simp: placing_def)
qed

lemma phi_loops_spec:
  assumes "phis_placed (has_phi s) p (ph_pass s)" "\<And>b v. v \<in> set vs \<Longrightarrow> (b, v) \<notin> has_phi s" "finite U"
    and "\<And>v. v \<in> set vs \<Longrightarrow> S v \<subseteq> U" "distinct vs"
    and "\<And>b. b \<in> U \<Longrightarrow> get_dominance_frontier d (Some b) \<subseteq> U"
    and "\<And>v. v \<in> set vs \<Longrightarrow> \<exists>y t. heap (m2_ir p) v = Some y \<and> vtype y = PointerTy t"
  shows "\<exists>s'. ofold (\<lambda>var s. phi_loop key d var (s\<lparr>work_list := in_order key (S var)\<rparr>)) vs s = Some (Inr s') \<and>
    phis_placed (has_phi s') p (ph_pass s') \<and> has_phi s' = has_phi s \<union> {(b, v). v \<in> set vs \<and> b \<in> iterated_frontier d (S v)}"
  using assms
proof (induction vs arbitrary: s)
  case (Cons v vs)
  obtain y t where v: "heap (m2_ir p) v = Some y" "vtype y = PointerTy t" using Cons.prems(7) by force
  have v': "\<And>b. (b, v) \<notin> has_phi s" "S v \<subseteq> U" using Cons.prems(2,4) by auto
  obtain s1 where s1: "phi_loop key d v (s\<lparr>work_list := in_order key (S v)\<rparr>) = Some (Inr s1)"
    "phis_placed (has_phi s1) p (ph_pass s1)" "has_phi s1 = has_phi s \<union> iterated_frontier d (S v) \<times> {v}"
    using phi_loop_spec [OF Cons.prems(1) v'(1) Cons.prems(3) v'(2) Cons.prems(6) v] by blast
  have "\<And>b w. w \<in> set vs \<Longrightarrow> (b, w) \<notin> has_phi s1" using Cons.prems(2,5) s1(3) by auto
  from Cons.IH [OF s1(2) this Cons.prems(3)] Cons.prems(4-7)
  obtain s' where s': "ofold (\<lambda>var s. phi_loop key d var (s\<lparr>work_list := in_order key (S var)\<rparr>)) vs s1 = Some (Inr s')"
    "phis_placed (has_phi s') p (ph_pass s')"
    "has_phi s' = has_phi s1 \<union> {(b, v). v \<in> set vs \<and> b \<in> iterated_frontier d (S v)}" by auto
  show ?case using s1(1) s' by (intro exI [of _ s']) (auto simp: s1(3))
qed simp

lemma stores_to_pointer:
  assumes "stores_ok m b" "stores_to m b v"
  shows "\<exists>y t. heap m v = Some y \<and> vtype y = PointerTy t"
proof -
  obtain i where i: "i \<in> set (instr_list m b)" "stored_var m i = Some v" using assms(2) by (auto simp: stores_to_def)
  obtain x where "heap m i = Some x"
    "kind x = InstructionV Store \<Longrightarrow> \<exists>v y t. operand_at m i 1 = Some v \<and> heap m v = Some y \<and> vtype y = PointerTy t"
    using stores_okE [OF assms(1) i(1)] by blast
  then show ?thesis using i(2) by (auto simp: stored_var_def split: if_splits option.splits)
qed

lemma generate_phi_spec:
  assumes ok: "\<And>b. b \<in> set (block_list (m2_ir p) f) \<Longrightarrow> stores_ok (m2_ir p) b"
    and df: "\<And>b. b \<in> set (block_list (m2_ir p) f) \<Longrightarrow> get_dominance_frontier d (Some b) \<subseteq> set (block_list (m2_ir p) f)"
    and fresh: "\<forall>a. heap (m2_ir p) a \<noteq> None \<longrightarrow> a < next_addr (m2_ir p)"
  shows "\<exists>p'. generate_phi key d f p = Some (Inr p') \<and>
    phis_placed {(b, v). b \<in> iterated_frontier d {c \<in> set (block_list (m2_ir p) f). stores_to (m2_ir p) c v}} p p'"
proof -
  let ?m = "m2_ir p"
  let ?U = "set (block_list ?m f)"
  let ?S = "\<lambda>v. {c \<in> ?U. stores_to ?m c v}"
  let ?live = "{v. \<exists>b \<in> ?U. stores_to ?m b v}"
  have fin: "finite ?live"
  proof (rule finite_subset)
    show "?live \<subseteq> (\<Union>b \<in> ?U. the ` stored_var ?m ` set (instr_list ?m b))"
      by (auto simp: stores_to_def image_iff) (metis option.sel)
  qed simp
  have ptr: "\<exists>y t. heap ?m v = Some y \<and> vtype y = PointerTy t" if "v \<in> ?live" for v
    using that stores_to_pointer [OF ok] by blast
  let ?s = "\<lparr>ph_pass = p, has_phi = {}, work_list = []\<rparr>"
  have "phis_placed (has_phi ?s) p (ph_pass ?s)" using phis_placed_init [OF fresh] by simp
  from phi_loops_spec [OF this, of "in_order key ?live" ?U ?S d key] ptr df fin
  obtain s' where s': "ofold (\<lambda>var s. phi_loop key d var (s\<lparr>work_list := in_order key (?S var)\<rparr>)) (in_order key ?live) ?s = Some (Inr s')"
    "phis_placed (has_phi s') p (ph_pass s')" "has_phi s' = {(b, v). v \<in> ?live \<and> b \<in> iterated_frontier d (?S v)}"
    by auto
  have "has_phi s' = {(b, v). b \<in> iterated_frontier d (?S v)}"
    using s'(3) by (auto simp: iterated_frontier_def)
  then show ?thesis
    using s'(1,2) collect_stores_spec [of ?m f, OF ok] by (simp add: generate_phi_def)
qed

end
