(* ===== verification/Ir_Printable.thy ===== *)
theory Ir_Printable
  imports Pipeline Ir_Text
begin

text \<open>
  Printing a module that the builder made returns its text: no dereference, assertion or loop of
  the printer can fail there.
\<close>

section \<open>Texts that are there\<close>

lemma returns_seq [returns_intros]: "(\<And>t. t \<in> set ts \<Longrightarrow> returns t) \<Longrightarrow> returns (seq_text ts)"
  by (induction ts) (auto intro!: returns_intros)

lemma returns_comma [returns_intros]:
  assumes "\<And>t. t \<in> set ts \<Longrightarrow> returns t"
  shows "returns (comma_texts ts)"
proof (cases ts)
  case Nil
  then show ?thesis by (simp add: comma_texts_def returns_def)
next
  case (Cons t us)
  show ?thesis
    unfolding comma_texts_def Cons list.case
    by (rule returns_seq) (use assms Cons in \<open>auto intro: returns_intros split: if_splits\<close>)
qed

section \<open>What the printer needs\<close>

definition printable_value :: "ir \<Rightarrow> addr \<Rightarrow> bool" where
  "printable_value m a \<longleftrightarrow> a < next_addr m \<and> (\<exists>x. heap m a = Some x \<and> (\<forall>es. kind x \<noteq> ConstantArrayV es))"

definition placed :: "ir \<Rightarrow> val \<Rightarrow> bool" where
  "placed m x \<longleftrightarrow> (\<exists>b y. parent x = Some b \<and> heap m b = Some y \<and> parent y \<noteq> None)"

definition printable_instr :: "ir \<Rightarrow> addr \<Rightarrow> bool" where
  "printable_instr m i \<longleftrightarrow> (\<exists>x op. heap m i = Some x \<and> kind x = InstructionV op \<and> op \<noteq> Phi \<and> placed m x \<and>
     num_ops x = length (operands x) \<and> arity_ok op (length (operands x)) \<and>
     (\<forall>k < length (operands x). \<exists>v. operands x ! k = Some v \<and> printable_value m v) \<and>
     (op = Call \<longrightarrow> (\<exists>f y. operands x ! 0 = Some f \<and> heap m f = Some y \<and> kind y = FunctionV)) \<and>
     (op \<in> {Load, Getelementptr} \<longrightarrow> (\<exists>v y t. operands x ! 0 = Some v \<and> heap m v = Some y \<and> vtype y = PointerTy t)))"

definition printable_block :: "ir \<Rightarrow> addr \<Rightarrow> bool" where
  "printable_block m b \<longleftrightarrow> printable_value m b \<and> (\<forall>p \<in> set (pre_list m b). printable_value m p) \<and>
     (\<forall>i \<in> set (instr_list m b). printable_instr m i)"

definition printable_global :: "ir \<Rightarrow> addr \<Rightarrow> bool" where
  "printable_global m g \<longleftrightarrow> (\<exists>x c z t w. heap m g = Some x \<and> g < next_addr m \<and> kind x = GlobalVariableV c (Some z) \<and>
     vtype x = PointerTy t \<and> heap m z = Some w \<and> leaf_constant (kind w))"

definition printable :: "ir \<Rightarrow> bool" where
  "printable m \<longleftrightarrow> (\<forall>g \<in> set (global_list m). printable_global m g) \<and>
     (\<forall>f \<in> set (function_list m). printable_value m f \<and> (\<forall>a \<in> set (arguments m f). printable_value m a) \<and>
        (\<forall>b \<in> set (block_list m f). printable_block m b))"

section \<open>Values and operands\<close>

lemma print_as_op_returns [returns_intros]:
  assumes "printable_value m a"
  shows "returns (print_as_op a ty m)"
proof -
  obtain x where x: "heap m a = Some x" "\<forall>es. kind x \<noteq> ConstantArrayV es" "a < next_addr m"
    using assms by (auto simp: printable_value_def)
  then obtain n where "next_addr m = Suc n" by (cases "next_addr m") auto
  then show ?thesis
    using x by (auto simp: returns_def print_as_op_def get_val_def is_constant_def split: value_kind.splits)
qed

lemma deref_operand_printable:
  assumes "heap m i = Some x" "k < length (operands x)" "\<And>k. k < length (operands x) \<Longrightarrow> \<exists>v. operands x ! k = Some v \<and> printable_value m v"
  shows "returns (op_text i k ty m)" "returns (op_type i k m)" "returns (type_text (op_type i k m))" "returns (typed_operand i m k)"
proof -
  obtain v where v: "operands x ! k = Some v" "printable_value m v" using assms(2,3) by blast
  then have d: "deref_operand i k m = Inr v" using assms(1,2) by (simp add: deref_operand_def get_operand_def get_val_def)
  obtain y where y: "heap m v = Some y" using v(2) by (auto simp: printable_value_def)
  show t: "returns (op_text i k ty m)" for ty using d print_as_op_returns [OF v(2)] by (simp add: op_text_def)
  show ty: "returns (op_type i k m)" using d y by (simp add: op_type_def get_val_def returns_def)
  then show tt: "returns (type_text (op_type i k m))" unfolding type_text_def by (intro returns_intros)
  show "returns (typed_operand i m k)" unfolding typed_operand_def by (auto intro!: returns_intros t tt)
qed

section \<open>Instructions\<close>

lemma print_instruction_returns [returns_intros]:
  assumes "printable_instr m i"
  shows "returns (print_instruction i m)"
proof -
  obtain x op where x: "heap m i = Some x" "kind x = InstructionV op" "op \<noteq> Phi" "num_ops x = length (operands x)"
    "arity_ok op (length (operands x))" and pl: "placed m x"
    and ops: "\<And>k. k < length (operands x) \<Longrightarrow> \<exists>v. operands x ! k = Some v \<and> printable_value m v"
    and call: "op = Call \<Longrightarrow> \<exists>f y. operands x ! 0 = Some f \<and> heap m f = Some y \<and> kind y = FunctionV"
    and ptr: "op \<in> {Load, Getelementptr} \<Longrightarrow> \<exists>v y t. operands x ! 0 = Some v \<and> heap m v = Some y \<and> vtype y = PointerTy t"
    using assms unfolding printable_instr_def by blast
  note o1 = deref_operand_printable [OF x(1) _ ops]
  have pt: "returns (pointee_text i m)" if p: "op \<in> {Load, Getelementptr}" "0 < length (operands x)"
  proof -
    obtain v y t where "operands x ! 0 = Some v" "heap m v = Some y" "vtype y = PointerTy t" using ptr [OF p(1)] by blast
    then show ?thesis
      using x(1) p(2) by (simp add: pointee_text_def op_type_def deref_operand_def get_operand_def get_val_def
          get_pointer_element_type_def returns_def)
  qed
  have second: "returns (second_operand i m)" if "length (operands x) = 2"
    unfolding second_operand_def using that by (intro returns_intros o1) simp_all
  have res: "returns (result_text x)" unfolding result_text_def by (rule returns_Inr)
  have callee: "returns (obind (Some (deref_operand i 0 m)) (\<lambda>f. obind (Some (get_val f m)) (\<lambda>y.
       if kind y = FunctionV then txt_const [] else Some (Inl AssertFailed))))" if "op = Call" "0 < length (operands x)"
    using call [OF that(1)] x(1) that(2) by (auto simp: deref_operand_def get_operand_def get_val_def returns_def)
  have result: "returns (obind (op_type i 0 m) (\<lambda>t. txt_const (print_type (result_type t))))" if "0 < length (operands x)"
    using that by (intro returns_intros o1)
  have two: "length (operands x) = 2" if "op \<in> {Add, Sub, Mul, Sdiv, Fadd, Fsub, Fmul, Fdiv, Cmp, Fcmp, Store}"
    using x(5) that by (auto simp: arity_ok_def)
  note o = o1 second res returns_Inr returns_comma
  have binary: "returns (print_binary i x op m)" "returns (print_cmp i x m)" "returns (print_fcmp i x m)"
    if "length (operands x) = 2"
    unfolding print_binary_def print_cmp_def print_fcmp_def using that
    by (auto intro!: returns_seq o simp del: seq_text.simps)
  have store: "returns (print_store i x m)" if "length (operands x) = 2"
    unfolding print_store_def using that by (auto intro!: returns_seq o simp del: seq_text.simps)
  have cast: "returns (print_cast i x op m)" if "length (operands x) = 1"
    unfolding print_cast_def using that by (auto intro!: returns_seq o simp del: seq_text.simps)
  have load: "returns (print_load i x m)" "returns (print_gep i x m)" if "op \<in> {Load, Getelementptr}" "operands x \<noteq> []"
    unfolding print_load_def print_gep_def using that x(4) pt
    by (auto intro!: returns_seq o simp del: seq_text.simps)
  have call: "returns (print_call i x m)" if "op = Call" "operands x \<noteq> []"
    unfolding print_call_def using that x(4) callee result
    by (auto intro!: returns_seq o simp del: seq_text.simps)
  have br: "returns (print_br i x m)" if "length (operands x) = 1 \<or> length (operands x) = 3"
    unfolding print_br_def using that x(4) by (auto intro!: returns_seq o simp del: seq_text.simps)
  have ret: "returns (print_ret i x m)"
    unfolding print_ret_def using x(4) by (auto intro!: returns_seq o simp del: seq_text.simps)
  have alloca: "returns (print_alloca i x m)"
    unfolding print_alloca_def by (auto intro!: returns_seq o simp del: seq_text.simps)
  have eq: "print_instruction i m = (case op of
         Ret \<Rightarrow> print_ret i x m | Br \<Rightarrow> print_br i x m | Alloca \<Rightarrow> print_alloca i x m
       | Load \<Rightarrow> print_load i x m | Store \<Rightarrow> print_store i x m | Cmp \<Rightarrow> print_cmp i x m
       | Fcmp \<Rightarrow> print_fcmp i x m | Phi \<Rightarrow> print_phi i x m | Call \<Rightarrow> print_call i x m
       | Getelementptr \<Rightarrow> print_gep i x m | Zext \<Rightarrow> print_cast i x op m | Fptosi \<Rightarrow> print_cast i x op m
       | Sitofp \<Rightarrow> print_cast i x op m | _ \<Rightarrow> print_binary i x op m)"
    using x(1,2) pl by (auto simp: print_instruction_def instr_module_def placed_def get_val_def)
  have ne: "operands x \<noteq> []" if "op \<in> {Load, Getelementptr, Call}" using x(5) that by (auto simp: arity_ok_def)
  show ?thesis
    unfolding eq using x(3,5) binary store cast load call br ret alloca two ne
    by (cases op) (auto simp: arity_ok_def)
qed

section \<open>Blocks, functions and global variables\<close>

lemma print_basic_block_returns:
  assumes "printable_block m b"
  shows "returns (print_basic_block b m)"
proof -
  obtain x where x: "heap m b = Some x" using assms by (auto simp: printable_block_def printable_value_def)
  have p: "returns (print_as_op p False m)" if "p \<in> set (pre_list m b)" for p
    using print_as_op_returns assms that by (simp add: printable_block_def)
  have i: "returns (print_instruction i m)" if "i \<in> set (instr_list m b)" for i
    using print_instruction_returns assms that by (simp add: printable_block_def)
  show ?thesis
    unfolding print_basic_block_def using x p i
    by (auto intro!: returns_seq returns_Inr simp: get_val_def simp del: seq_text.simps)
qed

lemma print_argument_returns: "printable_value m a \<Longrightarrow> returns (print_argument a m)"
  by (auto simp: printable_value_def print_argument_def get_val_def returns_def)

lemma print_global_variable_returns:
  assumes "printable_global m g"
  shows "returns (print_global_variable g m)"
proof -
  obtain x c z t w where x: "heap m g = Some x" "g < next_addr m" "kind x = GlobalVariableV c (Some z)"
    "vtype x = PointerTy t" "heap m z = Some w" "leaf_constant (kind w)"
    using assms by (auto simp: printable_global_def)
  obtain n where "next_addr m = Suc n" using x(2) by (cases "next_addr m") auto
  then have z: "returns (print_constant (next_addr m) z m)"
    using x(5,6) by (cases "kind w") (auto simp: returns_def get_val_def leaf_constant_def)
  have g: "returns (print_as_op g False m)"
    by (rule print_as_op_returns) (use x in \<open>auto simp: printable_value_def\<close>)
  show ?thesis
    unfolding print_global_variable_def using x z g
    by (auto intro!: returns_seq returns_Inr simp: get_val_def get_pointer_element_type_def simp del: seq_text.simps)
qed

section \<open>Naming\<close>

text \<open>\<open>m\<close> is \<open>m0\<close> with other names and counters.\<close>

definition renamed :: "ir \<Rightarrow> ir \<Rightarrow> bool" where
  "renamed m0 m \<longleftrightarrow> (\<exists>nm c. m = (rename nm m0)\<lparr>seq_cnt := c\<rparr>)"

lemma renamed_refl: "renamed m m"
proof -
  have "rename (\<lambda>a. name (the (heap m a))) m = m"
    by (auto simp: rename_def fun_eq_iff intro!: ir.equality option.map_ident_strong)
  then have "m = (rename (\<lambda>a. name (the (heap m a))) m)\<lparr>seq_cnt := seq_cnt m\<rparr>" by simp
  then show ?thesis unfolding renamed_def by blast
qed

lemma renamed_fields:
  assumes "renamed m0 m"
  shows "arguments m = arguments m0" "block_list m = block_list m0" "instr_list m = instr_list m0"
    "pre_list m = pre_list m0" "function_list m = function_list m0" "global_list m = global_list m0"
    "next_addr m = next_addr m0"
    "heap m0 a = Some x \<Longrightarrow> \<exists>nm. heap m a = Some (x\<lparr>name := nm\<rparr>)"
  using assms by (auto simp: renamed_def rename_def)

lemma renamed_object:
  assumes "renamed m0 m" "heap m0 a = Some x"
  shows "\<exists>y. heap m a = Some y \<and> kind y = kind x \<and> vtype y = vtype x \<and> operands y = operands x \<and>
    num_ops y = num_ops x \<and> parent y = parent x"
  using renamed_fields(8) [OF assms] by auto

lemma renamed_name:
  assumes "renamed m0 m" "heap m0 a = Some x"
  shows "\<exists>b m'. set_name a nm m = Inr (b, m') \<and> renamed m0 m'"
proof -
  obtain ns c where m: "m = (rename ns m0)\<lparr>seq_cnt := c\<rparr>" using assms(1) by (auto simp: renamed_def)
  show ?thesis
  proof (cases "ns a = []")
    case True
    have "m\<lparr>heap := (heap m)(a \<mapsto> x\<lparr>name := nm\<rparr>)\<rparr> = (rename (ns(a := nm)) m0)\<lparr>seq_cnt := c\<rparr>"
      unfolding m using assms(2) by (auto simp: rename_def fun_eq_iff intro!: ir.equality)
    then have "renamed m0 (m\<lparr>heap := (heap m)(a \<mapsto> x\<lparr>name := nm\<rparr>)\<rparr>)" unfolding renamed_def by blast
    moreover have "set_name a nm m = Inr (True, m\<lparr>heap := (heap m)(a \<mapsto> x\<lparr>name := nm\<rparr>)\<rparr>)"
      using True assms(2) by (simp add: m set_name_def get_val_def upd_val_def)
    ultimately show ?thesis by blast
  next
    case False
    then have "set_name a nm m = Inr (False, m)" using assms(2) by (simp add: m set_name_def get_val_def)
    then show ?thesis using assms(1) by blast
  qed
qed

lemma name_value_total:
  assumes "renamed m0 (snd s)" "heap m0 a = Some x"
  shows "\<exists>s'. name_value pre a s base = Inr s' \<and> renamed m0 (snd s')"
proof -
  obtain ns n m where s: "s = ((ns, n), m)" by (metis surj_pair)
  show ?thesis
    using assms renamed_name [OF _ assms(2), of m "pre @ digits (n + base)"] by (auto simp: s name_value_def)
qed

lemma set_instr_name_total:
  assumes rn: "renamed m0 m" and f: "\<forall>a \<in> set (arguments m0 f). heap m0 a \<noteq> None"
    "\<forall>b \<in> set (block_list m0 f). heap m0 b \<noteq> None \<and> (\<forall>i \<in> set (instr_list m0 b). heap m0 i \<noteq> None)"
  shows "\<exists>m'. set_instr_name f m = Inr m' \<and> renamed m0 m'"
proof -
  let ?base = "seq_cnt m f" and ?P = "\<lambda>s. renamed m0 (snd s)"
  have "\<exists>s. rfold (\<lambda>a s. name_value ''arg'' a s ?base) (arguments m f) (({}, 0), m) = Inr s \<and> ?P s"
    by (rule rfold_total [where P = ?P]) (use name_value_total f(1) rn renamed_fields(1) [OF rn] in auto)
  then obtain s where s: "rfold (\<lambda>a s. name_value ''arg'' a s ?base) (arguments m f) (({}, 0), m) = Inr s" "?P s" by blast
  have block: "\<exists>t. name_block ?base b s = Inr t \<and> ?P t" if b: "b \<in> set (block_list m0 f)" and P: "?P s" for b s
  proof -
    obtain t where t: "name_value ''label'' b s ?base = Inr t" "?P t" using name_value_total [OF P] f(2) b by blast
    have "\<exists>u. (if is_void x then Inr t else name_value ''op'' i t ?base) = Inr u \<and> ?P u"
      if "i \<in> set (instr_list m0 b)" "?P t" for i t x
    proof (cases "is_void x")
      case False
      have "heap m0 i \<noteq> None" using f(2) b that(1) by blast
      then obtain y where "heap m0 i = Some y" by blast
      from name_value_total [OF that(2) this] show ?thesis using False by simp
    qed (use that in auto)
    moreover have "get_val i (snd t) \<noteq> Inl e" if "i \<in> set (instr_list m0 b)" "?P t" for i t e
      using renamed_object [OF that(2)] f(2) b that(1) by (fastforce simp: get_val_def)
    ultimately have "\<exists>u. rbind (get_val i (snd t)) (\<lambda>x. if is_void x then Inr t else name_value ''op'' i t ?base) = Inr u \<and> ?P u"
      if "i \<in> set (instr_list m0 b)" "?P t" for i t
      using that by (cases "get_val i (snd t)") auto
    then show ?thesis
      unfolding name_block_def t(1) rbind_Inr using t(2) renamed_fields(3) [OF t(2)] by (intro rfold_total) auto
  qed
  have "\<exists>t. rfold (name_block ?base) (block_list (snd s) f) s = Inr t \<and> ?P t"
    by (rule rfold_total [where P = ?P]) (use block s(2) renamed_fields(2) [OF s(2)] in auto)
  then obtain t where t: "rfold (name_block ?base) (block_list (snd s) f) s = Inr t" "?P t" by blast
  obtain ns n m' where t': "t = ((ns, n), m')" by (metis surj_pair)
  obtain nm ca where m': "m' = (rename nm m0)\<lparr>seq_cnt := ca\<rparr>" using t(2) by (auto simp: t' renamed_def)
  have "renamed m0 (m'\<lparr>seq_cnt := c\<rparr>)" for c
    unfolding m' renamed_def by (intro exI [of _ nm] exI [of _ c]) simp
  then show ?thesis using s(1) t(1) by (simp add: set_instr_name_def t')
qed

section \<open>The module\<close>

lemma printable_renamed:
  assumes "printable m0" "renamed m0 m"
  shows "printable m"
proof -
  note fl = renamed_fields(1-7) [OF assms(2)] and ob = renamed_object [OF assms(2)]
  have v: "printable_value m a" if "printable_value m0 a" for a
    using that ob unfolding printable_value_def fl by fastforce
  have i: "printable_instr m i" if pi: "printable_instr m0 i" for i
  proof -
    obtain x op where x: "heap m0 i = Some x" "kind x = InstructionV op" "op \<noteq> Phi" "num_ops x = length (operands x)"
      "arity_ok op (length (operands x))" "\<forall>k < length (operands x). \<exists>v. operands x ! k = Some v \<and> printable_value m0 v"
      and pl: "placed m0 x"
      and call: "op = Call \<longrightarrow> (\<exists>f y. operands x ! 0 = Some f \<and> heap m0 f = Some y \<and> kind y = FunctionV)"
      and ptr: "op \<in> {Load, Getelementptr} \<longrightarrow> (\<exists>v y t. operands x ! 0 = Some v \<and> heap m0 v = Some y \<and> vtype y = PointerTy t)"
      using pi unfolding printable_instr_def by blast
    obtain y where y: "heap m i = Some y" "kind y = kind x" "operands y = operands x" "num_ops y = num_ops x" "parent y = parent x"
      using ob [OF x(1)] by blast
    have pl: "placed m y" using pl y(5) ob unfolding placed_def by fastforce
    have "op = Call \<longrightarrow> (\<exists>f y. operands x ! 0 = Some f \<and> heap m f = Some y \<and> kind y = FunctionV)"
      using call ob by fastforce
    moreover have "op \<in> {Load, Getelementptr} \<longrightarrow> (\<exists>v y t. operands x ! 0 = Some v \<and> heap m v = Some y \<and> vtype y = PointerTy t)"
      using ptr ob by fastforce
    moreover have "\<forall>k < length (operands x). \<exists>v. operands x ! k = Some v \<and> printable_value m v" using x(6) v by blast
    ultimately show ?thesis
      unfolding printable_instr_def using x(2-5) y pl by (intro exI [of _ y] exI [of _ op]) simp
  qed
  have g: "printable_global m g" if pg: "printable_global m0 g" for g
  proof -
    obtain x c z t w where x: "heap m0 g = Some x" "g < next_addr m0" "kind x = GlobalVariableV c (Some z)"
      "vtype x = PointerTy t" "heap m0 z = Some w" "leaf_constant (kind w)"
      using pg unfolding printable_global_def by blast
    obtain y u where "heap m g = Some y" "kind y = kind x" "vtype y = vtype x" "heap m z = Some u" "kind u = kind w"
      using ob [OF x(1)] ob [OF x(5)] by blast
    then show ?thesis unfolding printable_global_def fl using x by auto
  qed
  show ?thesis
    using assms(1) v i g unfolding printable_def printable_block_def fl by simp
qed

lemma print_function_returns:
  assumes p: "printable m0" and rn: "renamed m0 m" and f: "f \<in> set (function_list m0)"
  shows "\<exists>t m'. print_function f m = Some (Inr (t, m')) \<and> renamed m0 m'"
proof -
  have pf: "printable_value m0 f" "\<forall>a \<in> set (arguments m0 f). printable_value m0 a"
    "\<forall>b \<in> set (block_list m0 f). printable_block m0 b"
    using p f by (auto simp: printable_def)
  have "\<exists>m'. set_instr_name f m = Inr m' \<and> renamed m0 m'"
    by (rule set_instr_name_total [OF rn])
      (use pf in \<open>fastforce simp: printable_value_def printable_block_def printable_instr_def\<close>)+
  then obtain m' where m': "set_instr_name f m = Inr m'" "renamed m0 m'" by blast
  have "printable m'" by (rule printable_renamed [OF p m'(2)])
  then have pf': "printable_value m' f" "\<forall>a \<in> set (arguments m' f). printable_value m' a"
    "\<forall>b \<in> set (block_list m' f). printable_block m' b"
    using f renamed_fields(5) [OF m'(2)] by (auto simp: printable_def)
  obtain x where x: "heap m' f = Some x" using pf'(1) by (auto simp: printable_value_def)
  have "returns (comma_texts (if is_declaration f m' then map (\<lambda>t. txt_const (print_type t)) (param_types (vtype x))
           else map (\<lambda>a. print_argument a m') (arguments m' f)))"
    by (rule returns_comma) (use pf'(2) print_argument_returns in \<open>auto intro: returns_Inr split: if_splits\<close>)
  then have "returns (seq_text ([txt_const (if is_declaration f m' then ''declare '' else ''define ''),
         txt_const (print_type (result_type (vtype x))), txt_const '' '', print_as_op f False m', txt_const ''('',
         comma_texts (if is_declaration f m' then map (\<lambda>t. txt_const (print_type t)) (param_types (vtype x))
           else map (\<lambda>a. print_argument a m') (arguments m' f)),
         txt_const '')''] @
       (if is_declaration f m' then [txt_const [CHR 0x0A]]
        else [txt_const '' {'', txt_const [CHR 0x0A]] @ map (\<lambda>b. print_basic_block b m') (block_list m' f) @ [txt_const ''}''])))"
    using pf'(3) print_basic_block_returns print_as_op_returns [OF pf'(1)]
    by (intro returns_seq) (auto intro: returns_Inr split: if_splits)
  then show ?thesis using m' x by (auto simp: print_function_def get_val_def returns_def)
qed

lemma ofold_total:
  assumes "\<And>x s. x \<in> set xs \<Longrightarrow> P s \<Longrightarrow> \<exists>s'. f x s = Some (Inr s') \<and> P s'" and "P s"
  shows "\<exists>s'. ofold f xs s = Some (Inr s') \<and> P s'"
  using assms
proof (induction xs arbitrary: s)
  case (Cons x xs)
  obtain t where t: "f x s = Some (Inr t)" "P t" using Cons.prems(1) [of x s] Cons.prems(2) by auto
  have "\<exists>s'. ofold f xs t = Some (Inr s') \<and> P s'"
    by (rule Cons.IH) (use Cons.prems(1) t(2) in auto)
  then show ?case using t(1) by simp
qed simp

lemma set_print_name_total:
  assumes p: "printable m"
  shows "\<exists>m'. set_print_name m = Inr m' \<and> renamed m m'"
  unfolding set_print_name_def
proof (rule rfold_total [where P = "renamed m"])
  show "\<exists>s'. set_instr_name f s = Inr s' \<and> renamed m s'" if f: "f \<in> set (function_list m)" and s: "renamed m s" for f s
    by (rule set_instr_name_total [OF s])
      (use p f in \<open>fastforce simp: printable_def printable_value_def printable_block_def printable_instr_def\<close>)+
qed (rule renamed_refl)

lemma print_module_total:
  assumes p: "printable m0" and rn: "renamed m0 m"
  shows "\<exists>t m'. print_module m = Some (Inr (t, m')) \<and> renamed m0 m'"
proof -
  note fl = renamed_fields [OF rn]
  have "returns (seq_text (concat (map (\<lambda>g. [print_global_variable g m, txt_const [CHR 0x0A]]) (global_list m))))"
    by (rule returns_seq)
      (use print_global_variable_returns printable_renamed [OF p rn] in \<open>auto simp: printable_def intro: returns_Inr\<close>)
  then obtain gs where gs: "seq_text (concat (map (\<lambda>g. [print_global_variable g m, txt_const [CHR 0x0A]]) (global_list m))) = Some (Inr gs)"
    by (auto simp: returns_def)
  have "\<exists>s. ofold (\<lambda>f (s, m). obind (print_function f m) (\<lambda>(t, m). Some (Inr (s @ t @ [CHR 0x0A], m))))
      (function_list m) (gs, m) = Some (Inr s) \<and> renamed m0 (snd s)"
  proof (rule ofold_total)
    fix f and s :: "string \<times> ir"
    assume f: "f \<in> set (function_list m)" and s: "renamed m0 (snd s)"
    obtain t m' where "print_function f (snd s) = Some (Inr (t, m'))" "renamed m0 m'"
      using print_function_returns [OF p s, of f] f fl(5) by metis
    then show "\<exists>s'. (case s of (s, m) \<Rightarrow> obind (print_function f m) (\<lambda>(t, m). Some (Inr (s @ t @ [CHR 0x0A], m)))) = Some (Inr s') \<and>
        renamed m0 (snd s')"
      by (cases s) simp
  qed (use rn in simp)
  then show ?thesis using gs by (simp add: print_module_def)
qed

section \<open>What the builder makes can be printed\<close>

lemma well_built_printable:
  assumes wb: "well_built m" and args: "args_ok m"
  shows "printable m"
proof -
  note u = well_builtD(1) [OF wb] and gr = well_builtD(2) [OF wb] and c = well_builtD(3) [OF wb] and d = well_builtD(4) [OF wb]
  have dat: "datum_ok m x" if "heap m a = Some x" for a x using d that by (simp add: data_ok_def)
  have val: "printable_value m a" if "heap m a = Some x" for a x
  proof -
    have "\<forall>es. kind x \<noteq> ConstantArrayV es" using dat [OF that] by (auto simp: datum_ok_def)
    then show ?thesis unfolding printable_value_def using that uses_okD(1) [OF u that] by blast
  qed
  have block: "printable_value m b" if b: "b \<in> set (block_list m f)" for b f
    using graph_okD(6) [OF gr b] val by blast
  have instr: "printable_instr m i" if i: "i \<in> set (instr_list m b)" for b i
  proof -
    obtain x where x: "heap m i = Some x" "is_instruction (kind x)" "None \<notin> set (operands x)"
      "arity_ok (op_id (kind x)) (length (operands x))" "typed_ops m (vtype x) (op_id (kind x)) (operands x)" "parent x = Some b"
      using code_okD(3) [OF c i] by (auto simp: instr_ok_def)
    obtain f where f: "b \<in> set (block_list m f)" using code_okD(2) [OF c i] by blast
    have pl: "placed m x" using x(6) graph_okD(6) [OF gr f] unfolding placed_def by auto
    obtain op where op: "kind x = InstructionV op" using x(2) by (cases "kind x") (auto simp: is_instruction_def)
    have ops: "\<exists>v. operands x ! k = Some v \<and> printable_value m v" if "k < length (operands x)" for k
    proof -
      have "operands x ! k \<in> set (operands x)" using that by simp
      then have "operands x ! k \<noteq> None" using x(3) by metis
      then obtain v where v: "operands x ! k = Some v" by blast
      then have "operand_at m i k = Some v" using x(1) that by (simp add: operand_at_def)
      then have "heap m v \<noteq> None" by (rule uses_okD(4) [OF u])
      then obtain y where "heap m v = Some y" by blast
      then show ?thesis using v val by blast
    qed
    have ty: "typed_ops m (vtype x) op (operands x)" using x(5) op by simp
    have "op \<noteq> Phi" using ty by (auto simp: typed_ops_def)
    moreover have "\<exists>f y. operands x ! 0 = Some f \<and> heap m f = Some y \<and> kind y = FunctionV" if "op = Call"
      using typed_opsD(4) [of m "vtype x" "operands x"] ty that graph_okD(2) [OF gr] by force
    moreover have "\<exists>v y t. operands x ! 0 = Some v \<and> heap m v = Some y \<and> vtype y = PointerTy t" if "op = Load"
      using typed_opsD(1) [of m "vtype x" "operands x"] ty that by force
    moreover have "\<exists>v y t. operands x ! 0 = Some v \<and> heap m v = Some y \<and> vtype y = PointerTy t" if g: "op = Getelementptr"
    proof -
      obtain v y e idxs where v: "operands x = Some v # idxs" "heap m v = Some y" "gep_element_type (vtype y) (length idxs) = Inr e"
        using typed_opsD(3) [of m "vtype x" "operands x"] ty g by auto
      have "\<exists>t. vtype y = PointerTy t"
        using v(3) by (cases "vtype y") (auto simp: gep_element_type_def get_pointer_element_type_def)
      then show ?thesis using v by auto
    qed
    moreover have "num_ops x = length (operands x)" using uses_okD(2) [OF u x(1)] by (simp add: val_ok_def)
    ultimately show ?thesis unfolding printable_instr_def using x(1,4) op ops pl by auto
  qed
  have global: "printable_global m g" if g: "g \<in> set (global_list m)" for g
  proof -
    obtain x c init where x: "heap m g = Some x" "kind x = GlobalVariableV c init"
      using d g unfolding data_ok_def global_at_def by blast
    then show ?thesis using dat [OF x(1)] uses_okD(1) [OF u x(1)] by (auto simp: printable_global_def datum_ok_def)
  qed
  have preds: "printable_value m p" if b: "b \<in> set (block_list m f)" and p: "p \<in> set (pre_list m b)" for b f p
  proof -
    have "p \<in> set (block_list m f)" using graph_okD(4) [OF gr, of f] b p by (auto simp: cfg_wf_def cfg_of_def)
    then show ?thesis by (rule block)
  qed
  have func: "printable_value m f" if "f \<in> set (function_list m)" for f
    using graph_okD(2) [OF gr, of f] that val by blast
  have arg: "printable_value m a" if "a \<in> set (arguments m f)" for a f
    using args that val unfolding args_ok_def by blast
  show ?thesis
    unfolding printable_def printable_block_def using global func arg block preds instr by blast
qed

end
