(* ===== verification/Compiled_Passes.thy ===== *)
theory Compiled_Passes
  imports Ir_Printable Compiler_Properties Mem2Reg_Phi
begin

text \<open>
  What follows for compiled modules as a whole: the dominator pass over all functions, and the
  hypotheses of \<^verbatim>\<open>generate_phi\<close>.
\<close>

section \<open>The dominator pass over a list of functions\<close>

lemma run_functions_ready:
  assumes "\<And>g. g \<in> set fs \<Longrightarrow> basic_blocks g = [] \<or> cfg_wf g \<and> (\<exists>r. get_entry_block g = Inr r \<and> pre_bbs g r = [])"
    and "sorted_wrt (\<lambda>g h. set (basic_blocks g) \<inter> set (basic_blocks h) = {}) fs"
    and "idom d None = None"
    and "\<And>g b. g \<in> set fs \<Longrightarrow> b \<in> set (basic_blocks g) \<Longrightarrow>
      dom_frontier d (Some b) = {} \<and> dom_tree_succ_blocks d (Some b) = {}"
    and "ofold run_function fs d \<noteq> None"
  shows "\<forall>g \<in> set fs. basic_blocks g = [] \<or> pass_ready g"
  using assms
proof (induction fs arbitrary: d)
  case (Cons g fs)
  have run: "run_function g d \<noteq> None" using Cons.prems(5) by (cases "run_function g d") auto
  have ready: "basic_blocks g = [] \<or> pass_ready g"
    using Cons.prems(1) [of g] run_function_iff [OF _ _ _ Cons.prems(3)] run by (auto simp: pass_ready_def)
  obtain d1 where d1: "run_function g d = Some (Inr d1)" "keeps_outside (set (basic_blocks g)) d d1"
    using run_function_ready [OF ready Cons.prems(3) Cons.prems(4)] by (meson list.set_intros(1))
  have apart: "b \<notin> set (basic_blocks g)" if "h \<in> set fs" "b \<in> set (basic_blocks h)" for h b
    using Cons.prems(2) that by auto
  have "\<forall>g \<in> set fs. basic_blocks g = [] \<or> pass_ready g"
  proof (rule Cons.IH)
    show "idom d1 None = None" using d1(2) Cons.prems(3) by (simp add: keeps_outside_def)
    show "dom_frontier d1 (Some b) = {} \<and> dom_tree_succ_blocks d1 (Some b) = {}"
      if "h \<in> set fs" "b \<in> set (basic_blocks h)" for h b
      using d1(2) apart [OF that] Cons.prems(4) [of h b] that by (simp add: keeps_outside_def)
    show "ofold run_function fs d1 \<noteq> None" using Cons.prems(5) d1(1) by simp
  qed (use Cons.prems in auto)
  then show ?case using ready by simp
qed simp

lemma apart_sorted:
  "distinct fs \<Longrightarrow> (\<And>f g. f \<in> set fs \<Longrightarrow> g \<in> set fs \<Longrightarrow> f \<noteq> g \<Longrightarrow> R (h f) (h g)) \<Longrightarrow> sorted_wrt R (map h fs)"
  by (induction fs) auto

lemma compiled_graphs:
  assumes "compile p = Inr m"
  shows "\<And>g. g \<in> set (map (cfg_of m) (function_list m)) \<Longrightarrow> basic_blocks g = [] \<or>
      cfg_wf g \<and> (\<exists>r. get_entry_block g = Inr r \<and> pre_bbs g r = [])"
    "sorted_wrt (\<lambda>g h. set (basic_blocks g) \<inter> set (basic_blocks h) = {}) (map (cfg_of m) (function_list m))"
proof -
  have gr: "graph_ok m" using compile_top [OF assms] by (auto simp: well_built_def)
  show "basic_blocks g = [] \<or> cfg_wf g \<and> (\<exists>r. get_entry_block g = Inr r \<and> pre_bbs g r = [])"
    if "g \<in> set (map (cfg_of m) (function_list m))" for g
  proof -
    obtain f where f: "g = cfg_of m f" using \<open>g \<in> set (map (cfg_of m) (function_list m))\<close> by auto
    show ?thesis
    proof (cases "block_list m f = []")
      case False
      then show ?thesis using compile_pass_entry [OF assms False] f by blast
    qed (simp add: f cfg_of_def)
  qed
  show "sorted_wrt (\<lambda>g h. set (basic_blocks g) \<inter> set (basic_blocks h) = {}) (map (cfg_of m) (function_list m))"
    by (rule apart_sorted [OF graph_okD(1) [OF gr]]) (use block_unique [OF gr] in \<open>auto simp: cfg_of_def\<close>)
qed

lemma compiled_dominators:
  assumes c: "compile p = Inr m"
  shows "run_dominators (map (cfg_of m) (function_list m)) \<noteq> None \<longleftrightarrow>
      (\<forall>f. block_list m f \<noteq> [] \<longrightarrow> frontier_safe (cfg_of m f) (hd (block_list m f)))"
    "run_dominators (map (cfg_of m) (function_list m)) = Some r \<Longrightarrow>
      \<exists>d. r = Inr d \<and> (\<forall>f. block_list m f \<noteq> [] \<longrightarrow> dominators_of (cfg_of m f) (hd (block_list m f)) d)"
proof -
  have gr: "graph_ok m" using compile_top [OF c] by (auto simp: well_built_def)
  let ?fs = "map (cfg_of m) (function_list m)"
  have member: "f \<in> set (function_list m)" if "block_list m f \<noteq> []" for f
    using graph_okD(3) [OF gr, of "hd (block_list m f)" f] that by simp
  have ready: "(\<forall>g \<in> set ?fs. basic_blocks g = [] \<or> pass_ready g) \<longleftrightarrow>
      (\<forall>f. block_list m f \<noteq> [] \<longrightarrow> frontier_safe (cfg_of m f) (hd (block_list m f)))"
    (is "?R \<longleftrightarrow> ?S")
  proof
    assume r: ?R
    show ?S
    proof (intro allI impI)
      fix f
      assume f: "block_list m f \<noteq> []"
      then have "pass_ready (cfg_of m f)" using r member [OF f] by (auto simp: cfg_of_def)
      then show "frontier_safe (cfg_of m f) (hd (block_list m f))"
        using compile_pass_entry(2) [OF c f] by (auto simp: pass_ready_def)
    qed
  next
    assume s: ?S
    have "basic_blocks (cfg_of m f) = [] \<or> pass_ready (cfg_of m f)" for f
    proof (cases "block_list m f = []")
      case False
      then show ?thesis using compile_pass_entry [OF c False] s by (auto simp: pass_ready_def)
    qed (simp add: cfg_of_def)
    then show ?R by simp
  qed
  have only_if: "?R" if "run_dominators ?fs \<noteq> None"
    using run_functions_ready [OF compiled_graphs(1) [OF c] compiled_graphs(2) [OF c], of dominators_init] that
    by (simp add: run_dominators_def dominators_init_fields)
  have forth: "\<exists>d. run_dominators ?fs = Some (Inr d) \<and> (\<forall>g \<in> set ?fs. \<forall>r. get_entry_block g = Inr r \<longrightarrow> dominators_of g r d)" if ?R
    using run_functions_spec [of ?fs dominators_init] that compiled_graphs(2) [OF c]
    by (auto simp: run_dominators_def dominators_init_fields)
  show "run_dominators ?fs \<noteq> None \<longleftrightarrow> (\<forall>f. block_list m f \<noteq> [] \<longrightarrow> frontier_safe (cfg_of m f) (hd (block_list m f)))"
    using only_if forth ready by (metis option.distinct(1))
  show "\<exists>d. r = Inr d \<and> (\<forall>f. block_list m f \<noteq> [] \<longrightarrow> dominators_of (cfg_of m f) (hd (block_list m f)) d)"
    if r: "run_dominators ?fs = Some r"
  proof -
    obtain d where d: "run_dominators ?fs = Some (Inr d)" "\<forall>g \<in> set ?fs. \<forall>r. get_entry_block g = Inr r \<longrightarrow> dominators_of g r d"
      using forth only_if r by (metis option.distinct(1))
    have "dominators_of (cfg_of m f) (hd (block_list m f)) d" if f: "block_list m f \<noteq> []" for f
      using d(2) member [OF f] compile_pass_entry(2) [OF c f] by simp
    then show ?thesis using d(1) r by auto
  qed
qed

section \<open>Phi functions\<close>

lemma well_built_stores_ok:
  assumes "well_built m"
  shows "stores_ok m b"
  unfolding stores_ok_def
proof (intro ballI)
  fix i
  assume "i \<in> set (instr_list m b)"
  then obtain x where x: "heap m i = Some x" "typed_ops m (vtype x) (op_id (kind x)) (operands x)"
    using code_okD(3) [OF well_builtD(3) [OF assms]] by (auto simp: instr_ok_def)
  have "\<exists>v y t. operand_at m i 1 = Some v \<and> heap m v = Some y \<and> vtype y = PointerTy t" if "kind x = InstructionV Store"
    using typed_opsD(2) [of m "vtype x" "operands x"] x that by (auto simp: operand_at_def)
  then show "\<exists>x. heap m i = Some x \<and> (kind x = InstructionV Store \<longrightarrow>
      (\<exists>v y t. operand_at m i 1 = Some v \<and> heap m v = Some y \<and> vtype y = PointerTy t))" using x(1) by blast
qed

end
