(* ===== verification/Mem2Reg_Rename.thy ===== *)
theory Mem2Reg_Rename
  imports Mem2Reg_Phi Compiled_Passes
begin

text \<open>
  Steps 4 and 5 of \<^verbatim>\<open>re_name\<close> against the meaning of a block: the loads of local variables are
  replaced, the stores become the latest values, and the instructions that stay compute the same.
\<close>

section \<open>The meaning of a block\<close>

definition kind_at :: "ir \<Rightarrow> addr \<Rightarrow> value_kind option" where
  "kind_at m a = map_option kind (heap m a)"

definition operands_at :: "ir \<Rightarrow> addr \<Rightarrow> addr option list" where
  "operands_at m a = (case heap m a of Some x \<Rightarrow> operands x | None \<Rightarrow> [])"

text \<open>The variable that a load reads or a store writes, with the stored value.\<close>

definition access :: "ir \<Rightarrow> addr \<Rightarrow> (addr \<times> addr option) option" where
  "access m i =
     (let local = (\<lambda>v. kind_at m v = Some (InstructionV Alloca)) in
      case (kind_at m i, operands_at m i) of
        (Some (InstructionV Load), [Some v]) \<Rightarrow> if local v then Some (v, None) else None
      | (Some (InstructionV Store), [Some r, Some v]) \<Rightarrow> if local v then Some (v, Some r) else None
      | _ \<Rightarrow> None)"

text \<open>The value of a phi function comes from the edge that was taken, not from its operands.\<close>

definition inputs :: "ir \<Rightarrow> addr \<Rightarrow> addr option list" where
  "inputs m i = (if kind_at m i = Some (InstructionV Phi) then [] else operands_at m i)"

text \<open>
  A step: loads and stores of local variables work on \<open>mem\<close>; \<open>f\<close> is what any other instruction does
  with the values of its operands and the rest \<open>w\<close> of the world. \<open>env\<close> holds the values.
\<close>

definition exec :: "(addr \<Rightarrow> 'v option list \<Rightarrow> 'w \<Rightarrow> 'v \<times> 'w) \<Rightarrow> ir \<Rightarrow> addr \<Rightarrow>
    (addr \<Rightarrow> 'v) \<times> (addr \<Rightarrow> 'v) \<times> 'w \<Rightarrow> (addr \<Rightarrow> 'v) \<times> (addr \<Rightarrow> 'v) \<times> 'w" where
  "exec f m i = (\<lambda>(env, mem, w). case access m i of
       Some (v, None) \<Rightarrow> (env(i := mem v), mem, w)
     | Some (v, Some r) \<Rightarrow> (env, mem(v := env r), w)
     | None \<Rightarrow> (case f i (map (map_option env) (inputs m i)) w of (y, w') \<Rightarrow> (env(i := y), mem, w')))"

text \<open>Values are computed before they are used, and addresses are variables, elements or globals.\<close>

fun ordered :: "ir \<Rightarrow> addr list \<Rightarrow> bool" where
  "ordered m [] = True"
| "ordered m (i # is) = (i \<notin> set is \<and> (\<forall>a \<in> set (i # is). Some a \<notin> set (inputs m i)) \<and> ordered m is)"

definition addressable :: "ir \<Rightarrow> addr \<Rightarrow> bool" where
  "addressable m v = (case kind_at m v of
       Some (InstructionV op) \<Rightarrow> op \<in> {Alloca, Getelementptr}
     | Some (GlobalVariableV _ _) \<Rightarrow> True
     | _ \<Rightarrow> False)"

definition plain :: "ir \<Rightarrow> addr \<Rightarrow> bool" where
  "plain m i = (case (kind_at m i, operands_at m i) of
       (Some (InstructionV Load), [Some v]) \<Rightarrow> addressable m v
     | (Some (InstructionV Load), _) \<Rightarrow> False
     | (Some (InstructionV Store), [Some r, Some v]) \<Rightarrow> addressable m v
     | (Some (InstructionV Store), _) \<Rightarrow> False
     | (Some _, _) \<Rightarrow> True
     | (None, _) \<Rightarrow> False)"

text \<open>A variable that is on a stack has its latest value there, any other one in memory.\<close>

definition latest :: "mem2reg \<Rightarrow> (addr \<Rightarrow> 'v) \<Rightarrow> (addr \<Rightarrow> 'v) \<Rightarrow> addr \<Rightarrow> 'v" where
  "latest p env mem v = (case var_val_stack p v of Some st \<Rightarrow> env (last st) | None \<Rightarrow> mem v)"

section \<open>Replacing in all operands\<close>

definition ap :: "(addr \<rightharpoonup> addr) \<Rightarrow> addr \<Rightarrow> addr" where
  "ap sub a = (case sub a of Some b \<Rightarrow> b | None \<Rightarrow> a)"

definition renamed_by :: "(addr \<rightharpoonup> addr) \<Rightarrow> ir \<Rightarrow> ir \<Rightarrow> bool" where
  "renamed_by sub m m' \<longleftrightarrow> (\<forall>a. kind_at m' a = kind_at m a \<and> operands_at m' a = map (map_option (ap sub)) (operands_at m a))"

lemma renamed_byD:
  assumes "renamed_by sub m m'"
  shows "kind_at m' a = kind_at m a" "operands_at m' a = map (map_option (ap sub)) (operands_at m a)"
    "heap m' a = None \<longleftrightarrow> heap m a = None"
proof -
  show k: "kind_at m' a = kind_at m a" and "operands_at m' a = map (map_option (ap sub)) (operands_at m a)"
    using assms by (simp_all add: renamed_by_def)
  show "heap m' a = None \<longleftrightarrow> heap m a = None" using k by (cases "heap m a"; cases "heap m' a") (auto simp: kind_at_def)
qed

lemma renamed_by_refl: "renamed_by Map.empty m m"
proof -
  have "map_option (ap Map.empty) = id" by (auto simp: ap_def fun_eq_iff option.map_ident_strong)
  then show ?thesis by (simp add: renamed_by_def)
qed

lemma operand_at_nth: "operand_at m u k = (if k < length (operands_at m u) then operands_at m u ! k else None)"
  by (auto simp: operand_at_def operands_at_def split: option.splits)

lemma replace_renamed:
  assumes ok: "uses_ok m1" and ren: "renamed_by sub m m1" and i: "heap m i \<noteq> None" "sub i = None" "i \<notin> ran sub"
    and x: "heap m x \<noteq> None" "x \<noteq> i"
  shows "\<exists>m2. replace_all_use_with i x m1 = Some (Inr m2) \<and> uses_ok m2 \<and> renamed_by (sub(i \<mapsto> x)) m m2"
proof -
  obtain y where y: "heap m1 i = Some y" using i(1) renamed_byD(3) [OF ren, of i] by auto
  have x1: "heap m1 x \<noteq> None" using x(1) renamed_byD(3) [OF ren, of x] by simp
  obtain m2 where m2: "replace_all_use_with i x m1 = Some (Inr m2)" "uses_ok m2"
    and op: "\<And>u k. operand_at m2 u k = (if operand_at m1 u k = Some i then Some x else operand_at m1 u k)"
    using replace_all_use_with_spec [OF ok y x1 x(2)] by blast
  have "replace_uses i x 0 m1 = Some (Inr (redirect (use_list y) x m1))"
    using replace_uses_spec [OF ok y x1 x(2), of "[]" "use_list y"] by (simp add: redirect_Nil)
  then have h: "map_option (\<lambda>z. (kind z, length (operands z))) (heap m2 a) = map_option (\<lambda>z. (kind z, length (operands z))) (heap m1 a)" for a
    using m2(1) y by (auto simp: replace_all_use_with_def upd_val_def get_val_def redirect_def option.map_comp comp_def)
  have k: "kind_at m2 a = kind_at m1 a" "length (operands_at m2 a) = length (operands_at m1 a)" for a
    using h [of a] by (cases "heap m2 a"; cases "heap m1 a"; simp add: kind_at_def operands_at_def)+
  have "operands_at m2 a = map (map_option (ap (sub(i \<mapsto> x)))) (operands_at m a)" for a
  proof (rule nth_equalityI)
    show len: "length (operands_at m2 a) = length (map (map_option (ap (sub(i \<mapsto> x)))) (operands_at m a))"
      using k(2) renamed_byD(2) [OF ren] by simp
    fix j
    assume j: "j < length (operands_at m2 a)"
    have "operands_at m1 a ! j = map_option (ap sub) (operands_at m a ! j)"
      using j len renamed_byD(2) [OF ren, of a] by simp
    moreover have "operands_at m2 a ! j = (if operands_at m1 a ! j = Some i then Some x else operands_at m1 a ! j)"
      using op [of a j] j k(2) by (simp add: operand_at_nth)
    moreover have "ap sub b = i \<longleftrightarrow> b = i" for b
      using i(2,3) by (auto simp: ap_def ran_def split: option.splits)
    moreover have "ap (sub(i \<mapsto> x)) b = (if b = i then x else ap sub b)" for b by (simp add: ap_def)
    ultimately show "operands_at m2 a ! j = map (map_option (ap (sub(i \<mapsto> x)))) (operands_at m a) ! j"
      using j len by (cases "operands_at m a ! j") auto
  qed
  then show ?thesis using m2 k(1) renamed_byD(1) [OF ren] by (auto simp: renamed_by_def)
qed

section \<open>One step\<close>

lemma kind_at_Some: "kind_at m a = Some k \<longleftrightarrow> (\<exists>x. heap m a = Some x \<and> kind x = k)"
  by (auto simp: kind_at_def)

lemma deref_operands_at:
  assumes "operands_at m i = ops" "j < length ops" "ops ! j = Some a"
  shows "deref_operand i j m = Inr a"
  using assms by (cases "heap m i") (auto simp: deref_operand_def get_operand_def get_val_def operands_at_def)

lemma addressable_cases:
  assumes "addressable m v"
  obtains "kind_at m v = Some (InstructionV Alloca)" | "kind_at m v = Some (InstructionV Getelementptr)"
    | c k where "kind_at m v = Some (GlobalVariableV c k)"
  using assms unfolding addressable_def by (auto split: option.splits value_kind.splits)

lemma is_promoted_kind:
  assumes "kind_at m' v = kind_at m v" "addressable m v"
  shows "is_promoted v m' = Inr (kind_at m v = Some (InstructionV Alloca))"
proof -
  have "is_promoted v m' = Inr (k = InstructionV Alloca)"
    if "kind_at m' v = Some k" "k = InstructionV Alloca \<or> k = InstructionV Getelementptr \<or> (\<exists>c j. k = GlobalVariableV c j)" for k
    using that by (auto simp: is_promoted_def get_val_def kind_at_Some)
  then show ?thesis using assms(1) by (cases rule: addressable_cases [OF assms(2)]) auto
qed

text \<open>Addresses are never replaced, as they are no loads.\<close>

definition replaces_loads :: "ir \<Rightarrow> (addr \<rightharpoonup> addr) \<Rightarrow> bool" where
  "replaces_loads m sub \<longleftrightarrow> (\<forall>a \<in> dom sub. kind_at m a = Some (InstructionV Load))"

lemma ap_addressable: "replaces_loads m sub \<Longrightarrow> addressable m v \<Longrightarrow> ap sub v = v"
  by (cases "sub v"; erule addressable_cases; force simp: replaces_loads_def ap_def)

text \<open>The invariant: the module is \<open>m\<close> with replaced loads, and every stack has a latest value that is computed already.\<close>

definition renaming :: "ir \<Rightarrow> addr list \<Rightarrow> (addr \<rightharpoonup> addr) \<Rightarrow> mem2reg \<Rightarrow> bool" where
  "renaming m rest sub p \<longleftrightarrow> uses_ok (m2_ir p) \<and> renamed_by sub m (m2_ir p) \<and> replaces_loads m sub \<and>
     (\<forall>a \<in> set rest. a \<notin> dom sub \<and> a \<notin> ran sub) \<and> dom sub \<inter> ran sub = {} \<and>
     (\<forall>v st. var_val_stack p v = Some st \<longrightarrow>
       st \<noteq> [] \<and> heap m (last st) \<noteq> None \<and> last st \<notin> set rest \<and> last st \<notin> dom sub)"

text \<open>The values agree, and the variables have their latest values.\<close>

definition agree :: "(addr \<rightharpoonup> addr) \<Rightarrow> mem2reg \<Rightarrow> (addr \<Rightarrow> 'v) \<times> (addr \<Rightarrow> 'v) \<times> 'w \<Rightarrow> (addr \<Rightarrow> 'v) \<times> (addr \<Rightarrow> 'v) \<times> 'w \<Rightarrow> bool" where
  "agree sub p = (\<lambda>(env, mem, w) (env', mem', w'). w = w' \<and> (\<forall>a. env a = env' (ap sub a)) \<and>
     (\<forall>v. mem v = latest p env' mem' v))"

lemma plain_cases:
  assumes "plain m i"
  obtains (load) v where "kind_at m i = Some (InstructionV Load)" "operands_at m i = [Some v]" "addressable m v"
    | (store) r v where "kind_at m i = Some (InstructionV Store)" "operands_at m i = [Some r, Some v]" "addressable m v"
    | (other) k where "kind_at m i = Some k" "k \<noteq> InstructionV Load" "k \<noteq> InstructionV Store"
proof (cases "kind_at m i")
  case (Some k)
  consider "k = InstructionV Load" | "k = InstructionV Store" | "k \<noteq> InstructionV Load" "k \<noteq> InstructionV Store" by blast
  then show ?thesis
  proof cases
    case 1
    then have "\<exists>v. operands_at m i = [Some v] \<and> addressable m v" using assms Some unfolding plain_def
      by (cases "operands_at m i"; cases "hd (operands_at m i)"; cases "tl (operands_at m i)") auto
    then show ?thesis using Some 1 load by blast
  next
    case 2
    then have "\<exists>r v. operands_at m i = [Some r, Some v] \<and> addressable m v" using assms Some unfolding plain_def
      by (cases "operands_at m i"; cases "hd (operands_at m i)"; cases "tl (operands_at m i)";
          cases "hd (tl (operands_at m i))"; cases "tl (tl (operands_at m i))") auto
    then show ?thesis using Some 2 store by blast
  qed (use Some other in blast)
qed (use assms in \<open>simp add: plain_def\<close>)

lemma access_other: "kind_at m i = Some k \<Longrightarrow> k \<noteq> InstructionV Load \<Longrightarrow> k \<noteq> InstructionV Store \<Longrightarrow> access m i = None"
  by (auto simp: access_def split: value_kind.splits OpID.splits)

lemma access_Some:
  assumes "plain m i" "access m i = Some (v, r)"
  shows "addressable m v" "kind_at m v = Some (InstructionV Alloca)"
    "r = None \<Longrightarrow> kind_at m i = Some (InstructionV Load) \<and> operands_at m i = [Some v]"
    "r = Some a \<Longrightarrow> kind_at m i = Some (InstructionV Store) \<and> operands_at m i = [Some a, Some v]"
proof -
  have "addressable m v \<and> kind_at m v = Some (InstructionV Alloca) \<and>
    (case r of None \<Rightarrow> kind_at m i = Some (InstructionV Load) \<and> operands_at m i = [Some v]
     | Some a \<Rightarrow> kind_at m i = Some (InstructionV Store) \<and> operands_at m i = [Some a, Some v])"
    using assms(1)
  proof (cases rule: plain_cases)
    case (load u)
    then show ?thesis using assms(2) by (auto simp: access_def split: if_splits)
  next
    case (store q u)
    then show ?thesis using assms(2) by (auto simp: access_def split: if_splits)
  next
    case (other k)
    then show ?thesis using assms(2) access_other by simp
  qed
  then show "addressable m v" "kind_at m v = Some (InstructionV Alloca)"
    "r = None \<Longrightarrow> kind_at m i = Some (InstructionV Load) \<and> operands_at m i = [Some v]"
    "r = Some a \<Longrightarrow> kind_at m i = Some (InstructionV Store) \<and> operands_at m i = [Some a, Some v]"
    by simp_all
qed

lemma access_renamed:
  assumes ren: "renamed_by sub m m'" and ld: "replaces_loads m sub" and pl: "plain m i"
  shows "access m' i = map_option (\<lambda>(v, r). (v, map_option (ap sub) r)) (access m i)"
  using pl
proof (cases rule: plain_cases)
  case (load v)
  then show ?thesis using renamed_byD(1,2) [OF ren] ap_addressable [OF ld] by (simp add: access_def)
next
  case (store r v)
  then show ?thesis using renamed_byD(1,2) [OF ren] ap_addressable [OF ld] by (simp add: access_def)
next
  case (other k)
  then show ?thesis using access_other [of m i k] access_other [of m' i k] renamed_byD(1) [OF ren] by simp
qed

lemma agree_set:
  assumes "agree sub p (env, mem, w) (env', mem', w')" "sub i = None" "i \<notin> ran sub"
    and "\<And>v st. var_val_stack p v = Some st \<Longrightarrow> last st \<noteq> i"
  shows "agree sub p (env(i := y), mem, z) (env'(i := y), mem', z)"
proof -
  have "(env(i := y)) a = (env'(i := y)) (ap sub a)" for a
    using assms(1-3) by (auto simp: agree_def ap_def ran_def split: option.splits)
  moreover have "mem v = (case var_val_stack p v of Some st \<Rightarrow> (env'(i := y)) (last st) | None \<Rightarrow> mem' v)" for v
    using assms(1,4) by (auto simp: agree_def latest_def split: option.splits)
  ultimately show ?thesis by (simp add: agree_def latest_def)
qed

text \<open>The instructions that are waiting for their deletion are loads and stores of variables.\<close>

lemma rename_step:
  assumes inv: "renaming m (i # rest) sub p" and o: "ordered m (i # rest)" and pl: "plain m i"
  shows "\<exists>p1 sub1 del1. rename_instr i (p, del) = Some (Inr (p1, del @ del1)) \<and> renaming m rest sub1 p1 \<and>
    sub \<subseteq>\<^sub>m sub1 \<and> dom sub1 \<subseteq> dom sub \<union> set del1 \<and> (del1 = [] \<or> del1 = [i] \<and> access m i \<noteq> None) \<and>
    (\<forall>a \<in> set del1. kind_at m a = Some (InstructionV Load) \<longrightarrow> a \<in> dom sub1) \<and>
    (\<forall>sub' m'. renamed_by sub' m m' \<longrightarrow> replaces_loads m sub' \<longrightarrow> sub1 \<subseteq>\<^sub>m sub' \<longrightarrow> dom sub' \<subseteq> dom sub1 \<union> set rest \<longrightarrow>
      (\<forall>f s s'. agree sub p s s' \<longrightarrow> agree sub1 p1 (exec f m i s) (if del1 = [] then exec f m' i s' else s')))"
proof -
  have uses: "uses_ok (m2_ir p)" and ren: "renamed_by sub m (m2_ir p)" and ld: "replaces_loads m sub"
    and fresh: "\<And>a. a \<in> set (i # rest) \<Longrightarrow> sub a = None \<and> a \<notin> ran sub"
    and st: "\<And>v st. var_val_stack p v = Some st \<Longrightarrow> st \<noteq> [] \<and> heap m (last st) \<noteq> None \<and> last st \<notin> set (i # rest) \<and> last st \<notin> dom sub"
    and disj: "dom sub \<inter> ran sub = {}"
    using inv unfolding renaming_def by blast+
  have i: "sub i = None" "i \<notin> ran sub" "i \<notin> set rest" using fresh [of i] o by auto
  have inv_rest: "renaming m rest sub p" using inv unfolding renaming_def by auto
  obtain y where y: "heap m i = Some y" using pl by (cases "heap m i") (auto simp: plain_def kind_at_def)
  obtain y1 where y1: "heap (m2_ir p) i = Some y1" "kind y1 = kind y"
    using y renamed_byD(1) [OF ren, of i] by (auto simp: kind_at_def)
  have get: "get_val i (m2_ir p) = Inr y1" using y1 by (simp add: get_val_def)
  have ops: "operands_at (m2_ir p) i = map (map_option (ap sub)) (operands_at m i)" by (rule renamed_byD(2) [OF ren])
  show ?thesis
  proof (cases "access m i")
    case None
    have unchanged: "rename_instr i (p, del) = Some (Inr (p, del @ []))"
      using pl
    proof (cases rule: plain_cases)
      case (load v)
      then have "deref_operand i 0 (m2_ir p) = Inr v" using ops ap_addressable [OF ld] by (intro deref_operands_at) auto
      moreover have "is_promoted v (m2_ir p) = Inr False"
        using is_promoted_kind [OF renamed_byD(1) [OF ren] load(3)] None load by (auto simp: access_def split: if_splits)
      ultimately show ?thesis using get load y y1(2) by (simp add: rename_instr_def rename_load_def kind_at_def)
    next
      case (store r v)
      then have "deref_operand i 1 (m2_ir p) = Inr v" "deref_operand i 0 (m2_ir p) = Inr (ap sub r)"
        using ops ap_addressable [OF ld] by (auto intro!: deref_operands_at)
      moreover have "is_promoted v (m2_ir p) = Inr False"
        using is_promoted_kind [OF renamed_byD(1) [OF ren] store(3)] None store by (auto simp: access_def split: if_splits)
      ultimately show ?thesis using get store y y1(2) by (simp add: rename_instr_def rename_store_def kind_at_def)
    next
      case (other k)
      then show ?thesis using get y y1(2) by (simp add: rename_instr_def kind_at_def)
    qed
    have "agree sub p (exec f m i s) (exec f m' i s')"
      if "renamed_by sub' m m'" "replaces_loads m sub'" "sub \<subseteq>\<^sub>m sub'" "dom sub' \<subseteq> dom sub \<union> set rest" "agree sub p s s'"
      for sub' m' f s s'
    proof -
      obtain env mem w env' mem' w' where s: "s = (env, mem, w)" "s' = (env', mem', w')" by (cases s; cases s')
      have "ap sub' a = ap sub a" if "Some a \<in> set (inputs m i)" for a
      proof -
        have "a \<notin> set rest" using o that by auto
        then show ?thesis using that \<open>sub \<subseteq>\<^sub>m sub'\<close> \<open>dom sub' \<subseteq> dom sub \<union> set rest\<close>
          by (cases "a \<in> dom sub") (auto simp: ap_def map_le_def dom_def split: option.splits)
      qed
      moreover have "inputs m' i = map (map_option (ap sub')) (inputs m i)"
        using renamed_byD(1,2) [OF that(1)] by (simp add: inputs_def)
      moreover have "env a = env' (ap sub a)" "w = w'" for a using that(5) s by (simp_all add: agree_def)
      ultimately have "map (map_option env') (inputs m' i) = map (map_option env) (inputs m i)"
        by (auto simp: option.map_comp comp_def intro!: option.map_cong)
      moreover have "access m' i = None" using access_renamed [OF that(1,2) pl] None by simp
      moreover obtain z u where z: "f i (map (map_option env) (inputs m i)) w = (z, u)" by fastforce
      moreover have "agree sub p (env(i := z), mem, u) (env'(i := z), mem', u)"
        by (rule agree_set [OF _ i(1,2)]) (use that(5) s st in auto)
      ultimately show ?thesis using None \<open>w = w'\<close> by (simp add: s exec_def)
    qed
    then show ?thesis using unchanged inv_rest by (intro exI [of _ p] exI [of _ sub] exI [of _ "[]"]) (auto simp del: split_paired_All)
  next
    case (Some vr)
    obtain v r where vr: "vr = (v, r)" by (cases vr)
    have local: "addressable m v" "kind_at m v = Some (InstructionV Alloca)"
      using access_Some(1,2) [OF pl] Some vr by blast+
    have promoted: "is_promoted v (m2_ir p) = Inr True"
      using is_promoted_kind [OF renamed_byD(1) [OF ren] local(1)] local(2) by simp
    show ?thesis
    proof (cases r)
      case None
      have k: "kind_at m i = Some (InstructionV Load)" "operands_at m i = [Some v]"
        using access_Some(3) [OF pl, of v r] Some vr None by simp_all
      have d: "deref_operand i 0 (m2_ir p) = Inr v" using ops k ap_addressable [OF ld local(1)] by (intro deref_operands_at) auto
      have load: "rename_instr i (p, del) = rename_load i (p, del)"
        using get k y y1(2) by (simp add: rename_instr_def kind_at_def)
      show ?thesis
      proof (cases "var_val_stack p v")
        case none: None
        have "rename_instr i (p, del) = Some (Inr (p, del @ []))" using load d promoted none by (simp add: rename_load_def)
        moreover have "agree sub p (exec f m i s) (exec f m' i s')"
          if "renamed_by sub' m m'" "replaces_loads m sub'" "agree sub p s s'" for sub' m' f s s'
        proof -
          obtain env mem w env' mem' w' where s: "s = (env, mem, w)" "s' = (env', mem', w')" by (cases s; cases s')
          have "access m' i = Some (v, None)" using access_renamed [OF that(1,2) pl] Some vr None by simp
          moreover have "mem v = mem' v" "w = w'" using that(3) s none by (auto simp: agree_def latest_def split: option.splits)
          moreover have "agree sub p (env(i := mem v), mem, w) (env'(i := mem v), mem', w)"
            by (rule agree_set [OF _ i(1,2)]) (use that(3) s st in auto)
          ultimately show ?thesis using Some vr None s by (simp add: exec_def)
        qed
        ultimately show ?thesis using inv_rest by (intro exI [of _ p] exI [of _ sub] exI [of _ "[]"]) (auto simp del: split_paired_All)
      next
        case (Some l)
        let ?x = "last l" and ?sub = "sub(i \<mapsto> last l)"
        note x = st [OF Some]
        obtain m2 where m2: "replace_all_use_with i ?x (m2_ir p) = Some (Inr m2)" "uses_ok m2" "renamed_by ?sub m m2"
          using replace_renamed [OF uses ren _ i(1,2), of ?x] x y by auto
        have run: "rename_instr i (p, del) = Some (Inr (p\<lparr>m2_ir := m2\<rparr>, del @ [i]))"
          using load d promoted Some x m2(1) by (simp add: rename_load_def)
        have "renaming m rest ?sub (p\<lparr>m2_ir := m2\<rparr>)"
          using m2(2,3) ld k(1) x st i(1,3) fresh disj unfolding renaming_def
          by (auto simp: replaces_loads_def ran_def split: if_splits)
        moreover have "agree ?sub (p\<lparr>m2_ir := m2\<rparr>) (exec f m i s) s'" if "agree sub p s s'" for f and s s'
        proof -
          obtain env mem w env' mem' w' where s: "s = (env, mem, w)" "s' = (env', mem', w')" by (cases s; cases s')
          have "mem v = env' ?x" using that s Some by (auto simp: agree_def latest_def split: option.splits)
          moreover have "(env(i := mem v)) a = env' (ap ?sub a)" for a
            using that s calculation by (simp add: agree_def ap_def)
          ultimately show ?thesis using that s \<open>access m i = Some vr\<close> vr None by (simp add: exec_def agree_def latest_def)
        qed
        moreover have "sub \<subseteq>\<^sub>m ?sub" using i(1) by (auto simp: map_le_def)
        ultimately show ?thesis using run \<open>access m i = Some vr\<close>
          by (intro exI [of _ "p\<lparr>m2_ir := m2\<rparr>"] exI [of _ ?sub] exI [of _ "[i]"]) auto
      qed
    next
      case r: (Some a)
      have k: "kind_at m i = Some (InstructionV Store)" "operands_at m i = [Some a, Some v]"
        using access_Some(4) [OF pl, of v r a] Some vr r by simp_all
      have d: "deref_operand i 1 (m2_ir p) = Inr v" "deref_operand i 0 (m2_ir p) = Inr (ap sub a)"
        using ops k ap_addressable [OF ld local(1)] by (auto intro!: deref_operands_at)
      let ?p = "push_val v (ap sub a) p"
      have run: "rename_instr i (p, del) = Some (Inr (?p, del @ [i]))"
        using get k y y1(2) d promoted by (simp add: rename_instr_def rename_store_def kind_at_def)
      have "operand_at (m2_ir p) i 0 = Some (ap sub a)" using ops k by (simp add: operand_at_nth)
      then have "heap (m2_ir p) (ap sub a) \<noteq> None" by (rule uses_okD(4) [OF uses])
      then have alive: "heap m (ap sub a) \<noteq> None" using renamed_byD(3) [OF ren] by simp
      have "a \<notin> set (i # rest)" using o k by (auto simp: inputs_def)
      then have out: "ap sub a \<notin> set rest" "ap sub a \<notin> dom sub"
        using fresh disj by (cases "sub a"; auto simp: ap_def ran_def)+
      have "renaming m rest sub ?p"
        using inv_rest alive out unfolding renaming_def by (auto simp: push_val_def)
      moreover have "agree sub ?p (exec f m i s) s'" if "agree sub p s s'" for f and s s'
      proof -
        obtain env mem w env' mem' w' where s: "s = (env, mem, w)" "s' = (env', mem', w')" by (cases s; cases s')
        show ?thesis using that s Some vr r by (auto simp: exec_def agree_def latest_def push_val_def)
      qed
      ultimately show ?thesis using run Some k(1) by (intro exI [of _ ?p] exI [of _ sub] exI [of _ "[i]"]) auto
    qed
  qed
qed

section \<open>The block\<close>

lemma rename_fold:
  fixes f :: "addr \<Rightarrow> 'v option list \<Rightarrow> 'w \<Rightarrow> 'v \<times> 'w"
  assumes "renaming m rest sub p" "ordered m rest" "list_all (plain m) rest"
  shows "\<exists>p' del' sub'. ofold rename_instr rest (p, del) = Some (Inr (p', del @ del')) \<and> renaming m [] sub' p' \<and>
    sub \<subseteq>\<^sub>m sub' \<and> dom sub' \<subseteq> dom sub \<union> set del' \<and> (\<forall>a \<in> set del'. a \<in> set rest \<and> access m a \<noteq> None) \<and>
    (\<forall>a \<in> set del'. kind_at m a = Some (InstructionV Load) \<longrightarrow> a \<in> dom sub') \<and>
    (\<forall>s s'. agree sub p s s' \<longrightarrow>
      agree sub' p' (fold (exec f m) rest s) (fold (exec f (m2_ir p')) (filter (\<lambda>i. i \<notin> set del') rest) s'))"
  using assms
proof (induction rest arbitrary: p sub del)
  case Nil
  then show ?case by (intro exI [of _ p] exI [of _ "[]"] exI [of _ sub]) (auto simp del: split_paired_All)
next
  case (Cons i rest)
  have "plain m i" "i \<notin> set rest" "ordered m rest" "list_all (plain m) rest" using Cons.prems(2,3) by simp_all
  obtain p1 sub1 del1 where step: "rename_instr i (p, del) = Some (Inr (p1, del @ del1))" "renaming m rest sub1 p1"
      "sub \<subseteq>\<^sub>m sub1" "dom sub1 \<subseteq> dom sub \<union> set del1" "del1 = [] \<or> del1 = [i] \<and> access m i \<noteq> None"
      "\<forall>a \<in> set del1. kind_at m a = Some (InstructionV Load) \<longrightarrow> a \<in> dom sub1"
    and sim: "\<forall>sub' m'. renamed_by sub' m m' \<longrightarrow> replaces_loads m sub' \<longrightarrow> sub1 \<subseteq>\<^sub>m sub' \<longrightarrow> dom sub' \<subseteq> dom sub1 \<union> set rest \<longrightarrow>
      (\<forall>(f :: addr \<Rightarrow> 'v option list \<Rightarrow> 'w \<Rightarrow> 'v \<times> 'w) s s'. agree sub p s s' \<longrightarrow> agree sub1 p1 (exec f m i s) (if del1 = [] then exec f m' i s' else s'))"
    using rename_step [OF Cons.prems(1,2) \<open>plain m i\<close>, of del] by (elim exE conjE) (rule that; assumption)
  obtain p' del' sub' where rest: "ofold rename_instr rest (p1, del @ del1) = Some (Inr (p', (del @ del1) @ del'))"
      "renaming m [] sub' p'" "sub1 \<subseteq>\<^sub>m sub'" "dom sub' \<subseteq> dom sub1 \<union> set del'"
      "\<forall>a \<in> set del'. a \<in> set rest \<and> access m a \<noteq> None"
      "\<forall>a \<in> set del'. kind_at m a = Some (InstructionV Load) \<longrightarrow> a \<in> dom sub'"
    and sim': "\<forall>s s'. agree sub1 p1 s s' \<longrightarrow>
      agree sub' p' (fold (exec f m) rest s) (fold (exec f (m2_ir p')) (filter (\<lambda>i. i \<notin> set del') rest) s')"
    using Cons.IH [OF step(2) \<open>ordered m rest\<close> \<open>list_all (plain m) rest\<close>, of "del @ del1"] by (elim exE conjE) (rule that; assumption)
  have i: "i \<notin> set del'" using rest(5) \<open>i \<notin> set rest\<close> by blast
  have same: "filter (\<lambda>j. j \<notin> set (del1 @ del')) rest = filter (\<lambda>j. j \<notin> set del') rest"
    using step(5) \<open>i \<notin> set rest\<close> by (intro filter_cong) auto
  have "agree sub' p' (fold (exec f m) (i # rest) s) (fold (exec f (m2_ir p')) (filter (\<lambda>j. j \<notin> set (del1 @ del')) (i # rest)) s')"
    if "agree sub p s s'" for s s'
  proof -
    have "agree sub1 p1 (exec f m i s) (if del1 = [] then exec f (m2_ir p') i s' else s')"
      by (rule sim [THEN spec, of sub', THEN spec, THEN mp, THEN mp, THEN mp, THEN mp, THEN spec, THEN spec, THEN spec, THEN mp, OF _ _ rest(3)])
        (use rest(2,4,5) that in \<open>auto simp: renaming_def\<close>)
    from sim' [THEN spec, THEN spec, THEN mp, OF this] show ?thesis using step(5) i same by (auto simp del: split_paired_All)
  qed
  moreover have "ofold rename_instr (i # rest) (p, del) = Some (Inr (p', del @ (del1 @ del')))"
    using step(1) rest(1) by simp
  moreover have "sub \<subseteq>\<^sub>m sub'" using step(3) rest(3) by (rule map_le_trans)
  moreover have "dom sub' \<subseteq> dom sub \<union> set (del1 @ del')" using step(4) rest(4) unfolding set_append by blast
  moreover have "\<forall>a \<in> set (del1 @ del'). a \<in> set (i # rest) \<and> access m a \<noteq> None" using step(5) rest(5) by auto
  moreover have "\<forall>a \<in> set (del1 @ del'). kind_at m a = Some (InstructionV Load) \<longrightarrow> a \<in> dom sub'"
    using step(6) rest(6) map_le_implies_dom_le [OF rest(3)] unfolding set_append by blast
  ultimately show ?case using rest(2) by blast
qed

lemma rename_phis:
  assumes "\<forall>i \<in> set phis. kind_at (m2_ir p) i = Some (InstructionV Phi)"
  shows "ofold rename_instr (phis @ rest) (p, del) = ofold rename_instr rest (p, del)"
  using assms by (induction phis) (auto simp: rename_instr_def get_val_def kind_at_Some)

text \<open>The values of the instructions that stay, and the latest values of the variables, are those of the original.\<close>

definition same_result :: "addr list \<Rightarrow> mem2reg \<Rightarrow> (addr \<Rightarrow> 'v) \<times> (addr \<Rightarrow> 'v) \<times> 'w \<Rightarrow> (addr \<Rightarrow> 'v) \<times> (addr \<Rightarrow> 'v) \<times> 'w \<Rightarrow> bool" where
  "same_result del p = (\<lambda>(env, mem, w) (env', mem', w'). w = w' \<and> (\<forall>a. a \<notin> set del \<longrightarrow> env a = env' a) \<and>
     (\<forall>v. mem v = latest p env' mem' v))"

lemma same_result_world: "same_result del p s s' \<Longrightarrow> snd (snd s) = snd (snd s')"
  by (auto simp: same_result_def)

end
