(* ===== verification/Mem2Reg_Unset.thy ===== *)
theory Mem2Reg_Unset
  imports Mem2Reg Ir_Uses
begin

text \<open>
  A local variable that no store has to do with: the pass never finds a value for it, so it keeps
  its loads, and at last deletes the variable.
\<close>

section \<open>What the pass keeps of the variable and its load\<close>

text \<open>
  \<open>i\<close> is a load, in the block \<open>b\<close>, of the variable \<open>v\<close>. The variable is deleted, or an alloca of
  the type that \<open>t\<close> gives in the block \<open>c\<close> of the function \<open>f\<close>. The load is in no list of uses but that of \<open>v\<close>,
  and \<open>v\<close> is not an operand of a store.
\<close>

definition unset :: "addr \<Rightarrow> addr \<Rightarrow> addr \<Rightarrow> addr \<Rightarrow> addr \<Rightarrow> ty option \<Rightarrow> ir \<Rightarrow> bool" where
  "unset i v b c f t m \<longleftrightarrow>
     (\<exists>x. heap m i = Some x \<and> kind x = InstructionV Load \<and> operands x = [Some v]) \<and> i \<in> set (instr_list m b) \<and>
     i < next_addr m \<and> v < next_addr m \<and> c \<in> set (block_list m f) \<and>
     (\<forall>x. heap m v = Some x \<longrightarrow> kind x = InstructionV Alloca \<and> t = Some (vtype x) \<and> v \<in> set (instr_list m c)) \<and>
     (\<forall>a x. heap m a = Some x \<longrightarrow> (a \<noteq> v \<longrightarrow> i \<notin> fst ` set (use_list x)) \<and>
        (kind x = InstructionV Store \<longrightarrow> Some v \<notin> set (operands x)))"

lemma unsetD:
  assumes "unset i v b c f t m"
  shows "\<exists>x. heap m i = Some x \<and> kind x = InstructionV Load \<and> operands x = [Some v]" "i \<in> set (instr_list m b)"
    "c \<in> set (block_list m f)" "i < next_addr m" "v < next_addr m"
    "heap m v = Some x \<Longrightarrow> kind x = InstructionV Alloca" "heap m v = Some x \<Longrightarrow> t = Some (vtype x)"
    "heap m v = Some x \<Longrightarrow> v \<in> set (instr_list m c)"
    "heap m a = Some x \<Longrightarrow> a \<noteq> v \<Longrightarrow> (i, n) \<notin> set (use_list x)"
    "heap m a = Some x \<Longrightarrow> kind x = InstructionV Store \<Longrightarrow> Some v \<notin> set (operands x)"
    "heap m a = Some x \<Longrightarrow> kind x \<noteq> InstructionV Alloca \<Longrightarrow> a \<noteq> v"
    "heap m a = Some x \<Longrightarrow> kind x \<noteq> InstructionV Load \<Longrightarrow> a \<noteq> i"
proof -
  note u = assms [unfolded unset_def]
  show "\<exists>x. heap m i = Some x \<and> kind x = InstructionV Load \<and> operands x = [Some v]" "i \<in> set (instr_list m b)"
    "c \<in> set (block_list m f)" "i < next_addr m" "v < next_addr m" using u by blast+
  show "heap m v = Some x \<Longrightarrow> kind x = InstructionV Alloca" "heap m v = Some x \<Longrightarrow> t = Some (vtype x)"
    "heap m v = Some x \<Longrightarrow> v \<in> set (instr_list m c)" using u by blast+
  show "heap m a = Some x \<Longrightarrow> a \<noteq> v \<Longrightarrow> (i, n) \<notin> set (use_list x)" using u by force
  show "heap m a = Some x \<Longrightarrow> kind x = InstructionV Store \<Longrightarrow> Some v \<notin> set (operands x)" using u by blast
  show "heap m a = Some x \<Longrightarrow> kind x \<noteq> InstructionV Alloca \<Longrightarrow> a \<noteq> v" using u by blast
  show "heap m a = Some x \<Longrightarrow> kind x \<noteq> InstructionV Load \<Longrightarrow> a \<noteq> i" using u by auto
qed

lemma unset_upd:
  assumes m: "unset i v b c f t m" and r: "upd_val a g m = Inr m'"
    and g: "\<And>x. heap m a = Some x \<Longrightarrow> kind (g x) = kind x \<and> vtype (g x) = vtype x \<and>
      (a = i \<longrightarrow> operands (g x) = operands x) \<and>
      (kind x = InstructionV Store \<longrightarrow> Some v \<notin> set (operands x) \<longrightarrow> Some v \<notin> set (operands (g x))) \<and>
      (a \<noteq> v \<longrightarrow> i \<notin> fst ` set (use_list x) \<longrightarrow> i \<notin> fst ` set (use_list (g x)))"
  shows "unset i v b c f t m'"
proof -
  obtain x where x: "heap m a = Some x" "m' = m\<lparr>heap := (heap m)(a \<mapsto> g x)\<rparr>"
    using r by (auto simp: upd_val_def get_val_def split: option.splits)
  show ?thesis
    using m g [OF x(1)] x(1) unfolding unset_def x(2) by auto
qed

lemma unset_add_use: "unset i v b c f t m \<Longrightarrow> add_use a u n m = Inr m' \<Longrightarrow> u \<noteq> i \<Longrightarrow> unset i v b c f t m'"
  unfolding add_use_def by (erule unset_upd) auto

lemma unset_remove_use: "unset i v b c f t m \<Longrightarrow> remove_use a u m = Inr m' \<Longrightarrow> unset i v b c f t m'"
  unfolding remove_use_def by (erule unset_upd) auto

lemma unset_set_operand:
  assumes m: "unset i v b c f t m" and r: "set_operand u n w m = Inr m'" and u: "u \<noteq> i" "w \<noteq> v"
  shows "unset i v b c f t m'"
proof -
  obtain m1 where r1: "upd_val u (\<lambda>x. x\<lparr>operands := (operands x)[n := Some w]\<rparr>) m = Inr m1" and r2: "add_use w u n m1 = Inr m'"
    using r by (auto simp: set_operand_def rbind_eq_Inr split: if_splits)
  have "unset i v b c f t m1"
    by (rule unset_upd [OF m r1]) (use u in \<open>auto dest: subsetD [OF set_update_subset_insert]\<close>)
  then show ?thesis using r2 u(1) by (rule unset_add_use)
qed

lemma unset_add_operand:
  assumes m: "unset i v b c f t m" and r: "add_operand u w m = Inr m'"
    and u: "\<And>x. heap m u = Some x \<Longrightarrow> kind x = InstructionV Phi"
  shows "unset i v b c f t m'"
proof -
  obtain m1 m2 n where r1: "upd_val u (\<lambda>x. x\<lparr>operands := operands x @ [Some w]\<rparr>) m = Inr m1"
    and r2: "add_use w u n m1 = Inr m2" and r3: "upd_val u (\<lambda>x. x\<lparr>num_ops := num_ops x + 1\<rparr>) m2 = Inr m'"
    using r by (auto simp: add_operand_def rbind_eq_Inr)
  have ui: "u \<noteq> i" using unsetD(1) [OF m] u by force
  have "unset i v b c f t m1" by (rule unset_upd [OF m r1]) (use u ui in auto)
  then have "unset i v b c f t m2" using r2 ui by (rule unset_add_use)
  then show ?thesis by (rule unset_upd [OF _ r3]) auto
qed

lemma add_operand_kind:
  assumes "add_operand u w m = Inr m'" "heap m u = Some x" "heap m' u = Some x'"
  shows "kind x' = kind x"
  using assms
  by (auto simp: add_operand_def add_use_def upd_val_def get_val_def rbind_eq_Inr split: option.splits if_splits)

lemma unset_add_phi_pair_operand:
  assumes m: "unset i v b c f t m" and r: "add_phi_pair_operand u w d m = Inr m'" and x: "heap m u = Some x" "kind x = InstructionV Phi"
  shows "unset i v b c f t m'"
proof -
  obtain m1 where r1: "add_operand u w m = Inr m1" and r2: "add_operand u d m1 = Inr m'"
    using r by (auto simp: add_phi_pair_operand_def rbind_eq_Inr)
  have "unset i v b c f t m1" by (rule unset_add_operand [OF m r1]) (use x in auto)
  then show ?thesis
    by (rule unset_add_operand [OF _ r2]) (use add_operand_kind [OF r1 x(1)] x(2) in auto)
qed

lemma unset_replace_uses:
  assumes "replace_uses a w n m = Some r"
  shows "r = Inr m' \<Longrightarrow> unset i v b c f t m \<Longrightarrow> a \<noteq> v \<Longrightarrow> w \<noteq> v \<Longrightarrow> unset i v b c f t m'"
  using assms
proof (induction rule: replace_uses.raw_induct [rotated, consumes 1, case_names step])
  case (step g a w n m r)
  from step(3) step(2) obtain x where x: "heap m a = Some x"
    by (auto simp: get_val_def split: option.splits)
  show ?case
  proof (cases "n < length (use_list x)")
    case True
    obtain u k where uk: "use_list x ! n = (u, k)" by (cases "use_list x ! n")
    then have mem: "(u, k) \<in> set (use_list x)" using True by (metis nth_mem)
    have "u \<noteq> i" using unsetD(9) [OF step(4) x step(5)] mem by auto
    moreover obtain m1 where m1: "set_operand u k w m = Inr m1" "g a w (Suc n) m1 = Some r"
      using step(2) step(3) True x uk
      by (auto simp: get_val_def obind_eq_Inr split: option.splits if_splits)
    ultimately have "unset i v b c f t m1" using unset_set_operand [OF step(4)] step(6) by blast
    then show ?thesis using step(1) [OF m1(2) step(3)] step(5,6) by blast
  qed (use step x in \<open>auto simp: get_val_def\<close>)
qed

lemma unset_replace:
  assumes m: "unset i v b c f t m" and r: "replace_all_use_with a w m = Some (Inr m')" and a: "a \<noteq> v" "w \<noteq> v"
  shows "unset i v b c f t m'"
proof -
  obtain m1 where r1: "replace_uses a w 0 m = Some (Inr m1)" and r2: "upd_val a (\<lambda>x. x\<lparr>use_list := []\<rparr>) m1 = Inr m'"
    using r by (auto simp: replace_all_use_with_def obind_eq_Inr)
  have "unset i v b c f t m1" using unset_replace_uses [OF r1 refl m a] .
  then show ?thesis by (rule unset_upd [OF _ r2]) auto
qed

lemma unset_erase:
  assumes m: "unset i v b c f t m" and r: "erase_instr d j m = Inr m'" and j: "j \<noteq> i"
  shows "unset i v b c f t m'"
proof -
  obtain x :: val and m1 where r1: "remove_uses j (operands x) m = Inr m1" and m': "m' = erase_from_list d j m1"
    using r unfolding erase_instr_def remove_use_of_ops_def rbind_eq_Inr by (elim exE conjE) (metis Inr_inject)
  have m1: "unset i v b c f t m1"
    by (rule rfold_invariant [where P = "unset i v b c f t", OF r1 [unfolded remove_uses_def] m]) (auto intro: unset_remove_use split: option.splits)
  then show ?thesis
    using j unfolding m' unset_def erase_from_list_def unlink_instr_def by (auto simp: in_set_remove1)
qed

section \<open>The state of the pass\<close>

text \<open>No value has been found for \<open>v\<close>, and \<open>v\<close> is no value of another variable.\<close>

definition unfound :: "addr \<Rightarrow> addr \<Rightarrow> addr \<Rightarrow> addr \<Rightarrow> addr \<Rightarrow> ty option \<Rightarrow> mem2reg \<Rightarrow> bool" where
  "unfound i v b c f t p \<longleftrightarrow> unset i v b c f t (m2_ir p) \<and> var_val_stack p v = None \<and> v \<notin> ran (l_val p) \<and>
     (\<forall>w st. var_val_stack p w = Some st \<longrightarrow> v \<notin> set st)"

lemma unfoundD:
  assumes "unfound i v b c f t p"
  shows "unset i v b c f t (m2_ir p)" "var_val_stack p v = None" "l_val p a \<noteq> Some v"
    "var_val_stack p w = Some st \<Longrightarrow> v \<notin> set st"
  using assms by (auto simp: unfound_def ran_def)

lemma unfound_ir: "unfound i v b c f t p \<Longrightarrow> unset i v b c f t m \<Longrightarrow> unfound i v b c f t (p\<lparr>m2_ir := m\<rparr>)"
  by (simp add: unfound_def)

lemma unfound_push: "unfound i v b c f t p \<Longrightarrow> w \<noteq> v \<Longrightarrow> a \<noteq> v \<Longrightarrow> unfound i v b c f t (push_val w a p)"
  by (auto simp: unfound_def push_val_def split: option.splits)

lemma unfound_pop: "unfound i v b c f t p \<Longrightarrow> pop_val w p = Inr p' \<Longrightarrow> unfound i v b c f t p'"
  by (fastforce simp: unfound_def pop_val_def dest: in_set_butlastD split: option.splits if_splits)

text \<open>The operands of a store, and the variable of a phi function, are not \<open>v\<close>.\<close>

lemma unset_store_operand:
  assumes m: "unset i v b c f t m" and x: "heap m s = Some x" "kind x = InstructionV Store" and r: "deref_operand s n m = Inr w"
  shows "w \<noteq> v"
proof
  assume "w = v"
  then have "n < length (operands x)" "operands x ! n = Some v"
    using r x(1) by (auto simp: deref_operand_def get_operand_def get_val_def split: if_splits option.splits)
  then have "Some v \<in> set (operands x)" by (metis nth_mem)
  then show False using unsetD(10) [OF m x] by blast
qed

lemma unset_on_store:
  assumes m: "unset i v b c f t m" and r: "on_store m s k q = Inr q'" and q: "P q"
    and k: "\<And>w q q'. w \<noteq> v \<Longrightarrow> P q \<Longrightarrow> k w q = Inr q' \<Longrightarrow> P q'"
  shows "P q'"
proof -
  obtain x where x: "heap m s = Some x" using r by (auto simp: on_store_def get_val_def split: option.splits)
  show ?thesis
  proof (cases "kind x = InstructionV Store")
    case True
    obtain w pr where w: "deref_operand s 1 m = Inr w" "(if pr then k w q else Inr q) = Inr q'"
      using r x True by (auto simp: on_store_def get_val_def rbind_eq_Inr)
    then show ?thesis using k [OF unset_store_operand [OF m x True w(1)] q] q by (cases pr) simp_all
  qed (use r x q in \<open>simp add: on_store_def get_val_def\<close>)
qed

lemma unfound_on_phi:
  assumes p: "unfound i v b c f t p" and r: "on_phi s k p = Inr p'"
    and k: "\<And>x w p'. heap (m2_ir p) s = Some x \<Longrightarrow> kind x = InstructionV Phi \<Longrightarrow> w \<noteq> v \<Longrightarrow> k w p = Inr p' \<Longrightarrow> unfound i v b c f t p'"
  shows "unfound i v b c f t p'"
proof -
  obtain x where x: "heap (m2_ir p) s = Some x" using r by (auto simp: on_phi_def get_val_def split: option.splits)
  show ?thesis
  proof (cases "kind x = InstructionV Phi")
    case True
    then obtain w where w: "l_val p s = Some w" "k w p = Inr p'"
      using r x by (auto simp: on_phi_def phi_lval_def get_val_def rbind_eq_Inr split: option.splits)
    then show ?thesis using k [OF x True _ w(2)] unfoundD(3) [OF p, of s] by auto
  qed (use r x p in \<open>simp add: on_phi_def get_val_def\<close>)
qed

section \<open>Renaming\<close>

lemma unfound_push_phi:
  assumes p: "unfound i v b c f t p" and r: "push_phi s p = Inr p'"
  shows "unfound i v b c f t p'"
  using p r unfolding push_phi_def
proof (rule unfound_on_phi)
  fix x w q
  assume x: "heap (m2_ir p) s = Some x" "kind x = InstructionV Phi" "w \<noteq> v" "Inr (push_val w s p) = Inr q"
  have "s \<noteq> v" using unsetD(11) [OF unfoundD(1) [OF p] x(1)] x(2) by simp
  then show "unfound i v b c f t q" using unfound_push [OF p x(3)] x(4) by auto
qed

lemma unfound_rename:
  assumes p: "unfound i v b c f t (fst s)" "i \<notin> set (snd s)" and r: "rename_instr j s = Some (Inr s')"
  shows "unfound i v b c f t (fst s') \<and> i \<notin> set (snd s')"
proof -
  obtain q del where s: "s = (q, del)" by (cases s)
  note m = unfoundD(1) [OF p(1)]
  obtain x where x: "heap (m2_ir q) j = Some x" using r s by (auto simp: rename_instr_def get_val_def split: option.splits)
  consider "kind x = InstructionV Load" | "kind x = InstructionV Store" | "kind x \<noteq> InstructionV Load" "kind x \<noteq> InstructionV Store" by blast
  then show ?thesis
  proof cases
    case 1
    have jv: "j \<noteq> v" using unsetD(11) [OF m, of j x] x 1 s by simp
    obtain w pr where w: "deref_operand j 0 (m2_ir q) = Inr w"
      and run: "(if \<not> pr then Some (Inr (q, del)) else case var_val_stack q w of None \<Rightarrow> Some (Inr (q, del))
         | Some st \<Rightarrow> if st = [] then Some (Inl UndefinedBehaviour)
             else obind (replace_all_use_with j (last st) (m2_ir q)) (\<lambda>m. Some (Inr (q\<lparr>m2_ir := m\<rparr>, del @ [j])))) = Some (Inr s')"
      using r s x 1 by (auto simp: rename_instr_def rename_load_def get_val_def obind_eq_Inr)
    show ?thesis
    proof (cases "pr \<and> var_val_stack q w \<noteq> None")
      case True
      then obtain st where st: "var_val_stack q w = Some st" "st \<noteq> []" using run by (auto split: if_splits)
      obtain m' where m': "replace_all_use_with j (last st) (m2_ir q) = Some (Inr m')" "s' = (q\<lparr>m2_ir := m'\<rparr>, del @ [j])"
        using run True st by (auto simp: obind_eq_Inr)
      have lst: "last st \<noteq> v" using unfoundD(4) [OF p(1)] s st last_in_set by fastforce
      have "j \<noteq> i"
      proof
        assume "j = i"
        moreover obtain y where "heap (m2_ir q) i = Some y" "operands y = [Some v]" using unsetD(1) [OF m] s by auto
        ultimately have "w = v" using w by (simp add: deref_operand_def get_operand_def get_val_def)
        then show False using unfoundD(2) [OF p(1)] s st by simp
      qed
      then show ?thesis
        using unfound_ir [OF p(1) unset_replace [OF m _ jv lst]] m' p(2) s by simp
    next
      case False
      then have "s' = (q, del)" using run by (auto split: if_splits)
      then show ?thesis using p s by simp
    qed
  next
    case 2
    obtain w a pr where w: "deref_operand j 1 (m2_ir q) = Inr w" "deref_operand j 0 (m2_ir q) = Inr a"
      "s' = (if pr then (push_val w a q, del @ [j]) else (q, del))"
      using r s x 2 by (auto simp: rename_instr_def rename_store_def get_val_def rbind_eq_Inr)
    have "w \<noteq> v" "a \<noteq> v" using unset_store_operand [OF m _ 2] w(1,2) x s by auto
    moreover have "j \<noteq> i" using unsetD(12) [OF m, of j x] x 2 s by simp
    ultimately show ?thesis using unfound_push [OF p(1)] p w(3) s by simp
  next
    case 3
    then show ?thesis using r p s x by (simp add: rename_instr_def get_val_def)
  qed
qed

lemma unfound_fill_phi:
  assumes p: "unfound i v b c f t p" and r: "fill_phi d s p = Inr p'"
  shows "unfound i v b c f t p'"
  using p r unfolding fill_phi_def
proof (rule unfound_on_phi)
  fix x w q
  assume x: "heap (m2_ir p) s = Some x" "kind x = InstructionV Phi" "w \<noteq> v"
    and run: "(case var_val_stack p w of None \<Rightarrow> Inr p | Some st \<Rightarrow> if st = [] then Inl AssertFailed
         else rbind (add_phi_pair_operand s (last st) d (m2_ir p)) (\<lambda>m. Inr (p\<lparr>m2_ir := m\<rparr>))) = Inr q"
  show "unfound i v b c f t q"
  proof (cases "var_val_stack p w")
    case (Some st)
    then obtain m where "add_phi_pair_operand s (last st) d (m2_ir p) = Inr m" "q = p\<lparr>m2_ir := m\<rparr>"
      using run by (auto simp: rbind_eq_Inr split: if_splits)
    then show ?thesis using unfound_ir [OF p unset_add_phi_pair_operand [OF unfoundD(1) [OF p] _ x(1,2)]] by simp
  qed (use p run in simp)
qed

lemma unfound_fill_phis: "unfound i v b c f t p \<Longrightarrow> fill_phis d p = Inr p' \<Longrightarrow> unfound i v b c f t p'"
  unfolding fill_phis_def
  by (erule rfold_invariant, assumption, erule rfold_invariant, assumption, erule (1) unfound_fill_phi)

lemma unfound_pop_instr:
  assumes p: "unfound i v b c f t p" and r: "pop_instr s p = Inr p'"
  shows "unfound i v b c f t p'"
proof -
  obtain q where q: "on_store (m2_ir p) s pop_val p = Inr q"
    "on_phi s (\<lambda>v p. if var_val_stack p v = None then Inr p else pop_val v p) q = Inr p'"
    using r by (auto simp: pop_instr_def rbind_eq_Inr)
  have "unfound i v b c f t q"
    using unfoundD(1) [OF p] q(1) p by (rule unset_on_store) (rule unfound_pop)
  then show ?thesis
    using q(2) by (rule unfound_on_phi) (auto intro: unfound_pop \<open>unfound i v b c f t q\<close> split: if_splits)
qed

lemma unfound_erase_all:
  assumes p: "unfound i v b c f t p" and r: "erase_all d del p = Inr p'" and i: "i \<notin> set del"
  shows "unfound i v b c f t p'"
proof -
  obtain m where m: "rfold (erase_instr d) del (m2_ir p) = Inr m" "p' = p\<lparr>m2_ir := m\<rparr>"
    using r by (auto simp: erase_all_def rbind_eq_Inr)
  have "unset i v b c f t m"
    using m(1) unfoundD(1) [OF p] by (rule rfold_invariant) (use i in \<open>auto intro: unset_erase\<close>)
  then show ?thesis using unfound_ir [OF p] m(2) by simp
qed

lemma ofold_keeps:
  assumes "ofold f xs s = Some (Inr s')" and "P s" and "\<And>x s s'. x \<in> set xs \<Longrightarrow> P s \<Longrightarrow> f x s = Some (Inr s') \<Longrightarrow> P s'"
  shows "P s'"
  using assms
proof (induction xs arbitrary: s)
  case (Cons x xs)
  obtain u where u: "f x s = Some (Inr u)" "ofold f xs u = Some (Inr s')" using Cons.prems(1) by (auto simp: obind_eq_Inr)
  show ?case by (rule Cons.IH [OF u(2) Cons.prems(3) [OF _ Cons.prems(2) u(1)]]) (use Cons.prems(3) in auto)
qed simp

lemma unfound_enter:
  assumes p: "unfound i v b c f t p" and r: "enter_block d p = Some (Inr (p', del))"
  shows "unfound i v b c f t p'" "i \<notin> set del"
proof -
  obtain q s where q: "rfold push_phi (instr_list (m2_ir p) d) p = Inr q"
    and s: "ofold rename_instr (instr_list (m2_ir q) d) (q, []) = Some (Inr s)"
    and p': "fill_phis d (fst s) = Inr p'" "del = snd s"
    using r by (fastforce simp: enter_block_def obind_eq_Inr)
  have "unfound i v b c f t q" using q p by (rule rfold_invariant) (rule unfound_push_phi)
  then have "unfound i v b c f t (fst (q, []))" "i \<notin> set (snd (q, [] :: addr list))" by simp_all
  then have "unfound i v b c f t (fst s) \<and> i \<notin> set (snd s)"
    by (intro ofold_keeps [where P = "\<lambda>s. unfound i v b c f t (fst s) \<and> i \<notin> set (snd s)", OF s]) (auto dest: unfound_rename)
  then show "unfound i v b c f t p'" "i \<notin> set del" using p' unfound_fill_phis by auto
qed

lemma unfound_leave:
  assumes p: "unfound i v b c f t p" "i \<notin> set del" and r: "leave_block d del p = Inr p'"
  shows "unfound i v b c f t p'"
proof -
  obtain q where q: "rfold pop_instr (instr_list (m2_ir p) d) p = Inr q" "erase_all d del q = Inr p'"
    using r by (auto simp: leave_block_def rbind_eq_Inr)
  have "unfound i v b c f t q" using q(1) p(1) by (rule rfold_invariant) (rule unfound_pop_instr)
  then show ?thesis using q(2) p(2) by (rule unfound_erase_all)
qed

lemma unfound_re_name:
  assumes "re_name key d e p = Some r"
  shows "r = Inr p' \<Longrightarrow> unfound i v b c f t p \<Longrightarrow> unfound i v b c f t p'"
  using assms
proof (induction arbitrary: p' rule: re_name.raw_induct [rotated, consumes 1, case_names step])
  case (step g key d e p r)
  obtain p1 del p2 where p1: "enter_block e p = Some (Inr (p1, del))"
    and p2: "ofold (g key d) (in_order key (get_dom_tree_succ_blocks d (Some e))) p1 = Some (Inr p2)"
    and p': "leave_block e del p2 = Inr p'"
    using step(2,3) by (fastforce simp: obind_eq_Inr)
  note u = unfound_enter [OF step(4) p1]
  have "unfound i v b c f t p2" using p2 u(1) by (rule ofold_keeps) (use step(1) in blast)
  then show ?case using u(2) p' by (rule unfound_leave)
qed

section \<open>Placing phi functions\<close>

lemma in_order_subset: "set (in_order key A) \<subseteq> A"
  by (cases "finite A") (auto simp: in_order_def)

lemma collect_stores_unset:
  assumes m: "unset i v b c f t m" and r: "collect_stores g m = Inr (live, blocks)"
  shows "v \<notin> live"
proof -
  have "v \<notin> fst (live, blocks)"
    using r unfolding collect_stores_def
  proof (rule rfold_invariant)
    show "v \<notin> fst s'" if "v \<notin> fst s" "rfold (note_store m d) (instr_list m d) s = Inr s'" for s s' :: "addr set \<times> (addr \<Rightarrow> addr set)" and d
      using that(2,1)
    proof (rule rfold_invariant)
      show "v \<notin> fst s'" if "v \<notin> fst s" "note_store m d j s = Inr s'" for s s' :: "addr set \<times> (addr \<Rightarrow> addr set)" and j
        using m that(2) [unfolded note_store_def] that(1) by (rule unset_on_store) auto
    qed
  qed simp
  then show ?thesis by simp
qed

lemma unfound_place_phi:
  assumes p: "unfound i v b c f t (ph_pass s)" and w: "w \<noteq> v" and r: "place_phi w d s = Inr s'"
  shows "unfound i v b c f t (ph_pass s')"
proof (cases "(d, w) \<in> has_phi s")
  case False
  let ?m = "m2_ir (ph_pass s)"
  obtain u where s': "ph_pass s' = (ph_pass s)\<lparr>m2_ir := add_instr_begin d (next_addr ?m) (snd (create_phi u d ?m)),
      l_val := (l_val (ph_pass s))(next_addr ?m \<mapsto> w)\<rparr>"
    using r False by (auto simp: place_phi_def create_phi_def alloc_def rbind_eq_Inr split: option.splits)
  have "unset i v b c f t (add_instr_begin d (next_addr ?m) (snd (create_phi u d ?m)))"
    using unfoundD(1) [OF p] unfolding unset_def
    by (auto simp: add_instr_begin_def create_phi_def alloc_def new_val_def)
  then show ?thesis using p w unfolding s' unfound_def by (auto simp: ran_def)
qed (use p r in \<open>simp add: place_phi_def\<close>)

lemma unfound_phi_loop:
  assumes "phi_loop key d w s = Some r"
  shows "r = Inr s' \<Longrightarrow> unfound i v b c f t (ph_pass s) \<Longrightarrow> w \<noteq> v \<Longrightarrow> unfound i v b c f t (ph_pass s')"
  using assms
proof (induction rule: phi_loop.raw_induct [rotated, consumes 1, case_names step])
  case (step g key d w s r)
  show ?case
  proof (cases "work_list s")
    case Nil
    then show ?thesis using step(2-4) by simp
  next
    case (Cons e es)
    then obtain u where u: "rfold (place_phi w) (in_order key (get_dominance_frontier d (Some e))) (s\<lparr>work_list := es\<rparr>) = Inr u"
      "g key d w u = Some r" using step(2,3) by (auto simp: obind_eq_Inr)
    have "unfound i v b c f t (ph_pass u)"
      by (rule rfold_invariant [where P = "\<lambda>s. unfound i v b c f t (ph_pass s)", OF u(1)])
        (use step(4,5) unfound_place_phi in auto)
    then show ?thesis using step(1) [OF u(2) step(3)] step(5) by blast
  qed
qed

lemma unfound_generate_phi:
  assumes p: "unfound i v b c f t p" and r: "generate_phi key d g p = Some (Inr p')"
  shows "unfound i v b c f t p'"
proof -
  obtain live blocks s where l: "collect_stores g (m2_ir p) = Inr (live, blocks)"
    and s: "ofold (\<lambda>var s. phi_loop key d var (s\<lparr>work_list := in_order key (blocks var)\<rparr>)) (in_order key live)
        \<lparr>ph_pass = p, has_phi = {}, work_list = []\<rparr> = Some (Inr s)" and p': "p' = ph_pass s"
    using r by (fastforce simp: generate_phi_def obind_eq_Inr)
  have "v \<notin> set (in_order key live)"
    using collect_stores_unset [OF unfoundD(1) [OF p] l] in_order_subset by blast
  then show ?thesis
    unfolding p' by (intro ofold_keeps [where P = "\<lambda>s. unfound i v b c f t (ph_pass s)", OF s])
      (use p in \<open>auto dest: unfound_phi_loop [OF _ refl]\<close>)
qed

section \<open>Deleting the variable\<close>

lemma unset_deleted: "unset i v b c f t m \<Longrightarrow> heap m v = None \<Longrightarrow> unset i v b c f None m"
  by (simp add: unset_def)

lemma unset_None: "unset i v b c f None m \<Longrightarrow> heap m v = None"
  by (cases "heap m v") (auto simp: unset_def)

lemma unset_erase_all:
  assumes "rfold (erase_instr d) del m = Inr m'" "unset i v b c f t m" "i \<notin> set del"
  shows "unset i v b c f t m'"
  using assms(1,2) by (rule rfold_invariant) (use assms(3) in \<open>auto intro: unset_erase\<close>)

text \<open>The allocas that are to be deleted.\<close>

lemma scalar_allocas:
  assumes "rfold (\<lambda>i del. rbind (is_scalar_alloca i m) (\<lambda>a. Inr (if a then del @ [i] else del))) is del0 = Inr del"
  shows "set del = set del0 \<union> {i \<in> set is. is_scalar_alloca i m = Inr True}"
  using assms
proof (induction "is" arbitrary: del0)
  case (Cons j "is")
  then obtain a where a: "is_scalar_alloca j m = Inr a"
    "rfold (\<lambda>i del. rbind (is_scalar_alloca i m) (\<lambda>a. Inr (if a then del @ [i] else del))) is (if a then del0 @ [j] else del0) = Inr del"
    by (auto simp: rbind_eq_Inr)
  from Cons.IH [OF a(2)] a(1) show ?case by auto
qed simp

lemma scalar_alloca_kind: "is_scalar_alloca i m = Inr True \<Longrightarrow> heap m i = Some x \<Longrightarrow> kind x = InstructionV Alloca"
  by (auto simp: is_scalar_alloca_def get_val_def split: if_splits)

lemma scalar_allocas_unset:
  assumes m: "unset i v b c f t m"
    and r: "rfold (\<lambda>i del. rbind (is_scalar_alloca i m) (\<lambda>a. Inr (if a then del @ [i] else del))) is [] = Inr del"
  shows "i \<notin> set del"
proof -
  obtain x where "heap m i = Some x" "kind x = InstructionV Load" using unsetD(1) [OF m] by blast
  then show ?thesis using scalar_alloca_kind [of i m x] unfolding scalar_allocas [OF r] by auto
qed

lemma unset_remove_alloca_block:
  assumes m: "unset i v b c f t m" and r: "remove_alloca_block d m = Inr m'"
  shows "unset i v b c f t m'"
proof -
  obtain del where del: "rfold (\<lambda>i del. rbind (is_scalar_alloca i m) (\<lambda>a. Inr (if a then del @ [i] else del))) (instr_list m d) [] = Inr del"
    "rfold (erase_instr d) del m = Inr m'" using r by (auto simp: remove_alloca_block_def rbind_eq_Inr)
  show ?thesis using del(2) m scalar_allocas_unset [OF m del(1)] by (rule unset_erase_all)
qed

lemma remove_alloca_block_deletes:
  assumes m: "unset i v b c f (Some (PointerTy u)) m" and u: "is_integer_type u \<or> is_float_type u"
    and r: "remove_alloca_block c m = Inr m'"
  shows "unset i v b c f None m'"
proof (cases "heap m v")
  case None
  then show ?thesis using unset_remove_alloca_block [OF unset_deleted [OF m] r] by simp
next
  case (Some x)
  obtain del where del: "rfold (\<lambda>i del. rbind (is_scalar_alloca i m) (\<lambda>a. Inr (if a then del @ [i] else del))) (instr_list m c) [] = Inr del"
    "rfold (erase_instr c) del m = Inr m'" using r by (auto simp: remove_alloca_block_def rbind_eq_Inr)
  have "is_scalar_alloca v m = Inr True"
    using unsetD(6) [OF m Some] unsetD(7) [OF m Some, symmetric] Some u by (simp add: is_scalar_alloca_def get_val_def get_pointer_element_type_def)
  then have "v \<in> set del" using unsetD(8) [OF m Some] unfolding scalar_allocas [OF del(1)] by simp
  then obtain ds es where d: "del = ds @ v # es" by (meson split_list)
  have i: "i \<notin> set ds" "i \<noteq> v" "i \<notin> set es" using scalar_allocas_unset [OF m del(1)] d by auto
  obtain m1 m2 where r1: "rfold (erase_instr c) ds m = Inr m1" and r2: "erase_instr c v m1 = Inr m2"
    and r3: "rfold (erase_instr c) es m2 = Inr m'" using del(2) unfolding d rfold_append by (auto simp: rbind_eq_Inr)
  have "unset i v b c f (Some (PointerTy u)) m2" using unset_erase [OF unset_erase_all [OF r1 m i(1)] r2] i(2) by blast
  moreover have "heap m2 v = None" using r2 by (auto simp: erase_instr_def erase_from_list_def rbind_eq_Inr)
  ultimately show ?thesis using unset_erase_all [OF r3 unset_deleted i(3)] by blast
qed

lemma unfound_remove_alloca:
  assumes p: "unfound i v b c f t p" and r: "remove_alloca g p = Inr p'"
  shows "unfound i v b c f t p'"
proof -
  obtain m where m: "rfold remove_alloca_block (block_list (m2_ir p) g) (m2_ir p) = Inr m" "p' = p\<lparr>m2_ir := m\<rparr>"
    using r by (auto simp: remove_alloca_def rbind_eq_Inr)
  have "unset i v b c f t m" using m(1) unfoundD(1) [OF p] by (rule rfold_invariant) (rule unset_remove_alloca_block)
  then show ?thesis using unfound_ir [OF p] m(2) by simp
qed

lemma unfound_remove_alloca_deletes:
  assumes p: "unfound i v b c f (Some (PointerTy u)) p" and u: "is_integer_type u \<or> is_float_type u" and r: "remove_alloca f p = Inr p'"
  shows "unfound i v b c f None p'"
proof -
  obtain m where m: "rfold remove_alloca_block (block_list (m2_ir p) f) (m2_ir p) = Inr m" "p' = p\<lparr>m2_ir := m\<rparr>"
    using r by (auto simp: remove_alloca_def rbind_eq_Inr)
  obtain ds es where d: "block_list (m2_ir p) f = ds @ c # es" using unsetD(3) [OF unfoundD(1) [OF p]] by (meson split_list)
  obtain m1 m2 where r1: "rfold remove_alloca_block ds (m2_ir p) = Inr m1" and r2: "remove_alloca_block c m1 = Inr m2"
    and r3: "rfold remove_alloca_block es m2 = Inr m" using m(1) unfolding d rfold_append by (auto simp: rbind_eq_Inr)
  have "unset i v b c f (Some (PointerTy u)) m1"
    using r1 unfoundD(1) [OF p] by (rule rfold_invariant) (rule unset_remove_alloca_block)
  from remove_alloca_block_deletes [OF this u r2] have "unset i v b c f None m"
    by (intro rfold_invariant [where P = "unset i v b c f None", OF r3]) (auto intro: unset_remove_alloca_block)
  then show ?thesis using p m(2) by (simp add: unfound_def)
qed

section \<open>The pass\<close>

lemma unfound_before_removal:
  assumes p: "unfound i v b c f t p" and r: "mem2reg_function key d g p = Some (Inr p')"
  shows "\<exists>q. unfound i v b c f t q \<and> remove_alloca g q = Inr p'"
proof -
  obtain q where q: "(if block_list (m2_ir p) g = [] then Some (Inr p)
      else obind (generate_phi key d g p) (\<lambda>p. obind (Some (get_entry_block (cfg_of (m2_ir p) g))) (\<lambda>b. re_name key d b p))) = Some (Inr q)"
    "remove_alloca g q = Inr p'" using r by (auto simp: mem2reg_function_def obind_eq_Inr)
  have "unfound i v b c f t q"
  proof (cases "block_list (m2_ir p) g = []")
    case False
    then obtain p1 e where p1: "generate_phi key d g p = Some (Inr p1)" "re_name key d e p1 = Some (Inr q)"
      using q(1) by (auto simp: obind_eq_Inr)
    show ?thesis using unfound_re_name [OF p1(2) refl unfound_generate_phi [OF p p1(1)]] .
  qed (use p q in simp)
  then show ?thesis using q(2) by blast
qed

lemma unfound_function: "unfound i v b c f t p \<Longrightarrow> mem2reg_function key d g p = Some (Inr p') \<Longrightarrow> unfound i v b c f t p'"
  using unfound_before_removal unfound_remove_alloca by blast

lemma unset_kept:
  assumes m: "unset i v b c f (Some (PointerTy u)) m" and u: "is_integer_type u \<or> is_float_type u" and f: "f \<in> set (function_list m)"
    and r: "run_mem2reg key m = Some (Inr m')"
  shows "unset i v b c f None m'"
proof -
  let ?p = "\<lparr>m2_ir = m, l_val = Map.empty, var_val_stack = Map.empty\<rparr>"
  obtain d p where p: "ofold (mem2reg_function key d) (function_list m) ?p = Some (Inr p)" "m' = m2_ir p"
    using r by (auto simp: run_mem2reg_def obind_eq_Inr)
  obtain gs hs where fl: "function_list m = gs @ f # hs" using f by (meson split_list)
  obtain p1 p2 where r1: "ofold (mem2reg_function key d) gs ?p = Some (Inr p1)" and r2: "mem2reg_function key d f p1 = Some (Inr p2)"
    and r3: "ofold (mem2reg_function key d) hs p2 = Some (Inr p)" using p(1) unfolding fl ofold_append by (auto simp: obind_eq_Inr)
  have "unfound i v b c f (Some (PointerTy u)) ?p" using m by (simp add: unfound_def)
  with r1 have "unfound i v b c f (Some (PointerTy u)) p1" by (rule ofold_keeps) (rule unfound_function)
  then have p2: "unfound i v b c f None p2"
    using unfound_before_removal [OF _ r2] unfound_remove_alloca_deletes [OF _ u] by blast
  have "unfound i v b c f None p" using r3 p2 by (rule ofold_keeps) (rule unfound_function)
  then show ?thesis using unfoundD(1) p(2) by simp
qed

end
