(* ===== verification/Mem2Reg_Properties.thy ===== *)
theory Mem2Reg_Properties
  imports Compiler_Properties Mem2Reg_Phi Mem2Reg_Rename Mem2Reg_Unset
begin

text \<open>
  The properties of \<^verbatim>\<open>Mem2Reg\<close>, with the program
  \<^verbatim>\<open>void f(void) { int t; int u; if (1) t = 1; else u = 2; }\<close> as the example.
\<close>

section \<open>The frontier of the specification\<close>

lemma iterated_frontier_reachable:
  assumes d: "dominators_of g r d" and g: "cfg_wf g" "get_entry_block g = Inr r" and S: "S \<subseteq> set (basic_blocks g)"
    and b: "(edge g)\<^sup>*\<^sup>* r b"
  shows "b \<in> iterated_frontier d S \<longleftrightarrow>
    (\<exists>c \<in> S. (edge g)\<^sup>*\<^sup>* r c \<and> (\<lambda>x y. y \<in> frontier (edge g) r x)\<^sup>+\<^sup>+ c b)"
proof -
  have df: "get_dominance_frontier d (Some x) = frontier (edge g) r x" if "(edge g)\<^sup>*\<^sup>* r x" for x
    using d that unfolding dominators_of_def by blast
  have sub: "y \<in> set (basic_blocks g)" "(edge g)\<^sup>*\<^sup>* r y \<Longrightarrow> (edge g)\<^sup>*\<^sup>* r x"
    if "y \<in> get_dominance_frontier d (Some x)" "x \<in> set (basic_blocks g)" for x y
    using d that unfolding dominators_of_def by blast+
  have fr: "(edge g)\<^sup>*\<^sup>* r y" if "y \<in> frontier (edge g) r x" for x y
    using that by (auto simp: frontier_def)
  have forth: "y \<in> set (basic_blocks g) \<and> ((edge g)\<^sup>*\<^sup>* r y \<longrightarrow> (edge g)\<^sup>*\<^sup>* r c \<and> (\<lambda>x y. y \<in> frontier (edge g) r x)\<^sup>+\<^sup>+ c y)"
    if "(\<lambda>a b. b \<in> get_dominance_frontier d (Some a))\<^sup>+\<^sup>+ c y" "c \<in> set (basic_blocks g)" for c y
    using that
  proof (induction rule: tranclp_induct)
    case (base y)
    then show ?case using sub [of y c] df [of c] by auto
  next
    case (step y z)
    then have y: "y \<in> set (basic_blocks g)"
      "(edge g)\<^sup>*\<^sup>* r y \<Longrightarrow> (edge g)\<^sup>*\<^sup>* r c \<and> (\<lambda>x y. y \<in> frontier (edge g) r x)\<^sup>+\<^sup>+ c y" by blast+
    have z: "z \<in> set (basic_blocks g)" "(edge g)\<^sup>*\<^sup>* r z \<Longrightarrow> (edge g)\<^sup>*\<^sup>* r y" using sub [OF step.hyps(2) y(1)] by blast+
    show ?case
    proof (intro conjI impI)
      assume "(edge g)\<^sup>*\<^sup>* r z"
      from z(2) [OF this] have ry: "(edge g)\<^sup>*\<^sup>* r y" .
      then show "(edge g)\<^sup>*\<^sup>* r c" using y(2) by blast
      have "z \<in> frontier (edge g) r y" using step.hyps(2) df [OF ry] by simp
      with y(2) [OF ry] show "(\<lambda>x y. y \<in> frontier (edge g) r x)\<^sup>+\<^sup>+ c z" by (blast intro: tranclp.trancl_into_trancl)
    qed (rule z(1))
  qed
  have backward: "(edge g)\<^sup>*\<^sup>* r y \<and> (\<lambda>a b. b \<in> get_dominance_frontier d (Some a))\<^sup>+\<^sup>+ c y"
    if "(\<lambda>x y. y \<in> frontier (edge g) r x)\<^sup>+\<^sup>+ c y" "(edge g)\<^sup>*\<^sup>* r c" for c y
    using that
  proof (induction rule: tranclp_induct)
    case (base y)
    then show ?case using df [of c] fr [of y c] by auto
  next
    case (step y z)
    then have "(edge g)\<^sup>*\<^sup>* r y" "(\<lambda>a b. b \<in> get_dominance_frontier d (Some a))\<^sup>+\<^sup>+ c y" by blast+
    moreover have "z \<in> get_dominance_frontier d (Some y)" using df [OF calculation(1)] step.hyps(2) by simp
    ultimately show ?case using fr [OF step.hyps(2)] by (blast intro: tranclp.trancl_into_trancl)
  qed
  show ?thesis
    unfolding iterated_frontier_def using forth backward S b by blast
qed

section \<open>The example\<close>

definition branches :: "f32 ASTProgram" where
  "branches = ASTProgram [ASTFunDeclaration TYPE_VOID ''f'' []
     (ASTCompoundStmt [ASTVarDeclaration TYPE_INT ''t'' None, ASTVarDeclaration TYPE_INT ''u'' None]
       [ASTSelectionStmt (literal 1) (assign ''t'' 1) (Some (assign ''u'' 2))])]"

text \<open>The module of the example, as far as the pass reads it.\<close>

definition branches_module :: "ir \<Rightarrow> bool" where
  "branches_module m \<longleftrightarrow> function_list m = [0, 1, 3, 5, 6] \<and> block_list m = (\<lambda>_. [])(6 := [7, 11, 12, 13]) \<and>
     pre_list m = (\<lambda>_. [])(11 := [7], 12 := [7], 13 := [11, 12]) \<and>
     succ_list m = (\<lambda>_. [])(7 := [12, 11], 11 := [13], 12 := [13]) \<and>
     instr_list m 7 = [8, 9, 15, 16] \<and> instr_list m 11 = [17, 18] \<and> instr_list m 12 = [20, 21] \<and> instr_list m 13 = [22] \<and>
     next_addr m = 23 \<and>
     (\<exists>x. heap m 8 = Some x \<and> kind x = InstructionV Alloca \<and> vtype x = PointerTy INT32_T) \<and>
     (\<exists>x. heap m 9 = Some x \<and> kind x = InstructionV Alloca \<and> vtype x = PointerTy INT32_T) \<and>
     (\<forall>a \<in> {10, 11, 12, 19}. heap m a \<noteq> None) \<and>
     (\<exists>x. heap m 15 = Some x \<and> kind x = InstructionV Cmp) \<and>
     (\<forall>a \<in> {16, 18, 21}. \<exists>x. heap m a = Some x \<and> kind x = InstructionV Br) \<and>
     (\<exists>x. heap m 17 = Some x \<and> kind x = InstructionV Store \<and> operands x = [Some 10, Some 8]) \<and>
     (\<exists>x. heap m 20 = Some x \<and> kind x = InstructionV Store \<and> operands x = [Some 19, Some 9]) \<and>
     (\<exists>x. heap m 22 = Some x \<and> kind x = InstructionV Ret)"

lemma branches_compiles: "\<exists>m. compile branches = Inr m \<and> branches_module m"
  by (simp add: module_eval code_eval local_eval branches_def branches_module_def del: One_nat_def) (simp add: fun_eq_iff)

definition diamond :: cfg where
  "diamond = \<lparr>basic_blocks = [7, 11, 12, 13], pre_bbs = (\<lambda>_. [])(11 := [7], 12 := [7], 13 := [11, 12]),
     succ_bbs = (\<lambda>_. [])(7 := [12, 11], 11 := [13], 12 := [13])\<rparr>"

lemma diamond_run:
  "\<exists>d. run_function diamond dominators_init = Some (Inr d) \<and>
     dom_frontier d = (\<lambda>_. {})(Some 11 := {13}, Some 12 := {13}) \<and>
     dom_tree_succ_blocks d = (\<lambda>_. {})(Some 7 := {13, 12, 11})"
  by (simp add: diamond_def run_function_def create_reverse_post_order_def get_entry_block_def dominators_init_def
     create_idom_def idom_loop.simps idom_pass_def idom_visit_def merge_preds_def climb.simps intersect.simps
     po_def get_idom_def set_idom_def create_dominance_frontier_def df_block_def df_runner.simps add_dominance_frontier_def
     create_dom_tree_succ_def add_dom_tree_succ_block_def Let_def)

lemma branches_dominators:
  assumes "branches_module m"
  shows "\<exists>d. run_dominators (map (cfg_of m) (function_list m)) = Some (Inr d) \<and>
     dom_frontier d = (\<lambda>_. {})(Some 11 := {13}, Some 12 := {13}) \<and>
     dom_tree_succ_blocks d = (\<lambda>_. {})(Some 7 := {13, 12, 11})"
proof -
  have "cfg_of m 6 = \<lparr>basic_blocks = [7, 11, 12, 13], pre_bbs = pre_list m, succ_bbs = succ_list m\<rparr>"
    using assms by (simp add: branches_module_def cfg_of_def)
  then have 6: "cfg_of m 6 = diamond" using assms by (simp add: branches_module_def diamond_def)
  have "run_function (cfg_of m f) d = Some (Inr d)" if "f \<noteq> 6" for f d
    using assms that by (simp add: run_function_def cfg_of_def branches_module_def)
  then have "run_dominators (map (cfg_of m) (function_list m)) = run_function diamond dominators_init"
    using assms diamond_run 6 by (auto simp: run_dominators_def branches_module_def simp del: One_nat_def)
  then show ?thesis using diamond_run by simp
qed

lemma example_orders:
  "in_order key {} = []" "in_order key {a} = [a]"
  "in_order key {8 :: nat, 9} = (if key 8 \<le> key 9 then [8, 9] else [9, 8])"
  "in_order key {9 :: nat, 8} = (if key 8 \<le> key 9 then [8, 9] else [9, 8])"
  "in_order key {13 :: nat, 12, 11} = sort_key key [11, 12, 13]"
  by (simp_all add: in_order_def)

lemmas phi_eval = mem2reg_function_def generate_phi_def collect_stores_def note_store_def on_store_def get_val_def
  deref_operand_def get_operand_def is_promoted_def example_orders phi_loop.simps place_phi_def create_phi_def alloc_def Let_def
  add_instr_begin_def get_pointer_element_type_def get_entry_block_def cfg_of_def

lemmas rename_eval = re_name.simps enter_block_def push_phi_def on_phi_def phi_lval_def push_val_def rename_instr_def
  rename_load_def rename_store_def fill_phis_def fill_phi_def add_phi_pair_operand_def add_operand_def upd_val_def add_use_def
  new_val_def leave_block_def pop_instr_def pop_val_def erase_all_def erase_instr_def remove_use_of_ops_def remove_uses_def
  remove_use_def erase_from_list_def unlink_instr_def

lemma branches_function:
  assumes m: "branches_module m" and d: "dom_frontier d = (\<lambda>_. {})(Some 11 := {13}, Some 12 := {13})"
    "dom_tree_succ_blocks d = (\<lambda>_. {})(Some 7 := {13, 12, 11})"
  shows "mem2reg_function key d 6 \<lparr>m2_ir = m, l_val = Map.empty, var_val_stack = Map.empty\<rparr> = Some (Inl AssertFailed)"
proof -
  note b = m [unfolded branches_module_def]
  obtain x8 x9 x15 x17 x20 x22 x10 x11 x12 x19 x16 x18 x21 where
    h: "heap m 8 = Some x8" "kind x8 = InstructionV Alloca" "vtype x8 = PointerTy INT32_T"
    "heap m 9 = Some x9" "kind x9 = InstructionV Alloca" "vtype x9 = PointerTy INT32_T"
    "heap m 15 = Some x15" "kind x15 = InstructionV Cmp"
    "heap m 17 = Some x17" "kind x17 = InstructionV Store" "operands x17 = [Some 10, Some 8]"
    "heap m 20 = Some x20" "kind x20 = InstructionV Store" "operands x20 = [Some 19, Some 9]"
    "heap m 22 = Some x22" "kind x22 = InstructionV Ret"
    and h': "heap m 10 = Some x10" "heap m 11 = Some x11" "heap m 12 = Some x12" "heap m 19 = Some x19"
    "heap m 16 = Some x16" "kind x16 = InstructionV Br" "heap m 18 = Some x18" "kind x18 = InstructionV Br"
    "heap m 21 = Some x21" "kind x21 = InstructionV Br"
    using b by auto
  have l: "block_list m 6 = [7, 11, 12, 13]" "succ_list m 7 = [12, 11]" "succ_list m 11 = [13]" "succ_list m 12 = [13]"
    "succ_list m 13 = []" "instr_list m 7 = [8, 9, 15, 16]" "instr_list m 11 = [17, 18]" "instr_list m 12 = [20, 21]"
    "instr_list m 13 = [22]" "next_addr m = 23"
    using b by simp_all
  have f: "get_dominance_frontier d (Some 11) = {13}" "get_dominance_frontier d (Some 12) = {13}"
    "get_dominance_frontier d (Some 13) = {}" "get_dom_tree_succ_blocks d (Some 7) = {13, 12, 11}"
    "get_dom_tree_succ_blocks d (Some 11) = {}" "get_dom_tree_succ_blocks d (Some 12) = {}"
    "get_dom_tree_succ_blocks d (Some 13) = {}"
    by (simp_all add: get_dominance_frontier_def get_dom_tree_succ_blocks_def d)
  show ?thesis
    by (cases "key 8 \<le> key 9"; cases "key 11 \<le> key 12"; cases "key 12 \<le> key 13"; cases "key 11 \<le> key 13")
      (simp_all add: l h h' f phi_eval rename_eval split del: if_split)
qed

section \<open>Where phi functions go\<close>

text \<open>The iterated frontier over the computed dominators, on reachable blocks, is the one over all paths.\<close>

lemma generate_phi_placement:
  assumes "dominators_of (cfg_of (m2_ir p) f) r d" "cfg_wf (cfg_of (m2_ir p) f)"
    "get_entry_block (cfg_of (m2_ir p) f) = Inr r"
    and "\<And>b. b \<in> set (block_list (m2_ir p) f) \<Longrightarrow> stores_ok (m2_ir p) b"
    and "\<forall>a. heap (m2_ir p) a \<noteq> None \<longrightarrow> a < next_addr (m2_ir p)"
  shows "\<exists>p' H. generate_phi key d f p = Some (Inr p') \<and> phis_placed H p p' \<and>
    (\<forall>b v. (edge (cfg_of (m2_ir p) f))\<^sup>*\<^sup>* r b \<longrightarrow> ((b, v) \<in> H \<longleftrightarrow>
       (\<exists>c. (edge (cfg_of (m2_ir p) f))\<^sup>*\<^sup>* r c \<and> stores_to (m2_ir p) c v \<and>
          (\<lambda>x y. y \<in> frontier (edge (cfg_of (m2_ir p) f)) r x)\<^sup>+\<^sup>+ c b)))"
proof -
  let ?g = "cfg_of (m2_ir p) f"
  let ?S = "\<lambda>v. {c \<in> set (block_list (m2_ir p) f). stores_to (m2_ir p) c v}"
  have df: "get_dominance_frontier d (Some b) \<subseteq> set (block_list (m2_ir p) f)" if "b \<in> set (block_list (m2_ir p) f)" for b
    using assms(1) that unfolding dominators_of_def by (auto simp: cfg_of_def)
  obtain p' where p': "generate_phi key d f p = Some (Inr p')" "phis_placed {(b, v). b \<in> iterated_frontier d (?S v)} p p'"
    using generate_phi_spec [OF assms(4) df assms(5)] by blast
  have listed: "c \<in> set (block_list (m2_ir p) f)" if "(edge ?g)\<^sup>*\<^sup>* r c" for c
    using reachable_listed [OF assms(2,3) that] by (simp add: cfg_of_def)
  have "b \<in> iterated_frontier d (?S v) \<longleftrightarrow>
      (\<exists>c. (edge ?g)\<^sup>*\<^sup>* r c \<and> stores_to (m2_ir p) c v \<and> (\<lambda>x y. y \<in> frontier (edge ?g) r x)\<^sup>+\<^sup>+ c b)"
    if b: "(edge ?g)\<^sup>*\<^sup>* r b" for b v
    using iterated_frontier_reachable [OF assms(1-3) _ b, of "?S v"] listed by (auto simp: cfg_of_def)
  then show ?thesis using p' by (intro exI [of _ p'] exI [of _ "{(b, v). b \<in> iterated_frontier d (?S v)}"]) auto
qed

lemma branches_ready:
  assumes c: "compile branches = Inr m" and m: "branches_module m"
    and d: "run_dominators (map (cfg_of m) (function_list m)) = Some (Inr d)"
  shows "dominators_of (cfg_of m 6) 7 d" "cfg_wf (cfg_of m 6)" "get_entry_block (cfg_of m 6) = Inr 7"
    "(edge (cfg_of m 6))\<^sup>*\<^sup>* 7 11" "(edge (cfg_of m 6))\<^sup>*\<^sup>* 7 13"
proof -
  have bl: "block_list m 6 = [7, 11, 12, 13]" using m by (simp add: branches_module_def)
  have wb: "well_built m" using compile_top [OF c] by blast
  have ne: "block_list m 6 \<noteq> []" by (simp add: bl)
  note entry = compile_pass_entry [OF c ne]
  show wf: "cfg_wf (cfg_of m 6)" by (rule entry(1))
  show root: "get_entry_block (cfg_of m 6) = Inr 7" using entry(2) bl by simp
  have e: "edge (cfg_of m 6) 7 11" "edge (cfg_of m 6) 7 12" "edge (cfg_of m 6) 11 13"
    using m by (simp_all add: edge_def cfg_of_def branches_module_def)
  show r: "(edge (cfg_of m 6))\<^sup>*\<^sup>* 7 11" "(edge (cfg_of m 6))\<^sup>*\<^sup>* 7 13"
    using e by (meson rtranclp.rtrancl_into_rtrancl rtranclp.rtrancl_refl)+
  have safe: "frontier_safe (cfg_of m 6) 7"
    using r r_into_rtranclp [of "edge (cfg_of m 6)" 7 12, OF e(2)] bl
    by (auto simp: frontier_safe_def cfg_of_sel) (use m in \<open>auto simp: branches_module_def split: if_splits\<close>)
  have "basic_blocks (cfg_of m f) = [] \<or> pass_ready (cfg_of m f)" if "f \<in> set (function_list m)" for f
  proof (cases "f = 6")
    case True
    then show ?thesis using wf root entry(3) safe bl by (auto simp: pass_ready_def)
  next
    case False
    then show ?thesis using m by (simp add: branches_module_def cfg_of_def)
  qed
  moreover have "sorted_wrt (\<lambda>g h. set (basic_blocks g) \<inter> set (basic_blocks h) = {}) (map (cfg_of m) (function_list m))"
    using m by (simp add: branches_module_def cfg_of_sel)
  ultimately obtain d' where d': "run_dominators (map (cfg_of m) (function_list m)) = Some (Inr d')"
    "\<forall>g \<in> set (map (cfg_of m) (function_list m)). \<forall>r. get_entry_block g = Inr r \<longrightarrow> dominators_of g r d'"
    using run_functions_spec [of "map (cfg_of m) (function_list m)" dominators_init]
    by (auto simp: run_dominators_def dominators_init_fields)
  have "6 \<in> set (function_list m)" using m by (simp add: branches_module_def)
  then show "dominators_of (cfg_of m 6) 7 d" using d d' root by auto
qed

section \<open>A block that is renamed\<close>

definition assigned :: "f32 ASTProgram" where
  "assigned = ASTProgram [ASTFunDeclaration TYPE_INT ''f'' []
     (ASTCompoundStmt [ASTVarDeclaration TYPE_INT ''x'' None]
       [assign ''x'' 1, ASTReturnStmt (Some (ASTSimpleExpression (ASTAdditiveExpression None
          (ASTTerm None (FactorVar (ASTVar ''x'' None)))) None))])]"

lemma assigned_compiles:
  "\<exists>m. compile assigned = Inr m \<and> instr_list m 7 = [8, 10, 11, 12] \<and>
     kind_at m 8 = Some (InstructionV Alloca) \<and> operands_at m 8 = [] \<and>
     kind_at m 10 = Some (InstructionV Store) \<and> operands_at m 10 = [Some 9, Some 8] \<and>
     kind_at m 11 = Some (InstructionV Load) \<and> operands_at m 11 = [Some 8] \<and>
     kind_at m 12 = Some (InstructionV Ret) \<and> operands_at m 12 = [Some 11] \<and>
     map_option use_list (heap m 11) = Some [(12, 0)] \<and> map_option num_ops (heap m 12) = Some 1 \<and> heap m 9 \<noteq> None"
  by (simp add: module_eval code_eval local_eval assigned_def build_return_def b_load_def create_load_def b_ret_def
      create_ret_def kind_at_def operands_at_def del: One_nat_def)

section \<open>Properties\<close>

text \<open>
  C9. Steps 4 and 5 of \<^verbatim>\<open>re_name\<close> keep the meaning of a block. In a block that starts with its phi
  functions, whose code computes values before it uses them, and with stacks that hold computed
  values, the renaming returns with consistent uses. Only loads and stores of local variables wait
  for their deletion, and no operand names one of these loads. When the stacks hold the values of
  the variables, the instructions that stay, without loads and stores, compute the same values and
  have the same effects \<open>f\<close> as the whole block, and the stacks hold the new values of the variables.
\<close>

theorem rename_preserves_block:
  fixes f :: "addr \<Rightarrow> 'v option list \<Rightarrow> 'w \<Rightarrow> 'v \<times> 'w"
  assumes uses: "uses_ok (m2_ir p)" and code: "ordered (m2_ir p) rest" "list_all (plain (m2_ir p)) rest"
    and phis: "\<forall>i \<in> set phis. kind_at (m2_ir p) i = Some (InstructionV Phi)"
    and tops: "\<forall>v st. var_val_stack p v = Some st \<longrightarrow> st \<noteq> [] \<and> heap (m2_ir p) (last st) \<noteq> None \<and> last st \<notin> set rest"
  shows "\<exists>p' del. ofold rename_instr (phis @ rest) (p, []) = Some (Inr (p', del)) \<and> uses_ok (m2_ir p') \<and>
    (\<forall>i \<in> set del. i \<in> set rest \<and> access (m2_ir p) i \<noteq> None) \<and>
    (\<forall>i \<in> set del. kind_at (m2_ir p) i = Some (InstructionV Load) \<longrightarrow> (\<forall>u k. operand_at (m2_ir p') u k \<noteq> Some i)) \<and>
    (\<forall>env mem w. same_result del p' (fold (exec f (m2_ir p)) rest (env, latest p env mem, w))
       (fold (exec f (m2_ir p')) (filter (\<lambda>i. i \<notin> set del) rest) (env, mem, w)))"
proof -
  have "renaming (m2_ir p) rest Map.empty p"
    using uses tops by (simp add: renaming_def renamed_by_refl replaces_loads_def)
  from rename_fold [OF this code, of "[]" f] obtain p' del sub where
    run: "ofold rename_instr rest (p, []) = Some (Inr (p', [] @ del))"
      "renaming (m2_ir p) [] sub p'" "dom sub \<subseteq> dom (Map.empty :: addr \<rightharpoonup> addr) \<union> set del"
      "\<forall>a \<in> set del. a \<in> set rest \<and> access (m2_ir p) a \<noteq> None"
      "\<forall>a \<in> set del. kind_at (m2_ir p) a = Some (InstructionV Load) \<longrightarrow> a \<in> dom sub"
    and sim: "\<forall>s s'. agree Map.empty p s s' \<longrightarrow>
      agree sub p' (fold (exec f (m2_ir p)) rest s) (fold (exec f (m2_ir p')) (filter (\<lambda>i. i \<notin> set del) rest) s')"
    by (elim exE conjE) (rule that; assumption)
  have ren: "uses_ok (m2_ir p')" "renamed_by sub (m2_ir p) (m2_ir p')" "dom sub \<inter> ran sub = {}"
    using run(2) by (simp_all add: renaming_def)
  have "operand_at (m2_ir p') u k \<noteq> Some i" if "i \<in> dom sub" for i u k
  proof -
    have "ap sub a \<noteq> i" for a using that ren(3) by (cases "sub a") (auto simp: ap_def ran_def)
    then show ?thesis using renamed_byD(2) [OF ren(2), of u] by (auto simp: operand_at_nth)
  qed
  moreover have "same_result del p' (fold (exec f (m2_ir p)) rest (env, latest p env mem, w))
       (fold (exec f (m2_ir p')) (filter (\<lambda>i. i \<notin> set del) rest) (env, mem, w))" for env mem w
  proof -
    have "agree Map.empty p (env, latest p env mem, w) (env, mem, w)" by (simp add: agree_def ap_def)
    note sim [THEN spec, THEN spec, THEN mp, OF this]
    moreover have "ap sub a = a" if "a \<notin> set del" for a using that run(3) by (cases "sub a") (auto simp: ap_def)
    ultimately show ?thesis by (auto simp: agree_def same_result_def)
  qed
  moreover have "ofold rename_instr (phis @ rest) (p, []) = Some (Inr (p', del))" using rename_phis [OF phis] run(1) by simp
  ultimately show ?thesis using ren(1) run(4,5) by (intro exI [of _ p'] exI [of _ del]) simp
qed

theorem rename_preserves_block_witness:
  "\<exists>m p'. compile assigned = Inr m \<and>
     ofold rename_instr (instr_list m 7) (\<lparr>m2_ir = m, l_val = Map.empty, var_val_stack = Map.empty\<rparr>, []) = Some (Inr (p', [10, 11])) \<and>
     (\<forall>env mem. snd (snd (fold (exec (\<lambda>i xs w. (0 :: nat, if i = 12 then xs else w)) (m2_ir p')) [8, 12] (env, mem, []))) = [Some (env 9)])"
proof -
  obtain m where m: "compile assigned = Inr m" "instr_list m 7 = [8, 10, 11, 12]"
    and k: "kind_at m 8 = Some (InstructionV Alloca)" "operands_at m 8 = []"
     "kind_at m 10 = Some (InstructionV Store)" "operands_at m 10 = [Some 9, Some 8]"
     "kind_at m 11 = Some (InstructionV Load)" "operands_at m 11 = [Some 8]"
     "kind_at m 12 = Some (InstructionV Ret)" "operands_at m 12 = [Some 11]"
     and uses: "map_option use_list (heap m 11) = Some [(12, 0)]" "map_option num_ops (heap m 12) = Some 1" "heap m 9 \<noteq> None"
    using assigned_compiles by blast
  let ?p = "\<lparr>m2_ir = m, l_val = Map.empty, var_val_stack = Map.empty\<rparr>"
  let ?f = "\<lambda>i xs w. (0 :: nat, if i = 12 then xs else w)"
  have "uses_ok (m2_ir ?p)" using compile_top [OF m(1)] well_builtD(1) by fastforce
  moreover have "ordered (m2_ir ?p) [8, 10, 11, 12]" by (simp add: inputs_def k)
  moreover have "list_all (plain (m2_ir ?p)) [8, 10, 11, 12]" by (simp add: plain_def addressable_def k)
  moreover have tops: "\<forall>v st. var_val_stack ?p v = Some st \<longrightarrow> st \<noteq> [] \<and> heap (m2_ir ?p) (last st) \<noteq> None \<and> last st \<notin> set [8, 10, 11, 12]" by simp
  ultimately have "\<exists>p' del. ofold rename_instr ([] @ [8, 10, 11, 12]) (?p, []) = Some (Inr (p', del)) \<and>
      (\<forall>env mem w. same_result del p' (fold (exec ?f (m2_ir ?p)) [8, 10, 11, 12] (env, latest ?p env mem, w))
        (fold (exec ?f (m2_ir p')) (filter (\<lambda>i. i \<notin> set del) [8, 10, 11, 12]) (env, mem, w)))"
    using rename_preserves_block [of ?p "[8, 10, 11, 12]" "[]" ?f] by fastforce
  then obtain p' del where run: "ofold rename_instr ([] @ [8, 10, 11, 12]) (?p, []) = Some (Inr (p', del))"
    and sim: "\<And>env mem w. same_result del p' (fold (exec ?f m) [8, 10, 11, 12] (env, latest ?p env mem, w))
        (fold (exec ?f (m2_ir p')) (filter (\<lambda>i. i \<notin> set del) [8, 10, 11, 12]) (env, mem, w))"
    by auto
  have "\<exists>p'. ofold rename_instr ([] @ [8, 10, 11, 12]) (?p, []) = Some (Inr (p', [10, 11]))"
    using k uses by (auto simp: kind_at_Some operands_at_def rename_instr_def rename_load_def rename_store_def get_val_def
      deref_operand_def get_operand_def is_promoted_def push_val_def replace_all_use_with_def replace_uses.simps
      set_operand_def is_user_def add_use_def upd_val_def)
  then have del: "del = [10, 11]" using run by simp
  have "snd (snd (fold (exec ?f m) [8, 10, 11, 12] (env, mem, []))) = [Some (env 9)]" for env mem
    by (simp add: exec_def access_def inputs_def k)
  moreover have "snd (snd (fold (exec ?f (m2_ir p')) (filter (\<lambda>i. i \<notin> set del) [8, 10, 11, 12]) (env, mem, []))) =
      snd (snd (fold (exec ?f m) [8, 10, 11, 12] (env, latest ?p env mem, [])))" for env mem
    using same_result_world [OF sim] by simp
  ultimately have "snd (snd (fold (exec ?f (m2_ir p')) [8, 12] (env, mem, []))) = [Some (env 9)]" for env mem
    by (simp add: del)
  then show ?thesis using m run del by auto
qed

text \<open>
  C32. On \<^verbatim>\<open>void f(void) { int t; int u; if (1) t = 1; else u = 2; }\<close> the pass fails its assertion
  \<^verbatim>\<open>var_val_stack[l_val].size() != 0\<close>, wherever the objects are in memory: the first block of the
  dominator tree that stores to a variable leaves an empty stack behind, which the phi function
  of that variable finds from a block without a definition.
\<close>

theorem branches_assertion:
  "\<exists>m. compile branches = Inr m \<and> (\<forall>key. run_mem2reg key m = Some (Inl AssertFailed))"
proof -
  obtain m where m: "compile branches = Inr m" "branches_module m" using branches_compiles by blast
  obtain d where d: "run_dominators (map (cfg_of m) (function_list m)) = Some (Inr d)"
    "dom_frontier d = (\<lambda>_. {})(Some 11 := {13}, Some 12 := {13})" "dom_tree_succ_blocks d = (\<lambda>_. {})(Some 7 := {13, 12, 11})"
    using branches_dominators [OF m(2)] by blast
  have "mem2reg_function key d f \<lparr>m2_ir = m, l_val = Map.empty, var_val_stack = Map.empty\<rparr> =
      Some (Inr \<lparr>m2_ir = m, l_val = Map.empty, var_val_stack = Map.empty\<rparr>)" if "f \<noteq> 6" for key f
    using m(2) that by (simp add: mem2reg_function_def branches_module_def remove_alloca_def)
  then have "run_mem2reg key m = Some (Inl AssertFailed)" for key
    using m(2) d(1) branches_function [OF m(2) d(2,3)] by (simp add: run_mem2reg_def branches_module_def del: One_nat_def)
  then show ?thesis using m(1) by blast
qed

definition uninitialised :: "f32 ASTProgram" where
  "uninitialised = ASTProgram [ASTFunDeclaration TYPE_INT ''f'' []
     (ASTCompoundStmt [ASTVarDeclaration TYPE_INT ''a'' None]
       [ASTReturnStmt (Some (ASTSimpleExpression (ASTAdditiveExpression None
          (ASTTerm None (FactorVar (ASTVar ''a'' None)))) None))])]"

lemma uninitialised_compiles:
  "\<exists>m. compile uninitialised = Inr m \<and> function_list m = [0, 1, 3, 5, 6] \<and> block_list m = (\<lambda>_. [])(6 := [7]) \<and>
     pre_list m 7 = [] \<and> succ_list m 7 = [] \<and> instr_list m 7 = [8, 9, 10] \<and>
     (\<exists>x. heap m 8 = Some x \<and> kind x = InstructionV Alloca \<and> vtype x = PointerTy INT32_T \<and> operands x = []) \<and>
     (\<exists>x. heap m 9 = Some x \<and> kind x = InstructionV Load \<and> operands x = [Some 8]) \<and>
     (\<exists>x. heap m 10 = Some x \<and> kind x = InstructionV Ret)"
  by (simp add: module_eval code_eval local_eval uninitialised_def build_return_def b_load_def create_load_def b_ret_def
      create_ret_def del: One_nat_def)

text \<open>\<^verbatim>\<open>int f(void) { int a; return a; }\<close>: the pass returns, without the alloca.\<close>

lemma uninitialised_run:
  assumes m: "compile uninitialised = Inr m"
  shows "\<exists>m'. run_mem2reg key m = Some (Inr m') \<and> instr_list m' 7 = [9, 10]"
proof -
  obtain x8 x9 x10 where m: "function_list m = [0, 1, 3, 5, 6]" "block_list m = (\<lambda>_. [])(6 := [7])"
    "pre_list m 7 = []" "succ_list m 7 = []" "instr_list m 7 = [8, 9, 10]"
    and h: "heap m 8 = Some x8" "kind x8 = InstructionV Alloca" "vtype x8 = PointerTy INT32_T" "operands x8 = []"
    "heap m 9 = Some x9" "kind x9 = InstructionV Load" "operands x9 = [Some 8]"
    "heap m 10 = Some x10" "kind x10 = InstructionV Ret"
    using uninitialised_compiles m by auto
  let ?p = "\<lparr>m2_ir = m, l_val = Map.empty, var_val_stack = Map.empty\<rparr>"
  let ?m = "m\<lparr>instr_list := (instr_list m)(7 := [9, 10]), heap := (heap m)(8 := None)\<rparr>"
  have none: "run_function (cfg_of m f) d = Some (Inr d)" "mem2reg_function key d f ?p = Some (Inr ?p)"
    "mem2reg_function key d f \<lparr>m2_ir = ?m, l_val = Map.empty, var_val_stack = Map.empty\<rparr> =
       Some (Inr \<lparr>m2_ir = ?m, l_val = Map.empty, var_val_stack = Map.empty\<rparr>)" if "f \<noteq> 6" for f d key
    using m(2) that by (simp_all add: run_function_def cfg_of_def mem2reg_function_def remove_alloca_def)
  obtain d where d: "run_function (cfg_of m 6) dominators_init = Some (Inr d)" "dom_tree_succ_blocks d (Some 7) = {}"
    by (simp add: cfg_of_def m run_function_def create_reverse_post_order_def get_entry_block_def dominators_init_def
        create_idom_def idom_loop.simps idom_pass_def idom_visit_def po_def get_idom_def set_idom_def
        create_dominance_frontier_def df_block_def create_dom_tree_succ_def Let_def)
  have f: "mem2reg_function key d 6 ?p = Some (Inr \<lparr>m2_ir = ?m, l_val = Map.empty, var_val_stack = Map.empty\<rparr>)" for key
    by (simp add: m h d(2) get_dom_tree_succ_blocks_def phi_eval rename_eval remove_alloca_def remove_alloca_block_def
        is_scalar_alloca_def is_integer_type_def split del: if_split)
  have "run_mem2reg key m = Some (Inr ?m)" for key
    using none d(1) f by (simp add: run_mem2reg_def run_dominators_def m(1) del: One_nat_def)
  then show ?thesis by simp
qed

lemma print_dangling_load:
  assumes "heap m i = Some x" "kind x = InstructionV Load" "operands x = [Some v]" "heap m v = None"
  shows "\<exists>e. print_instruction i m = Some (Inl e)"
proof -
  have "pointee_text i m = Some (Inl UndefinedBehaviour)"
    using assms by (simp add: pointee_text_def op_type_def deref_operand_def get_operand_def get_val_def)
  then show ?thesis
    using assms(1,2) by (cases "instr_module x m") (simp_all add: print_instruction_def print_load_def get_val_def result_text_def)
qed

text \<open>
  C33. A local scalar variable that is read and that no store of the module has to do with: whenever
  the pass returns on a compiled module, it has deleted the variable and left every load of it in its
  block. The operand of the load is then a deleted object, and printing the load is an error. The
  witness is \<^verbatim>\<open>int f(void) { int a; return a; }\<close>, on which the pass returns wherever the objects are in
  memory.
\<close>

theorem uninitialised_dangles:
  assumes "compile p = Inr m" and "v \<in> set (listed m f)" "is_scalar_alloca v m = Inr True"
    and "\<forall>s x. heap m s = Some x \<longrightarrow> kind x = InstructionV Store \<longrightarrow> Some v \<notin> set (operands x)"
    and "i \<in> set (instr_list m b)" "kind_at m i = Some (InstructionV Load)" "operand_at m i 0 = Some v"
    and "run_mem2reg key m = Some (Inr m')"
  shows "heap m' v = None \<and> i \<in> set (instr_list m' b) \<and> operand_at m' i 0 = Some v \<and>
    (\<exists>e. print_instruction i m' = Some (Inl e))"
proof -
  have wb: "well_built m" using compile_top [OF assms(1)] by blast
  obtain c where c: "c \<in> set (block_list m f)" "v \<in> set (instr_list m c)" using assms(2) by (auto simp: set_listed)
  have f: "f \<in> set (function_list m)" using graph_okD(3) [OF well_builtD(2) [OF wb]] c(1) by blast
  obtain x u where x: "heap m v = Some x" "kind x = InstructionV Alloca" "vtype x = PointerTy u" "is_integer_type u \<or> is_float_type u"
    using assms(3) by (auto simp: is_scalar_alloca_def get_val_def get_pointer_element_type_def split: option.splits if_splits ty.splits)
  obtain y where y: "heap m i = Some y" "kind y = InstructionV Load" using assms(6) by (auto simp: kind_at_Some)
  have "instr_ok m b i" using code_okD(3) [OF well_builtD(3) [OF wb] assms(5)] .
  then have len: "length (operands y) = 1" using y by (simp add: instr_ok_def arity_ok_def)
  then have op: "operands y = [Some v]" using assms(7) y(1) by (cases "operands y") (auto simp: operand_at_def)
  have "i \<notin> fst ` set (use_list z)" if a: "heap m a = Some z" "a \<noteq> v" for a z
    using uses_okD(3) [OF well_builtD(1) [OF wb] a(1), of i] a(2) y(1) op by (auto simp: operand_at_def split: if_splits)
  then have "unset i v b c f (Some (PointerTy u)) m"
    using y op assms(4,5) c x uses_okD(1) [OF well_builtD(1) [OF wb]] unfolding unset_def by auto
  note un = unset_kept [OF this x(4) f assms(8)]
  obtain z where z: "heap m' i = Some z" "kind z = InstructionV Load" "operands z = [Some v]" using unsetD(1) [OF un] by blast
  show ?thesis using print_dangling_load [OF z unset_None [OF un]] unset_None [OF un] unsetD(2) [OF un] z by (simp add: operand_at_def)
qed

theorem uninitialised_dangles_witness:
  "\<exists>m. compile uninitialised = Inr m \<and> (\<forall>key. \<exists>m'. run_mem2reg key m = Some (Inr m') \<and>
     instr_list m' 7 = [9, 10] \<and> operand_at m' 9 0 = Some 8 \<and> heap m' 8 = None)"
proof -
  obtain m where m: "compile uninitialised = Inr m" "block_list m = (\<lambda>_. [])(6 := [7])" "instr_list m 7 = [8, 9, 10]"
    and h: "\<exists>x. heap m 8 = Some x \<and> kind x = InstructionV Alloca \<and> vtype x = PointerTy INT32_T \<and> operands x = []"
    "\<exists>x. heap m 9 = Some x \<and> kind x = InstructionV Load \<and> operands x = [Some 8]"
    "\<exists>x. heap m 10 = Some x \<and> kind x = InstructionV Ret" using uninitialised_compiles by blast
  note wb = compile_top [OF m(1)]
  have st: "\<forall>s x. heap m s = Some x \<longrightarrow> kind x = InstructionV Store \<longrightarrow> Some 8 \<notin> set (operands x)"
  proof (intro allI impI)
    fix s x
    assume x: "heap m s = Some x" "kind x = InstructionV Store"
    then obtain g where "s \<in> set (listed m g)"
      using code_okD(4) [OF well_builtD(3)] wb by (fastforce simp: is_instruction_def)
    then have "s \<in> {8, 9, 10}" using m(2,3) by (auto simp: set_listed split: if_splits)
    then show "Some 8 \<notin> set (operands x)" using x h by auto
  qed
  have "\<exists>m'. run_mem2reg key m = Some (Inr m') \<and> instr_list m' 7 = [9, 10] \<and> operand_at m' 9 0 = Some 8 \<and> heap m' 8 = None" for key
  proof -
    obtain m' where m': "run_mem2reg key m = Some (Inr m')" "instr_list m' 7 = [9, 10]" using uninitialised_run [OF m(1)] by blast
    have "is_scalar_alloca 8 m = Inr True"
      using h(1) by (auto simp: is_scalar_alloca_def get_val_def get_pointer_element_type_def is_integer_type_def)
    then show ?thesis
      using uninitialised_dangles [OF m(1) _ _ st _ _ _ m'(1), of 6 9 7] m' m(2,3) h by (auto simp: set_listed kind_at_def operand_at_def)
  qed
  then show ?thesis using m(1) by blast
qed

end
