(* ===== verification/Gvn.thy ===== *)
theory Gvn
  imports Mem2Reg Dead_Code Ir_Print
begin

text \<open>
  The pass \<^verbatim>\<open>GVN\<close> of \<^verbatim>\<open>GVN.h\<close> and \<^verbatim>\<open>GVN.cpp\<close>: value expressions, congruence classes, partitions,
  the transfer function of an instruction, the iteration over the blocks, the replacement of the
  members of a class and the two runs of the dead-code elimination around them.
\<close>

section \<open>Expressions\<close>

text \<open>
  The classes of \<^verbatim>\<open>Expression\<close>. A \<^verbatim>\<open>shared_ptr<Expression>\<close> is an option. The code never makes an
  expression with a null operand. Pointers to \<^verbatim>\<open>PhiExpression\<close> are compared as pointers: \<open>phi_ptr\<close>
  is the address of the object.
\<close>

datatype expression =
    ConstantExpression addr
  | VariableExpression "addr option"
  | BinaryExpression OpID expression expression
  | PhiExpression (phi_ptr: nat) expression expression

text \<open>
  \<^verbatim>\<open>operator==\<close> on two expressions: its \<^verbatim>\<open>switch\<close> has no case for variables, and control then flows
  off the end of the function.
\<close>

fun expr_eq :: "expression \<Rightarrow> expression \<Rightarrow> bool result" where
  "expr_eq (ConstantExpression c) (ConstantExpression d) = Inr (c = d)"
| "expr_eq (VariableExpression v) (VariableExpression w) = Inl UndefinedBehaviour"
| "expr_eq (BinaryExpression p l1 r1) (BinaryExpression q l2 r2) =
     (if p \<noteq> q then Inr False else rbind (expr_eq l1 l2) (\<lambda>e. if e then expr_eq r1 r2 else Inr False))"
| "expr_eq (PhiExpression _ l1 r1) (PhiExpression _ l2 r2) =
     rbind (expr_eq l1 l2) (\<lambda>e. if e then expr_eq r1 r2 else Inr False)"
| "expr_eq _ _ = Inr False"

text \<open>\<^verbatim>\<open>operator==\<close> on two shared pointers to expressions.\<close>

definition expr_ptr_eq :: "expression option \<Rightarrow> expression option \<Rightarrow> bool result" where
  "expr_ptr_eq a b = (case (a, b) of
       (None, None) \<Rightarrow> Inr True
     | (Some x, Some y) \<Rightarrow> expr_eq x y
     | _ \<Rightarrow> Inr False)"

text \<open>\<^verbatim>\<open>print\<close> of a value, by the class of the object. Printing a function numbers its values.\<close>

definition print_value :: "addr \<Rightarrow> ir \<Rightarrow> (string \<times> ir) outcome" where
  "print_value a m = obind (Some (get_val a m)) (\<lambda>x.
     case kind x of
       FunctionV \<Rightarrow> print_function a m
     | k \<Rightarrow> obind (case k of
           ArgumentV _ \<Rightarrow> print_argument a m
         | BasicBlockV \<Rightarrow> print_basic_block a m
         | GlobalVariableV _ _ \<Rightarrow> print_global_variable a m
         | InstructionV _ \<Rightarrow> print_instruction a m
         | _ \<Rightarrow> print_constant (next_addr m) a m) (\<lambda>t. Some (Inr (t, m))))"

definition seq_print :: "(ir \<Rightarrow> (string \<times> ir) outcome) list \<Rightarrow> ir \<Rightarrow> (string \<times> ir) outcome" where
  "seq_print ps m = ofold (\<lambda>p (s, m). obind (p m) (\<lambda>(t, m). Some (Inr (s @ t, m)))) ps ([], m)"

abbreviation put :: "string \<Rightarrow> ir \<Rightarrow> (string \<times> ir) outcome" where
  "put s \<equiv> \<lambda>m. Some (Inr (s, m))"

fun print_expression :: "expression \<Rightarrow> ir \<Rightarrow> (string \<times> ir) outcome" where
  "print_expression (ConstantExpression c) m = print_value c m"
| "print_expression (VariableExpression v) m = (case v of None \<Rightarrow> Some (Inl NullDeref) | Some a \<Rightarrow> print_value a m)"
| "print_expression (BinaryExpression op l r) m =
     obind (print_expression l m) (\<lambda>(s, m). obind (print_expression r m) (\<lambda>(t, m).
       put (''('' @ static_op_name op @ '' '' @ s @ '' '' @ t @ '')'') m))"
| "print_expression (PhiExpression _ l r) m =
     obind (print_expression l m) (\<lambda>(s, m). obind (print_expression r m) (\<lambda>(t, m).
       put (''(phi '' @ s @ '' '' @ t @ '')'') m))"

section \<open>Congruence classes\<close>

text \<open>A class is made with its leader. \<open>index_\<close> is a \<^verbatim>\<open>size_t\<close>.\<close>

record congruence_class =
  index_of :: "64 word"
  leader :: addr
  class_expr :: "expression option"
  value_phi :: "expression option"
  members :: "addr set"

definition contains_value :: "addr option \<Rightarrow> congruence_class \<Rightarrow> bool result" where
  "contains_value e c = Inr (e \<in> Some ` members c)"

definition contains_expr :: "expression option \<Rightarrow> congruence_class \<Rightarrow> bool result" where
  "contains_expr e c =
     (if e = None \<or> class_expr c = None then Inr False else expr_ptr_eq e (class_expr c))"

text \<open>The overload for phi functions compares two pointers.\<close>

definition same_phi :: "expression option \<Rightarrow> expression option \<Rightarrow> bool" where
  "same_phi p q \<longleftrightarrow> map_option phi_ptr p = map_option phi_ptr q"

definition contains_phi :: "expression option \<Rightarrow> congruence_class \<Rightarrow> bool result" where
  "contains_phi p c = Inr (p \<noteq> None \<and> value_phi c \<noteq> None \<and> same_phi p (value_phi c))"

definition class_less :: "congruence_class \<Rightarrow> congruence_class \<Rightarrow> bool" where
  "class_less c d \<longleftrightarrow> index_of c < index_of d"

definition class_eq :: "congruence_class \<Rightarrow> congruence_class \<Rightarrow> bool result" where
  "class_eq c d = rbind (expr_ptr_eq (class_expr c) (class_expr d)) (\<lambda>e.
     Inr (e \<and> same_phi (value_phi c) (value_phi d) \<and> members c = members d))"

section \<open>Partitions\<close>

text \<open>
  A \<^verbatim>\<open>std::set\<close> of classes in the order of their indices. A class that the code changes through a
  pointer is the one with that index.
\<close>

type_synonym partitions = "congruence_class list"

fun insert_class :: "congruence_class \<Rightarrow> partitions \<Rightarrow> partitions" where
  "insert_class c [] = [c]"
| "insert_class c (d # ds) =
     (if class_less c d then c # d # ds else if class_less d c then d # insert_class c ds else d # ds)"

definition update_class :: "congruence_class \<Rightarrow> (congruence_class \<Rightarrow> congruence_class) \<Rightarrow> partitions \<Rightarrow> partitions" where
  "update_class c f = map (\<lambda>d. if index_of d = index_of c then f d else d)"

text \<open>\<^verbatim>\<open>clone\<close> makes new objects with the same contents.\<close>

definition clone :: "partitions \<Rightarrow> partitions" where
  "clone p = fold insert_class p []"

text \<open>The three overloads of \<^verbatim>\<open>getClassOf\<close>.\<close>

fun first_class :: "(congruence_class \<Rightarrow> bool result) \<Rightarrow> partitions \<Rightarrow> congruence_class option result" where
  "first_class P [] = Inr None"
| "first_class P (c # cs) = rbind (P c) (\<lambda>b. if b then Inr (Some c) else first_class P cs)"

definition class_of_value :: "addr option \<Rightarrow> partitions \<Rightarrow> congruence_class option result" where
  "class_of_value e = first_class (contains_value e)"

definition class_of_expr :: "expression option \<Rightarrow> partitions \<Rightarrow> congruence_class option result" where
  "class_of_expr e = first_class (contains_expr e)"

definition class_of_phi :: "expression option \<Rightarrow> partitions \<Rightarrow> congruence_class option result" where
  "class_of_phi e = first_class (contains_phi e)"

text \<open>\<^verbatim>\<open>operator==\<close> on partitions compares the members of the classes.\<close>

definition partitions_eq :: "partitions \<Rightarrow> partitions \<Rightarrow> bool" where
  "partitions_eq p q \<longleftrightarrow> length p = length q \<and> list_all2 (\<lambda>c d. members c = members d) p q"

text \<open>Two functions of the pass are not written yet and return empty results.\<close>

definition join :: "partitions \<Rightarrow> partitions \<Rightarrow> partitions" where
  "join p q = []"

definition intersect_classes :: "congruence_class option \<Rightarrow> congruence_class option \<Rightarrow> congruence_class option" where
  "intersect_classes c d = None"

section \<open>The transfer function\<close>

text \<open>\<open>next_phi\<close> is the address of the next \<^verbatim>\<open>PhiExpression\<close>.\<close>

record gvn =
  next_value_number :: "64 word"
  pin :: "addr \<rightharpoonup> partitions"
  pout :: "addr \<rightharpoonup> partitions"
  next_phi :: nat

definition value_expr :: "ir \<Rightarrow> addr \<Rightarrow> expression option result" where
  "value_expr m i = rbind (get_val i m) (\<lambda>x.
     if kind x = InstructionV Add then
       rbind (get_operand i 0 m) (\<lambda>op1. rbind (get_operand i 1 m) (\<lambda>op2.
         Inr (Some (BinaryExpression Add (VariableExpression op1) (VariableExpression op2)))))
     else if kind x = InstructionV Alloca then Inr (Some (VariableExpression (Some i)))
     else if kind x = InstructionV Store then
       rbind (get_operand i 0 m) (\<lambda>op1. Inr (Some (VariableExpression op1)))
     else Inr None)"

fun get_vn :: "partitions \<Rightarrow> expression \<Rightarrow> expression option result" where
  "get_vn [] ve = Inr None"
| "get_vn (c # cs) ve = (case class_expr c of
       None \<Rightarrow> get_vn cs ve
     | Some e \<Rightarrow> rbind (expr_eq e ve) (\<lambda>b. if b then Inr (Some e) else get_vn cs ve))"

text \<open>The sum of two phi functions; the recursion is on the sum of their operands.\<close>

fun value_phi_func :: "partitions \<Rightarrow> expression \<Rightarrow> nat \<Rightarrow> (expression option \<times> nat) result" where
  "value_phi_func p (BinaryExpression Add (PhiExpression _ l1 r1) (PhiExpression _ l2 r2)) n =
     rbind (get_vn p (BinaryExpression Add l1 l2)) (\<lambda>vi.
     rbind (if vi = None then value_phi_func p (BinaryExpression Add l1 l2) n else Inr (vi, n)) (\<lambda>(vi, n).
     rbind (get_vn p (BinaryExpression Add r1 r2)) (\<lambda>vj.
     rbind (if vj = None then value_phi_func p (BinaryExpression Add r1 r2) n else Inr (vj, n)) (\<lambda>(vj, n).
     case (vi, vj) of
       (Some e1, Some e2) \<Rightarrow> Inr (Some (PhiExpression n e1 e2), Suc n)
     | _ \<Rightarrow> Inr (None, n)))))"
| "value_phi_func p _ n = Inr (None, n)"

text \<open>The call on a pointer, which dereferences it.\<close>

definition value_phi_of :: "partitions \<Rightarrow> expression option \<Rightarrow> nat \<Rightarrow> (expression option \<times> nat) result" where
  "value_phi_of p ve n = (case ve of None \<Rightarrow> Inl NullDeref | Some e \<Rightarrow> value_phi_func p e n)"

text \<open>The class that gets \<open>x\<close>: one with the same expression or phi function, or a new one.\<close>

definition put_in_class :: "addr \<Rightarrow> expression option \<Rightarrow> expression option \<Rightarrow> partitions \<times> gvn \<Rightarrow> (partitions \<times> gvn) result" where
  "put_in_class x ve vpf = (\<lambda>(p, s).
     rbind (class_of_expr ve p) (\<lambda>cc. case cc of
         Some c \<Rightarrow> Inr (update_class c (\<lambda>d. d\<lparr>members := insert x (members d), class_expr := ve\<rparr>) p, s)
       | None \<Rightarrow>
           rbind (if vpf = None then Inr None else class_of_phi vpf p) (\<lambda>cc. case cc of
               Some c \<Rightarrow> Inr (update_class c (\<lambda>d. d\<lparr>members := insert x (members d), value_phi := vpf\<rparr>) p, s)
             | None \<Rightarrow>
                 Inr (insert_class \<lparr>index_of = next_value_number s, leader = x,
                        class_expr = (if vpf = None then ve else vpf), value_phi = None, members = {x}\<rparr> p,
                      s\<lparr>next_value_number := next_value_number s + 1\<rparr>))))"

text \<open>After an addition the class of its first operand gets the expression of the addition.\<close>

definition note_addition :: "ir \<Rightarrow> addr \<Rightarrow> partitions \<Rightarrow> partitions result" where
  "note_addition m x p = rbind (get_val x m) (\<lambda>y.
     if kind y \<noteq> InstructionV Add then Inr p
     else if length (operands y) \<noteq> 2 then Inr p
     else rbind (get_operand x 0 m) (\<lambda>op1. rbind (get_operand x 1 m) (\<lambda>op2.
          rbind (class_of_value op1 p) (\<lambda>cc1. rbind (class_of_value op2 p) (\<lambda>cc2.
          case (cc1, cc2) of
            (Some c1, Some c2) \<Rightarrow>
              rbind (value_expr m x) (\<lambda>ve. Inr (insert_class c1 (update_class c1 (\<lambda>d. d\<lparr>class_expr := ve\<rparr>) p)))
          | _ \<Rightarrow> Inr p)))))"

definition take_out :: "addr \<Rightarrow> partitions \<Rightarrow> partitions result" where
  "take_out x p = rbind (class_of_value (Some x) p) (\<lambda>cc. case cc of
       None \<Rightarrow> Inr p
     | Some c \<Rightarrow> Inr (update_class c (\<lambda>d. d\<lparr>members := members d - {x}\<rparr>) p))"

text \<open>The parameter \<open>e\<close> is not used.\<close>

definition transfer_function :: "ir \<Rightarrow> addr \<Rightarrow> addr \<Rightarrow> partitions \<Rightarrow> gvn \<Rightarrow> (partitions \<times> gvn) result" where
  "transfer_function m x e p s =
     rbind (take_out x (clone p)) (\<lambda>q.
     rbind (value_expr m x) (\<lambda>ve.
     rbind (value_phi_of p ve (next_phi s)) (\<lambda>(vpf, n).
     rbind (put_in_class x ve vpf (q, s\<lparr>next_phi := n\<rparr>)) (\<lambda>(q, s).
     rbind (note_addition m x q) (\<lambda>q. Inr (q, s))))))"

section \<open>Detecting equivalences\<close>

text \<open>\<^verbatim>\<open>operator[]\<close> of \<^verbatim>\<open>std::map\<close> puts an empty partition where there is none.\<close>

definition lookup :: "(addr \<rightharpoonup> partitions) \<Rightarrow> addr \<Rightarrow> partitions" where
  "lookup t b = (case t b of None \<Rightarrow> [] | Some p \<Rightarrow> p)"

definition detect_block :: "ir \<Rightarrow> addr \<Rightarrow> gvn \<times> bool \<Rightarrow> (gvn \<times> bool) result" where
  "detect_block m b = (\<lambda>(s, changed).
     let p = lookup (pin s) b; s = s\<lparr>pin := (pin s)(b \<mapsto> p)\<rparr> in
     rbind (rfold (\<lambda>i (p, s). transfer_function m i i p s) (instr_list m b) (clone p, s)) (\<lambda>(p, s).
       Inr (s\<lparr>pout := (pout s)(b \<mapsto> p)\<rparr>, changed \<or> \<not> partitions_eq p (lookup (pout s) b))))"

partial_function (option) detect_loop :: "ir \<Rightarrow> addr \<Rightarrow> gvn \<Rightarrow> gvn outcome" where
  "detect_loop m f s =
     obind (Some (rfold (detect_block m) (block_list m f) (s, False))) (\<lambda>r.
       if snd r then detect_loop m f (fst r) else Some (Inr (fst r)))"

definition detectEquivalences :: "ir \<Rightarrow> addr \<Rightarrow> gvn \<Rightarrow> gvn outcome" where
  "detectEquivalences m f s = obind (Some (get_entry_block (cfg_of m f))) (\<lambda>_. detect_loop m f s)"

definition initPerFunction :: "gvn \<Rightarrow> gvn" where
  "initPerFunction s = s\<lparr>next_value_number := 1, pin := Map.empty, pout := Map.empty\<rparr>"

section \<open>Replacing the members of a class\<close>

text \<open>A use in the block, or in a phi function of one of its successors.\<close>

definition used_in :: "addr \<Rightarrow> addr \<Rightarrow> ir \<Rightarrow> bool result" where
  "used_in b user m = rbind (get_val user m) (\<lambda>x.
     if \<not> is_instruction (kind x) then Inr False
     else case parent x of
         None \<Rightarrow> Inl NullDeref
       | Some q \<Rightarrow> Inr (if kind x = InstructionV Phi then b \<in> set (pre_list m q) else q = b))"

definition replace_member :: "addr \<Rightarrow> congruence_class \<Rightarrow> addr \<Rightarrow> ir \<Rightarrow> ir outcome" where
  "replace_member b c a m = obind (Some (get_val a m)) (\<lambda>x.
     if a \<noteq> leader c \<and> (value_phi c \<noteq> None \<or> kind x \<noteq> InstructionV Phi)
     then replace_use_with_when a (leader c) (used_in b) m else Some (Inr m))"

definition replace_class :: "(addr \<Rightarrow> nat) \<Rightarrow> addr \<Rightarrow> congruence_class \<Rightarrow> ir \<Rightarrow> ir outcome" where
  "replace_class key b c m =
     (if index_of c = 0 then Some (Inr m) else ofold (replace_member b c) (in_order key (members c)) m)"

definition replace_cc_members :: "(addr \<Rightarrow> nat) \<Rightarrow> (addr \<rightharpoonup> partitions) \<Rightarrow> ir \<Rightarrow> ir outcome" where
  "replace_cc_members key t m =
     ofold (\<lambda>b. ofold (replace_class key b) (lookup t b)) (in_order key (dom t)) m"

section \<open>Messages and the JSON file\<close>

definition print_optional :: "expression option \<Rightarrow> ir \<Rightarrow> (string \<times> ir) outcome" where
  "print_optional e m = (case e of None \<Rightarrow> put ''nullptr'' m | Some e \<Rightarrow> print_expression e m)"

definition print_congruence_class :: "(addr \<Rightarrow> nat) \<Rightarrow> congruence_class \<Rightarrow> ir \<Rightarrow> (string \<times> ir) outcome" where
  "print_congruence_class key c m =
     (if index_of c = 0 then put (''top class'' @ [CHR 0x0A]) m
      else seq_print ([put (CHR 0x0A # ''index: '' @ digits (unat (index_of c)) @ CHR 0x0A # ''leader: ''),
             print_value (leader c), put (CHR 0x0A # ''value phi: ''), print_optional (value_phi c),
             put (CHR 0x0A # ''value expr: ''), print_optional (class_expr c), put (CHR 0x0A # ''members: {'')] @
           concat (map (\<lambda>a. [print_value a, put ''; '']) (in_order key (members c))) @
           [put (''}'' @ [CHR 0x0A])]) m)"

definition print_partitions :: "(addr \<Rightarrow> nat) \<Rightarrow> partitions \<Rightarrow> ir \<Rightarrow> (string \<times> ir) outcome" where
  "print_partitions key p m =
     (if p = [] then put (''empty partitions'' @ [CHR 0x0A]) m else seq_print (map (print_congruence_class key) p) m)"

definition dump_member :: "addr \<Rightarrow> ir \<Rightarrow> (string \<times> ir) outcome" where
  "dump_member a m = obind (Some (get_val a m)) (\<lambda>x.
     if is_constant (kind x) then obind (print_value a m) (\<lambda>(t, m). put (t @ '', '') m)
     else put ([CHR 0x22, CHR ''%''] @ name x @ [CHR 0x22] @ '', '') m)"

definition dump_cc_json :: "(addr \<Rightarrow> nat) \<Rightarrow> congruence_class \<Rightarrow> ir \<Rightarrow> (string \<times> ir) outcome" where
  "dump_cc_json key c = seq_print ([put ''[''] @ map dump_member (in_order key (members c)) @ [put '']''])"

definition dump_partition_json :: "(addr \<Rightarrow> nat) \<Rightarrow> partitions \<Rightarrow> ir \<Rightarrow> (string \<times> ir) outcome" where
  "dump_partition_json key p =
     seq_print ([put ''[''] @ concat (map (\<lambda>c. [dump_cc_json key c, put '', '']) p) @ [put '']''])"

definition dump_block :: "(addr \<Rightarrow> nat) \<Rightarrow> (addr \<rightharpoonup> partitions) \<Rightarrow> addr \<Rightarrow> ir \<Rightarrow> (string \<times> ir) outcome" where
  "dump_block key t b m = obind (Some (get_val b m)) (\<lambda>x.
     seq_print [put ([CHR 0x22] @ name x @ [CHR 0x22] @ '': ''), dump_partition_json key (lookup t b), put '',''] m)"

definition dump_bb2partition :: "(addr \<Rightarrow> nat) \<Rightarrow> (addr \<rightharpoonup> partitions) \<Rightarrow> ir \<Rightarrow> (string \<times> ir) outcome" where
  "dump_bb2partition key t =
     seq_print ([put ''{''] @ map (dump_block key t) (in_order key (dom t)) @ [put ''}''])"

text \<open>The classes that the run prints to the log.\<close>

definition log_classes :: "(addr \<Rightarrow> nat) \<Rightarrow> (addr \<rightharpoonup> partitions) \<Rightarrow> ir \<Rightarrow> ir outcome" where
  "log_classes key t m =
     ofold (\<lambda>b m. obind (Some (get_val b m)) (\<lambda>_. obind (seq_print (map (print_congruence_class key) (lookup t b)) m)
       (\<lambda>(_, m). Some (Inr m)))) (in_order key (dom t)) m"

section \<open>The pass\<close>

text \<open>\<^verbatim>\<open>run\<close> of a \<^verbatim>\<open>DeadCode\<close> object, which keeps its purity analysis and its count between two runs.\<close>

definition dce_run :: "ir \<times> func_info \<times> nat \<Rightarrow> (ir \<times> func_info \<times> nat) outcome" where
  "dce_run = (\<lambda>(m, fi, n). obind (run_func_info m fi) (\<lambda>fi.
     obind (dead_code_loop fi n m) (\<lambda>(m, n). Some (Inr (m, fi, n)))))"

record gvn_run =
  run_ir :: ir
  run_gvn_state :: gvn
  cout_text :: string
  json_text :: string

definition function_json :: "(addr \<Rightarrow> nat) \<Rightarrow> addr \<Rightarrow> (addr \<rightharpoonup> partitions) \<Rightarrow> ir \<Rightarrow> (string \<times> ir) outcome" where
  "function_json key f t m = obind (Some (get_val f m)) (\<lambda>x.
     seq_print [put (''{'' @ [CHR 0x0A, CHR 0x22] @ ''function'' @ [CHR 0x22] @ '': ''),
       put ([CHR 0x22] @ name x @ [CHR 0x22] @ '', ''),
       put ([CHR 0x0A, CHR 0x22] @ ''pout'' @ [CHR 0x22] @ '': ''), dump_bb2partition key t, put ''},''] m)"

definition gvn_function :: "(addr \<Rightarrow> nat) \<Rightarrow> bool \<Rightarrow> addr \<Rightarrow> gvn_run \<Rightarrow> gvn_run outcome" where
  "gvn_function key dump_json f r =
     (if block_list (run_ir r) f = [] then Some (Inr r)
      else obind (detectEquivalences (run_ir r) f (initPerFunction (run_gvn_state r))) (\<lambda>s.
           obind (log_classes key (pin s) (run_ir r)) (\<lambda>m.
           obind (log_classes key (pout s) m) (\<lambda>m.
           obind (if dump_json then function_json key f (pout s) m else put [] m) (\<lambda>(json, m).
           obind (replace_cc_members key (pout s) m) (\<lambda>m.
           Some (Inr \<lparr>run_ir = m, run_gvn_state = s,
             cout_text = cout_text r @ ''detectEquivalences()'' @ [CHR 0x0A], json_text = json_text r @ json\<rparr>)))))))"

definition gvn_init :: gvn where
  "gvn_init = \<lparr>next_value_number = 1, pin = Map.empty, pout = Map.empty, next_phi = 0\<rparr>"

text \<open>The text on the standard output, the text of \<^verbatim>\<open>gvn.json\<close>, and the module.\<close>

definition run_gvn :: "(addr \<Rightarrow> nat) \<Rightarrow> bool \<Rightarrow> ir \<Rightarrow> ((string \<times> string) \<times> ir) outcome" where
  "run_gvn key dump_json m =
     obind (run_func_info m func_info_init) (\<lambda>_.
     obind (dce_run (m, func_info_init, 0)) (\<lambda>(m, fi, n).
     obind (ofold (gvn_function key dump_json) (function_list m)
         \<lparr>run_ir = m, run_gvn_state = gvn_init, cout_text = ''GVN::run()'' @ [CHR 0x0A],
          json_text = (if dump_json then ''['' else [])\<rparr>) (\<lambda>r.
     obind (dce_run (run_ir r, fi, n)) (\<lambda>(m, fi, n).
     Some (Inr ((cout_text r, json_text r @ (if dump_json then '']'' else [])), m))))))"

end
