(* ===== verification/Gvn_Properties.thy ===== *)
theory Gvn_Properties
  imports Gvn Compiler_Properties
begin

text \<open>
  The properties of \<^verbatim>\<open>GVN\<close>: the comparison of expressions, the invariant of the partitions, and
  the undefined behaviour that the pass has on every compiled module with a function body.
\<close>

section \<open>Comparing expressions\<close>

text \<open>An expression without the addresses of its phi functions.\<close>

fun forget :: "expression \<Rightarrow> expression" where
  "forget (BinaryExpression op l r) = BinaryExpression op (forget l) (forget r)"
| "forget (PhiExpression _ l r) = PhiExpression 0 (forget l) (forget r)"
| "forget e = e"

fun var_free :: "expression \<Rightarrow> bool" where
  "var_free (ConstantExpression c) = True"
| "var_free (VariableExpression v) = False"
| "var_free (BinaryExpression op l r) = (var_free l \<and> var_free r)"
| "var_free (PhiExpression _ l r) = (var_free l \<and> var_free r)"

text \<open>
  C34. The comparison of an expression without variables returns and decides whether the two are
  the same up to the addresses of the objects.
\<close>

theorem expr_eq_correct:
  assumes "var_free a"
  shows "expr_eq a b = Inr (forget a = forget b)"
  using assms by (induction a b rule: expr_eq.induct) auto

theorem expr_eq_correct_witness:
  "expr_eq (PhiExpression 3 (ConstantExpression 1) (ConstantExpression 2))
     (PhiExpression 4 (ConstantExpression 1) (ConstantExpression 2)) = Inr True \<and>
   expr_eq (VariableExpression None) (VariableExpression None) = Inl UndefinedBehaviour"
  using expr_eq_correct [of "PhiExpression 3 (ConstantExpression 1) (ConstantExpression 2)"
    "PhiExpression 4 (ConstantExpression 1) (ConstantExpression 2)"] by simp

section \<open>Partitions\<close>

definition partition_ok :: "64 word \<Rightarrow> partitions \<Rightarrow> bool" where
  "partition_ok n p \<longleftrightarrow> sorted_wrt class_less p \<and> (\<forall>c \<in> set p. index_of c < n \<and> value_phi c = None) \<and>
     (\<forall>c \<in> set p. \<forall>d \<in> set p. members c \<inter> members d \<noteq> {} \<longrightarrow> c = d)"

definition all_members :: "partitions \<Rightarrow> addr set" where
  "all_members p = (\<Union>c \<in> set p. members c)"

lemma insert_last: "(\<And>d. d \<in> set p \<Longrightarrow> class_less d c) \<Longrightarrow> insert_class c p = p @ [c]"
proof (induction p)
  case (Cons d p)
  have "class_less d c" "\<not> class_less c d" using Cons.prems [of d] by (auto simp: class_less_def)
  then show ?case using Cons by simp
qed simp

lemma insert_present:
  "sorted_wrt class_less p \<Longrightarrow> d \<in> set p \<Longrightarrow> index_of d = index_of c \<Longrightarrow> insert_class c p = p"
  by (induction p) (auto simp: class_less_def)

lemma clone_sorted:
  assumes "sorted_wrt class_less p"
  shows "clone p = p"
proof -
  have "fold insert_class q r = r @ q" if "sorted_wrt class_less (r @ q)" for q r
    using that
  proof (induction q arbitrary: r)
    case (Cons c q)
    have "insert_class c r = r @ [c]"
      using Cons.prems by (intro insert_last) (auto simp: sorted_wrt_append)
    then show ?case using Cons.IH [of "r @ [c]"] Cons.prems by simp
  qed simp
  from this [of "[]" p] show ?thesis using assms by (simp add: clone_def)
qed

lemma index_unique:
  assumes "sorted_wrt class_less p" "c \<in> set p" "d \<in> set p" "index_of c = index_of d"
  shows "c = d"
  using assms by (induction p) (auto simp: class_less_def)

lemma update_class_sorted:
  assumes "sorted_wrt class_less p" "\<And>d. index_of (f d) = index_of d"
  shows "sorted_wrt class_less (update_class c f p)"
  unfolding update_class_def sorted_wrt_map
  by (rule sorted_wrt_mono_rel [OF _ assms(1)]) (auto simp: class_less_def assms(2))

lemma set_update_class:
  assumes "sorted_wrt class_less p" "c \<in> set p"
  shows "set (update_class c f p) = insert (f c) (set p - {c})"
proof -
  have "set (update_class c f p) = (\<lambda>d. if d = c then f d else d) ` set p"
    unfolding update_class_def set_map using index_unique [OF assms(1) _ assms(2)] by (intro image_cong) auto
  then show ?thesis using assms(2) by auto
qed

lemma first_class_Some:
  "first_class P p = Inr (Some c) \<Longrightarrow> c \<in> set p \<and> P c = Inr True"
  by (induction p) (auto simp: rbind_eq_Inr split: if_splits)

lemma first_class_None: "first_class P p = Inr None \<Longrightarrow> c \<in> set p \<Longrightarrow> P c = Inr False"
  by (induction p) (auto simp: rbind_eq_Inr split: if_splits)

lemma partition_okI:
  assumes "sorted_wrt class_less p" "\<And>c. c \<in> set p \<Longrightarrow> index_of c < n \<and> value_phi c = None"
    "\<And>c d a. c \<in> set p \<Longrightarrow> d \<in> set p \<Longrightarrow> a \<in> members c \<Longrightarrow> a \<in> members d \<Longrightarrow> c = d"
  shows "partition_ok n p"
  using assms unfolding partition_ok_def by blast

lemma partition_okD:
  assumes "partition_ok n p"
  shows "sorted_wrt class_less p" "c \<in> set p \<Longrightarrow> index_of c < n" "c \<in> set p \<Longrightarrow> value_phi c = None"
    "c \<in> set p \<Longrightarrow> d \<in> set p \<Longrightarrow> a \<in> members c \<Longrightarrow> a \<in> members d \<Longrightarrow> c = d"
  using assms unfolding partition_ok_def by blast+

text \<open>Changing one class keeps the invariant when its new members are in no other class.\<close>

lemma partition_ok_update:
  assumes p: "partition_ok n p" and c: "c \<in> set p" and idx: "\<And>d. index_of (f d) = index_of d"
    and phi: "value_phi (f c) = None"
    and new: "\<And>a d. a \<in> members (f c) \<Longrightarrow> d \<in> set p \<Longrightarrow> a \<in> members d \<Longrightarrow> d = c"
  shows "partition_ok n (update_class c f p)"
proof (rule partition_okI)
  show "sorted_wrt class_less (update_class c f p)" by (rule update_class_sorted [OF partition_okD(1) [OF p] idx])
  note set = set_update_class [OF partition_okD(1) [OF p] c]
  show "index_of d < n \<and> value_phi d = None" if "d \<in> set (update_class c f p)" for d
    using that partition_okD(2,3) [OF p] c phi by (auto simp: set idx)
  show "d = e" if "d \<in> set (update_class c f p)" "e \<in> set (update_class c f p)" "a \<in> members d" "a \<in> members e" for d e a
    using that partition_okD(4) [OF p, of d e a] new [of a d] new [of a e] by (auto simp: set)
qed

lemma all_members_update:
  assumes "partition_ok n p" "c \<in> set p"
  shows "all_members (update_class c f p) = members (f c) \<union> (all_members p - members c)"
  using partition_okD(4) [OF assms(1) _ assms(2)] assms(2)
  unfolding all_members_def set_update_class [OF partition_okD(1) [OF assms(1)] assms(2)] by blast

lemma take_out_spec:
  assumes p: "partition_ok n p" and q: "take_out x p = Inr q"
  shows "partition_ok n q \<and> all_members q = all_members p - {x}"
proof -
  obtain cc where cc: "class_of_value (Some x) p = Inr cc" using q by (auto simp: take_out_def rbind_eq_Inr)
  show ?thesis
  proof (cases cc)
    case None
    have "x \<notin> members c" if "c \<in> set p" for c
      using first_class_None [OF _ that, of "contains_value (Some x)"] cc None by (auto simp: class_of_value_def contains_value_def)
    then have "x \<notin> all_members p" by (simp add: all_members_def)
    then show ?thesis using q cc None p by (simp add: take_out_def)
  next
    case (Some c)
    let ?f = "\<lambda>d. d\<lparr>members := members d - {x}\<rparr>"
    have c: "c \<in> set p" "x \<in> members c"
      using first_class_Some [of "contains_value (Some x)" p c] cc Some by (auto simp: class_of_value_def contains_value_def)
    have qq: "q = update_class c ?f p" using q cc Some by (simp add: take_out_def)
    have "partition_ok n q" unfolding qq
    proof (rule partition_ok_update [OF p c(1)])
      show "d = c" if "a \<in> members (?f c)" "d \<in> set p" "a \<in> members d" for a d
        using partition_okD(4) [OF p that(2) c(1) that(3)] that(1) by simp
    qed (simp_all add: partition_okD(3) [OF p c(1)])
    moreover have "all_members q = all_members p - {x}"
      unfolding qq all_members_update [OF p c(1)] using c by (auto simp: all_members_def)
    ultimately show ?thesis by blast
  qed
qed

lemma put_in_class_spec:
  assumes p: "partition_ok (next_value_number s) p" and x: "x \<notin> all_members p"
    and n: "next_value_number s < next_value_number s + 1"
    and r: "put_in_class x ve vpf (p, s) = Inr (q, s')"
  shows "partition_ok (next_value_number s') q \<and> all_members q = insert x (all_members p) \<and>
    next_value_number s \<le> next_value_number s'"
proof -
  have fresh: "x \<notin> members d" if "d \<in> set p" for d using x that by (simp add: all_members_def)
  obtain cc where cc: "class_of_expr ve p = Inr cc" using r by (auto simp: put_in_class_def rbind_eq_Inr)
  show ?thesis
  proof (cases cc)
    case (Some c)
    let ?f = "\<lambda>d. d\<lparr>members := insert x (members d), class_expr := ve\<rparr>"
    have c: "c \<in> set p" using first_class_Some [of "contains_expr ve" p c] cc Some by (simp add: class_of_expr_def)
    have qq: "q = update_class c ?f p" "s' = s" using r cc Some by (simp_all add: put_in_class_def)
    have "partition_ok (next_value_number s) q" unfolding qq(1)
    proof (rule partition_ok_update [OF p c])
      show "d = c" if "a \<in> members (?f c)" "d \<in> set p" "a \<in> members d" for a d
        using partition_okD(4) [OF p that(2) c that(3)] that fresh by auto
    qed (simp_all add: partition_okD(3) [OF p c])
    moreover have "all_members q = insert x (all_members p)"
      unfolding qq(1) all_members_update [OF p c] using c by (auto simp: all_members_def)
    ultimately show ?thesis using qq(2) by simp
  next
    case None
    have phi: "class_of_phi vpf p = Inr (Some c) \<Longrightarrow> False" for c
      using first_class_Some [of "contains_phi vpf" p c] partition_okD(3) [OF p, of c]
      by (auto simp: class_of_phi_def contains_phi_def)
    let ?c = "\<lparr>index_of = next_value_number s, leader = x, class_expr = (if vpf = None then ve else vpf),
      value_phi = None, members = {x}\<rparr>"
    have qq: "q = insert_class ?c p" "s' = s\<lparr>next_value_number := next_value_number s + 1\<rparr>"
      using r cc None phi by (auto simp: put_in_class_def rbind_eq_Inr split: option.splits if_splits)
    have last: "q = p @ [?c]"
      unfolding qq(1) by (rule insert_last) (simp add: class_less_def partition_okD(2) [OF p])
    have "partition_ok (next_value_number s + 1) q"
    proof (rule partition_okI)
      show "sorted_wrt class_less q"
        using partition_okD(1,2) [OF p] by (auto simp: last sorted_wrt_append class_less_def)
      show "index_of d < next_value_number s + 1 \<and> value_phi d = None" if "d \<in> set q" for d
        using that partition_okD(2,3) [OF p, of d] n by (auto simp: last)
      show "d = e" if "d \<in> set q" "e \<in> set q" "a \<in> members d" "a \<in> members e" for d e a
        using that partition_okD(4) [OF p, of d e a] fresh by (auto simp: last)
    qed
    then show ?thesis using n by (simp add: qq(2) last all_members_def less_imp_le)
  qed
qed

lemma note_addition_spec:
  assumes p: "partition_ok n p" and q: "note_addition m x p = Inr q"
  shows "partition_ok n q \<and> all_members q = all_members p"
proof -
  have "q = p \<or> (\<exists>c ve. c \<in> set p \<and> q = insert_class c (update_class c (\<lambda>d. d\<lparr>class_expr := ve\<rparr>) p))"
  proof -
    obtain y where y: "get_val x m = Inr y" using q by (auto simp: note_addition_def rbind_eq_Inr)
    show ?thesis
    proof (cases "kind y \<noteq> InstructionV Add \<or> length (operands y) \<noteq> 2")
      case True
      then have "note_addition m x p = Inr p" using y by (auto simp: note_addition_def)
      then show ?thesis using q by simp
    next
      case False
      then obtain op1 op2 cc1 cc2 where o: "class_of_value op2 p = Inr cc2" "class_of_value op1 p = Inr cc1"
        "(case cc1 of None \<Rightarrow> Inr p | Some c1 \<Rightarrow> (case cc2 of None \<Rightarrow> Inr p | Some c2 \<Rightarrow>
            rbind (value_expr m x) (\<lambda>ve. Inr (insert_class c1 (update_class c1 (\<lambda>d. d\<lparr>class_expr := ve\<rparr>) p))))) = Inr q"
        using q y unfolding note_addition_def by (auto simp: rbind_eq_Inr)
      then show ?thesis
        using first_class_Some [of "contains_value op1" p]
        by (cases cc1; cases cc2) (auto simp: class_of_value_def rbind_eq_Inr)
    qed
  qed
  then show ?thesis
  proof
    assume "\<exists>c ve. c \<in> set p \<and> q = insert_class c (update_class c (\<lambda>d. d\<lparr>class_expr := ve\<rparr>) p)"
    then obtain c ve where c: "c \<in> set p" and q: "q = insert_class c (update_class c (\<lambda>d. d\<lparr>class_expr := ve\<rparr>) p)"
      by blast
    let ?u = "update_class c (\<lambda>d. d\<lparr>class_expr := ve\<rparr>) p"
    have u: "partition_ok n ?u"
      by (rule partition_ok_update [OF p c]) (use partition_okD(3,4) [OF p] c in auto)
    have "c\<lparr>class_expr := ve\<rparr> \<in> set ?u" unfolding set_update_class [OF partition_okD(1) [OF p] c] by simp
    then have "q = ?u" using insert_present [OF partition_okD(1) [OF u]] q by simp
    then show ?thesis using u c unfolding \<open>q = ?u\<close> all_members_update [OF p c] by (auto simp: all_members_def)
  qed (use p in simp)
qed

text \<open>
  C21. The transfer function keeps a partition a partition: the classes stay in the order of their
  indices and share no value, no class ever has a phi function, and afterwards the instruction is
  in exactly one class while every other value stays in a class.
\<close>

theorem transfer_partition:
  assumes "partition_ok (next_value_number s) p" "transfer_function m x e p s = Inr (q, s')"
    "next_value_number s < next_value_number s + 1"
  shows "partition_ok (next_value_number s') q \<and> all_members q = insert x (all_members p) \<and> (\<exists>!c. c \<in> set q \<and> x \<in> members c)"
proof -
  have cl: "clone p = p" by (rule clone_sorted [OF partition_okD(1) [OF assms(1)]])
  obtain ve vpf n q1 q2 where r: "take_out x p = Inr q1"
    "put_in_class x ve vpf (q1, s\<lparr>next_phi := n\<rparr>) = Inr (q2, s')" "note_addition m x q2 = Inr q"
    using assms(2) by (auto simp: transfer_function_def cl rbind_eq_Inr)
  have 1: "partition_ok (next_value_number s) q1" "all_members q1 = all_members p - {x}"
    using take_out_spec [OF assms(1) r(1)] by blast+
  have 2: "partition_ok (next_value_number s') q2" "all_members q2 = insert x (all_members q1)"
    using put_in_class_spec [OF _ _ _ r(2)] 1 assms(3) by simp_all
  have 3: "partition_ok (next_value_number s') q" "all_members q = insert x (all_members p)"
    using note_addition_spec [OF 2(1) r(3)] 2(2) 1(2) by auto
  have "x \<in> all_members q" using 3(2) by simp
  then have "\<exists>!c. c \<in> set q \<and> x \<in> members c"
    using partition_okD(4) [OF 3(1)] unfolding all_members_def by blast
  then show ?thesis using 3 by blast
qed

definition sum_ir :: ir where
  "sum_ir = ir_init\<lparr>heap := [0 \<mapsto> new_val (IntegerTy 32) [] (ArgumentV 0) 0 None,
     1 \<mapsto> (new_val (IntegerTy 32) [] (InstructionV Add) 2 None)\<lparr>operands := [Some 0, Some 0]\<rparr>], next_addr := 2\<rparr>"

theorem transfer_partition_witness:
  "\<exists>q s'. transfer_function sum_ir 1 1 [] gvn_init = Inr (q, s') \<and> all_members q = {1} \<and> next_value_number s' = 2"
proof -
  obtain q s' where r: "transfer_function sum_ir 1 1 [] gvn_init = Inr (q, s')" "next_value_number s' = 2"
    by (simp add: transfer_function_def clone_def take_out_def class_of_value_def class_of_expr_def put_in_class_def
        value_expr_def value_phi_of_def note_addition_def get_val_def get_operand_def sum_ir_def new_val_def
        contains_value_def gvn_init_def del: One_nat_def)
  have "partition_ok (next_value_number gvn_init) []" by (simp add: partition_ok_def)
  moreover have "next_value_number gvn_init < next_value_number gvn_init + 1" by (simp add: gvn_init_def)
  ultimately show ?thesis using transfer_partition [of gvn_init "[]", OF _ r(1)] r by (auto simp: all_members_def)
qed

section \<open>The pass on a compiled module\<close>

text \<open>The two ways in which the transfer function fails.\<close>

definition undefs :: "cpp_error set" where
  "undefs = {NullDeref, UndefinedBehaviour}"

definition fails_undef :: "'a result \<Rightarrow> bool" where
  "fails_undef r \<longleftrightarrow> (\<forall>e. r = Inl e \<longrightarrow> e \<in> undefs)"

named_theorems undef_intros "what can only fail by undefined behaviour"

lemma fails_undef_basic [undef_intros]:
  "fails_undef (Inr x)" "fails_undef (Inl NullDeref)" "fails_undef (Inl UndefinedBehaviour)"
  by (simp_all add: fails_undef_def undefs_def)

lemma fails_undef_rbind [undef_intros]:
  "fails_undef r \<Longrightarrow> (\<And>x. r = Inr x \<Longrightarrow> fails_undef (f x)) \<Longrightarrow> fails_undef (rbind r f)"
  by (auto simp: fails_undef_def rbind_eq_Inl)

lemma fails_undef_if [undef_intros]:
  "(c \<Longrightarrow> fails_undef a) \<Longrightarrow> (\<not> c \<Longrightarrow> fails_undef b) \<Longrightarrow> fails_undef (if c then a else b)"
  by simp

lemma fails_undef_option [undef_intros]:
  "fails_undef a \<Longrightarrow> (\<And>x. fails_undef (f x)) \<Longrightarrow> fails_undef (case v of None \<Rightarrow> a | Some x \<Rightarrow> f x)"
  by (cases v) simp_all

lemma fails_undef_prod [undef_intros]:
  "(\<And>x y. fails_undef (f x y)) \<Longrightarrow> fails_undef (case z of (x, y) \<Rightarrow> f x y)"
  by (cases z) simp

lemma get_val_undef [undef_intros]: "fails_undef (get_val a m)"
  by (auto simp: get_val_def intro: undef_intros)

lemma get_operand_undef [undef_intros]: "fails_undef (get_operand a i m)"
  unfolding get_operand_def by (intro undef_intros)

lemma expr_eq_undef [undef_intros]: "fails_undef (expr_eq a b)"
  by (induction a b rule: expr_eq.induct) (auto intro!: undef_intros)

lemma first_class_undef:
  "(\<And>c. fails_undef (P c)) \<Longrightarrow> fails_undef (first_class P p)"
  by (induction p) (auto intro!: undef_intros)

lemma class_of_undef [undef_intros]:
  "fails_undef (class_of_value v p)" "fails_undef (class_of_expr e p)" "fails_undef (class_of_phi e p)"
  by (auto simp: class_of_value_def class_of_expr_def class_of_phi_def contains_value_def contains_expr_def contains_phi_def
      expr_ptr_eq_def intro!: first_class_undef undef_intros)

lemma value_expr_undef [undef_intros]: "fails_undef (value_expr m x)"
  unfolding value_expr_def by (intro undef_intros)

lemma get_vn_undef [undef_intros]: "fails_undef (get_vn p e)"
  by (induction p) (auto intro!: undef_intros)

lemma value_phi_func_undef [undef_intros]: "fails_undef (value_phi_func p e n)"
  by (induction p e n rule: value_phi_func.induct) (auto intro!: undef_intros)

lemma transfer_function_undef [undef_intros]: "fails_undef (transfer_function m x e p s)"
  unfolding transfer_function_def take_out_def put_in_class_def note_addition_def value_phi_of_def
  by (intro undef_intros)

lemma first_class_total:
  "(\<And>c. \<exists>b. P c = Inr b) \<Longrightarrow> \<exists>r. first_class P p = Inr r"
  by (induction p) (auto simp: rbind_def split: sum.splits, metis Inl_Inr_False)

text \<open>An instruction without a value expression is where the null pointer is dereferenced.\<close>

lemma transfer_no_expr:
  assumes "heap m x = Some y" "kind y \<notin> InstructionV ` {Add, Alloca, Store}"
  shows "\<exists>e \<in> undefs. transfer_function m x x p s = Inl e"
proof -
  have "value_expr m x = Inr None" using assms by (auto simp: value_expr_def get_val_def)
  moreover obtain q where "take_out x (clone p) = Inr q"
    using first_class_total [of "contains_value (Some x)" "clone p"]
    by (force simp: take_out_def class_of_value_def contains_value_def split: option.splits)
  ultimately show ?thesis by (simp add: transfer_function_def value_phi_of_def undefs_def)
qed

text \<open>A loop with a step that always fails.\<close>

lemma rfold_stuck:
  assumes "x \<in> set xs" "\<And>s. \<exists>e \<in> undefs. g x s = Inl e" "\<And>y s. fails_undef (g y s)"
  shows "\<exists>e \<in> undefs. rfold g xs s = Inl e"
  using assms(1)
proof (induction xs arbitrary: s)
  case (Cons y xs)
  show ?case
  proof (cases "g y s")
    case (Inl e)
    then show ?thesis using assms(3) [of y s] by (auto simp: fails_undef_def)
  next
    case (Inr t)
    then show ?thesis using Cons assms(2) [of s] by auto
  qed
qed simp

lemma rfold_undef [undef_intros]: "(\<And>y s. fails_undef (g y s)) \<Longrightarrow> fails_undef (rfold g xs s)"
  by (induction xs arbitrary: s) (auto intro!: undef_intros)

lemma detect_block_undef [undef_intros]: "fails_undef (detect_block m b s)"
  unfolding detect_block_def Let_def by (intro undef_intros)

text \<open>The work on a function fails in a block with an instruction that has no value expression.\<close>

lemma detect_block_stuck:
  assumes i: "i \<in> set (instr_list m b)" "heap m i = Some y" "kind y \<notin> InstructionV ` {Add, Alloca, Store}"
  shows "\<exists>e \<in> undefs. detect_block m b s = Inl e"
proof -
  obtain s0 changed where s: "s = (s0, changed)" by (cases s)
  let ?p = "lookup (pin s0) b"
  have "\<exists>e \<in> undefs. rfold (\<lambda>i (p, s). transfer_function m i i p s) (instr_list m b)
    (clone ?p, s0\<lparr>pin := (pin s0)(b \<mapsto> ?p)\<rparr>) = Inl e"
    by (rule rfold_stuck [OF i(1)]) (use transfer_no_expr [OF i(2,3)] in \<open>auto intro!: undef_intros split: prod.splits\<close>)
  then show ?thesis by (auto simp: s detect_block_def)
qed

lemma detect_stuck:
  assumes "b \<in> set (block_list m f)" "i \<in> set (instr_list m b)" "heap m i = Some y"
    "kind y \<notin> InstructionV ` {Add, Alloca, Store}"
  shows "\<exists>e \<in> undefs. detectEquivalences m f s = Some (Inl e)"
proof -
  have "\<exists>e \<in> undefs. rfold (detect_block m) (block_list m f) (s, False) = Inl e"
    by (rule rfold_stuck [OF assms(1)]) (use detect_block_stuck [OF assms(2-4)] in \<open>auto intro!: undef_intros\<close>)
  then have "\<exists>e \<in> undefs. detect_loop m f s = Some (Inl e)" by (auto simp: detect_loop.simps [of m f s])
  moreover have "get_entry_block (cfg_of m f) = Inr (hd (block_list m f))"
    using assms(1) by (cases "block_list m f") (simp_all add: get_entry_block_def cfg_of_def)
  ultimately show ?thesis by (simp add: detectEquivalences_def)
qed

lemma gvn_functions_stuck:
  assumes bodies: "\<And>f. f \<in> set fs \<Longrightarrow> block_list m f \<noteq> [] \<Longrightarrow> \<exists>b \<in> set (block_list m f). \<exists>i \<in> set (instr_list m b). \<exists>y.
      heap m i = Some y \<and> kind y \<notin> InstructionV ` {Add, Alloca, Store}"
    and some: "\<exists>f \<in> set fs. block_list m f \<noteq> []" and r: "run_ir r = m"
  shows "\<exists>e \<in> undefs. ofold (gvn_function key dump_json) fs r = Some (Inl e)"
  using bodies some
proof (induction fs)
  case (Cons f fs)
  show ?case
  proof (cases "block_list m f = []")
    case True
    then show ?thesis using Cons r by (simp add: gvn_function_def)
  next
    case False
    then obtain b i y where "b \<in> set (block_list m f)" "i \<in> set (instr_list m b)" "heap m i = Some y"
      "kind y \<notin> InstructionV ` {Add, Alloca, Store}" using Cons.prems(1) [of f] by auto
    from detect_stuck [OF this, of "initPerFunction (run_gvn_state r)"] show ?thesis
      using False r by (auto simp: gvn_function_def)
  qed
qed simp

text \<open>
  C11. Whenever \<^verbatim>\<open>GVN\<close> runs on a compiled module in which a function has a body, it has undefined
  behaviour: every block ends with a branch or a return, which has no value expression, and
  \<^verbatim>\<open>valuePhiFunc\<close> dereferences the null pointer it gets for it, unless the comparison of two
  variables has failed before.
\<close>

theorem gvn_undefined:
  assumes "compile p = Inr m" "f \<in> set (function_list m)" "block_list m f \<noteq> []"
  shows "run_gvn key dump_json m \<in> {Some (Inl NullDeref), Some (Inl UndefinedBehaviour)}"
proof -
  have wb: "well_built m" "all_sealed m" using compile_top [OF assms(1)] by blast+
  obtain fi where fi: "run_func_info m func_info_init = Some (Inr fi)" and ok: "module_ok m fi"
    using well_built_func_info [OF wb(1)] by blast
  let ?D = "dead_all m fi"
  let ?m = "swept ?D ?D m"
  obtain n where dce: "dce_run (m, func_info_init, 0) = Some (Inr (?m, fi, n))"
    using fi dead_code_loop_spec [OF ok refl, of 0] by (simp add: dce_run_def)
  have body: "\<exists>b \<in> set (block_list ?m g). \<exists>i \<in> set (instr_list ?m b). \<exists>y. heap ?m i = Some y \<and>
      kind y \<notin> InstructionV ` {Add, Alloca, Store}" if g: "g \<in> set (function_list m)" "block_list m g \<noteq> []" for g
  proof -
    let ?b = "hd (block_list m g)" let ?i = "last (instr_list m ?b)"
    have b: "?b \<in> set (block_list m g)" using g(2) by simp
    have i: "?i \<in> set (instr_list m ?b)" "is_term m ?i" using sealed_last wb(2) b by (auto simp: all_sealed_def)
    then obtain x where x: "heap m ?i = Some x" "isTerminator x" by (auto simp: is_term_def split: option.splits)
    have in_g: "?i \<in> set (listed m g)" using i(1) b by (auto simp: set_listed)
    have "?i \<in> set (listed ?m g)"
      using dead_code_listed [OF g(1) ok] terminator_needed [OF i(2) in_g, of fi] in_g by simp
    then have "?i \<notin> ?D" using listed_swept [OF g(1), of ?D ?D] by auto
    then have h: "?i \<in> set (instr_list ?m ?b)" "heap ?m ?i = Some (drop_uses ?D x)" using i(1) x(1) by auto
    have "kind (drop_uses ?D x) \<notin> InstructionV ` {Add, Alloca, Store}" using x(2) by (auto simp: isTerminator_def)
    then have "\<exists>i \<in> set (instr_list ?m ?b). \<exists>y. heap ?m i = Some y \<and> kind y \<notin> InstructionV ` {Add, Alloca, Store}"
      using h by blast
    moreover have "?b \<in> set (block_list ?m g)" using b by simp
    ultimately show ?thesis by blast
  qed
  have "\<exists>e \<in> undefs. ofold (gvn_function key dump_json) (function_list ?m)
    \<lparr>run_ir = ?m, run_gvn_state = gvn_init, cout_text = ''GVN::run()'' @ [CHR 0x0A],
      json_text = (if dump_json then ''['' else [])\<rparr> = Some (Inl e)"
    by (rule gvn_functions_stuck [where m = ?m]) (use body assms(2,3) in \<open>auto simp del: swept_simps(2)\<close>)
  then show ?thesis using fi dce by (auto simp: run_gvn_def undefs_def)
qed

theorem gvn_undefined_witness:
  "\<exists>m. compile endless = Inr m \<and> (\<forall>key. run_gvn key False m \<in> {Some (Inl NullDeref), Some (Inl UndefinedBehaviour)})"
proof -
  obtain m where m: "compile endless = Inr m" "function_list m = [0, 1, 3, 5, 6]"
    "block_list m = (\<lambda>_. [])(6 := [7, 8, 11, 12, 16, 17, 18])" using endless_compiles by blast
  then show ?thesis using gvn_undefined [OF m(1), of 6] by simp
qed

end
