(* ===== verification/Driver.thy ===== *)
theory Driver
  imports Gvn Builder_Program
begin

text \<open>
  \<^verbatim>\<open>main\<close> of \<^verbatim>\<open>cminusfc.cpp\<close> and \<^verbatim>\<open>PassManager\<close>: the command line, the passes it asks for, the
  files and the commands that the compiler leaves to the system.
\<close>

section \<open>The command line\<close>

record options =
  target_path :: string
  input_path :: string
  opt_mem2reg :: bool
  opt_gvn :: bool
  dump_json :: bool
  opt_emit :: bool

definition no_options :: options where
  "no_options = \<lparr>target_path = [], input_path = [], opt_mem2reg = False, opt_gvn = False, dump_json = False, opt_emit = False\<rparr>"

text \<open>The loop over the arguments behind the name of the program; \<open>None\<close> is the help text and exit.\<close>

fun parse_args :: "string list \<Rightarrow> options \<Rightarrow> options option" where
  "parse_args [] o1 = Some o1"
| "parse_args (a # as) o1 =
     (if a = ''-h'' \<or> a = ''--help'' then None
      else if a = ''-o'' then
        (case as of
           [] \<Rightarrow> None
         | t # as \<Rightarrow> if target_path o1 = [] then parse_args as (o1\<lparr>target_path := t\<rparr>) else None)
      else if a = ''-emit-llvm'' then parse_args as (o1\<lparr>opt_emit := True\<rparr>)
      else if a = ''-mem2reg'' then parse_args as (o1\<lparr>opt_mem2reg := True\<rparr>)
      else if a = ''-gvn'' then parse_args as (o1\<lparr>opt_gvn := True\<rparr>)
      else if a = ''-dump-json'' then parse_args as (o1\<lparr>dump_json := True\<rparr>)
      else if input_path o1 = [] then parse_args as (o1\<lparr>input_path := a\<rparr>)
      else None)"

text \<open>\<^verbatim>\<open>std::string::rfind\<close> of a character; \<open>None\<close> is \<^verbatim>\<open>npos\<close>.\<close>

fun rfind :: "char \<Rightarrow> string \<Rightarrow> nat option" where
  "rfind c [] = None"
| "rfind c (x # xs) = (case rfind c xs of Some i \<Rightarrow> Some (Suc i) | None \<Rightarrow> if x = c then Some 0 else None)"

text \<open>The target named after the input, which must be a \<^verbatim>\<open>.cminus\<close> file then.\<close>

definition default_target :: "string \<Rightarrow> string option" where
  "default_target path = (case rfind CHR ''.'' path of
       None \<Rightarrow> None
     | Some pos \<Rightarrow> if drop pos path \<noteq> ''.cminus'' then None else Some (take pos path))"

section \<open>The pass manager\<close>

text \<open>What the program does to the outside.\<close>

datatype action =
    Help
  | UnknownFiletype
  | Cout string
  | WriteFile string string
  | System string

text \<open>A pass is run on the module and may act. The flag prints the module behind it.\<close>

type_synonym pass = "ir \<Rightarrow> (action list \<times> ir) outcome"

definition mem2reg_pass :: "(addr \<Rightarrow> nat) \<Rightarrow> pass" where
  "mem2reg_pass key m = obind (run_mem2reg key m) (\<lambda>m. Some (Inr ([], m)))"

definition gvn_pass :: "(addr \<Rightarrow> nat) \<Rightarrow> bool \<Rightarrow> pass" where
  "gvn_pass key dump m = obind (run_gvn key dump m) (\<lambda>((out, json), m).
     Some (Inr ([Cout out] @ (if dump then [WriteFile ''gvn.json'' json] else []), m)))"

definition run_pass :: "pass \<times> bool \<Rightarrow> action list \<times> ir \<Rightarrow> (action list \<times> ir) outcome" where
  "run_pass p = (\<lambda>(acts, m). obind (fst p m) (\<lambda>(new, m).
     if snd p then obind (Some (set_print_name m)) (\<lambda>m. obind (print_module m) (\<lambda>(t, m).
       Some (Inr (acts @ new @ [Cout t], m))))
     else Some (Inr (acts @ new, m))))"

definition run_passes :: "(pass \<times> bool) list \<Rightarrow> ir \<Rightarrow> (action list \<times> ir) outcome" where
  "run_passes ps m = ofold run_pass ps ([], m)"

definition passes_of :: "(addr \<Rightarrow> nat) \<Rightarrow> options \<Rightarrow> (pass \<times> bool) list" where
  "passes_of key o1 =
     (if opt_mem2reg o1 then [(mem2reg_pass key, opt_emit o1)] else []) @
     (if opt_gvn o1 then [(gvn_pass key (dump_json o1), opt_emit o1)] else [])"

section \<open>The compiler\<close>

definition ll_text :: "string \<Rightarrow> string \<Rightarrow> string" where
  "ll_text path ir_text = ''; ModuleID = '' @ [CHR 0x27] @ ''cminus'' @ [CHR 0x27] @ [CHR 0x0A] @
     ''source_filename = '' @ [CHR 0x22] @ path @ [CHR 0x22, CHR 0x0A, CHR 0x0A] @ ir_text"

text \<open>The run of the builder and of the passes: what they do, and the text of the module.\<close>

definition compile_text :: "(addr \<Rightarrow> nat) \<Rightarrow> options \<Rightarrow> f32 ASTProgram \<Rightarrow> (action list \<times> string) outcome" where
  "compile_text key o1 p =
     obind (Some (compile p)) (\<lambda>m.
     obind (run_passes (passes_of key o1) m) (\<lambda>(acts, m).
     obind (print_module m) (\<lambda>(t, _). Some (Inr (acts, t)))))"

text \<open>The directory of the program, for the library of the run-time functions.\<close>

definition lib_path :: "string \<Rightarrow> string" where
  "lib_path exe = (let l = '' -L'' @ exe in case rfind CHR ''/'' l of Some idx \<Rightarrow> take idx l | None \<Rightarrow> [])"

definition clang_command :: "string \<Rightarrow> string \<Rightarrow> string" where
  "clang_command exe target = ''clang -O0 -w -no-pie '' @ target @ ''.ll -o '' @ target @ lib_path exe @ '' -lcminus_io''"

text \<open>
  \<open>parse\<close> is the generated parser, \<open>stof\<close> is \<^verbatim>\<open>std::stof\<close>, \<open>system\<close> the result of \<^verbatim>\<open>std::system\<close>.
  The result is the list of actions, in order, and the exit code.
\<close>

definition main :: "(string \<Rightarrow> syntax_tree_node option option outcome) \<Rightarrow> (string \<Rightarrow> f32 result) \<Rightarrow> (string \<Rightarrow> int) \<Rightarrow> (addr \<Rightarrow> nat) \<Rightarrow>
    string \<Rightarrow> string list \<Rightarrow> (action list \<times> int) outcome" where
  "main parse stof system key exe args =
     (case parse_args args no_options of
        None \<Rightarrow> Some (Inr ([Help], 0))
      | Some o1 \<Rightarrow>
          if input_path o1 = [] then Some (Inr ([Help], 0))
          else case (if target_path o1 = [] then default_target (input_path o1) else Some (target_path o1)) of
            None \<Rightarrow> Some (Inr ([UnknownFiletype], -1))
          | Some target \<Rightarrow>
              obind (parse (input_path o1)) (\<lambda>s.
              obind (Some (AST stof s)) (\<lambda>p.
              obind (compile_text key o1 p) (\<lambda>(acts, t).
                let written = acts @ [WriteFile (target @ ''.ll'') (ll_text (input_path o1) t)];
                    link = clang_command exe target; rm = ''rm '' @ target @ ''.ll'' in
                if opt_emit o1 then Some (Inr (written, 0))
                else Some (Inr (written @ [System link, System rm],
                  if system link = 0 \<and> system rm = 0 then 0 else 1))))))"

section \<open>Names of files\<close>

lemma rfind_Some: "rfind c xs = Some i \<longleftrightarrow> i < length xs \<and> xs ! i = c \<and> c \<notin> set (drop (Suc i) xs)"
proof (induction xs arbitrary: i)
  case (Cons x xs)
  have none: "rfind c xs = None \<longleftrightarrow> c \<notin> set xs" for xs
    by (induction xs) (auto split: option.splits)
  show ?case
  proof (cases i)
    case 0
    then show ?thesis using none [of xs] by (auto split: option.splits)
  next
    case (Suc j)
    then show ?thesis using Cons.IH [of j] by (auto split: option.splits)
  qed
qed simp

lemma rfind_append:
  assumes "c \<notin> set ys"
  shows "rfind c (xs @ c # ys) = Some (length xs)"
  using assms by (simp add: rfind_Some nth_append)

lemma default_target_iff: "default_target path = Some t \<longleftrightarrow> path = t @ ''.cminus''"
proof
  assume "default_target path = Some t"
  then obtain pos where "drop pos path = ''.cminus''" "t = take pos path"
    by (auto simp: default_target_def split: option.splits if_splits)
  then show "path = t @ ''.cminus''" by (metis append_take_drop_id)
next
  assume p: "path = t @ ''.cminus''"
  have "rfind CHR ''.'' path = Some (length t)" using rfind_append [of "CHR ''.''" "''cminus''" t] p by simp
  then show "default_target path = Some t" using p by (simp add: default_target_def)
qed

end
