(* ===== verification/Driver_Properties.thy ===== *)
theory Driver_Properties
  imports Driver "HOL-Library.Multiset"
begin

text \<open>The properties of the command line and of the effects of \<^verbatim>\<open>main\<close>.\<close>

section \<open>The order of the arguments\<close>

text \<open>An argument of the command line, as the words it takes there.\<close>

datatype arg = OutputFile string | Word string

fun words :: "arg \<Rightarrow> string list" where
  "words (OutputFile t) = [''-o'', t]"
| "words (Word w) = [w]"

fun arg_ok :: "arg \<Rightarrow> bool" where
  "arg_ok (OutputFile t) = (t \<noteq> [])"
| "arg_ok (Word w) = (w \<noteq> [] \<and> w \<noteq> ''-o'')"

fun apply_arg :: "arg \<Rightarrow> options \<Rightarrow> options option" where
  "apply_arg (OutputFile t) o1 = (if target_path o1 = [] then Some (o1\<lparr>target_path := t\<rparr>) else None)"
| "apply_arg (Word w) o1 =
     (if w = ''-h'' \<or> w = ''--help'' then None
      else if w = ''-emit-llvm'' then Some (o1\<lparr>opt_emit := True\<rparr>)
      else if w = ''-mem2reg'' then Some (o1\<lparr>opt_mem2reg := True\<rparr>)
      else if w = ''-gvn'' then Some (o1\<lparr>opt_gvn := True\<rparr>)
      else if w = ''-dump-json'' then Some (o1\<lparr>dump_json := True\<rparr>)
      else if input_path o1 = [] then Some (o1\<lparr>input_path := w\<rparr>) else None)"

definition step_arg :: "arg \<Rightarrow> options option \<Rightarrow> options option" where
  "step_arg a x = Option.bind x (apply_arg a)"

lemma step_arg_simps [simp]:
  "step_arg a None = None" "step_arg a (Some o1) = apply_arg a o1"
  "step_arg a (apply_arg b o1) = Option.bind (apply_arg b o1) (apply_arg a)"
  by (simp_all add: step_arg_def)

lemma parse_args_step:
  assumes "arg_ok a"
  shows "parse_args (words a @ rest) o1 = Option.bind (apply_arg a o1) (parse_args rest)"
  using assms by (cases a) simp_all

lemma fold_step_None [simp]: "fold step_arg as None = None"
  by (induction as) simp_all

lemma parse_args_fold:
  assumes "\<forall>a \<in> set as. arg_ok a"
  shows "parse_args (concat (map words as)) o1 = fold step_arg as (Some o1)"
  using assms
proof (induction as arbitrary: o1)
  case (Cons a as)
  then show ?case
    using parse_args_step [of a "concat (map words as)" o1] by (cases "apply_arg a o1") simp_all
qed simp

lemma apply_arg_commute:
  assumes "arg_ok a" "arg_ok b"
  shows "Option.bind (apply_arg a o1) (apply_arg b) = Option.bind (apply_arg b o1) (apply_arg a)"
  using assms by (cases a; cases b) auto

lemma step_arg_commute:
  assumes "arg_ok a" "arg_ok b"
  shows "step_arg a (step_arg b x) = step_arg b (step_arg a x)"
  using apply_arg_commute [OF assms] by (cases x) simp_all

text \<open>
  The order of the arguments does not matter: the words of the same arguments in two orders
  give the same options, or the help text for both. An empty file name breaks this, as the
  program takes it for one that is not given.
\<close>

theorem argument_order:
  assumes "mset as = mset bs" "\<forall>a \<in> set as. arg_ok a"
  shows "parse_args (concat (map words as)) o1 = parse_args (concat (map words bs)) o1"
proof -
  have b: "\<forall>a \<in> set bs. arg_ok a" using assms(2) mset_eq_setD [OF assms(1)] by simp
  have "fold step_arg as = fold step_arg bs"
  proof (rule fold_multiset_equiv [OF _ assms(1)])
    show "step_arg x \<circ> step_arg y = step_arg y \<circ> step_arg x" if "x \<in> set as" "y \<in> set as" for x y
      using that assms(2) step_arg_commute by (auto simp: fun_eq_iff)
  qed
  then show ?thesis using parse_args_fold [OF assms(2)] parse_args_fold [OF b] by simp
qed

theorem argument_order_witness:
  "parse_args [''-o'', ''a'', ''b.cminus'', ''-gvn''] no_options = parse_args [''-gvn'', ''b.cminus'', ''-o'', ''a''] no_options \<and>
   parse_args [''-o'', '''', ''-o'', ''a''] no_options \<noteq> parse_args [''-o'', ''a'', ''-o'', ''''] no_options"
  using argument_order [where as = "[OutputFile ''a'', Word ''b.cminus'', Word ''-gvn'']"
    and bs = "[Word ''-gvn'', Word ''b.cminus'', OutputFile ''a'']" and ?o1.0 = no_options]
  by (simp add: no_options_def)

end
