(* ===== verification/Compiled_Properties.thy ===== *)
theory Compiled_Properties
  imports Compiled_Passes Mem2Reg_Properties Driver_Properties Ast_Roundtrip
begin

text \<open>
  The properties of compiled modules as a whole and of \<^verbatim>\<open>main\<close> on the tree of a program, with
  \<^verbatim>\<open>int f(void) { int a; return a; }\<close> as the example.
\<close>

section \<open>The example\<close>

lemma uninitialised_ok: "program_ok (\<lambda>_. False) uninitialised"
  by (simp add: uninitialised_def program_ok_def short_def SYNTAX_TREE_NODE_NAME_MAX_def Let_def)

section \<open>Types\<close>

text \<open>
  C4. Every instruction of a compiled module is well typed: it has as many operands as its
  operation takes, loads, stores and element addresses go through a pointer and have the type
  that the pointer gives, a call has a function of the module, one argument for each parameter and
  the type of the function's result, and arithmetic and comparisons have the type of their
  operation. No phi function is there.
\<close>

theorem compile_well_typed:
  assumes "compile p = Inr m" "b \<in> set (block_list m f)" "i \<in> set (instr_list m b)"
  shows "\<exists>x op. heap m i = Some x \<and> kind x = InstructionV op \<and> parent x = Some b \<and>
    arity_ok op (length (operands x)) \<and> typed_ops m (vtype x) op (operands x)"
proof -
  have "code_ok m" using compile_top [OF assms(1)] by (auto simp: well_built_def)
  from code_okD(3) [OF this assms(3)] obtain x where x: "heap m i = Some x" "is_instruction (kind x)" "parent x = Some b"
    "arity_ok (op_id (kind x)) (length (operands x))" "typed_ops m (vtype x) (op_id (kind x)) (operands x)"
    by (auto simp: instr_ok_def)
  then obtain op where "kind x = InstructionV op" by (cases "kind x") (auto simp: is_instruction_def)
  then show ?thesis using x by auto
qed

theorem compile_well_typed_witness:
  "\<exists>m x v y. compile uninitialised = Inr m \<and> heap m 9 = Some x \<and> operands x = [Some v] \<and> heap m v = Some y \<and>
     vtype y = PointerTy (vtype x)"
proof -
  obtain m x where e: "compile uninitialised = Inr m" "block_list m = (\<lambda>_. [])(6 := [7])" "instr_list m 7 = [8, 9, 10]"
    "heap m 9 = Some x" "kind x = InstructionV Load"
    using uninitialised_compiles by blast
  then have m: "compile uninitialised = Inr m" "7 \<in> set (block_list m 6)" "9 \<in> set (instr_list m 7)"
    "heap m 9 = Some x" "kind x = InstructionV Load" by simp_all
  then have "typed_ops m (vtype x) Load (operands x)"
    using compile_well_typed [OF m(1-3)] by auto
  then show ?thesis using m(1,4) typed_opsD(1) by blast
qed

section \<open>Printing\<close>

text \<open>
  C10. Printing a compiled module returns its text, and it changes only the names of values and
  the counters behind them; no dereference, assertion or loop of the printer fails there. The same
  holds when \<^verbatim>\<open>set_print_name\<close> has named the values before.
\<close>

theorem compile_prints:
  assumes "compile p = Inr m"
  shows "\<exists>t m1 m2 u m3. print_module m = Some (Inr (t, m1)) \<and> renamed m m1 \<and>
    set_print_name m = Inr m2 \<and> print_module m2 = Some (Inr (u, m3)) \<and> renamed m m3"
proof -
  have p: "printable m" using well_built_printable compile_top [OF assms] by blast
  obtain m2 where m2: "set_print_name m = Inr m2" "renamed m m2" using set_print_name_total [OF p] by blast
  show ?thesis using print_module_total [OF p renamed_refl] print_module_total [OF p m2(2)] m2(1) by blast
qed

theorem compile_prints_witness:
  "\<exists>m t m1. compile uninitialised = Inr m \<and> print_module m = Some (Inr (t, m1)) \<and> renamed m m1"
  using uninitialised_compiles compile_prints by blast

section \<open>The dominator pass\<close>

text \<open>
  C5. On the whole of a compiled module the dominator pass returns exactly when no function has a
  reachable block with two or more predecessors of which one is unreachable. When it returns, it
  leaves for every function with a body the immediate dominators, the dominance frontiers and the
  dominator tree of its reachable blocks, taken over all paths from its first block.
\<close>

theorem compile_dominators:
  assumes "compile p = Inr m"
  shows "(run_dominators (map (cfg_of m) (function_list m)) = None \<and>
      (\<exists>f. block_list m f \<noteq> [] \<and> \<not> frontier_safe (cfg_of m f) (hd (block_list m f)))) \<or>
    (\<exists>d. run_dominators (map (cfg_of m) (function_list m)) = Some (Inr d) \<and>
      (\<forall>f. block_list m f \<noteq> [] \<longrightarrow> frontier_safe (cfg_of m f) (hd (block_list m f)) \<and>
         dominators_of (cfg_of m f) (hd (block_list m f)) d))"
proof (cases "run_dominators (map (cfg_of m) (function_list m))")
  case None
  then show ?thesis using compiled_dominators(1) [OF assms] by blast
next
  case (Some r)
  then show ?thesis using compiled_dominators(1) [OF assms] compiled_dominators(2) [OF assms Some] by blast
qed

theorem compile_dominators_witness:
  "\<exists>m. compile endless = Inr m \<and> run_dominators (map (cfg_of m) (function_list m)) = None"
proof -
  obtain m where m: "compile endless = Inr m"
    and l: "block_list m = (\<lambda>_. [])(6 := [7, 8, 11, 12, 16, 17, 18])"
      "pre_list m = (\<lambda>_. [])(7 := [], 11 := [8], 12 := [8], 18 := [], 16 := [11], 17 := [11], 8 := [7, 18])"
      "succ_list m = (\<lambda>_. [])(7 := [8], 12 := [], 8 := [12, 11], 16 := [], 17 := [], 11 := [17, 16], 18 := [8])"
    using endless_compiles by blast
  have "block_list m 6 \<noteq> []" "hd (block_list m 6) = 7" by (simp_all add: l(1))
  then show ?thesis using compile_dominators [OF m] endless_unsafe [OF l] m by metis
qed

section \<open>Phi functions\<close>

text \<open>
  C8. On a function of a compiled module and the dominators that the pass computed, \<^verbatim>\<open>generate_phi\<close>
  returns. It adds one phi function for the variable \<open>v\<close> to the front of each reachable block in
  the iterated dominance frontier, taken over all paths, of the reachable blocks that store to
  \<open>v\<close>, and none to the other reachable blocks. Nothing else of the module changes. Stored
  variables are the addresses that are no globals and no element pointers.
\<close>

theorem phi_placement:
  assumes "compile p = Inr m" "run_dominators (map (cfg_of m) (function_list m)) = Some (Inr d)" "block_list m f \<noteq> []"
  shows "\<exists>p' H. generate_phi key d f \<lparr>m2_ir = m, l_val = lv, var_val_stack = st\<rparr> = Some (Inr p') \<and>
    phis_placed H \<lparr>m2_ir = m, l_val = lv, var_val_stack = st\<rparr> p' \<and>
    (\<forall>b v. (edge (cfg_of m f))\<^sup>*\<^sup>* (hd (block_list m f)) b \<longrightarrow> ((b, v) \<in> H \<longleftrightarrow>
       (\<exists>c. (edge (cfg_of m f))\<^sup>*\<^sup>* (hd (block_list m f)) c \<and> stores_to m c v \<and>
          (\<lambda>x y. y \<in> frontier (edge (cfg_of m f)) (hd (block_list m f)) x)\<^sup>+\<^sup>+ c b)))"
proof -
  have wb: "well_built m" using compile_top [OF assms(1)] by blast
  have fresh: "\<forall>a. heap m a \<noteq> None \<longrightarrow> a < next_addr m" using uses_okD(1) [OF well_builtD(1) [OF wb]] by auto
  have "dominators_of (cfg_of m f) (hd (block_list m f)) d"
    using compiled_dominators(2) [OF assms(1,2)] assms(3) by auto
  then show ?thesis
    using generate_phi_placement [of "\<lparr>m2_ir = m, l_val = lv, var_val_stack = st\<rparr>" f "hd (block_list m f)" d key]
      compile_pass_entry [OF assms(1,3)] well_built_stores_ok [OF wb] fresh by simp
qed

theorem phi_placement_witness:
  "\<exists>m d p' H. compile branches = Inr m \<and> run_dominators (map (cfg_of m) (function_list m)) = Some (Inr d) \<and>
     generate_phi id d 6 \<lparr>m2_ir = m, l_val = Map.empty, var_val_stack = Map.empty\<rparr> = Some (Inr p') \<and>
     phis_placed H \<lparr>m2_ir = m, l_val = Map.empty, var_val_stack = Map.empty\<rparr> p' \<and> (13, 8) \<in> H"
proof -
  obtain m where m: "compile branches = Inr m" "branches_module m" using branches_compiles by blast
  obtain d where d: "run_dominators (map (cfg_of m) (function_list m)) = Some (Inr d)"
    "dom_frontier d = (\<lambda>_. {})(Some 11 := {13}, Some 12 := {13})" using branches_dominators [OF m(2)] by blast
  let ?p = "\<lparr>m2_ir = m, l_val = Map.empty, var_val_stack = Map.empty\<rparr>"
  note ready = branches_ready [OF m d(1)]
  note b = m(2) [unfolded branches_module_def]
  have hd: "block_list m 6 \<noteq> []" "hd (block_list m 6) = 7" using b by simp_all
  obtain p' H where H: "generate_phi id d 6 ?p = Some (Inr p')" "phis_placed H ?p p'"
    "\<And>b v. (edge (cfg_of m 6))\<^sup>*\<^sup>* 7 b \<Longrightarrow> (b, v) \<in> H \<longleftrightarrow>
       (\<exists>c. (edge (cfg_of m 6))\<^sup>*\<^sup>* 7 c \<and> stores_to m c v \<and> (\<lambda>x y. y \<in> frontier (edge (cfg_of m 6)) 7 x)\<^sup>+\<^sup>+ c b)"
    using phi_placement [OF m(1) d(1) hd(1), where key = id and lv = Map.empty and st = Map.empty] unfolding hd(2) by blast
  have "get_dominance_frontier d (Some 11) = frontier (edge (cfg_of m 6)) 7 11"
    using ready(1,4) unfolding dominators_of_def by blast
  moreover have "get_dominance_frontier d (Some 11) = {13}" using d(2) by (simp add: get_dominance_frontier_def)
  ultimately have "13 \<in> frontier (edge (cfg_of m 6)) 7 11" by blast
  moreover have "stores_to m 11 8"
    using b by (auto simp: stores_to_def stored_var_def operand_at_def is_promoted_def get_val_def)
  ultimately have "(13, 8) \<in> H" using H(3) [OF ready(5)] ready(4) by blast
  then show ?thesis using m(1) d(1) H(1,2) by blast
qed

section \<open>The compiler as a whole\<close>

text \<open>\<^verbatim>\<open>main\<close> with \<^verbatim>\<open>-emit-llvm\<close> and no pass, from the tree that the parser returns.\<close>

lemma main_of_tree:
  assumes "parse path = Some (Inr root)" "AST stof root = Inr p" "parse_args args no_options = Some o1"
    and "input_path o1 = path" "path \<noteq> []" "opt_emit o1" "\<not> opt_mem2reg o1" "\<not> opt_gvn o1"
    and "target_path o1 = target \<and> target \<noteq> [] \<or> target_path o1 = [] \<and> path = target @ ''.cminus''"
  shows "compile p = Inl e \<Longrightarrow> main parse stof system key exe args = Some (Inl e)"
    "compile p = Inr m \<Longrightarrow> \<exists>t m'. print_module m = Some (Inr (t, m')) \<and>
      main parse stof system key exe args = Some (Inr ([WriteFile (target @ ''.ll'') (ll_text path t)], 0))"
proof -
  have target: "(if target_path o1 = [] then default_target (input_path o1) else Some (target_path o1)) = Some target"
    using assms(4,9) default_target_iff by auto
  have passes: "run_passes (passes_of key o1) m = Some (Inr ([], m))" for m
    using assms(7,8) by (simp add: passes_of_def run_passes_def)
  show "main parse stof system key exe args = Some (Inl e)" if "compile p = Inl e"
    using that target assms(1-6) by (simp add: main_def compile_text_def Let_def)
  show "\<exists>t m'. print_module m = Some (Inr (t, m')) \<and>
      main parse stof system key exe args = Some (Inr ([WriteFile (target @ ''.ll'') (ll_text path t)], 0))" if m: "compile p = Inr m"
  proof -
    obtain t m' where t: "print_module m = Some (Inr (t, m'))"
      using print_module_total [OF well_built_printable renamed_refl] compile_top [OF m] by blast
    then have "compile_text key o1 p = Some (Inr ([], t))" using m passes by (simp add: compile_text_def)
    then show ?thesis using t target assms(1-6) by (simp add: main_def Let_def)
  qed
qed

text \<open>
  C2. From the syntax tree of a program to the file: when the words of the program fit the
  buffers and the builder accepts it, then \<^verbatim>\<open>main\<close> with \<^verbatim>\<open>-emit-llvm\<close> and without a pass writes
  exactly one file, whose text is the module the builder makes of that very program, runs no
  command, and returns 0. The file is named by \<^verbatim>\<open>-o\<close>, or after an input that ends in \<^verbatim>\<open>.cminus\<close>.
\<close>

theorem main_emits:
  assumes "reads_back stof fl P" "program_ok P p" "parse path = Some (Inr (Some (Some (program_tree fl p))))"
    and "compile p = Inr m" and "parse_args args no_options = Some o1"
    and "input_path o1 = path" "path \<noteq> []" "opt_emit o1" "\<not> opt_mem2reg o1" "\<not> opt_gvn o1"
    and "target_path o1 = target \<and> target \<noteq> [] \<or> target_path o1 = [] \<and> path = target @ ''.cminus''"
  shows "\<exists>t m'. print_module m = Some (Inr (t, m')) \<and>
    main parse stof system key exe args = Some (Inr ([WriteFile (target @ ''.ll'') (ll_text path t)], 0))"
proof -
  have "AST stof (Some (Some (program_tree fl p))) = Inr p"
    using transform_program [OF assms(1,2)] by (simp add: AST_def as_program_def)
  from main_of_tree(2) [where parse = parse and path = path, OF assms(3) this assms(5-11) assms(4)] show ?thesis .
qed

theorem main_emits_witness:
  "\<exists>m t m'. compile uninitialised = Inr m \<and> print_module m = Some (Inr (t, m')) \<and>
     main (\<lambda>_. Some (Inr (Some (Some (program_tree (\<lambda>_. []) uninitialised))))) (\<lambda>_. Inl InvalidArgument) (\<lambda>_. 1) id ''./cminusfc''
       [''-emit-llvm'', ''a.cminus''] = Some (Inr ([WriteFile ''a.ll'' (ll_text ''a.cminus'' t)], 0))"
proof -
  obtain m where m: "compile uninitialised = Inr m" using uninitialised_compiles by blast
  have r: "reads_back (\<lambda>_. Inl InvalidArgument :: f32 result) (\<lambda>_. []) (\<lambda>_. False)" by (simp add: reads_back_def)
  show ?thesis
    using main_emits [OF r uninitialised_ok _ m, where parse = "\<lambda>_. Some (Inr (Some (Some (program_tree (\<lambda>_. []) uninitialised))))"
        and path = "''a.cminus''" and args = "[''-emit-llvm'', ''a.cminus'']" and target = "''a''" and system = "\<lambda>_. 1"
        and key = id and exe = "''./cminusfc''"] m
    by (simp add: no_options_def)
qed

end
