(* ===== verification/Source_Properties.thy ===== *)
theory Source_Properties
  imports Grammar_Properties Compiled_Properties
begin

text \<open>
  From the source text to the output: the scanner, the grammar, the transformation, the builder, the
  printer and the driver together.
\<close>

section \<open>Properties\<close>

text \<open>\<^verbatim>\<open>main\<close> ends with the error of the transformation.\<close>

lemma main_of_unreadable:
  assumes "parse path = Some (Inr root)" "AST stof root = Inl e" "parse_args args no_options = Some o1"
    and "input_path o1 = path" "path \<noteq> []"
    and "target_path o1 = target \<and> target \<noteq> [] \<or> target_path o1 = [] \<and> path = target @ ''.cminus''"
  shows "main parse stof system key exe args = Some (Inl e)"
proof -
  have "(if target_path o1 = [] then default_target (input_path o1) else Some (target_path o1)) = Some target"
    using assms(4,6) default_target_iff by auto
  then show ?thesis using assms(1-5) by (simp add: main_def Let_def)
qed

text \<open>
  C1. On every text that the grammar accepts, \<^verbatim>\<open>main\<close> with \<^verbatim>\<open>-emit-llvm\<close> and without a pass ends, in one
  of three ways. When an identifier or a number has 30 characters or more, an integer is 2^31 or more or
  \<^verbatim>\<open>std::stof\<close> does not read a floating-point number, then \<^verbatim>\<open>main\<close> ends with the error of the
  transformation, and this happens for no other text. When the builder rejects the program, \<^verbatim>\<open>main\<close> ends
  with the error of the builder. Otherwise every name in the code that the builder visits (all but the
  statements behind a \<^verbatim>\<open>return\<close> in the same list) is declared before its use, and \<^verbatim>\<open>main\<close> writes exactly
  the text of the module that the builder made and returns 0: the printer never fails.
\<close>

theorem main_of_text:
  assumes "parses (tokens s) n" "parse path = Some (Inr (Some (Some n)))" "parse_args args no_options = Some o1"
    and "input_path o1 = path" "path \<noteq> []" "opt_emit o1" "\<not> opt_mem2reg o1" "\<not> opt_gvn o1"
    and "target_path o1 = target \<and> target \<noteq> [] \<or> target_path o1 = [] \<and> path = target @ ''.cminus''"
  shows "case AST stof (Some (Some n)) of
     Inl e \<Rightarrow> \<not> readable_text stof s \<and> main parse stof system key exe args = Some (Inl e)
   | Inr p \<Rightarrow> readable_text stof s \<and> (case compile p of
       Inl e \<Rightarrow> main parse stof system key exe args = Some (Inl e)
     | Inr m \<Rightarrow> scoped_declarations library_names (declarations p) \<and> (\<exists>t m'. print_module m = Some (Inr (t, m')) \<and>
         main parse stof system key exe args = Some (Inr ([WriteFile (target @ ''.ll'') (ll_text path t)], 0))))"
proof (cases "AST stof (Some (Some n))")
  case (Inl e)
  then show ?thesis
    using accepted_iff [OF assms(1), of stof]
      main_of_unreadable [where parse = parse and path = path, OF assms(2) Inl assms(3-5,9)] by simp
next
  case (Inr p)
  then have r: "readable_text stof s" using accepted_iff [OF assms(1), of stof] by simp
  note main = main_of_tree [where parse = parse and path = path, OF assms(2) Inr assms(3-9)]
  show ?thesis
  proof (cases "compile p")
    case (Inl e)
    then show ?thesis using Inr r main(1) by simp
  next
    case m: (Inr m)
    then show ?thesis using Inr r main(2) [OF m] compile_scoped [OF m] by simp
  qed
qed

definition example_source :: "f32 ASTProgram" where
  "example_source = ASTProgram [VarDeclaration (ASTVarDeclaration TYPE_INT ''x'' None)]"

lemma example_source_tree: "built example_tree = program_tree (\<lambda>_ :: f32. []) example_source"
  by (simp add: declares_tree_def example_source_def program_tree_def type_specifier_def list2_def token_leaf
      short_def SYNTAX_TREE_NODE_NAME_MAX_def type_lexeme_def)

lemma example_source_AST: "AST (\<lambda>_. Inl InvalidArgument) (Some (Some (built example_tree))) = Inr example_source"
proof -
  have r: "reads_back (\<lambda>_. Inl InvalidArgument :: f32 result) (\<lambda>_. []) (\<lambda>_. False)" by (simp add: reads_back_def)
  have ok: "program_ok (\<lambda>_. False) example_source"
    by (simp add: program_ok_def example_source_def short_def SYNTAX_TREE_NODE_NAME_MAX_def)
  show ?thesis unfolding example_source_tree using transform_program [OF r ok] by (simp add: AST_def as_program_def)
qed

lemma example_source_compiles: "\<exists>m. compile example_source = Inr m"
  by (simp add: module_eval code_eval local_eval example_source_def zero_initializer_def create_global_variable_def ConstantZero_get_def del: One_nat_def)

theorem main_of_text_witness:
  "\<exists>n m t m'. parses (tokens ''int x ; '') n \<and> compile example_source = Inr m \<and> print_module m = Some (Inr (t, m')) \<and>
    main (\<lambda>_. Some (Inr (Some (Some n)))) (\<lambda>_. Inl InvalidArgument) (\<lambda>_. 1) id ''./cminusfc'' [''-emit-llvm'', ''a.cminus''] =
      Some (Inr ([WriteFile ''a.ll'' (ll_text ''a.cminus'' t)], 0))"
proof -
  let ?n = "built example_tree"
  obtain m where m: "compile example_source = Inr m" using example_source_compiles by blast
  show ?thesis
    using main_of_text [OF example_parses, where parse = "\<lambda>_. Some (Inr (Some (Some ?n)))" and path = "''a.cminus''"
        and args = "[''-emit-llvm'', ''a.cminus'']" and target = "''a''" and stof = "\<lambda>_. Inl InvalidArgument" and system = "\<lambda>_. 1"
        and key = id and exe = "''./cminusfc''"] example_parses m example_source_AST
    by (auto simp: no_options_def simp del: built.simps)
qed

end
