(* ===== verification/Float_Ops.thy ===== *)
theory Float_Ops
  imports Complex_Main Ir_Text Ir_Constants
begin

text \<open>
  The operators of C++ on \<^verbatim>\<open>float\<close>, as binary32 numbers of IEC 60559 with rounding to nearest, ties
  to even. A finite number is an integer multiple of 2^-149.
\<close>

section \<open>Numbers\<close>

definition f32_exponent :: "f32 \<Rightarrow> nat" where
  "f32_exponent x = unat x div 2 ^ 23 mod 2 ^ 8"

definition f32_finite :: "f32 \<Rightarrow> bool" where
  "f32_finite x \<longleftrightarrow> f32_exponent x \<noteq> 255"

definition f32_nan :: "f32 \<Rightarrow> bool" where
  "f32_nan x \<longleftrightarrow> f32_exponent x = 255 \<and> unat x mod 2 ^ 23 \<noteq> 0"

definition f32_neg :: "f32 \<Rightarrow> bool" where
  "f32_neg x \<longleftrightarrow> unat x div 2 ^ 31 = 1"

text \<open>The bits without the sign: magnitudes are ordered as these numbers.\<close>

definition f32_abs :: "f32 \<Rightarrow> nat" where
  "f32_abs x = unat x mod 2 ^ 31"

definition f32_make :: "bool \<Rightarrow> nat \<Rightarrow> f32" where
  "f32_make s n = of_nat ((if s then 2 ^ 31 else 0) + n)"

definition f32_inf_bits :: nat where
  "f32_inf_bits = 255 * 2 ^ 23"

definition f32_units :: "f32 \<Rightarrow> int" where
  "f32_units x = (if f32_neg x then - int (float_magnitude x) else int (float_magnitude x))"

section \<open>Rounding\<close>

definition round_even :: "nat \<Rightarrow> nat \<Rightarrow> nat" where
  "round_even a b = (let q = a div b; r = a mod b in
     if 2 * r < b \<or> 2 * r = b \<and> even q then q else q + 1)"

text \<open>How many bits a number has in excess of 24.\<close>

fun excess :: "nat \<Rightarrow> nat" where
  "excess n = (if n < 2 ^ 24 then 0 else Suc (excess (n div 2)))"

declare excess.simps [simp del]

text \<open>The bits of the number nearest to \<open>a / b\<close> units.\<close>

definition round_bits :: "nat \<Rightarrow> nat \<Rightarrow> nat" where
  "round_bits a b = (let e = excess (a div b) in min (e * 2 ^ 23 + round_even a (b * 2 ^ e)) f32_inf_bits)"

section \<open>Operators\<close>

text \<open>\<open>nan\<close> is the NaN that the processor returns, which the language leaves open.\<close>

definition f32_add :: "f32 \<Rightarrow> f32 \<Rightarrow> f32 \<Rightarrow> f32" where
  "f32_add nan x y =
     (if f32_nan x \<or> f32_nan y then nan
      else if \<not> f32_finite x then (if \<not> f32_finite y \<and> f32_neg x \<noteq> f32_neg y then nan else x)
      else if \<not> f32_finite y then y
      else let s = f32_units x + f32_units y in
        if s = 0 then f32_make (f32_neg x \<and> f32_neg y) 0
        else f32_make (s < 0) (round_bits (nat \<bar>s\<bar>) 1))"

definition f32_minus :: "f32 \<Rightarrow> f32" where
  "f32_minus x = f32_make (\<not> f32_neg x) (f32_abs x)"

definition f32_sub :: "f32 \<Rightarrow> f32 \<Rightarrow> f32 \<Rightarrow> f32" where
  "f32_sub nan x y = f32_add nan x (f32_minus y)"

definition f32_mul :: "f32 \<Rightarrow> f32 \<Rightarrow> f32 \<Rightarrow> f32" where
  "f32_mul nan x y = (let s = (f32_neg x \<noteq> f32_neg y) in
     if f32_nan x \<or> f32_nan y then nan
     else if \<not> f32_finite x \<or> \<not> f32_finite y then
       (if f32_abs x = 0 \<or> f32_abs y = 0 then nan else f32_make s f32_inf_bits)
     else f32_make s (round_bits (float_magnitude x * float_magnitude y) (2 ^ 149)))"

definition f32_div :: "f32 \<Rightarrow> f32 \<Rightarrow> f32 \<Rightarrow> f32" where
  "f32_div nan x y = (let s = (f32_neg x \<noteq> f32_neg y) in
     if f32_nan x \<or> f32_nan y then nan
     else if \<not> f32_finite x then (if \<not> f32_finite y then nan else f32_make s f32_inf_bits)
     else if \<not> f32_finite y then f32_make s 0
     else if f32_abs y = 0 then (if f32_abs x = 0 then nan else f32_make s f32_inf_bits)
     else f32_make s (round_bits (float_magnitude x * 2 ^ 149) (float_magnitude y)))"

definition f32_order :: "f32 \<Rightarrow> int" where
  "f32_order x = (if f32_neg x then - int (f32_abs x) else int (f32_abs x))"

definition f32_less :: "f32 \<Rightarrow> f32 \<Rightarrow> bool" where
  "f32_less x y \<longleftrightarrow> \<not> f32_nan x \<and> \<not> f32_nan y \<and> f32_order x < f32_order y"

definition f32_of_int :: "int \<Rightarrow> f32" where
  "f32_of_int i = f32_make (i < 0) (round_bits (nat \<bar>i\<bar> * 2 ^ 149) 1)"

text \<open>The conversion to \<^verbatim>\<open>int\<close> cuts the fraction; it is undefined when the result does not fit.\<close>

definition int_of_f32 :: "f32 \<Rightarrow> i32 result" where
  "int_of_f32 x = (let n = int (float_magnitude x div 2 ^ 149); i = (if f32_neg x then - n else n) in
     if f32_finite x \<and> - (2 ^ 31) \<le> i \<and> i < 2 ^ 31 then Inr (word_of_int i) else Inl UndefinedBehaviour)"

section \<open>The rounding is to the nearest number\<close>

text \<open>The magnitude of the bits of a finite number without a sign.\<close>

definition bits_magnitude :: "nat \<Rightarrow> nat" where
  "bits_magnitude n = (let e = n div 2 ^ 23; fr = n mod 2 ^ 23 in if e = 0 then fr else (2 ^ 23 + fr) * 2 ^ (e - 1))"

lemma float_magnitude_bits: "float_magnitude x = bits_magnitude (f32_abs x)"
proof -
  have "unat x mod 2 ^ 31 div 2 ^ 23 = unat x div 2 ^ 23 mod 2 ^ 8"
    using mod_mult2_eq [of "unat x" "2 ^ 23" "2 ^ 8"] by simp
  moreover have "unat x mod 2 ^ 31 mod 2 ^ 23 = unat x mod 2 ^ 23"
    using mod_mult2_eq [of "unat x" "2 ^ 23" "2 ^ 8"] by simp
  ultimately show ?thesis unfolding float_magnitude_def bits_magnitude_def f32_abs_def Let_def by simp
qed

lemma f32_make_fields:
  assumes "n < 2 ^ 31"
  shows "f32_abs (f32_make s n) = n" "f32_neg (f32_make s n) = s"
proof -
  have "unat (f32_make s n) = (if s then 2 ^ 31 else 0) + n"
    unfolding f32_make_def unat_of_nat using assms by simp
  then show "f32_abs (f32_make s n) = n" "f32_neg (f32_make s n) = s"
    using assms by (auto simp: f32_abs_def f32_neg_def)
qed

lemma f32_exponent_abs: "f32_exponent x = f32_abs x div 2 ^ 23"
  using mod_mult2_eq [of "unat x" "2 ^ 23" "2 ^ 8"] by (simp add: f32_exponent_def f32_abs_def)

lemma f32_abs_bound: "f32_abs x < 2 ^ 31"
  by (simp add: f32_abs_def)

lemma f32_finite_abs: "f32_finite x \<longleftrightarrow> f32_abs x < f32_inf_bits"
proof -
  have "f32_abs x div 2 ^ 23 \<noteq> 255 \<longleftrightarrow> f32_abs x div 2 ^ 23 < 255"
  proof -
    have "f32_abs x div 2 ^ 23 < 256" using f32_abs_bound [of x] by (simp add: div_less_iff_less_mult)
    then show ?thesis by auto
  qed
  then show ?thesis unfolding f32_finite_def f32_exponent_abs f32_inf_bits_def by (simp add: div_less_iff_less_mult)
qed

text \<open>With exponent \<open>e + 1\<close> the bits and the magnitudes run in parallel.\<close>

lemma bits_magnitude_binade:
  assumes "2 ^ 23 \<le> n \<or> e = 0" "n \<le> 2 ^ 24"
  shows "bits_magnitude (e * 2 ^ 23 + n) = n * 2 ^ e"
proof -
  consider (low) "n < 2 ^ 23" "e = 0" | (mid) "2 ^ 23 \<le> n" "n < 2 ^ 24" | (top) "n = 2 ^ 24" using assms by linarith
  then show ?thesis
  proof cases
    case low
    then show ?thesis by (simp add: bits_magnitude_def)
  next
    case mid
    define k where "k = n - 2 ^ 23"
    then have n: "n = 2 ^ 23 + k" "k < 2 ^ 23" using mid by simp_all
    have "e * 2 ^ 23 + n = k + (e + 1) * 2 ^ 23" using n by simp
    then have "(e * 2 ^ 23 + n) div 2 ^ 23 = e + 1" "(e * 2 ^ 23 + n) mod 2 ^ 23 = k" using n(2) by simp_all
    then show ?thesis using n by (simp add: bits_magnitude_def)
  next
    case top
    have "e * 2 ^ 23 + n = (e + 2) * 2 ^ 23" using top by simp
    then show ?thesis using top by (simp add: bits_magnitude_def)
  qed
qed

lemma excess_spec:
  "n < 2 ^ (24 + excess n) \<and> (excess n = 0 \<or> 2 ^ (23 + excess n) \<le> n)"
proof (induction n rule: excess.induct)
  case (1 n)
  show ?case
  proof (cases "n < 2 ^ 24")
    case True
    then show ?thesis by (simp add: excess.simps [of n])
  next
    case False
    then have e: "excess n = Suc (excess (n div 2))" by (simp add: excess.simps [of n])
    note ih = 1 [OF False]
    have "n < 2 * 2 ^ (24 + excess (n div 2))" using ih by linarith
    then have "n < 2 ^ (24 + excess n)" unfolding e by (simp add: power_add)
    moreover have "2 ^ (23 + excess n) \<le> n"
    proof (cases "excess (n div 2) = 0")
      case True
      then show ?thesis using False e by simp
    next
      case False
      then have "2 * 2 ^ (23 + excess (n div 2)) \<le> n" using ih by linarith
      then show ?thesis unfolding e by (simp add: power_add)
    qed
    ultimately show ?thesis by blast
  qed
qed

lemma round_even_nearest:
  assumes "0 < b"
  shows "\<bar>real a - real (round_even a b) * b\<bar> \<le> \<bar>real a - real k * b\<bar>"
    "a div b \<le> round_even a b" "round_even a b \<le> Suc (a div b)"
proof -
  let ?q = "a div b" and ?r = "a mod b"
  have a: "real a = real ?q * b + real ?r" by (metis div_mult_mod_eq of_nat_add of_nat_mult)
  have r: "?r < b" using assms by simp
  show "?q \<le> round_even a b" "round_even a b \<le> Suc ?q" by (auto simp: round_even_def Let_def)
  have "k \<le> ?q \<or> Suc ?q \<le> k" by linarith
  then have k: "real k \<le> real ?q \<or> real ?q + 1 \<le> real k"
    using of_nat_mono [of k ?q, where 'a = real] of_nat_mono [of "Suc ?q" k, where 'a = real] by auto
  have low: "real ?r \<le> \<bar>real a - real k * b\<bar> \<or> real b - real ?r \<le> \<bar>real a - real k * b\<bar>"
    using k
  proof
    assume "real k \<le> real ?q"
    then have "real k * b \<le> real ?q * b" by (rule mult_right_mono) simp
    then show ?thesis using a by linarith
  next
    assume "real ?q + 1 \<le> real k"
    then have "(real ?q + 1) * b \<le> real k * b" by (rule mult_right_mono) simp
    then have "real ?q * b + b \<le> real k * b" by (simp add: distrib_right)
    then show ?thesis using a by linarith
  qed
  show "\<bar>real a - real (round_even a b) * b\<bar> \<le> \<bar>real a - real k * b\<bar>"
  proof (cases "2 * ?r < b \<or> 2 * ?r = b \<and> even ?q")
    case True
    then have n: "round_even a b = ?q" by (simp add: round_even_def Let_def)
    have "2 * real ?r \<le> real b" using True by linarith
    then show ?thesis using a low unfolding n by linarith
  next
    case False
    then have n: "round_even a b = ?q + 1" by (auto simp: round_even_def Let_def)
    have "real b \<le> 2 * real ?r" "real ?r \<le> real b" using False r by linarith+
    moreover have "real (?q + 1) * b = real ?q * b + b" by (simp add: distrib_right)
    ultimately show ?thesis using a low unfolding n by linarith
  qed
qed

text \<open>When two multiples are equally near, the even one is taken.\<close>

lemma round_even_tie:
  assumes "0 < b" "\<bar>real a - real (round_even a b) * b\<bar> = \<bar>real a - real k * b\<bar>" "k \<noteq> round_even a b"
  shows "even (round_even a b)"
proof -
  let ?q = "a div b" and ?r = "a mod b" and ?n = "round_even a b"
  have a: "real a = real ?q * b + real ?r" by (metis div_mult_mod_eq of_nat_add of_nat_mult)
  have r: "?r < b" using assms(1) by simp
  have far: "(real k - real ?n) * b = 2 * (real a - real ?n * b)"
  proof -
    have "real a - real ?n * b = real a - real k * b \<or> real a - real ?n * b = - (real a - real k * b)"
      using assms(2) by (auto simp: abs_eq_iff)
    moreover have "real ?n * b \<noteq> real k * b" using assms(1,3) by simp
    ultimately show ?thesis by (auto simp: algebra_simps)
  qed
  consider (down) "?n = ?q" "2 * ?r < b \<or> 2 * ?r = b \<and> even ?q" | (up) "?n = Suc ?q" "b \<le> 2 * ?r" "2 * ?r = b \<longrightarrow> odd ?q"
    by (cases "2 * ?r < b \<or> 2 * ?r = b \<and> even ?q") (auto simp: round_even_def Let_def)
  then show ?thesis
  proof cases
    case down
    have "(real k - real ?q) * b = 2 * real ?r" using far a down(1) by (simp add: algebra_simps)
    then have "real_of_int (int k - int ?q) * real b = real (2 * ?r)" by simp
    then have "(int k - int ?q) * int b = int (2 * ?r)" by (metis of_int_eq_iff of_int_mult of_int_of_nat_eq)
    moreover have "int k - int ?q \<noteq> 0" using assms(3) down(1) by simp
    ultimately have "b dvd 2 * ?r" "int (2 * ?r) \<noteq> 0"
      using assms(1) by (metis dvd_triv_right int_dvd_int_iff) (metis \<open>(int k - int ?q) * int b = int (2 * ?r)\<close> \<open>int k - int ?q \<noteq> 0\<close> assms(1) mult_eq_0_iff of_nat_0_eq_iff less_irrefl)
    then have "b \<le> 2 * ?r" by (simp add: dvd_imp_le)
    then show ?thesis using down by auto
  next
    case up
    have "(real k - real ?n) * b = 2 * (real ?r - real b)" using far a up(1) by (simp add: algebra_simps)
    then have "real_of_int ((int ?n - int k) * int b) = real_of_int (2 * (int b - int ?r))" by (simp add: algebra_simps)
    then have m: "(int ?n - int k) * int b = 2 * (int b - int ?r)" by (simp only: of_int_eq_iff)
    have "0 < (int ?n - int k) * int b" unfolding m using r by simp
    then have "1 \<le> int ?n - int k" by (simp add: zero_less_mult_iff)
    then have "int b \<le> (int ?n - int k) * int b" using mult_right_mono [of 1 "int ?n - int k" "int b"] by simp
    then have "int b \<le> 2 * (int b - int ?r)" unfolding m .
    moreover have "int y \<le> 2 * (int y - int x) \<Longrightarrow> 2 * x \<le> y" for x y :: nat by simp
    ultimately have "2 * ?r = b" using up(2) by (intro antisym)
    then show ?thesis using up by simp
  qed
qed

text \<open>The grid of magnitudes: those from \<open>2 ^ (23 + e)\<close> on are multiples of \<open>2 ^ e\<close>.\<close>

lemma magnitude_grid: "bits_magnitude m < 2 ^ (23 + e) \<or> (\<exists>k. bits_magnitude m = k * 2 ^ e)"
proof (cases "m div 2 ^ 23")
  case 0
  then have "bits_magnitude m < 2 ^ 23" by (simp add: bits_magnitude_def)
  moreover have "(2 :: nat) ^ 23 \<le> 2 ^ (23 + e)" by (rule power_increasing) simp_all
  ultimately show ?thesis by linarith
next
  case (Suc E)
  then have v: "bits_magnitude m = (2 ^ 23 + m mod 2 ^ 23) * 2 ^ E" by (simp add: bits_magnitude_def)
  show ?thesis
  proof (cases "e \<le> E")
    case True
    then have "(2 :: nat) ^ E = 2 ^ (E - e) * 2 ^ e" by (simp flip: power_add)
    then show ?thesis using v by (intro disjI2 exI [of _ "(2 ^ 23 + m mod 2 ^ 23) * 2 ^ (E - e)"]) simp
  next
    case False
    have "bits_magnitude m < 2 ^ 24 * 2 ^ E" unfolding v by (intro mult_strict_right_mono) simp_all
    also have "\<dots> = 2 ^ (24 + E)" by (simp add: power_add)
    also have "\<dots> \<le> 2 ^ (23 + e)" using False by (intro power_increasing) simp_all
    finally show ?thesis by simp
  qed
qed

text \<open>
  \<open>a / b\<close> rounds to \<open>n * 2 ^ e\<close>, which lies in the binade that starts at \<open>2 ^ (23 + e)\<close> or just above
  it. Every other magnitude is a multiple of \<open>2 ^ e\<close>, or is below the binade.
\<close>

lemma binade:
  fixes a b :: nat
  assumes "0 < b"
  defines "e \<equiv> excess (a div b)"
  defines "n \<equiv> round_even a (b * 2 ^ e)"
  shows "2 ^ 23 \<le> n \<or> e = 0" "n \<le> 2 ^ 24" "e \<noteq> 0 \<Longrightarrow> 2 ^ (23 + e) * b \<le> a"
proof -
  have B: "0 < b * 2 ^ e" using assms(1) by simp
  note q = round_even_nearest(2,3) [OF B, of a, folded n_def]
  have d: "a div (b * 2 ^ e) = a div b div 2 ^ e" by (simp add: div_mult2_eq)
  have "a div b < 2 ^ 24 * 2 ^ e" using excess_spec [of "a div b"] by (simp add: e_def power_add)
  then have "a div (b * 2 ^ e) < 2 ^ 24" unfolding d by (simp add: div_less_iff_less_mult)
  then show "n \<le> 2 ^ 24" using q by linarith
  have low: "2 ^ (23 + e) \<le> a div b" if "e \<noteq> 0" using excess_spec [of "a div b"] that by (auto simp: e_def)
  show "2 ^ 23 \<le> n \<or> e = 0"
  proof (cases "e = 0")
    case False
    then have "2 ^ 23 * 2 ^ e \<le> a div b" using low by (simp add: power_add)
    then have "2 ^ 23 \<le> a div (b * 2 ^ e)" unfolding d by (simp add: less_eq_div_iff_mult_less_eq)
    then show ?thesis using q by linarith
  qed simp
  show "2 ^ (23 + e) * b \<le> a" if "e \<noteq> 0"
    using low [OF that] assms(1) by (simp add: less_eq_div_iff_mult_less_eq)
qed

lemma round_bits_nearest:
  fixes a b :: nat
  assumes b: "0 < b" and z: "round_bits a b < f32_inf_bits"
  defines "v \<equiv> bits_magnitude (round_bits a b)"
  shows "\<bar>real a - real v * b\<bar> \<le> \<bar>real a - real (bits_magnitude m) * b\<bar>"
    "\<bar>real a - real v * b\<bar> = \<bar>real a - real (bits_magnitude m) * b\<bar> \<Longrightarrow> bits_magnitude m \<noteq> v \<Longrightarrow> even (round_bits a b)"
proof -
  define e where "e = excess (a div b)"
  define n where "n = round_even a (b * 2 ^ e)"
  note bin = binade [OF b, of a, folded e_def, folded n_def]
  have B: "0 < b * 2 ^ e" using b by simp
  have r: "round_bits a b = e * 2 ^ 23 + n" using z by (simp add: round_bits_def Let_def e_def n_def min_def split: if_splits)
  have v: "v = n * 2 ^ e" unfolding v_def r by (rule bits_magnitude_binade [OF bin(1,2)])
  have near: "\<bar>real a - real v * b\<bar> \<le> \<bar>real a - real (k * 2 ^ e) * b\<bar>" for k
    using round_even_nearest(1) [OF B, of a k, folded n_def] unfolding v by (simp add: mult.commute mult.left_commute)
  have small: "\<bar>real a - real v * b\<bar> < \<bar>real a - real w * b\<bar>" if w: "w < 2 ^ (23 + e)" "e \<noteq> 0" for w
  proof -
    have "real w < real (2 ^ (23 + e))" using w(1) by (simp only: of_nat_less_iff)
    then have "real w * b < real (2 ^ (23 + e)) * b" by (rule mult_strict_right_mono) (simp add: b)
    moreover have "real (2 ^ (23 + e)) * b \<le> real a" using bin(3) [OF w(2)] by (metis of_nat_le_iff of_nat_mult)
    moreover have "\<bar>real a - real v * b\<bar> \<le> \<bar>real a - real (2 ^ (23 + e)) * b\<bar>"
      using near [of "2 ^ 23"] by (simp only: power_add)
    ultimately show ?thesis by linarith
  qed
  consider (grid) k where "bits_magnitude m = k * 2 ^ e" | (small) "bits_magnitude m < 2 ^ (23 + e)" "e \<noteq> 0"
    using magnitude_grid [of m e] by (cases "e = 0") auto
  note cases = this
  show "\<bar>real a - real v * b\<bar> \<le> \<bar>real a - real (bits_magnitude m) * b\<bar>"
    by (cases rule: cases) (use near small in \<open>auto intro: less_imp_le\<close>)
  assume tie: "\<bar>real a - real v * b\<bar> = \<bar>real a - real (bits_magnitude m) * b\<bar>" "bits_magnitude m \<noteq> v"
  obtain k where k: "bits_magnitude m = k * 2 ^ e" by (cases rule: cases) (use tie small in auto)
  have "k \<noteq> n" using tie(2) k v by auto
  moreover have "\<bar>real a - real n * (b * 2 ^ e)\<bar> = \<bar>real a - real k * (b * 2 ^ e)\<bar>"
    using tie(1) unfolding v k by (simp add: mult.commute mult.left_commute)
  ultimately have "even n" using round_even_tie [OF B, of a k] unfolding n_def [symmetric] by simp
  then show "even (round_bits a b)" unfolding r by simp
qed

text \<open>The bound from which on a number is rounded to infinity: the largest number and half a unit.\<close>

lemma round_bits_overflow:
  fixes a b :: nat
  assumes b: "0 < b"
  shows "round_bits a b < f32_inf_bits \<longleftrightarrow> a < (2 ^ 25 - 1) * 2 ^ 252 * b"
proof -
  define e where "e = excess (a div b)"
  define n where "n = round_even a (b * 2 ^ e)"
  note bin = binade [OF b, of a, folded e_def, folded n_def]
  have r: "round_bits a b < f32_inf_bits \<longleftrightarrow> e * 2 ^ 23 + n < 255 * 2 ^ 23"
    by (auto simp: round_bits_def Let_def e_def n_def f32_inf_bits_def)
  consider "e \<le> 252" | "e = 253" | "254 \<le> e" by linarith
  then show ?thesis
  proof cases
    case 1
    then have "e * 2 ^ 23 \<le> 252 * 2 ^ 23" by simp
    then have "e * 2 ^ 23 + n < 255 * 2 ^ 23" using bin(2) by simp
    moreover have "a < (2 ^ 25 - 1) * 2 ^ 252 * b"
    proof -
      have "a div b < 2 ^ (24 + e)" using excess_spec [of "a div b"] by (simp add: e_def)
      also have "\<dots> \<le> 2 ^ (24 + 252)" using 1 by (intro power_increasing) simp_all
      also have "\<dots> \<le> (2 ^ 25 - 1) * 2 ^ 252" by simp
      finally show ?thesis using b by (simp add: div_less_iff_less_mult)
    qed
    ultimately show ?thesis unfolding r by simp
  next
    case 2
    let ?B = "b * 2 ^ 253"
    have q: "a div ?B < 2 ^ 24"
    proof -
      have "a div b < 2 ^ 24 * 2 ^ 253" using excess_spec [of "a div b"] 2 by (simp add: e_def power_add)
      then have "a div b div 2 ^ 253 < 2 ^ 24" by (subst div_less_iff_less_mult) simp_all
      then show ?thesis by (simp only: div_mult2_eq)
    qed
    have "e * 2 ^ 23 + n < 255 * 2 ^ 23 \<longleftrightarrow> n \<noteq> 2 ^ 24" using 2 bin(2) by auto
    also have "\<dots> \<longleftrightarrow> \<not> (a div ?B = 2 ^ 24 - 1 \<and> ?B \<le> 2 * (a mod ?B))"
      using q unfolding n_def 2 round_even_def Let_def by auto
    also have "\<dots> \<longleftrightarrow> a < (2 ^ 25 - 1) * 2 ^ 252 * b"
    proof -
      have a: "a = a div ?B * ?B + a mod ?B" by (rule div_mult_mod_eq [symmetric])
      have rb: "a mod ?B < ?B" using b by simp
      have bound: "(2 ^ 25 - 1) * 2 ^ 252 * b * 2 = (2 ^ 24 - 1) * ?B * 2 + ?B" by simp
      show ?thesis
      proof (cases "a div ?B = 2 ^ 24 - 1")
        case True
        then have "a = (2 ^ 24 - 1) * ?B + a mod ?B" using a by metis
        then have "a < (2 ^ 25 - 1) * 2 ^ 252 * b \<longleftrightarrow> 2 * (a mod ?B) < ?B" using bound by linarith
        then show ?thesis using True by auto
      next
        case False
        then have "a div ?B + 1 \<le> 2 ^ 24 - 1" using q by linarith
        then have "(a div ?B + 1) * ?B \<le> (2 ^ 24 - 1) * ?B" by (rule mult_right_mono) simp
        then have "a < (2 ^ 24 - 1) * ?B" using a rb unfolding distrib_right by linarith
        then show ?thesis using False bound by linarith
      qed
    qed
    finally show ?thesis unfolding r .
  next
    case 3
    then have "254 * 2 ^ 23 \<le> e * 2 ^ 23" by simp
    then have "\<not> e * 2 ^ 23 + n < 255 * 2 ^ 23" using bin(1) 3 by simp
    moreover have "(2 ^ 25 - 1) * 2 ^ 252 * b \<le> a"
    proof -
      have "(2 ^ 25 - 1) * 2 ^ 252 \<le> (2 :: nat) ^ (23 + 254)" by simp
      also have "\<dots> \<le> 2 ^ (23 + e)" using 3 by (intro power_increasing) simp_all
      finally have "(2 ^ 25 - 1) * 2 ^ 252 * b \<le> 2 ^ (23 + e) * b" by (rule mult_right_mono) simp
      also have "\<dots> \<le> a" using bin(3) 3 by linarith
      finally show ?thesis .
    qed
    ultimately show ?thesis unfolding r by simp
  qed
qed

section \<open>The operators are correctly rounded\<close>

definition f32_value :: "f32 \<Rightarrow> real" where
  "f32_value x = real_of_int (f32_units x) / 2 ^ 149"

text \<open>
  The finite number nearest to \<open>r\<close>, of two that are equally near the one with an even last bit; from
  half a unit above the largest number on, the infinity of that sign.
\<close>

definition correctly_rounded :: "real \<Rightarrow> f32 \<Rightarrow> bool" where
  "correctly_rounded r z \<longleftrightarrow>
     (if \<bar>r\<bar> < (2 ^ 25 - 1) * 2 ^ 103
      then f32_finite z \<and> (\<forall>y. f32_finite y \<longrightarrow> \<bar>f32_value z - r\<bar> \<le> \<bar>f32_value y - r\<bar> \<and>
        (\<bar>f32_value z - r\<bar> = \<bar>f32_value y - r\<bar> \<longrightarrow> f32_value y \<noteq> f32_value z \<longrightarrow> even (f32_abs z)))
      else f32_abs z = f32_inf_bits \<and> (f32_neg z \<longleftrightarrow> r < 0))"

definition with_sign :: "bool \<Rightarrow> real \<Rightarrow> real" where
  "with_sign s v = (if s then - v else v)"

lemma f32_value_sign: "f32_value x = with_sign (f32_neg x) (real (bits_magnitude (f32_abs x))) / 2 ^ 149"
  by (simp add: f32_value_def f32_units_def with_sign_def float_magnitude_bits)

lemma round_bits_bound: "round_bits a b < 2 ^ 31"
proof -
  have "round_bits a b \<le> f32_inf_bits" by (simp add: round_bits_def Let_def)
  then show ?thesis by (simp add: f32_inf_bits_def)
qed

lemma sign_distance:
  fixes v w A :: real
  assumes "0 \<le> v" "0 \<le> w" "0 \<le> A" "\<bar>A - v\<bar> \<le> \<bar>A - w\<bar>" "\<bar>A - v\<bar> \<le> A"
  shows "\<bar>with_sign s v - with_sign s A\<bar> \<le> \<bar>with_sign t w - with_sign s A\<bar>"
    "\<bar>with_sign s v - with_sign s A\<bar> = \<bar>with_sign t w - with_sign s A\<bar> \<Longrightarrow> with_sign t w \<noteq> with_sign s v \<Longrightarrow>
      \<bar>A - v\<bar> = \<bar>A - w\<bar> \<and> w \<noteq> v"
  using assms by (auto simp: with_sign_def split: if_splits)

lemma scaled_distance:
  fixes v A b :: real
  assumes "0 < b"
  shows "\<bar>A / b - v\<bar> = \<bar>A - v * b\<bar> / b"
proof -
  have "A / b - v = (A - v * b) / b" using assms by (simp add: field_simps)
  then show ?thesis using assms by simp
qed

lemma make_correctly_rounded:
  fixes a b :: nat
  assumes b: "0 < b"
  shows "correctly_rounded (with_sign s (real a / real b) / 2 ^ 149) (f32_make s (round_bits a b))"
proof -
  let ?z = "f32_make s (round_bits a b)" and ?A = "real a / real b"
  note z = f32_make_fields [OF round_bits_bound, of s a b]
  have big: "\<bar>with_sign s ?A / 2 ^ 149\<bar> < (2 ^ 25 - 1) * 2 ^ 103 \<longleftrightarrow> round_bits a b < f32_inf_bits"
  proof -
    have "\<bar>with_sign s ?A / 2 ^ 149\<bar> = ?A / 2 ^ 149" by (simp add: with_sign_def)
    also have "\<dots> < (2 ^ 25 - 1) * 2 ^ 103 \<longleftrightarrow> real a < (2 ^ 25 - 1) * 2 ^ 252 * real b"
      using b by (simp add: field_simps)
    also have "\<dots> \<longleftrightarrow> real a < real ((2 ^ 25 - 1) * 2 ^ 252 * b)" by simp
    also have "\<dots> \<longleftrightarrow> a < (2 ^ 25 - 1) * 2 ^ 252 * b" by (rule of_nat_less_iff)
    finally show ?thesis unfolding round_bits_overflow [OF b] .
  qed
  show ?thesis
  proof (cases "round_bits a b < f32_inf_bits")
    case True
    note near = round_bits_nearest [OF b True]
    have fz: "f32_finite ?z" unfolding f32_finite_abs z(1) by (rule True)
    have "\<bar>f32_value ?z - with_sign s ?A / 2 ^ 149\<bar> \<le> \<bar>f32_value y - with_sign s ?A / 2 ^ 149\<bar> \<and>
        (\<bar>f32_value ?z - with_sign s ?A / 2 ^ 149\<bar> = \<bar>f32_value y - with_sign s ?A / 2 ^ 149\<bar> \<longrightarrow>
          f32_value y \<noteq> f32_value ?z \<longrightarrow> even (f32_abs ?z))" for y
    proof -
      let ?v = "real (bits_magnitude (round_bits a b))" and ?w = "real (bits_magnitude (f32_abs y))"
      have d: "\<bar>?A - ?v\<bar> \<le> \<bar>?A - ?w\<bar>"
        using near(1) [of "f32_abs y"] b by (simp add: scaled_distance divide_right_mono)
      have "\<bar>?A - ?v\<bar> \<le> \<bar>?A - real (bits_magnitude 0)\<bar>"
        using near(1) [of 0] b by (simp add: scaled_distance divide_right_mono)
      then have d0: "\<bar>?A - ?v\<bar> \<le> ?A" by (simp add: bits_magnitude_def)
      have "0 \<le> ?v" "0 \<le> ?w" "0 \<le> ?A" by simp_all
      note sd = sign_distance [OF this d d0, of s "f32_neg y"]
      have scale: "\<bar>p / 2 ^ 149 - q / 2 ^ 149\<bar> = \<bar>p - q\<bar> / 2 ^ 149" for p q :: real
        by (simp flip: diff_divide_distrib)
      have le: "\<bar>f32_value ?z - with_sign s ?A / 2 ^ 149\<bar> \<le> \<bar>f32_value y - with_sign s ?A / 2 ^ 149\<bar>"
        unfolding f32_value_sign z scale using sd(1) by (simp add: divide_right_mono)
      have "even (f32_abs ?z)" if eq: "\<bar>f32_value ?z - with_sign s ?A / 2 ^ 149\<bar> = \<bar>f32_value y - with_sign s ?A / 2 ^ 149\<bar>"
        and ne: "f32_value y \<noteq> f32_value ?z"
      proof -
        have "\<bar>with_sign s ?v - with_sign s ?A\<bar> = \<bar>with_sign (f32_neg y) ?w - with_sign s ?A\<bar>"
          "with_sign (f32_neg y) ?w \<noteq> with_sign s ?v"
          using eq ne unfolding f32_value_sign z scale by auto
        from sd(2) [OF this] have "\<bar>?A - ?v\<bar> = \<bar>?A - ?w\<bar>" "bits_magnitude (f32_abs y) \<noteq> bits_magnitude (round_bits a b)"
          by simp_all
        then show ?thesis using near(2) [of "f32_abs y"] b unfolding z(1) by (simp add: scaled_distance)
      qed
      then show ?thesis using le by blast
    qed
    then show ?thesis unfolding correctly_rounded_def using True big fz by simp
  next
    case False
    have "round_bits a b \<le> f32_inf_bits" by (simp add: round_bits_def Let_def)
    then have inf: "round_bits a b = f32_inf_bits" using False by simp
    have "0 < a" using False unfolding round_bits_overflow [OF b] by (cases a) (simp_all add: b)
    then have "with_sign s ?A / 2 ^ 149 < 0 \<longleftrightarrow> s" using b by (auto simp: with_sign_def not_less)
    then show ?thesis unfolding correctly_rounded_def using False big z inf by simp
  qed
qed

lemma bits_magnitude_less: "m < n \<Longrightarrow> bits_magnitude m < bits_magnitude n"
proof -
  have step: "bits_magnitude k < bits_magnitude (Suc k)" for k
  proof -
    obtain e f where k: "k = e * 2 ^ 23 + f" "f < 2 ^ 23"
      using div_mult_mod_eq [of k "2 ^ 23", symmetric] mod_less_divisor [of "2 ^ 23" k] by fastforce
    show ?thesis
    proof (cases e)
      case 0
      then have "bits_magnitude (0 * 2 ^ 23 + k) = k * 2 ^ 0" "bits_magnitude (0 * 2 ^ 23 + Suc k) = Suc k * 2 ^ 0"
        using k by (intro bits_magnitude_binade; simp)+
      then show ?thesis by simp
    next
      case (Suc d)
      have m: "bits_magnitude (d * 2 ^ 23 + (2 ^ 23 + f)) = (2 ^ 23 + f) * 2 ^ d"
        "bits_magnitude (d * 2 ^ 23 + (2 ^ 23 + Suc f)) = (2 ^ 23 + Suc f) * 2 ^ d"
        using k(2) by (intro bits_magnitude_binade; simp)+
      have "k = d * 2 ^ 23 + (2 ^ 23 + f)" "Suc k = d * 2 ^ 23 + (2 ^ 23 + Suc f)" using k(1) Suc by simp_all
      then have "bits_magnitude k = (2 ^ 23 + f) * 2 ^ d" "bits_magnitude (Suc k) = (2 ^ 23 + Suc f) * 2 ^ d"
        using m by metis+
      then show ?thesis by simp
    qed
  qed
  show "m < n \<Longrightarrow> bits_magnitude m < bits_magnitude n" by (rule lift_Suc_mono_less [of bits_magnitude, OF step])
qed

lemma bits_magnitude_less_iff: "bits_magnitude m < bits_magnitude n \<longleftrightarrow> m < n"
  using bits_magnitude_less [of m n] bits_magnitude_less [of n m] by (cases m n rule: linorder_cases) auto

lemma bits_magnitude_0 [simp]: "bits_magnitude n = 0 \<longleftrightarrow> n = 0"
  using bits_magnitude_less_iff [of 0 n] by (auto simp: bits_magnitude_def)

lemma f32_less_value:
  assumes "f32_finite x" "f32_finite y"
  shows "f32_less x y \<longleftrightarrow> f32_value x < f32_value y"
proof -
  have "\<not> f32_nan x" "\<not> f32_nan y" using assms by (simp_all add: f32_nan_def f32_finite_def)
  moreover have mixed: "- int a < int b \<longleftrightarrow> a \<noteq> 0 \<or> b \<noteq> 0" "\<not> int a < - int b" for a b by auto
  moreover have "f32_order x < f32_order y \<longleftrightarrow> f32_units x < f32_units y"
    using bits_magnitude_less_iff [of "f32_abs x" "f32_abs y"] bits_magnitude_less_iff [of "f32_abs y" "f32_abs x"]
    by (auto simp: f32_order_def f32_units_def float_magnitude_bits mixed)
  ultimately show ?thesis by (simp add: f32_less_def f32_value_def divide_less_cancel)
qed

lemma f32_eq_value:
  assumes "f32_finite x" "f32_finite y"
  shows "f32_eq x y \<longleftrightarrow> f32_value x = f32_value y"
proof -
  have "x = y \<longleftrightarrow> f32_neg x = f32_neg y \<and> f32_abs x = f32_abs y" for x y
  proof
    assume "f32_neg x = f32_neg y \<and> f32_abs x = f32_abs y"
    moreover have "unat w div 2 ^ 31 < 2" for w :: f32 using unsigned_less [of w] by (simp add: div_less_iff_less_mult)
    then have "unat x div 2 ^ 31 < 2" "unat y div 2 ^ 31 < 2" by blast+
    ultimately have "unat x div 2 ^ 31 = unat y div 2 ^ 31" unfolding f32_neg_def by linarith
    then show "x = y"
      using \<open>f32_neg x = f32_neg y \<and> f32_abs x = f32_abs y\<close> unfolding f32_abs_def
      by (metis div_mult_mod_eq unsigned_word_eqI)
  qed simp
  then have same: "x = y \<longleftrightarrow> f32_neg x = f32_neg y \<and> f32_abs x = f32_abs y" .
  have inj: "bits_magnitude m = bits_magnitude n \<longleftrightarrow> m = n" for m n
    using bits_magnitude_less [of m n] bits_magnitude_less [of n m] by (cases m n rule: linorder_cases) auto
  have in_units: "f32_value x = f32_value y \<longleftrightarrow> f32_units x = f32_units y" by (simp add: f32_value_def)
  have mixed: "- int a = int b \<longleftrightarrow> a = 0 \<and> b = 0" "int a = - int b \<longleftrightarrow> a = 0 \<and> b = 0" for a b by auto
  have "x = y \<or> f32_abs x = 0 \<and> f32_abs y = 0 \<longleftrightarrow> f32_value x = f32_value y"
    unfolding same in_units f32_units_def float_magnitude_bits
    by (cases "f32_neg x"; cases "f32_neg y"; auto simp: mixed inj)
  then show ?thesis
    using assms by (auto simp: f32_eq_def f32_finite_def f32_exponent_def f32_abs_def Let_def)
qed

lemma round_bits_0: "0 < b \<Longrightarrow> round_bits 0 b = 0"
  by (simp add: round_bits_def round_even_def excess.simps Let_def)

lemma f32_units_minus: "f32_units (f32_minus x) = - f32_units x"
  by (simp add: f32_units_def float_magnitude_bits f32_minus_def f32_make_fields [OF f32_abs_bound])

lemma f32_finite_minus: "f32_finite (f32_minus x) \<longleftrightarrow> f32_finite x"
  by (simp add: f32_finite_abs f32_minus_def f32_make_fields [OF f32_abs_bound])

lemma finite_no_nan: "f32_finite x \<Longrightarrow> \<not> f32_nan x"
  by (simp add: f32_nan_def f32_finite_def)

lemma with_sign_int: "with_sign (i < 0) (real (nat \<bar>i\<bar>)) = real_of_int i"
  by (simp add: with_sign_def)

lemma with_sign_0: "with_sign s 0 = 0"
  by (simp add: with_sign_def)

lemma f32_add_rounded:
  assumes "f32_finite x" "f32_finite y"
  shows "correctly_rounded (f32_value x + f32_value y) (f32_add nan x y)"
proof -
  let ?s = "f32_units x + f32_units y"
  have v: "f32_value x + f32_value y = real_of_int ?s / 2 ^ 149"
    by (simp add: f32_value_def add_divide_distrib)
  show ?thesis
  proof (cases "?s = 0")
    case True
    then show ?thesis
      using make_correctly_rounded [of 1 "f32_neg x \<and> f32_neg y" 0] finite_no_nan assms
      by (simp add: v f32_add_def Let_def round_bits_0 with_sign_0)
  next
    case False
    then have "f32_add nan x y = f32_make (?s < 0) (round_bits (nat \<bar>?s\<bar>) 1)"
      using assms finite_no_nan by (simp add: f32_add_def Let_def)
    then show ?thesis using make_correctly_rounded [of 1 "?s < 0" "nat \<bar>?s\<bar>"]
      unfolding v of_nat_1 div_by_1 with_sign_int by simp
  qed
qed

lemma f32_sub_rounded:
  assumes "f32_finite x" "f32_finite y"
  shows "correctly_rounded (f32_value x - f32_value y) (f32_sub nan x y)"
  using f32_add_rounded [of x "f32_minus y" nan] assms
  by (simp add: f32_sub_def f32_finite_minus f32_value_def f32_units_minus)

lemma f32_mul_rounded:
  assumes "f32_finite x" "f32_finite y"
  shows "correctly_rounded (f32_value x * f32_value y) (f32_mul nan x y)"
proof -
  let ?s = "f32_neg x \<noteq> f32_neg y" and ?a = "float_magnitude x * float_magnitude y"
  have v: "f32_value x * f32_value y = with_sign ?s (real ?a / real (2 ^ 149)) / 2 ^ 149"
    by (simp add: f32_value_def f32_units_def with_sign_def)
  have "f32_mul nan x y = f32_make ?s (round_bits ?a (2 ^ 149))"
    using assms finite_no_nan by (simp add: f32_mul_def Let_def)
  then show ?thesis using make_correctly_rounded [of "2 ^ 149" ?s ?a] unfolding v by simp
qed

lemma f32_div_rounded:
  assumes "f32_finite x" "f32_finite y" "f32_value y \<noteq> 0"
  shows "correctly_rounded (f32_value x / f32_value y) (f32_div nan x y)"
proof -
  let ?s = "f32_neg x \<noteq> f32_neg y" and ?a = "float_magnitude x * 2 ^ 149" and ?b = "float_magnitude y"
  have b: "0 < ?b" using assms(3) by (cases "?b = 0") (auto simp: f32_value_def f32_units_def split: if_splits)
  then have "bits_magnitude (f32_abs y) \<noteq> 0" unfolding float_magnitude_bits by (rule gr_implies_not_zero)
  then have y: "f32_abs y \<noteq> 0" by (metis bits_magnitude_0)
  have v: "f32_value x / f32_value y = with_sign ?s (real ?a / real ?b) / 2 ^ 149"
    by (simp add: f32_value_def f32_units_def with_sign_def)
  have "f32_div nan x y = f32_make ?s (round_bits ?a ?b)"
    using assms finite_no_nan y by (simp add: f32_div_def Let_def)
  then show ?thesis using make_correctly_rounded [OF b, of ?s ?a] unfolding v by simp
qed

lemma f32_of_int_rounded: "correctly_rounded (real_of_int i) (f32_of_int i)"
proof -
  have "with_sign (i < 0) (real (nat \<bar>i\<bar> * 2 ^ 149) / real 1) / 2 ^ 149 = real_of_int i"
    by (simp add: with_sign_def)
  then show ?thesis using make_correctly_rounded [of 1 "i < 0" "nat \<bar>i\<bar> * 2 ^ 149"]
    unfolding f32_of_int_def by simp
qed

end
