(* ===== verification/Const_Folder.thy ===== *)
theory Const_Folder
  imports Float_Ops Ir_Constants "HOL-Library.Signed_Division"
begin

text \<open>
  The class \<^verbatim>\<open>ConstFolder\<close> of \<^verbatim>\<open>GVN.cpp\<close>: the constant that an instruction computes from constants.
  The pass makes a folder and never calls it.
\<close>

section \<open>Operations\<close>

text \<open>\<^verbatim>\<open>dynamic_cast\<close> gives a null pointer for a null pointer and for any other class.\<close>

definition get_const_int_value :: "addr option \<Rightarrow> ir \<Rightarrow> i32 result" where
  "get_const_int_value v m = (case v of
       None \<Rightarrow> Inl NullDeref
     | Some a \<Rightarrow> rbind (get_val a m) (\<lambda>x. case kind x of ConstantIntV k \<Rightarrow> Inr k | _ \<Rightarrow> Inl NullDeref))"

definition get_const_fp_value :: "addr option \<Rightarrow> ir \<Rightarrow> f32 result" where
  "get_const_fp_value v m = (case v of
       None \<Rightarrow> Inl NullDeref
     | Some a \<Rightarrow> rbind (get_val a m) (\<lambda>x. case kind x of ConstantFPV f \<Rightarrow> Inr f | _ \<Rightarrow> Inl NullDeref))"

text \<open>A signed result that does not fit is undefined behaviour.\<close>

definition signed_result :: "int \<Rightarrow> i32 result" where
  "signed_result i = (if - (2 ^ 31) \<le> i \<and> i < 2 ^ 31 then Inr (word_of_int i) else Inl UndefinedBehaviour)"

definition int_op :: "OpID \<Rightarrow> i32 \<Rightarrow> i32 \<Rightarrow> i32 result" where
  "int_op op x y = (case op of
       Add \<Rightarrow> signed_result (sint x + sint y)
     | Sub \<Rightarrow> signed_result (sint x - sint y)
     | Mul \<Rightarrow> signed_result (sint x * sint y)
     | _ \<Rightarrow> if sint y = 0 then Inl UndefinedBehaviour else signed_result (sint x sdiv sint y))"

definition float_op :: "f32 \<Rightarrow> OpID \<Rightarrow> f32 \<Rightarrow> f32 \<Rightarrow> f32" where
  "float_op nan op x y = (case op of
       Fadd \<Rightarrow> f32_add nan x y
     | Fsub \<Rightarrow> f32_sub nan x y
     | Fmul \<Rightarrow> f32_mul nan x y
     | _ \<Rightarrow> f32_div nan x y)"

definition int_cmp :: "CmpOp \<Rightarrow> i32 \<Rightarrow> i32 \<Rightarrow> bool" where
  "int_cmp c x y = (case c of
       EQ \<Rightarrow> sint x = sint y
     | NE \<Rightarrow> sint x \<noteq> sint y
     | GT \<Rightarrow> sint x > sint y
     | GE \<Rightarrow> sint x \<ge> sint y
     | LT \<Rightarrow> sint x < sint y
     | LE \<Rightarrow> sint x \<le> sint y)"

definition float_cmp :: "CmpOp \<Rightarrow> f32 \<Rightarrow> f32 \<Rightarrow> bool" where
  "float_cmp c x y = (case c of
       EQ \<Rightarrow> f32_eq x y
     | NE \<Rightarrow> \<not> f32_eq x y
     | GT \<Rightarrow> f32_less y x
     | GE \<Rightarrow> f32_less y x \<or> f32_eq x y
     | LT \<Rightarrow> f32_less x y
     | LE \<Rightarrow> f32_less x y \<or> f32_eq x y)"

text \<open>\<^verbatim>\<open>compute\<close> with two constants; \<open>None\<close> is the null pointer.\<close>

definition compute2 :: "f32 \<Rightarrow> addr \<Rightarrow> addr option \<Rightarrow> addr option \<Rightarrow> ir \<times> const_cache \<Rightarrow>
    (addr option \<times> ir \<times> const_cache) result" where
  "compute2 nan instr value1 value2 s = rbind (get_val instr (fst s)) (\<lambda>i.
     let ints = (\<lambda>f. rbind (get_const_int_value value1 (fst s)) (\<lambda>x. rbind (get_const_int_value value2 (fst s)) (f x)));
         floats = (\<lambda>f. rbind (get_const_fp_value value1 (fst s)) (\<lambda>x. rbind (get_const_fp_value value2 (fst s)) (f x)));
         found = (\<lambda>(a, s'). Inr (Some a, s')) in
     case kind i of
       InstructionV op \<Rightarrow>
         (if op \<in> {Add, Sub, Mul, Sdiv} then ints (\<lambda>x y. rbind (int_op op x y) (\<lambda>k. found (ConstantInt_get k s)))
          else if op \<in> {Fadd, Fsub, Fmul, Fdiv} then floats (\<lambda>x y. found (ConstantFP_get (float_op nan op x y) s))
          else if op = Cmp then ints (\<lambda>x y. found (ConstantBool_get (int_cmp (cmp_op i) x y) s))
          else if op = Fcmp then floats (\<lambda>x y. found (ConstantBool_get (float_cmp (cmp_op i) x y) s))
          else Inr (None, s))
     | _ \<Rightarrow> Inl UndefinedBehaviour)"

text \<open>\<^verbatim>\<open>compute\<close> with one constant.\<close>

definition compute1 :: "addr \<Rightarrow> addr option \<Rightarrow> ir \<times> const_cache \<Rightarrow> (addr option \<times> ir \<times> const_cache) result" where
  "compute1 instr value1 s = rbind (get_val instr (fst s)) (\<lambda>i.
     let found = (\<lambda>(a, s'). Inr (Some a, s')) in
     case kind i of
       InstructionV Sitofp \<Rightarrow> rbind (get_const_int_value value1 (fst s)) (\<lambda>x. found (ConstantFP_get (f32_of_int (sint x)) s))
     | InstructionV Fptosi \<Rightarrow> rbind (get_const_fp_value value1 (fst s)) (\<lambda>x. rbind (int_of_f32 x) (\<lambda>k. found (ConstantInt_get k s)))
     | InstructionV Zext \<Rightarrow> rbind (get_const_int_value value1 (fst s)) (\<lambda>x. found (ConstantInt_get x s))
     | InstructionV _ \<Rightarrow> Inr (None, s)
     | _ \<Rightarrow> Inl UndefinedBehaviour)"

section \<open>What folding computes\<close>

text \<open>The exact result, with the quotient cut towards zero.\<close>

definition exact_int :: "OpID \<Rightarrow> int \<Rightarrow> int \<Rightarrow> int" where
  "exact_int op x y = (case op of
       Add \<Rightarrow> x + y
     | Sub \<Rightarrow> x - y
     | Mul \<Rightarrow> x * y
     | _ \<Rightarrow> sgn x * sgn y * (\<bar>x\<bar> div \<bar>y\<bar>))"

definition exact_real :: "OpID \<Rightarrow> real \<Rightarrow> real \<Rightarrow> real" where
  "exact_real op x y = (case op of
       Fadd \<Rightarrow> x + y
     | Fsub \<Rightarrow> x - y
     | Fmul \<Rightarrow> x * y
     | _ \<Rightarrow> x / y)"

text \<open>The instruction \<open>i\<close> with the operation \<open>op\<close> and the constants \<open>a\<close> and \<open>b\<close> are in the heap.\<close>

definition foldable :: "OpID \<Rightarrow> addr \<Rightarrow> addr \<Rightarrow> value_kind \<Rightarrow> addr \<Rightarrow> value_kind \<Rightarrow> ir \<times> const_cache \<Rightarrow> bool" where
  "foldable op i a k b l s \<longleftrightarrow> cache_ok s \<and> map_option kind (heap (fst s) i) = Some (InstructionV op) \<and>
     map_option kind (heap (fst s) a) = Some k \<and> map_option kind (heap (fst s) b) = Some l"

text \<open>The constant \<open>c\<close> of that type and value is in the module, and every older object is as it was.\<close>

definition folded :: "ty \<Rightarrow> value_kind \<Rightarrow> addr \<Rightarrow> ir \<times> const_cache \<Rightarrow> ir \<times> const_cache \<Rightarrow> bool" where
  "folded t k c s s' \<longleftrightarrow> is_const_at (fst s') t k c \<and> cache_ok s' \<and>
     (\<forall>a x. heap (fst s) a = Some x \<longrightarrow> heap (fst s') a = Some x)"

lemma signed_result_sint: "signed_result i = Inr k \<Longrightarrow> sint k = i"
proof -
  assume "signed_result i = Inr k"
  then have "k = word_of_int i" "- (2 ^ 31) \<le> i" "i < 2 ^ 31" by (auto simp: signed_result_def split: if_splits)
  then show "sint k = i" using signed_take_bit_int_eq_self [of 31 i] by (simp add: signed_of_int)
qed

lemma ConstantInt_get_folded:
  assumes "cache_ok s" "ConstantInt_get k s = (c, s')"
  shows "folded (IntegerTy 32) (ConstantIntV k) c s s'"
proof -
  obtain m ca where s: "s = (m, ca)" by (cases s)
  note ok = ints.get_ok [of s k c s'] assms
  have "is_const_at (fst s') (IntegerTy 32) (ConstantIntV k) c" "cache_ok s'"
    using ok by (simp_all add: cached_at_Some)
  moreover have "heap (fst s') a = Some x" if "heap (fst s) a = Some x" for a x
  proof (cases "cached_int ca k")
    case None
    obtain b m' where new: "new_constant (IntegerTy 32) (ConstantIntV k) m = (b, m')" by fastforce
    note n = new_constant_spec [OF assms(1) [unfolded s] new]
    then show ?thesis using None new assms(2) that s by (auto simp: ConstantInt_get_def)
  qed (use assms(2) that s in \<open>simp add: ConstantInt_get_def\<close>)
  ultimately show ?thesis by (simp add: folded_def)
qed

lemma ConstantFP_get_folded:
  assumes "cache_ok s" "ConstantFP_get z s = (c, s')"
  shows "\<exists>y. (y = z \<or> f32_eq y z) \<and> folded FloatTy (ConstantFPV y) c s s'"
proof -
  obtain m ca where s: "s = (m, ca)" by (cases s)
  have "heap (fst s') a = Some x" if "heap (fst s) a = Some x" for a x
  proof (cases "List.find (\<lambda>ka. f32_eq (fst ka) z) (cached_float ca)")
    case None
    obtain b m' where new: "new_constant FloatTy (ConstantFPV z) m = (b, m')" by fastforce
    note n = new_constant_spec [OF assms(1) [unfolded s] new]
    then show ?thesis using None new assms(2) that s by (auto simp: ConstantFP_get_def)
  qed (use assms(2) that s in \<open>auto simp: ConstantFP_get_def\<close>)
  moreover obtain m' ca' where "s' = (m', ca')" by (cases s')
  ultimately show ?thesis
    using ConstantFP_get_spec [of m ca z c m' ca'] assms s by (auto simp: folded_def)
qed

lemma compute2_arith:
  assumes "foldable op i a k b l s"
  shows "k = ConstantIntV x \<Longrightarrow> l = ConstantIntV y \<Longrightarrow> op \<in> {Add, Sub, Mul, Sdiv} \<Longrightarrow>
      compute2 nan i (Some a) (Some b) s =
        rbind (int_op op x y) (\<lambda>r. case ConstantInt_get r s of (c, s') \<Rightarrow> Inr (Some c, s'))"
    "k = ConstantFPV u \<Longrightarrow> l = ConstantFPV v \<Longrightarrow> op \<in> {Fadd, Fsub, Fmul, Fdiv} \<Longrightarrow>
      compute2 nan i (Some a) (Some b) s =
        (case ConstantFP_get (float_op nan op u v) s of (c, s') \<Rightarrow> Inr (Some c, s'))"
  using assms
  by (auto simp: foldable_def compute2_def get_const_int_value_def get_const_fp_value_def get_val_def Let_def
      split: prod.splits)

text \<open>The folded comparisons are those of the numbers, and the conversion of an integer is the nearest float.\<close>

definition real_cmp :: "CmpOp \<Rightarrow> real \<Rightarrow> real \<Rightarrow> bool" where
  "real_cmp c x y = (case c of EQ \<Rightarrow> x = y | NE \<Rightarrow> x \<noteq> y | GT \<Rightarrow> x > y | GE \<Rightarrow> x \<ge> y | LT \<Rightarrow> x < y | LE \<Rightarrow> x \<le> y)"

lemma int_cmp_real: "int_cmp c x y = real_cmp c (real_of_int (sint x)) (real_of_int (sint y))"
  by (cases c) (simp_all add: int_cmp_def real_cmp_def del: of_int_sint)

lemma float_cmp_real:
  assumes "f32_finite x" "f32_finite y"
  shows "float_cmp c x y = real_cmp c (f32_value x) (f32_value y)"
  using f32_less_value [OF assms] f32_less_value [OF assms(2,1)] f32_eq_value [OF assms]
  by (cases c) (auto simp: float_cmp_def real_cmp_def)

lemma compute2_cmp:
  assumes "foldable op i a k b l s" "map_option cmp_op (heap (fst s) i) = Some c"
  shows "k = ConstantIntV x \<Longrightarrow> l = ConstantIntV y \<Longrightarrow> op = Cmp \<Longrightarrow>
      compute2 nan i (Some a) (Some b) s =
        (case ConstantBool_get (real_cmp c (real_of_int (sint x)) (real_of_int (sint y))) s of (d, s') \<Rightarrow> Inr (Some d, s'))"
    "k = ConstantFPV u \<Longrightarrow> l = ConstantFPV v \<Longrightarrow> op = Fcmp \<Longrightarrow> f32_finite u \<Longrightarrow> f32_finite v \<Longrightarrow>
      compute2 nan i (Some a) (Some b) s =
        (case ConstantBool_get (real_cmp c (f32_value u) (f32_value v)) s of (d, s') \<Rightarrow> Inr (Some d, s'))"
  using assms
  by (auto simp: foldable_def compute2_def get_const_int_value_def get_const_fp_value_def get_val_def Let_def
      int_cmp_real float_cmp_real split: prod.splits)

lemma compute1_sitofp:
  assumes "foldable Sitofp i a (ConstantIntV x) b l s"
  shows "compute1 i (Some a) s = (case ConstantFP_get (f32_of_int (sint x)) s of (d, s') \<Rightarrow> Inr (Some d, s')) \<and>
    correctly_rounded (real_of_int (sint x)) (f32_of_int (sint x))"
  using assms f32_of_int_rounded
  by (auto simp: foldable_def compute1_def get_const_int_value_def get_val_def Let_def split: prod.splits simp del: of_int_sint)

text \<open>An instruction with two constants.\<close>

definition fold_example :: "OpID \<Rightarrow> value_kind \<Rightarrow> value_kind \<Rightarrow> ir \<times> const_cache" where
  "fold_example op k l = (ir_init\<lparr>heap := [0 \<mapsto> new_val (IntegerTy 32) [] (InstructionV op) 2 None,
     1 \<mapsto> new_val (IntegerTy 32) [] k 0 None, 2 \<mapsto> new_val (IntegerTy 32) [] l 0 None], next_addr := 3\<rparr>, const_cache_init)"

lemma fold_example_foldable: "foldable op 0 1 k 2 l (fold_example op k l)"
  by (auto simp: foldable_def fold_example_def cache_ok_def const_cache_init_def new_val_def split: if_splits)

section \<open>Properties\<close>

text \<open>
  C35. Folding an operation on two integer constants gives the constant with the exact result, and
  changes no other object; it is undefined behaviour exactly when the divisor is zero or the exact
  result does not fit \<^verbatim>\<open>int\<close>, as for the quotient of the least number and -1.
\<close>

theorem const_fold_ints:
  assumes "foldable op i a (ConstantIntV x) b (ConstantIntV y) s" "op \<in> {Add, Sub, Mul, Sdiv}"
  defines "r \<equiv> exact_int op (sint x) (sint y)"
  shows "if op = Sdiv \<and> y = 0 \<or> r < - (2 ^ 31) \<or> 2 ^ 31 \<le> r
    then compute2 nan i (Some a) (Some b) s = Inl UndefinedBehaviour
    else \<exists>c s' k. compute2 nan i (Some a) (Some b) s = Inr (Some c, s') \<and> sint k = r \<and>
      folded (IntegerTy 32) (ConstantIntV k) c s s'"
proof -
  have op: "int_op op x y = (if op = Sdiv \<and> y = 0 then Inl UndefinedBehaviour else signed_result r)"
    using assms(2) by (auto simp: int_op_def r_def exact_int_def signed_divide_int_def signed_eq_0_iff)
  note c = compute2_arith(1) [OF assms(1) refl refl assms(2), of nan]
  show ?thesis
  proof (cases "op = Sdiv \<and> y = 0 \<or> r < - (2 ^ 31) \<or> 2 ^ 31 \<le> r")
    case True
    then have "int_op op x y = Inl UndefinedBehaviour" by (auto simp: op signed_result_def)
    then show ?thesis using True by (simp add: c)
  next
    case False
    then obtain k where k: "int_op op x y = Inr k" "signed_result r = Inr k" by (auto simp: op signed_result_def)
    obtain d s' where g: "ConstantInt_get k s = (d, s')" by (cases "ConstantInt_get k s")
    have "folded (IntegerTy 32) (ConstantIntV k) d s s'"
      using ConstantInt_get_folded [OF _ g] assms(1) by (simp add: foldable_def)
    then show ?thesis using False signed_result_sint [OF k(2)] by (auto simp: c k(1) g)
  qed
qed

text \<open>
  C36. Folding an operation on two finite floating-point constants gives a constant that is equal to
  the correctly rounded exact result: the nearest number, ties to even, or infinity from half a
  unit above the largest number on. Only its sign can be lost when it is zero.
\<close>

theorem const_fold_floats:
  assumes "foldable op i a (ConstantFPV x) b (ConstantFPV y) s" "op \<in> {Fadd, Fsub, Fmul, Fdiv}"
    and "f32_finite x" "f32_finite y" "op = Fdiv \<Longrightarrow> f32_value y \<noteq> 0"
  shows "\<exists>c s' z z'. compute2 nan i (Some a) (Some b) s = Inr (Some c, s') \<and>
    correctly_rounded (exact_real op (f32_value x) (f32_value y)) z \<and> (z' = z \<or> f32_eq z' z) \<and>
    folded FloatTy (ConstantFPV z') c s s'"
proof -
  let ?z = "float_op nan op x y"
  have "correctly_rounded (exact_real op (f32_value x) (f32_value y)) ?z"
    using assms(2-5) by (auto simp: float_op_def exact_real_def
        intro: f32_add_rounded f32_sub_rounded f32_mul_rounded f32_div_rounded)
  moreover obtain d s' where g: "ConstantFP_get ?z s = (d, s')" by (cases "ConstantFP_get ?z s")
  moreover have "\<exists>y. (y = ?z \<or> f32_eq y ?z) \<and> folded FloatTy (ConstantFPV y) d s s'"
    using ConstantFP_get_folded [OF _ g] assms(1) by (simp add: foldable_def)
  ultimately show ?thesis
    using compute2_arith(2) [OF assms(1) refl refl assms(2), of nan] by auto
qed

theorem const_fold_ints_witness:
  "(\<exists>c s' k. compute2 0 0 (Some 1) (Some 2) (fold_example Sdiv (ConstantIntV 7) (ConstantIntV (- 2))) = Inr (Some c, s') \<and>
      sint k = - 3 \<and> folded (IntegerTy 32) (ConstantIntV k) c (fold_example Sdiv (ConstantIntV 7) (ConstantIntV (- 2))) s') \<and>
    compute2 0 0 (Some 1) (Some 2) (fold_example Sdiv (ConstantIntV (- 2147483648)) (ConstantIntV (- 1))) = Inl UndefinedBehaviour"
proof (rule conjI)
  have "exact_int Sdiv (sint (7 :: i32)) (sint (- 2 :: i32)) = - 3" by (simp add: exact_int_def)
  then show "\<exists>c s' k. compute2 0 0 (Some 1) (Some 2) (fold_example Sdiv (ConstantIntV 7) (ConstantIntV (- 2))) = Inr (Some c, s') \<and>
      sint k = - 3 \<and> folded (IntegerTy 32) (ConstantIntV k) c (fold_example Sdiv (ConstantIntV 7) (ConstantIntV (- 2))) s'"
    using const_fold_ints [where op = Sdiv and x = 7 and y = "- 2" and nan = 0, OF fold_example_foldable] by (simp del: One_nat_def)
  have "exact_int Sdiv (sint (- 2147483648 :: i32)) (sint (- 1 :: i32)) = 2147483648" by (simp add: exact_int_def)
  then show "compute2 0 0 (Some 1) (Some 2) (fold_example Sdiv (ConstantIntV (- 2147483648)) (ConstantIntV (- 1))) = Inl UndefinedBehaviour"
    using const_fold_ints [where op = Sdiv and x = "- 2147483648" and y = "- 1" and nan = 0, OF fold_example_foldable] by (simp del: One_nat_def)
qed

theorem const_fold_floats_witness:
  "\<exists>c s' z z'. compute2 0 0 (Some 1) (Some 2) (fold_example Fdiv (ConstantFPV 0x3F800000) (ConstantFPV 0x40400000)) = Inr (Some c, s') \<and>
    correctly_rounded (f32_value 0x3F800000 / f32_value 0x40400000) z \<and> (z' = z \<or> f32_eq z' z) \<and>
    folded FloatTy (ConstantFPV z') c (fold_example Fdiv (ConstantFPV 0x3F800000) (ConstantFPV 0x40400000)) s'"
proof -
  have "f32_finite 0x3F800000" "f32_finite 0x40400000" by (simp_all add: f32_finite_def f32_exponent_def)
  moreover have "f32_value 0x40400000 \<noteq> 0"
    by (simp add: f32_value_def f32_units_def float_magnitude_def f32_neg_def)
  ultimately show ?thesis
    using const_fold_floats [where op = Fdiv and x = "0x3F800000" and y = "0x40400000" and nan = 0, OF fold_example_foldable] by (simp add: exact_real_def)
qed

end
