(* ===== verification/Runtime.thy ===== *)
theory Runtime
  imports Float_Ops Ast_Roundtrip
begin

text \<open>
  The run-time library \<^verbatim>\<open>io.c\<close>, which the compiled programs are linked with: reading an integer,
  printing an integer or a number with six decimals, and the end at a negative index.
\<close>

section \<open>Operations\<close>

text \<open>What is still to be read, what was written, and the exit status once the program has ended.\<close>

record io_state =
  stdin :: string
  stdout :: string
  exit_status :: "int option"

text \<open>
  \<^verbatim>\<open>scanf("%d", &a)\<close>. Without a number in the input \<^verbatim>\<open>a\<close> keeps no value and is read; a number that
  does not fit \<^verbatim>\<open>int\<close> is undefined too.
\<close>

definition input :: "io_state \<Rightarrow> (i32 \<times> io_state) result" where
  "input p =
     (let s1 = dropWhile is_space (stdin p);
          (neg, s2) = (case s1 of [] \<Rightarrow> (False, [])
             | c # cs \<Rightarrow> if c = CHR ''-'' then (True, cs) else if c = CHR ''+'' then (False, cs) else (False, s1));
          ds = takeWhile is_digit s2;
          v = (if neg then - decimal ds else decimal ds) in
      if ds = [] \<or> v < - (2 ^ 31) \<or> 2 ^ 31 \<le> v then Inl UndefinedBehaviour
      else Inr (word_of_int v, p\<lparr>stdin := dropWhile is_digit s2\<rparr>))"

definition put :: "string \<Rightarrow> io_state \<Rightarrow> io_state" where
  "put s p = p\<lparr>stdout := stdout p @ s\<rparr>"

definition output_int :: "i32 \<Rightarrow> io_state \<Rightarrow> io_state" where
  "output_int a = put (to_string a @ [CHR 0x0A])"

text \<open>\<^verbatim>\<open>%f\<close>: six decimals of the exact value, rounded to nearest, ties to even.\<close>

definition six_digits :: "nat \<Rightarrow> string" where
  "six_digits n = drop (length (digits n)) ''000000'' @ digits n"

definition print_f :: "f32 \<Rightarrow> string" where
  "print_f x = (if f32_neg x then ''-'' else []) @
     (if f32_nan x then ''nan'' else if \<not> f32_finite x then ''inf''
      else let n = round_even (float_magnitude x * 10 ^ 6) (2 ^ 149) in
        digits (n div 10 ^ 6) @ ''.'' @ six_digits (n mod 10 ^ 6))"

definition outputFloat :: "f32 \<Rightarrow> io_state \<Rightarrow> io_state" where
  "outputFloat a = put (print_f a @ [CHR 0x0A])"

definition neg_idx_except :: "io_state \<Rightarrow> io_state" where
  "neg_idx_except p = (put (''negative index exception'' @ [CHR 0x0A]) p)\<lparr>exit_status := Some 0\<rparr>"

section \<open>Reading what was printed\<close>

lemma dropWhile_spaces: "list_all is_space ws \<Longrightarrow> dropWhile is_space (ws @ s) = dropWhile is_space s"
  by (induction ws) simp_all

lemma digits_prefix:
  assumes "\<not> is_digit c"
  shows "takeWhile is_digit (digits n @ c # s) = digits n" "dropWhile is_digit (digits n @ c # s) = c # s"
  using digits_spec [of n] assms by (simp_all add: takeWhile_append2 dropWhile_append2 list_all_iff)

lemma input_to_string:
  assumes "list_all is_space ws" "stdin p = ws @ to_string k @ CHR 0x0A # s"
  shows "input p = Inr (k, p\<lparr>stdin := CHR 0x0A # s\<rparr>)"
proof -
  have nl: "\<not> is_digit (CHR 0x0A)" by (simp add: is_digit_def)
  have range: "- (2 ^ 31) \<le> sint k" "sint k < 2 ^ 31"
    using sint_greater_eq [of k] sint_less [of k] by simp_all
  show ?thesis
  proof (cases "sint k < 0")
    case True
    have "dropWhile is_space (stdin p) = CHR ''-'' # digits (nat (- sint k)) @ CHR 0x0A # s"
      using True unfolding assms(2) dropWhile_spaces [OF assms(1)] to_string_def by (simp add: is_space_def)
    moreover have "- decimal (digits (nat (- sint k))) = sint k" using True digits_spec by simp
    ultimately show ?thesis using range digits_prefix [OF nl] by (simp add: input_def Let_def)
  next
    case False
    obtain c cs where c: "digits (nat (sint k)) = c # cs" by (cases "digits (nat (sint k))") auto
    then have "is_digit c" using digits_spec [of "nat (sint k)"] by simp
    then have no: "\<not> is_space c" "c \<noteq> CHR ''-''" "c \<noteq> CHR ''+''" by (auto simp: is_digit_def is_space_def)
    have d: "dropWhile is_space (stdin p) = digits (nat (sint k)) @ CHR 0x0A # s"
      using False no unfolding assms(2) dropWhile_spaces [OF assms(1)] to_string_def by (simp add: c)
    have "decimal (digits (nat (sint k))) = sint k" using False digits_spec by simp
    then show ?thesis using range no digits_prefix [OF nl, of "nat (sint k)" s] unfolding input_def d
      by (simp add: Let_def c)
  qed
qed

text \<open>Reading several integers one after the other.\<close>

fun inputs :: "nat \<Rightarrow> io_state \<Rightarrow> (i32 list \<times> io_state) result" where
  "inputs 0 p = Inr ([], p)"
| "inputs (Suc n) p = rbind (input p) (\<lambda>(k, p). rbind (inputs n p) (\<lambda>(ks, p). Inr (k # ks, p)))"

lemma outputs_stdout: "stdout (fold output_int ks q) = stdout q @ concat (map (\<lambda>k. to_string k @ [CHR 0x0A]) ks)"
  by (induction ks arbitrary: q) (simp_all add: output_int_def put_def)

lemma inputs_outputs:
  assumes "list_all is_space ws"
  shows "\<exists>r. list_all is_space r \<and>
    inputs (length ks) (p\<lparr>stdin := ws @ concat (map (\<lambda>k. to_string k @ [CHR 0x0A]) ks)\<rparr>) = Inr (ks, p\<lparr>stdin := r\<rparr>)"
  using assms
proof (induction ks arbitrary: ws)
  case (Cons k ks)
  have "list_all is_space [CHR 0x0A]" by (simp add: is_space_def)
  from Cons.IH [OF this] show ?case
    using input_to_string [OF Cons.prems, of "p\<lparr>stdin := _\<rparr>" k "concat (map (\<lambda>k. to_string k @ [CHR 0x0A]) ks)"] by auto
qed auto

text \<open>The printed decimal is the one nearest to the number.\<close>

lemma print_f_nearest:
  assumes "f32_finite x"
  defines "n \<equiv> round_even (float_magnitude x * 10 ^ 6) (2 ^ 149)"
  shows "print_f x = (if f32_neg x then ''-'' else []) @ digits (n div 10 ^ 6) @ ''.'' @ six_digits (n mod 10 ^ 6)"
    "\<bar>\<bar>f32_value x\<bar> - real n / 10 ^ 6\<bar> \<le> \<bar>\<bar>f32_value x\<bar> - real k / 10 ^ 6\<bar>"
proof -
  show "print_f x = (if f32_neg x then ''-'' else []) @ digits (n div 10 ^ 6) @ ''.'' @ six_digits (n mod 10 ^ 6)"
    using assms(1) by (simp add: print_f_def n_def finite_no_nan Let_def)
  have v: "\<bar>f32_value x\<bar> = real (float_magnitude x * 10 ^ 6) / 2 ^ 149 / 10 ^ 6"
    by (simp add: f32_value_def f32_units_def)
  have scale: "\<bar>real a / 2 ^ 149 / 10 ^ 6 - real j / 10 ^ 6\<bar> = \<bar>real a - real j * real (2 ^ 149)\<bar> / 2 ^ 149 / 10 ^ 6" for a j
  proof -
    have "real a / 2 ^ 149 / 10 ^ 6 - real j / 10 ^ 6 = (real a - real j * real (2 ^ 149)) / 2 ^ 149 / 10 ^ 6"
      by (simp add: field_simps)
    then show ?thesis by (simp only: abs_divide power_abs abs_numeral)
  qed
  show "\<bar>\<bar>f32_value x\<bar> - real n / 10 ^ 6\<bar> \<le> \<bar>\<bar>f32_value x\<bar> - real k / 10 ^ 6\<bar>"
    unfolding v scale using round_even_nearest(1) [of "2 ^ 149" "float_magnitude x * 10 ^ 6" k, folded n_def]
    by (simp add: divide_right_mono)
qed

lemma print_f_example: "print_f 0xC0200000 = ''-2.500000''"
  by (simp add: print_f_def f32_neg_def f32_nan_def f32_finite_def f32_exponent_def float_magnitude_def round_even_def
      six_digits_def digits.simps char_of_def bit_0 Let_def)

section \<open>Properties\<close>

text \<open>
  C38. Integers that were printed with \<^verbatim>\<open>output\<close> are read back by \<^verbatim>\<open>input\<close>, all of them in their order,
  the negative ones too, and only white space is left.
\<close>

theorem output_read_back:
  assumes "stdout q = []"
  shows "\<exists>r. list_all is_space r \<and>
    inputs (length ks) (p\<lparr>stdin := stdout (fold output_int ks q)\<rparr>) = Inr (ks, p\<lparr>stdin := r\<rparr>)"
  using inputs_outputs [of "[]" ks p] assms by (simp add: outputs_stdout)

theorem output_read_back_witness:
  "\<exists>r. list_all is_space r \<and> inputs 2 \<lparr>stdin = ''-7'' @ [CHR 0x0A] @ ''12'' @ [CHR 0x0A], stdout = [], exit_status = None\<rparr> =
    Inr ([- 7, 12], \<lparr>stdin = r, stdout = [], exit_status = None\<rparr>)"
proof -
  let ?q = "\<lparr>stdin = [], stdout = [], exit_status = None\<rparr>"
  have "stdout (fold output_int [- 7, 12] ?q) = ''-7'' @ [CHR 0x0A] @ ''12'' @ [CHR 0x0A]"
    by (simp add: output_int_def put_def to_string_def digits.simps char_of_def bit_0)
  moreover have "length [- 7, 12 :: i32] = 2" by simp
  moreover have "stdout ?q = []" by simp
  ultimately show ?thesis using output_read_back [of ?q "[- 7, 12]" ?q] by (simp del: inputs.simps list.size fold_simps)
qed

end
