(* ===== verification/Logging.thy ===== *)
theory Logging
  imports Driver Driver_Properties Ast_Roundtrip
begin

text \<open>
  The log of \<^verbatim>\<open>logging.hpp\<close> and \<^verbatim>\<open>logging.cpp\<close>: a writer is made for every message, with the level
  that the environment variable \<^verbatim>\<open>LOGV\<close> asks for.
\<close>

section \<open>Operations\<close>

datatype LogLevel = DEBUG | INFO | WARNING | ERROR

definition level_number :: "LogLevel \<Rightarrow> int" where
  "level_number l = (case l of DEBUG \<Rightarrow> 0 | INFO \<Rightarrow> 1 | WARNING \<Rightarrow> 2 | ERROR \<Rightarrow> 3)"

record LocationInfo =
  loc_file :: string
  loc_line :: i32
  loc_func :: string

record LogWriter =
  location :: LocationInfo
  log_level :: LogLevel
  env_log_level :: i32

text \<open>\<open>logv\<close> is the value of \<^verbatim>\<open>LOGV\<close>; a value that is no number throws, and nothing catches that.\<close>

definition new_LogWriter :: "string option \<Rightarrow> LocationInfo \<Rightarrow> LogLevel \<Rightarrow> LogWriter result" where
  "new_LogWriter logv loc l = (case logv of
       Some v \<Rightarrow> rbind (stoi v) (\<lambda>n. Inr \<lparr>location = loc, log_level = l, env_log_level = n\<rparr>)
     | None \<Rightarrow> Inr \<lparr>location = loc, log_level = l, env_log_level = 4\<rparr>)"

definition level2string :: "LogLevel \<Rightarrow> string" where
  "level2string l = (case l of DEBUG \<Rightarrow> ''DEBUG'' | INFO \<Rightarrow> ''INFO'' | WARNING \<Rightarrow> ''WARNING'' | ERROR \<Rightarrow> ''ERROR'')"

definition output_log :: "LogWriter \<Rightarrow> string \<Rightarrow> string" where
  "output_log w msg =
     (if level_number (log_level w) \<ge> sint (env_log_level w)
      then ''['' @ level2string (log_level w) @ ''] ('' @ loc_file (location w) @ '':'' @ to_string (loc_line (location w)) @
        ''L  '' @ loc_func (location w) @ '')'' @ msg @ [CHR 0x0A]
      else [])"

text \<open>\<^verbatim>\<open>index + 1\<close> is 0 when there is no slash.\<close>

definition get_short_name :: "string \<Rightarrow> string" where
  "get_short_name path = (case rfind CHR ''/'' path of Some index \<Rightarrow> drop (index + 1) path | None \<Rightarrow> path)"

text \<open>\<^verbatim>\<open>LOG_IF(level) << ...\<close> at a place of the code.\<close>

definition log_if :: "string option \<Rightarrow> string \<Rightarrow> i32 \<Rightarrow> string \<Rightarrow> LogLevel \<Rightarrow> string \<Rightarrow> string result" where
  "log_if logv file line func l msg =
     rbind (new_LogWriter logv \<lparr>loc_file = get_short_name file, loc_line = line, loc_func = func\<rparr> l) (\<lambda>w. Inr (output_log w msg))"

section \<open>Which messages are printed\<close>

lemma short_name_no_slash: "CHR ''/'' \<notin> set (get_short_name path)"
proof (cases "rfind CHR ''/'' path")
  case None
  have "rfind c xs = None \<Longrightarrow> c \<notin> set xs" for c xs
    by (induction xs) (auto split: option.splits if_splits)
  then show ?thesis using None by (simp add: get_short_name_def)
next
  case (Some i)
  then have "CHR ''/'' \<notin> set (drop (Suc i) path)" by (simp add: rfind_Some)
  moreover have "get_short_name path = drop (Suc i) path" using Some by (simp add: get_short_name_def)
  ultimately show ?thesis by simp
qed

text \<open>Without \<^verbatim>\<open>LOGV\<close> nothing is printed, and a level prints the messages from that level on.\<close>

lemma log_silent: "log_if None file line func l msg = Inr []"
  by (cases l) (simp_all add: log_if_def new_LogWriter_def output_log_def level_number_def)

lemma log_from_level:
  assumes "n < 4"
  shows "\<exists>t. log_if (Some (digits n)) file line func l msg = Inr t \<and> (t \<noteq> [] \<longleftrightarrow> int n \<le> level_number l)"
proof -
  have "sint (of_nat n :: i32) = int n" using assms by (auto simp: less_Suc_eq numeral_eq_Suc)
  then show ?thesis using stoi_digits [of n] assms
    by (simp add: log_if_def new_LogWriter_def output_log_def)
qed

lemma log_throws: "log_if (Some ''all'') file line func l msg = Inl InvalidArgument"
  by (simp add: log_if_def new_LogWriter_def stoi_def is_space_def is_digit_def)

end
