(* ===== verification/Spec2Isabelle.thy ===== *)
theory Spec2Isabelle
  imports Dom_Properties Ast_Properties Grammar_Properties Pass_Properties Ir_Properties Ir_Text Compiler_Properties Mem2Reg_Properties Gvn_Properties Driver_Properties Compiled_Properties Source_Properties Const_Folder Runtime Logging
begin

text \<open>
  A verification development for the C-minus compiler \<^verbatim>\<open>cminusfc\<close>.

  The program. \<^verbatim>\<open>main\<close> (\<^verbatim>\<open>src/cminusfc/cminusfc.cpp\<close>) reads the command line, lets the generated
  parser build a concrete syntax tree (\<^verbatim>\<open>src/parser\<close>, \<^verbatim>\<open>src/common/syntax_tree.c\<close>), turns it into
  an abstract syntax tree (\<^verbatim>\<open>src/common/ast.cpp\<close>), has \<^verbatim>\<open>CminusfBuilder\<close>
  (\<^verbatim>\<open>src/cminusfc/cminusf_builder.cpp\<close>) visit that tree and build a module of the light
  intermediate representation (\<^verbatim>\<open>src/lightir\<close>), runs the passes that were asked for through
  \<^verbatim>\<open>PassManager\<close> (\<^verbatim>\<open>src/optimization\<close>), prints the module to a file, and leaves the rest to
  \<^verbatim>\<open>clang\<close>. Objects of the representation are shared and mutable: a value knows its uses, a user
  its operands, a block its instructions and neighbours. The passes change them in place.

  How it is modelled. A call that can fail has the type \<open>'a result\<close>, a sum of \<open>cpp_error\<close>
  (\<^verbatim>\<open>std::abort\<close>, a failed assertion, an exception nobody catches, a null dereference, any other
  undefined behaviour) and the value; a loop that may not end has the type \<open>'a outcome\<close>, an option
  of that, whose \<open>None\<close> is a run that never returns. Such loops are \<open>partial_function\<close>s, and that
  they return is proved. The store is explicit: \<open>ir\<close> maps addresses to objects and keeps the lists
  of blocks and functions, \<open>alloc\<close> takes the next free address, and an erased object is no longer
  in the map, so that reading it is undefined. Addresses are numbers in the order of allocation.
  Where the code iterates over a \<^verbatim>\<open>std::set\<close> or \<^verbatim>\<open>std::map\<close> of pointers, the order is that of the
  machine addresses, which the parameter \<open>key\<close> gives. An \<^verbatim>\<open>int\<close> of the compiled program is a
  \<open>32 word\<close>, a \<^verbatim>\<open>float\<close> the word of its bits; list lengths and counters are natural numbers.

  Theories and sources.

  \<^item> \<open>Prelude\<close>: the two monads, folds over lists in them, decimal numerals. \<open>Worklist\<close>: the locale
    \<open>worklist_loop\<close> for loops that take an element from a queue and append the neighbours that are
    not marked yet; it is interpreted on \<^verbatim>\<open>FuncInfo::run\<close>, \<^verbatim>\<open>DeadCode::mark\<close> and the loop of
    \<^verbatim>\<open>Mem2Reg::generate_phi\<close>.
  \<^item> \<open>Syntax_Tree\<close>: \<^verbatim>\<open>syntax_tree.c\<close> and the helper \<^verbatim>\<open>node\<close> of \<^verbatim>\<open>syntax_analyzer.y\<close>. \<open>Ast\<close>: the
    classes of \<^verbatim>\<open>ast.hpp\<close> and \<^verbatim>\<open>transform_node_iter\<close>. \<open>Ast_Grammar\<close>: the trees that the grammar
    actions build. \<open>Ast_Roundtrip\<close>: the transformation inverts them. \<open>Ast_Printer\<close>: \<^verbatim>\<open>ASTPrinter\<close>.
    \<open>Ast_Properties\<close>: the properties.
  \<^item> \<open>Lexer\<close>: the patterns and actions of \<^verbatim>\<open>lexical_analyzer.l\<close> and what flex makes of them (longest
    match, first rule, default rule). \<open>Grammar\<close>: the productions and actions of \<^verbatim>\<open>syntax_analyzer.y\<close>
    and the parses of a sequence of tokens. \<open>Grammar_Reads\<close>: the texts that the transformation reads
    on its way through a tree. \<open>Lexer_Properties\<close>, \<open>Grammar_Properties\<close>: the properties.
  \<^item> \<open>Cfg\<close>: the lists of predecessors and successors (\<^verbatim>\<open>BasicBlock.h\<close>, \<^verbatim>\<open>Function.cpp\<close>,
    \<^verbatim>\<open>Instruction.cpp\<close>). \<open>Dominance\<close>: paths, domination, frontiers, the specification. \<open>Dominators\<close>:
    the pass of \<^verbatim>\<open>Dominators.cpp\<close>. \<open>Post_Order\<close>, \<open>Idom_Tree\<close>, \<open>Idom_Run\<close>, \<open>Idom_Correct\<close> and
    \<open>Dom_Run\<close>: its steps against the specification. \<open>Dom_Properties\<close>: the properties.
  \<^item> \<open>Ir_Types\<close>: \<^verbatim>\<open>Type.cpp\<close> and the type maps of \<^verbatim>\<open>Module.cpp\<close>, with the locale
    \<open>intern_table\<close> of a map that makes one object per key, interpreted on types and constants.
    \<open>Ir_Values\<close>: \<^verbatim>\<open>Value\<close>, \<^verbatim>\<open>User\<close>, \<^verbatim>\<open>Instruction\<close>, \<^verbatim>\<open>BasicBlock\<close>, \<^verbatim>\<open>Function\<close>. \<open>Ir_Constants\<close>:
    \<^verbatim>\<open>Constant.cpp\<close> with its caches. \<open>Ir_Print\<close>: the printers. \<open>Ir_Uses\<close> and \<open>Ir_Steps\<close>: the lists
    of uses agree with the operands (\<open>uses_ok\<close>). \<open>Ir_Properties\<close>, \<open>Ir_Text\<close>: the properties.
  \<^item> \<open>Scope\<close>, \<open>Builder\<close>, \<open>Builder_Program\<close>: \<^verbatim>\<open>Scope\<close> (its contract is the locale \<open>nested_scopes\<close>), \<^verbatim>\<open>IRBuilder\<close> and \<^verbatim>\<open>CminusfBuilder\<close>. \<open>Ir_Growth\<close>
    and \<open>Ir_Built\<close>: the invariant \<open>well_built\<close> of modules under construction. \<open>Builder_Flow\<close>,
    \<open>Builder_Steps\<close>, \<open>Builder_Run\<close>, \<open>Builder_Correct\<close>: every visitor keeps it. \<open>Builder_Scoping\<close>:
    the scoping rules as a check on the tree. \<open>Compiler_Properties\<close>: the properties.
  \<^item> \<open>Func_Info\<close>, \<open>Dead_Code\<close>, \<open>Dead_Sweep\<close>, \<open>Dead_Keeps\<close>, \<open>Pass_Properties\<close>: \<^verbatim>\<open>FuncInfo.h\<close> and
    \<^verbatim>\<open>DeadCode.h\<close>, and that they keep what the builder promises.
    \<open>Mem2Reg\<close>: \<^verbatim>\<open>Mem2Reg.cpp\<close>. \<open>Mem2Reg_Phi\<close>: the placement of phi functions. \<open>Mem2Reg_Rename\<close>: a
    meaning for blocks, and that renaming the loads and stores of a block keeps it. \<open>Mem2Reg_Unset\<close>:
    what the pass does with a variable that no store has to do with.
    \<open>Mem2Reg_Properties\<close>: the properties. \<open>Gvn\<close>, \<open>Gvn_Properties\<close>:
    the pass of \<^verbatim>\<open>GVN.cpp\<close>. \<open>Float_Ops\<close>: the operators on \<^verbatim>\<open>float\<close> and that they are correctly
    rounded. \<open>Const_Folder\<close>: the class \<^verbatim>\<open>ConstFolder\<close> of \<^verbatim>\<open>GVN.cpp\<close>, which nothing calls. \<open>Driver\<close>, \<open>Driver_Properties\<close>: \<^verbatim>\<open>cminusfc.cpp\<close> and \<^verbatim>\<open>PassManager.hpp\<close>.
  \<^item> \<open>Pipeline\<close>, \<open>Ir_Printable\<close>, \<open>Compiled_Passes\<close>, \<open>Compiled_Properties\<close>: what the builder makes
    meets what the passes, the printer and \<^verbatim>\<open>main\<close> rely on. \<open>Source_Properties\<close>: the whole way from
    the source text to the file that \<^verbatim>\<open>main\<close> writes.
  \<^item> \<open>Runtime\<close>: \<^verbatim>\<open>io.c\<close>, the library of the compiled programs. \<open>Logging\<close>: \<^verbatim>\<open>logging.hpp\<close>.

  What the lemmas show. The scanner counts every line, skips comments up to their first end, and
  returns words between blanks with their places. Of a tree that the grammar derives from scanned
  tokens the transformation makes a program exactly when identifiers and numbers fit the buffers
  and the types, and every program whose words fit has a source text that leads back to it. The invariant \<open>well_built\<close> says that uses and operands agree, that the graph
  of every function is well formed with an entry nothing branches to, that every instruction is in
  one block, has operands that are older and of the same function, and is well typed, and that
  globals have constant initialisers. Every operation of the builder keeps it, so it holds for
  every module that \<open>compile\<close> returns. From it follow the hypotheses of the passes: the purity
  analysis and dead-code elimination return, keep exactly the needed instructions and leave a
  module that is \<open>well_built\<close> again; the
  dominator pass computes the dominators over all paths exactly when it returns, and it returns
  exactly when no reachable merge block has an unreachable predecessor; \<open>generate_phi\<close> places phi
  functions on iterated dominance frontiers, and the renaming of a block keeps its meaning; the printer returns its text. Errors of the code are
  theorems too: programs on which \<^verbatim>\<open>-mem2reg\<close> never returns or fails its assertion, the dangling
  operands that it leaves of variables without a store, and \<^verbatim>\<open>-gvn\<close>, which has undefined behaviour on every module with a function body.

  Bounds. The recursion of \<open>post_order_visit\<close> has as fuel the number of blocks, which is enough as
  every call visits another block; the recursion of \<open>print_constant\<close> has \<open>next_addr\<close>, which is
  enough as the elements of an array are older than the array; every other loop is structural, has
  a measure, or is a \<open>partial_function\<close>.

  Not modelled. The tables that flex and bison generate: the parser is a parameter of \<^verbatim>\<open>main\<close>, and
  \<open>parses\<close> is the relation of tokens and trees that it has to choose from. The log
  messages of the passes and the driver, the help text and the notes that \<^verbatim>\<open>CminusfBuilder\<close> writes are left out of
  their models. Numbers of lines, columns, uses and instructions are unbounded, which differs from
  the C++ types \<^verbatim>\<open>int\<close> and \<^verbatim>\<open>unsigned\<close> from 2^31 on. Deallocation: \<^verbatim>\<open>del_syntax_tree\<close> and destructors.
\<close>

end
